(* ===== verification/Prelude.thy ===== *)
theory Prelude
  imports Main "HOL-Library.Sublist" "HOL-Library.AList"
begin

text \<open>
  Shared vocabulary of the development.

  \<^item> \<open>gerr\<close>: every error value the Go code returns.  The sentinel errors of
    \<^verbatim>\<open>types/errors.go\<close> are constructors of the same name, those of
    \<^verbatim>\<open>drivers/driver.go\<close> follow them; \<open>errors.Wrapf\<close> is
    represented by its cause, because the callers compare causes only; the remaining
    constructors are operating-system errors, anonymous \<open>errors.New\<close> values, aggregated
    errors and panics.
  \<^item> \<open>go\<close>: the type of a stateful Go function: it maps a state to a result (an error or a
    value) and the state it leaves behind.  A Go function that fails keeps the changes it made
    before failing, so the state is returned in both cases.
  \<^item> the small slice helpers of \<^verbatim>\<open>store.go\<close> and \<^verbatim>\<open>pkg/stringutils\<close>,
    and the list, map and object-heap lemmas the component theories share.
\<close>

named_theorems go_simps "unfolding of the state-passing combinators"
named_theorems frame_simps "which fields an operation leaves unchanged"

section \<open>Errors and results\<close>

datatype gerr =
    ErrContainerUnknown
  | ErrDigestUnknown
  | ErrDuplicateID
  | ErrDuplicateImageNames
  | ErrDuplicateLayerNames
  | ErrDuplicateName
  | ErrImageUnknown
  | ErrImageUsedByContainer
  | ErrIncompleteOptions
  | ErrInvalidBigDataName
  | ErrLayerHasChildren
  | ErrLayerNotMounted
  | ErrLayerUnknown
  | ErrLayerUsedByContainer
  | ErrLayerUsedByImage
  | ErrLoadError
  | ErrNotAContainer
  | ErrNotALayer
  | ErrNotAnID
  | ErrNotAnImage
  | ErrParentIsContainer
  | ErrParentUnknown
  | ErrSizeUnknown
  | ErrStoreIsReadOnly
  | ErrNotSupported
  | DriverErrNotSupported
  | ErrPrerequisites
  | ErrIncompatibleFS
  | NotExist
  | SysErr nat
  | Errorf string
  | MultiErr "gerr list"
  | Panic string
  | Blocked string

type_synonym ('s, 'a) go = "'s \<Rightarrow> (gerr + 'a) \<times> 's"

definition ret :: "'a \<Rightarrow> ('s, 'a) go" where
  "ret x s = (Inr x, s)"

definition fail :: "gerr \<Rightarrow> ('s, 'a) go" where
  "fail e s = (Inl e, s)"

definition bind :: "('s, 'a) go \<Rightarrow> ('a \<Rightarrow> ('s, 'b) go) \<Rightarrow> ('s, 'b) go" where
  "bind m f s = (case m s of (Inl e, s') \<Rightarrow> (Inl e, s') | (Inr x, s') \<Rightarrow> f x s')"

definition is_ok :: "(gerr + 'a) \<times> 's \<Rightarrow> bool" where
  "is_ok p = (case fst p of Inl _ \<Rightarrow> False | Inr _ \<Rightarrow> True)"

text \<open>
  \<open>on_fst\<close> and \<open>on_snd\<close> run an operation of one component on a pair of component states.
\<close>

definition on_fst :: "('s, 'a) go \<Rightarrow> ('s \<times> 't, 'a) go" where
  "on_fst m p = (let (x, s') = m (fst p) in (x, (s', snd p)))"

definition on_snd :: "('t, 'a) go \<Rightarrow> ('s \<times> 't, 'a) go" where
  "on_snd m p = (let (x, t') = m (snd p) in (x, (fst p, t')))"

declare ret_def [go_simps] fail_def [go_simps] bind_def [go_simps]
  on_fst_def [go_simps] on_snd_def [go_simps]

lemma ret_apply [simp]: "ret x s = (Inr x, s)"
  by (simp add: ret_def)

lemma fail_apply [simp]: "fail e s = (Inl e, s)"
  by (simp add: fail_def)

lemma is_ok_iff [simp]: "is_ok (Inr x, s)" "\<not> is_ok (Inl e, s)"
  by (simp_all add: is_ok_def)

lemma bind_Inr: "m s = (Inr x, s') \<Longrightarrow> bind m f s = f x s'"
  by (simp add: bind_def)

lemma bind_Inl: "m s = (Inl e, s') \<Longrightarrow> bind m f s = (Inl e, s')"
  by (simp add: bind_def)

lemma snd_bind_ret: "snd (bind m (\<lambda>_. ret x) s) = snd (m s)"
  by (auto simp: bind_def split: prod.splits sum.splits)

text \<open>
  \<open>abnormal\<close>: outcomes that no error check of the code sees, because control does not come back
  to it.  \<open>attempt\<close> is a call whose error the code inspects, \<open>ignoring\<close> one whose error it
  drops, and \<open>deferred c m\<close> runs \<open>m\<close> with \<open>defer c()\<close>: \<open>c\<close> runs after \<open>m\<close> returned or
  panicked, its error is dropped and a panic in it is not.
\<close>

definition abnormal :: "gerr \<Rightarrow> bool" where
  "abnormal e = (case e of Panic _ \<Rightarrow> True | Blocked _ \<Rightarrow> True | _ \<Rightarrow> False)"

definition attempt :: "('s, 'a) go \<Rightarrow> ('s, gerr + 'a) go" where
  "attempt m s =
     (case m s of
        (Inl e, s') \<Rightarrow> if abnormal e then (Inl e, s') else (Inr (Inl e), s')
      | (Inr x, s') \<Rightarrow> (Inr (Inr x), s'))"

definition ignoring :: "('s, 'a) go \<Rightarrow> ('s, unit) go" where
  "ignoring m = bind (attempt m) (\<lambda>_. ret ())"

definition blocked :: "gerr + 'a \<Rightarrow> bool" where
  "blocked res = (case res of Inl (Blocked _) \<Rightarrow> True | _ \<Rightarrow> False)"

definition deferred :: "('s, unit) go \<Rightarrow> ('s, 'a) go \<Rightarrow> ('s, 'a) go" where
  "deferred c m s =
     (let (res, s1) = m s in
      if blocked res then (res, s1)
      else (case ignoring c s1 of (Inl e, s2) \<Rightarrow> (Inl e, s2) | (Inr _, s2) \<Rightarrow> (res, s2)))"

definition modify :: "('s \<Rightarrow> 's) \<Rightarrow> ('s, unit) go" where
  "modify f s = (Inr (), f s)"

text \<open>
  \<open>keeps P m\<close>: the operation preserves the predicate, whatever its outcome.  The rules below
  carry the invariant proofs of operations that are composed from smaller ones.
\<close>

definition keeps :: "('s \<Rightarrow> bool) \<Rightarrow> ('s, 'a) go \<Rightarrow> bool" where
  "keeps P m \<longleftrightarrow> (\<forall>s. P s \<longrightarrow> P (snd (m s)))"

named_theorems keeps_rules "operations that preserve an invariant"

lemma keepsI: "(\<And>s res s'. P s \<Longrightarrow> m s = (res, s') \<Longrightarrow> P s') \<Longrightarrow> keeps P m"
  unfolding keeps_def by (metis prod.collapse)

lemma keepsI2: "(\<And>s. P s \<Longrightarrow> P (snd (m s))) \<Longrightarrow> keeps P m"
  by (simp add: keeps_def)

lemma keepsD: "keeps P m \<Longrightarrow> P s \<Longrightarrow> m s = (res, s') \<Longrightarrow> P s'"
  by (metis keeps_def snd_conv)

lemma keeps_snd: "keeps P m \<Longrightarrow> P s \<Longrightarrow> P (snd (m s))"
  by (simp add: keeps_def)

lemma keeps_ret [keeps_rules]: "keeps P (ret x)"
  and keeps_fail [keeps_rules]: "keeps P (fail e)"
  by (simp_all add: keeps_def)

lemma keeps_modify: "(\<And>s. P s \<Longrightarrow> P (f s)) \<Longrightarrow> keeps P (modify f)"
  by (simp add: keeps_def modify_def)

lemma keeps_bind [keeps_rules]: "keeps P m \<Longrightarrow> (\<And>x. keeps P (f x)) \<Longrightarrow> keeps P (bind m f)"
  by (force simp: keeps_def bind_def split: prod.splits sum.splits)

lemma keeps_conj: "keeps P m \<Longrightarrow> keeps Q m \<Longrightarrow> keeps (\<lambda>s. P s \<and> Q s) m"
  by (simp add: keeps_def)

lemma bind_InrE:
  assumes "bind m f s = (Inr y, s')"
  obtains x s1 where "m s = (Inr x, s1)" "f x s1 = (Inr y, s')"
  using assms by (auto simp: bind_def split: prod.splits sum.splits)

lemma keeps_attempt [keeps_rules]: "keeps P m \<Longrightarrow> keeps P (attempt m)"
  by (force simp: keeps_def attempt_def split: prod.splits sum.splits)

lemma keeps_ignoring [keeps_rules]: "keeps P m \<Longrightarrow> keeps P (ignoring m)"
  unfolding ignoring_def by (intro keeps_rules)

lemma deferred_run:
  assumes "m s = (res, s1)" "ignoring c s1 = (y, s2)"
  shows "deferred c m s =
    (if blocked res then (res, s1) else case y of Inl e \<Rightarrow> (Inl e, s2) | Inr _ \<Rightarrow> (res, s2))"
  using assms by (simp add: deferred_def split: sum.splits)

lemma keeps_deferred [keeps_rules]:
  assumes "keeps P c" "keeps P m"
  shows "keeps P (deferred c m)"
proof (rule keepsI)
  fix s res s' assume "P s" and run: "deferred c m s = (res, s')"
  obtain res1 s1 where m: "m s = (res1, s1)" by force
  have "P s1" by (rule keepsD [OF assms(2) \<open>P s\<close> m])
  obtain y s2 where c: "ignoring c s1 = (y, s2)" by force
  have "P s2" by (rule keepsD [OF keeps_ignoring [OF assms(1)] \<open>P s1\<close> c])
  have "s' = s1 \<or> s' = s2"
    using run unfolding deferred_run [where m = m and s = s and c = c, OF m c] by (cases y) (auto split: if_splits)
  with \<open>P s1\<close> \<open>P s2\<close> show "P s'" by blast
qed

text \<open>
  \<open>ensures P m Q\<close>: a run of \<open>m\<close> from a state with \<open>P\<close> that succeeds returns a value and a state
  with \<open>Q\<close>; nothing is said about a run that fails.
\<close>

definition ensures :: "('s \<Rightarrow> bool) \<Rightarrow> ('s, 'a) go \<Rightarrow> ('a \<Rightarrow> 's \<Rightarrow> bool) \<Rightarrow> bool" where
  "ensures P m Q \<longleftrightarrow> (\<forall>s x s'. P s \<longrightarrow> m s = (Inr x, s') \<longrightarrow> Q x s')"

lemma ensuresI: "(\<And>s x s'. P s \<Longrightarrow> m s = (Inr x, s') \<Longrightarrow> Q x s') \<Longrightarrow> ensures P m Q"
  by (simp add: ensures_def)

lemma ensuresD: "ensures P m Q \<Longrightarrow> P s \<Longrightarrow> m s = (Inr x, s') \<Longrightarrow> Q x s'"
  by (simp add: ensures_def)

lemma ensures_ret: "(\<And>s. P s \<Longrightarrow> Q x s) \<Longrightarrow> ensures P (ret x) Q"
  and ensures_fail: "ensures P (fail e) Q"
  by (simp_all add: ensures_def)

lemma ensures_bind:
  assumes "ensures P m R" "\<And>x. ensures (R x) (f x) Q"
  shows "ensures P (bind m f) Q"
proof (rule ensuresI)
  fix s y s' assume "P s" and run: "bind m f s = (Inr y, s')"
  obtain r1 s1 where m: "m s = (r1, s1)" by (rule prod.exhaust)
  then obtain x where "r1 = Inr x" "f x s1 = (Inr y, s')" using run by (cases r1) (simp_all add: bind_def)
  then show "Q y s'" using ensuresD [OF assms(1) \<open>P s\<close>] ensuresD [OF assms(2)] m by blast
qed

lemma ensures_weaken:
  "ensures P m Q \<Longrightarrow> (\<And>s. P' s \<Longrightarrow> P s) \<Longrightarrow> (\<And>x s. Q x s \<Longrightarrow> Q' x s) \<Longrightarrow> ensures P' m Q'"
  unfolding ensures_def by blast

lemma ensures_keeps: "keeps P m \<Longrightarrow> ensures P m (\<lambda>_. P)"
  by (auto simp: ensures_def dest: keepsD)

lemma ensures_deferred:
  assumes "ensures P m Q" "\<And>x. keeps (Q x) c"
  shows "ensures P (deferred c m) Q"
proof (rule ensuresI)
  fix s x s' assume "P s" and run: "deferred c m s = (Inr x, s')"
  obtain r1 s1 where m: "m s = (r1, s1)" by (rule prod.exhaust)
  obtain y s2 where c: "ignoring c s1 = (y, s2)" by (rule prod.exhaust)
  have "r1 = Inr x \<and> s' = s2"
    using run unfolding deferred_run [where m = m and s = s and c = c, OF m c]
    by (cases y) (auto split: if_splits simp: blocked_def)
  moreover from this have "Q x s1" using ensuresD [OF assms(1) \<open>P s\<close>] m by blast
  ultimately show "Q x s'" using keepsD [OF keeps_ignoring [OF assms(2)] _ c] by blast
qed

text \<open>The error of an attempted operation: \<open>K\<close> holds whatever the outcome.\<close>

lemma ensures_attempt:
  assumes "ensures P m Q" "keeps K m" "\<And>s. P s \<Longrightarrow> K s"
  shows "ensures P (attempt m) (\<lambda>res s. case res of Inl _ \<Rightarrow> K s | Inr x \<Rightarrow> Q x s)"
proof (rule ensuresI)
  fix s x s' assume "P s" and run: "attempt m s = (Inr x, s')"
  obtain r1 s1 where m: "m s = (r1, s1)" by (rule prod.exhaust)
  have "K s1" by (rule keepsD [OF assms(2) assms(3) [OF \<open>P s\<close>] m])
  moreover have "s1 = s' \<and> x = r1" using run m by (cases r1) (auto simp: attempt_def split: if_splits)
  ultimately show "case x of Inl _ \<Rightarrow> K s' | Inr x \<Rightarrow> Q x s'"
    using ensuresD [OF assms(1) \<open>P s\<close>] m by (cases x) auto
qed

lemma ensures_if: "(b \<Longrightarrow> ensures P m Q) \<Longrightarrow> (\<not> b \<Longrightarrow> ensures P n Q) \<Longrightarrow> ensures P (if b then m else n) Q"
  by simp

section \<open>Slices of strings\<close>

text \<open>\<open>dedupeNames\<close>: the loop carries the set \<open>seen\<close> and keeps the first occurrences.\<close>

fun dedupe_from :: "string set \<Rightarrow> string list \<Rightarrow> string list" where
  "dedupe_from seen [] = []"
| "dedupe_from seen (n # ns) =
     (if n \<in> seen then dedupe_from seen ns else n # dedupe_from (insert n seen) ns)"

definition dedupeNames :: "string list \<Rightarrow> string list" where
  "dedupeNames names = dedupe_from {} names"

fun stringSliceWithoutValue :: "string list \<Rightarrow> string \<Rightarrow> string list" where
  "stringSliceWithoutValue [] value = []"
| "stringSliceWithoutValue (v # vs) value =
     (if v = value then stringSliceWithoutValue vs value
      else v # stringSliceWithoutValue vs value)"

lemma set_dedupe_from [simp]: "set (dedupe_from seen ns) = set ns - seen"
  by (induction seen ns rule: dedupe_from.induct) auto

lemma distinct_dedupe_from [simp]: "distinct (dedupe_from seen ns)"
  by (induction seen ns rule: dedupe_from.induct) auto

lemma dedupe_from_id: "distinct ns \<Longrightarrow> set ns \<inter> seen = {} \<Longrightarrow> dedupe_from seen ns = ns"
  by (induction ns arbitrary: seen) auto

lemma set_dedupeNames [simp]: "set (dedupeNames ns) = set ns"
  by (simp add: dedupeNames_def)

lemma distinct_dedupeNames [simp]: "distinct (dedupeNames ns)"
  by (simp add: dedupeNames_def)

lemma dedupeNames_id: "distinct ns \<Longrightarrow> dedupeNames ns = ns"
  by (simp add: dedupeNames_def dedupe_from_id)

lemma stringSliceWithoutValue_filter:
  "stringSliceWithoutValue vs value = filter (\<lambda>v. v \<noteq> value) vs"
  by (induction vs) auto

lemma set_stringSliceWithoutValue [simp]:
  "set (stringSliceWithoutValue vs value) = set vs - {value}"
  by (auto simp: stringSliceWithoutValue_filter)

lemma distinct_stringSliceWithoutValue [simp]:
  "distinct vs \<Longrightarrow> distinct (stringSliceWithoutValue vs value)"
  by (simp add: stringSliceWithoutValue_filter)

section \<open>Lists updated by index\<close>

text \<open>The first index whose element satisfies a predicate: the search loops of \<open>Delete\<close>.\<close>

fun find_index :: "('a \<Rightarrow> bool) \<Rightarrow> 'a list \<Rightarrow> nat option" where
  "find_index P [] = None"
| "find_index P (x # xs) = (if P x then Some 0 else map_option Suc (find_index P xs))"

text \<open>\<open>append(xs[:i], xs[i+1:]...)\<close>\<close>

definition remove_nth :: "nat \<Rightarrow> 'a list \<Rightarrow> 'a list" where
  "remove_nth i xs = take i xs @ drop (Suc i) xs"

lemma find_index_Some:
  "find_index P xs = Some i \<Longrightarrow> i < length xs \<and> P (xs ! i)"
  by (induction xs arbitrary: i) (auto split: if_splits)

lemma find_index_None: "find_index P xs = None \<longleftrightarrow> (\<forall>x \<in> set xs. \<not> P x)"
  by (induction xs) auto

lemma remove_nth_Cons [simp]:
  "remove_nth 0 (x # xs) = xs" "remove_nth (Suc i) (x # xs) = x # remove_nth i xs"
  by (simp_all add: remove_nth_def)

lemma remove_nth_eq_filter:
  "distinct xs \<Longrightarrow> i < length xs \<Longrightarrow> remove_nth i xs = filter (\<lambda>x. x \<noteq> xs ! i) xs"
proof (induction xs arbitrary: i)
  case Nil
  then show ?case by simp
next
  case (Cons x xs)
  then show ?case
    by (cases i) (auto intro!: filter_True [symmetric])
qed

lemma set_remove_nth:
  "distinct xs \<Longrightarrow> i < length xs \<Longrightarrow> set (remove_nth i xs) = set xs - {xs ! i}"
  by (auto simp: remove_nth_eq_filter)

lemma distinct_remove_nth:
  "distinct xs \<Longrightarrow> i < length xs \<Longrightarrow> distinct (remove_nth i xs)"
  by (simp add: remove_nth_eq_filter)

lemma length_remove_nth [simp]:
  "i < length xs \<Longrightarrow> length (remove_nth i xs) = length xs - 1"
  by (simp add: remove_nth_def)

lemma nth_list_update_if:
  "i < length xs \<Longrightarrow> xs[i := y] ! j = (if i = j then y else xs ! j)"
  by simp

section \<open>Association lists\<close>

lemma map_of_update: "map_of (AList.update k v al) k' = (if k' = k then Some v else map_of al k')"
  by (simp add: update_conv)

lemma map_of_delete: "map_of (AList.delete k al) k' = (if k' = k then None else map_of al k')"
  by (simp add: delete_conv)

section \<open>Strings\<close>

text \<open>\<open>strings.Split\<close> with a one-byte separator, \<open>strings.TrimSpace\<close> on ASCII text.\<close>

fun split_on :: "char \<Rightarrow> string \<Rightarrow> string list" where
  "split_on c [] = [[]]"
| "split_on c (x # xs) =
     (if x = c then [] # split_on c xs
      else (case split_on c xs of [] \<Rightarrow> [[x]] | y # ys \<Rightarrow> (x # y) # ys))"

definition is_space :: "char \<Rightarrow> bool" where
  "is_space c \<longleftrightarrow> (of_char c :: nat) \<in> {9, 10, 11, 12, 13, 32}"

definition trim_space :: "string \<Rightarrow> string" where
  "trim_space s = rev (dropWhile is_space (rev (dropWhile is_space s)))"

text \<open>\<open>strings.SplitN(opt, "=", 2)\<close> and the trimming of \<^verbatim>\<open>pkg/parsers/parsers.go\<close>.\<close>

definition ParseKeyValueOpt :: "string \<Rightarrow> gerr + (string \<times> string)" where
  "ParseKeyValueOpt opt =
     (if CHR ''='' \<notin> set opt then Inl (Errorf ''Unable to parse key/value option'')
      else Inr (trim_space (takeWhile (\<lambda>c. c \<noteq> CHR ''='') opt), trim_space (tl (dropWhile (\<lambda>c. c \<noteq> CHR ''='') opt))))"

text \<open>Decimal numerals: \<open>%d\<close> and the digit loop of \<open>strconv.ParseUint\<close>.\<close>

definition digit_of :: "nat \<Rightarrow> char" where
  "digit_of d = char_of (48 + d)"

definition is_digit :: "char \<Rightarrow> bool" where
  "is_digit c \<longleftrightarrow> 48 \<le> (of_char c :: nat) \<and> (of_char c :: nat) \<le> 57"

definition digit_val :: "char \<Rightarrow> nat" where
  "digit_val c = of_char c - 48"

fun show_nat :: "nat \<Rightarrow> string" where
  "show_nat n = (if n < 10 then [digit_of n] else show_nat (n div 10) @ [digit_of (n mod 10)])"

declare show_nat.simps [simp del]

definition dec_val :: "string \<Rightarrow> nat" where
  "dec_val ds = foldl (\<lambda>a c. 10 * a + digit_val c) 0 ds"

text \<open>\<open>strconv.ParseUint(s, 10, bits)\<close>: only digits, at least one, and in range.\<close>

definition parse_uint :: "nat \<Rightarrow> string \<Rightarrow> nat option" where
  "parse_uint bits s =
     (if s \<noteq> [] \<and> list_all is_digit s \<and> dec_val s < 2 ^ bits then Some (dec_val s) else None)"

text \<open>\<open>strconv.Atoi\<close> on a 64-bit platform: an optional sign, digits, and the range of \<open>int\<close>.\<close>

definition atoi :: "string \<Rightarrow> int option" where
  "atoi s =
     (let neg = (s \<noteq> [] \<and> hd s = CHR ''-'');
          ds = (if s \<noteq> [] \<and> hd s \<in> {CHR ''-'', CHR ''+''} then tl s else s)
      in if ds = [] \<or> \<not> list_all is_digit ds then None
         else let v = (if neg then - int (dec_val ds) else int (dec_val ds))
              in if - (2 ^ 63) \<le> v \<and> v < 2 ^ 63 then Some v else None)"

lemma split_on_not_Nil [simp]: "split_on c s \<noteq> []"
  by (induction c s rule: split_on.induct) (auto split: list.splits)

lemma split_on_no_sep: "c \<notin> set s \<Longrightarrow> split_on c s = [s]"
  by (induction s) auto

lemma split_on_append:
  "c \<notin> set s \<Longrightarrow> split_on c (s @ c # t) = s # split_on c t"
  by (induction s) auto

lemma of_char_digit_of [simp]: "d < 10 \<Longrightarrow> (of_char (digit_of d) :: nat) = 48 + d"
  by (simp add: digit_of_def)

lemma is_digit_digit_of [simp]: "d < 10 \<Longrightarrow> is_digit (digit_of d)"
  by (simp add: is_digit_def)

lemma digit_val_digit_of [simp]: "d < 10 \<Longrightarrow> digit_val (digit_of d) = d"
  by (simp add: digit_val_def)

lemma dec_val_snoc [simp]: "dec_val (ds @ [c]) = 10 * dec_val ds + digit_val c"
  by (simp add: dec_val_def)

lemma show_nat_digits: "list_all is_digit (show_nat n) \<and> show_nat n \<noteq> [] \<and> dec_val (show_nat n) = n"
proof (induction n rule: show_nat.induct)
  case (1 n)
  show ?case
  proof (cases "n < 10")
    case True
    then show ?thesis by (subst (1 2 3) show_nat.simps) (simp add: dec_val_def)
  next
    case False
    with "1.IH" show ?thesis
      by (subst (1 2 3) show_nat.simps) simp
  qed
qed

lemma parse_uint_show_nat: "n < 2 ^ b \<Longrightarrow> parse_uint b (show_nat n) = Some n"
  using show_nat_digits [of n] by (simp add: parse_uint_def)

lemma digit_not_colon: "is_digit c \<Longrightarrow> c \<noteq> CHR '':''"
  by (auto simp: is_digit_def)

lemma colon_notin_show_nat [simp]: "CHR '':'' \<notin> set (show_nat n)"
  using show_nat_digits [of n] digit_not_colon by (auto simp: list_all_iff)

lemma parse_uint_bound: "parse_uint b s = Some n \<Longrightarrow> n < 2 ^ b"
  by (auto simp: parse_uint_def split: if_splits)

text \<open>Sums of sizes are 64-bit integers: the value of \<open>int64\<close> after wrap-around.\<close>

definition int64 :: "int \<Rightarrow> int" where
  "int64 n = (n + 2 ^ 63) mod 2 ^ 64 - 2 ^ 63"

end
