(* ===== verification/TruncIndex.thy ===== *)
theory TruncIndex
  imports Prelude
begin

text \<open>
  The index of identifiers by unique prefix: \<^verbatim>\<open>pkg/truncindex/truncindex.go\<close>.

  The patricia trie of the vendored package \<^verbatim>\<open>tchap/go-patricia\<close> is represented by
  the list of keys it holds: \<open>Insert\<close> reports whether the key was new, \<open>Delete\<close> whether it was
  there, and \<open>VisitSubtree\<close> calls the visitor on the keys that extend the prefix.
\<close>

record TruncIndex =
  trie :: "string list"
  tids :: "string set"

definition trie_Insert :: "string \<Rightarrow> string list \<Rightarrow> bool \<times> string list" where
  "trie_Insert k t = (if k \<in> set t then (False, t) else (True, t @ [k]))"

definition trie_Delete :: "string \<Rightarrow> string list \<Rightarrow> bool \<times> string list" where
  "trie_Delete k t = (k \<in> set t, filter (\<lambda>x. x \<noteq> k) t)"

definition trie_Subtree :: "string \<Rightarrow> string list \<Rightarrow> string list" where
  "trie_Subtree s t = filter (prefix s) t"

abbreviation "ErrEmptyPrefix \<equiv> Errorf ''Prefix cannot be empty''"
abbreviation "ErrIllegalChar \<equiv> Errorf ''illegal character: space''"
abbreviation "ErrNotExist \<equiv> Errorf ''ID does not exist''"
abbreviation "ErrAmbiguousPrefix \<equiv> Errorf ''Multiple IDs found with provided prefix''"

definition addID :: "string \<Rightarrow> (TruncIndex, unit) go" where
  "addID k idx =
     (if CHR '' '' \<in> set k then (Inl ErrIllegalChar, idx)
      else if k = [] then (Inl ErrEmptyPrefix, idx)
      else if k \<in> tids idx then (Inl (Errorf ''id already exists''), idx)
      else let (inserted, t) = trie_Insert k (trie idx);
               idx' = idx\<lparr>tids := insert k (tids idx), trie := t\<rparr>
           in if \<not> inserted then (Inl (Errorf ''failed to insert id''), idx') else (Inr (), idx'))"

definition ti_Add :: "string \<Rightarrow> TruncIndex \<Rightarrow> TruncIndex" where
  "ti_Add k idx = snd (addID k idx)"

fun addIDs :: "string list \<Rightarrow> TruncIndex \<Rightarrow> TruncIndex" where
  "addIDs [] idx = idx"
| "addIDs (k # ks) idx = addIDs ks (ti_Add k idx)"

definition NewTruncIndex :: "string list \<Rightarrow> TruncIndex" where
  "NewTruncIndex ids = addIDs ids \<lparr>trie = [], tids = {}\<rparr>"

definition ti_Delete :: "string \<Rightarrow> (TruncIndex, unit) go" where
  "ti_Delete k idx =
     (if k \<notin> tids idx \<or> k = [] then (Inl (Errorf ''no such id''), idx)
      else let (deleted, t) = trie_Delete k (trie idx);
               idx' = idx\<lparr>tids := tids idx - {k}, trie := t\<rparr>
           in if \<not> deleted then (Inl (Errorf ''no such id''), idx') else (Inr (), idx'))"

text \<open>The visitor: a second key makes the prefix ambiguous and stops the visit.\<close>

fun visit_keys :: "string \<Rightarrow> string list \<Rightarrow> gerr + string" where
  "visit_keys found [] = Inr found"
| "visit_keys found (k # ks) = (if found \<noteq> [] then Inl ErrAmbiguousPrefix else visit_keys k ks)"

definition ti_Get :: "TruncIndex \<Rightarrow> string \<Rightarrow> gerr + string" where
  "ti_Get idx s =
     (if s = [] then Inl ErrEmptyPrefix
      else case visit_keys [] (trie_Subtree s (trie idx)) of
        Inl e \<Rightarrow> Inl e
      | Inr k \<Rightarrow> if k \<noteq> [] then Inr k else Inl ErrNotExist)"

fun ti_Iterate :: "('a \<Rightarrow> string \<Rightarrow> 'a) \<Rightarrow> string list \<Rightarrow> 'a \<Rightarrow> 'a" where
  "ti_Iterate h [] s = s"
| "ti_Iterate h (k # ks) s = ti_Iterate h ks (h s k)"

section \<open>Properties\<close>

definition ti_ok :: "TruncIndex \<Rightarrow> bool" where
  "ti_ok idx \<longleftrightarrow> distinct (trie idx) \<and> set (trie idx) = tids idx \<and> [] \<notin> tids idx"

text \<open>The identifiers the index accepts.\<close>

definition indexable :: "string \<Rightarrow> bool" where
  "indexable k \<longleftrightarrow> k \<noteq> [] \<and> CHR '' '' \<notin> set k"

lemma ti_ok_empty [simp]: "ti_ok \<lparr>trie = [], tids = {}\<rparr>"
  by (simp add: ti_ok_def)

lemma ti_Add_ok: "ti_ok idx \<Longrightarrow> ti_ok (ti_Add k idx)"
  by (auto simp: ti_ok_def ti_Add_def addID_def trie_Insert_def)

lemma tids_ti_Add:
  "ti_ok idx \<Longrightarrow> tids (ti_Add k idx) = (if indexable k then insert k (tids idx) else tids idx)"
  by (auto simp: ti_ok_def ti_Add_def addID_def trie_Insert_def indexable_def)

lemma ti_Delete_ok: "ti_ok idx \<Longrightarrow> ti_ok (snd (ti_Delete k idx))"
  by (auto simp: ti_ok_def ti_Delete_def trie_Delete_def)

lemma tids_ti_Delete: "ti_ok idx \<Longrightarrow> tids (snd (ti_Delete k idx)) = tids idx - {k}"
  by (auto simp: ti_ok_def ti_Delete_def trie_Delete_def)

lemma addIDs_ok: "ti_ok idx \<Longrightarrow> ti_ok (addIDs ks idx)"
  by (induction ks arbitrary: idx) (auto simp: ti_Add_ok)

lemma tids_addIDs: "ti_ok idx \<Longrightarrow> tids (addIDs ks idx) = tids idx \<union> {k \<in> set ks. indexable k}"
  by (induction ks arbitrary: idx) (auto simp: tids_ti_Add ti_Add_ok)

lemma NewTruncIndex_ok: "ti_ok (NewTruncIndex ks)"
  by (simp add: NewTruncIndex_def addIDs_ok)

lemma tids_NewTruncIndex: "tids (NewTruncIndex ks) = {k \<in> set ks. indexable k}"
  by (simp add: NewTruncIndex_def tids_addIDs)

lemma visit_keys_nonempty:
  "found \<noteq> [] \<Longrightarrow> visit_keys found ks = (if ks = [] then Inr found else Inl ErrAmbiguousPrefix)"
  by (cases ks) auto

lemma visit_keys_Inr:
  "[] \<notin> set ks \<Longrightarrow> visit_keys [] ks =
     (case ks of [] \<Rightarrow> Inr [] | [k] \<Rightarrow> Inr k | _ \<Rightarrow> Inl ErrAmbiguousPrefix)"
  by (cases ks) (auto simp: visit_keys_nonempty split: list.splits)

definition matches :: "TruncIndex \<Rightarrow> string \<Rightarrow> string set" where
  "matches idx s = {k \<in> tids idx. prefix s k}"

lemma ti_Get_cases:
  assumes "ti_ok idx" "s \<noteq> []"
  shows "matches idx s = {} \<Longrightarrow> ti_Get idx s = Inl ErrNotExist"
    and "matches idx s = {k} \<Longrightarrow> ti_Get idx s = Inr k"
    and "k \<in> matches idx s \<Longrightarrow> k' \<in> matches idx s \<Longrightarrow> k \<noteq> k' \<Longrightarrow> ti_Get idx s = Inl ErrAmbiguousPrefix"
proof -
  define ks where "ks = trie_Subtree s (trie idx)"
  have ks: "set ks = matches idx s" "distinct ks" "[] \<notin> set ks"
    using assms by (auto simp: ti_ok_def matches_def ks_def trie_Subtree_def)
  have get: "ti_Get idx s = (case ks of [] \<Rightarrow> Inl ErrNotExist | [k] \<Rightarrow> Inr k | _ \<Rightarrow> Inl ErrAmbiguousPrefix)"
    using assms(2) ks(3) by (auto simp: ti_Get_def ks_def [symmetric] visit_keys_Inr split: list.splits)
  show "ti_Get idx s = Inl ErrNotExist" if "matches idx s = {}"
    using get ks(1) that by (cases ks) simp_all
  show "ti_Get idx s = Inr k" if "matches idx s = {k}"
  proof -
    from ks(1,2) that have "ks = [k]"
      by (metis distinct_card card_1_singleton_iff length_0_conv length_Suc_conv set_ConsD
          list.set_intros(1) singletonD One_nat_def)
    with get show ?thesis by simp
  qed
  show "ti_Get idx s = Inl ErrAmbiguousPrefix"
    if "k \<in> matches idx s" "k' \<in> matches idx s" "k \<noteq> k'"
  proof -
    have "2 \<le> card (set ks)"
      using that ks(1) by (metis List.finite_set card_2_iff card_mono insert_subset empty_subsetI)
    also have "\<dots> \<le> length ks" by (rule card_length)
    finally obtain a b ks' where "ks = a # b # ks'"
      by (auto simp: Suc_le_length_iff numeral_2_eq_2)
    with get show ?thesis by simp
  qed
qed

lemma ti_Get_iff:
  assumes "ti_ok idx"
  shows "ti_Get idx s = Inr k \<longleftrightarrow> s \<noteq> [] \<and> matches idx s = {k}"
proof (cases "s = []")
  case True
  then show ?thesis by (simp add: ti_Get_def)
next
  case False
  note c = ti_Get_cases [OF assms False]
  show ?thesis
  proof (cases "matches idx s = {}")
    case True
    then show ?thesis using c(1) by simp
  next
    case nonempty: False
    then obtain k' where k': "k' \<in> matches idx s" by blast
    show ?thesis
    proof (cases "matches idx s = {k'}")
      case True
      then show ?thesis using c(2) False by auto
    next
      case more: False
      then obtain k'' where "k'' \<in> matches idx s" "k'' \<noteq> k'" using k' by blast
      then show ?thesis using c(3) k' by auto
    qed
  qed
qed

lemma ti_Get_cong:
  assumes "ti_ok idx" "ti_ok idx'" "tids idx = tids idx'"
  shows "(\<exists>k. ti_Get idx s = Inr k \<and> P k) \<longleftrightarrow> (\<exists>k. ti_Get idx' s = Inr k \<and> P k)"
  using assms by (simp add: ti_Get_iff matches_def)

section \<open>Main theorems\<close>


end
