(* ===== verification/ItemStore.thy ===== *)
theory ItemStore
  imports TruncIndex
begin

text \<open>
  The part the container, image and layer stores share: a slice of pointers to records, the
  index of identifiers by prefix, and the maps \<open>byid\<close> and \<open>byname\<close>.

  The records live in a heap \<open>objs\<close> and a pointer is an index into it, because the maps, the
  slice and the loops of the stores alias the same records: taking a name away from a record
  through \<open>byname\<close> changes what the slice shows.  Each store extends the record \<open>itemStore\<close> by
  its own fields.  The loops below occur in all three stores with the same text; they are
  parametrised by the field update \<open>upd\<close> of the names (for a record field \<open>f\<close>, the
  function \<open>f_update\<close>).

  The locale \<open>named_item\<close> states what the loops need of a record type, and proves once that they
  keep the invariant \<open>store_ok\<close> and what they do to the abstract state \<open>item_map\<close>, a map from
  identifiers to records.
\<close>

record 'a itemStore =
  objs :: "'a list"
  items :: "nat list"
  idindex :: TruncIndex
  byid :: "string \<rightharpoonup> nat"
  byname :: "string \<rightharpoonup> nat"

section \<open>Shared steps\<close>

definition update_obj :: "nat \<Rightarrow> ('a \<Rightarrow> 'a) \<Rightarrow> ('a, 'z) itemStore_scheme \<Rightarrow> ('a, 'z) itemStore_scheme" where
  "update_obj x f r = r\<lparr>objs := (objs r)[x := f (objs r ! x)]\<rparr>"

text \<open>\<open>for _, name := range names { delete(r.byname, name) }\<close>\<close>

fun delete_names :: "string list \<Rightarrow> (string \<rightharpoonup> nat) \<Rightarrow> string \<rightharpoonup> nat" where
  "delete_names [] bn = bn"
| "delete_names (n # ns) bn = delete_names ns (bn(n := None))"

text \<open>\<open>for _, name := range names { r.byname[name] = x }\<close>\<close>

fun add_names :: "nat \<Rightarrow> string list \<Rightarrow> (string \<rightharpoonup> nat) \<Rightarrow> string \<rightharpoonup> nat" where
  "add_names x [] bn = bn"
| "add_names x (n # ns) bn = add_names x ns (bn(n \<mapsto> x))"

text \<open>
  The loop of \<open>SetNames\<close> and of \<open>Load\<close> that gives names to the record \<open>x\<close>: a record that holds
  the name loses it.  \<open>mark\<close> is what the image store records in the history of names; the flag
  tells whether a conflict was met.
\<close>

fun claim_names :: "((string list \<Rightarrow> string list) \<Rightarrow> 'a \<Rightarrow> 'a) \<Rightarrow> (string \<Rightarrow> 'a \<Rightarrow> 'a) \<Rightarrow> nat \<Rightarrow>
    string list \<Rightarrow> 'a list \<times> (string \<rightharpoonup> nat) \<times> bool \<Rightarrow> 'a list \<times> (string \<rightharpoonup> nat) \<times> bool" where
  "claim_names upd mark x [] s = s"
| "claim_names upd mark x (n # ns) (os, bn, b) =
     (let (os1, b1) = (case bn n of
                         Some y \<Rightarrow> (os[y := upd (\<lambda>s. stringSliceWithoutValue s n) (os ! y)], True)
                       | None \<Rightarrow> (os, b))
      in claim_names upd mark x ns (os1[x := mark n (os1 ! x)], bn(n \<mapsto> x), b1))"

text \<open>The loop of \<open>Load\<close> over the records just decoded.\<close>

fun load_items :: "('a \<Rightarrow> string) \<Rightarrow> ('a \<Rightarrow> string list) \<Rightarrow> ((string list \<Rightarrow> string list) \<Rightarrow> 'a \<Rightarrow> 'a) \<Rightarrow>
    nat list \<Rightarrow> 'a list \<times> (string \<rightharpoonup> nat) \<times> (string \<rightharpoonup> nat) \<times> bool \<Rightarrow>
    'a list \<times> (string \<rightharpoonup> nat) \<times> (string \<rightharpoonup> nat) \<times> bool" where
  "load_items iid inames upd [] s = s"
| "load_items iid inames upd (x # xs) (os, bi, bn, b) =
     (let (os1, bn1, b1) = claim_names upd (\<lambda>_ o'. o') x (inames (os ! x)) (os, bn, b)
      in load_items iid inames upd xs (os1, bi(iid (os ! x) \<mapsto> x), bn1, b1))"

text \<open>
  The bookkeeping of \<open>Create\<close>: the new record is allocated, appended to the slice and entered
  in the indexes.
\<close>

definition insert_item :: "string \<Rightarrow> string list \<Rightarrow> 'a \<Rightarrow> ('a, 'z) itemStore_scheme \<Rightarrow> ('a, 'z) itemStore_scheme" where
  "insert_item ident names c r =
     (let x = length (objs r) in
      r\<lparr>objs := objs r @ [c], items := items r @ [x], byid := (byid r)(ident \<mapsto> x),
        idindex := ti_Add ident (idindex r), byname := add_names x names (byname r)\<rparr>)"

text \<open>
  The bookkeeping of \<open>Delete\<close>; \<open>i\<close> is \<open>toDeleteIndex\<close>, with \<open>None\<close> for -1.
\<close>

definition remove_item :: "string \<Rightarrow> string list \<Rightarrow> nat option \<Rightarrow> ('a, 'z) itemStore_scheme \<Rightarrow> ('a, 'z) itemStore_scheme" where
  "remove_item ident names i r =
     r\<lparr>byid := (byid r)(ident := None), idindex := snd (ti_Delete ident (idindex r)),
       byname := delete_names names (byname r),
       items := (case i of None \<Rightarrow> items r | Some j \<Rightarrow> remove_nth j (items r))\<rparr>"

text \<open>The bookkeeping of \<open>SetNames\<close>.\<close>

definition set_names :: "('a \<Rightarrow> string list) \<Rightarrow> ((string list \<Rightarrow> string list) \<Rightarrow> 'a \<Rightarrow> 'a) \<Rightarrow> (string \<Rightarrow> 'a \<Rightarrow> 'a) \<Rightarrow>
    string list \<Rightarrow> nat \<Rightarrow> ('a, 'z) itemStore_scheme \<Rightarrow> ('a, 'z) itemStore_scheme" where
  "set_names inames upd mark names x r =
     (let (os, bn, _) = claim_names upd mark x names
            (objs r, delete_names (inames (objs r ! x)) (byname r), False)
      in r\<lparr>objs := os[x := upd (\<lambda>_. names) (os ! x)], byname := bn\<rparr>)"

text \<open>The bookkeeping of \<open>Load\<close> on the decoded records \<open>cs\<close>; the flag tells whether to save.\<close>

definition load_store :: "('a \<Rightarrow> string) \<Rightarrow> ('a \<Rightarrow> string list) \<Rightarrow> ((string list \<Rightarrow> string list) \<Rightarrow> 'a \<Rightarrow> 'a) \<Rightarrow>
    'a list \<Rightarrow> ('a, 'z) itemStore_scheme \<Rightarrow> ('a, 'z) itemStore_scheme \<times> bool" where
  "load_store iid inames upd cs r =
     (let (os, bi, bn, needSave) =
            load_items iid inames upd [0..<length cs] (cs, Map.empty, Map.empty, False)
      in (r\<lparr>objs := os, items := [0..<length cs], idindex := NewTruncIndex (map iid cs),
            byid := bi, byname := bn\<rparr>, needSave))"

section \<open>Invariant and abstract state\<close>

definition ids_ok :: "('a \<Rightarrow> string) \<Rightarrow> 'a list \<Rightarrow> nat set \<Rightarrow> (string \<rightharpoonup> nat) \<Rightarrow> bool" where
  "ids_ok iid os I bi \<longleftrightarrow> (\<forall>k y. bi k = Some y \<longleftrightarrow> y \<in> I \<and> iid (os ! y) = k)"

definition names_ok :: "('a \<Rightarrow> string list) \<Rightarrow> 'a list \<Rightarrow> nat set \<Rightarrow> (string \<rightharpoonup> nat) \<Rightarrow> bool" where
  "names_ok inames os I bn \<longleftrightarrow>
     (\<forall>n y. bn n = Some y \<longleftrightarrow> y \<in> I \<and> n \<in> set (inames (os ! y))) \<and>
     (\<forall>y \<in> I. distinct (inames (os ! y)))"

definition store_ok :: "('a \<Rightarrow> string) \<Rightarrow> ('a \<Rightarrow> string list) \<Rightarrow> ('a, 'z) itemStore_scheme \<Rightarrow> bool" where
  "store_ok iid inames r \<longleftrightarrow>
     distinct (items r) \<and> (\<forall>y \<in> set (items r). y < length (objs r)) \<and>
     ids_ok iid (objs r) (set (items r)) (byid r) \<and>
     names_ok inames (objs r) (set (items r)) (byname r) \<and>
     ti_ok (idindex r) \<and> tids (idindex r) = {k \<in> dom (byid r). indexable k}"

definition item_map :: "('a, 'z) itemStore_scheme \<Rightarrow> string \<rightharpoonup> 'a" where
  "item_map r = (\<lambda>k. map_option (\<lambda>x. objs r ! x) (byid r k))"

text \<open>The records in the order of the slice: what \<open>Save\<close> writes.\<close>

definition item_list :: "('a, 'z) itemStore_scheme \<Rightarrow> 'a list" where
  "item_list r = map (\<lambda>x. objs r ! x) (items r)"

lemma delete_names_apply: "delete_names ns bn n = (if n \<in> set ns then None else bn n)"
  by (induction ns arbitrary: bn) auto

lemma add_names_apply: "add_names x ns bn n = (if n \<in> set ns then Some x else bn n)"
  by (induction ns arbitrary: bn) auto

lemma length_update_obj [simp]: "length (objs (update_obj x f r)) = length (objs r)"
  by (simp add: update_obj_def)

lemma update_obj_beyond: "\<not> x < length (objs r) \<Longrightarrow> update_obj x f r = r"
  by (simp add: update_obj_def not_less list_update_beyond)

lemma update_obj_frame [frame_simps]:
  "items (update_obj x f r) = items r" "byid (update_obj x f r) = byid r"
  "byname (update_obj x f r) = byname r" "idindex (update_obj x f r) = idindex r"
  "itemStore.more (update_obj x f r) = itemStore.more r"
  by (simp_all add: update_obj_def)

lemma insert_item_frame [frame_simps]:
  "itemStore.more (insert_item ident names c r) = itemStore.more r"
  "byid (insert_item ident names c r) = (byid r)(ident \<mapsto> length (objs r))"
  by (simp_all add: insert_item_def Let_def)

lemma remove_item_frame [frame_simps]:
  "itemStore.more (remove_item ident names i r) = itemStore.more r"
  "objs (remove_item ident names i r) = objs r"
  "byid (remove_item ident names i r) = (byid r)(ident := None)"
  by (simp_all add: remove_item_def)

lemma store_okD:
  assumes "store_ok iid inames r"
  shows "byid r k = Some y \<Longrightarrow> y \<in> set (items r) \<and> y < length (objs r) \<and> iid (objs r ! y) = k"
    and "byname r n = Some y \<Longrightarrow> y \<in> set (items r) \<and> y < length (objs r) \<and> n \<in> set (inames (objs r ! y))"
    and "y \<in> set (items r) \<Longrightarrow> byid r (iid (objs r ! y)) = Some y \<and> y < length (objs r)"
    and "y \<in> set (items r) \<Longrightarrow> n \<in> set (inames (objs r ! y)) \<Longrightarrow> byname r n = Some y"
    and "y \<in> set (items r) \<Longrightarrow> distinct (inames (objs r ! y))"
  using assms by (auto simp: store_ok_def ids_ok_def names_ok_def)

lemma item_map_Some:
  assumes "store_ok iid inames r"
  shows "item_map r k = Some c \<longleftrightarrow> (\<exists>x \<in> set (items r). objs r ! x = c \<and> iid c = k)"
  using assms by (auto simp: item_map_def store_ok_def ids_ok_def)

lemma ran_item_map: "store_ok iid inames r \<Longrightarrow> ran (item_map r) = set (item_list r)"
  by (auto simp: ran_def item_map_Some item_list_def)

lemma store_ok_inj:
  assumes "store_ok iid inames r" "x \<in> set (items r)" "y \<in> set (items r)"
    and "iid (objs r ! x) = iid (objs r ! y)"
  shows "x = y"
proof -
  have "byid r (iid (objs r ! y)) = Some y" by (rule conjunct1 [OF store_okD(3) [OF assms(1,3)]])
  moreover have "byid r (iid (objs r ! x)) = Some x" by (rule conjunct1 [OF store_okD(3) [OF assms(1,2)]])
  ultimately show ?thesis unfolding assms(4) by (metis option.inject)
qed

lemma store_ok_distinct_ids:
  assumes "store_ok iid inames r"
  shows "distinct (map iid (item_list r))"
proof -
  have "inj_on (\<lambda>x. iid (objs r ! x)) (set (items r))"
    using store_ok_inj [OF assms] by (auto intro!: inj_onI)
  then show ?thesis
    using assms by (simp add: item_list_def store_ok_def distinct_map o_def)
qed

lemma item_map_conv_map_of:
  assumes "store_ok iid inames r"
  shows "item_map r = map_of (map (\<lambda>c. (iid c, c)) (item_list r))"
proof
  fix k
  have d: "distinct (map fst (map (\<lambda>c. (iid c, c)) (item_list r)))"
    using store_ok_distinct_ids [OF assms] by (simp add: o_def)
  have "item_map r k = Some c \<longleftrightarrow> map_of (map (\<lambda>c. (iid c, c)) (item_list r)) k = Some c" for c
    unfolding item_map_Some [OF assms] map_of_eq_Some_iff [OF d] by (auto simp: item_list_def)
  then show "item_map r k = map_of (map (\<lambda>c. (iid c, c)) (item_list r)) k"
    by (metis option.exhaust)
qed

lemma map_of_key_map:
  "map_of (map (\<lambda>c. (g c, f c)) cs) = (\<lambda>k. map_option f (map_of (map (\<lambda>c. (g c, c)) cs) k))"
  by (induction cs) auto

lemma item_map_same_list:
  "store_ok iid inames r \<Longrightarrow> store_ok iid inames r' \<Longrightarrow> item_list r' = map f (item_list r) \<Longrightarrow>
   (\<And>c. iid (f c) = iid c) \<Longrightarrow> item_map r' = (\<lambda>k. map_option f (item_map r k))"
  using map_of_key_map [of iid f "item_list r"] by (simp add: item_map_conv_map_of o_def)

text \<open>No name occurs in two records.\<close>

definition names_apart :: "('a \<Rightarrow> string list) \<Rightarrow> 'a list \<Rightarrow> bool" where
  "names_apart inames cs \<longleftrightarrow> sorted_wrt (\<lambda>c d. set (inames c) \<inter> set (inames d) = {}) cs"

lemma store_ok_names_apart:
  assumes "store_ok iid inames r"
  shows "names_apart inames (item_list r)"
proof -
  have "set (inames (objs r ! x)) \<inter> set (inames (objs r ! y)) = {}"
    if "x \<in> set (items r)" "y \<in> set (items r)" "x \<noteq> y" for x y
    using that store_okD(4) [OF assms] by (metis disjoint_iff option.inject)
  moreover have "distinct (items r)" using assms by (simp add: store_ok_def)
  ultimately show ?thesis
    unfolding names_apart_def item_list_def sorted_wrt_map by (auto simp: sorted_wrt_iff_nth_less nth_eq_iff_index_eq)
qed

text \<open>
  The lookup chain of the stores: the identifier, then the name, then a unique prefix of an
  identifier.
\<close>

definition lookup_chain :: "('a, 'z) itemStore_scheme \<Rightarrow> string \<Rightarrow> nat option" where
  "lookup_chain r ident =
     (case byid r ident of
        Some x \<Rightarrow> Some x
      | None \<Rightarrow>
          (case byname r ident of
             Some x \<Rightarrow> Some x
           | None \<Rightarrow> (case ti_Get (idindex r) ident of Inr longid \<Rightarrow> byid r longid | Inl _ \<Rightarrow> None)))"

lemma lookup_chain_item:
  assumes "store_ok iid inames r" "lookup_chain r ident = Some x"
  shows "x \<in> set (items r)" "byid r (iid (objs r ! x)) = Some x" "x < length (objs r)"
  using assms by (auto simp: lookup_chain_def split: option.splits sum.splits
      dest: store_okD(1,2) store_okD(3))

lemma lookup_chain_byid: "byid r ident = Some x \<Longrightarrow> lookup_chain r ident = Some x"
  by (simp add: lookup_chain_def)

section \<open>What the loops need of a record type\<close>

locale named_item =
  fixes iid :: "'a \<Rightarrow> string" and inames :: "'a \<Rightarrow> string list"
    and upd :: "(string list \<Rightarrow> string list) \<Rightarrow> 'a \<Rightarrow> 'a"
  assumes iid_upd [simp]: "iid (upd f c) = iid c"
    and inames_upd [simp]: "inames (upd f c) = f (inames c)"
    and upd_comp [simp]: "upd f (upd g c) = upd (\<lambda>s. f (g s)) c"
    and upd_same: "f (inames c) = inames c \<Longrightarrow> upd f c = c"
    and upd_cong: "f (inames c) = g (inames c) \<Longrightarrow> upd f c = upd g c"
begin

lemma store_ok_update_obj:
  assumes "store_ok iid inames r" "x < length (objs r)"
    and "iid (f (objs r ! x)) = iid (objs r ! x)" "inames (f (objs r ! x)) = inames (objs r ! x)"
  shows "store_ok iid inames (update_obj x f r)"
proof -
  have "iid ((objs r)[x := f (objs r ! x)] ! y) = iid (objs r ! y)"
    "inames ((objs r)[x := f (objs r ! x)] ! y) = inames (objs r ! y)" for y
    using assms(2-4) by (cases "y = x"; simp)+
  then show ?thesis
    using assms(1) by (simp add: store_ok_def update_obj_def ids_ok_def names_ok_def)
qed

lemma item_map_update_obj:
  assumes "store_ok iid inames r" "x \<in> set (items r)" "iid (f (objs r ! x)) = iid (objs r ! x)"
  shows "item_map (update_obj x f r) = (item_map r)(iid (objs r ! x) \<mapsto> f (objs r ! x))"
proof
  fix k
  have x: "x < length (objs r)" "byid r (iid (objs r ! x)) = Some x"
    using assms(1,2) store_okD(3) by blast+
  show "item_map (update_obj x f r) k = ((item_map r)(iid (objs r ! x) \<mapsto> f (objs r ! x))) k"
    using x store_okD(1) [OF assms(1), of k]
    by (cases "byid r k") (auto simp: item_map_def update_obj_def nth_list_update)
qed

lemma store_ok_insert_item:
  assumes "store_ok iid inames r" "byid r ident = None" "iid c = ident" "inames c = names"
    and "distinct names" "\<forall>n \<in> set names. byname r n = None"
  shows "store_ok iid inames (insert_item ident names c r)"
  unfolding store_ok_def
proof (intro conjI)
  let ?x = "length (objs r)" and ?r = "insert_item ident names c r"
  have old: "y < ?x" "y \<noteq> ?x" if "y \<in> set (items r)" for y
    using assms(1) that by (auto simp: store_ok_def)
  have new: "?x \<notin> set (items r)" using old by blast
  have oth: "objs ?r ! y = objs r ! y" if "y \<in> set (items r)" for y
    using old [OF that] by (simp add: insert_item_def Let_def nth_append)
  have it: "set (items ?r) = insert ?x (set (items r))" "objs ?r ! ?x = c"
    by (simp_all add: insert_item_def Let_def)
  show "distinct (items ?r)" using assms(1) new by (simp add: insert_item_def Let_def store_ok_def)
  show "\<forall>y \<in> set (items ?r). y < length (objs ?r)"
    using old(1) by (auto simp: insert_item_def Let_def less_SucI)
  have bi: "byid r k = Some y \<longleftrightarrow> y \<in> set (items r) \<and> iid (objs r ! y) = k" for k y
    using assms(1) by (simp add: store_ok_def ids_ok_def)
  have bn: "byname r n = Some y \<longleftrightarrow> y \<in> set (items r) \<and> n \<in> set (inames (objs r ! y))" for n y
    using assms(1) by (simp add: store_ok_def names_ok_def)
  show "ids_ok iid (objs ?r) (set (items ?r)) (byid ?r)"
    unfolding ids_ok_def it(1)
  proof (intro allI)
    fix k y
    show "byid ?r k = Some y \<longleftrightarrow> y \<in> insert ?x (set (items r)) \<and> iid (objs ?r ! y) = k"
      using bi [of k y] bi [of ident y] assms(2,3) it(2) oth [of y] new
      by (cases "y \<in> set (items r)") (auto simp: frame_simps)
  qed
  have bn': "byname ?r n = (if n \<in> set names then Some ?x else byname r n)" for n
    by (simp add: insert_item_def Let_def add_names_apply)
  show "names_ok inames (objs ?r) (set (items ?r)) (byname ?r)"
    unfolding names_ok_def it(1)
  proof (intro conjI allI ballI)
    fix n y
    show "byname ?r n = Some y \<longleftrightarrow> y \<in> insert ?x (set (items r)) \<and> n \<in> set (inames (objs ?r ! y))"
      using bn [of n y] assms(4,6) it(2) oth [of y] new
      by (cases "y \<in> set (items r)") (auto simp: bn')
  next
    fix y assume "y \<in> insert ?x (set (items r))"
    then show "distinct (inames (objs ?r ! y))"
      using assms(1,4,5) it(2) oth [of y] by (auto simp: store_ok_def names_ok_def)
  qed
  show "ti_ok (idindex ?r)"
    using assms(1) by (simp add: insert_item_def Let_def store_ok_def ti_Add_ok)
  show "tids (idindex ?r) = {k \<in> dom (byid ?r). indexable k}"
    using assms(1) by (auto simp: insert_item_def Let_def store_ok_def tids_ti_Add)
qed

lemma item_map_insert_item:
  assumes "store_ok iid inames r"
  shows "item_map (insert_item ident names c r) = (item_map r)(ident \<mapsto> c)"
proof
  fix k
  show "item_map (insert_item ident names c r) k = ((item_map r)(ident \<mapsto> c)) k"
    using store_okD(1) [OF assms, of k]
    by (cases "byid r k") (auto simp: item_map_def insert_item_def Let_def nth_append)
qed

lemma store_ok_remove_item:
  assumes "store_ok iid inames r" "x \<in> set (items r)" "i < length (items r)" "items r ! i = x"
  shows "store_ok iid inames (remove_item (iid (objs r ! x)) (inames (objs r ! x)) (Some i) r)"
    (is "store_ok iid inames ?r")
proof -
  have s: "set (items ?r) = set (items r) - {x}" "distinct (items ?r)"
    using assms by (simp_all add: remove_item_def store_ok_def set_remove_nth distinct_remove_nth)
  have bi: "byid r k = Some y \<longleftrightarrow> y \<in> set (items r) \<and> iid (objs r ! y) = k" for k y
    using assms(1) by (simp add: store_ok_def ids_ok_def)
  have bn: "byname r n = Some y \<longleftrightarrow> y \<in> set (items r) \<and> n \<in> set (inames (objs r ! y))" for n y
    using assms(1) by (simp add: store_ok_def names_ok_def)
  have "ids_ok iid (objs r) (set (items r) - {x}) ((byid r)(iid (objs r ! x) := None))"
    unfolding ids_ok_def fun_upd_apply using bi store_ok_inj [OF assms(1,2)]
    by (metis Diff_iff option.distinct(1) singletonD singletonI)
  moreover have "names_ok inames (objs r) (set (items r) - {x}) (delete_names (inames (objs r ! x)) (byname r))"
    using bn assms(1,2) by (auto simp: names_ok_def delete_names_apply store_ok_def) (metis option.inject)
  moreover have "tids (snd (ti_Delete (iid (objs r ! x)) (idindex r))) = {k \<in> dom (byid ?r). indexable k}"
    using assms(1) by (auto simp: store_ok_def tids_ti_Delete frame_simps)
  ultimately show ?thesis
    using assms(1) s unfolding store_ok_def
    by (auto simp: remove_item_def ti_Delete_ok)
qed

lemma item_map_remove_item:
  "item_map (remove_item ident names i r) = (item_map r)(ident := None)"
  by (auto simp: item_map_def frame_simps)

subsection \<open>Giving names to a record\<close>

text \<open>
  While the names \<open>S\<close> have been given to \<open>x\<close>, the map knows them and the names of the other
  records \<open>I\<close>.
\<close>

definition claiming :: "nat set \<Rightarrow> nat \<Rightarrow> string set \<Rightarrow> 'a list \<Rightarrow> (string \<rightharpoonup> nat) \<Rightarrow> bool" where
  "claiming I x S os bn \<longleftrightarrow> x < length os \<and> x \<notin> I \<and> (\<forall>y \<in> I. y < length os) \<and>
     (\<forall>n y. bn n = Some y \<longleftrightarrow> (y = x \<and> n \<in> S) \<or> (y \<in> I \<and> n \<in> set (inames (os ! y)))) \<and>
     (\<forall>y \<in> I. distinct (inames (os ! y)))"

lemma claim_one:
  assumes "claiming I x S os bn" "n \<notin> S" "\<And>c. iid (mark n c) = iid c" "\<And>c. inames (mark n c) = inames c"
    and "os1 = (case bn n of Some y \<Rightarrow> os[y := upd (\<lambda>s. stringSliceWithoutValue s n) (os ! y)] | None \<Rightarrow> os)"
    and "os2 = os1[x := mark n (os1 ! x)]"
  shows "y \<in> I \<Longrightarrow> os2 ! y = upd (\<lambda>s. stringSliceWithoutValue s n) (os ! y)"
    and "os2 ! x = mark n (os ! x)" and "y \<notin> insert x I \<Longrightarrow> os2 ! y = os ! y"
    and "length os2 = length os" and "claiming I x (insert n S) os2 (bn(n \<mapsto> x))"
proof -
  have conf: "y \<in> I" if "bn n = Some y" for y using assms(1,2) that by (auto simp: claiming_def)
  show len: "length os2 = length os" by (simp add: assms(5,6) split: option.splits)
  have xI: "x < length os" "x \<notin> I" using assms(1) by (simp_all add: claiming_def)
  show in_I: "os2 ! y = upd (\<lambda>s. stringSliceWithoutValue s n) (os ! y)" if "y \<in> I" for y
  proof (cases "bn n = Some y")
    case True
    moreover have "y < length os" "y \<noteq> x" using assms(1) that by (auto simp: claiming_def)
    ultimately show ?thesis by (simp add: assms(5,6))
  next
    case False
    then have "n \<notin> set (inames (os ! y))" using that assms(1) by (auto simp: claiming_def)
    then have "upd (\<lambda>s. stringSliceWithoutValue s n) (os ! y) = os ! y"
      by (intro upd_same) (auto simp: stringSliceWithoutValue_filter intro!: filter_True)
    moreover have "y \<noteq> x" using that xI(2) by blast
    ultimately show ?thesis using False by (cases "bn n") (simp_all add: assms(5,6))
  qed
  have ox: "os1 ! x = os ! x"
    using conf xI by (cases "bn n") (auto simp: assms(5) intro!: nth_list_update_neq)
  show "os2 ! x = mark n (os ! x)" using xI ox by (simp add: assms(5,6) split: option.splits)
  show "os2 ! y = os ! y" if "y \<notin> insert x I" 
    using that conf by (cases "bn n") (auto simp: assms(5,6) intro!: nth_list_update_neq)
  have bn: "bn m = Some y \<longleftrightarrow> (y = x \<and> m \<in> S) \<or> (y \<in> I \<and> m \<in> set (inames (os ! y)))" for m y
    using assms(1) by (simp add: claiming_def)
  show "claiming I x (insert n S) os2 (bn(n \<mapsto> x))"
    unfolding claiming_def
  proof (intro conjI allI ballI)
    fix m y
    show "(bn(n \<mapsto> x)) m = Some y \<longleftrightarrow>
        y = x \<and> m \<in> insert n S \<or> y \<in> I \<and> m \<in> set (inames (os2 ! y))"
      using bn [of m y] xI(2) in_I [of y] by (cases "m = n") auto
  next
    fix y assume "y \<in> I"
    then show "distinct (inames (os2 ! y))" using assms(1) in_I [of y] by (simp add: claiming_def)
  qed (use assms(1) len in \<open>auto simp: claiming_def\<close>)
qed

lemma claim_names_spec:
  assumes "claiming I x S os bn" "distinct ns" "set ns \<inter> S = {}"
    and mark: "\<And>n c. iid (mark n c) = iid c" "\<And>n c. inames (mark n c) = inames c"
    and "claim_names upd mark x ns (os, bn, b) = (os', bn', b')"
  shows "claiming I x (S \<union> set ns) os' bn' \<and> length os' = length os \<and>
    os' ! x = fold mark ns (os ! x) \<and>
    (\<forall>y \<in> I. os' ! y = upd (filter (\<lambda>n. n \<notin> set ns)) (os ! y)) \<and>
    (\<forall>y. y \<notin> insert x I \<longrightarrow> os' ! y = os ! y) \<and>
    (b' \<longleftrightarrow> b \<or> (\<exists>n \<in> set ns. bn n \<noteq> None))"
  using assms(1-3,6)
proof (induction ns arbitrary: S os bn b)
  case Nil
  then show ?case by (auto intro!: upd_same [symmetric])
next
  case (Cons n ns)
  define os1 where "os1 = (case bn n of Some y \<Rightarrow> os[y := upd (\<lambda>s. stringSliceWithoutValue s n) (os ! y)] | None \<Rightarrow> os)"
  define os2 where "os2 = os1[x := mark n (os1 ! x)]"
  have run: "claim_names upd mark x ns (os2, bn(n \<mapsto> x), b \<or> bn n \<noteq> None) = (os', bn', b')"
    using Cons.prems(4) by (simp add: os1_def os2_def split: option.splits)
  have nS: "n \<notin> S" using Cons.prems(3) by simp
  note one = claim_one [where mark = mark, OF Cons.prems(1) nS mark os1_def os2_def]
  have IH: "claiming I x (insert n S \<union> set ns) os' bn' \<and> length os' = length os2 \<and>
    os' ! x = fold mark ns (os2 ! x) \<and>
    (\<forall>y \<in> I. os' ! y = upd (filter (\<lambda>n. n \<notin> set ns)) (os2 ! y)) \<and>
    (\<forall>y. y \<notin> insert x I \<longrightarrow> os' ! y = os2 ! y) \<and>
    (b' \<longleftrightarrow> (b \<or> bn n \<noteq> None) \<or> (\<exists>m \<in> set ns. (bn(n \<mapsto> x)) m \<noteq> None))"
    using Cons.prems(2,3) by (intro Cons.IH [OF one(5) _ _ run]) auto
  moreover have "upd (filter (\<lambda>n. n \<notin> set ns)) (os2 ! y) = upd (filter (\<lambda>m. m \<notin> set (n # ns))) (os ! y)"
    if "y \<in> I" for y
    by (simp add: one(1) [OF that] stringSliceWithoutValue_filter conj_commute)
  moreover have "(\<exists>m \<in> set ns. (bn(n \<mapsto> x)) m \<noteq> None) \<longleftrightarrow> (\<exists>m \<in> set ns. bn m \<noteq> None)"
    using Cons.prems(2) by auto
  ultimately show ?case using one(2-4) by (auto simp: ac_simps)
qed

lemma fold_ignore: "fold (\<lambda>_ c. c) ns c = c"
  by (induction ns) simp_all

lemma claim_names_quiet:
  "claim_names upd (\<lambda>_ c. c) x ns (os, bn, b) = (os', bn', b') \<Longrightarrow> \<not> b' \<Longrightarrow> os' = os \<and> \<not> b"
  by (induction ns arbitrary: os bn b) (auto simp: Let_def split: option.splits)

lemma set_names_spec:
  assumes ok: "store_ok iid inames r" "x \<in> set (items r)" and d: "distinct names"
    and mark: "\<And>n c. iid (mark n c) = iid c" "\<And>n c. inames (mark n c) = inames c"
  shows "store_ok iid inames (set_names inames upd mark names x r)"
    and "item_map (set_names inames upd mark names x r) = (\<lambda>k.
      if k = iid (objs r ! x) then Some (upd (\<lambda>_. names) (fold mark names (objs r ! x)))
      else map_option (upd (filter (\<lambda>n. n \<notin> set names))) (item_map r k))"
    and "\<exists>os bn. set_names inames upd mark names x r = r\<lparr>objs := os, byname := bn\<rparr> \<and> length os = length (objs r)"
    and "y \<in> set (items r) \<Longrightarrow> objs (set_names inames upd mark names x r) ! y =
      (if y = x then upd (\<lambda>_. names) (fold mark names (objs r ! x))
       else upd (filter (\<lambda>n. n \<notin> set names)) (objs r ! y))"
proof -
  let ?I = "set (items r) - {x}" and ?r = "set_names inames upd mark names x r"
  define bn where "bn = delete_names (inames (objs r ! x)) (byname r)"
  obtain os' bn' b' where run: "claim_names upd mark x names (objs r, bn, False) = (os', bn', b')"
    by (metis prod_cases3)
  have x: "x < length (objs r)" using store_okD(3) [OF ok] by blast
  have old: "byname r n = Some y \<longleftrightarrow> y \<in> set (items r) \<and> n \<in> set (inames (objs r ! y))" for n y
    using ok(1) by (simp add: store_ok_def names_ok_def)
  have "claiming ?I x {} (objs r) bn"
    using ok x old unfolding claiming_def bn_def delete_names_apply
    by (auto simp: store_ok_def names_ok_def) (metis option.inject)
  from claim_names_spec [OF this d _ mark run]
  have c: "claiming ?I x (set names) os' bn'" "length os' = length (objs r)"
    "os' ! x = fold mark names (objs r ! x)"
    "\<And>y. y \<in> ?I \<Longrightarrow> os' ! y = upd (filter (\<lambda>n. n \<notin> set names)) (objs r ! y)" by auto
  have eq: "?r = r\<lparr>objs := os'[x := upd (\<lambda>_. names) (os' ! x)], byname := bn'\<rparr>"
    by (simp add: set_names_def bn_def [symmetric] run)
  then show "\<exists>os bn. ?r = r\<lparr>objs := os, byname := bn\<rparr> \<and> length os = length (objs r)"
    using c(2) by (metis length_list_update)
  have fid: "iid (fold mark ns c) = iid c" for ns c by (induction ns arbitrary: c) (simp_all add: mark)
  have here: "objs ?r ! x = upd (\<lambda>_. names) (fold mark names (objs r ! x))"
    using x c(2,3) by (simp add: eq)
  have there: "objs ?r ! y = upd (filter (\<lambda>n. n \<notin> set names)) (objs r ! y)" if "y \<in> ?I" for y
    using that c(4) by (simp add: eq)
  show "objs ?r ! y = (if y = x then upd (\<lambda>_. names) (fold mark names (objs r ! x))
       else upd (filter (\<lambda>n. n \<notin> set names)) (objs r ! y))" if "y \<in> set (items r)"
    using that here there by simp
  have iids: "iid (objs ?r ! y) = iid (objs r ! y)" if "y \<in> set (items r)" for y
    using that here there [of y] fid by (cases "y = x") simp_all
  have "ids_ok iid (objs ?r) (set (items r)) (byid r)"
    using ok(1) iids by (auto simp: ids_ok_def store_ok_def)
  moreover have "names_ok inames (objs ?r) (set (items r)) bn'"
    unfolding names_ok_def
  proof (intro conjI allI ballI)
    fix n y
    have "bn' n = Some y \<longleftrightarrow> (y = x \<and> n \<in> set names) \<or> (y \<in> ?I \<and> n \<in> set (inames (os' ! y)))"
      using c(1) by (simp add: claiming_def)
    then show "bn' n = Some y \<longleftrightarrow> y \<in> set (items r) \<and> n \<in> set (inames (objs ?r ! y))"
      using here there [of y] c(4) [of y] ok(2) by (cases "y = x") auto
  next
    fix y assume "y \<in> set (items r)"
    then show "distinct (inames (objs ?r ! y))"
      using here there [of y] d store_okD(5) [OF ok(1)] by (cases "y = x") auto
  qed
  ultimately show "store_ok iid inames ?r"
    using ok(1) c(2) by (simp add: store_ok_def eq)
  show "item_map ?r = (\<lambda>k. if k = iid (objs r ! x) then Some (upd (\<lambda>_. names) (fold mark names (objs r ! x)))
      else map_option (upd (filter (\<lambda>n. n \<notin> set names))) (item_map r k))"
  proof
    fix k
    have bx: "byid r (iid (objs r ! x)) = Some x" using store_okD(3) [OF ok] by blast
    have br: "byid ?r = byid r" by (simp add: eq)
    show "item_map ?r k = (if k = iid (objs r ! x) then Some (upd (\<lambda>_. names) (fold mark names (objs r ! x)))
      else map_option (upd (filter (\<lambda>n. n \<notin> set names))) (item_map r k))"
    proof (cases "byid r k")
      case None
      then show ?thesis using bx by (auto simp: item_map_def br)
    next
      case (Some y)
      then have y: "y \<in> set (items r)" "iid (objs r ! y) = k" using store_okD(1) [OF ok(1)] by blast+
      show ?thesis
      proof (cases "y = x")
        case True
        then show ?thesis using Some y(2) here by (simp add: item_map_def br)
      next
        case False
        with Some bx y have "k \<noteq> iid (objs r ! x)" by auto
        then show ?thesis using Some False y(1) there by (simp add: item_map_def br)
      qed
    qed
  qed
qed

subsection \<open>Loading\<close>

lemma load_items_spec:
  assumes "ids_ok iid os P bi" "names_ok inames os P bn" "\<forall>y \<in> P \<union> set xs. y < length os"
    and "distinct xs" "P \<inter> set xs = {}" "inj_on (\<lambda>y. iid (os ! y)) (P \<union> set xs)"
    and "\<forall>y \<in> set xs. distinct (inames (os ! y))"
    and "load_items iid inames upd xs (os, bi, bn, b) = (os', bi', bn', b')"
  shows "ids_ok iid os' (P \<union> set xs) bi' \<and> names_ok inames os' (P \<union> set xs) bn' \<and>
    length os' = length os \<and> (\<forall>y < length os. iid (os' ! y) = iid (os ! y)) \<and> (\<not> b' \<longrightarrow> os' = os \<and> \<not> b)"
  using assms
proof (induction xs arbitrary: P os bi bn b)
  case Nil
  then show ?case by auto
next
  case (Cons x xs)
  obtain os1 bn1 b1 where run: "claim_names upd (\<lambda>_ c. c) x (inames (os ! x)) (os, bn, b) = (os1, bn1, b1)"
    by (metis prod_cases3)
  define bi1 where "bi1 = bi(iid (os ! x) \<mapsto> x)"
  have rest: "load_items iid inames upd xs (os1, bi1, bn1, b1) = (os', bi', bn', b')"
    using Cons.prems(8) run by (simp add: bi1_def)
  have "claiming P x {} os bn" using Cons.prems(2,3,5) by (auto simp: claiming_def names_ok_def)
  from claim_names_spec [OF this _ _ _ _ run] Cons.prems(7)
  have c: "claiming P x (set (inames (os ! x))) os1 bn1" "length os1 = length os" "os1 ! x = os ! x"
    "\<And>y. y \<in> P \<Longrightarrow> os1 ! y = upd (filter (\<lambda>n. n \<notin> set (inames (os ! x)))) (os ! y)"
    "\<And>y. y \<notin> insert x P \<Longrightarrow> os1 ! y = os ! y"
    by (auto simp: fold_ignore)
  have iids: "iid (os1 ! y) = iid (os ! y)" for y using c(3) c(4,5) [of y] by (cases "y \<in> insert x P") auto
  have "ids_ok iid os1 (insert x P) bi1"
    unfolding ids_ok_def
  proof (intro allI)
    fix k y
    have "bi k = Some y \<longleftrightarrow> y \<in> P \<and> iid (os ! y) = k" using Cons.prems(1) by (simp add: ids_ok_def)
    moreover have "y \<in> P \<Longrightarrow> iid (os ! y) \<noteq> iid (os ! x)"
      using inj_onD [OF Cons.prems(6), of y x] Cons.prems(5) by auto
    ultimately show "bi1 k = Some y \<longleftrightarrow> y \<in> insert x P \<and> iid (os1 ! y) = k"
      using iids by (auto simp: bi1_def)
  qed
  moreover have "names_ok inames os1 (insert x P) bn1"
    using c(1,3) Cons.prems(7) unfolding names_ok_def claiming_def by auto
  moreover have "inj_on (\<lambda>y. iid (os1 ! y)) (insert x P \<union> set xs)"
    using Cons.prems(6) by (simp add: iids)
  moreover have "\<forall>y \<in> set xs. distinct (inames (os1 ! y))"
  proof
    fix y assume "y \<in> set xs"
    then have "y \<notin> insert x P" using Cons.prems(4,5) by auto
    then show "distinct (inames (os1 ! y))" using c(5) [of y] Cons.prems(7) \<open>y \<in> set xs\<close> by simp
  qed
  ultimately have IH: "ids_ok iid os' (insert x P \<union> set xs) bi' \<and> names_ok inames os' (insert x P \<union> set xs) bn' \<and>
    length os' = length os1 \<and> (\<forall>y < length os1. iid (os' ! y) = iid (os1 ! y)) \<and> (\<not> b' \<longrightarrow> os' = os1 \<and> \<not> b1)"
    using Cons.prems(3-5) c(2) by (intro Cons.IH [OF _ _ _ _ _ _ _ rest]) auto
  then show ?case using claim_names_quiet [OF run] c(2) iids by auto
qed

lemma load_store_spec:
  assumes "distinct (map iid cs)" "\<forall>c \<in> set cs. distinct (inames c)"
    and "load_store iid inames upd cs r = (r', b)"
  shows "store_ok iid inames r'" and "map iid (item_list r') = map iid cs" and "\<not> b \<Longrightarrow> item_list r' = cs"
    and "\<exists>os ix bi bn. r' = r\<lparr>objs := os, items := [0..<length cs], idindex := ix, byid := bi, byname := bn\<rparr> \<and>
      length os = length cs"
proof -
  obtain os bi bn where
    run: "load_items iid inames upd [0..<length cs] (cs, Map.empty, Map.empty, False) = (os, bi, bn, b)"
    and r': "r' = r\<lparr>objs := os, items := [0..<length cs], idindex := NewTruncIndex (map iid cs),
            byid := bi, byname := bn\<rparr>"
    using assms(3) by (auto simp: load_store_def split: prod.splits)
  have "inj_on (\<lambda>y. iid (cs ! y)) {0..<length cs}"
    using assms(1) by (auto simp: distinct_conv_nth intro!: inj_onI) metis
  with load_items_spec [of cs "{}" Map.empty Map.empty "[0..<length cs]", OF _ _ _ _ _ _ _ run] assms(2)
  have s: "ids_ok iid os {0..<length cs} bi" "names_ok inames os {0..<length cs} bn" "length os = length cs"
    "\<And>y. y < length cs \<Longrightarrow> iid (os ! y) = iid (cs ! y)" "\<not> b \<Longrightarrow> os = cs"
    by (auto simp: ids_ok_def names_ok_def)
  have "dom bi = iid ` set cs"
    using s(1,4) by (auto simp: ids_ok_def dom_def set_conv_nth)
  then show "store_ok iid inames r'"
    using s(1-3) by (auto simp: store_ok_def r' NewTruncIndex_ok tids_NewTruncIndex)
  show "map iid (item_list r') = map iid cs"
    using s(3,4) by (auto simp: item_list_def r' intro: nth_equalityI)
  show "\<not> b \<Longrightarrow> item_list r' = cs"
    using s(3,5) by (simp add: item_list_def r' map_nth)
  show "\<exists>os ix bi bn. r' = r\<lparr>objs := os, items := [0..<length cs], idindex := ix, byid := bi, byname := bn\<rparr> \<and>
      length os = length cs"
    using r' s(3) by blast
qed

text \<open>Loading changes nothing but the names.\<close>

lemma claim_names_proj:
  assumes "\<And>f c. g (upd f c) = g c" "claim_names upd (\<lambda>_ c. c) x ns (os, bn, b) = (os', bn', b')"
  shows "map g os' = map g os"
  using assms(2)
proof (induction ns arbitrary: os bn b)
  case (Cons n ns)
  have upd: "map g (os[y := upd f (os ! y)]) = map g os" for y f
    by (cases "y < length os") (auto simp: nth_list_update assms(1) intro!: nth_equalityI)
  show ?case using Cons.prems Cons.IH upd by (auto simp: Let_def split: option.splits)
qed simp

lemma load_items_proj:
  assumes "\<And>f c. g (upd f c) = g c" "load_items iid inames upd xs (os, bi, bn, b) = (os', bi', bn', b')"
  shows "map g os' = map g os"
  using assms(2)
proof (induction xs arbitrary: os bi bn b)
  case (Cons x xs)
  obtain os1 bn1 b1 where run: "claim_names upd (\<lambda>_ c. c) x (inames (os ! x)) (os, bn, b) = (os1, bn1, b1)"
    by (metis prod_cases3)
  then show ?case using Cons claim_names_proj [OF assms(1) run] by simp
qed simp

lemma load_store_proj:
  assumes "\<And>f c. g (upd f c) = g c" "load_store iid inames upd cs r = (r', b)"
  shows "map g (objs r') = map g cs"
  using assms(2) load_items_proj [of g, OF assms(1)] by (auto simp: load_store_def split: prod.splits)

text \<open>Records whose names do not clash load as they are.\<close>

lemma claim_names_fresh:
  "\<forall>n \<in> set ns. bn n = None \<Longrightarrow> distinct ns \<Longrightarrow>
   claim_names upd (\<lambda>_ c. c) x ns (os, bn, b) = (os, add_names x ns bn, b)"
proof (induction ns arbitrary: bn)
  case (Cons n ns)
  define bn1 where "bn1 = bn(n \<mapsto> x)"
  have "\<forall>m \<in> set ns. bn1 m = None" using Cons.prems by (auto simp: bn1_def)
  then have "claim_names upd (\<lambda>_ c. c) x ns (os, bn1, b) = (os, add_names x ns bn1, b)"
    using Cons.IH [of bn1] Cons.prems(2) by simp
  then show ?case using Cons.prems(1) by (simp add: bn1_def)
qed simp

lemma load_items_fresh:
  "names_apart inames (map (\<lambda>y. os ! y) xs) \<Longrightarrow> \<forall>y \<in> set xs. distinct (inames (os ! y)) \<Longrightarrow>
   \<forall>y \<in> set xs. \<forall>n \<in> set (inames (os ! y)). bn n = None \<Longrightarrow>
   \<exists>bi' bn'. load_items iid inames upd xs (os, bi, bn, b) = (os, bi', bn', b)"
proof (induction xs arbitrary: bi bn)
  case Nil
  then show ?case by simp
next
  case (Cons x xs)
  have "claim_names upd (\<lambda>_ c. c) x (inames (os ! x)) (os, bn, b) = (os, add_names x (inames (os ! x)) bn, b)"
    using Cons.prems by (intro claim_names_fresh) simp_all
  moreover have "\<forall>y \<in> set xs. \<forall>n \<in> set (inames (os ! y)). add_names x (inames (os ! x)) bn n = None"
    using Cons.prems by (auto simp: add_names_apply names_apart_def)
  ultimately show ?case
    using Cons.IH Cons.prems by (simp add: names_apart_def)
qed

lemma load_store_fresh:
  assumes "names_apart inames cs" "\<forall>c \<in> set cs. distinct (inames c)"
  shows "\<exists>r'. load_store iid inames upd cs r = (r', False)"
proof -
  have "map (\<lambda>y. cs ! y) [0..<length cs] = cs" by (simp add: map_nth)
  then show ?thesis
    using load_items_fresh [of cs "[0..<length cs]" Map.empty Map.empty False] assms
    by (auto simp: load_store_def)
qed

end

end
