(* ===== verification/IdTools.thy ===== *)
theory IdTools
  imports Prelude "HOL-Library.Multiset"
begin

text \<open>
  ID mappings: \<^verbatim>\<open>pkg/idtools/idtools.go\<close>, \<^verbatim>\<open>pkg/idtools/parser.go\<close>
  and \<^verbatim>\<open>types/idmappings.go\<close>.

  A Go slice of mappings distinguishes \<open>nil\<close> from an empty slice, and the code tests for
  \<open>nil\<close>, so slices that reach such a test are of type \<open>idmaps\<close>, with \<open>None\<close> for \<open>nil\<close>.
  Go's \<open>int\<close> is represented by \<open>int\<close>: the values are 32-bit IDs and sums of two of them.
\<close>

section \<open>Data\<close>

record IDMap =
  ContainerID :: int
  HostID :: int
  Size :: int

type_synonym idmaps = "IDMap list option"

record subIDRange =
  Start :: int
  Length :: int

record IDPair =
  UID :: int
  GID :: int

record IDMappings =
  uids :: idmaps
  gids :: idmaps

definition slice_of :: "'a list option \<Rightarrow> 'a list" where
  "slice_of m = (case m of None \<Rightarrow> [] | Some xs \<Rightarrow> xs)"

text \<open>\<open>copyIDMap\<close> of \<^verbatim>\<open>store.go\<close> turns an empty slice into \<open>nil\<close>.\<close>

definition copyIDMap :: "idmaps \<Rightarrow> idmaps" where
  "copyIDMap m = (case m of None \<Rightarrow> None | Some [] \<Rightarrow> None | Some (x # xs) \<Rightarrow> Some (x # xs))"

section \<open>Translation\<close>

fun toContainer_loop :: "int \<Rightarrow> IDMap list \<Rightarrow> gerr + int" where
  "toContainer_loop hostID [] = Inl (Errorf ''Host ID cannot be mapped to a container ID'')"
| "toContainer_loop hostID (m # ms) =
     (if hostID \<ge> HostID m \<and> hostID \<le> HostID m + Size m - 1
      then Inr (ContainerID m + (hostID - HostID m))
      else toContainer_loop hostID ms)"

definition toContainer :: "int \<Rightarrow> idmaps \<Rightarrow> gerr + int" where
  "toContainer hostID idMap =
     (case idMap of None \<Rightarrow> Inr hostID | Some ms \<Rightarrow> toContainer_loop hostID ms)"

fun toHost_loop :: "int \<Rightarrow> IDMap list \<Rightarrow> gerr + int" where
  "toHost_loop contID [] = Inl (Errorf ''Container ID cannot be mapped to a host ID'')"
| "toHost_loop contID (m # ms) =
     (if contID \<ge> ContainerID m \<and> contID \<le> ContainerID m + Size m - 1
      then Inr (HostID m + (contID - ContainerID m))
      else toHost_loop contID ms)"

definition toHost :: "int \<Rightarrow> idmaps \<Rightarrow> gerr + int" where
  "toHost contID idMap =
     (case idMap of None \<Rightarrow> Inr contID | Some ms \<Rightarrow> toHost_loop contID ms)"

definition root_id :: "idmaps \<Rightarrow> gerr + int" where
  "root_id m =
     (case slice_of m of
        [x] \<Rightarrow> if Size x = 1 then Inr (HostID x) else toHost 0 m
      | _ \<Rightarrow> toHost 0 m)"

text \<open>
  The Go function returns \<open>-1, -1\<close> with an error; \<open>RootPair\<close> ignores the error and keeps them.
\<close>

definition GetRootUIDGID :: "idmaps \<Rightarrow> idmaps \<Rightarrow> (int \<times> int) \<times> gerr option" where
  "GetRootUIDGID uidMap gidMap =
     (case root_id uidMap of
        Inl e \<Rightarrow> ((-1, -1), Some e)
      | Inr uid \<Rightarrow>
          (case root_id gidMap of
             Inl e \<Rightarrow> ((-1, -1), Some e)
           | Inr gid \<Rightarrow> ((uid, gid), None)))"

definition NewIDMappingsFromMaps :: "idmaps \<Rightarrow> idmaps \<Rightarrow> IDMappings" where
  "NewIDMappingsFromMaps u g = \<lparr>uids = u, gids = g\<rparr>"

definition RootPair :: "IDMappings \<Rightarrow> IDPair" where
  "RootPair i = (let (uid, gid) = fst (GetRootUIDGID (uids i) (gids i)) in \<lparr>UID = uid, GID = gid\<rparr>)"

definition ToHost :: "IDMappings \<Rightarrow> IDPair \<Rightarrow> gerr + IDPair" where
  "ToHost i pair =
     (case toHost (UID pair) (uids i) of
        Inl e \<Rightarrow> Inl e
      | Inr u \<Rightarrow> (case toHost (GID pair) (gids i) of Inl e \<Rightarrow> Inl e | Inr g \<Rightarrow> Inr \<lparr>UID = u, GID = g\<rparr>))"

definition ToContainer :: "IDMappings \<Rightarrow> IDPair \<Rightarrow> gerr + (int \<times> int)" where
  "ToContainer i pair =
     (case toContainer (UID pair) (uids i) of
        Inl e \<Rightarrow> Inl e
      | Inr u \<Rightarrow> (case toContainer (GID pair) (gids i) of Inl e \<Rightarrow> Inl e | Inr g \<Rightarrow> Inr (u, g)))"

definition Empty :: "IDMappings \<Rightarrow> bool" where
  "Empty i \<longleftrightarrow> slice_of (uids i) = [] \<and> slice_of (gids i) = []"

section \<open>Subordinate ID ranges\<close>

fun createIDMap_loop :: "int \<Rightarrow> subIDRange list \<Rightarrow> IDMap list" where
  "createIDMap_loop containerID [] = []"
| "createIDMap_loop containerID (r # rs) =
     \<lparr>ContainerID = containerID, HostID = Start r, Size = Length r\<rparr>
       # createIDMap_loop (containerID + Length r) rs"

definition createIDMap :: "subIDRange list \<Rightarrow> IDMap list" where
  "createIDMap subidRanges = createIDMap_loop 0 (sort_key Start subidRanges)"

text \<open>
  \<open>parseSubidFile\<close> on the lines the scanner delivers; \<open>uidstr\<close> is the numeric ID of the
  user as \<open>user.Lookup\<close> reports it, or the empty string.
\<close>

fun parseSubid_lines :: "string \<Rightarrow> string \<Rightarrow> string list \<Rightarrow> gerr + subIDRange list" where
  "parseSubid_lines username uidstr [] = Inr []"
| "parseSubid_lines username uidstr (l # ls) =
     (let txt = trim_space l in
      if txt = [] \<or> hd txt = CHR ''#'' then parseSubid_lines username uidstr ls
      else case split_on (CHR '':'') txt of
        [p0, p1, p2] \<Rightarrow>
          if p0 = username \<or> username = ''ALL'' \<or> (p0 = uidstr \<and> p0 \<noteq> [])
          then (case atoi p1 of
                  None \<Rightarrow> Inl (Errorf ''String to int conversion failed'')
                | Some startid \<Rightarrow>
                    (case atoi p2 of
                       None \<Rightarrow> Inl (Errorf ''String to int conversion failed'')
                     | Some len \<Rightarrow>
                         (case parseSubid_lines username uidstr ls of
                            Inl e \<Rightarrow> Inl e
                          | Inr rs \<Rightarrow> Inr (\<lparr>Start = startid, Length = len\<rparr> # rs))))
          else parseSubid_lines username uidstr ls
      | _ \<Rightarrow> Inl (Errorf ''Cannot parse subuid/gid information''))"

definition NewIDMappings :: "gerr + subIDRange list \<Rightarrow> gerr + subIDRange list \<Rightarrow> gerr + IDMappings" where
  "NewIDMappings subuid subgid =
     (case subuid of
        Inl e \<Rightarrow> Inl e
      | Inr subuidRanges \<Rightarrow>
          (case subgid of
             Inl e \<Rightarrow> Inl e
           | Inr subgidRanges \<Rightarrow>
               if subuidRanges = [] then Inl (Errorf ''No subuid ranges found'')
               else if subgidRanges = [] then Inl (Errorf ''No subgid ranges found'')
               else Inr \<lparr>uids = Some (createIDMap subuidRanges), gids = Some (createIDMap subgidRanges)\<rparr>))"

section \<open>Contiguity\<close>

fun adjacent :: "(IDMap \<Rightarrow> int) \<Rightarrow> IDMap list \<Rightarrow> bool" where
  "adjacent key (a # b # ms) = (key b = key a + Size a \<and> adjacent key (b # ms))"
| "adjacent key _ = True"

text \<open>
  \<open>IsContiguous\<close> sorts the caller's slice in place, twice; the second component is the slice
  as the caller sees it afterwards.
\<close>

definition IsContiguous :: "IDMap list \<Rightarrow> bool \<times> IDMap list" where
  "IsContiguous mappings =
     (if length mappings < 2 then (True, mappings)
      else let mh = sort_key HostID mappings in
           if \<not> adjacent HostID mh then (False, mh)
           else let mc = sort_key ContainerID mh in (adjacent ContainerID mc, mc))"

section \<open>Parsing\<close>

definition parseTriple :: "string \<Rightarrow> string \<Rightarrow> string \<Rightarrow> IDMap option" where
  "parseTriple c h s =
     (case parse_uint 32 c of
        None \<Rightarrow> None
      | Some cid \<Rightarrow>
          (case parse_uint 32 h of
             None \<Rightarrow> None
           | Some hid \<Rightarrow>
               (case parse_uint 32 s of
                  None \<Rightarrow> None
                | Some sz \<Rightarrow> Some \<lparr>ContainerID = int cid, HostID = int hid, Size = int sz\<rparr>)))"

fun parse_triples :: "string list \<Rightarrow> gerr + IDMap list" where
  "parse_triples [] = Inr []"
| "parse_triples (c # h # s # rest) =
     (case parseTriple c h s of
        None \<Rightarrow> Inl (Errorf ''error initializing ID mappings'')
      | Some m \<Rightarrow> (case parse_triples rest of Inl e \<Rightarrow> Inl e | Inr ms \<Rightarrow> Inr (m # ms)))"
| "parse_triples _ = Inl (Errorf ''error initializing ID mappings'')"

fun ParseIDMap :: "string list \<Rightarrow> gerr + IDMap list" where
  "ParseIDMap [] = Inr []"
| "ParseIDMap (spec # specs) =
     (if spec = [] then ParseIDMap specs
      else let idSpec = split_on (CHR '':'') spec in
           if length idSpec mod 3 \<noteq> 0 then Inl (Errorf ''error initializing ID mappings'')
           else case parse_triples idSpec of
             Inl e \<Rightarrow> Inl e
           | Inr ms \<Rightarrow> (case ParseIDMap specs of Inl e \<Rightarrow> Inl e | Inr ms' \<Rightarrow> Inr (ms @ ms')))"

record AutoUserNsOptions =
  aun_Size :: nat
  aun_InitialSize :: nat
  aun_PasswdFile :: string
  aun_GroupFile :: string
  aun_AdditionalUIDMappings :: "IDMap list"
  aun_AdditionalGIDMappings :: "IDMap list"

record IDMappingOptions =
  HostUIDMapping :: bool
  HostGIDMapping :: bool
  UIDMap :: idmaps
  GIDMap :: idmaps
  AutoUserNs :: bool
  AutoUserNsOpts :: AutoUserNsOptions

definition no_auto_userns :: AutoUserNsOptions where
  "no_auto_userns = \<lparr>aun_Size = 0, aun_InitialSize = 0, aun_PasswdFile = [], aun_GroupFile = [],
     aun_AdditionalUIDMappings = [], aun_AdditionalGIDMappings = []\<rparr>"

definition append_slice :: "'a list option \<Rightarrow> 'a list \<Rightarrow> 'a list option" where
  "append_slice m xs = (if xs = [] then m else Some (slice_of m @ xs))"

text \<open>
  \<open>ParseIDMapping\<close>: \<open>sub\<close> stands for \<open>idtools.NewIDMappings\<close> on the two names,
  \<open>uid\<close> and \<open>gid\<close> for the process's own IDs.
\<close>

definition ParseIDMapping ::
  "(string \<Rightarrow> string \<Rightarrow> gerr + IDMappings) \<Rightarrow> nat \<Rightarrow> nat \<Rightarrow>
   string list \<Rightarrow> string list \<Rightarrow> string \<Rightarrow> string \<Rightarrow> gerr + IDMappingOptions" where
  "ParseIDMapping sub uid gid us0 gs0 subu0 subg0 =
     (let subg = (if subg0 = [] \<and> subu0 \<noteq> [] then subu0 else subg0);
          subu = (if subu0 = [] \<and> subg \<noteq> [] then subg else subu0);
          gs1 = (if gs0 = [] \<and> us0 \<noteq> [] then us0 else gs0);
          us1 = (if us0 = [] \<and> gs1 \<noteq> [] then gs1 else us0);
          us = (if us1 = [] \<and> subu = [] \<and> uid \<noteq> 0 then [''0:'' @ show_nat uid @ '':1''] else us1);
          gs = (if gs1 = [] \<and> subg = [] \<and> uid \<noteq> 0 then [''0:'' @ show_nat gid @ '':1''] else gs1)
      in case (if subu \<noteq> [] \<and> subg \<noteq> [] then sub subu subg else Inr \<lparr>uids = None, gids = None\<rparr>) of
           Inl e \<Rightarrow> Inl e
         | Inr m \<Rightarrow>
             (case ParseIDMap us of
                Inl e \<Rightarrow> Inl e
              | Inr pu \<Rightarrow>
                  (case ParseIDMap gs of
                     Inl e \<Rightarrow> Inl e
                   | Inr pg \<Rightarrow>
                       let u = append_slice (uids m) pu; g = append_slice (gids m) pg
                       in Inr \<lparr>HostUIDMapping = (slice_of u = []), HostGIDMapping = (slice_of g = []),
                               UIDMap = u, GIDMap = g, AutoUserNs = False,
                               AutoUserNsOpts = no_auto_userns\<rparr>)))"

section \<open>Properties\<close>

text \<open>The IDs a mapping covers on the side \<open>key\<close> (\<open>HostID\<close> or \<open>ContainerID\<close>).\<close>

definition ids_by :: "(IDMap \<Rightarrow> int) \<Rightarrow> IDMap \<Rightarrow> int set" where
  "ids_by key m = {key m ..< key m + Size m}"

definition disjoint_by :: "(IDMap \<Rightarrow> int) \<Rightarrow> IDMap list \<Rightarrow> bool" where
  "disjoint_by key ms \<longleftrightarrow> sorted_wrt (\<lambda>a b. ids_by key a \<inter> ids_by key b = {}) ms"

definition all_ids :: "(IDMap \<Rightarrow> int) \<Rightarrow> IDMap list \<Rightarrow> int set" where
  "all_ids key ms = (\<Union>m \<in> set ms. ids_by key m)"

lemma ids_by_iff [simp]: "i \<in> ids_by key m \<longleftrightarrow> key m \<le> i \<and> i < key m + Size m"
  by (simp add: ids_by_def)

lemma all_ids_simps [simp]:
  "all_ids key [] = {}" "all_ids key (m # ms) = ids_by key m \<union> all_ids key ms"
  by (simp_all add: all_ids_def)

lemma disjoint_by_simps [simp]:
  "disjoint_by key []"
  "disjoint_by key (m # ms) \<longleftrightarrow> ids_by key m \<inter> all_ids key ms = {} \<and> disjoint_by key ms"
  by (auto simp: disjoint_by_def all_ids_def)

lemma all_ids_cong: "set ms = set ms' \<Longrightarrow> all_ids key ms = all_ids key ms'"
  by (simp add: all_ids_def)

text \<open>
  Both translation loops search the list for the first mapping that covers the ID and shift
  it from one side to the other; the interface says just that, and the facts follow once.
\<close>

locale id_shift =
  fixes src dst :: "IDMap \<Rightarrow> int"
    and shift :: "int \<Rightarrow> IDMap list \<Rightarrow> gerr + int"
    and err :: gerr
  assumes shift_Nil: "shift i [] = Inl err"
    and shift_Cons: "shift i (m # ms) =
      (if i \<in> ids_by src m then Inr (dst m + (i - src m)) else shift i ms)"
begin

lemma shift_defined_iff: "(\<exists>j. shift i ms = Inr j) \<longleftrightarrow> i \<in> all_ids src ms"
  by (induction ms) (auto simp: shift_Nil shift_Cons)

lemma shift_undefined: "i \<notin> all_ids src ms \<Longrightarrow> shift i ms = Inl err"
  by (induction ms) (auto simp: shift_Nil shift_Cons)

lemma shift_range: "shift i ms = Inr j \<Longrightarrow> j \<in> all_ids dst ms"
  by (induction ms) (auto simp: shift_Nil shift_Cons split: if_splits)

lemma shift_inj:
  "disjoint_by dst ms \<Longrightarrow> shift i ms = Inr j \<Longrightarrow> shift i' ms = Inr j \<Longrightarrow> i = i'"
proof (induction ms)
  case Nil
  then show ?case by (simp add: shift_Nil)
next
  case (Cons m ms)
  have "j \<in> ids_by dst m \<Longrightarrow> shift k ms \<noteq> Inr j" for k
    using Cons.prems(1) shift_range [of k ms j] by auto
  with Cons show ?case
    by (auto simp: shift_Cons split: if_splits)
qed

end

interpretation to_host: id_shift ContainerID HostID toHost_loop
  "Errorf ''Container ID cannot be mapped to a host ID''"
  by unfold_locales auto

interpretation to_cont: id_shift HostID ContainerID toContainer_loop
  "Errorf ''Host ID cannot be mapped to a container ID''"
  by unfold_locales auto

lemma toContainer_loop_toHost_loop:
  "disjoint_by HostID ms \<Longrightarrow> toHost_loop c ms = Inr h \<Longrightarrow> toContainer_loop h ms = Inr c"
proof (induction ms)
  case Nil
  then show ?case by simp
next
  case (Cons m ms)
  show ?case
  proof (cases "c \<in> ids_by ContainerID m")
    case True
    with Cons.prems show ?thesis by auto
  next
    case False
    with Cons.prems(2) have c: "toHost_loop c ms = Inr h" by auto
    then have "h \<in> all_ids HostID ms" by (rule to_host.shift_range)
    with Cons.prems(1) have "h \<notin> ids_by HostID m" unfolding disjoint_by_simps by blast
    with Cons.IH [OF _ c] Cons.prems(1) show ?thesis by auto
  qed
qed

lemma toHost_loop_toContainer_loop:
  "disjoint_by ContainerID ms \<Longrightarrow> toContainer_loop h ms = Inr c \<Longrightarrow> toHost_loop c ms = Inr h"
proof (induction ms)
  case Nil
  then show ?case by simp
next
  case (Cons m ms)
  show ?case
  proof (cases "h \<in> ids_by HostID m")
    case True
    with Cons.prems show ?thesis by auto
  next
    case False
    with Cons.prems(2) have h: "toContainer_loop h ms = Inr c" by auto
    then have "c \<in> all_ids ContainerID ms" by (rule to_cont.shift_range)
    with Cons.prems(1) have "c \<notin> ids_by ContainerID m" unfolding disjoint_by_simps by blast
    with Cons.IH [OF _ h] Cons.prems(1) show ?thesis by auto
  qed
qed

subsection \<open>Mappings built from subordinate ID ranges\<close>

definition range_ids :: "subIDRange list \<Rightarrow> int set" where
  "range_ids rs = (\<Union>r \<in> set rs. {Start r ..< Start r + Length r})"

lemma createIDMap_loop_container:
  "\<forall>r \<in> set rs. 0 \<le> Length r \<Longrightarrow>
   all_ids ContainerID (createIDMap_loop c rs) = {c ..< c + sum_list (map Length rs)} \<and>
   disjoint_by ContainerID (createIDMap_loop c rs)"
proof (induction rs arbitrary: c)
  case Nil
  then show ?case by simp
next
  case (Cons r rs)
  have "0 \<le> sum_list (map Length rs)"
    using Cons.prems by (intro sum_list_nonneg) auto
  with Cons show ?case by (auto simp: ids_by_def)
qed

lemma createIDMap_loop_host:
  "all_ids HostID (createIDMap_loop c rs) = range_ids rs"
  by (induction rs arbitrary: c) (auto simp: range_ids_def ids_by_def)

lemma sum_list_sort_key: "sum_list (map f (sort_key k xs)) = sum_list (map f xs :: int list)"
  by (metis mset_map mset_sort sum_mset_sum_list)

lemma createIDMap_all_ids:
  assumes "\<forall>r \<in> set rs. 0 \<le> Length r"
  shows "all_ids ContainerID (createIDMap rs) = {0 ..< sum_list (map Length rs)}"
    and "disjoint_by ContainerID (createIDMap rs)"
    and "all_ids HostID (createIDMap rs) = range_ids rs"
  using createIDMap_loop_container [of "sort_key Start rs" 0] assms
  by (auto simp: createIDMap_def createIDMap_loop_host range_ids_def sum_list_sort_key)

lemma disjoint_by_HostID_createIDMap_loop:
  "sorted_wrt (\<lambda>a b. {Start a ..< Start a + Length a} \<inter> {Start b ..< Start b + Length b} = {}) rs
   \<Longrightarrow> disjoint_by HostID (createIDMap_loop c rs)"
proof (induction rs arbitrary: c)
  case Nil
  then show ?case by simp
next
  case (Cons r rs)
  have "all_ids HostID (createIDMap_loop (c + Length r) rs) = range_ids rs"
    by (rule createIDMap_loop_host)
  with Cons show ?case
    by (fastforce simp: range_ids_def ids_by_def)
qed

lemma sorted_wrt_sym_perm:
  assumes "mset xs = mset ys" and "\<And>a b. R a b \<Longrightarrow> R b a" and "sorted_wrt R xs"
  shows "sorted_wrt R ys"
  using assms
proof (induction ys arbitrary: xs)
  case Nil
  then show ?case by simp
next
  case (Cons y ys)
  have "y \<in> set xs" using Cons.prems(1) by (metis list.set_intros(1) mset_eq_setD)
  then obtain us vs where xs: "xs = us @ y # vs" by (meson split_list)
  with Cons.prems(1) have "mset (us @ vs) = mset ys" by simp
  moreover have "sorted_wrt R (us @ vs)"
    using Cons.prems(3) by (auto simp: xs sorted_wrt_append)
  ultimately have "sorted_wrt R ys" using Cons.IH Cons.prems(2) by blast
  moreover have "R y z" if "z \<in> set ys" for z
  proof -
    from that \<open>mset (us @ vs) = mset ys\<close> have "z \<in> set us \<union> set vs"
      by (metis mset_eq_setD set_append)
    then show ?thesis using Cons.prems(2,3) by (auto simp: xs sorted_wrt_append)
  qed
  ultimately show ?case by simp
qed

lemma disjoint_by_perm: "mset xs = mset ys \<Longrightarrow> disjoint_by key xs \<Longrightarrow> disjoint_by key ys"
  unfolding disjoint_by_def by (erule sorted_wrt_sym_perm) (auto simp: Int_commute)

definition disjoint_ranges :: "subIDRange list \<Rightarrow> bool" where
  "disjoint_ranges rs \<longleftrightarrow>
     sorted_wrt (\<lambda>a b. {Start a ..< Start a + Length a} \<inter> {Start b ..< Start b + Length b} = {}) rs"

lemma disjoint_by_HostID_createIDMap:
  assumes "disjoint_ranges rs"
  shows "disjoint_by HostID (createIDMap rs)"
proof -
  have "sorted_wrt (\<lambda>a b. {Start a ..< Start a + Length a} \<inter> {Start b ..< Start b + Length b} = {})
          (sort_key Start rs)"
    by (rule sorted_wrt_sym_perm [of rs]) (use assms in \<open>auto simp: disjoint_ranges_def\<close>)
  then show ?thesis
    unfolding createIDMap_def by (rule disjoint_by_HostID_createIDMap_loop)
qed

subsection \<open>Contiguity\<close>

lemma adjacent_interval:
  "adjacent key (m # ms) \<Longrightarrow> \<forall>x \<in> set (m # ms). 0 \<le> Size x \<Longrightarrow>
   all_ids key (m # ms) = {key m ..< key m + sum_list (map Size (m # ms))}"
proof (induction ms arbitrary: m)
  case Nil
  then show ?case by (simp add: ids_by_def)
next
  case (Cons m' ms)
  have "0 \<le> sum_list (map Size ms)"
    using Cons.prems(2) by (intro sum_list_nonneg) auto
  moreover have "all_ids key (m' # ms) = {key m' ..< key m' + sum_list (map Size (m' # ms))}"
    using Cons.IH [of m'] Cons.prems by simp
  ultimately show ?case
    using Cons.prems by (auto simp: ids_by_def)
qed

lemma adjacent_interval_ex:
  assumes "adjacent key ms" "ms \<noteq> []" "\<forall>x \<in> set ms. 0 \<le> Size x"
  shows "\<exists>lo. all_ids key ms = {lo ..< lo + sum_list (map Size ms)}"
  using assms adjacent_interval by (metis list.exhaust)

lemma IsContiguous_perm: "mset (snd (IsContiguous ms)) = mset ms"
  by (simp add: IsContiguous_def Let_def)

lemma IsContiguous_side:
  assumes "fst (IsContiguous ms)" "ms \<noteq> []" "\<forall>m \<in> set ms. 0 \<le> Size m"
    and "key = HostID \<or> key = ContainerID"
  shows "\<exists>lo. all_ids key ms = {lo ..< lo + sum_list (map Size ms)}"
proof (cases "length ms < 2")
  case True
  with assms(2) obtain m where "ms = [m]"
    by (cases ms) (auto simp: length_Suc_conv less_Suc_eq numeral_2_eq_2)
  then show ?thesis by (auto simp: ids_by_def)
next
  case False
  let ?mh = "sort_key HostID ms"
  let ?mc = "sort_key ContainerID ?mh"
  from False assms(1) have "adjacent HostID ?mh" "adjacent ContainerID ?mc"
    by (auto simp: IsContiguous_def Let_def split: if_splits)
  moreover have "?mh \<noteq> []" "?mc \<noteq> []"
    using False by (metis length_sort list.size(3) not_less_zero not_numeral_less_zero
        zero_less_numeral)+
  ultimately have "\<exists>lo. all_ids HostID ?mh = {lo ..< lo + sum_list (map Size ?mh)}"
    and "\<exists>lo. all_ids ContainerID ?mc = {lo ..< lo + sum_list (map Size ?mc)}"
    using assms(3) by (auto intro!: adjacent_interval_ex)
  moreover have "all_ids key ?mh = all_ids key ms" "all_ids key ?mc = all_ids key ms" for key
    by (simp_all add: all_ids_def)
  ultimately show ?thesis using assms(4) by (auto simp: sum_list_sort_key)
qed

subsection \<open>Printed triples\<close>

definition show_idmap :: "IDMap \<Rightarrow> string" where
  "show_idmap m = show_nat (nat (ContainerID m)) @ CHR '':'' # show_nat (nat (HostID m))
     @ CHR '':'' # show_nat (nat (Size m))"

definition is_idmap32 :: "IDMap \<Rightarrow> bool" where
  "is_idmap32 m \<longleftrightarrow> 0 \<le> ContainerID m \<and> ContainerID m < 2 ^ 32 \<and> 0 \<le> HostID m \<and> HostID m < 2 ^ 32
     \<and> 0 \<le> Size m \<and> Size m < 2 ^ 32"

lemma parse_uint_show_int: "0 \<le> i \<Longrightarrow> i < 2 ^ 32 \<Longrightarrow> parse_uint 32 (show_nat (nat i)) = Some (nat i)"
  by (rule parse_uint_show_nat) (simp add: nat_less_iff)

lemma parseTriple_show:
  "is_idmap32 m \<Longrightarrow>
   parseTriple (show_nat (nat (ContainerID m))) (show_nat (nat (HostID m))) (show_nat (nat (Size m)))
     = Some m"
  unfolding is_idmap32_def parseTriple_def by (simp add: parse_uint_show_int)

lemma split_show_idmap:
  "split_on (CHR '':'') (show_idmap m) =
     [show_nat (nat (ContainerID m)), show_nat (nat (HostID m)), show_nat (nat (Size m))]"
  by (simp add: show_idmap_def split_on_append split_on_no_sep)

lemma ParseIDMap_show_idmap:
  "list_all is_idmap32 ms \<Longrightarrow> ParseIDMap (map show_idmap ms) = Inr ms"
proof (induction ms)
  case Nil
  then show ?case by simp
next
  case (Cons m ms)
  have "show_idmap m \<noteq> []" by (simp add: show_idmap_def)
  with Cons show ?case by (simp add: split_show_idmap parseTriple_show)
qed

lemma parse_triples_bounds: "parse_triples ss = Inr ms \<Longrightarrow> list_all is_idmap32 ms"
proof (induction ss arbitrary: ms rule: parse_triples.induct)
  case (2 c h s rest)
  have "is_idmap32 m" if "parseTriple c h s = Some m" for m
    using that
    by (auto simp: parseTriple_def is_idmap32_def split: option.splits dest!: parse_uint_bound)
  with 2 show ?case by (auto split: option.splits sum.splits)
qed auto

lemma ParseIDMap_bounds: "ParseIDMap specs = Inr ms \<Longrightarrow> list_all is_idmap32 ms"
proof (induction specs arbitrary: ms)
  case (Cons spec specs)
  then show ?case
    by (auto simp: Let_def split: if_splits sum.splits dest: parse_triples_bounds)
qed simp

section \<open>Main theorems\<close>

text \<open>
  C33: translating a pair of IDs to the host and back are inverse to each other, in both
  directions, whenever the mappings do not overlap on either side.
\<close>

theorem ToHost_ToContainer_inverse:
  assumes "disjoint_by HostID (slice_of (uids i))" "disjoint_by ContainerID (slice_of (uids i))"
    and "disjoint_by HostID (slice_of (gids i))" "disjoint_by ContainerID (slice_of (gids i))"
  shows "ToHost i p = Inr q \<longleftrightarrow> ToContainer i q = Inr (UID p, GID p)"
proof -
  have side: "toHost c m = Inr h \<longleftrightarrow> toContainer h m = Inr c"
    if "disjoint_by HostID (slice_of m)" "disjoint_by ContainerID (slice_of m)" for c h m
    using that toContainer_loop_toHost_loop [of "slice_of m" c h] toHost_loop_toContainer_loop [of "slice_of m" h c]
    by (cases m) (auto simp: toHost_def toContainer_def slice_of_def)
  show ?thesis
    using side [OF assms(1,2), of "UID p" "UID q"] side [OF assms(3,4), of "GID p" "GID q"]
    by (cases q) (auto simp: ToHost_def ToContainer_def split: sum.splits)
qed

definition demo_idmap :: "IDMap list" where
  "demo_idmap = [\<lparr>ContainerID = 0, HostID = 1000, Size = 1\<rparr>, \<lparr>ContainerID = 1, HostID = 100000, Size = 65536\<rparr>]"

theorem ToHost_ToContainer_inverse_witness:
  "ToContainer (NewIDMappingsFromMaps (Some demo_idmap) None) \<lparr>UID = 100004, GID = 7\<rparr> = Inr (5, 7)"
proof -
  let ?i = "NewIDMappingsFromMaps (Some demo_idmap) None"
  have "disjoint_by HostID (slice_of (uids ?i))" "disjoint_by ContainerID (slice_of (uids ?i))"
    "disjoint_by HostID (slice_of (gids ?i))" "disjoint_by ContainerID (slice_of (gids ?i))"
    by (auto simp: NewIDMappingsFromMaps_def slice_of_def demo_idmap_def)
  from ToHost_ToContainer_inverse [OF this, of "\<lparr>UID = 5, GID = 7\<rparr>" "\<lparr>UID = 100004, GID = 7\<rparr>"]
  show ?thesis by (simp add: ToHost_def toHost_def NewIDMappingsFromMaps_def demo_idmap_def)
qed

text \<open>
  C34: the mapping made from subordinate ranges covers the container IDs from 0 up to the total
  length without gaps, and exactly the host IDs of the ranges; it is one-to-one if the ranges do
  not overlap.
\<close>

theorem createIDMap_covers:
  assumes "\<forall>r \<in> set rs. 0 \<le> Length r" "disjoint_ranges rs"
  shows "all_ids ContainerID (createIDMap rs) = {0 ..< sum_list (map Length rs)} \<and>
    all_ids HostID (createIDMap rs) = range_ids rs \<and>
    disjoint_by ContainerID (createIDMap rs) \<and> disjoint_by HostID (createIDMap rs)"
  using createIDMap_all_ids [OF assms(1)] disjoint_by_HostID_createIDMap [OF assms(2)] by simp

theorem createIDMap_covers_witness:
  "all_ids ContainerID (createIDMap [\<lparr>Start = 300, Length = 10\<rparr>, \<lparr>Start = 100, Length = 5\<rparr>]) = {0 ..< 15}"
  using createIDMap_covers [of "[\<lparr>Start = 300, Length = 10\<rparr>, \<lparr>Start = 100, Length = 5\<rparr>]"]
  by (simp add: disjoint_ranges_def)

text \<open>
  When \<open>IsContiguous\<close> answers yes, the host IDs of the mappings form one interval and so do
  the container IDs; the caller's slice is left a permutation of what it was.
\<close>

lemma IsContiguous_sound:
  assumes "fst (IsContiguous ms)" "ms \<noteq> []" "\<forall>m \<in> set ms. 0 \<le> Size m"
  shows "mset (snd (IsContiguous ms)) = mset ms \<and>
    (\<exists>lo. all_ids HostID ms = {lo ..< lo + sum_list (map Size ms)}) \<and>
    (\<exists>lo. all_ids ContainerID ms = {lo ..< lo + sum_list (map Size ms)})"
  using IsContiguous_perm [of ms] IsContiguous_side [OF assms, of HostID] IsContiguous_side [OF assms, of ContainerID]
  by simp

lemma IsContiguous_sound_witness:
  "\<exists>lo. all_ids HostID [\<lparr>ContainerID = 5, HostID = 105, Size = 10\<rparr>, \<lparr>ContainerID = 0, HostID = 100, Size = 5\<rparr>] = {lo ..< lo + 15}"
  using IsContiguous_sound [of "[\<lparr>ContainerID = 5, HostID = 105, Size = 10\<rparr>, \<lparr>ContainerID = 0, HostID = 100, Size = 5\<rparr>]"]
  by (simp add: IsContiguous_def)


end
