(* ===== verification/Types.thy ===== *)
theory Types
  imports IdTools
begin

text \<open>
  The records the library persists: \<open>Container\<close> (\<^verbatim>\<open>containers.go\<close>), \<open>Image\<close>
  (\<^verbatim>\<open>images.go\<close>), \<open>Layer\<close> and \<open>layerMountPoint\<close> (\<^verbatim>\<open>layers.go\<close>), with the
  source's field names under a one-letter prefix, and what the JSON encoding keeps of them:
  fields tagged \<open>json:"-"\<close> are dropped, empty slices tagged \<open>omitempty\<close> come back as
  \<open>nil\<close>, and a \<open>[]string\<close> stored in a flag comes back as a slice of interface values.

  Maps that the code iterates over (\<open>BigDataSizes\<close>, \<open>BigDataDigests\<close>) are association
  lists whose order is the iteration order; \<open>Flags\<close> is only ever indexed and is a function.
  \<open>Created\<close> is a time stamp, with 0 for Go's zero time.
\<close>

type_synonym bytes = string
type_synonym digest = string

text \<open>Values of type \<open>interface{}\<close> in a \<open>Flags\<close> map.\<close>

datatype ival =
    IBool bool
  | IString string
  | IStrings "string list"
  | IArray "ival list"
  | INum int

type_synonym flags = "string \<rightharpoonup> ival"

record Container =
  c_ID :: string
  c_Names :: "string list"
  c_ImageID :: string
  c_LayerID :: string
  c_Metadata :: string
  c_BigDataNames :: "string list"
  c_BigDataSizes :: "(string \<times> int) list"
  c_BigDataDigests :: "(string \<times> digest) list"
  c_Created :: nat
  c_UIDMap :: idmaps
  c_GIDMap :: idmaps
  c_Flags :: flags

record Image =
  i_ID :: string
  i_Digest :: digest
  i_Digests :: "digest list"
  i_Names :: "string list"
  i_NamesHistory :: "string list"
  i_TopLayer :: string
  i_MappedTopLayers :: "string list"
  i_Metadata :: string
  i_BigDataNames :: "string list"
  i_BigDataSizes :: "(string \<times> int) list"
  i_BigDataDigests :: "(string \<times> digest) list"
  i_Created :: nat
  i_ReadOnly :: bool
  i_Flags :: flags

datatype Compression = Uncompressed | Bzip2 | Gzip | Xz | Zstd

text \<open>\<open>DetectCompression\<close> of \<^verbatim>\<open>pkg/archive/archive.go\<close>: no magic number is a prefix of another.\<close>

definition DetectCompression :: "bytes \<Rightarrow> Compression" where
  "DetectCompression source =
     (let starts = (\<lambda>m. prefix (map char_of m) source)
      in if starts [66, 90, 104 :: nat] then Bzip2
         else if starts [31, 139, 8] then Gzip
         else if starts [253, 55, 122, 88, 90, 0] then Xz
         else if starts [40, 181, 47, 253] then Zstd
         else Uncompressed)"

record Layer =
  l_ID :: string
  l_Names :: "string list"
  l_Parent :: string
  l_Metadata :: string
  l_MountLabel :: string
  l_MountPoint :: string
  l_MountCount :: int
  l_Created :: nat
  l_CompressedDigest :: digest
  l_CompressedSize :: int
  l_UncompressedDigest :: digest
  l_UncompressedSize :: int
  l_CompressionType :: Compression
  l_UIDs :: "nat list"
  l_GIDs :: "nat list"
  l_Flags :: flags
  l_UIDMap :: idmaps
  l_GIDMap :: idmaps
  l_ReadOnly :: bool
  l_BigDataNames :: "string list"

record layerMountPoint =
  m_ID :: string
  m_MountPoint :: string
  m_MountCount :: int

section \<open>What JSON keeps\<close>

fun json_ival :: "ival \<Rightarrow> ival" where
  "json_ival (IStrings xs) = IArray (map IString xs)"
| "json_ival (IArray vs) = IArray (map json_ival vs)"
| "json_ival v = v"

definition json_flags :: "flags \<Rightarrow> flags" where
  "json_flags fl = (\<lambda>k. map_option json_ival (fl k))"

definition json_Container :: "Container \<Rightarrow> Container" where
  "json_Container c = c\<lparr>c_Flags := json_flags (c_Flags c),
     c_UIDMap := copyIDMap (c_UIDMap c), c_GIDMap := copyIDMap (c_GIDMap c)\<rparr>"

definition json_Image :: "Image \<Rightarrow> Image" where
  "json_Image i = i\<lparr>i_Digests := [], i_ReadOnly := False, i_Flags := json_flags (i_Flags i)\<rparr>"

definition json_Layer :: "Layer \<Rightarrow> Layer" where
  "json_Layer l = l\<lparr>l_MountPoint := [], l_MountCount := 0, l_ReadOnly := False,
     l_Flags := json_flags (l_Flags l),
     l_UIDMap := copyIDMap (l_UIDMap l), l_GIDMap := copyIDMap (l_GIDMap l)\<rparr>"

lemma json_ival_idem [simp]: "json_ival (json_ival v) = json_ival v"
  by (induction v rule: json_ival.induct) auto

lemma json_flags_idem [simp]: "json_flags (json_flags fl) = json_flags fl"
  by (auto simp: json_flags_def option.map_comp o_def)

lemma copyIDMap_idem [simp]: "copyIDMap (copyIDMap m) = copyIDMap m"
  by (auto simp: copyIDMap_def split: option.splits list.splits)

lemma json_Container_idem [simp]: "json_Container (json_Container c) = json_Container c"
  by (simp add: json_Container_def)

lemma json_Image_idem [simp]: "json_Image (json_Image c) = json_Image c"
  by (simp add: json_Image_def)

lemma json_Layer_idem [simp]: "json_Layer (json_Layer c) = json_Layer c"
  by (simp add: json_Layer_def)

lemma json_Container_sel [simp]:
  "c_ID (json_Container c) = c_ID c" "c_Names (json_Container c) = c_Names c"
  "c_LayerID (json_Container c) = c_LayerID c" "c_ImageID (json_Container c) = c_ImageID c"
  by (simp_all add: json_Container_def)

lemma json_Image_sel [simp]:
  "i_ID (json_Image c) = i_ID c" "i_Names (json_Image c) = i_Names c"
  "i_TopLayer (json_Image c) = i_TopLayer c" "i_Digest (json_Image c) = i_Digest c"
  "i_BigDataDigests (json_Image c) = i_BigDataDigests c"
  by (simp_all add: json_Image_def)

lemma json_Layer_sel [simp]:
  "l_ID (json_Layer c) = l_ID c" "l_Names (json_Layer c) = l_Names c"
  "l_Parent (json_Layer c) = l_Parent c"
  "l_CompressedDigest (json_Layer c) = l_CompressedDigest c"
  "l_UncompressedDigest (json_Layer c) = l_UncompressedDigest c"
  by (simp_all add: json_Layer_def)

end
