(* ===== verification/World.thy ===== *)
theory World
  imports Types
begin

text \<open>
  The environment of the stores: the file system they share with other processes, the outcomes
  of the operating-system calls to come, the source of randomness and the clock.

  \<^item> A path is the list of elements of a cleaned absolute path; \<open>join_name\<close> is
    \<open>filepath.Join\<close> of such a path and a string, which cleans the result.
  \<^item> \<open>faults\<close> lists the outcomes of the system calls to come: every call takes the next entry
    (\<open>Some e\<close>: it fails with \<open>e\<close>; \<open>None\<close>, or an empty list: it succeeds).  A theorem that
    holds for every world holds for every pattern of failures.
  \<^item> \<open>rand\<close> lists the hexadecimal blocks the random source will deliver.  When it runs dry the
    reader fails, and \<^verbatim>\<open>generateID\<close> panics.
  \<^item> \<open>mtimes\<close> are the modification times of files; a write sets that of its file to the clock.
  \<^item> A file holds raw bytes, one of the JSON documents of the stores, or something that does
    not parse.
\<close>

type_synonym path = "string list"

definition join_elem :: "string \<Rightarrow> path \<Rightarrow> path" where
  "join_elem c p = (if c = [] \<or> c = ''.'' then p else if c = ''..'' then butlast p else p @ [c])"

definition join_name :: "path \<Rightarrow> string \<Rightarrow> path" where
  "join_name p s = fold join_elem (split_on (CHR ''/'') s) p"

datatype content =
    Bytes bytes
  | JContainers "Container list"
  | JImages "Image list"
  | JLayers "Layer list"
  | JMounts "layerMountPoint list"
  | Malformed

text \<open>The bytes of a file that is read as a data item.\<close>

definition content_bytes :: "content \<Rightarrow> bytes" where
  "content_bytes c = (case c of Bytes b \<Rightarrow> b | _ \<Rightarrow> [])"

record world =
  fs :: "path \<rightharpoonup> content"
  faults :: "gerr option list"
  rand :: "string list"
  clock :: nat
  mtimes :: "path \<Rightarrow> nat"

definition io_call :: "world \<Rightarrow> gerr option \<times> world" where
  "io_call w = (case faults w of [] \<Rightarrow> (None, w) | f # fl \<Rightarrow> (f, w\<lparr>faults := fl\<rparr>))"

definition MkdirAll :: "path \<Rightarrow> (world, unit) go" where
  "MkdirAll p w = (case io_call w of (Some e, w') \<Rightarrow> (Inl e, w') | (None, w') \<Rightarrow> (Inr (), w'))"

definition ReadFile :: "path \<Rightarrow> (world, content) go" where
  "ReadFile p w =
     (case io_call w of
        (Some e, w') \<Rightarrow> (Inl e, w')
      | (None, w') \<Rightarrow> (case fs w' p of None \<Rightarrow> (Inl NotExist, w') | Some c \<Rightarrow> (Inr c, w')))"

definition AtomicWriteFile :: "path \<Rightarrow> content \<Rightarrow> (world, unit) go" where
  "AtomicWriteFile p c w =
     (case io_call w of
        (Some e, w') \<Rightarrow> (Inl e, w')
      | (None, w') \<Rightarrow> (Inr (), w'\<lparr>fs := (fs w')(p \<mapsto> c), mtimes := (mtimes w')(p := clock w')\<rparr>))"

definition RemoveAll :: "path \<Rightarrow> (world, unit) go" where
  "RemoveAll p w =
     (case io_call w of
        (Some e, w') \<Rightarrow> (Inl e, w')
      | (None, w') \<Rightarrow> (Inr (), w'\<lparr>fs := (\<lambda>q. if prefix p q then None else fs w' q)\<rparr>))"

definition RemoveFile :: "path \<Rightarrow> (world, unit) go" where
  "RemoveFile p w =
     (case io_call w of
        (Some e, w') \<Rightarrow> (Inl e, w')
      | (None, w') \<Rightarrow> (Inr (), w'\<lparr>fs := (fs w')(p := None)\<rparr>))"

definition Stat :: "path \<Rightarrow> (world, nat) go" where
  "Stat p w =
     (case io_call w of
        (Some e, w') \<Rightarrow> (Inl e, w')
      | (None, w') \<Rightarrow> (case fs w' p of None \<Rightarrow> (Inl NotExist, w') | Some _ \<Rightarrow> (Inr (mtimes w' p), w')))"

section \<open>Random identifiers\<close>

text \<open>
  \<open>TruncateID\<close> and \<open>generateID\<close> of \<^verbatim>\<open>pkg/stringid/stringid.go\<close>.  The first
  twelve characters of a block are at most twelve digits, so \<open>strconv.ParseInt\<close> succeeds on
  them exactly when all are digits.
\<close>

definition TruncateID :: "string \<Rightarrow> string" where
  "TruncateID s =
     (let s' = (if CHR '':'' \<in> set s then tl (dropWhile (\<lambda>c. c \<noteq> CHR '':'') s) else s)
      in if length s' > 12 then take 12 s' else s')"

definition all_numeric :: "string \<Rightarrow> bool" where
  "all_numeric s \<longleftrightarrow> s \<noteq> [] \<and> list_all is_digit s"

fun generateID :: "string list \<Rightarrow> (gerr + string) \<times> string list" where
  "generateID [] = (Inl (Panic ''random source failed''), [])"
| "generateID (b # bs) = (if all_numeric (TruncateID b) then generateID bs else (Inr b, bs))"

definition GenerateRandomID :: "(world, string) go" where
  "GenerateRandomID w = (case generateID (rand w) of (x, bs) \<Rightarrow> (x, w\<lparr>rand := bs\<rparr>))"

lemma generateID_rand: "snd (generateID bs) = bs' \<Longrightarrow> suffix bs' bs"
  by (induction bs arbitrary: bs') (auto simp: suffix_Cons split: if_splits)

lemma generateID_shorter: "generateID bs = (Inr x, bs') \<Longrightarrow> length bs' < length bs"
  by (induction bs arbitrary: bs') (auto split: if_splits intro: less_SucI)

lemma generateID_mem: "generateID bs = (Inr x, bs') \<Longrightarrow> x \<in> set bs \<and> \<not> all_numeric (TruncateID x)"
  by (induction bs arbitrary: bs') (auto split: if_splits)

lemma generateID_finds:
  "\<exists>b \<in> set bs. \<not> all_numeric (TruncateID b) \<Longrightarrow> \<exists>x bs'. generateID bs = (Inr x, bs')"
  by (induction bs) auto

text \<open>
  The loop that draws identifiers until one is not in use, as in the \<open>Create\<close> methods:
  \<open>for idInUse { id = stringid.GenerateRandomID(); ... }\<close>.
\<close>

function fresh_id :: "(string \<Rightarrow> bool) \<Rightarrow> string list \<Rightarrow> (gerr + string) \<times> string list" where
  "fresh_id inUse bs =
     (case generateID bs of
        (Inl e, bs') \<Rightarrow> (Inl e, bs')
      | (Inr x, bs') \<Rightarrow> if inUse x then fresh_id inUse bs' else (Inr x, bs'))"
  by pat_completeness auto
termination
  by (relation "measure (\<lambda>(_, bs). length bs)") (auto dest: generateID_shorter [OF sym])

declare fresh_id.simps [simp del]

definition GenerateUnusedID :: "(string \<Rightarrow> bool) \<Rightarrow> (world, string) go" where
  "GenerateUnusedID inUse w = (case fresh_id inUse (rand w) of (x, bs) \<Rightarrow> (x, w\<lparr>rand := bs\<rparr>))"

text \<open>How the \<open>Create\<close> methods settle the identifier: the caller's, or a random unused one.\<close>

definition pick_id :: "(string \<Rightarrow> bool) \<Rightarrow> string \<Rightarrow> (world, string) go" where
  "pick_id inUse ident w = (if ident = [] then GenerateUnusedID inUse w else (Inr ident, w))"

lemma pick_id_frame:
  "pick_id inUse ident w = (x, w') \<Longrightarrow> fs w' = fs w \<and> clock w' = clock w \<and> faults w' = faults w"
  by (auto simp: pick_id_def GenerateUnusedID_def split: if_splits prod.splits)

lemma fresh_id_unused: "fresh_id inUse bs = (Inr x, bs') \<Longrightarrow> \<not> inUse x \<and> x \<in> set bs"
proof (induction inUse bs rule: fresh_id.induct)
  case (1 inUse bs)
  obtain r bs1 where g: "generateID bs = (r, bs1)" by force
  then have sub: "set bs1 \<subseteq> set bs" using generateID_rand [of bs bs1] by (simp add: set_mono_suffix)
  show ?case
  proof (cases r)
    case (Inl e)
    with "1.prems" g show ?thesis by (simp add: fresh_id.simps [of inUse bs])
  next
    case (Inr y)
    with "1.prems" "1.IH" [OF g [symmetric] Inr] g sub generateID_mem [of bs y bs1]
    show ?thesis by (auto simp: fresh_id.simps [of inUse bs] split: if_splits)
  qed
qed

lemma fresh_id_finds:
  "\<exists>x \<in> set bs. \<not> inUse x \<and> \<not> all_numeric (TruncateID x) \<Longrightarrow> \<exists>x bs'. fresh_id inUse bs = (Inr x, bs')"
proof (induction bs)
  case Nil
  then show ?case by simp
next
  case (Cons b bs)
  show ?case
  proof (cases "all_numeric (TruncateID b)")
    case True
    then have "fresh_id inUse (b # bs) = fresh_id inUse bs"
      by (simp add: fresh_id.simps [of inUse "b # bs"] fresh_id.simps [of inUse bs])
    with Cons True show ?thesis by auto
  next
    case False
    then show ?thesis
      using Cons by (cases "inUse b") (auto simp: fresh_id.simps [of inUse "b # bs"])
  qed
qed

lemma GenerateUnusedID_Inr:
  "GenerateUnusedID inUse w = (Inr x, w') \<Longrightarrow> \<not> inUse x \<and> w' = w\<lparr>rand := rand w'\<rparr>"
  by (auto simp: GenerateUnusedID_def split: prod.splits dest: fresh_id_unused)

section \<open>Frame facts\<close>

lemma io_call_fs [simp]: "fs (snd (io_call w)) = fs w"
  by (simp add: io_call_def split: list.splits)

lemma io_call_cases:
  obtains e w' where "io_call w = (Some e, w')" "fs w' = fs w" "rand w' = rand w" "clock w' = clock w"
  | w' where "io_call w = (None, w')" "fs w' = fs w" "rand w' = rand w" "clock w' = clock w"
proof -
  have "\<exists>f w'. io_call w = (f, w') \<and> fs w' = fs w \<and> rand w' = rand w \<and> clock w' = clock w"
    by (simp add: io_call_def split: list.splits)
  then show ?thesis using that by (metis option.exhaust)
qed

lemma io_call_no_faults [simp]: "faults w = [] \<Longrightarrow> io_call w = (None, w)"
  by (simp add: io_call_def)

lemma MkdirAll_fs [simp]: "fs (snd (MkdirAll p w)) = fs w"
  by (cases w rule: io_call_cases) (simp_all add: MkdirAll_def)

lemma ReadFile_fs [simp]: "fs (snd (ReadFile p w)) = fs w"
  by (cases w rule: io_call_cases) (simp_all add: ReadFile_def split: option.splits)

lemma AtomicWriteFile_fs:
  "AtomicWriteFile p c w = (r, w') \<Longrightarrow>
   fs w' = (case r of Inl _ \<Rightarrow> fs w | Inr _ \<Rightarrow> (fs w)(p \<mapsto> c))"
  by (cases w rule: io_call_cases) (auto simp: AtomicWriteFile_def)

lemma RemoveAll_fs:
  "RemoveAll p w = (r, w') \<Longrightarrow>
   fs w' = (case r of Inl _ \<Rightarrow> fs w | Inr _ \<Rightarrow> (\<lambda>q. if prefix p q then None else fs w q))"
  by (cases w rule: io_call_cases) (auto simp: RemoveAll_def)

lemma GenerateRandomID_fs [simp]: "fs (snd (GenerateRandomID w)) = fs w"
  by (simp add: GenerateRandomID_def split: prod.splits)

section \<open>Main theorems\<close>

text \<open>
  C37: the loop that draws a random identifier returns one that is not in use, and it does return
  whenever the random source still holds an unused block whose short form is not all digits.
\<close>

theorem GenerateUnusedID_finds_unused:
  assumes "\<exists>x \<in> set (rand w). \<not> inUse x \<and> \<not> all_numeric (TruncateID x)"
  shows "\<exists>x w'. GenerateUnusedID inUse w = (Inr x, w') \<and> \<not> inUse x \<and> x \<in> set (rand w) \<and> fs w' = fs w"
proof -
  obtain x bs where f: "fresh_id inUse (rand w) = (Inr x, bs)" using fresh_id_finds [OF assms] by blast
  then show ?thesis using fresh_id_unused [OF f] by (auto simp: GenerateUnusedID_def)
qed

theorem GenerateUnusedID_finds_unused_witness:
  "\<exists>x w'. GenerateUnusedID (\<lambda>k. k = ''ab'') \<lparr>fs = Map.empty, faults = [], rand = [''12'', ''ab'', ''cd''], clock = 0, mtimes = (\<lambda>_. 0)\<rparr> = (Inr x, w') \<and> x \<noteq> ''ab''"
  using GenerateUnusedID_finds_unused [of "\<lparr>fs = Map.empty, faults = [], rand = [''12'', ''ab'', ''cd''], clock = 0, mtimes = (\<lambda>_. 0)\<rparr>" "\<lambda>k. k = ''ab''"]
  by (fastforce simp: TruncateID_def all_numeric_def is_digit_def)

end
