(* ===== verification/BigData.thy ===== *)
theory BigData
  imports World
begin

text \<open>
  Names and bookkeeping of big data items: \<open>makeBigDataBaseName\<close> of \<^verbatim>\<open>store.go\<close>
  with the parts of the Go library it calls (rune decoding and standard base64), and the update
  of the recorded names, sizes and digests that \<open>SetBigData\<close> of the container and image stores
  performs.
\<close>

section \<open>Runes and base64\<close>

definition byte_of :: "char \<Rightarrow> nat" where
  "byte_of c = of_char c"

definition in_range :: "nat \<Rightarrow> nat \<Rightarrow> char \<Rightarrow> bool" where
  "in_range lo hi c \<longleftrightarrow> lo \<le> byte_of c \<and> byte_of c \<le> hi"

text \<open>
  The number of bytes \<open>ReadRune\<close> consumes: 1 for ASCII and for invalid encodings, otherwise the
  length of the UTF-8 sequence.
\<close>

fun rune_size :: "string \<Rightarrow> nat" where
  "rune_size [] = 0"
| "rune_size (c # cs) =
     (let b = byte_of c;
          second = (if b = 224 then in_range 160 191 else if b = 237 then in_range 128 159
                    else if b = 240 then in_range 144 191 else if b = 244 then in_range 128 143
                    else in_range 128 191);
          n = (if 194 \<le> b \<and> b \<le> 223 then 2 else if 224 \<le> b \<and> b \<le> 239 then 3
               else if 240 \<le> b \<and> b \<le> 244 then 4 else 1)
      in if n \<le> Suc (length cs) \<and> (n > 1 \<longrightarrow> second (cs ! 0)) \<and>
            list_all (in_range 128 191) (take (n - 2) (tl cs)) then n else 1)"

definition base64_char :: "nat \<Rightarrow> char" where
  "base64_char i =
     (if i < 26 then char_of (65 + i) else if i < 52 then char_of (97 + (i - 26))
      else if i < 62 then char_of (48 + (i - 52)) else if i = 62 then CHR ''+'' else CHR ''/'')"

fun base64 :: "string \<Rightarrow> string" where
  "base64 [] = []"
| "base64 [a] =
     [base64_char (byte_of a div 4), base64_char (byte_of a mod 4 * 16), CHR ''='', CHR ''='']"
| "base64 [a, b] =
     [base64_char (byte_of a div 4), base64_char (byte_of a mod 4 * 16 + byte_of b div 16),
      base64_char (byte_of b mod 16 * 4), CHR ''='']"
| "base64 (a # b # c # cs) =
     base64_char (byte_of a div 4) # base64_char (byte_of a mod 4 * 16 + byte_of b div 16) #
     base64_char (byte_of b mod 16 * 4 + byte_of c div 64) # base64_char (byte_of c mod 64) # base64 cs"

section \<open>File names\<close>

definition plain_char :: "char \<Rightarrow> bool" where
  "plain_char c \<longleftrightarrow> c = CHR ''.'' \<or> in_range 48 57 c \<or> in_range 97 122 c"

text \<open>
  The loop over the runes: the result is what the reader has left.  The rune that ends the loop
  has been consumed.
\<close>

function read_plain :: "string \<Rightarrow> string" where
  "read_plain s =
     (if s = [] then []
      else if rune_size s \<noteq> 1 then drop (rune_size s) s
      else if \<not> plain_char (hd s) then tl s
      else read_plain (tl s))"
  by pat_completeness auto
termination
  by (relation "measure length") auto

declare read_plain.simps [simp del]

definition makeBigDataBaseName :: "string \<Rightarrow> string" where
  "makeBigDataBaseName key = (if read_plain key \<noteq> [] then CHR ''='' # base64 key else key)"

section \<open>Bookkeeping of an item\<close>

text \<open>
  The update of \<open>BigDataSizes\<close>, \<open>BigDataDigests\<close> and \<open>BigDataNames\<close> when the item \<open>key\<close> of
  \<open>size\<close> bytes and digest \<open>d\<close> has been written, with the flag that says whether to save.
\<close>

definition record_big_data :: "string \<Rightarrow> int \<Rightarrow> digest \<Rightarrow>
    string list \<times> (string \<times> int) list \<times> (string \<times> digest) list \<Rightarrow>
    bool \<times> string list \<times> (string \<times> int) list \<times> (string \<times> digest) list" where
  "record_big_data key sz d rec =
     (let (names, sizes, digests) = rec;
          changed = (map_of sizes key \<noteq> Some sz \<or> map_of digests key \<noteq> Some d);
          addName = (key \<notin> set names)
      in (changed \<or> addName, if addName then names @ [key] else names,
          AList.update key sz sizes, AList.update key d digests))"

section \<open>Properties\<close>

lemma byte_of_less [simp]: "byte_of c < 256"
  by (simp add: byte_of_def)

lemma byte_of_inject [simp]: "byte_of a = byte_of b \<longleftrightarrow> a = b"
  by (simp add: byte_of_def)

lemma byte_of_parts [simp]:
  "byte_of a div 4 < 64" "byte_of a mod 4 * 16 + byte_of b div 16 < 64" "byte_of a mod 4 * 16 < 64"
  "byte_of b mod 16 * 4 + byte_of c div 64 < 64" "byte_of b mod 16 * 4 < 64" "byte_of c mod 64 < 64"
  using byte_of_less [of a] byte_of_less [of b] byte_of_less [of c] by linarith+

lemma base64_char_code:
  "i < 64 \<Longrightarrow> (of_char (base64_char i) :: nat) =
     (if i < 26 then 65 + i else if i < 52 then 71 + i else if i < 62 then i - 4 else if i = 62 then 43 else 47)"
  by (auto simp: base64_char_def)

lemma base64_char_inject:
  assumes "i < 64" "j < 64"
  shows "base64_char i = base64_char j \<longleftrightarrow> i = j"
proof
  assume "base64_char i = base64_char j"
  then have "(of_char (base64_char i) :: nat) = of_char (base64_char j)" by simp
  then show "i = j"
    using assms unfolding base64_char_code [OF assms(1)] base64_char_code [OF assms(2)]
    by (simp split: if_splits)
qed simp

lemma base64_char_not_pad:
  assumes "i < 64"
  shows "base64_char i \<noteq> CHR ''=''" "CHR ''='' \<noteq> base64_char i"
proof -
  have "(of_char (base64_char i) :: nat) \<noteq> of_char (CHR ''='')"
    unfolding base64_char_code [OF assms] using assms by (simp, arith)
  then show "base64_char i \<noteq> CHR ''=''" by metis
  then show "CHR ''='' \<noteq> base64_char i" by metis
qed

lemma pair_digits:
  "a div k = c div k \<Longrightarrow> a mod k = c mod k \<Longrightarrow> a = c" for a c k :: nat
  by (metis div_mult_mod_eq)

lemma mixed_digits:
  "x * k + y = x' * k + y' \<Longrightarrow> y < k \<Longrightarrow> y' < k \<Longrightarrow> x = x' \<and> y = y'" for x y k :: nat
proof -
  assume a: "x * k + y = x' * k + y'" "y < k" "y' < k"
  have "x = (x * k + y) div k" "y = (x * k + y) mod k" using a(2) by simp_all
  moreover have "x' = (x' * k + y') div k" "y' = (x' * k + y') mod k" using a(3) by simp_all
  ultimately show ?thesis using a(1) by metis
qed

lemma base64_pair:
  "byte_of a div 4 = byte_of a' div 4 \<Longrightarrow>
   byte_of a mod 4 * 16 + byte_of b div 16 = byte_of a' mod 4 * 16 + byte_of b' div 16 \<Longrightarrow>
   a = a' \<and> byte_of b div 16 = byte_of b' div 16"
  using mixed_digits [of "byte_of a mod 4" 16 "byte_of b div 16" "byte_of a' mod 4" "byte_of b' div 16"]
    byte_of_less [of b] byte_of_less [of b'] pair_digits [of "byte_of a" 4 "byte_of a'"]
  by (simp add: less_mult_imp_div_less)

lemma base64_triple:
  "byte_of b div 16 = byte_of b' div 16 \<Longrightarrow>
   byte_of b mod 16 * 4 + byte_of c div 64 = byte_of b' mod 16 * 4 + byte_of c' div 64 \<Longrightarrow>
   byte_of c mod 64 = byte_of c' mod 64 \<Longrightarrow> b = b' \<and> c = c'"
  using mixed_digits [of "byte_of b mod 16" 4 "byte_of c div 64" "byte_of b' mod 16" "byte_of c' div 64"]
    byte_of_less [of c] byte_of_less [of c'] pair_digits [of "byte_of b" 16 "byte_of b'"]
    pair_digits [of "byte_of c" 64 "byte_of c'"]
  by (simp add: less_mult_imp_div_less)

lemma base64_inject: "base64 s = base64 t \<Longrightarrow> s = t"
proof (induction s arbitrary: t rule: base64.induct)
  case 1
  then show ?case by (cases t rule: base64.cases) auto
next
  case (2 a)
  then show ?case
    by (cases t rule: base64.cases)
      (auto simp: base64_char_inject base64_char_not_pad intro: pair_digits [THEN byte_of_inject [THEN iffD1]])
next
  case (3 a b)
  show ?case
  proof (cases t rule: base64.cases)
    case (3 a' b')
    with "3.prems" have "a = a' \<and> byte_of b div 16 = byte_of b' div 16"
      by (intro base64_pair) (simp_all add: base64_char_inject)
    moreover have "byte_of b mod 16 = byte_of b' mod 16"
      using "3.prems" 3 by (simp add: base64_char_inject)
    ultimately show ?thesis using 3 pair_digits [of "byte_of b" 16 "byte_of b'"] by simp
  qed (use "3.prems" in \<open>auto simp: base64_char_not_pad\<close>)
next
  case (4 a b c cs)
  show ?case
  proof (cases t rule: base64.cases)
    case (4 a' b' c' cs')
    with "4.prems" have "a = a' \<and> byte_of b div 16 = byte_of b' div 16"
      by (intro base64_pair) (simp_all add: base64_char_inject)
    moreover from this have "b = b' \<and> c = c'"
      using "4.prems" 4 by (intro base64_triple) (simp_all add: base64_char_inject)
    moreover have "cs = cs'" using "4.prems" 4 by (intro "4.IH") simp
    ultimately show ?thesis using 4 by simp
  qed (use "4.prems" in \<open>auto simp: base64_char_not_pad\<close>)
qed

lemma makeBigDataBaseName_pad: "read_plain (CHR ''='' # s) = s"
  by (subst read_plain.simps) (simp add: byte_of_def plain_char_def in_range_def)

lemma makeBigDataBaseName_inject:
  assumes "makeBigDataBaseName s = makeBigDataBaseName t"
  shows "s = t"
proof -
  have mixed: "s = t" if "read_plain s \<noteq> []" "read_plain t = []" "CHR ''='' # base64 s = t" for s t
  proof -
    have "base64 s = []" using that(2) makeBigDataBaseName_pad [of "base64 s"] unfolding that(3) by simp
    then have "s = []" by (cases s rule: base64.cases) simp_all
    moreover have "read_plain [] = []" by (subst read_plain.simps) simp
    ultimately show ?thesis using that(1) by simp
  qed
  consider "read_plain s \<noteq> []" "read_plain t \<noteq> []" | "read_plain s \<noteq> []" "read_plain t = []"
    | "read_plain s = []" "read_plain t \<noteq> []" | "read_plain s = []" "read_plain t = []" by blast
  then show ?thesis
  proof cases
    case 1
    then show ?thesis using assms by - (rule base64_inject, simp add: makeBigDataBaseName_def)
  next
    case 2
    then show ?thesis using assms by - (rule mixed, simp_all add: makeBigDataBaseName_def)
  next
    case 3
    then show ?thesis using assms by - (rule mixed [symmetric], simp_all add: makeBigDataBaseName_def)
  next
    case 4
    then show ?thesis using assms by (simp add: makeBigDataBaseName_def)
  qed
qed

lemma record_big_data_spec:
  assumes "record_big_data key sz d (names, sizes, digests) = (save, names', sizes', digests')"
  shows "map_of sizes' k = (if k = key then Some sz else map_of sizes k)"
    and "map_of digests' k = (if k = key then Some d else map_of digests k)"
    and "set names' = insert key (set names)" and "distinct names \<Longrightarrow> distinct names'"
  using assms by (auto simp: record_big_data_def Let_def map_of_update split: if_splits)

lemma record_big_data_unchanged:
  assumes "record_big_data key sz d (names, sizes, digests) = (False, names', sizes', digests')"
  shows "names' = names \<and> map_of sizes' = map_of sizes \<and> map_of digests' = map_of digests"
  using assms by (auto simp: record_big_data_def Let_def map_of_update fun_eq_iff split: if_splits)

section \<open>Main theorems\<close>

text \<open>Two different keys never get the same base name.\<close>

lemma big_data_names_injective: "inj makeBigDataBaseName"
  by (rule injI) (rule makeBigDataBaseName_inject)

text \<open>
  A key whose last rune is not a plain character is not encoded, so the file names of two
  different keys can still be the same path: the items \<open>a\<close> and \<open>a/\<close> of one record share a file.
\<close>

lemma big_data_paths_collide:
  "makeBigDataBaseName ''a/'' = ''a/'' \<and> makeBigDataBaseName ''a'' = ''a'' \<and>
   join_name dir (makeBigDataBaseName ''a/'') = join_name dir (makeBigDataBaseName ''a'')"
proof -
  have "makeBigDataBaseName ''a/'' = ''a/''" "makeBigDataBaseName ''a'' = ''a''"
    by (simp_all add: makeBigDataBaseName_def read_plain.simps plain_char_def in_range_def byte_of_def)
  then show ?thesis by (simp add: join_name_def join_elem_def)
qed

end
