(* ===== verification/Lockfile.thy ===== *)
theory Lockfile
  imports World
begin

text \<open>
  File locks: \<^verbatim>\<open>pkg/lockfile/lockfile_unix.go\<close>.

  A \<open>lockfile\<close> object belongs to one process.  \<open>rw_readers\<close> and \<open>rw_writer\<close> are the state
  of its \<open>sync.RWMutex\<close>; the state mutex only makes each method atomic and is not
  represented.  An acquisition that would wait is the result \<open>Blocked\<close>, and \<open>panic\<close> is an
  error value.  The first reference to the lock takes the advisory file lock with
  \<open>fcntl(F_SETLKW)\<close>; the second half of the theory runs several processes against one such
  file lock.
\<close>

datatype lktype = F_RDLCK | F_WRLCK

record lockfile =
  rw_readers :: nat
  rw_writer :: bool
  counter :: int
  lk_file :: path
  lw :: string
  locktype :: lktype
  locked :: bool
  ro :: bool
  recursive :: bool

section \<open>Operations\<close>

text \<open>
  \<open>openLock\<close>: the path is created if it is missing; if its directory is missing, the
  directory is created and the open is tried again.
\<close>

function openLock :: "path \<Rightarrow> (world, unit) go" where
  "openLock p w =
     (case faults w of
        Some NotExist # fl \<Rightarrow>
          (case MkdirAll (butlast p) (w\<lparr>faults := fl\<rparr>) of
             (Inl e, w') \<Rightarrow> (Inl e, w')
           | (Inr _, w') \<Rightarrow> openLock p w')
      | Some e # fl \<Rightarrow> (Inl e, w\<lparr>faults := fl\<rparr>)
      | _ \<Rightarrow> (let w' = snd (io_call w)
              in (Inr (), case fs w' p of None \<Rightarrow> w'\<lparr>fs := (fs w')(p \<mapsto> Bytes []), mtimes := (mtimes w')(p := clock w')\<rparr> | Some _ \<Rightarrow> w')))"
  by pat_completeness auto
termination
  by (relation "measure (\<lambda>(p, w). length (faults w))")
    (auto simp: MkdirAll_def io_call_def split: list.splits option.splits)

declare openLock.simps [simp del]

definition createLockerForPath :: "path \<Rightarrow> bool \<Rightarrow> (world, lockfile) go" where
  "createLockerForPath p isro w =
     (case openLock p w of
        (Inl e, w1) \<Rightarrow> (Inl e, w1)
      | (Inr _, w1) \<Rightarrow>
          (case GenerateRandomID w1 of
             (Inl e, w2) \<Rightarrow> (Inl e, w2)
           | (Inr k, w2) \<Rightarrow>
               (Inr \<lparr>rw_readers = 0, rw_writer = False, counter = 0, lk_file = p, lw = k,
                     locktype = (if isro then F_RDLCK else F_WRLCK), locked = False, ro = isro,
                     recursive = False\<rparr>, w2)))"

text \<open>The \<open>sync.RWMutex\<close> part of \<open>lock\<close>: shared for readers and recursive writers.\<close>

definition rw_acquire :: "lktype \<Rightarrow> bool \<Rightarrow> (lockfile, unit) go" where
  "rw_acquire t rc l =
     (if t = F_RDLCK \<or> rc
      then if rw_writer l then (Inl (Blocked ''rwMutex.RLock''), l)
           else (Inr (), l\<lparr>rw_readers := rw_readers l + 1\<rparr>)
      else if rw_writer l \<or> rw_readers l > 0 then (Inl (Blocked ''rwMutex.Lock''), l)
           else (Inr (), l\<lparr>rw_writer := True\<rparr>))"

text \<open>The bookkeeping at the end of \<open>lock\<close>.\<close>

definition local_lock :: "lktype \<Rightarrow> bool \<Rightarrow> lockfile \<Rightarrow> lockfile" where
  "local_lock t rc l = l\<lparr>locktype := t, locked := True, recursive := rc, counter := counter l + 1\<rparr>"

definition lk_lock :: "lktype \<Rightarrow> bool \<Rightarrow> (lockfile \<times> world, unit) go" where
  "lk_lock t rc s =
     (case rw_acquire t rc (fst s) of
        (Inl e, l) \<Rightarrow> (Inl e, (l, snd s))
      | (Inr _, l) \<Rightarrow>
          (case (if counter l = 0 then openLock (lk_file l) (snd s) else (Inr (), snd s)) of
             (Inl e, w) \<Rightarrow> (Inl (Panic ''error opening lock file''), (l, w))
           | (Inr _, w) \<Rightarrow>
               (Inr (), (local_lock t rc l, w))))"

definition RLock :: "(lockfile \<times> world, unit) go" where
  "RLock s = lk_lock F_RDLCK False s"

definition Lock :: "(lockfile \<times> world, unit) go" where
  "Lock s = (if ro (fst s) then (Inl (Panic ''cannot take write lock on read-only lock file''), s)
             else lk_lock F_WRLCK False s)"

definition RecursiveLock :: "(lockfile \<times> world, unit) go" where
  "RecursiveLock s = (if ro (fst s) then RLock s else lk_lock F_WRLCK True s)"

definition rw_release :: "lockfile \<Rightarrow> (lockfile, unit) go" where
  "rw_release l0 l =
     (if locktype l0 = F_RDLCK \<or> recursive l0
      then if rw_readers l = 0 then (Inl (Panic ''RUnlock of unlocked RWMutex''), l)
           else (Inr (), l\<lparr>rw_readers := rw_readers l - 1\<rparr>)
      else if \<not> rw_writer l then (Inl (Panic ''Unlock of unlocked RWMutex''), l)
           else (Inr (), l\<lparr>rw_writer := False\<rparr>))"

definition Unlock :: "(lockfile, unit) go" where
  "Unlock l =
     (if \<not> locked l then (Inl (Panic ''calling Unlock on unlocked lock''), l)
      else let l1 = l\<lparr>counter := counter l - 1\<rparr> in
           if counter l1 < 0 then (Inl (Panic ''lock has been unlocked too often''), l1)
           else let l2 = (if counter l1 = 0 then l1\<lparr>locked := False\<rparr> else l1) in rw_release l l2)"

definition Locked :: "lockfile \<Rightarrow> bool" where
  "Locked l \<longleftrightarrow> locked l \<and> locktype l = F_WRLCK"

definition IsReadWrite :: "lockfile \<Rightarrow> bool" where
  "IsReadWrite l \<longleftrightarrow> \<not> ro l"

text \<open>
  \<open>Pwrite\<close> at offset 0 does not truncate: what the file held beyond the identifier stays.
\<close>

definition overwrite :: "string \<Rightarrow> content option \<Rightarrow> content" where
  "overwrite k c = Bytes (k @ drop (length k) (case c of Some (Bytes old) \<Rightarrow> old | _ \<Rightarrow> []))"

definition Touch :: "(lockfile \<times> world, unit) go" where
  "Touch s =
     (let l = fst s in
      if \<not> locked l \<or> locktype l \<noteq> F_WRLCK
      then (Inl (Panic ''attempted to update last-writer in lockfile without the write lock''), s)
      else case GenerateRandomID (snd s) of
        (Inl e, w) \<Rightarrow> (Inl e, (l, w))
      | (Inr k, w) \<Rightarrow>
          let l' = l\<lparr>lw := k\<rparr> in
          (case io_call w of
             (Some e, w') \<Rightarrow> (Inl e, (l', w'))
           | (None, w') \<Rightarrow> (Inr (), (l', w'\<lparr>fs := (fs w')(lk_file l \<mapsto> overwrite k (fs w' (lk_file l))), mtimes := (mtimes w')(lk_file l := clock w')\<rparr>))))"

text \<open>\<open>Modified\<close> returns a flag beside its error; an error comes with the flag set.\<close>

definition Modified :: "(lockfile \<times> world, bool) go" where
  "Modified s =
     (let l = fst s in
      if \<not> locked l
      then (Inl (Panic ''attempted to check last-writer in lockfile without locking it first''), s)
      else case io_call (snd s) of
        (Some e, w) \<Rightarrow> (Inl e, (l, w))
      | (None, w) \<Rightarrow>
          let k = take (length (lw l)) (case fs w (lk_file l) of Some (Bytes b) \<Rightarrow> b | _ \<Rightarrow> []) in
          if length k \<noteq> length (lw l) then (Inr True, (l, w))
          else (Inr (k \<noteq> lw l), (l\<lparr>lw := k\<rparr>, w)))"

text \<open>\<open>TouchedSince\<close>: a failed \<open>fstat\<close> counts as touched.\<close>

definition TouchedSince :: "nat \<Rightarrow> (lockfile \<times> world, bool) go" where
  "TouchedSince when s =
     (case io_call (snd s) of
        (Some e, w) \<Rightarrow> (Inr True, (fst s, w))
      | (None, w) \<Rightarrow> (Inr (when < mtimes w (lk_file (fst s))), (fst s, w)))"

text \<open>
  How the stores write their document: the directory is made, \<open>Touch\<close> is deferred and runs
  after the write whatever its outcome; its error is dropped, a panic in it is not.
\<close>

definition save_file :: "path \<Rightarrow> content \<Rightarrow> (lockfile \<times> world, unit) go" where
  "save_file p c s =
     (case MkdirAll (butlast p) (snd s) of
        (Inl e, w1) \<Rightarrow> (Inl e, (fst s, w1))
      | (Inr _, w1) \<Rightarrow>
          (case AtomicWriteFile p c w1 of
             (res, w2) \<Rightarrow>
               (case Touch (fst s, w2) of
                  (Inl (Panic m), s') \<Rightarrow> (Inl (Panic m), s')
                | (_, s') \<Rightarrow> (res, s'))))"

text \<open>A lock object that holds the write lock, and a quiet world: inputs of the examples.\<close>

definition demo_lock :: "path \<Rightarrow> lockfile" where
  "demo_lock p = \<lparr>rw_readers = 0, rw_writer = True, counter = 1, lk_file = p, lw = [],
     locktype = F_WRLCK, locked = True, ro = False, recursive = False\<rparr>"

definition demo_world :: world where
  "demo_world = \<lparr>fs = Map.empty, faults = [], rand = [''ab0'', ''ab1'', ''ab2'', ''ab3'', ''ab4'', ''ab5''], clock = 7, mtimes = (\<lambda>_. 0)\<rparr>"

section \<open>Sequential facts\<close>

definition unlocked :: "lockfile \<Rightarrow> bool" where
  "unlocked l \<longleftrightarrow> counter l = 0 \<and> rw_readers l = 0 \<and> \<not> rw_writer l \<and> \<not> locked l"

definition write_locked :: "lockfile \<Rightarrow> bool" where
  "write_locked l \<longleftrightarrow> counter l = 1 \<and> rw_readers l = 0 \<and> rw_writer l \<and> locked l \<and>
     locktype l = F_WRLCK \<and> \<not> recursive l"

lemma write_locked_Locked [simp]: "write_locked l \<Longrightarrow> Locked l"
  by (simp add: write_locked_def Locked_def)

lemma openLock_ok: "faults w = [] \<Longrightarrow> \<exists>w'. openLock p w = (Inr (), w') \<and> faults w' = []
   \<and> (\<forall>q. q \<noteq> p \<longrightarrow> fs w' q = fs w q) \<and> (fs w p \<noteq> None \<longrightarrow> w' = w)"
  by (subst openLock.simps) (auto split: option.splits)

lemma Lock_write_locked:
  "unlocked l \<Longrightarrow> Lock (l, w) = (Inr (), (l', w')) \<Longrightarrow> write_locked l'"
  by (auto simp: Lock_def lk_lock_def local_lock_def rw_acquire_def unlocked_def write_locked_def
      split: if_splits prod.splits sum.splits)

lemma Unlock_write_locked:
  "write_locked l \<Longrightarrow> \<exists>l'. Unlock l = (Inr (), l') \<and> unlocked l' \<and> lk_file l' = lk_file l \<and> lw l' = lw l \<and> ro l' = ro l"
  by (auto simp: Unlock_def rw_release_def unlocked_def write_locked_def)

lemma Touch_then_Modified:
  assumes "Touch (l, w) = (Inr (), (l', w'))" "locked l''" "lk_file l'' = lk_file l"
    and "length (lw l'') = length (lw l')" "faults w' = []"
  shows "\<exists>s. Modified (l'', w') = (Inr (lw l'' \<noteq> lw l'), s) \<and> lw (fst s) = lw l'"
  using assms
  by (cases "snd (l, w)" rule: io_call_cases)
    (auto simp: Touch_def Modified_def GenerateRandomID_def overwrite_def Let_def
      split: if_splits prod.splits sum.splits option.splits)

lemma Touch_frame:
  assumes "Touch (l, w) = (res, (l', w'))"
  shows "\<exists>k. l' = l\<lparr>lw := k\<rparr>" and "q \<noteq> lk_file l \<Longrightarrow> fs w' q = fs w q"
proof -
  obtain x w1 where g: "GenerateRandomID w = (x, w1)" by force
  then have f: "fs w1 = fs w" using GenerateRandomID_fs [of w] by simp
  have self: "\<exists>k. l = l\<lparr>lw := k\<rparr>" by (rule exI [of _ "lw l"]) simp
  show "\<exists>k. l' = l\<lparr>lw := k\<rparr>"
    using assms g self
    by (cases w1 rule: io_call_cases) (auto simp: Touch_def Let_def split: if_splits sum.splits)
  show "fs w' q = fs w q" if "q \<noteq> lk_file l"
    using assms g f that
    by (cases w1 rule: io_call_cases) (auto simp: Touch_def Let_def split: if_splits sum.splits)
qed

lemma save_file_frame:
  assumes "save_file p c (l, w) = (res, (l', w'))"
  shows "\<exists>k. l' = l\<lparr>lw := k\<rparr>" and "q \<noteq> p \<Longrightarrow> q \<noteq> lk_file l \<Longrightarrow> fs w' q = fs w q"
    and "res = Inr () \<Longrightarrow> p \<noteq> lk_file l \<Longrightarrow> fs w' p = Some c"
    and "p \<noteq> lk_file l \<Longrightarrow> fs w' p = fs w p \<or> fs w' p = Some c"
proof -
  obtain r1 w1 where m: "MkdirAll (butlast p) w = (r1, w1)" by force
  have f1: "fs w1 = fs w" using MkdirAll_fs [of "butlast p" w] by (simp add: m)
  obtain r2 w2 where a: "AtomicWriteFile p c w1 = (r2, w2)" by force
  note f2 = AtomicWriteFile_fs [OF a]
  obtain r3 l3 w3 where t: "Touch (l, w2) = (r3, (l3, w3))" by (metis prod_cases3)
  note tf = Touch_frame [OF t]
  have self: "\<exists>k. l = l\<lparr>lw := k\<rparr>" by (rule exI [of _ "lw l"]) simp
  consider e where "r1 = Inl e" "l' = l" "w' = w1" "res = Inl e"
    | "r1 = Inr ()" "l' = l3" "w' = w3" "res = Inr () \<longrightarrow> r2 = Inr ()"
    using assms m a t by (auto simp: save_file_def split: sum.splits gerr.splits)
  note c = this
  show "\<exists>k. l' = l\<lparr>lw := k\<rparr>" using c self tf(1) by cases auto
  show "fs w' q = fs w q" if "q \<noteq> p" "q \<noteq> lk_file l"
    using c that f1 f2 tf(2) [of q] by cases (auto split: sum.splits)
  show "fs w' p = Some c" if "res = Inr ()" "p \<noteq> lk_file l"
    using c that f1 f2 tf(2) [of p] by cases (auto split: sum.splits)
  show "fs w' p = fs w p \<or> fs w' p = Some c" if "p \<noteq> lk_file l"
    using c that f1 f2 tf(2) [of p] by cases (auto split: sum.splits)
qed

lemma save_file_ok:
  assumes "faults w = []" "\<exists>b \<in> set (rand w). \<not> all_numeric (TruncateID b)" "Locked l"
  shows "\<exists>s'. save_file p c (l, w) = (Inr (), s') \<and> faults (snd s') = []"
proof -
  from generateID_finds [OF assms(2)] show ?thesis
    using assms(1,3)
    by (auto simp: save_file_def MkdirAll_def AtomicWriteFile_def Touch_def GenerateRandomID_def Locked_def Let_def)
qed

section \<open>Several processes and one file lock\<close>

text \<open>
  \<open>procs p\<close> is the lock object of process \<open>p\<close> for the file, \<open>granted p\<close> the advisory lock the
  operating system has granted to it.  The operating system grants a write lock only if no
  other process holds a lock, and a read lock only if no other process holds a write lock.
\<close>

record lsys =
  procs :: "nat \<Rightarrow> lockfile"
  granted :: "nat \<Rightarrow> lktype option"

definition os_grants :: "(nat \<Rightarrow> lktype option) \<Rightarrow> nat \<Rightarrow> lktype \<Rightarrow> bool" where
  "os_grants o' p t \<longleftrightarrow>
     (\<forall>q. q \<noteq> p \<longrightarrow> (if t = F_WRLCK then o' q = None else o' q \<noteq> Some F_WRLCK))"

definition lock_once :: "nat \<Rightarrow> lktype \<Rightarrow> bool \<Rightarrow> lsys \<Rightarrow> lsys option" where
  "lock_once p t rc s =
     (case rw_acquire t rc (procs s p) of
        (Inl _, _) \<Rightarrow> None
      | (Inr _, l) \<Rightarrow>
          if counter l = 0
          then if os_grants (granted s) p t
               then Some (s\<lparr>procs := (procs s)(p := local_lock t rc l), granted := (granted s)(p := Some t)\<rparr>)
               else None
          else Some (s\<lparr>procs := (procs s)(p := local_lock t rc l)\<rparr>))"

definition unlock_once :: "nat \<Rightarrow> lsys \<Rightarrow> lsys option" where
  "unlock_once p s =
     (case Unlock (procs s p) of
        (Inl _, _) \<Rightarrow> None
      | (Inr _, l) \<Rightarrow>
          Some (s\<lparr>procs := (procs s)(p := l),
                  granted := (if counter l = 0 then (granted s)(p := None) else granted s)\<rparr>))"

text \<open>
  \<open>lock_step rc\<close>: the steps of the system; \<open>rc\<close> says whether \<open>RecursiveLock\<close> is used.
\<close>

inductive lock_step :: "bool \<Rightarrow> lsys \<Rightarrow> lsys \<Rightarrow> bool" for rc where
  read: "lock_once p F_RDLCK False s = Some s' \<Longrightarrow> lock_step rc s s'"
| writer: "\<not> ro (procs s p) \<Longrightarrow> lock_once p F_WRLCK False s = Some s' \<Longrightarrow> lock_step rc s s'"
| recursive: "rc \<Longrightarrow> \<not> ro (procs s p) \<Longrightarrow> lock_once p F_WRLCK True s = Some s' \<Longrightarrow> lock_step rc s s'"
| unlock: "unlock_once p s = Some s' \<Longrightarrow> lock_step rc s s'"

inductive_cases lock_stepE: "lock_step rc s s'"

definition lsys_init :: "lsys \<Rightarrow> bool" where
  "lsys_init s \<longleftrightarrow> (\<forall>p. unlocked (procs s p) \<and> granted s p = None)"

inductive lock_reachable :: "bool \<Rightarrow> lsys \<Rightarrow> bool" for rc where
  init: "lsys_init s \<Longrightarrow> lock_reachable rc s"
| step: "lock_reachable rc s \<Longrightarrow> lock_step rc s s' \<Longrightarrow> lock_reachable rc s'"

text \<open>What holds between the fields of one process, and between the processes.\<close>

definition proc_inv :: "lockfile \<Rightarrow> lktype option \<Rightarrow> bool" where
  "proc_inv l h \<longleftrightarrow>
     counter l = int (rw_readers l) + (if rw_writer l then 1 else 0) \<and>
     (rw_writer l \<longrightarrow> rw_readers l = 0) \<and>
     (locked l \<longleftrightarrow> counter l > 0) \<and>
     (locked l \<longrightarrow> \<not> recursive l \<and> h = Some (locktype l) \<and> (locktype l = F_WRLCK \<longleftrightarrow> rw_writer l)) \<and>
     (\<not> locked l \<longrightarrow> h = None)"

definition os_inv :: "(nat \<Rightarrow> lktype option) \<Rightarrow> bool" where
  "os_inv h \<longleftrightarrow> (\<forall>p q. p \<noteq> q \<longrightarrow> h p = Some F_WRLCK \<longrightarrow> h q = None)"

definition lsys_inv :: "lsys \<Rightarrow> bool" where
  "lsys_inv s \<longleftrightarrow> (\<forall>p. proc_inv (procs s p) (granted s p)) \<and> os_inv (granted s)"

lemma lsys_inv_init: "lsys_init s \<Longrightarrow> lsys_inv s"
  by (auto simp: lsys_init_def lsys_inv_def proc_inv_def os_inv_def unlocked_def)

lemma rw_acquire_False:
  "rw_acquire t False l = (Inr (), l1) \<longleftrightarrow> \<not> rw_writer l \<and>
     (if t = F_RDLCK then l1 = l\<lparr>rw_readers := rw_readers l + 1\<rparr>
      else rw_readers l = 0 \<and> l1 = l\<lparr>rw_writer := True\<rparr>)"
  by (cases t) (auto simp: rw_acquire_def)

lemma rw_acquire_inv:
  assumes "proc_inv l h" "rw_acquire t False l = (Inr (), l1)"
  shows "proc_inv (local_lock t False l1) (if counter l1 = 0 then Some t else h)"
proof (cases t)
  case F_RDLCK
  then have l1: "l1 = l\<lparr>rw_readers := rw_readers l + 1\<rparr>" "\<not> rw_writer l"
    using assms(2) by (simp_all add: rw_acquire_False)
  show ?thesis
    using assms(1) l1(2) F_RDLCK unfolding l1(1)
    by (cases "locktype l"; cases "rw_readers l") (simp_all add: proc_inv_def local_lock_def)
next
  case F_WRLCK
  then have l1: "l1 = l\<lparr>rw_writer := True\<rparr>" "\<not> rw_writer l" "rw_readers l = 0"
    using assms(2) by (simp_all add: rw_acquire_False)
  show ?thesis
    using assms(1) l1(2,3) F_WRLCK unfolding l1(1) by (simp add: proc_inv_def local_lock_def)
qed

lemma os_grants_inv:
  assumes "os_inv h" "os_grants h p t"
  shows "os_inv (h(p := Some t))"
  unfolding os_inv_def
proof (intro allI impI)
  fix a b assume ab: "a \<noteq> b" "(h(p := Some t)) a = Some F_WRLCK"
  show "(h(p := Some t)) b = None"
  proof (cases "a = p")
    case True
    with ab assms(2) show ?thesis by (simp add: os_grants_def)
  next
    case False
    with ab have a: "h a = Some F_WRLCK" by simp
    with False assms(2) have "b \<noteq> p" by (cases t) (auto simp: os_grants_def)
    with a ab(1) assms(1) show ?thesis by (simp add: os_inv_def)
  qed
qed

lemma lock_once_inv:
  assumes "lsys_inv s" "lock_once p t False s = Some s'"
  shows "lsys_inv s'"
proof -
  obtain l1 where l1: "rw_acquire t False (procs s p) = (Inr (), l1)"
    using assms(2) by (auto simp: lock_once_def split: prod.splits sum.splits)
  have p: "proc_inv (procs s p) (granted s p)" using assms(1) by (simp add: lsys_inv_def)
  show ?thesis
  proof (cases "counter l1 = 0")
    case True
    then have "os_grants (granted s) p t"
      "s' = s\<lparr>procs := (procs s)(p := local_lock t False l1), granted := (granted s)(p := Some t)\<rparr>"
      using assms(2) l1 by (simp_all add: lock_once_def split: if_splits)
    then show ?thesis
      using assms(1) rw_acquire_inv [OF p l1] True os_grants_inv [of "granted s" p t]
      by (simp add: lsys_inv_def)
  next
    case False
    then have "s' = s\<lparr>procs := (procs s)(p := local_lock t False l1)\<rparr>"
      using assms(2) l1 by (simp add: lock_once_def)
    then show ?thesis
      using assms(1) rw_acquire_inv [OF p l1] False by (simp add: lsys_inv_def)
  qed
qed

lemma Unlock_inv:
  assumes "proc_inv l h" "Unlock l = (Inr (), l1)"
  shows "proc_inv l1 (if counter l1 = 0 then None else h)"
  using assms by (auto simp: proc_inv_def Unlock_def rw_release_def Let_def split: if_splits)

lemma unlock_once_inv:
  assumes "lsys_inv s" "unlock_once p s = Some s'"
  shows "lsys_inv s'"
proof -
  obtain l1 where l1: "Unlock (procs s p) = (Inr (), l1)"
    using assms(2) by (auto simp: unlock_once_def split: prod.splits sum.splits)
  have "proc_inv (procs s p) (granted s p)" using assms(1) by (simp add: lsys_inv_def)
  from Unlock_inv [OF this l1] show ?thesis
    using assms l1
    by (cases "counter l1 = 0") (auto simp: unlock_once_def lsys_inv_def os_inv_def split: if_splits)
qed

lemma lock_step_inv: "lock_step False s s' \<Longrightarrow> lsys_inv s \<Longrightarrow> lsys_inv s'"
  by (elim lock_stepE) (blast intro: lock_once_inv unlock_once_inv)+

lemma lock_reachable_inv: "lock_reachable False s \<Longrightarrow> lsys_inv s"
  by (induction rule: lock_reachable.induct) (blast intro: lsys_inv_init lock_step_inv)+

lemma lsys_inv_exclusive:
  assumes "lsys_inv s" "Locked (procs s p)"
  shows "counter (procs s p) = 1" and "q \<noteq> p \<Longrightarrow> \<not> locked (procs s q)"
proof -
  have p: "proc_inv (procs s p) (granted s p)" and q: "proc_inv (procs s q) (granted s q)"
    using assms(1) by (simp_all add: lsys_inv_def)
  show "counter (procs s p) = 1"
  proof -
    have "rw_writer (procs s p)" "rw_readers (procs s p) = 0"
      using p assms(2) unfolding proc_inv_def Locked_def by blast+
    then show ?thesis using p unfolding proc_inv_def by simp
  qed
  have "granted s p = Some F_WRLCK" using p assms(2) unfolding proc_inv_def Locked_def by metis
  then have "q \<noteq> p \<Longrightarrow> granted s q = None" using assms(1) unfolding lsys_inv_def os_inv_def by metis
  then show "q \<noteq> p \<Longrightarrow> \<not> locked (procs s q)"
    using q unfolding proc_inv_def by (metis option.distinct(1))
qed

section \<open>Main theorems\<close>

text \<open>
  C8: in every state that processes using \<open>Lock\<close>, \<open>RLock\<close> and \<open>Unlock\<close> can reach, a process that
  holds the write lock holds it once and no other process holds any lock.
\<close>

theorem write_lock_excludes:
  assumes "lock_reachable False s" "Locked (procs s p)"
  shows "counter (procs s p) = 1 \<and> (\<forall>q. q \<noteq> p \<longrightarrow> \<not> locked (procs s q))"
  using lsys_inv_exclusive [OF lock_reachable_inv [OF assms(1)] assms(2)] by blast

definition idle_lock :: lockfile where
  "idle_lock = \<lparr>rw_readers = 0, rw_writer = False, counter = 0, lk_file = [''l''], lw = [], locktype = F_WRLCK,
     locked = False, ro = False, recursive = False\<rparr>"

definition idle_sys :: lsys where
  "idle_sys = \<lparr>procs = (\<lambda>_. idle_lock), granted = (\<lambda>_. None)\<rparr>"

lemma idle_reachable: "lock_reachable rc idle_sys"
  by (rule lock_reachable.init) (simp add: lsys_init_def idle_sys_def idle_lock_def unlocked_def)

theorem write_lock_excludes_witness:
  "\<exists>s. lock_once 0 F_WRLCK False idle_sys = Some s \<and> Locked (procs s 0) \<and> \<not> locked (procs s 1)"
proof -
  let ?s = "idle_sys\<lparr>procs := (procs idle_sys)(0 := local_lock F_WRLCK False (idle_lock\<lparr>rw_writer := True\<rparr>)),
      granted := (granted idle_sys)(0 := Some F_WRLCK)\<rparr>"
  have run: "lock_once 0 F_WRLCK False idle_sys = Some ?s"
    by (simp add: lock_once_def idle_sys_def idle_lock_def rw_acquire_def os_grants_def)
  have "lock_step False idle_sys ?s"
    by (rule lock_step.writer [OF _ run]) (simp add: idle_sys_def idle_lock_def)
  then have r: "lock_reachable False ?s" by (rule lock_reachable.step [OF idle_reachable])
  have "Locked (procs ?s 0)" by (simp add: local_lock_def Locked_def)
  from write_lock_excludes [OF r this] run this show ?thesis by auto
qed

text \<open>
  With \<open>RecursiveLock\<close> the exclusion fails: two processes take the lock for reading, and one of
  them then takes it recursively for writing; its lock object claims the write lock while the other
  process still holds its read lock, because the file lock is not upgraded.
\<close>

lemma recursive_lock_not_exclusive:
  "\<exists>s. lock_reachable True s \<and> Locked (procs s 0) \<and> locked (procs s 1) \<and> granted s 0 = Some F_RDLCK"
proof -
  let ?r = "local_lock F_RDLCK False (idle_lock\<lparr>rw_readers := 1\<rparr>)"
  let ?s1 = "idle_sys\<lparr>procs := (procs idle_sys)(0 := ?r), granted := (granted idle_sys)(0 := Some F_RDLCK)\<rparr>"
  let ?s2 = "?s1\<lparr>procs := (procs ?s1)(1 := ?r), granted := (granted ?s1)(1 := Some F_RDLCK)\<rparr>"
  let ?s3 = "?s2\<lparr>procs := (procs ?s2)(0 := local_lock F_WRLCK True (?r\<lparr>rw_readers := Suc (Suc 0)\<rparr>))\<rparr>"
  have "lock_once 0 F_RDLCK False idle_sys = Some ?s1"
    by (simp add: lock_once_def idle_sys_def idle_lock_def rw_acquire_def os_grants_def)
  then have r1: "lock_reachable True ?s1" by (intro lock_reachable.step [OF idle_reachable] lock_step.read)
  have "lock_once 1 F_RDLCK False ?s1 = Some ?s2"
    by (simp add: lock_once_def idle_sys_def idle_lock_def rw_acquire_def os_grants_def)
  then have r2: "lock_reachable True ?s2" by (intro lock_reachable.step [OF r1] lock_step.read)
  have "lock_once 0 F_WRLCK True ?s2 = Some ?s3"
    by (simp add: lock_once_def idle_sys_def idle_lock_def rw_acquire_def local_lock_def)
  moreover have "\<not> ro (procs ?s2 0)" by (simp add: local_lock_def idle_lock_def)
  ultimately have r3: "lock_reachable True ?s3" by (intro lock_reachable.step [OF r2] lock_step.recursive) simp_all
  have "Locked (procs ?s3 0) \<and> locked (procs ?s3 1) \<and> granted ?s3 0 = Some F_RDLCK"
    by (simp add: local_lock_def Locked_def)
  with r3 show ?thesis by blast
qed

text \<open>
  C38: after one process has touched the lock, \<open>Modified\<close> of another process with the same file
  reports a change exactly if the other process had not yet seen the new writer, and records it, so
  that a second check reports none.
\<close>

theorem Touch_seen_by_Modified:
  assumes "Touch (l, w) = (Inr (), (l', w'))" "locked l''" "lk_file l'' = lk_file l"
    and "length (lw l'') = length (lw l')" "faults w' = []"
  shows "\<exists>s. Modified (l'', w') = (Inr (lw l'' \<noteq> lw l'), s) \<and> lw (fst s) = lw l' \<and>
    (\<exists>s'. Modified s = (Inr False, s'))"
proof -
  obtain s where s: "Modified (l'', w') = (Inr (lw l'' \<noteq> lw l'), s)" "lw (fst s) = lw l'"
    using Touch_then_Modified [OF assms] by blast
  from s(1) have f: "snd s = w'" "locked (fst s)" "lk_file (fst s) = lk_file l"
    using assms(2,3,5) by (auto simp: Modified_def Let_def split: if_splits)
  have "length (lw (fst s)) = length (lw l')" by (simp add: s(2))
  from Touch_then_Modified [OF assms(1) f(2,3) this assms(5)]
  obtain s' where "Modified (fst s, w') = (Inr (lw (fst s) \<noteq> lw l'), s')" by blast
  then have "Modified s = (Inr False, s')" using s(2) f(1) by (metis prod.collapse)
  with s show ?thesis by blast
qed

theorem Touch_seen_by_Modified_witness:
  "\<exists>l' w' s. Touch (demo_lock [''l''], demo_world) = (Inr (), (l', w')) \<and>
     Modified ((demo_lock [''l''])\<lparr>lw := ''xyz''\<rparr>, w') = (Inr True, s)"
proof -
  let ?w = "demo_world\<lparr>rand := tl (rand demo_world), fs := [[''l''] \<mapsto> Bytes ''ab0''], mtimes := (mtimes demo_world)([''l''] := 7)\<rparr>"
  have run: "Touch (demo_lock [''l''], demo_world) = (Inr (), ((demo_lock [''l''])\<lparr>lw := ''ab0''\<rparr>, ?w))"
    by (simp add: Touch_def demo_lock_def demo_world_def GenerateRandomID_def TruncateID_def all_numeric_def
        is_digit_def io_call_def overwrite_def)
  have "\<exists>s. Modified ((demo_lock [''l''])\<lparr>lw := ''xyz''\<rparr>, ?w) =
      (Inr (lw ((demo_lock [''l''])\<lparr>lw := ''xyz''\<rparr>) \<noteq> lw ((demo_lock [''l''])\<lparr>lw := ''ab0''\<rparr>)), s) \<and>
      lw (fst s) = lw ((demo_lock [''l''])\<lparr>lw := ''ab0''\<rparr>) \<and> (\<exists>s'. Modified s = (Inr False, s'))"
    by (rule Touch_seen_by_Modified [OF run]) (simp_all add: demo_lock_def demo_world_def)
  then show ?thesis using run by auto
qed

end
