(* ===== verification/Filepath.thy ===== *)
theory Filepath
  imports Prelude
begin

text \<open>
  The functions of Go's \<open>path/filepath\<close> (on Unix) that the stores apply to path strings:
  \<open>Clean\<close>, \<open>Dir\<close> and \<open>Base\<close>.  A mount point is kept as a string, and
  \<open>ParentOwners\<close> of \<^verbatim>\<open>layers.go\<close> climbs from it to the root with \<open>Dir\<close>; the lemmas
  say that this climb ends for an absolute path and for no other.
\<close>

text \<open>
  The loop of \<open>Clean\<close> over the elements, with the elements kept so far in reverse order:
  \<open>..\<close> takes the last one away unless that is itself a kept \<open>..\<close> or there is none.
\<close>

fun clean_elems :: "bool \<Rightarrow> string list \<Rightarrow> string list \<Rightarrow> string list" where
  "clean_elems rooted acc [] = rev acc"
| "clean_elems rooted acc (e # es) =
     (if e = [] \<or> e = ''.'' then clean_elems rooted acc es
      else if e = ''..'' then
        (case acc of
           [] \<Rightarrow> clean_elems rooted (if rooted then [] else [e]) es
         | a # as \<Rightarrow> if a = ''..'' then clean_elems rooted (e # acc) es else clean_elems rooted as es)
      else clean_elems rooted (e # acc) es)"

fun join_slash :: "string list \<Rightarrow> string" where
  "join_slash [] = []"
| "join_slash [e] = e"
| "join_slash (e # es) = e @ CHR ''/'' # join_slash es"

definition rooted_path :: "string \<Rightarrow> bool" where
  "rooted_path p \<longleftrightarrow> p \<noteq> [] \<and> hd p = CHR ''/''"

definition Clean :: "string \<Rightarrow> string" where
  "Clean p =
     (if p = [] then ''.''
      else let es = clean_elems (rooted_path p) [] (split_on (CHR ''/'') p) in
           if rooted_path p then CHR ''/'' # join_slash es
           else if es = [] then ''.'' else join_slash es)"

text \<open>\<open>Dir\<close>: everything up to the last slash, cleaned.\<close>

definition upto_last_slash :: "string \<Rightarrow> string" where
  "upto_last_slash p = rev (dropWhile (\<lambda>c. c \<noteq> CHR ''/'') (rev p))"

definition Dir :: "string \<Rightarrow> string" where
  "Dir p = Clean (upto_last_slash p)"

definition Base :: "string \<Rightarrow> string" where
  "Base p =
     (if p = [] then ''.''
      else let q = rev (dropWhile (\<lambda>c. c = CHR ''/'') (rev p)) in
           if q = [] then ''/'' else rev (takeWhile (\<lambda>c. c \<noteq> CHR ''/'') (rev q)))"

section \<open>Lengths\<close>

definition weight :: "string list \<Rightarrow> nat" where
  "weight es = sum_list (map (\<lambda>e. Suc (length e)) es)"

lemma weight_simps [simp]:
  "weight [] = 0" "weight (e # es) = Suc (length e) + weight es" "weight (xs @ ys) = weight xs + weight ys"
  "weight (rev es) = weight es"
  by (simp_all add: weight_def rev_map [symmetric])

lemma length_join_slash: "Suc (length (join_slash es)) = (if es = [] then 1 else weight es)"
  by (induction es rule: join_slash.induct) auto

lemma weight_split_on: "weight (split_on c s) = Suc (length s)"
  by (induction c s rule: split_on.induct) (auto split: list.splits)

lemma weight_clean_elems: "weight (clean_elems True acc es) \<le> weight acc + weight es"
proof (induction es arbitrary: acc)
  case (Cons e es)
  show ?case
    using Cons.IH [of acc] Cons.IH [of "e # acc"] Cons.IH [of "tl acc"] by (cases acc) auto
qed simp

lemma Clean_rooted:
  assumes "rooted_path p"
  shows "rooted_path (Clean p)" and "length (Clean p) \<le> length p"
    and "last p = CHR ''/'' \<Longrightarrow> p \<noteq> ''/'' \<Longrightarrow> length (Clean p) < length p"
proof -
  obtain q where p: "p = CHR ''/'' # q" using assms by (cases p) (auto simp: rooted_path_def)
  let ?es = "clean_elems True [] (split_on (CHR ''/'') q)"
  have c: "Clean p = CHR ''/'' # join_slash ?es" using assms by (simp add: Clean_def p Let_def)
  then show "rooted_path (Clean p)" by (simp add: rooted_path_def)
  have "weight ?es \<le> Suc (length q)"
    using weight_clean_elems [of "[]" "split_on (CHR ''/'') q"] by (simp add: weight_split_on)
  with length_join_slash [of ?es] show "length (Clean p) \<le> length p"
    unfolding c by (simp add: p split: if_splits)
  assume l: "last p = CHR ''/''" "p \<noteq> ''/''"
  then obtain q' where q: "q = q' @ ''/''" by (cases q rule: rev_cases) (auto simp: p)
  have sp: "split_on (CHR ''/'') (q' @ ''/'') = split_on (CHR ''/'') q' @ [[]]"
    by (induction q') (auto split: list.splits)
  have skip: "clean_elems True acc (es @ [[]]) = clean_elems True acc es" for acc es
    by (induction True acc es rule: clean_elems.induct) (auto split: list.splits)
  have "weight ?es \<le> Suc (length q')"
    using weight_clean_elems [of "[]" "split_on (CHR ''/'') q'"] by (simp add: weight_split_on q sp skip)
  with length_join_slash [of ?es] show "length (Clean p) < length p"
    unfolding c by (simp add: p q split: if_splits)
qed

lemma upto_last_slash_rooted:
  assumes "rooted_path p"
  shows "rooted_path (upto_last_slash p)" and "last (upto_last_slash p) = CHR ''/''"
    and "length (upto_last_slash p) \<le> length p"
proof -
  obtain q where p: "p = CHR ''/'' # q" using assms by (cases p) (auto simp: rooted_path_def)
  let ?u = "dropWhile (\<lambda>c. c \<noteq> CHR ''/'') (rev p)"
  have ne: "?u \<noteq> []" by (simp add: p)
  have "hd ?u = CHR ''/''" using hd_dropWhile [OF ne] by simp
  then show "last (upto_last_slash p) = CHR ''/''" by (simp add: upto_last_slash_def last_rev)
  obtain v where v: "rev p = v @ ?u" by (metis takeWhile_dropWhile_id)
  have "last ?u = CHR ''/''" using v ne p by (metis last.simps last_appendR last_rev list.sel(1) rev.simps(2) snoc_eq_iff_butlast)
  then show "rooted_path (upto_last_slash p)" using ne by (simp add: upto_last_slash_def rooted_path_def hd_rev)
  show "length (upto_last_slash p) \<le> length p"
    using length_dropWhile_le [of "\<lambda>c. c \<noteq> CHR ''/''" "rev p"] by (simp add: upto_last_slash_def)
qed

text \<open>\<open>Dir\<close> climbs: an absolute path other than the root becomes shorter and stays absolute.\<close>

lemma Dir_climbs:
  assumes "rooted_path p"
  shows "rooted_path (Dir p)" and "p \<noteq> ''/'' \<Longrightarrow> length (Dir p) < length p"
proof -
  note u = upto_last_slash_rooted [OF assms]
  show "rooted_path (Dir p)" unfolding Dir_def by (rule Clean_rooted(1) [OF u(1)])
  assume "p \<noteq> ''/''"
  show "length (Dir p) < length p"
  proof (cases "upto_last_slash p = ''/''")
    case True
    then have "length (Dir p) = 1" by (simp add: Dir_def Clean_def rooted_path_def)
    moreover have "length p \<ge> 2" using assms \<open>p \<noteq> ''/''\<close> by (cases p; cases "tl p") (auto simp: rooted_path_def)
    ultimately show ?thesis by simp
  next
    case False
    then show ?thesis using Clean_rooted(3) [OF u(1,2)] u(3) by (simp add: Dir_def)
  qed
qed

text \<open>A relative path never reaches the root: \<open>Dir\<close> of a path without slashes is \<open>.\<close>.\<close>

lemma Dir_relative: "CHR ''/'' \<notin> set p \<Longrightarrow> Dir p = ''.''"
  by (auto simp: Dir_def upto_last_slash_def Clean_def dropWhile_eq_Nil_conv)

lemma Dir_root [simp]: "Dir ''/'' = ''/''"
  by (simp add: Dir_def upto_last_slash_def Clean_def rooted_path_def)

end
