(* ===== verification/Driver.thy ===== *)
theory Driver
  imports World Filepath
begin

text \<open>
  Graph drivers: the interface of \<^verbatim>\<open>drivers/driver.go\<close> that the layer store calls, as a record
  of operations on a driver state \<open>'d\<close>, and its simplest implementation, the vfs driver of
  \<^verbatim>\<open>drivers/vfs/driver.go\<close> with the naive \<open>ApplyDiff\<close> and \<open>UpdateLayerIDMap\<close> of
  \<^verbatim>\<open>drivers/fsdiff.go\<close> and \<^verbatim>\<open>drivers/chown.go\<close>.

  The driver keeps its directories apart from the files of the stores.  \<open>drv_Mounted\<close> is
  \<open>mount.Mounted\<close>, the kernel's mount table, which the driver's \<open>Get\<close> and \<open>Put\<close> change.  An
  optional interface that the code asks for with a type assertion is an option.

  The locale \<open>graph_driver\<close> states what the layer store relies on: which layers exist after each
  call.
\<close>

section \<open>The interface\<close>

record CreateOpts =
  cr_MountLabel :: string
  cr_StorageOpt :: "(string \<times> string) list"
  cr_IDMappings :: IDMappings

record MountOpts =
  mo_MountLabel :: string
  mo_UidMaps :: idmaps
  mo_GidMaps :: idmaps
  mo_Options :: "string list"
  mo_Volatile :: bool
  mo_DisableShifting :: bool

definition no_mount_opts :: MountOpts where
  "no_mount_opts = \<lparr>mo_MountLabel = [], mo_UidMaps = None, mo_GidMaps = None, mo_Options = [],
     mo_Volatile = False, mo_DisableShifting = False\<rparr>"

record ApplyDiffOpts =
  ao_Diff :: bytes
  ao_Mappings :: IDMappings
  ao_MountLabel :: string

datatype ChangeType = ChangeModify | ChangeAdd | ChangeDelete

record Change =
  ch_Path :: string
  ch_Kind :: ChangeType

record DriverWithDifferOutput =
  do_Target :: string
  do_Size :: int
  do_UIDs :: "nat list"
  do_GIDs :: "nat list"
  do_UncompressedDigest :: digest
  do_Metadata :: string
  do_BigData :: "(string \<times> bytes) list"

text \<open>A \<open>Differ\<close> is its \<open>ApplyDiff\<close> method: the destination to the output.\<close>

type_synonym Differ = "string \<Rightarrow> gerr + DriverWithDifferOutput"

record 'd DriverWithDiffer =
  dd_ApplyDiffWithDiffer :: "string \<Rightarrow> string \<Rightarrow> ApplyDiffOpts option \<Rightarrow> Differ \<Rightarrow> ('d, DriverWithDifferOutput) go"
  dd_ApplyDiffFromStagingDirectory :: "string \<Rightarrow> string \<Rightarrow> string \<Rightarrow> DriverWithDifferOutput \<Rightarrow> ApplyDiffOpts \<Rightarrow> ('d, unit) go"
  dd_CleanupStagingDirectory :: "string \<Rightarrow> ('d, unit) go"
  dd_DifferTarget :: "string \<Rightarrow> ('d, string) go"

record 'd Driver =
  drv_String :: string
  drv_CreateReadWrite :: "string \<Rightarrow> string \<Rightarrow> CreateOpts \<Rightarrow> ('d, unit) go"
  drv_Create :: "string \<Rightarrow> string \<Rightarrow> CreateOpts \<Rightarrow> ('d, unit) go"
  drv_CreateFromTemplate :: "string \<Rightarrow> string \<Rightarrow> IDMappings \<Rightarrow> string \<Rightarrow> IDMappings \<Rightarrow> CreateOpts \<Rightarrow> bool \<Rightarrow> ('d, unit) go"
  drv_Remove :: "string \<Rightarrow> ('d, unit) go"
  drv_Get :: "string \<Rightarrow> MountOpts \<Rightarrow> ('d, string) go"
  drv_Put :: "string \<Rightarrow> ('d, unit) go"
  drv_Exists :: "string \<Rightarrow> 'd \<Rightarrow> bool"
  drv_Status :: "'d \<Rightarrow> (string \<times> string) list"
  drv_Cleanup :: "('d, unit) go"
  drv_AdditionalImageStores :: "path list"
  drv_Changes :: "string \<Rightarrow> IDMappings \<Rightarrow> string \<Rightarrow> IDMappings \<Rightarrow> string \<Rightarrow> ('d, Change list) go"
  drv_DiffSize :: "string \<Rightarrow> IDMappings \<Rightarrow> string \<Rightarrow> IDMappings \<Rightarrow> string \<Rightarrow> ('d, int) go"
  drv_ApplyDiff :: "string \<Rightarrow> string \<Rightarrow> ApplyDiffOpts \<Rightarrow> ('d, int) go"
  drv_UpdateLayerIDMap :: "string \<Rightarrow> IDMappings \<Rightarrow> IDMappings \<Rightarrow> string \<Rightarrow> ('d, unit) go"
  drv_SupportsShifting :: bool
  drv_Mounted :: "string \<Rightarrow> ('d, bool) go"
  drv_Differ :: "'d DriverWithDiffer option"

text \<open>An identifier that is a single path element.\<close>

definition plain_id :: "string \<Rightarrow> bool" where
  "plain_id k \<longleftrightarrow> k \<noteq> [] \<and> k \<noteq> ''.'' \<and> k \<noteq> ''..'' \<and> CHR ''/'' \<notin> set k"

section \<open>The vfs driver\<close>

text \<open>
  A layer is a directory; the driver state is the directories that exist, with what is below them
  as a map from relative names to contents.  \<open>vfaults\<close> lists the outcomes of the calls that change
  the tree, as in \<open>world\<close>.  \<open>vf_untar\<close>, \<open>vf_chown\<close>, \<open>vf_changes\<close> and
  \<open>vf_changesize\<close> are the archive extraction, the ownership walk and the comparison of two trees.
\<close>

record vdir =
  v_mode :: nat
  v_uid :: int
  v_gid :: int
  v_files :: "string \<rightharpoonup> bytes"

record vfsState =
  vdirs :: "path \<rightharpoonup> vdir"
  vfaults :: "gerr option list"

record vfsDriver =
  vf_homes :: "path list"
  vf_idMappings :: IDMappings
  vf_ignoreChownErrors :: bool
  vf_untar :: "bool \<Rightarrow> IDMappings \<Rightarrow> bytes \<Rightarrow> (vdir, int) go"
  vf_chown :: "IDMappings \<Rightarrow> IDMappings \<Rightarrow> (vdir, unit) go"
  vf_changes :: "vdir \<Rightarrow> IDMappings \<Rightarrow> vdir option \<Rightarrow> IDMappings \<Rightarrow> gerr + Change list"
  vf_changesize :: "vdir \<Rightarrow> Change list \<Rightarrow> int"

definition vfs_call :: "(vfsState, unit) go" where
  "vfs_call s = (case vfaults s of
       [] \<Rightarrow> (Inr (), s)
     | None # fl \<Rightarrow> (Inr (), s\<lparr>vfaults := fl\<rparr>)
     | Some e # fl \<Rightarrow> (Inl e, s\<lparr>vfaults := fl\<rparr>))"

definition vfs_candidate :: "nat \<Rightarrow> path \<Rightarrow> string \<Rightarrow> path" where
  "vfs_candidate i home ident = join_name ((if i > 0 then home @ [''vfs''] else home) @ [''dir'']) (Base ident)"

fun vfs_search :: "nat \<Rightarrow> path list \<Rightarrow> string \<Rightarrow> vfsState \<Rightarrow> path option" where
  "vfs_search i [] ident s = None"
| "vfs_search i (h # hs) ident s =
     (let c = vfs_candidate i h ident in if vdirs s c \<noteq> None then Some c else vfs_search (Suc i) hs ident s)"

definition vfs_dir :: "vfsDriver \<Rightarrow> string \<Rightarrow> vfsState \<Rightarrow> path" where
  "vfs_dir c ident s =
     (case vfs_search 0 (vf_homes c) ident s of
        Some p \<Rightarrow> p
      | None \<Rightarrow> vfs_candidate 0 (hd (vf_homes c)) ident)"

definition vfs_RemoveAll :: "path \<Rightarrow> (vfsState, unit) go" where
  "vfs_RemoveAll p = bind vfs_call (\<lambda>_. modify (\<lambda>s. s\<lparr>vdirs := (\<lambda>q. if prefix p q then None else vdirs s q)\<rparr>))"

text \<open>\<open>idtools.MkdirAndChown\<close>: a directory that is there changes its owner only.\<close>

definition vfs_MkdirAndChown :: "path \<Rightarrow> nat \<Rightarrow> IDPair \<Rightarrow> (vfsState, unit) go" where
  "vfs_MkdirAndChown p mode ids =
     bind vfs_call (\<lambda>_. modify (\<lambda>s. s\<lparr>vdirs := (vdirs s)(p \<mapsto>
       (case vdirs s p of
          Some v \<Rightarrow> v\<lparr>v_uid := UID ids, v_gid := GID ids\<rparr>
        | None \<Rightarrow> \<lparr>v_mode = mode, v_uid = UID ids, v_gid = GID ids, v_files = Map.empty\<rparr>))\<rparr>))"

definition vfs_Get :: "vfsDriver \<Rightarrow> string \<Rightarrow> MountOpts \<Rightarrow> (vfsState, path) go" where
  "vfs_Get c ident opts s =
     (if mo_Options opts \<noteq> [] \<and> mo_Options opts \<noteq> [''ro'']
      then (Inl (Errorf ''vfs driver does not support mount options''), s)
      else if vdirs s (vfs_dir c ident s) = None then (Inl NotExist, s)
      else (Inr (vfs_dir c ident s), s))"

definition vfs_dirCopy :: "path \<Rightarrow> path \<Rightarrow> (vfsState, unit) go" where
  "vfs_dirCopy src dst =
     bind vfs_call (\<lambda>_. modify (\<lambda>s.
       (case (vdirs s src, vdirs s dst) of
          (Some a, Some b) \<Rightarrow> s\<lparr>vdirs := (vdirs s)(dst \<mapsto> b\<lparr>v_files := v_files b ++ v_files a\<rparr>)\<rparr>
        | _ \<Rightarrow> s)))"

text \<open>The part of \<open>create\<close> after the deferred clean-up is registered.\<close>

definition vfs_create_body :: "vfsDriver \<Rightarrow> path \<Rightarrow> string \<Rightarrow> IDPair \<Rightarrow> (vfsState, unit) go" where
  "vfs_create_body c dir parent rootIDs s =
     (if parent = [] then vfs_MkdirAndChown dir 365 rootIDs s
      else case vdirs s (vfs_dir c parent s) of
        None \<Rightarrow> (Inl NotExist, s)
      | Some st \<Rightarrow>
          bind (vfs_MkdirAndChown dir (v_mode st) \<lparr>UID = v_uid st, GID = v_gid st\<rparr>) (\<lambda>_.
          bind (vfs_Get c parent no_mount_opts) (\<lambda>parentDir. vfs_dirCopy parentDir dir)) s)"

definition vfs_create :: "vfsDriver \<Rightarrow> string \<Rightarrow> string \<Rightarrow> CreateOpts \<Rightarrow> (vfsState, unit) go" where
  "vfs_create c ident parent opts s =
     (if cr_StorageOpt opts \<noteq> [] then (Inl (Errorf ''--storage-opt is not supported for vfs''), s)
      else let dir = vfs_dir c ident s; rootIDs = RootPair (cr_IDMappings opts) in
           bind vfs_call (\<lambda>_.
           bind (attempt (vfs_create_body c dir parent rootIDs)) (\<lambda>res.
             case res of
               Inr _ \<Rightarrow> ret ()
             | Inl e \<Rightarrow> bind (ignoring (vfs_RemoveAll dir)) (\<lambda>_. fail e))) s)"

definition vfs_CreateFromTemplate :: "vfsDriver \<Rightarrow> string \<Rightarrow> string \<Rightarrow> IDMappings \<Rightarrow> string \<Rightarrow> IDMappings \<Rightarrow>
    CreateOpts \<Rightarrow> bool \<Rightarrow> (vfsState, unit) go" where
  "vfs_CreateFromTemplate c ident template tm parent pm opts readWrite = vfs_create c ident template opts"

definition vfs_Remove :: "vfsDriver \<Rightarrow> string \<Rightarrow> (vfsState, unit) go" where
  "vfs_Remove c ident s = vfs_RemoveAll (vfs_dir c ident s) s"

definition vfs_Exists :: "vfsDriver \<Rightarrow> string \<Rightarrow> vfsState \<Rightarrow> bool" where
  "vfs_Exists c ident s \<longleftrightarrow> vdirs s (vfs_dir c ident s) \<noteq> None"

text \<open>
  The naive driver: \<open>ApplyDiff\<close> and \<open>UpdateLayerIDMap\<close> get the directory of the layer, work on it
  and put it back.
\<close>

definition naive_on_layer :: "vfsDriver \<Rightarrow> string \<Rightarrow> (vdir, 'a) go \<Rightarrow> (vfsState, 'a) go" where
  "naive_on_layer c ident f =
     bind (vfs_Get c ident no_mount_opts) (\<lambda>layerFs s.
       case vdirs s layerFs of
         None \<Rightarrow> (Inl NotExist, s)
       | Some v \<Rightarrow> (let (res, v') = f v in (res, s\<lparr>vdirs := (vdirs s)(layerFs \<mapsto> v')\<rparr>)))"

definition vfs_ApplyDiff :: "vfsDriver \<Rightarrow> string \<Rightarrow> string \<Rightarrow> ApplyDiffOpts \<Rightarrow> (vfsState, int) go" where
  "vfs_ApplyDiff c ident parent opts =
     naive_on_layer c ident (vf_untar c (vf_ignoreChownErrors c) (ao_Mappings opts) (ao_Diff opts))"

definition naive_UpdateLayerIDMap :: "vfsDriver \<Rightarrow> string \<Rightarrow> IDMappings \<Rightarrow> IDMappings \<Rightarrow> string \<Rightarrow> (vfsState, unit) go" where
  "naive_UpdateLayerIDMap c ident toC toH mountLabel = naive_on_layer c ident (vf_chown c toC toH)"

definition naive_Changes :: "vfsDriver \<Rightarrow> string \<Rightarrow> IDMappings \<Rightarrow> string \<Rightarrow> IDMappings \<Rightarrow> string \<Rightarrow> (vfsState, Change list) go" where
  "naive_Changes c ident m parent pm mountLabel s =
     (case vdirs s (vfs_dir c ident s) of
        None \<Rightarrow> (Inl NotExist, s)
      | Some v \<Rightarrow>
          if parent = [] then (vf_changes c v m None pm, s)
          else case vdirs s (vfs_dir c parent s) of
            None \<Rightarrow> (Inl NotExist, s)
          | Some pv \<Rightarrow> (vf_changes c v m (Some pv) pm, s))"

definition naive_DiffSize :: "vfsDriver \<Rightarrow> string \<Rightarrow> IDMappings \<Rightarrow> string \<Rightarrow> IDMappings \<Rightarrow> string \<Rightarrow> (vfsState, int) go" where
  "naive_DiffSize c ident m parent pm mountLabel =
     bind (naive_Changes c ident m parent pm mountLabel) (\<lambda>changes s.
       case vdirs s (vfs_dir c ident s) of
         None \<Rightarrow> (Inl NotExist, s)
       | Some v \<Rightarrow> (Inr (vf_changesize c v changes), s))"

definition path_string :: "path \<Rightarrow> string" where
  "path_string p = CHR ''/'' # join_slash p"

definition vfs_driver :: "vfsDriver \<Rightarrow> vfsState Driver" where
  "vfs_driver c =
     \<lparr>drv_String = ''vfs'',
      drv_CreateReadWrite = vfs_create c,
      drv_Create = vfs_create c,
      drv_CreateFromTemplate = vfs_CreateFromTemplate c,
      drv_Remove = vfs_Remove c,
      drv_Get = (\<lambda>ident opts. bind (vfs_Get c ident opts) (\<lambda>p. ret (path_string p))),
      drv_Put = (\<lambda>ident. ret ()),
      drv_Exists = vfs_Exists c,
      drv_Status = (\<lambda>_. []),
      drv_Cleanup = ret (),
      drv_AdditionalImageStores = tl (vf_homes c),
      drv_Changes = naive_Changes c,
      drv_DiffSize = naive_DiffSize c,
      drv_ApplyDiff = vfs_ApplyDiff c,
      drv_UpdateLayerIDMap = naive_UpdateLayerIDMap c,
      drv_SupportsShifting = False,
      drv_Mounted = (\<lambda>p. ret False),
      drv_Differ = None\<rparr>"

section \<open>What the layer store relies on\<close>

locale graph_driver =
  fixes drv :: "'d Driver"
  assumes remove_gone: "plain_id k \<Longrightarrow> drv_Remove drv k d = (Inr (), d') \<Longrightarrow> \<not> drv_Exists drv k d'"
    and remove_others: "plain_id k \<Longrightarrow> plain_id j \<Longrightarrow> j \<noteq> k \<Longrightarrow> drv_Exists drv j (snd (drv_Remove drv k d)) = drv_Exists drv j d"
    and create_there: "plain_id k \<Longrightarrow> drv_Create drv k p opts d = (Inr (), d') \<Longrightarrow> drv_Exists drv k d'"
    and create_rw_there: "plain_id k \<Longrightarrow> drv_CreateReadWrite drv k p opts d = (Inr (), d') \<Longrightarrow> drv_Exists drv k d'"
    and template_there: "plain_id k \<Longrightarrow> drv_CreateFromTemplate drv k t tm p pm opts rw d = (Inr (), d') \<Longrightarrow> drv_Exists drv k d'"
    and update_keeps: "plain_id j \<Longrightarrow> drv_Exists drv j (snd (drv_UpdateLayerIDMap drv k a b l d)) = drv_Exists drv j d"
    and apply_keeps: "plain_id j \<Longrightarrow> drv_Exists drv j (snd (drv_ApplyDiff drv k p ao d)) = drv_Exists drv j d"
    and put_keeps: "plain_id j \<Longrightarrow> drv_Exists drv j (snd (drv_Put drv k d)) = drv_Exists drv j d"
begin

lemma remove_effect:
  assumes "plain_id k" "plain_id j" "drv_Remove drv k d = (Inr (), d')"
  shows "drv_Exists drv j d' \<longleftrightarrow> drv_Exists drv j d \<and> j \<noteq> k"
  using remove_gone [OF assms(1,3)] remove_others [OF assms(1,2), of d] assms(3) by (cases "j = k") auto

end

section \<open>The vfs driver meets the contract\<close>

lemma plain_id_Base: "plain_id k \<Longrightarrow> Base k = k"
proof -
  assume "plain_id k"
  then have k: "k \<noteq> []" "CHR ''/'' \<notin> set k" by (simp_all add: plain_id_def)
  have "hd (rev k) \<noteq> CHR ''/''" using k by (metis hd_in_set rev_is_Nil_conv set_rev)
  then have d: "dropWhile (\<lambda>c. c = CHR ''/'') (rev k) = rev k" using k(1) by (cases "rev k") auto
  have t: "takeWhile (\<lambda>c. c \<noteq> CHR ''/'') (rev k) = rev k" using k(2) by (auto simp: takeWhile_eq_all_conv)
  show "Base k = k" unfolding Base_def Let_def d rev_rev_ident t using k(1) by simp
qed

lemma plain_id_join: "plain_id k \<Longrightarrow> join_name p k = p @ [k]"
  by (simp add: plain_id_def join_name_def split_on_no_sep join_elem_def)

lemma vfs_dir_single:
  assumes "plain_id k" "vf_homes c = [h]"
  shows "vfs_dir c k s = h @ [''dir'', k]"
  using assms by (simp add: vfs_dir_def vfs_candidate_def plain_id_Base plain_id_join Let_def)

lemma vfs_call_dirs: "vdirs (snd (vfs_call s)) = vdirs s"
  by (simp add: vfs_call_def split: list.splits option.splits)

lemma vfs_RemoveAll_dirs:
  assumes "vfs_RemoveAll p s = (res, s')"
  shows "vdirs s' = (case res of Inl _ \<Rightarrow> vdirs s | Inr _ \<Rightarrow> (\<lambda>q. if prefix p q then None else vdirs s q))"
proof -
  obtain r1 s1 where v: "vfs_call s = (r1, s1)" by force
  then have "vdirs s1 = vdirs s" using vfs_call_dirs [of s] by simp
  then show ?thesis using assms v by (cases r1) (auto simp: vfs_RemoveAll_def bind_def modify_def)
qed

lemma vfs_Mkdir_dirs:
  assumes "vfs_MkdirAndChown p mode ids s = (res, s')"
  shows "\<exists>v. vdirs s' = (case res of Inl _ \<Rightarrow> vdirs s | Inr _ \<Rightarrow> (vdirs s)(p \<mapsto> v))"
proof -
  obtain r1 s1 where v: "vfs_call s = (r1, s1)" by force
  then have "vdirs s1 = vdirs s" using vfs_call_dirs [of s] by simp
  then show ?thesis using assms v by (cases r1) (auto simp: vfs_MkdirAndChown_def bind_def modify_def)
qed

lemma vfs_dirCopy_dom:
  assumes "vfs_dirCopy src dst s = (res, s')"
  shows "dom (vdirs s') = dom (vdirs s)"
proof -
  obtain r1 s1 where v: "vfs_call s = (r1, s1)" by force
  have eq: "vdirs s1 = vdirs s" using vfs_call_dirs [of s] v by simp
  show ?thesis
  proof (cases r1)
    case (Inl e)
    then show ?thesis using assms v eq by (simp add: vfs_dirCopy_def bind_def)
  next
    case (Inr u)
    then show ?thesis
      using assms v unfolding vfs_dirCopy_def bind_def modify_def eq [symmetric]
      by (cases "vdirs s1 src"; cases "vdirs s1 dst") (auto simp: dom_def split: if_splits)
  qed
qed

text \<open>A run of \<open>create\<close> that succeeds leaves the directory in place.\<close>

lemma vfs_create_body_there:
  assumes "vfs_create_body c dir parent ids s = (Inr (), s')"
  shows "vdirs s' dir \<noteq> None"
proof (cases "parent = []")
  case True
  then show ?thesis using assms vfs_Mkdir_dirs [of dir 365 ids s "Inr ()" s'] by (auto simp: vfs_create_body_def)
next
  case False
  then obtain st where st: "vdirs s (vfs_dir c parent s) = Some st"
    using assms by (auto simp: vfs_create_body_def split: option.splits)
  obtain r1 s1 where m: "vfs_MkdirAndChown dir (v_mode st) \<lparr>UID = v_uid st, GID = v_gid st\<rparr> s = (r1, s1)" by force
  have r1: "r1 = Inr ()" using assms False st m by (cases r1) (auto simp: vfs_create_body_def bind_def)
  have s1: "dir \<in> dom (vdirs s1)" using vfs_Mkdir_dirs [OF m] r1 by auto
  obtain r2 s2 where g: "vfs_Get c parent no_mount_opts s1 = (r2, s2)" by force
  then have s2: "s2 = s1" by (auto simp: vfs_Get_def split: if_splits)
  obtain q where q: "r2 = Inr q" using assms False st m r1 g by (cases r2) (auto simp: vfs_create_body_def bind_def)
  have "vfs_dirCopy q dir s1 = (Inr (), s')" using assms False st m r1 g q s2 by (simp add: vfs_create_body_def bind_def)
  from vfs_dirCopy_dom [OF this] s1 show ?thesis by (metis domD option.distinct(1))
qed

lemma vfs_create_there:
  assumes "vfs_create c k p opts s = (Inr (), s')"
  shows "vdirs s' (vfs_dir c k s) \<noteq> None"
proof -
  let ?dir = "vfs_dir c k s" and ?ids = "RootPair (cr_IDMappings opts)"
  obtain r1 s1 where v: "vfs_call s = (r1, s1)" by force
  obtain r2 s2 where b: "vfs_create_body c ?dir p ?ids s1 = (r2, s2)" by force
  have "r1 = Inr () \<and> r2 = Inr () \<and> s2 = s'"
    using assms v b
    by (cases r1; cases r2)
      (auto simp: vfs_create_def bind_def attempt_def Let_def split: if_splits prod.splits sum.splits)
  then show ?thesis using vfs_create_body_there b by blast
qed

lemma naive_on_layer_dom: "dom (vdirs (snd (naive_on_layer c k f s))) = dom (vdirs s)"
  by (auto simp: naive_on_layer_def vfs_Get_def bind_def split: option.splits sum.splits prod.splits)

interpretation vfs: graph_driver "vfs_driver (c\<lparr>vf_homes := [h]\<rparr>)" for c h
proof -
  let ?c = "c\<lparr>vf_homes := [h]\<rparr>"
  have dir: "vfs_dir ?c k s = h @ [''dir'', k]" if "plain_id k" for k s
    using that by (simp add: vfs_dir_single)
  have ex: "vfs_Exists ?c k s \<longleftrightarrow> h @ [''dir'', k] \<in> dom (vdirs s)" if "plain_id k" for k s
    using that by (auto simp: vfs_Exists_def dir)
  have there: "vfs_Exists ?c k s'" if "plain_id k" "vfs_create ?c k p opts s = (Inr (), s')" for k p opts s s'
    using vfs_create_there [OF that(2)] that(1) by (auto simp: ex dir)
  show "graph_driver (vfs_driver ?c)"
  proof
    fix k d d'
    assume "plain_id k" "drv_Remove (vfs_driver ?c) k d = (Inr (), d')"
    then show "\<not> drv_Exists (vfs_driver ?c) k d'"
      using vfs_RemoveAll_dirs [of "h @ [''dir'', k]" d "Inr ()" d']
      by (auto simp: vfs_driver_def vfs_Remove_def dir ex)
  next
    fix k j d
    assume kj: "plain_id k" "plain_id j" "j \<noteq> k"
    obtain res d' where "vfs_RemoveAll (h @ [''dir'', k]) d = (res, d')" by force
    from vfs_RemoveAll_dirs [OF this] this kj
    show "drv_Exists (vfs_driver ?c) j (snd (drv_Remove (vfs_driver ?c) k d)) = drv_Exists (vfs_driver ?c) j d"
      by (auto simp: vfs_driver_def vfs_Remove_def dir ex split: sum.splits)
  qed (use there in \<open>auto simp: vfs_driver_def vfs_CreateFromTemplate_def ex vfs_ApplyDiff_def
      naive_UpdateLayerIDMap_def naive_on_layer_dom\<close>)
qed

text \<open>A vfs driver for the examples: one home, an extraction that records the bytes.\<close>

definition demo_vfs :: vfsDriver where
  "demo_vfs = \<lparr>vf_homes = [[''v'']], vf_idMappings = \<lparr>uids = None, gids = None\<rparr>,
     vf_ignoreChownErrors = False,
     vf_untar = (\<lambda>_ _ b v. (Inr (int (length b)), v\<lparr>v_files := (v_files v)(''f'' \<mapsto> b)\<rparr>)),
     vf_chown = (\<lambda>_ _ v. (Inr (), v)), vf_changes = (\<lambda>_ _ _ _. Inr []), vf_changesize = (\<lambda>_ _. 0)\<rparr>"

definition demo_vfs_state :: vfsState where
  "demo_vfs_state = \<lparr>vdirs = Map.empty, vfaults = []\<rparr>"

lemma demo_vfs_single: "vfs_driver demo_vfs = vfs_driver (demo_vfs\<lparr>vf_homes := [[''v'']]\<rparr>)"
  by (simp add: demo_vfs_def)

end
