(* ===== verification/Layers.thy ===== *)
theory Layers
  imports ItemStore BigData Lockfile Driver
begin

text \<open>
  The layer store: \<^verbatim>\<open>layers.go\<close>.

  The state of an operation is the store and its environment: the state of the graph driver, the
  calls made to the SELinux label package (recorded in order, because the store only calls it),
  and the world.  The operations keep the source's names under the prefix \<open>ls_\<close> and take the
  driver as an argument; operations of the driver's optional interfaces are in \<open>drv_Differ\<close>.

  Deferred calls are written with \<open>deferred\<close>; a call whose error is dropped is \<open>ignoring\<close>.
\<close>

section \<open>State\<close>

record layerStore = "Layer itemStore" +
  ls_lockfile :: lockfile
  ls_mountsLockfile :: "lockfile option"
  ls_rundir :: path
  ls_layerdir :: path
  bymount :: "string \<rightharpoonup> nat"
  bycompressedsum :: "digest \<rightharpoonup> string list"
  byuncompressedsum :: "digest \<rightharpoonup> string list"
  ls_uidMap :: idmaps
  ls_gidMap :: idmaps
  ls_layerspathModified :: nat

datatype label_call = ClearLabels | ReserveLabel string | ReleaseLabel string

record 'd env =
  dstate :: 'd
  labels :: "label_call list"
  wld :: world

type_synonym ('d, 'a) lop = "(layerStore \<times> 'd env, 'a) go"

record LayerOptions =
  lo_IDMappingOptions :: IDMappingOptions
  lo_TemplateLayer :: string
  lo_OriginalDigest :: digest
  lo_UncompressedDigest :: digest

text \<open>
  The library calls of \<open>applyDiffWithOptions\<close>: decompression, the digest package, the tar headers
  of a stream (name, uid and gid) and the tar-split metadata of it.
\<close>

record diffLib =
  dl_decompress :: "bytes \<Rightarrow> gerr + bytes"
  dl_canonical :: "bytes \<Rightarrow> digest"
  dl_algorithm :: "digest \<Rightarrow> string"
  dl_headers :: "bytes \<Rightarrow> (string \<times> nat \<times> nat) list"
  dl_tarsplit :: "bytes \<Rightarrow> bytes"

definition incompleteFlag :: string where
  "incompleteFlag = ''incomplete''"

definition tarSplitSuffix :: string where
  "tarSplitSuffix = ''.tar-split.gz''"

definition on_world :: "(world, 'a) go \<Rightarrow> ('d, 'a) lop" where
  "on_world m s = (let (x, w) = m (wld (snd s)) in (x, (fst s, (snd s)\<lparr>wld := w\<rparr>)))"

definition on_driver :: "('d, 'a) go \<Rightarrow> ('d, 'a) lop" where
  "on_driver m s = (let (x, d) = m (dstate (snd s)) in (x, (fst s, (snd s)\<lparr>dstate := d\<rparr>)))"

definition label_do :: "label_call list \<Rightarrow> ('d, unit) lop" where
  "label_do cs s = (Inr (), (fst s, (snd s)\<lparr>labels := labels (snd s) @ cs\<rparr>))"

definition on_lock :: "(lockfile \<times> world, 'a) go \<Rightarrow> ('d, 'a) lop" where
  "on_lock m s =
     (let (x, l, w) = m (ls_lockfile (fst s), wld (snd s))
      in (x, ((fst s)\<lparr>ls_lockfile := l\<rparr>, (snd s)\<lparr>wld := w\<rparr>)))"

text \<open>The mounts lock of a read-only store is a nil interface.\<close>

definition on_mounts_lock :: "(lockfile \<times> world, 'a) go \<Rightarrow> ('d, 'a) lop" where
  "on_mounts_lock m s =
     (case ls_mountsLockfile (fst s) of
        None \<Rightarrow> (Inl (Panic ''nil pointer dereference''), s)
      | Some l \<Rightarrow>
          (let (x, l', w) = m (l, wld (snd s))
           in (x, ((fst s)\<lparr>ls_mountsLockfile := Some l'\<rparr>, (snd s)\<lparr>wld := w\<rparr>))))"

definition on_layers :: "(layerStore \<Rightarrow> layerStore) \<Rightarrow> ('d, unit) lop" where
  "on_layers f = modify (\<lambda>s. (f (fst s), snd s))"

text \<open>\<open>r.mountsLockfile.Lock(); defer r.mountsLockfile.Unlock()\<close>\<close>

definition with_mounts :: "(lockfile \<times> world, unit) go \<Rightarrow> ('d, 'a) lop \<Rightarrow> ('d, 'a) lop" where
  "with_mounts lock m =
     bind (on_mounts_lock lock) (\<lambda>_. deferred (on_mounts_lock (on_fst Unlock)) m)"

definition ls_IsReadWrite :: "layerStore \<Rightarrow> bool" where
  "ls_IsReadWrite r = IsReadWrite (ls_lockfile r)"

definition ls_Locked :: "layerStore \<Rightarrow> bool" where
  "ls_Locked r = Locked (ls_lockfile r)"

section \<open>The record and the files\<close>

definition copyLayer :: "Layer \<Rightarrow> Layer" where
  "copyLayer l = l\<lparr>l_UIDMap := copyIDMap (l_UIDMap l), l_GIDMap := copyIDMap (l_GIDMap l)\<rparr>"

definition ls_Layers :: "layerStore \<Rightarrow> Layer list" where
  "ls_Layers r = map copyLayer (item_list r)"

definition ls_mountspath :: "layerStore \<Rightarrow> path" where
  "ls_mountspath r = ls_rundir r @ [''mountpoints.json'']"

definition ls_layerspath :: "layerStore \<Rightarrow> path" where
  "ls_layerspath r = ls_layerdir r @ [''layers.json'']"

definition ls_datadir :: "layerStore \<Rightarrow> string \<Rightarrow> path" where
  "ls_datadir r ident = join_name (ls_layerdir r) ident"

definition ls_datapath :: "layerStore \<Rightarrow> string \<Rightarrow> string \<Rightarrow> path" where
  "ls_datapath r ident key = join_name (ls_datadir r ident) (makeBigDataBaseName key)"

definition ls_tspath :: "layerStore \<Rightarrow> string \<Rightarrow> path" where
  "ls_tspath r ident = join_name (ls_layerdir r) (ident @ tarSplitSuffix)"

definition ls_lookup :: "layerStore \<Rightarrow> string \<Rightarrow> nat option" where
  "ls_lookup r ident =
     (case byid r ident of
        Some x \<Rightarrow> Some x
      | None \<Rightarrow>
          (case byname r ident of
             Some x \<Rightarrow> Some x
           | None \<Rightarrow>
               (case ti_Get (idindex r) ident of
                  Inr longid \<Rightarrow> byid r longid
                | Inl _ \<Rightarrow> None)))"

section \<open>Mount information\<close>

text \<open>\<open>json.Unmarshal\<close>: \<open>None\<close> for a document that does not parse.\<close>

definition decode_mounts :: "content \<Rightarrow> layerMountPoint list option" where
  "decode_mounts c = (case c of JMounts ms \<Rightarrow> Some ms | Bytes [] \<Rightarrow> Some [] | _ \<Rightarrow> None)"

definition clear_mounts :: "layerStore \<Rightarrow> layerStore" where
  "clear_mounts r =
     fold (\<lambda>x. update_obj x (\<lambda>l. l\<lparr>l_MountPoint := [], l_MountCount := 0\<rparr>)) (items r) r"

definition set_mount :: "layerMountPoint \<Rightarrow> layerStore \<Rightarrow> layerStore" where
  "set_mount m r =
     (if m_MountPoint m = [] then r
      else case ls_lookup r (m_ID m) of
        None \<Rightarrow> r
      | Some x \<Rightarrow>
          (update_obj x (\<lambda>l. l\<lparr>l_MountPoint := m_MountPoint m, l_MountCount := m_MountCount m\<rparr>) r)
            \<lparr>bymount := (bymount r)(m_MountPoint m \<mapsto> x)\<rparr>)"

definition merge_mounts :: "layerMountPoint list \<Rightarrow> layerStore \<Rightarrow> layerStore" where
  "merge_mounts ms r = fold set_mount ms ((clear_mounts r)\<lparr>bymount := Map.empty\<rparr>)"

definition ls_loadMounts :: "('d, unit) lop" where
  "ls_loadMounts s =
     (case on_world (ReadFile (ls_mountspath (fst s))) s of
        (Inl e, s1) \<Rightarrow> if e \<noteq> NotExist then (Inl e, s1) else on_layers (merge_mounts []) s1
      | (Inr c, s1) \<Rightarrow>
          (case decode_mounts c of
             Some ms \<Rightarrow> on_layers (merge_mounts ms) s1
           | None \<Rightarrow> (Inl (Errorf ''json: cannot decode mountpoints''),
                     ((fst s1)\<lparr>bymount := Map.empty\<rparr>, snd s1))))"

definition mounts_of :: "layerStore \<Rightarrow> layerMountPoint list" where
  "mounts_of r =
     map (\<lambda>l. \<lparr>m_ID = l_ID l, m_MountPoint = l_MountPoint l, m_MountCount = l_MountCount l\<rparr>)
       (filter (\<lambda>l. l_MountPoint l \<noteq> [] \<and> l_MountCount l > 0) (item_list r))"

definition ls_saveMounts :: "('d, unit) lop" where
  "ls_saveMounts s =
     (if \<not> ls_IsReadWrite (fst s) then (Inl ErrStoreIsReadOnly, s)
      else case ls_mountsLockfile (fst s) of
        None \<Rightarrow> (Inl (Panic ''nil pointer dereference''), s)
      | Some ml \<Rightarrow>
          if \<not> Locked ml then (Inl (Errorf ''layer store mount information is not locked for writing''), s)
          else bind (on_world (MkdirAll (ls_rundir (fst s)))) (\<lambda>_.
               bind (on_world (AtomicWriteFile (ls_mountspath (fst s)) (JMounts (mounts_of (fst s))))) (\<lambda>_.
                 ls_loadMounts)) s)"

definition ls_saveLayers :: "('d, unit) lop" where
  "ls_saveLayers s =
     (if \<not> ls_IsReadWrite (fst s) then (Inl ErrStoreIsReadOnly, s)
      else if \<not> ls_Locked (fst s) then (Inl (Errorf ''layer store is not locked for writing''), s)
      else on_lock (save_file (ls_layerspath (fst s)) (JLayers (map json_Layer (item_list (fst s))))) s)"

definition ls_Save :: "('d, unit) lop" where
  "ls_Save =
     with_mounts Lock (deferred (on_mounts_lock Touch) (bind ls_saveLayers (\<lambda>_. ls_saveMounts)))"

text \<open>
  The check at the start of \<open>Mounted\<close>, \<open>Mount\<close>, \<open>Unmount\<close> and \<open>ParentOwners\<close>:
  \<open>if modified, err := r.mountsLockfile.Modified(); modified || err != nil { ... }\<close>.
\<close>

definition ls_refresh_mounts :: "('d, unit) lop" where
  "ls_refresh_mounts =
     bind (attempt (on_mounts_lock Modified)) (\<lambda>res. if res = Inr False then ret () else ls_loadMounts)"

section \<open>Loading\<close>

definition deleteInDigestMap :: "string \<Rightarrow> layerStore \<Rightarrow> layerStore" where
  "deleteInDigestMap ident r =
     r\<lparr>bycompressedsum := (\<lambda>d. map_option (remove1 ident) (bycompressedsum r d)),
       byuncompressedsum := (\<lambda>d. map_option (remove1 ident) (byuncompressedsum r d))\<rparr>"

text \<open>What \<open>deleteInternal\<close> does to the indexes once the driver has removed the layer \<open>l\<close>.\<close>

definition forget_layer :: "Layer \<Rightarrow> layerStore \<Rightarrow> layerStore" where
  "forget_layer l r =
     (let toDeleteIndex = find_index (\<lambda>y. l_ID (objs r ! y) = l_ID l) (items r);
          bm = (if l_MountPoint l \<noteq> [] then (bymount r)(l_MountPoint l := None) else bymount r)
      in deleteInDigestMap (l_ID l) ((remove_item (l_ID l) (l_Names l) toDeleteIndex r)\<lparr>bymount := bm\<rparr>))"

definition release_label :: "string \<Rightarrow> ('d, unit) lop" where
  "release_label lb s =
     (if lb \<noteq> [] \<and> \<not> list_ex (\<lambda>c. l_MountLabel c = lb) (item_list (fst s))
      then label_do [ReleaseLabel lb] s else (Inr (), s))"

definition ls_deleteInternal :: "'d Driver \<Rightarrow> string \<Rightarrow> ('d, unit) lop" where
  "ls_deleteInternal drv ident s =
     (if \<not> ls_IsReadWrite (fst s) then (Inl ErrStoreIsReadOnly, s)
      else case ls_lookup (fst s) ident of
        None \<Rightarrow> (Inl ErrLayerUnknown, s)
      | Some x \<Rightarrow>
          let l = objs (fst s) ! x in
          bind (on_driver (drv_Remove drv (l_ID l))) (\<lambda>_.
          bind (ignoring (on_world (RemoveFile (ls_tspath (fst s) (l_ID l))))) (\<lambda>_.
          bind (ignoring (on_world (RemoveAll (ls_datadir (fst s) (l_ID l))))) (\<lambda>_.
          bind (on_layers (forget_layer l)) (\<lambda>_. release_label (l_MountLabel l))))) s)"

text \<open>
  The clean-up loop of \<open>Load\<close>: \<open>range r.layers\<close> walks over the slice as it was when the loop
  started, and \<open>deleteInternal\<close> moves the later elements down inside the same backing array \<open>arr\<close>.
  The result is the error that ended the loop, if any, and whether to save.
\<close>

fun ls_cleanup :: "'d Driver \<Rightarrow> nat list \<Rightarrow> nat list \<Rightarrow> bool \<Rightarrow> ('d, gerr option \<times> bool) lop" where
  "ls_cleanup drv [] arr b s = (Inr (None, b), s)"
| "ls_cleanup drv (i # idxs) arr b s =
     (let l = objs (fst s) ! (arr ! i) in
      if l_Flags l incompleteFlag = Some (IBool True)
      then (case attempt (ls_deleteInternal drv (l_ID l)) s of
              (Inl e, s') \<Rightarrow> (Inl e, s')
            | (Inr (Inl e), s') \<Rightarrow> (Inr (Some e, b), s')
            | (Inr (Inr _), s') \<Rightarrow>
                (let left = items (fst s') in ls_cleanup drv idxs (left @ drop (length left) arr) True s'))
      else ls_cleanup drv idxs arr b s)"

definition decode_layers :: "content \<Rightarrow> Layer list option" where
  "decode_layers c = (case c of JLayers ls \<Rightarrow> Some ls | Bytes [] \<Rightarrow> Some [] | _ \<Rightarrow> None)"

text \<open>The digest maps \<open>Load\<close> builds.\<close>

definition add_sum :: "(Layer \<Rightarrow> digest) \<Rightarrow> Layer \<Rightarrow> (digest \<rightharpoonup> string list) \<Rightarrow> digest \<rightharpoonup> string list" where
  "add_sum dg l m = (if dg l = [] then m
     else m(dg l \<mapsto> (case m (dg l) of None \<Rightarrow> [] | Some ks \<Rightarrow> ks) @ [l_ID l]))"

definition load_sums :: "(Layer \<Rightarrow> digest) \<Rightarrow> Layer list \<Rightarrow> digest \<rightharpoonup> string list" where
  "load_sums dg ls = fold (add_sum dg) ls Map.empty"

definition load_labels :: "bool \<Rightarrow> Layer list \<Rightarrow> label_call list" where
  "load_labels rw ls = (if rw then [ClearLabels] else []) @
     map (\<lambda>l. ReserveLabel (l_MountLabel l)) (filter (\<lambda>l. l_MountLabel l \<noteq> []) ls)"

text \<open>The end of \<open>Load\<close> for a writable store, under the mounts lock.\<close>

definition ls_load_finish :: "'d Driver \<Rightarrow> bool \<Rightarrow> ('d, unit) lop" where
  "ls_load_finish drv shouldSave =
     bind ls_loadMounts (\<lambda>_ s.
       bind (if ls_Locked (fst s) then ls_cleanup drv [0..<length (items (fst s))] (items (fst s)) shouldSave
             else ret (None, shouldSave)) (\<lambda>(err, save).
         if save then ls_saveLayers else case err of None \<Rightarrow> ret () | Some e \<Rightarrow> fail e) s)"

text \<open>
  Until \<open>loadMounts\<close> has replaced it, \<open>bymount\<close> still leads to the records of the previous load:
  they stay in the heap behind the new ones.
\<close>

definition keep_stale :: "layerStore \<Rightarrow> layerStore \<Rightarrow> layerStore" where
  "keep_stale old r =
     r\<lparr>objs := objs r @ objs old, bymount := (\<lambda>p. map_option (\<lambda>x. x + length (objs r)) (bymount old p))\<rparr>"

definition ls_load_data :: "'d Driver \<Rightarrow> Layer list option \<Rightarrow> ('d, unit) lop" where
  "ls_load_data drv decoded s =
     (let rw = ls_IsReadWrite (fst s);
          ls = map (\<lambda>l. l\<lparr>l_ReadOnly := \<not> rw\<rparr>) (case decoded of None \<Rightarrow> [] | Some ls \<Rightarrow> ls);
          (r, shouldSave) = load_store l_ID l_Names l_Names_update ls (fst s);
          r1 = (keep_stale (fst s) r)\<lparr>bycompressedsum := load_sums l_CompressedDigest ls,
                 byuncompressedsum := load_sums l_UncompressedDigest ls\<rparr>
      in bind (label_do (load_labels rw ls)) (\<lambda>_.
           if shouldSave \<and> (\<not> rw \<or> \<not> ls_Locked (fst s)) then fail ErrDuplicateLayerNames
           else bind (on_layers (\<lambda>_. r1)) (\<lambda>_.
             if rw then with_mounts RLock (ls_load_finish drv shouldSave)
             else if decoded = None then fail (Errorf ''json: cannot decode layers'') else ret ())) s)"

definition ls_Load :: "'d Driver \<Rightarrow> ('d, unit) lop" where
  "ls_Load drv s =
     (case on_world (ReadFile (ls_layerspath (fst s))) s of
        (Inl e, s1) \<Rightarrow> if e \<noteq> NotExist then (Inl e, s1) else ls_load_data drv (Some []) s1
      | (Inr c, s1) \<Rightarrow> ls_load_data drv (decode_layers c) s1)"

definition ls_LoadLocked :: "'d Driver \<Rightarrow> ('d, unit) lop" where
  "ls_LoadLocked drv = bind (on_lock Lock) (\<lambda>_. deferred (on_lock (on_fst Unlock)) (ls_Load drv))"

definition empty_lstore :: "lockfile \<Rightarrow> lockfile option \<Rightarrow> path \<Rightarrow> path \<Rightarrow> idmaps \<Rightarrow> idmaps \<Rightarrow> layerStore" where
  "empty_lstore l ml rundir layerdir um gm =
     \<lparr>objs = [], items = [], idindex = \<lparr>trie = [], tids = {}\<rparr>, byid = Map.empty, byname = Map.empty,
      ls_lockfile = l, ls_mountsLockfile = ml, ls_rundir = rundir, ls_layerdir = layerdir,
      bymount = Map.empty, bycompressedsum = Map.empty, byuncompressedsum = Map.empty,
      ls_uidMap = um, ls_gidMap = gm, ls_layerspathModified = 0\<rparr>"

definition run_new :: "'d Driver \<Rightarrow> layerStore \<Rightarrow> ('d env, layerStore) go" where
  "run_new drv r e = (case ls_Load drv (r, e) of
       (Inl err, (_, e')) \<Rightarrow> (Inl err, e')
     | (Inr _, (r', e')) \<Rightarrow> (Inr r', e'))"

definition env_world :: "(world, 'a) go \<Rightarrow> ('d env, 'a) go" where
  "env_world m e = (let (x, w) = m (wld e) in (x, e\<lparr>wld := w\<rparr>))"

definition newLayerStore :: "idmaps \<Rightarrow> idmaps \<Rightarrow> 'd Driver \<Rightarrow> path \<Rightarrow> path \<Rightarrow> ('d env, layerStore) go" where
  "newLayerStore um gm drv rundir layerdir =
     bind (env_world (MkdirAll rundir)) (\<lambda>_.
     bind (env_world (MkdirAll layerdir)) (\<lambda>_.
     bind (env_world (createLockerForPath (layerdir @ [''layers.lock'']) False)) (\<lambda>l.
     bind (env_world (createLockerForPath (rundir @ [''mountpoints.lock'']) False)) (\<lambda>ml.
       run_new drv (empty_lstore l (Some ml) rundir layerdir (copyIDMap um) (copyIDMap gm))))))"

definition newROLayerStore :: "'d Driver \<Rightarrow> path \<Rightarrow> path \<Rightarrow> ('d env, layerStore) go" where
  "newROLayerStore drv rundir layerdir =
     bind (env_world (createLockerForPath (layerdir @ [''layers.lock'']) True)) (\<lambda>l.
       run_new drv (empty_lstore l None rundir layerdir None None))"

definition ls_Modified :: "('d, bool) lop" where
  "ls_Modified =
     bind (on_lock Modified) (\<lambda>lmodified s.
       (let rest = (\<lambda>mmodified.
              if lmodified \<or> mmodified then ret True
              else (\<lambda>s. case on_world (Stat (ls_layerspath (fst s))) s of
                     (Inl e, s1) \<Rightarrow> if e \<noteq> NotExist then (Inl e, s1) else (Inr False, s1)
                   | (Inr t, s1) \<Rightarrow> (Inr (t \<noteq> ls_layerspathModified (fst s1)),
                                     ((fst s1)\<lparr>ls_layerspathModified := t\<rparr>, snd s1))))
        in if ls_IsReadWrite (fst s) then with_mounts RLock (bind (on_mounts_lock Modified) rest) s
           else rest False s))"

definition ls_ReloadIfChanged :: "'d Driver \<Rightarrow> ('d, unit) lop" where
  "ls_ReloadIfChanged drv = bind ls_Modified (\<lambda>modified. if modified then ls_Load drv else ret ())"

section \<open>Queries and small updates\<close>

definition ls_Size :: "string \<Rightarrow> layerStore \<Rightarrow> gerr + int" where
  "ls_Size name r =
     (case ls_lookup r name of
        None \<Rightarrow> Inl ErrLayerUnknown
      | Some x \<Rightarrow> Inr (if l_UncompressedDigest (objs r ! x) \<noteq> [] then l_UncompressedSize (objs r ! x) else -1))"

text \<open>The shape of the setters: find the layer, change its record, save.\<close>

definition ls_update :: "string \<Rightarrow> (Layer \<Rightarrow> Layer) \<Rightarrow> ('d, unit) lop" where
  "ls_update ident f s =
     (if \<not> ls_IsReadWrite (fst s) then (Inl ErrStoreIsReadOnly, s)
      else case ls_lookup (fst s) ident of
        None \<Rightarrow> (Inl ErrLayerUnknown, s)
      | Some x \<Rightarrow> ls_Save (update_obj x f (fst s), snd s))"

definition ls_ClearFlag :: "string \<Rightarrow> string \<Rightarrow> ('d, unit) lop" where
  "ls_ClearFlag ident flag = ls_update ident (l_Flags_update (\<lambda>fl. fl(flag := None)))"

definition ls_SetFlag :: "string \<Rightarrow> string \<Rightarrow> ival \<Rightarrow> ('d, unit) lop" where
  "ls_SetFlag ident flag v = ls_update ident (l_Flags_update (\<lambda>fl. fl(flag \<mapsto> v)))"

definition ls_Status :: "'d Driver \<Rightarrow> 'd env \<Rightarrow> (string \<times> string) list" where
  "ls_Status drv e = drv_Status drv (dstate e)"

definition ls_Metadata :: "string \<Rightarrow> layerStore \<Rightarrow> gerr + string" where
  "ls_Metadata ident r =
     (case ls_lookup r ident of Some x \<Rightarrow> Inr (l_Metadata (objs r ! x)) | None \<Rightarrow> Inl ErrLayerUnknown)"

definition ls_SetMetadata :: "string \<Rightarrow> string \<Rightarrow> ('d, unit) lop" where
  "ls_SetMetadata ident metadata = ls_update ident (l_Metadata_update (\<lambda>_. metadata))"

definition ls_removeName :: "nat \<Rightarrow> string \<Rightarrow> layerStore \<Rightarrow> layerStore" where
  "ls_removeName x name = update_obj x (l_Names_update (\<lambda>ns. stringSliceWithoutValue ns name))"

definition ls_SetNames :: "string \<Rightarrow> string list \<Rightarrow> ('d, unit) lop" where
  "ls_SetNames ident names s =
     (if \<not> ls_IsReadWrite (fst s) then (Inl ErrStoreIsReadOnly, s)
      else case ls_lookup (fst s) ident of
        Some x \<Rightarrow> ls_Save (set_names l_Names l_Names_update (\<lambda>_ c. c) (dedupeNames names) x (fst s), snd s)
      | None \<Rightarrow> (Inl ErrLayerUnknown, s))"

definition ls_Lookup :: "string \<Rightarrow> layerStore \<Rightarrow> gerr + string" where
  "ls_Lookup name r =
     (case ls_lookup r name of Some x \<Rightarrow> Inr (l_ID (objs r ! x)) | None \<Rightarrow> Inl ErrLayerUnknown)"

definition ls_Exists :: "string \<Rightarrow> layerStore \<Rightarrow> bool" where
  "ls_Exists ident r = (ls_lookup r ident \<noteq> None)"

definition ls_Get :: "string \<Rightarrow> layerStore \<Rightarrow> gerr + Layer" where
  "ls_Get ident r =
     (case ls_lookup r ident of Some x \<Rightarrow> Inr (copyLayer (objs r ! x)) | None \<Rightarrow> Inl ErrLayerUnknown)"

section \<open>Big data\<close>

definition ls_BigData :: "string \<Rightarrow> string \<Rightarrow> ('d, bytes) lop" where
  "ls_BigData ident key s =
     (if key = [] then (Inl ErrInvalidBigDataName, s)
      else case ls_lookup (fst s) ident of
        None \<Rightarrow> (Inl ErrLayerUnknown, s)
      | Some x \<Rightarrow>
          bind (on_world (ReadFile (ls_datapath (fst s) (l_ID (objs (fst s) ! x)) key)))
            (\<lambda>c. ret (content_bytes c)) s)"

definition ls_SetBigData :: "string \<Rightarrow> string \<Rightarrow> bytes \<Rightarrow> ('d, unit) lop" where
  "ls_SetBigData ident key data s =
     (if key = [] then (Inl ErrInvalidBigDataName, s)
      else if \<not> ls_IsReadWrite (fst s) then (Inl ErrStoreIsReadOnly, s)
      else case ls_lookup (fst s) ident of
        None \<Rightarrow> (Inl ErrLayerUnknown, s)
      | Some x \<Rightarrow>
          let l = objs (fst s) ! x in
          bind (on_world (MkdirAll (ls_datadir (fst s) (l_ID l)))) (\<lambda>_.
          bind (on_world (AtomicWriteFile (ls_datapath (fst s) (l_ID l) key) (Bytes data))) (\<lambda>_.
            if key \<in> set (l_BigDataNames l) then ret ()
            else bind (on_layers (update_obj x (\<lambda>l. l\<lparr>l_BigDataNames := l_BigDataNames l @ [key]\<rparr>))) (\<lambda>_. ls_Save))) s)"

definition ls_BigDataNames :: "string \<Rightarrow> layerStore \<Rightarrow> gerr + string list" where
  "ls_BigDataNames ident r =
     (case ls_lookup r ident of None \<Rightarrow> Inl ErrImageUnknown | Some x \<Rightarrow> Inr (l_BigDataNames (objs r ! x)))"

section \<open>Mounting\<close>

definition ls_Mounted :: "string \<Rightarrow> ('d, int) lop" where
  "ls_Mounted ident s =
     (if \<not> ls_IsReadWrite (fst s) then (Inl ErrStoreIsReadOnly, s)
      else with_mounts RLock (bind ls_refresh_mounts (\<lambda>_ s.
        case ls_lookup (fst s) ident of
          None \<Rightarrow> (Inl ErrLayerUnknown, s)
        | Some x \<Rightarrow> (Inr (l_MountCount (objs (fst s) ! x)), s))) s)"

text \<open>The layer \<open>x\<close> is mounted at \<open>mp\<close>; \<open>old\<close> is where it was mounted before.\<close>

definition ls_mounted_at :: "nat \<Rightarrow> string \<Rightarrow> string \<Rightarrow> ('d, string) lop" where
  "ls_mounted_at x old mp =
     bind (on_layers (\<lambda>r.
       (update_obj x (\<lambda>l. l\<lparr>l_MountPoint := Clean mp, l_MountCount := l_MountCount l + 1\<rparr>) r)
         \<lparr>bymount := (if old \<noteq> [] then (bymount r)(old := None) else bymount r)(Clean mp \<mapsto> x)\<rparr>)) (\<lambda>_.
     bind ls_saveMounts (\<lambda>_. ret mp))"

text \<open>\<open>Mount\<close> hands the driver the identifier as the caller gave it.\<close>

definition ls_mount_layer :: "'d Driver \<Rightarrow> string \<Rightarrow> MountOpts \<Rightarrow> nat \<Rightarrow> ('d, string) lop" where
  "ls_mount_layer drv ident options x s =
     (let l = objs (fst s) ! x;
          opts = (if mo_MountLabel options = [] then options\<lparr>mo_MountLabel := l_MountLabel l\<rparr> else options)
      in if (mo_UidMaps opts \<noteq> None \<or> mo_GidMaps opts \<noteq> None) \<and> \<not> drv_SupportsShifting drv \<and>
            (mo_UidMaps opts \<noteq> l_UIDMap l \<or> mo_GidMaps opts \<noteq> l_GIDMap l)
         then (Inl (Errorf ''cannot mount layer: shifting not enabled''), s)
         else bind (on_driver (drv_Get drv ident opts))
                (\<lambda>mp. if mp = [] then ret mp else ls_mounted_at x (l_MountPoint l) mp) s)"

definition ls_mount_again :: "nat \<Rightarrow> string \<Rightarrow> ('d, string) lop" where
  "ls_mount_again x p =
     bind (on_layers (update_obj x (\<lambda>l. l\<lparr>l_MountCount := l_MountCount l + 1\<rparr>))) (\<lambda>_.
     bind ls_saveMounts (\<lambda>_. ret p))"

definition ls_mount_found :: "'d Driver \<Rightarrow> string \<Rightarrow> MountOpts \<Rightarrow> ('d, string) lop" where
  "ls_mount_found drv ident options s =
     (case ls_lookup (fst s) ident of
        None \<Rightarrow> (Inl ErrLayerUnknown, s)
      | Some x \<Rightarrow>
          (let l = objs (fst s) ! x in
           if l_MountCount l > 0
           then bind (on_driver (drv_Mounted drv (l_MountPoint l)))
                  (\<lambda>mounted. if mounted then ls_mount_again x (l_MountPoint l) else ls_mount_layer drv ident options x) s
           else ls_mount_layer drv ident options x s))"

definition ls_Mount :: "'d Driver \<Rightarrow> string \<Rightarrow> MountOpts \<Rightarrow> ('d, string) lop" where
  "ls_Mount drv ident options s =
     (if \<not> ls_IsReadWrite (fst s) \<and> ''ro'' \<notin> set (mo_Options options) then (Inl ErrStoreIsReadOnly, s)
      else with_mounts Lock (bind ls_refresh_mounts (\<lambda>_.
             deferred (on_mounts_lock Touch) (ls_mount_found drv ident options))) s)"

definition ls_find_mounted :: "layerStore \<Rightarrow> string \<Rightarrow> nat option" where
  "ls_find_mounted r ident =
     (case ls_lookup r ident of Some x \<Rightarrow> Some x | None \<Rightarrow> bymount r (Clean ident))"

definition ls_unmounted :: "nat \<Rightarrow> string \<Rightarrow> ('d, bool) lop" where
  "ls_unmounted x mp =
     bind (on_layers (\<lambda>r.
       (update_obj x (\<lambda>l. l\<lparr>l_MountCount := l_MountCount l - 1, l_MountPoint := []\<rparr>) r)
         \<lparr>bymount := (if mp \<noteq> [] then (bymount r)(mp := None) else bymount r)\<rparr>)) (\<lambda>_.
     bind ls_saveMounts (\<lambda>_. ret False))"

text \<open>\<open>Unmount\<close> once the layer is found; \<open>force\<close> has already reset the count.\<close>

definition ls_unmount_layer :: "'d Driver \<Rightarrow> string \<Rightarrow> nat \<Rightarrow> ('d, bool) lop" where
  "ls_unmount_layer drv ident x s =
     (let l = objs (fst s) ! x in
      if l_MountCount l > 1
      then bind (on_layers (update_obj x (\<lambda>l. l\<lparr>l_MountCount := l_MountCount l - 1\<rparr>))) (\<lambda>_.
           bind ls_saveMounts (\<lambda>_. ret True)) s
      else bind (attempt (on_driver (drv_Put drv ident))) (\<lambda>res.
             if res = Inr () \<or> res = Inl NotExist then ls_unmounted x (l_MountPoint l)
             else case res of Inl e \<Rightarrow> fail e | Inr _ \<Rightarrow> ret True) s)"

definition ls_unmount_found :: "'d Driver \<Rightarrow> string \<Rightarrow> bool \<Rightarrow> ('d, bool) lop" where
  "ls_unmount_found drv ident force s =
     (case ls_find_mounted (fst s) ident of
        None \<Rightarrow> (Inl ErrLayerUnknown, s)
      | Some x \<Rightarrow>
          bind (on_layers (update_obj x (\<lambda>l. if force then l\<lparr>l_MountCount := 1\<rparr> else l)))
            (\<lambda>_. ls_unmount_layer drv ident x) s)"

definition ls_Unmount :: "'d Driver \<Rightarrow> string \<Rightarrow> bool \<Rightarrow> ('d, bool) lop" where
  "ls_Unmount drv ident force s =
     (if \<not> ls_IsReadWrite (fst s) then (Inl ErrStoreIsReadOnly, s)
      else with_mounts Lock (bind ls_refresh_mounts (\<lambda>_.
             deferred (on_mounts_lock Touch) (ls_unmount_found drv ident force))) s)"

text \<open>
  \<open>ParentOwners\<close> climbs from the parent of the mount point to the root and notes the owners that
  the mappings of the layer do not know.  \<open>stat\<close> and \<open>lstat\<close> are the operating system's; the loop
  runs on fuel, and \<open>climb_owners\<close> without fuel is the loop that has not ended.
\<close>

definition unmapped :: "IDMappings \<Rightarrow> (int \<Rightarrow> IDPair) \<Rightarrow> int \<Rightarrow> int list \<Rightarrow> int list" where
  "unmapped m pair n ns = (case ToContainer m (pair n) of Inl _ \<Rightarrow> n # ns | Inr _ \<Rightarrow> ns)"

fun climb_owners :: "(string \<Rightarrow> gerr + (int \<times> int)) \<Rightarrow> (string \<Rightarrow> gerr + (int \<times> int)) \<Rightarrow> IDMappings \<Rightarrow> int \<Rightarrow> int \<Rightarrow>
    nat \<Rightarrow> string \<Rightarrow> int list \<times> int list \<Rightarrow> gerr + (int list \<times> int list)" where
  "climb_owners stat lstat m ru rg 0 dir acc = Inl (Blocked ''ParentOwners: the root is not reached'')"
| "climb_owners stat lstat m ru rg (Suc n) dir (us, gs) =
     (if dir = [] \<or> dir = ''/'' then Inr (us, gs)
      else case stat dir of
        Inl e \<Rightarrow> Inl e
      | Inr (u, g) \<Rightarrow>
          (case lstat dir of
             Inl e \<Rightarrow> Inl e
           | Inr (lu, lg) \<Rightarrow>
               climb_owners stat lstat m ru rg n (Dir dir)
                 (unmapped m (\<lambda>i. \<lparr>UID = i, GID = rg\<rparr>) lu (unmapped m (\<lambda>i. \<lparr>UID = i, GID = rg\<rparr>) u us),
                  unmapped m (\<lambda>i. \<lparr>UID = ru, GID = i\<rparr>) lg (unmapped m (\<lambda>i. \<lparr>UID = ru, GID = i\<rparr>) g gs))))"

definition parent_owners :: "(string \<Rightarrow> gerr + (int \<times> int)) \<Rightarrow> (string \<Rightarrow> gerr + (int \<times> int)) \<Rightarrow> Layer \<Rightarrow>
    gerr + (int list \<times> int list)" where
  "parent_owners stat lstat l =
     (if slice_of (l_UIDMap l) = [] \<and> slice_of (l_GIDMap l) = [] then Inr ([], [])
      else if l_MountPoint l = [] then Inl ErrLayerNotMounted
      else case GetRootUIDGID (l_UIDMap l) (l_GIDMap l) of
        (_, Some e) \<Rightarrow> Inl e
      | ((ru, rg), None) \<Rightarrow>
          map_sum id (\<lambda>(us, gs). (sort (remdups us), sort (remdups gs)))
            (climb_owners stat lstat (NewIDMappingsFromMaps (l_UIDMap l) (l_GIDMap l)) ru rg
               (Suc (length (l_MountPoint l))) (Dir (l_MountPoint l)) ([], [])))"

definition ls_ParentOwners :: "(string \<Rightarrow> gerr + (int \<times> int)) \<Rightarrow> (string \<Rightarrow> gerr + (int \<times> int)) \<Rightarrow> string \<Rightarrow>
    ('d, int list \<times> int list) lop" where
  "ls_ParentOwners stat lstat ident s =
     (if \<not> ls_IsReadWrite (fst s) then (Inl ErrStoreIsReadOnly, s)
      else with_mounts RLock (bind ls_refresh_mounts (\<lambda>_ s.
        case ls_lookup (fst s) ident of
          None \<Rightarrow> (Inl ErrLayerUnknown, s)
        | Some x \<Rightarrow> (parent_owners stat lstat (objs (fst s) ! x), s))) s)"

section \<open>Deleting\<close>

text \<open>
  \<open>Delete\<close> unmounts until the count is zero.  \<open>unmount_fuel\<close> bounds the number of rounds by all
  the counts in memory and on disk, because the first round may reload them.
\<close>

definition unmount_fuel :: "layerStore \<times> 'd env \<Rightarrow> nat" where
  "unmount_fuel s =
     Suc (sum_list (map (\<lambda>l. nat (l_MountCount l)) (item_list (fst s))) +
       (case fs (wld (snd s)) (ls_mountspath (fst s)) of
          Some (JMounts ms) \<Rightarrow> sum_list (map (\<lambda>m. nat (m_MountCount m)) ms)
        | _ \<Rightarrow> 0))"

fun ls_unmount_all :: "'d Driver \<Rightarrow> string \<Rightarrow> nat \<Rightarrow> int \<Rightarrow> ('d, unit) lop" where
  "ls_unmount_all drv ident 0 mountCount =
     (if mountCount > 0 then fail (Blocked ''Delete: still mounted'') else ret ())"
| "ls_unmount_all drv ident (Suc n) mountCount =
     (if mountCount > 0
      then bind (ls_Unmount drv ident False) (\<lambda>_. bind (ls_Mounted ident) (ls_unmount_all drv ident n))
      else ret ())"

definition ls_Delete :: "'d Driver \<Rightarrow> string \<Rightarrow> ('d, unit) lop" where
  "ls_Delete drv ident s =
     (case ls_lookup (fst s) ident of
        None \<Rightarrow> (Inl ErrLayerUnknown, s)
      | Some x \<Rightarrow>
          let k = l_ID (objs (fst s) ! x) in
          bind (ls_Mounted k) (\<lambda>mountCount.
          bind (ls_unmount_all drv k (unmount_fuel s) mountCount) (\<lambda>_.
          bind (ls_deleteInternal drv k) (\<lambda>_. ls_Save))) s)"

text \<open>\<open>Wipe\<close> deletes in the order in which the range over the map delivers the keys.\<close>

fun ls_delete_all :: "'d Driver \<Rightarrow> string list \<Rightarrow> ('d, unit) lop" where
  "ls_delete_all drv [] = ret ()"
| "ls_delete_all drv (k # ks) = bind (ls_Delete drv k) (\<lambda>_. ls_delete_all drv ks)"

definition ls_Wipe :: "'d Driver \<Rightarrow> string list \<Rightarrow> ('d, unit) lop" where
  "ls_Wipe drv ks s = (if \<not> ls_IsReadWrite (fst s) then (Inl ErrStoreIsReadOnly, s) else ls_delete_all drv ks s)"

section \<open>Differences\<close>

definition ls_findParentAndLayer :: "string \<Rightarrow> string \<Rightarrow> layerStore \<Rightarrow> gerr + (string \<times> Layer option \<times> Layer)" where
  "ls_findParentAndLayer from to r =
     (case ls_lookup r to of
        None \<Rightarrow> Inl ErrLayerUnknown
      | Some x \<Rightarrow>
          let toLayer = objs r ! x; from1 = (if from = [] then l_Parent toLayer else from) in
          if from1 = [] then Inr ([], None, toLayer)
          else case ls_lookup r from1 of
            Some y \<Rightarrow> Inr (l_ID (objs r ! y), Some (objs r ! y), toLayer)
          | None \<Rightarrow>
              (case ls_lookup r (l_Parent toLayer) of
                 Some y \<Rightarrow> Inr (l_ID (objs r ! y), Some (objs r ! y), toLayer)
               | None \<Rightarrow> Inr (from1, None, toLayer)))"

definition layerMappings :: "Layer option \<Rightarrow> IDMappings" where
  "layerMappings l = (case l of None \<Rightarrow> \<lparr>uids = None, gids = None\<rparr> | Some l \<Rightarrow> NewIDMappingsFromMaps (l_UIDMap l) (l_GIDMap l))"

definition ls_Changes :: "'d Driver \<Rightarrow> string \<Rightarrow> string \<Rightarrow> ('d, Change list) lop" where
  "ls_Changes drv from to s =
     (case ls_findParentAndLayer from to (fst s) of
        Inl _ \<Rightarrow> (Inl ErrLayerUnknown, s)
      | Inr (from', fromLayer, toLayer) \<Rightarrow>
          on_driver (drv_Changes drv (l_ID toLayer) (layerMappings (Some toLayer)) from'
            (layerMappings fromLayer) (l_MountLabel toLayer)) s)"

definition ls_DiffSize :: "'d Driver \<Rightarrow> string \<Rightarrow> string \<Rightarrow> ('d, int) lop" where
  "ls_DiffSize drv from to s =
     (case ls_findParentAndLayer from to (fst s) of
        Inl _ \<Rightarrow> (Inl ErrLayerUnknown, s)
      | Inr (from', fromLayer, toLayer) \<Rightarrow>
          on_driver (drv_DiffSize drv (l_ID toLayer) (layerMappings (Some toLayer)) from'
            (layerMappings fromLayer) (l_MountLabel toLayer)) s)"

definition sums :: "(digest \<rightharpoonup> string list) \<Rightarrow> digest \<Rightarrow> string list" where
  "sums m d = (case m d of None \<Rightarrow> [] | Some ks \<Rightarrow> ks)"

definition updateDigestMap :: "digest \<Rightarrow> digest \<Rightarrow> string \<Rightarrow> (digest \<rightharpoonup> string list) \<Rightarrow> digest \<rightharpoonup> string list" where
  "updateDigestMap oldvalue newvalue ident m =
     (let newList = filter (\<lambda>v. v \<noteq> ident) (sums m oldvalue);
          m1 = (if oldvalue = [] then m else m(oldvalue := (if newList \<noteq> [] then Some newList else None)))
      in if newvalue = [] then m1 else m1(newvalue \<mapsto> sums m1 newvalue @ [ident]))"

text \<open>The owners recorded for a layer: those of all headers that are not whiteouts, sorted.\<close>

definition logged_ids :: "(string \<times> nat \<times> nat \<Rightarrow> nat) \<Rightarrow> (string \<times> nat \<times> nat) list \<Rightarrow> nat list" where
  "logged_ids f hs = sort (remdups (map (\<lambda>h. f h mod 2 ^ 32) (filter (\<lambda>h. \<not> prefix ''.wh.'' (Base (fst h))) hs)))"

definition record_diff :: "nat \<Rightarrow> digest \<Rightarrow> int \<Rightarrow> digest \<Rightarrow> int \<Rightarrow> Compression \<Rightarrow> nat list \<Rightarrow> nat list \<Rightarrow> layerStore \<Rightarrow> layerStore" where
  "record_diff x cd csz ud usz cty us gs r =
     (let l = objs r ! x in
      (update_obj x (\<lambda>l. l\<lparr>l_CompressedDigest := cd, l_CompressedSize := csz, l_UncompressedDigest := ud,
           l_UncompressedSize := usz, l_CompressionType := cty, l_UIDs := us, l_GIDs := gs\<rparr>) r)
        \<lparr>bycompressedsum := updateDigestMap (l_CompressedDigest l) cd (l_ID l) (bycompressedsum r),
         byuncompressedsum := updateDigestMap (l_UncompressedDigest l) ud (l_ID l) (byuncompressedsum r)\<rparr>)"

text \<open>Whether a digest that the caller gave is used as it is.\<close>

definition known_digest :: "diffLib \<Rightarrow> digest \<Rightarrow> bytes \<Rightarrow> digest" where
  "known_digest dl d b = (if d \<noteq> [] \<and> dl_algorithm dl d = ''sha256'' then d else dl_canonical dl b)"

text \<open>
  \<open>applyDiffWithOptions\<close> on a stream \<open>diff\<close> that the first \<open>Read\<close> and the driver deliver to its end;
  the first \<open>Read\<close> is a system call that may fail.
\<close>

definition ls_applyDiffWithOptions :: "'d Driver \<Rightarrow> diffLib \<Rightarrow> string \<Rightarrow> LayerOptions option \<Rightarrow> bytes \<Rightarrow> ('d, int) lop" where
  "ls_applyDiffWithOptions drv dl to layerOptions diff s =
     (if \<not> ls_IsReadWrite (fst s) then (Inl ErrStoreIsReadOnly, s)
      else case ls_lookup (fst s) to of
        None \<Rightarrow> (Inl ErrLayerUnknown, s)
      | Some x \<Rightarrow>
          let l = objs (fst s) ! x; ts = ls_tspath (fst s) (l_ID l) in
          bind (on_world (\<lambda>w. case io_call w of (Some e, w') \<Rightarrow> (Inl e, w') | (None, w') \<Rightarrow> (Inr (), w'))) (\<lambda>_.
            case dl_decompress dl diff of
              Inl e \<Rightarrow> fail e
            | Inr tar \<Rightarrow>
                bind (on_driver (drv_ApplyDiff drv (l_ID l) (l_Parent l)
                  \<lparr>ao_Diff = tar, ao_Mappings = layerMappings (Some l), ao_MountLabel = l_MountLabel l\<rparr>)) (\<lambda>sz.
                bind (on_world (MkdirAll (butlast ts))) (\<lambda>_.
                bind (on_world (AtomicWriteFile ts (Bytes (dl_tarsplit dl tar)))) (\<lambda>_.
                bind (on_layers (record_diff x
                  (known_digest dl (case layerOptions of None \<Rightarrow> [] | Some lo \<Rightarrow> lo_OriginalDigest lo) diff) (int (length diff))
                  (known_digest dl (case layerOptions of None \<Rightarrow> [] | Some lo \<Rightarrow> lo_UncompressedDigest lo) tar) (int (length tar))
                  (DetectCompression (take 10240 diff))
                  (logged_ids (\<lambda>h. fst (snd h)) (dl_headers dl tar)) (logged_ids (\<lambda>h. snd (snd h)) (dl_headers dl tar)))) (\<lambda>_.
                bind ls_Save (\<lambda>_. ret sz)))))) s)"

definition ls_ApplyDiff :: "'d Driver \<Rightarrow> diffLib \<Rightarrow> string \<Rightarrow> bytes \<Rightarrow> ('d, int) lop" where
  "ls_ApplyDiff drv dl to diff = ls_applyDiffWithOptions drv dl to None diff"

section \<open>Creating\<close>

definition new_layer :: "string \<Rightarrow> string \<Rightarrow> string list \<Rightarrow> string \<Rightarrow> nat \<Rightarrow> flags \<Rightarrow> LayerOptions \<Rightarrow> Layer" where
  "new_layer ident parent names mountLabel now fl mo =
     \<lparr>l_ID = ident, l_Names = names, l_Parent = parent, l_Metadata = [], l_MountLabel = mountLabel,
      l_MountPoint = [], l_MountCount = 0, l_Created = now, l_CompressedDigest = [], l_CompressedSize = 0,
      l_UncompressedDigest = [], l_UncompressedSize = 0, l_CompressionType = Uncompressed, l_UIDs = [], l_GIDs = [],
      l_Flags = fl, l_UIDMap = copyIDMap (UIDMap (lo_IDMappingOptions mo)),
      l_GIDMap = copyIDMap (GIDMap (lo_IDMappingOptions mo)), l_ReadOnly = False, l_BigDataNames = []\<rparr>"

text \<open>\<open>r.Save()\<close>; if it fails, the driver's layer is removed.\<close>

definition ls_save_or_remove :: "'d Driver \<Rightarrow> string \<Rightarrow> ('d, unit) lop" where
  "ls_save_or_remove drv k =
     bind (attempt ls_Save) (\<lambda>res.
       case res of
         Inr _ \<Rightarrow> ret ()
       | Inl e \<Rightarrow> bind (ignoring (on_driver (drv_Remove drv k))) (\<lambda>_. fail e))"

definition ls_put_finish :: "'d Driver \<Rightarrow> string \<Rightarrow> nat \<Rightarrow> int \<Rightarrow> ('d, Layer \<times> int) lop" where
  "ls_put_finish drv k x sz =
     bind (ls_save_or_remove drv k) (\<lambda>_ s. (Inr (copyLayer (objs (fst s) ! x), sz), s))"

text \<open>The part of \<open>Put\<close> that records the layer, which the driver has created.\<close>

definition ls_put_record :: "'d Driver \<Rightarrow> diffLib \<Rightarrow> string \<Rightarrow> string \<Rightarrow> string list \<Rightarrow> string \<Rightarrow> LayerOptions \<Rightarrow> flags \<Rightarrow>
    bytes option \<Rightarrow> ('d, Layer \<times> int) lop" where
  "ls_put_record drv dl k parent names mountLabel mo flags diff s =
     (let x = length (objs (fst s));
          fl = (if diff = None then flags else flags(incompleteFlag \<mapsto> IBool True));
          l = new_layer k parent names mountLabel (clock (wld (snd s))) fl mo
      in bind (on_layers (insert_item k names l)) (\<lambda>_.
           case diff of
             None \<Rightarrow> ls_put_finish drv k x (-1)
           | Some b \<Rightarrow>
               bind (ls_save_or_remove drv k) (\<lambda>_.
               bind (attempt (ls_applyDiffWithOptions drv dl k (Some mo) b)) (\<lambda>res.
                 case res of
                   Inl e \<Rightarrow> bind (ignoring (ls_Delete drv k)) (\<lambda>_. fail e)
                 | Inr sz \<Rightarrow>
                     bind (on_layers (update_obj x (l_Flags_update (\<lambda>fl. fl(incompleteFlag := None))))) (\<lambda>_.
                       ls_put_finish drv k x sz)))) s)"

definition ls_driver_create :: "'d Driver \<Rightarrow> string \<Rightarrow> string \<Rightarrow> IDMappings \<Rightarrow> IDMappings \<Rightarrow> CreateOpts \<Rightarrow> LayerOptions \<Rightarrow> bool \<Rightarrow>
    ('d, unit) go" where
  "ls_driver_create drv k parent tm pm opts mo writeable =
     (if lo_TemplateLayer mo \<noteq> [] then drv_CreateFromTemplate drv k (lo_TemplateLayer mo) tm parent pm opts writeable
      else if writeable then drv_CreateReadWrite drv k parent opts
      else drv_Create drv k parent opts)"

text \<open>\<open>Put\<close> after the identifier is settled.\<close>

definition ls_put_new :: "'d Driver \<Rightarrow> diffLib \<Rightarrow> string \<Rightarrow> Layer option \<Rightarrow> string list \<Rightarrow> string \<Rightarrow> (string \<times> string) list \<Rightarrow>
    LayerOptions \<Rightarrow> bool \<Rightarrow> flags \<Rightarrow> bytes option \<Rightarrow> ('d, Layer \<times> int) lop" where
  "ls_put_new drv dl k parentLayer names0 mountLabel options mo writeable flags diff s =
     (if byid (fst s) k \<noteq> None then (Inl ErrDuplicateID, s)
      else let names = dedupeNames names0 in
           if list_ex (\<lambda>n. byname (fst s) n \<noteq> None) names then (Inl ErrDuplicateName, s)
           else if lo_TemplateLayer mo \<noteq> [] \<and> ls_lookup (fst s) (lo_TemplateLayer mo) = None then (Inl ErrLayerUnknown, s)
           else let parent = (case parentLayer of None \<Rightarrow> [] | Some p \<Rightarrow> l_ID p);
                    template = (if lo_TemplateLayer mo = [] then None
                                else map_option (\<lambda>x. objs (fst s) ! x) (ls_lookup (fst s) (lo_TemplateLayer mo)));
                    tm = layerMappings template;
                    pm = layerMappings parentLayer;
                    im = NewIDMappingsFromMaps (UIDMap (lo_IDMappingOptions mo)) (GIDMap (lo_IDMappingOptions mo));
                    opts = \<lparr>cr_MountLabel = mountLabel, cr_StorageOpt = options, cr_IDMappings = im\<rparr>;
                    oldMappings = (if lo_TemplateLayer mo \<noteq> [] then tm else pm)
                in bind (label_do (if mountLabel \<noteq> [] then [ReserveLabel mountLabel] else [])) (\<lambda>_.
                   bind (on_driver (ls_driver_create drv k parent tm pm opts mo writeable)) (\<lambda>_.
                   bind (if uids oldMappings \<noteq> uids im \<or> gids oldMappings \<noteq> gids im
                         then bind (attempt (on_driver (drv_UpdateLayerIDMap drv k oldMappings im mountLabel))) (\<lambda>res.
                                case res of
                                  Inr _ \<Rightarrow> ret ()
                                | Inl e \<Rightarrow> bind (ignoring (on_driver (drv_Remove drv k))) (\<lambda>_. fail e))
                         else ret ()) (\<lambda>_.
                     ls_put_record drv dl k parent names mountLabel mo flags diff))) s)"

definition ls_Put :: "'d Driver \<Rightarrow> diffLib \<Rightarrow> string \<Rightarrow> Layer option \<Rightarrow> string list \<Rightarrow> string \<Rightarrow> (string \<times> string) list \<Rightarrow>
    LayerOptions \<Rightarrow> bool \<Rightarrow> flags \<Rightarrow> bytes option \<Rightarrow> ('d, Layer \<times> int) lop" where
  "ls_Put drv dl ident parentLayer names mountLabel options mo writeable flags diff s =
     (if \<not> ls_IsReadWrite (fst s) then (Inl ErrStoreIsReadOnly, s)
      else bind (on_world (MkdirAll (ls_rundir (fst s)))) (\<lambda>_.
           bind (on_world (MkdirAll (ls_layerdir (fst s)))) (\<lambda>_.
           bind (on_world (pick_id (\<lambda>k. byid (fst s) k \<noteq> None) ident)) (\<lambda>k.
             ls_put_new drv dl k parentLayer names mountLabel options mo writeable flags diff))) s)"

definition ls_CreateWithFlags :: "'d Driver \<Rightarrow> diffLib \<Rightarrow> string \<Rightarrow> Layer option \<Rightarrow> string list \<Rightarrow> string \<Rightarrow>
    (string \<times> string) list \<Rightarrow> LayerOptions \<Rightarrow> bool \<Rightarrow> flags \<Rightarrow> ('d, Layer) lop" where
  "ls_CreateWithFlags drv dl ident parent names mountLabel options mo writeable flags =
     bind (ls_Put drv dl ident parent names mountLabel options mo writeable flags None) (\<lambda>(l, _). ret l)"

definition ls_Create :: "'d Driver \<Rightarrow> diffLib \<Rightarrow> string \<Rightarrow> Layer option \<Rightarrow> string list \<Rightarrow> string \<Rightarrow>
    (string \<times> string) list \<Rightarrow> LayerOptions \<Rightarrow> bool \<Rightarrow> ('d, Layer) lop" where
  "ls_Create drv dl ident parent names mountLabel options mo writeable =
     ls_CreateWithFlags drv dl ident parent names mountLabel options mo writeable Map.empty"

text \<open>
  \<open>PutAdditionalLayer\<close>; the additional layer is the record decoded from its \<open>Info\<close> and its
  \<open>CreateAs\<close>.
\<close>

record 'd AdditionalLayer =
  al_Info :: "gerr + Layer"
  al_CreateAs :: "string \<Rightarrow> string \<Rightarrow> ('d, unit) go"

text \<open>The bookkeeping: the uncompressed digest is entered under the compressed one.\<close>

definition enter_additional :: "string \<Rightarrow> string list \<Rightarrow> Layer \<Rightarrow> layerStore \<Rightarrow> layerStore" where
  "enter_additional ident names l r =
     (let enter = (\<lambda>m. m(l_CompressedDigest l \<mapsto> sums m (l_CompressedDigest l) @ [ident])) in
      (insert_item ident names l r)
        \<lparr>bycompressedsum := (if l_CompressedDigest l \<noteq> [] then enter (bycompressedsum r) else bycompressedsum r),
         byuncompressedsum := (if l_UncompressedDigest l \<noteq> [] then enter (byuncompressedsum r) else byuncompressedsum r)\<rparr>)"

definition ls_PutAdditionalLayer :: "'d Driver \<Rightarrow> string \<Rightarrow> Layer option \<Rightarrow> string list \<Rightarrow> 'd AdditionalLayer \<Rightarrow> ('d, Layer) lop" where
  "ls_PutAdditionalLayer drv ident parentLayer names aLayer s =
     (if byid (fst s) ident \<noteq> None then (Inl ErrDuplicateID, s)
      else if list_ex (\<lambda>n. byname (fst s) n \<noteq> None) names then (Inl ErrDuplicateName, s)
      else case al_Info aLayer of
        Inl e \<Rightarrow> (Inl e, s)
      | Inr info \<Rightarrow>
          let parent = (case parentLayer of None \<Rightarrow> [] | Some p \<Rightarrow> l_ID p);
              l = info\<lparr>l_ID := ident, l_Parent := parent, l_Created := clock (wld (snd s))\<rparr>
          in bind (on_driver (al_CreateAs aLayer ident parent)) (\<lambda>_.
             bind (on_layers (enter_additional ident names l)) (\<lambda>_.
             bind (ls_save_or_remove drv ident) (\<lambda>_. ret (copyLayer l)))) s)"

section \<open>The optional interface for partial pulls\<close>

definition ls_DifferTarget :: "'d Driver \<Rightarrow> string \<Rightarrow> ('d, string) lop" where
  "ls_DifferTarget drv ident s =
     (case drv_Differ drv of
        None \<Rightarrow> (Inl ErrNotSupported, s)
      | Some dd \<Rightarrow>
          (case ls_lookup (fst s) ident of
             None \<Rightarrow> (Inl ErrLayerUnknown, s)
           | Some x \<Rightarrow> on_driver (dd_DifferTarget dd (l_ID (objs (fst s) ! x))) s))"

fun ls_set_items :: "'d Driver \<Rightarrow> string \<Rightarrow> (string \<times> bytes) list \<Rightarrow> ('d, unit) lop" where
  "ls_set_items drv ident [] = ret ()"
| "ls_set_items drv ident ((k, v) # kvs) =
     bind (attempt (ls_SetBigData ident k v)) (\<lambda>res.
       case res of
         Inr _ \<Rightarrow> ls_set_items drv ident kvs
       | Inl e \<Rightarrow> bind (ignoring (ls_Delete drv ident)) (\<lambda>_. fail e))"

definition ls_ApplyDiffFromStagingDirectory :: "'d Driver \<Rightarrow> string \<Rightarrow> string \<Rightarrow> DriverWithDifferOutput \<Rightarrow>
    ApplyDiffOpts option \<Rightarrow> ('d, unit) lop" where
  "ls_ApplyDiffFromStagingDirectory drv ident stagingDirectory diffOutput options s =
     (case drv_Differ drv of
        None \<Rightarrow> (Inl ErrNotSupported, s)
      | Some dd \<Rightarrow>
          (case ls_lookup (fst s) ident of
             None \<Rightarrow> (Inl ErrLayerUnknown, s)
           | Some x \<Rightarrow>
               let l = objs (fst s) ! x;
                   opts = (case options of
                             Some o' \<Rightarrow> o'
                           | None \<Rightarrow> \<lparr>ao_Diff = [], ao_Mappings = layerMappings (Some l), ao_MountLabel = l_MountLabel l\<rparr>)
               in bind (on_driver (dd_ApplyDiffFromStagingDirectory dd (l_ID l) (l_Parent l) stagingDirectory diffOutput opts)) (\<lambda>_.
                  bind (on_layers (update_obj x (\<lambda>l. l\<lparr>l_UIDs := do_UIDs diffOutput, l_GIDs := do_GIDs diffOutput,
                    l_UncompressedDigest := do_UncompressedDigest diffOutput, l_UncompressedSize := do_Size diffOutput,
                    l_Metadata := do_Metadata diffOutput\<rparr>))) (\<lambda>_.
                  bind ls_Save (\<lambda>_. ls_set_items drv ident (do_BigData diffOutput)))) s))"

definition ls_ApplyDiffWithDiffer :: "'d Driver \<Rightarrow> string \<Rightarrow> ApplyDiffOpts option \<Rightarrow> Differ \<Rightarrow> ('d, DriverWithDifferOutput) lop" where
  "ls_ApplyDiffWithDiffer drv to options differ s =
     (case drv_Differ drv of
        None \<Rightarrow> (Inl ErrNotSupported, s)
      | Some dd \<Rightarrow>
          if to = [] then on_driver (dd_ApplyDiffWithDiffer dd [] [] options differ) s
          else case ls_lookup (fst s) to of
            None \<Rightarrow> (Inl ErrLayerUnknown, s)
          | Some x \<Rightarrow>
              let l = objs (fst s) ! x;
                  opts = (case options of
                            Some o' \<Rightarrow> o'
                          | None \<Rightarrow> \<lparr>ao_Diff = [], ao_Mappings = layerMappings (Some l), ao_MountLabel = l_MountLabel l\<rparr>)
              in bind (on_driver (dd_ApplyDiffWithDiffer dd (l_ID l) (l_Parent l) (Some opts) differ)) (\<lambda>output.
                 bind (on_layers (update_obj x (\<lambda>l. l\<lparr>l_UIDs := do_UIDs output, l_GIDs := do_GIDs output\<rparr>))) (\<lambda>_.
                 bind ls_Save (\<lambda>_. ret output))) s)"

definition ls_CleanupStagingDirectory :: "'d Driver \<Rightarrow> string \<Rightarrow> ('d, unit) lop" where
  "ls_CleanupStagingDirectory drv stagingDirectory s =
     (case drv_Differ drv of
        None \<Rightarrow> (Inl ErrNotSupported, s)
      | Some dd \<Rightarrow> on_driver (dd_CleanupStagingDirectory dd stagingDirectory) s)"

section \<open>Looking up by digest\<close>

fun layers_of :: "layerStore \<Rightarrow> string list \<Rightarrow> gerr + Layer list" where
  "layers_of r [] = Inr []"
| "layers_of r (k # ks) =
     (case ls_lookup r k of
        None \<Rightarrow> Inl ErrLayerUnknown
      | Some x \<Rightarrow> map_sum id (\<lambda>ls. copyLayer (objs r ! x) # ls) (layers_of r ks))"

definition layersByDigestMap :: "(digest \<rightharpoonup> string list) \<Rightarrow> digest \<Rightarrow> layerStore \<Rightarrow> gerr + Layer list" where
  "layersByDigestMap m d r = layers_of r (sums m d)"

definition ls_LayersByCompressedDigest :: "digest \<Rightarrow> layerStore \<Rightarrow> gerr + Layer list" where
  "ls_LayersByCompressedDigest d r = layersByDigestMap (bycompressedsum r) d r"

definition ls_LayersByUncompressedDigest :: "digest \<Rightarrow> layerStore \<Rightarrow> gerr + Layer list" where
  "ls_LayersByUncompressedDigest d r = layersByDigestMap (byuncompressedsum r) d r"

end
