(* ===== verification/DriverNew.thy ===== *)
theory DriverNew
  imports Layers
begin

text \<open>
  The registry of graph drivers and the choice of one: \<open>Register\<close>, \<open>GetDriver\<close> and \<open>New\<close> of
  \<^verbatim>\<open>drivers/driver.go\<close>, with the priorities of \<^verbatim>\<open>drivers/driver_linux.go\<close>.

  The registered drivers are an association list in the order in which a range over the map of the
  source delivers them; an initialisation function works on the environment and returns the driver.
  \<open>isdir\<close> tells whether the operating system's \<open>stat\<close> finds a directory.
\<close>

record DriverOptions =
  dopt_Root :: path
  dopt_RunRoot :: path
  dopt_DriverOptions :: "string list"
  dopt_UIDMaps :: idmaps
  dopt_GIDMaps :: idmaps
  dopt_ExperimentalEnabled :: bool

type_synonym 'd InitFunc = "path \<Rightarrow> DriverOptions \<Rightarrow> ('d env, 'd Driver) go"

type_synonym 'd registry = "(string \<times> 'd InitFunc) list"

definition drv_Register :: "string \<Rightarrow> 'd InitFunc \<Rightarrow> 'd registry \<Rightarrow> gerr + 'd registry" where
  "drv_Register name initFunc drivers =
     (if map_of drivers name \<noteq> None then Inl (Errorf ''Name already registered'')
      else Inr (drivers @ [(name, initFunc)]))"

definition drv_priority :: "string list" where
  "drv_priority = [''overlay'', ''aufs'', ''btrfs'', ''zfs'', ''vfs'']"

definition GetDriver :: "'d registry \<Rightarrow> string \<Rightarrow> DriverOptions \<Rightarrow> ('d env, 'd Driver) go" where
  "GetDriver drivers name config =
     (case map_of drivers name of
        Some initFunc \<Rightarrow> initFunc (join_name (dopt_Root config) name) config
      | None \<Rightarrow> fail DriverErrNotSupported)"

definition getBuiltinDriver :: "'d registry \<Rightarrow> string \<Rightarrow> path \<Rightarrow> DriverOptions \<Rightarrow> ('d env, 'd Driver) go" where
  "getBuiltinDriver drivers name home options =
     (case map_of drivers name of
        Some initFunc \<Rightarrow> initFunc (join_name home name) options
      | None \<Rightarrow> fail DriverErrNotSupported)"

definition isDriverNotSupported :: "gerr \<Rightarrow> bool" where
  "isDriverNotSupported e \<longleftrightarrow> e = DriverErrNotSupported \<or> e = ErrPrerequisites \<or> e = ErrIncompatibleFS"

definition scanPriorDrivers :: "(path \<Rightarrow> bool) \<Rightarrow> 'd registry \<Rightarrow> path \<Rightarrow> string list" where
  "scanPriorDrivers isdir drivers root =
     filter (\<lambda>d. isdir (join_name root d) \<and> d \<noteq> ''vfs'') (map fst drivers)"

text \<open>The loop over the priorities that looks for the state of an earlier driver.\<close>

fun prior_driver :: "'d registry \<Rightarrow> DriverOptions \<Rightarrow> string list \<Rightarrow> string list \<Rightarrow> ('d env, 'd Driver option) go" where
  "prior_driver drivers config found [] = ret None"
| "prior_driver drivers config found (name # names) =
     (if name = ''vfs'' \<or> name \<notin> set found then prior_driver drivers config found names
      else bind (getBuiltinDriver drivers name (dopt_Root config) config) (\<lambda>driver.
             if length found > 1 then fail (Errorf ''several valid graphdrivers'') else ret (Some driver)))"

text \<open>The two loops that take the first driver that is supported.\<close>

fun first_supported :: "('d env, 'd Driver) go list \<Rightarrow> ('d env, 'd Driver option) go" where
  "first_supported [] = ret None"
| "first_supported (m # ms) =
     bind (attempt m) (\<lambda>res.
       case res of
         Inr driver \<Rightarrow> ret (Some driver)
       | Inl e \<Rightarrow> if isDriverNotSupported e then first_supported ms else fail e)"

definition drv_New :: "(path \<Rightarrow> bool) \<Rightarrow> 'd registry \<Rightarrow> string \<Rightarrow> DriverOptions \<Rightarrow> ('d env, 'd Driver) go" where
  "drv_New isdir drivers name config =
     (if name \<noteq> [] then GetDriver drivers name config
      else bind (prior_driver drivers config (scanPriorDrivers isdir drivers (dopt_Root config)) drv_priority) (\<lambda>r1.
        case r1 of
          Some driver \<Rightarrow> ret driver
        | None \<Rightarrow>
            bind (first_supported (map (\<lambda>n. getBuiltinDriver drivers n (dopt_Root config) config) drv_priority)) (\<lambda>r2.
              case r2 of
                Some driver \<Rightarrow> ret driver
              | None \<Rightarrow>
                  bind (first_supported (map (\<lambda>(n, initFunc). initFunc (join_name (dopt_Root config) n) config) drivers)) (\<lambda>r3.
                    case r3 of
                      Some driver \<Rightarrow> ret driver
                    | None \<Rightarrow> fail (Errorf ''No supported storage backend found'')))))"

end
