(* ===== verification/Images.thy ===== *)
theory Images
  imports ItemStore BigData Lockfile
begin

text \<open>
  The image store: \<^verbatim>\<open>images.go\<close>.

  The operations keep the source's names under the prefix \<open>is_\<close>.  Two functions of the vendored
  digest package are parameters: \<open>validate\<close> is \<open>Digest.Validate\<close> (\<open>None\<close>: valid) and \<open>fromBytes\<close>
  is \<open>digest.Canonical.FromBytes\<close>.
\<close>

record imageStore = "Image itemStore" +
  is_lockfile :: lockfile
  is_dir :: path
  bydigest :: "digest \<rightharpoonup> nat list"

section \<open>The record\<close>

text \<open>\<open>copyImage\<close> copies every field; the copies of slices and maps are equal to their originals.\<close>

definition copyImage :: "Image \<Rightarrow> Image" where
  "copyImage i = i"

definition bigDataNameIsManifest :: "string \<Rightarrow> bool" where
  "bigDataNameIsManifest name = prefix ''manifest'' name"

fun digest_loop :: "(digest \<Rightarrow> gerr option) \<Rightarrow> (string \<times> digest) list \<Rightarrow> digest list \<Rightarrow> gerr + digest list" where
  "digest_loop validate [] ds = Inr ds"
| "digest_loop validate ((name, d) # rest) ds =
     (if \<not> bigDataNameIsManifest name then digest_loop validate rest ds
      else case validate d of
        Some e \<Rightarrow> Inl e
      | None \<Rightarrow> digest_loop validate rest (if d \<in> set ds then ds else ds @ [d]))"

definition valid_digests :: "(digest \<Rightarrow> gerr option) \<Rightarrow> digest \<Rightarrow> (string \<times> digest) list \<Rightarrow> gerr + digest list" where
  "valid_digests validate d bdd =
     (if d = [] then digest_loop validate bdd []
      else case validate d of Some e \<Rightarrow> Inl e | None \<Rightarrow> digest_loop validate bdd [d])"

definition recomputeDigests :: "(digest \<Rightarrow> gerr option) \<Rightarrow> Image \<Rightarrow> gerr + Image" where
  "recomputeDigests validate i =
     (case valid_digests validate (i_Digest i) (i_BigDataDigests i) of
        Inl e \<Rightarrow> Inl e
      | Inr ds \<Rightarrow>
          Inr (i\<lparr>i_Digest := (if i_Digest i = [] \<and> ds \<noteq> [] then hd ds else i_Digest i), i_Digests := ds\<rparr>))"

definition addNameToHistory :: "string \<Rightarrow> Image \<Rightarrow> Image" where
  "addNameToHistory name i = i\<lparr>i_NamesHistory := dedupeNames (name # i_NamesHistory i)\<rparr>"

section \<open>The index by digest\<close>

definition images_with :: "(digest \<rightharpoonup> nat list) \<Rightarrow> digest \<Rightarrow> nat list" where
  "images_with bd d = (case bd d of None \<Rightarrow> [] | Some l \<Rightarrow> l)"

fun add_digests :: "nat \<Rightarrow> digest list \<Rightarrow> (digest \<rightharpoonup> nat list) \<Rightarrow> digest \<rightharpoonup> nat list" where
  "add_digests x [] bd = bd"
| "add_digests x (d # ds) bd = add_digests x ds (bd(d \<mapsto> images_with bd d @ [x]))"

definition imageSliceWithoutValue :: "nat list \<Rightarrow> nat \<Rightarrow> nat list" where
  "imageSliceWithoutValue slice value = filter (\<lambda>v. v \<noteq> value) slice"

text \<open>The loop of \<open>Delete\<close>: a list that becomes empty, or is missing, loses its key.\<close>

fun prune_digests :: "nat \<Rightarrow> digest list \<Rightarrow> (digest \<rightharpoonup> nat list) \<Rightarrow> digest \<rightharpoonup> nat list" where
  "prune_digests x [] bd = bd"
| "prune_digests x (d # ds) bd =
     (let prunedList = imageSliceWithoutValue (images_with bd d) x
      in prune_digests x ds (if prunedList = [] then bd(d := None) else bd(d \<mapsto> prunedList)))"

text \<open>The loop of \<open>SetBigData\<close> that enters the image where it is not yet listed.\<close>

fun enter_digests :: "nat \<Rightarrow> digest list \<Rightarrow> (digest \<rightharpoonup> nat list) \<Rightarrow> digest \<rightharpoonup> nat list" where
  "enter_digests x [] bd = bd"
| "enter_digests x (d # ds) bd =
     (let l = images_with bd d
      in enter_digests x ds
           (if length l = length (imageSliceWithoutValue l x) then bd(d \<mapsto> l @ [x]) else bd))"

section \<open>Files\<close>

definition is_imagespath :: "imageStore \<Rightarrow> path" where
  "is_imagespath r = is_dir r @ [''images.json'']"

definition is_datadir :: "imageStore \<Rightarrow> string \<Rightarrow> path" where
  "is_datadir r ident = join_name (is_dir r) ident"

definition is_datapath :: "imageStore \<Rightarrow> string \<Rightarrow> string \<Rightarrow> path" where
  "is_datapath r ident key = join_name (is_datadir r ident) (makeBigDataBaseName key)"

definition is_Images :: "imageStore \<Rightarrow> Image list" where
  "is_Images r = map copyImage (item_list r)"

definition is_Save :: "(imageStore \<times> world, unit) go" where
  "is_Save s =
     (let r = fst s in
      if \<not> IsReadWrite (is_lockfile r) then (Inl ErrStoreIsReadOnly, s)
      else if \<not> Locked (is_lockfile r) then (Inl (Errorf ''image store is not locked for writing''), s)
      else case save_file (is_imagespath r) (JImages (map json_Image (item_list r)))
                  (is_lockfile r, snd s) of
        (res, (l, w)) \<Rightarrow> (res, (r\<lparr>is_lockfile := l\<rparr>, w)))"

definition decode_images :: "content \<Rightarrow> Image list" where
  "decode_images c = (case c of JImages is \<Rightarrow> is | _ \<Rightarrow> [])"

text \<open>
  \<open>Load\<close>: for every image, names held by an earlier image are taken from it, the digests are
  recomputed, then the names and digests are entered.  An invalid digest ends the loop with an
  error before the store is changed.
\<close>

fun drop_conflicts :: "((string list \<Rightarrow> string list) \<Rightarrow> 'a \<Rightarrow> 'a) \<Rightarrow> (string \<rightharpoonup> nat) \<Rightarrow> string list \<Rightarrow>
    'a list \<times> bool \<Rightarrow> 'a list \<times> bool" where
  "drop_conflicts upd bn [] s = s"
| "drop_conflicts upd bn (n # ns) (os, b) =
     (case bn n of
        Some y \<Rightarrow> drop_conflicts upd bn ns (os[y := upd (\<lambda>s. stringSliceWithoutValue s n) (os ! y)], True)
      | None \<Rightarrow> drop_conflicts upd bn ns (os, b))"

type_synonym is_index = "Image list \<times> (string \<rightharpoonup> nat) \<times> (string \<rightharpoonup> nat) \<times> (digest \<rightharpoonup> nat list) \<times> bool"

fun is_load_loop :: "(digest \<Rightarrow> gerr option) \<Rightarrow> bool \<Rightarrow> nat list \<Rightarrow> is_index \<Rightarrow> gerr + is_index" where
  "is_load_loop validate isro [] s = Inr s"
| "is_load_loop validate isro (x # xs) (os, bi, bn, bd, b) =
     (let (os1, b1) = drop_conflicts i_Names_update bn (i_Names (os ! x)) (os, b) in
      case recomputeDigests validate (os1 ! x) of
        Inl e \<Rightarrow> Inl e
      | Inr i \<Rightarrow>
          is_load_loop validate isro xs
            (os1[x := i\<lparr>i_ReadOnly := isro\<rparr>], bi(i_ID i \<mapsto> x), add_names x (i_Names i) bn,
             add_digests x (i_Digests i) bd, b1))"

definition is_load_data :: "(digest \<Rightarrow> gerr option) \<Rightarrow> Image list \<Rightarrow> (imageStore \<times> world, unit) go" where
  "is_load_data validate is s =
     (let r = fst s; rw = IsReadWrite (is_lockfile r) in
      case is_load_loop validate (\<not> rw) [0..<length is] (is, Map.empty, Map.empty, Map.empty, False) of
        Inl e \<Rightarrow> (Inl e, s)
      | Inr (os, bi, bn, bd, shouldSave) \<Rightarrow>
          if shouldSave \<and> (\<not> rw \<or> \<not> Locked (is_lockfile r)) then (Inl ErrDuplicateImageNames, s)
          else let s' = (r\<lparr>objs := os, items := [0..<length is], idindex := NewTruncIndex (map i_ID is),
                           byid := bi, byname := bn, bydigest := bd\<rparr>, snd s)
               in if shouldSave then is_Save s' else (Inr (), s'))"

definition is_Load :: "(digest \<Rightarrow> gerr option) \<Rightarrow> (imageStore \<times> world, unit) go" where
  "is_Load validate s =
     (case ReadFile (is_imagespath (fst s)) (snd s) of
        (Inl e, w) \<Rightarrow> if e \<noteq> NotExist then (Inl e, (fst s, w)) else is_load_data validate [] (fst s, w)
      | (Inr c, w) \<Rightarrow> is_load_data validate (decode_images c) (fst s, w))"

definition empty_istore :: "lockfile \<Rightarrow> path \<Rightarrow> imageStore" where
  "empty_istore l dir =
     \<lparr>objs = [], items = [], idindex = \<lparr>trie = [], tids = {}\<rparr>, byid = Map.empty, byname = Map.empty,
      is_lockfile = l, is_dir = dir, bydigest = Map.empty\<rparr>"

text \<open>The constructors; \<open>isro\<close> distinguishes \<open>newROImageStore\<close> from \<open>newImageStore\<close>.\<close>

definition open_istore :: "(digest \<Rightarrow> gerr option) \<Rightarrow> bool \<Rightarrow> path \<Rightarrow> (world, imageStore) go" where
  "open_istore validate isro dir w =
     (case createLockerForPath (dir @ [''images.lock'']) isro w of
        (Inl e, w2) \<Rightarrow> (Inl e, w2)
      | (Inr l, w2) \<Rightarrow>
          (case (if isro then RLock (l, w2) else Lock (l, w2)) of
             (Inl e, (_, w3)) \<Rightarrow> (Inl e, w3)
           | (Inr _, (l3, w3)) \<Rightarrow>
               (case is_Load validate (empty_istore l3 dir, w3) of
                  (res, (r, w4)) \<Rightarrow>
                    (case Unlock (is_lockfile r) of
                       (Inl e, _) \<Rightarrow> (Inl e, w4)
                     | (Inr _, l5) \<Rightarrow>
                         (case res of
                            Inl e \<Rightarrow> (Inl e, w4)
                          | Inr _ \<Rightarrow> (Inr (r\<lparr>is_lockfile := l5\<rparr>), w4))))))"

definition newImageStore :: "(digest \<Rightarrow> gerr option) \<Rightarrow> path \<Rightarrow> (world, imageStore) go" where
  "newImageStore validate dir w =
     (case MkdirAll dir w of (Inl e, w1) \<Rightarrow> (Inl e, w1) | (Inr _, w1) \<Rightarrow> open_istore validate False dir w1)"

definition newROImageStore :: "(digest \<Rightarrow> gerr option) \<Rightarrow> path \<Rightarrow> (world, imageStore) go" where
  "newROImageStore validate dir w = open_istore validate True dir w"

definition is_ReloadIfChanged :: "(digest \<Rightarrow> gerr option) \<Rightarrow> (imageStore \<times> world, unit) go" where
  "is_ReloadIfChanged validate s =
     (case Modified (is_lockfile (fst s), snd s) of
        (Inl e, (l, w)) \<Rightarrow> (Inl e, ((fst s)\<lparr>is_lockfile := l\<rparr>, w))
      | (Inr modified, (l, w)) \<Rightarrow>
          (let s' = ((fst s)\<lparr>is_lockfile := l\<rparr>, w)
           in if modified then is_Load validate s' else (Inr (), s')))"

section \<open>Operations on one image\<close>

definition is_lookup :: "imageStore \<Rightarrow> string \<Rightarrow> nat option" where
  "is_lookup r ident =
     (case byid r ident of
        Some x \<Rightarrow> Some x
      | None \<Rightarrow>
          (case byname r ident of
             Some x \<Rightarrow> Some x
           | None \<Rightarrow> (case ti_Get (idindex r) ident of Inr longid \<Rightarrow> byid r longid | Inl _ \<Rightarrow> None)))"

definition is_ClearFlag :: "string \<Rightarrow> string \<Rightarrow> (imageStore \<times> world, unit) go" where
  "is_ClearFlag ident flag s =
     (if \<not> IsReadWrite (is_lockfile (fst s)) then (Inl ErrStoreIsReadOnly, s)
      else case is_lookup (fst s) ident of
        None \<Rightarrow> (Inl ErrImageUnknown, s)
      | Some x \<Rightarrow> is_Save (update_obj x (i_Flags_update (\<lambda>fl. fl(flag := None))) (fst s), snd s))"

definition is_SetFlag :: "string \<Rightarrow> string \<Rightarrow> ival \<Rightarrow> (imageStore \<times> world, unit) go" where
  "is_SetFlag ident flag v s =
     (if \<not> IsReadWrite (is_lockfile (fst s)) then (Inl ErrStoreIsReadOnly, s)
      else case is_lookup (fst s) ident of
        None \<Rightarrow> (Inl ErrImageUnknown, s)
      | Some x \<Rightarrow> is_Save (update_obj x (i_Flags_update (\<lambda>fl. fl(flag \<mapsto> v))) (fst s), snd s))"

definition new_image :: "string \<Rightarrow> string list \<Rightarrow> string \<Rightarrow> string \<Rightarrow> nat \<Rightarrow> digest \<Rightarrow> Image" where
  "new_image ident names layer metadata created searchableDigest =
     \<lparr>i_ID = ident, i_Digest = searchableDigest, i_Digests = [], i_Names = names, i_NamesHistory = [],
      i_TopLayer = layer, i_MappedTopLayers = [], i_Metadata = metadata, i_BigDataNames = [],
      i_BigDataSizes = [], i_BigDataDigests = [], i_Created = created, i_ReadOnly = False, i_Flags = Map.empty\<rparr>"

text \<open>
  \<open>Create\<close> assigns the result of \<open>Save\<close> to a variable \<open>err\<close> of an inner scope and returns the
  outer one, which is nil: a failed save is not reported.
\<close>

definition is_Create :: "(digest \<Rightarrow> gerr option) \<Rightarrow> string \<Rightarrow> string list \<Rightarrow> string \<Rightarrow> string \<Rightarrow> nat \<Rightarrow> digest \<Rightarrow>
    (imageStore \<times> world, Image) go" where
  "is_Create validate ident names layer metadata created searchableDigest s =
     (let r = fst s in
      if \<not> IsReadWrite (is_lockfile r) then (Inl ErrStoreIsReadOnly, s)
      else case pick_id (\<lambda>k. byid r k \<noteq> None) ident (snd s) of
        (Inl e, w) \<Rightarrow> (Inl e, (r, w))
      | (Inr k, w) \<Rightarrow>
          if byid r k \<noteq> None then (Inl ErrDuplicateID, (r, w))
          else let ns = dedupeNames names in
            if list_ex (\<lambda>n. byname r n \<noteq> None) ns then (Inl ErrDuplicateName, (r, w))
            else let created' = (if created = 0 then clock w else created) in
              case recomputeDigests validate (new_image k ns layer metadata created' searchableDigest) of
                Inl e \<Rightarrow> (Inl e, (r, w))
              | Inr i \<Rightarrow>
                  let r1 = (insert_item k ns i r)\<lparr>bydigest := add_digests (length (objs r)) (i_Digests i) (bydigest r)\<rparr>
                  in (case is_Save (r1, w) of
                        (Inl (Panic m), s') \<Rightarrow> (Inl (Panic m), s')
                      | (_, s') \<Rightarrow> (Inr (copyImage i), s')))"

definition is_addMappedTopLayer :: "string \<Rightarrow> string \<Rightarrow> (imageStore \<times> world, unit) go" where
  "is_addMappedTopLayer ident layer s =
     (case is_lookup (fst s) ident of
        Some x \<Rightarrow> is_Save (update_obj x (i_MappedTopLayers_update (\<lambda>ls. ls @ [layer])) (fst s), snd s)
      | None \<Rightarrow> (Inl ErrImageUnknown, s))"

text \<open>\<open>strings.EqualFold\<close> on ASCII strings and \<open>stringutils.RemoveFromSlice\<close>.\<close>

definition lower :: "char \<Rightarrow> char" where
  "lower c = (if 65 \<le> (of_char c :: nat) \<and> (of_char c :: nat) \<le> 90 then char_of (of_char c + 32 :: nat) else c)"

definition EqualFold :: "string \<Rightarrow> string \<Rightarrow> bool" where
  "EqualFold s t \<longleftrightarrow> map lower s = map lower t"

definition RemoveFromSlice :: "string list \<Rightarrow> string \<Rightarrow> string list" where
  "RemoveFromSlice slice s = filter (\<lambda>ss. \<not> EqualFold s ss) slice"

definition is_removeMappedTopLayer :: "string \<Rightarrow> string \<Rightarrow> (imageStore \<times> world, unit) go" where
  "is_removeMappedTopLayer ident layer s =
     (case is_lookup (fst s) ident of
        Some x \<Rightarrow>
          let old = i_MappedTopLayers (objs (fst s) ! x); new = RemoveFromSlice old layer;
              s' = (update_obj x (i_MappedTopLayers_update (\<lambda>_. new)) (fst s), snd s)
          in if length old = length new then (Inr (), s') else is_Save s'
      | None \<Rightarrow> (Inl ErrImageUnknown, s))"

definition is_Metadata :: "string \<Rightarrow> imageStore \<Rightarrow> gerr + string" where
  "is_Metadata ident r =
     (case is_lookup r ident of Some x \<Rightarrow> Inr (i_Metadata (objs r ! x)) | None \<Rightarrow> Inl ErrImageUnknown)"

definition is_SetMetadata :: "string \<Rightarrow> string \<Rightarrow> (imageStore \<times> world, unit) go" where
  "is_SetMetadata ident metadata s =
     (if \<not> IsReadWrite (is_lockfile (fst s)) then (Inl ErrStoreIsReadOnly, s)
      else case is_lookup (fst s) ident of
        Some x \<Rightarrow> is_Save (update_obj x (i_Metadata_update (\<lambda>_. metadata)) (fst s), snd s)
      | None \<Rightarrow> (Inl ErrImageUnknown, s))"

definition is_SetNames :: "string \<Rightarrow> string list \<Rightarrow> (imageStore \<times> world, unit) go" where
  "is_SetNames ident names s =
     (if \<not> IsReadWrite (is_lockfile (fst s)) then (Inl ErrStoreIsReadOnly, s)
      else case is_lookup (fst s) ident of
        Some x \<Rightarrow> is_Save (set_names i_Names i_Names_update addNameToHistory (dedupeNames names) x (fst s), snd s)
      | None \<Rightarrow> (Inl ErrImageUnknown, s))"

text \<open>The search loop of \<open>Delete\<close> does not stop at the first match: the last one counts.\<close>

fun find_last :: "('a \<Rightarrow> bool) \<Rightarrow> nat \<Rightarrow> 'a list \<Rightarrow> nat option \<Rightarrow> nat option" where
  "find_last P i [] found = found"
| "find_last P i (x # xs) found = find_last P (Suc i) xs (if P x then Some i else found)"

definition is_Delete :: "string \<Rightarrow> (imageStore \<times> world, unit) go" where
  "is_Delete ident s =
     (let r = fst s in
      if \<not> IsReadWrite (is_lockfile r) then (Inl ErrStoreIsReadOnly, s)
      else case is_lookup r ident of
        None \<Rightarrow> (Inl ErrImageUnknown, s)
      | Some x \<Rightarrow>
          let i = objs r ! x;
              toDeleteIndex = find_last (\<lambda>y. i_ID (objs r ! y) = i_ID i) 0 (items r) None;
              r1 = (remove_item (i_ID i) (i_Names i) toDeleteIndex r)
                     \<lparr>bydigest := prune_digests x (i_Digests i) (bydigest r)\<rparr>
          in (case is_Save (r1, snd s) of
                (Inl e, s') \<Rightarrow> (Inl e, s')
              | (Inr _, (r2, w2)) \<Rightarrow>
                  (case RemoveAll (is_datadir r2 (i_ID i)) w2 of (res, w3) \<Rightarrow> (res, (r2, w3)))))"

definition is_Get :: "string \<Rightarrow> imageStore \<Rightarrow> gerr + Image" where
  "is_Get ident r =
     (case is_lookup r ident of Some x \<Rightarrow> Inr (copyImage (objs r ! x)) | None \<Rightarrow> Inl ErrImageUnknown)"

definition is_Lookup :: "string \<Rightarrow> imageStore \<Rightarrow> gerr + string" where
  "is_Lookup name r =
     (case is_lookup r name of Some x \<Rightarrow> Inr (i_ID (objs r ! x)) | None \<Rightarrow> Inl ErrImageUnknown)"

definition is_Exists :: "string \<Rightarrow> imageStore \<Rightarrow> bool" where
  "is_Exists ident r = (is_lookup r ident \<noteq> None)"

definition is_ByDigest :: "digest \<Rightarrow> imageStore \<Rightarrow> gerr + Image list" where
  "is_ByDigest d r =
     (case bydigest r d of
        Some l \<Rightarrow> Inr (map (\<lambda>x. copyImage (objs r ! x)) l)
      | None \<Rightarrow> Inl ErrImageUnknown)"

section \<open>Big data\<close>

definition is_BigData :: "string \<Rightarrow> string \<Rightarrow> (imageStore \<times> world, bytes) go" where
  "is_BigData ident key s =
     (if key = [] then (Inl ErrInvalidBigDataName, s)
      else case is_lookup (fst s) ident of
        None \<Rightarrow> (Inl ErrImageUnknown, s)
      | Some x \<Rightarrow>
          (case ReadFile (is_datapath (fst s) (i_ID (objs (fst s) ! x)) key) (snd s) of
             (Inl e, w) \<Rightarrow> (Inl e, (fst s, w))
           | (Inr c, w) \<Rightarrow> (Inr (content_bytes c), (fst s, w))))"

definition is_BigDataSize :: "string \<Rightarrow> string \<Rightarrow> (imageStore \<times> world, int) go" where
  "is_BigDataSize ident key s =
     (if key = [] then (Inl ErrInvalidBigDataName, s)
      else case is_lookup (fst s) ident of
        None \<Rightarrow> (Inl ErrImageUnknown, s)
      | Some x \<Rightarrow>
          (case map_of (i_BigDataSizes (objs (fst s) ! x)) key of
             Some sz \<Rightarrow> (Inr sz, s)
           | None \<Rightarrow>
               (case is_BigData ident key s of
                  (Inr data, s') \<Rightarrow> (Inr (int (length data)), s')
                | (Inl _, s') \<Rightarrow> (Inl ErrSizeUnknown, s'))))"

definition is_BigDataDigest :: "string \<Rightarrow> string \<Rightarrow> imageStore \<Rightarrow> gerr + digest" where
  "is_BigDataDigest ident key r =
     (if key = [] then Inl ErrInvalidBigDataName
      else case is_lookup r ident of
        None \<Rightarrow> Inl ErrImageUnknown
      | Some x \<Rightarrow>
          (case map_of (i_BigDataDigests (objs r ! x)) key of Some d \<Rightarrow> Inr d | None \<Rightarrow> Inl ErrDigestUnknown))"

definition is_BigDataNames :: "string \<Rightarrow> imageStore \<Rightarrow> gerr + string list" where
  "is_BigDataNames ident r =
     (case is_lookup r ident of Some x \<Rightarrow> Inr (i_BigDataNames (objs r ! x)) | None \<Rightarrow> Inl ErrImageUnknown)"

definition i_record_big_data :: "string \<Rightarrow> int \<Rightarrow> digest \<Rightarrow> Image \<Rightarrow> bool \<times> Image" where
  "i_record_big_data key sz d i =
     (let (save, names, sizes, digests) =
            record_big_data key sz d (i_BigDataNames i, i_BigDataSizes i, i_BigDataDigests i)
      in (save, i\<lparr>i_BigDataNames := names, i_BigDataSizes := sizes, i_BigDataDigests := digests\<rparr>))"

text \<open>The loop of \<open>SetBigData\<close> that takes the image out of the lists of its old digests.\<close>

fun leave_digests :: "nat \<Rightarrow> digest list \<Rightarrow> (digest \<rightharpoonup> nat list) \<Rightarrow> digest \<rightharpoonup> nat list" where
  "leave_digests x [] bd = bd"
| "leave_digests x (d # ds) bd =
     (case bd d of
        None \<Rightarrow> leave_digests x ds bd
      | Some l \<Rightarrow>
          let prunedList = imageSliceWithoutValue l x
          in leave_digests x ds (if prunedList = [] then bd(d := None) else bd(d \<mapsto> prunedList)))"

text \<open>\<open>digestManifest\<close> is the caller's function, possibly nil.\<close>

definition item_digest :: "(bytes \<Rightarrow> digest) \<Rightarrow> (bytes \<Rightarrow> gerr + digest) option \<Rightarrow> string \<Rightarrow> bytes \<Rightarrow> gerr + digest" where
  "item_digest fromBytes digestManifest key data =
     (if bigDataNameIsManifest key
      then (case digestManifest of None \<Rightarrow> Inl ErrDigestUnknown | Some f \<Rightarrow> f data)
      else Inr (fromBytes data))"

definition is_SetBigData :: "(digest \<Rightarrow> gerr option) \<Rightarrow> (bytes \<Rightarrow> digest) \<Rightarrow> string \<Rightarrow> string \<Rightarrow> bytes \<Rightarrow>
    (bytes \<Rightarrow> gerr + digest) option \<Rightarrow> (imageStore \<times> world, unit) go" where
  "is_SetBigData validate fromBytes ident key data digestManifest s =
     (let r = fst s in
      if key = [] then (Inl ErrInvalidBigDataName, s)
      else if \<not> IsReadWrite (is_lockfile r) then (Inl ErrStoreIsReadOnly, s)
      else case is_lookup r ident of
        None \<Rightarrow> (Inl ErrImageUnknown, s)
      | Some x \<Rightarrow>
          let i = objs r ! x in
          (case MkdirAll (is_datadir r (i_ID i)) (snd s) of
             (Inl e, w1) \<Rightarrow> (Inl e, (r, w1))
           | (Inr _, w1) \<Rightarrow>
               (case item_digest fromBytes digestManifest key data of
                  Inl e \<Rightarrow> (Inl e, (r, w1))
                | Inr newDigest \<Rightarrow>
                    (case AtomicWriteFile (is_datapath r (i_ID i) key) (Bytes data) w1 of
                       (Inl e, w2) \<Rightarrow> (Inl e, (r, w2))
                     | (Inr _, w2) \<Rightarrow>
                         let (save, i1) = i_record_big_data key (int (length data)) newDigest i;
                             bd1 = leave_digests x (i_Digests i) (bydigest r)
                         in (case recomputeDigests validate i1 of
                               Inl e \<Rightarrow> (Inl e, ((update_obj x (\<lambda>_. i1) r)\<lparr>bydigest := bd1\<rparr>, w2))
                             | Inr i2 \<Rightarrow>
                                 let r2 = (update_obj x (\<lambda>_. i2) r)\<lparr>bydigest := enter_digests x (i_Digests i2) bd1\<rparr>
                                 in if save then is_Save (r2, w2) else (Inr (), (r2, w2)))))))"

fun is_wipe_loop :: "string list \<Rightarrow> (imageStore \<times> world, unit) go" where
  "is_wipe_loop [] s = (Inr (), s)"
| "is_wipe_loop (k # ks) s =
     (case is_Delete k s of (Inl e, s') \<Rightarrow> (Inl e, s') | (Inr _, s') \<Rightarrow> is_wipe_loop ks s')"

definition is_Wipe :: "string list \<Rightarrow> (imageStore \<times> world, unit) go" where
  "is_Wipe ks s =
     (if \<not> IsReadWrite (is_lockfile (fst s)) then (Inl ErrStoreIsReadOnly, s) else is_wipe_loop ks s)"

section \<open>Digests of an image\<close>

interpretation ims: named_item i_ID i_Names i_Names_update
  by unfold_locales auto

definition img_ok :: "(digest \<Rightarrow> gerr option) \<Rightarrow> Image \<Rightarrow> bool" where
  "img_ok validate i \<longleftrightarrow> valid_digests validate (i_Digest i) (i_BigDataDigests i) = Inr (i_Digests i) \<and>
     (i_Digest i = [] \<longrightarrow> i_Digests i = [])"

lemma digest_loop_mono:
  "digest_loop validate bdd ds = Inr ds' \<Longrightarrow>
   set ds' = set ds \<union> {d. \<exists>n. (n, d) \<in> set bdd \<and> bigDataNameIsManifest n} \<and> (distinct ds \<longrightarrow> distinct ds') \<and>
   (\<exists>es. ds' = ds @ es) \<and> (\<forall>d \<in> set ds' - set ds. validate d = None)"
proof (induction validate bdd ds rule: digest_loop.induct)
  case (2 validate name d rest ds)
  show ?case
  proof (cases "bigDataNameIsManifest name")
    case False
    then show ?thesis using 2 by auto
  next
    case True
    then have v: "validate d = None" using 2(3) by (auto split: option.splits)
    have run: "digest_loop validate rest (if d \<in> set ds then ds else ds @ [d]) = Inr ds'"
      using 2(3) True v by simp
    from 2(2) [OF _ v run] True v show ?thesis by (auto split: if_splits)
  qed
qed simp

lemma digest_loop_ok:
  "(\<forall>n d. (n, d) \<in> set bdd \<and> bigDataNameIsManifest n \<longrightarrow> validate d = None) \<Longrightarrow>
   \<exists>ds'. digest_loop validate bdd ds = Inr ds'"
proof (induction validate bdd ds rule: digest_loop.induct)
  case (2 validate name d rest ds)
  show ?case
  proof (cases "bigDataNameIsManifest name")
    case True
    then have v: "validate d = None" using 2(3) by auto
    have "\<forall>n d. (n, d) \<in> set rest \<and> bigDataNameIsManifest n \<longrightarrow> validate d = None"
      using 2(3) unfolding list.set by blast
    with 2(2) [OF _ v] True v show ?thesis by auto
  qed (use 2 in auto)
qed simp

lemma digest_loop_valid:
  "digest_loop validate bdd ds = Inr ds' \<Longrightarrow> (n, d) \<in> set bdd \<Longrightarrow> bigDataNameIsManifest n \<Longrightarrow> validate d = None"
proof (induction validate bdd ds rule: digest_loop.induct)
  case (2 validate name e rest ds)
  then show ?case by (cases "bigDataNameIsManifest name"; cases "validate e") auto
qed simp

lemma digest_loop_restart:
  "digest_loop validate bdd [] = Inr (d # ds) \<Longrightarrow> digest_loop validate bdd [d] = Inr (d # ds) \<and> validate d = None"
proof (induction bdd)
  case (Cons p bdd)
  obtain name e where p: "p = (name, e)" by force
  show ?case
  proof (cases "bigDataNameIsManifest name")
    case False
    then show ?thesis using Cons p by simp
  next
    case True
    then have v: "validate e = None" using Cons.prems p by (auto split: option.splits)
    then have run: "digest_loop validate bdd [e] = Inr (d # ds)" using Cons.prems p True by simp
    from digest_loop_mono [OF this] have "e = d" by auto
    then show ?thesis using run p True v by simp
  qed
qed simp

text \<open>The empty string is not a valid digest.\<close>

lemma recomputeDigests_ok:
  assumes "recomputeDigests validate i = Inr i'" "validate [] \<noteq> None"
  shows "img_ok validate i'" "i' = i\<lparr>i_Digest := i_Digest i', i_Digests := i_Digests i'\<rparr>" "distinct (i_Digests i')"
proof -
  obtain ds where ds: "valid_digests validate (i_Digest i) (i_BigDataDigests i) = Inr ds"
    and i': "i' = i\<lparr>i_Digest := (if i_Digest i = [] \<and> ds \<noteq> [] then hd ds else i_Digest i), i_Digests := ds\<rparr>"
    using assms by (auto simp: recomputeDigests_def split: sum.splits)
  show "i' = i\<lparr>i_Digest := i_Digest i', i_Digests := i_Digests i'\<rparr>" by (simp add: i')
  show "distinct (i_Digests i')"
    using ds digest_loop_mono [of validate "i_BigDataDigests i" "[]" ds]
      digest_loop_mono [of validate "i_BigDataDigests i" "[i_Digest i]" ds]
    by (auto simp: i' valid_digests_def split: if_splits option.splits)
  show "img_ok validate i'"
  proof (cases "i_Digest i = [] \<and> ds \<noteq> []")
    case False
    then show ?thesis using ds by (auto simp: img_ok_def i')
  next
    case True
    then obtain d ds' where d: "ds = d # ds'" by (cases ds) auto
    then have "digest_loop validate (i_BigDataDigests i) [d] = Inr (d # ds') \<and> validate d = None"
      using True ds by (intro digest_loop_restart) (simp add: valid_digests_def)
    then show ?thesis using True ds d assms(2) by (auto simp: img_ok_def i' valid_digests_def)
  qed
qed

lemma img_ok_distinct: "img_ok validate i \<Longrightarrow> distinct (i_Digests i)"
  using digest_loop_mono [of validate "i_BigDataDigests i" "[]" "i_Digests i"]
    digest_loop_mono [of validate "i_BigDataDigests i" "[i_Digest i]" "i_Digests i"]
  by (auto simp: img_ok_def valid_digests_def split: if_splits option.splits)

section \<open>The index by digest\<close>

definition digests_ok :: "Image list \<Rightarrow> nat set \<Rightarrow> (digest \<rightharpoonup> nat list) \<Rightarrow> bool" where
  "digests_ok os I bd \<longleftrightarrow> (\<forall>d. bd d \<noteq> Some [] \<and> distinct (images_with bd d) \<and>
     set (images_with bd d) = {y \<in> I. d \<in> set (i_Digests (os ! y))})"

lemma images_with_upd [simp]:
  "images_with (bd(d \<mapsto> l)) e = (if e = d then l else images_with bd e)"
  "images_with (bd(d := None)) e = (if e = d then [] else images_with bd e)"
  by (simp_all add: images_with_def)

lemma add_digests_apply:
  "distinct ds \<Longrightarrow> images_with (add_digests x ds bd) e = images_with bd e @ (if e \<in> set ds then [x] else [])"
proof (induction ds arbitrary: bd)
  case (Cons d ds)
  then show ?case by (auto simp: images_with_upd)
qed simp

lemma prune_digests_apply:
  "images_with (prune_digests x ds bd) e =
     (if e \<in> set ds then filter (\<lambda>v. v \<noteq> x) (images_with bd e) else images_with bd e)"
  by (induction ds arbitrary: bd) (auto simp: Let_def imageSliceWithoutValue_def)

lemma leave_digests_apply:
  "images_with (leave_digests x ds bd) e =
     (if e \<in> set ds then filter (\<lambda>v. v \<noteq> x) (images_with bd e) else images_with bd e)"
proof (induction ds arbitrary: bd)
  case (Cons d ds)
  show ?case
  proof (cases "bd d")
    case None
    then have "images_with bd d = []" by (simp add: images_with_def)
    with None Cons show ?thesis by auto
  next
    case (Some l)
    then have "images_with bd d = l" by (simp add: images_with_def)
    with Some Cons show ?thesis by (auto simp: Let_def imageSliceWithoutValue_def)
  qed
qed simp

lemma filter_length_iff: "length l = length (filter (\<lambda>v. v \<noteq> x) l) \<longleftrightarrow> x \<notin> set l"
proof -
  have "length l = length (filter (\<lambda>v. v \<noteq> x) l) \<longleftrightarrow> filter (\<lambda>v. v \<noteq> x) l = l"
    by (metis filter_id_conv length_filter_less less_irrefl)
  then show ?thesis by (auto simp: filter_id_conv)
qed

lemma enter_digests_apply:
  "images_with (enter_digests x ds bd) e =
     (if e \<in> set ds \<and> x \<notin> set (images_with bd e) then images_with bd e @ [x] else images_with bd e)"
  by (induction ds arbitrary: bd) (auto simp: Let_def imageSliceWithoutValue_def filter_length_iff)

lemma add_digests_nonempty: "(\<forall>d. bd d \<noteq> Some []) \<Longrightarrow> add_digests x ds bd d \<noteq> Some []"
  by (induction ds arbitrary: bd) auto

lemma prune_digests_nonempty: "(\<forall>d. bd d \<noteq> Some []) \<Longrightarrow> prune_digests x ds bd d \<noteq> Some []"
  by (induction ds arbitrary: bd) (auto simp: Let_def)

lemma leave_digests_nonempty: "(\<forall>d. bd d \<noteq> Some []) \<Longrightarrow> leave_digests x ds bd d \<noteq> Some []"
  by (induction ds arbitrary: bd) (auto simp: Let_def split: option.splits)

lemma enter_digests_nonempty: "(\<forall>d. bd d \<noteq> Some []) \<Longrightarrow> enter_digests x ds bd d \<noteq> Some []"
  by (induction ds arbitrary: bd) (auto simp: Let_def)

lemma digests_okI:
  "(\<And>d. bd d \<noteq> Some []) \<Longrightarrow> (\<And>d. distinct (images_with bd d)) \<Longrightarrow>
   (\<And>d y. y \<in> set (images_with bd d) \<longleftrightarrow> y \<in> I \<and> d \<in> set (i_Digests (os ! y))) \<Longrightarrow> digests_ok os I bd"
  by (auto simp: digests_ok_def)

lemma digests_okD:
  assumes "digests_ok os I bd"
  shows "\<forall>d. bd d \<noteq> Some []" "distinct (images_with bd d)"
    "y \<in> set (images_with bd d) \<longleftrightarrow> y \<in> I \<and> d \<in> set (i_Digests (os ! y))"
  using assms by (auto simp: digests_ok_def)

lemma digests_ok_add:
  assumes "digests_ok os I bd" "x \<notin> I" "distinct ds" "i_Digests (os' ! x) = ds"
    and same: "\<And>y. y \<in> I \<Longrightarrow> i_Digests (os' ! y) = i_Digests (os ! y)"
  shows "digests_ok os' (insert x I) (add_digests x ds bd)"
proof (rule digests_okI)
  note ok = digests_okD [OF assms(1)]
  show "add_digests x ds bd d \<noteq> Some []" for d by (rule add_digests_nonempty [OF ok(1)])
  show "distinct (images_with (add_digests x ds bd) d)" for d
  proof -
    have "x \<notin> set (images_with bd d)" "distinct (images_with bd d)" using ok(2,3) assms(2) by blast+
    then show ?thesis
      unfolding add_digests_apply [OF assms(3)] by (cases "d \<in> set ds") simp_all
  qed
  show "y \<in> set (images_with (add_digests x ds bd) d) \<longleftrightarrow> y \<in> insert x I \<and> d \<in> set (i_Digests (os' ! y))" for y d
  proof (cases "y = x")
    case True
    then show ?thesis
      using ok(3) [of x d] assms(2) unfolding add_digests_apply [OF assms(3)]
      by (cases "d \<in> set ds") (simp_all add: assms(4))
  next
    case False
    then show ?thesis 
      using ok(3) [of y d] same [of y] unfolding add_digests_apply [OF assms(3)]
      by (cases "y \<in> I"; cases "d \<in> set ds") simp_all
  qed
qed

lemma digests_ok_prune:
  assumes "digests_ok os I bd" "set (i_Digests (os ! x)) \<subseteq> set ds"
  shows "digests_ok os (I - {x}) (prune_digests x ds bd)"
proof (rule digests_okI)
  note ok = digests_okD [OF assms(1)]
  show "prune_digests x ds bd d \<noteq> Some []" for d by (rule prune_digests_nonempty [OF ok(1)])
  show "distinct (images_with (prune_digests x ds bd) d)" for d
    using ok(2) by (simp add: prune_digests_apply)
  show "y \<in> set (images_with (prune_digests x ds bd) d) \<longleftrightarrow> y \<in> I - {x} \<and> d \<in> set (i_Digests (os ! y))" for y d
    using ok(3) [of y d] assms(2) by (cases "y = x") (auto simp: prune_digests_apply)
qed

lemma digests_ok_move:
  assumes "digests_ok os I bd" "x \<in> I" "i_Digests (os' ! x) = ds'"
    and same: "\<And>y. y \<in> I \<Longrightarrow> y \<noteq> x \<Longrightarrow> i_Digests (os' ! y) = i_Digests (os ! y)"
  shows "digests_ok os' I (enter_digests x ds' (leave_digests x (i_Digests (os ! x)) bd))"
proof (rule digests_okI)
  let ?bd = "leave_digests x (i_Digests (os ! x)) bd"
  note ok = digests_okD [OF assms(1)]
  have left: "images_with ?bd d = filter (\<lambda>v. v \<noteq> x) (images_with bd d)" for d
    using ok(3) [of x d] by (auto simp: leave_digests_apply intro!: filter_True [symmetric])
  show "enter_digests x ds' ?bd d \<noteq> Some []" for d
    by (intro enter_digests_nonempty allI leave_digests_nonempty ok(1))
  show "distinct (images_with (enter_digests x ds' ?bd) d)" for d
    using ok(2) by (simp add: enter_digests_apply left)
  show "y \<in> set (images_with (enter_digests x ds' ?bd) d) \<longleftrightarrow> y \<in> I \<and> d \<in> set (i_Digests (os' ! y))" for y d
    using ok(3) [of y d] assms(2,3) same [of y] by (cases "y = x") (auto simp: enter_digests_apply left)
qed

lemma digests_ok_cong:
  "digests_ok os I bd \<Longrightarrow> (\<And>y. y \<in> I \<Longrightarrow> i_Digests (os' ! y) = i_Digests (os ! y)) \<Longrightarrow> digests_ok os' I bd"
  by (auto simp: digests_ok_def)

section \<open>Invariant\<close>

definition istore_ok :: "(digest \<Rightarrow> gerr option) \<Rightarrow> imageStore \<Rightarrow> bool" where
  "istore_ok validate r \<longleftrightarrow> store_ok i_ID i_Names r \<and> digests_ok (objs r) (set (items r)) (bydigest r) \<and>
     (\<forall>y \<in> set (items r). img_ok validate (objs r ! y))"

definition wf_images :: "Image list \<Rightarrow> bool" where
  "wf_images is \<longleftrightarrow> distinct (map i_ID is) \<and> (\<forall>i \<in> set is. distinct (i_Names i))"

lemma istore_ok_lockfile [simp]: "istore_ok validate (r\<lparr>is_lockfile := l\<rparr>) \<longleftrightarrow> istore_ok validate r"
  by (simp add: istore_ok_def store_ok_def)

lemma is_frame [simp]: "item_map (r\<lparr>is_lockfile := l\<rparr>) = item_map r" "item_list (r\<lparr>is_lockfile := l\<rparr>) = item_list r"
  "is_lookup (r\<lparr>is_lockfile := l\<rparr>) = is_lookup r"
  "item_map (r\<lparr>bydigest := m\<rparr>) = item_map r" "item_list (r\<lparr>bydigest := m\<rparr>) = item_list r"
  "is_lookup (r\<lparr>bydigest := m\<rparr>) = is_lookup r"
  "store_ok i_ID i_Names (r\<lparr>bydigest := m\<rparr>) = store_ok i_ID i_Names r"
  by (simp_all add: item_map_def item_list_def store_ok_def is_lookup_def fun_eq_iff cong: option.case_cong sum.case_cong)

lemma is_update_obj_fields [simp]:
  "bydigest (update_obj x f r) = bydigest r" "is_dir (update_obj x f r) = is_dir r"
  "is_lockfile (update_obj x f r) = is_lockfile r"
  by (simp_all add: update_obj_def)

lemma is_lookup_chain: "is_lookup r = lookup_chain r"
  by (simp add: is_lookup_def lookup_chain_def fun_eq_iff)

lemma is_Save_frame:
  assumes "is_Save (r, w) = (res, (r', w'))"
  shows "\<exists>k. r' = r\<lparr>is_lockfile := (is_lockfile r)\<lparr>lw := k\<rparr>\<rparr>"
proof -
  have "\<exists>k. r = r\<lparr>is_lockfile := (is_lockfile r)\<lparr>lw := k\<rparr>\<rparr>" by (rule exI [of _ "lw (is_lockfile r)"]) simp
  with assms show ?thesis
    by (auto simp: is_Save_def Let_def split: if_splits prod.splits dest: save_file_frame(1))
qed

lemma is_Save_file:
  assumes "is_Save (r, w) = (Inr (), (r', w'))" "lk_file (is_lockfile r) \<noteq> is_imagespath r"
  shows "fs w' (is_imagespath r) = Some (JImages (map json_Image (item_list r)))"
  using assms save_file_frame(3) by (auto simp: is_Save_def Let_def split: if_splits prod.splits)

lemma is_lookup_item:
  assumes "istore_ok validate r" "is_lookup r ident = Some x"
  shows "x \<in> set (items r)" "x < length (objs r)" "byid r (i_ID (objs r ! x)) = Some x"
  using lookup_chain_item [of i_ID i_Names r ident x] assms by (simp_all add: istore_ok_def is_lookup_chain)

lemma istore_ok_update_obj:
  assumes "istore_ok validate r" "is_lookup r ident = Some x"
    and "i_ID (f (objs r ! x)) = i_ID (objs r ! x)" "i_Names (f (objs r ! x)) = i_Names (objs r ! x)"
    "i_Digest (f (objs r ! x)) = i_Digest (objs r ! x)" "i_Digests (f (objs r ! x)) = i_Digests (objs r ! x)"
    "i_BigDataDigests (f (objs r ! x)) = i_BigDataDigests (objs r ! x)"
  shows "istore_ok validate (update_obj x f r)"
proof -
  note x = is_lookup_item [OF assms(1,2)]
  have "i_Digests ((objs r)[x := f (objs r ! x)] ! y) = i_Digests (objs r ! y)"
    "img_ok validate ((objs r)[x := f (objs r ! x)] ! y) \<longleftrightarrow> img_ok validate (objs r ! y)" for y
    using x assms(5-7) by (cases "y = x"; simp add: img_ok_def)+
  then show ?thesis
    using assms x ims.store_ok_update_obj [of r x f] digests_ok_cong [of "objs r" "set (items r)" "bydigest r"]
    by (simp add: istore_ok_def frame_simps) (simp add: update_obj_def)
qed

lemma is_update_save_ok:
  assumes "is_Save (update_obj x f r, w) = (res, (r', w'))" "istore_ok validate r" "is_lookup r ident = Some x"
    and "\<And>c. i_ID (f c) = i_ID c" "\<And>c. i_Names (f c) = i_Names c" "\<And>c. i_Digest (f c) = i_Digest c"
    "\<And>c. i_Digests (f c) = i_Digests c" "\<And>c. i_BigDataDigests (f c) = i_BigDataDigests c"
  shows "istore_ok validate r'"
  using is_Save_frame [OF assms(1)] istore_ok_update_obj [OF assms(2,3), of f] assms(4-8) by auto

lemma is_Create_cases:
  assumes "is_Create validate ident names layer metadata created sd (r, w) = (res, (r', w'))"
  obtains (fail) e where "res = Inl e" "r' = r" "fs w' = fs w"
  | (save) k w1 i l where "byid r k = None" "ident \<noteq> [] \<longrightarrow> k = ident" "\<forall>n \<in> set names. byname r n = None"
      "recomputeDigests validate
         (new_image k (dedupeNames names) layer metadata (if created = 0 then clock w1 else created) sd) = Inr i"
      "r' = (insert_item k (dedupeNames names) i r)
         \<lparr>bydigest := add_digests (length (objs r)) (i_Digests i) (bydigest r), is_lockfile := l\<rparr>"
      "\<forall>i'. res = Inr i' \<longrightarrow> i' = i" "fs (w1 :: world) = fs w"
proof -
  obtain x w1 where g: "pick_id (\<lambda>k. byid r k \<noteq> None) ident w = (x, w1)" by force
  have w1: "fs w1 = fs w" using pick_id_frame [OF g] by simp
  show ?thesis
  proof (cases "IsReadWrite (is_lockfile r)")
    case False
    then show ?thesis using assms fail by (auto simp: is_Create_def)
  next
    case rw: True
    show ?thesis
    proof (cases x)
      case (Inl e)
      then show ?thesis using assms g w1 rw fail by (auto simp: is_Create_def Let_def)
    next
      case (Inr k)
      have kid: "ident \<noteq> [] \<longrightarrow> k = ident" using g Inr by (auto simp: pick_id_def)
      define i0 where "i0 = new_image k (dedupeNames names) layer metadata (if created = 0 then clock w1 else created) sd"
      show ?thesis
      proof (cases "byid r k = None \<and> (\<forall>n \<in> set names. byname r n = None)")
        case False
        then show ?thesis
          using assms g w1 rw Inr fail by (auto simp: is_Create_def Let_def list_ex_iff split: if_splits)
      next
        case free: True
        show ?thesis
        proof (cases "recomputeDigests validate i0")
          case (Inl e)
          then have "is_Create validate ident names layer metadata created sd (r, w) = (Inl e, (r, w1))"
            using g rw free \<open>x = Inr k\<close> by (simp add: is_Create_def Let_def list_ex_iff i0_def)
          then show ?thesis using assms w1 fail by simp
        next
          case (Inr i)
          define r1 where "r1 = (insert_item k (dedupeNames names) i r)\<lparr>bydigest := add_digests (length (objs r)) (i_Digests i) (bydigest r)\<rparr>"
          obtain y r2 w2 where sv: "is_Save (r1, w1) = (y, (r2, w2))" by (metis prod_cases3)
          obtain l where l: "r2 = r1\<lparr>is_lockfile := l\<rparr>" using is_Save_frame [OF sv] by blast
          have "\<exists>res0. is_Create validate ident names layer metadata created sd (r, w) = (res0, (r2, w2)) \<and>
              (\<forall>i'. res0 = Inr i' \<longrightarrow> i' = i)"
            using g rw \<open>x = Inr k\<close> free Inr sv
            by (auto simp: is_Create_def Let_def list_ex_iff i0_def [symmetric] r1_def [symmetric] copyImage_def split: sum.splits gerr.splits)
          then have "r' = r2" "\<forall>i'. res = Inr i' \<longrightarrow> i' = i" using assms by auto
          then show ?thesis using save [of k w1 i l] free kid Inr l w1 by (simp add: r1_def i0_def)
        qed
      qed
    qed
  qed
qed

lemma is_Create_ok:
  assumes "istore_ok validate r" "validate [] \<noteq> None"
    and "is_Create validate ident names layer metadata created sd (r, w) = (res, (r', w'))"
  shows "istore_ok validate r'"
  using assms(3)
proof (cases rule: is_Create_cases)
  case (save k w1 i l)
  note rd = recomputeDigests_ok [OF save(4) assms(2)]
  have f: "i_ID i = k" "i_Names i = dedupeNames names"
    by (subst rd(2), simp add: new_image_def)+
  have s: "store_ok i_ID i_Names r" using assms(1) by (simp add: istore_ok_def)
  let ?x = "length (objs r)" and ?r = "insert_item k (dedupeNames names) i r"
  have lt: "y < ?x" if "y \<in> set (items r)" for y using s that by (simp add: store_ok_def)
  have o: "objs ?r ! ?x = i" "\<And>y. y < ?x \<Longrightarrow> objs ?r ! y = objs r ! y" "set (items ?r) = insert ?x (set (items r))"
    by (simp_all add: insert_item_def Let_def nth_append)
  have "store_ok i_ID i_Names ?r"
    using s save f by (intro ims.store_ok_insert_item) simp_all
  moreover have "digests_ok (objs ?r) (insert ?x (set (items r))) (add_digests ?x (i_Digests i) (bydigest r))"
    using assms(1) lt o(1,2) rd(3) by (intro digests_ok_add) (auto simp: istore_ok_def)
  moreover have "\<forall>y \<in> insert ?x (set (items r)). img_ok validate (objs ?r ! y)"
    using assms(1) lt o(1,2) rd(1) by (auto simp: istore_ok_def)
  ultimately have "istore_ok validate (?r\<lparr>bydigest := add_digests ?x (i_Digests i) (bydigest r)\<rparr>)"
    using o(3) by (simp add: istore_ok_def)
  then show ?thesis unfolding save(5) by simp
qed (simp add: assms(1))

lemma addNameToHistory_fields [simp]:
  "i_ID (addNameToHistory n i) = i_ID i" "i_Names (addNameToHistory n i) = i_Names i"
  "i_Digest (addNameToHistory n i) = i_Digest i" "i_Digests (addNameToHistory n i) = i_Digests i"
  "i_BigDataDigests (addNameToHistory n i) = i_BigDataDigests i"
  by (simp_all add: addNameToHistory_def)

lemma fold_addNameToHistory:
  "i_ID (fold addNameToHistory ns i) = i_ID i" "i_Digest (fold addNameToHistory ns i) = i_Digest i"
  "i_Digests (fold addNameToHistory ns i) = i_Digests i"
  "i_BigDataDigests (fold addNameToHistory ns i) = i_BigDataDigests i"
  by (induction ns arbitrary: i) simp_all

lemma fold_history:
  "set (i_NamesHistory (fold addNameToHistory ns i)) = set ns \<union> set (i_NamesHistory i)"
  by (induction ns arbitrary: i) (auto simp: addNameToHistory_def)

lemma istore_ok_set_names:
  assumes "istore_ok validate r" "is_lookup r ident = Some x"
  shows "istore_ok validate (set_names i_Names i_Names_update addNameToHistory (dedupeNames names) x r)" (is "istore_ok validate ?r")
proof -
  have s: "store_ok i_ID i_Names r" using assms(1) by (simp add: istore_ok_def)
  note x = is_lookup_item [OF assms]
  note spec = ims.set_names_spec [where mark = addNameToHistory, OF s x(1) distinct_dedupeNames [of names]
      addNameToHistory_fields(1) addNameToHistory_fields(2)]
  obtain os bn where r: "?r = r\<lparr>objs := os, byname := bn\<rparr>" using spec(3) by blast
  have y: "i_Digests (os ! y) = i_Digests (objs r ! y)" "img_ok validate (os ! y) = img_ok validate (objs r ! y)"
    if "y \<in> set (items r)" for y
    using spec(4) [OF that] by (simp_all add: r img_ok_def fold_addNameToHistory split: if_splits)
  then show ?thesis
    using spec(1) assms(1) digests_ok_cong [of "objs r" "set (items r)" "bydigest r" os]
    by (simp add: istore_ok_def r)
qed

lemma is_SetNames_cases:
  assumes "istore_ok validate r" "is_SetNames ident names (r, w) = (res, (r', w'))"
  shows "istore_ok validate r'"
    and "\<not> IsReadWrite (is_lockfile r) \<or> is_lookup r ident = None \<Longrightarrow> r' = r \<and> w' = w \<and>
      res = Inl (if IsReadWrite (is_lockfile r) then ErrImageUnknown else ErrStoreIsReadOnly)"
    and "IsReadWrite (is_lockfile r) \<Longrightarrow> is_lookup r ident = Some x \<Longrightarrow> item_map r' = (\<lambda>k.
      if k = i_ID (objs r ! x) then Some ((fold addNameToHistory (dedupeNames names) (objs r ! x))\<lparr>i_Names := dedupeNames names\<rparr>)
      else map_option (i_Names_update (filter (\<lambda>n. n \<notin> set names))) (item_map r k))"
proof -
  show none: "r' = r \<and> w' = w \<and> res = Inl (if IsReadWrite (is_lockfile r) then ErrImageUnknown else ErrStoreIsReadOnly)"
    if "\<not> IsReadWrite (is_lockfile r) \<or> is_lookup r ident = None"
    using assms(2) that by (cases "IsReadWrite (is_lockfile r)") (simp_all add: is_SetNames_def)
  have some: "istore_ok validate r' \<and> item_map r' = (\<lambda>k.
      if k = i_ID (objs r ! x) then Some ((fold addNameToHistory (dedupeNames names) (objs r ! x))\<lparr>i_Names := dedupeNames names\<rparr>)
      else map_option (i_Names_update (filter (\<lambda>n. n \<notin> set names))) (item_map r k))"
    if rw: "IsReadWrite (is_lockfile r)" and l: "is_lookup r ident = Some x" for x
  proof -
    let ?r = "set_names i_Names i_Names_update addNameToHistory (dedupeNames names) x r"
    have "is_Save (?r, w) = (res, (r', w'))" using assms(2) rw l by (simp add: is_SetNames_def)
    from is_Save_frame [OF this] obtain k where r': "r' = ?r\<lparr>is_lockfile := k\<rparr>" by blast
    have s: "store_ok i_ID i_Names r" using assms(1) by (simp add: istore_ok_def)
    show ?thesis
      using istore_ok_set_names [OF assms(1) l, of names]
        ims.set_names_spec(2) [where mark = addNameToHistory, OF s is_lookup_item(1) [OF assms(1) l]
          distinct_dedupeNames [of names] addNameToHistory_fields(1) addNameToHistory_fields(2)]
      by (simp add: r' cong: if_cong)
  qed
  then show "IsReadWrite (is_lockfile r) \<Longrightarrow> is_lookup r ident = Some x \<Longrightarrow> item_map r' = (\<lambda>k.
      if k = i_ID (objs r ! x) then Some ((fold addNameToHistory (dedupeNames names) (objs r ! x))\<lparr>i_Names := dedupeNames names\<rparr>)
      else map_option (i_Names_update (filter (\<lambda>n. n \<notin> set names))) (item_map r k))" by blast
  show "istore_ok validate r'"
    using none some assms(1) by (cases "IsReadWrite (is_lockfile r)"; cases "is_lookup r ident") auto
qed

lemma find_last_spec:
  "(\<exists>x \<in> set xs. P x) \<Longrightarrow> \<exists>j < length xs. find_last P i xs found = Some (i + j) \<and> P (xs ! j)"
proof (induction xs arbitrary: i found)
  case (Cons x xs)
  show ?case
  proof (cases "\<exists>y \<in> set xs. P y")
    case True
    from Cons.IH [OF True, of "Suc i" "if P x then Some i else found"] obtain j where
      "j < length xs" "find_last P (Suc i) xs (if P x then Some i else found) = Some (Suc i + j)" "P (xs ! j)" by blast
    then show ?thesis by (intro exI [of _ "Suc j"]) simp
  next
    case False
    then have "find_last P k xs f = f" for k f by (induction xs arbitrary: k f) auto
    then show ?thesis using False Cons.prems by auto
  qed
qed simp

lemma is_Delete_cases:
  assumes "istore_ok validate r" "is_Delete ident (r, w) = (res, (r', w'))"
  shows "istore_ok validate r'"
    and "\<not> IsReadWrite (is_lockfile r) \<or> is_lookup r ident = None \<Longrightarrow> r' = r \<and> w' = w \<and>
      res = Inl (if IsReadWrite (is_lockfile r) then ErrImageUnknown else ErrStoreIsReadOnly)"
    and "IsReadWrite (is_lockfile r) \<Longrightarrow> is_lookup r ident = Some x \<Longrightarrow>
      item_map r' = (item_map r)(i_ID (objs r ! x) := None) \<and>
      (res = Inr () \<longrightarrow> (\<forall>q. prefix (is_datadir r (i_ID (objs r ! x))) q \<longrightarrow> fs w' q = None))"
proof -
  show none: "r' = r \<and> w' = w \<and> res = Inl (if IsReadWrite (is_lockfile r) then ErrImageUnknown else ErrStoreIsReadOnly)"
    if "\<not> IsReadWrite (is_lockfile r) \<or> is_lookup r ident = None"
    using assms(2) that by (cases "IsReadWrite (is_lockfile r)") (simp_all add: is_Delete_def Let_def)
  have some: "istore_ok validate r' \<and> item_map r' = (item_map r)(i_ID (objs r ! x) := None) \<and>
      (res = Inr () \<longrightarrow> (\<forall>q. prefix (is_datadir r (i_ID (objs r ! x))) q \<longrightarrow> fs w' q = None))"
    if rw: "IsReadWrite (is_lockfile r)" and l: "is_lookup r ident = Some x" for x
  proof -
    let ?i = "objs r ! x"
    have s: "store_ok i_ID i_Names r" and dg: "digests_ok (objs r) (set (items r)) (bydigest r)"
      and im: "\<forall>y \<in> set (items r). img_ok validate (objs r ! y)" using assms(1) by (simp_all add: istore_ok_def)
    note x = is_lookup_item [OF assms(1) l]
    obtain j where j: "j < length (items r)" "find_last (\<lambda>y. i_ID (objs r ! y) = i_ID ?i) 0 (items r) None = Some j"
      "i_ID (objs r ! (items r ! j)) = i_ID ?i"
      using find_last_spec [of "items r" "\<lambda>y. i_ID (objs r ! y) = i_ID ?i" 0 None] x(1) by auto
    have jx: "items r ! j = x" using store_ok_inj [OF s _ x(1)] j(1,3) by simp
    define r0 where "r0 = remove_item (i_ID ?i) (i_Names ?i) (Some j) r"
    define r1 where "r1 = r0\<lparr>bydigest := prune_digests x (i_Digests ?i) (bydigest r)\<rparr>"
    have s0: "store_ok i_ID i_Names r0" unfolding r0_def by (rule ims.store_ok_remove_item [OF s x(1) j(1) jx])
    have it: "set (items r0) = set (items r) - {x}" "objs r0 = objs r"
      using s j(1) jx by (simp_all add: r0_def remove_item_def store_ok_def set_remove_nth)
    have ok1: "istore_ok validate r1"
      using s0 digests_ok_prune [OF dg, of x "i_Digests ?i"] im by (simp add: istore_ok_def r1_def it)
    have m1: "item_map r1 = (item_map r)(i_ID ?i := None)" by (simp add: r1_def r0_def ims.item_map_remove_item)
    have f1: "is_dir r1 = is_dir r" by (simp add: r1_def r0_def remove_item_def)
    obtain y r2 w2 where sv: "is_Save (r1, w) = (y, (r2, w2))" by (metis prod_cases3)
    obtain k where k: "r2 = r1\<lparr>is_lockfile := k\<rparr>" using is_Save_frame [OF sv] by blast
    obtain z w3 where rm: "RemoveAll (is_datadir r2 (i_ID ?i)) w2 = (z, w3)" by force
    have "is_Delete ident (r, w) = (case y of Inl e \<Rightarrow> (Inl e, r2, w2) | Inr _ \<Rightarrow> (z, r2, w3))"
      using rw l j(2) sv rm by (cases y) (simp_all add: is_Delete_def Let_def r1_def [symmetric] r0_def [symmetric])
    note run = this [unfolded assms(2)]
    show ?thesis
      using run RemoveAll_fs [OF rm] ok1 m1 f1
      by (cases y; cases z) (auto simp: k is_datadir_def)
  qed
  then show "IsReadWrite (is_lockfile r) \<Longrightarrow> is_lookup r ident = Some x \<Longrightarrow>
      item_map r' = (item_map r)(i_ID (objs r ! x) := None) \<and>
      (res = Inr () \<longrightarrow> (\<forall>q. prefix (is_datadir r (i_ID (objs r ! x))) q \<longrightarrow> fs w' q = None))" by blast
  show "istore_ok validate r'"
    using none some assms(1) by (cases "IsReadWrite (is_lockfile r)"; cases "is_lookup r ident") auto
qed

text \<open>The digest that \<open>SetBigData\<close> records for a manifest has to be a valid one.\<close>

definition manifest_ok :: "(digest \<Rightarrow> gerr option) \<Rightarrow> (bytes \<Rightarrow> gerr + digest) option \<Rightarrow> bool" where
  "manifest_ok validate digestManifest \<longleftrightarrow>
     (\<forall>f data d. digestManifest = Some f \<longrightarrow> f data = Inr d \<longrightarrow> validate d = None)"

lemma i_record_big_data_fields:
  assumes "i_record_big_data key sz d i = (save, i')"
  shows "i_ID i' = i_ID i" "i_Names i' = i_Names i" "i_Digest i' = i_Digest i" "i_Digests i' = i_Digests i"
    and "map_of (i_BigDataSizes i') key = Some sz" "map_of (i_BigDataDigests i') key = Some d"
    and "key \<in> set (i_BigDataNames i')" "i_BigDataDigests i' = AList.update key d (i_BigDataDigests i)"
  using assms by (auto simp: i_record_big_data_def record_big_data_def Let_def map_of_update)

lemma set_AList_update: "set (AList.update k v al) \<subseteq> insert (k, v) (set al)"
  by (induction al) auto

lemma recompute_after_record:
  assumes "img_ok validate i" "i_record_big_data key sz d i = (save, i')"
    and "bigDataNameIsManifest key \<Longrightarrow> validate d = None"
  shows "\<exists>i2. recomputeDigests validate i' = Inr i2"
proof -
  note f = i_record_big_data_fields [OF assms(2)]
  obtain ds0 where "digest_loop validate (i_BigDataDigests i) ds0 = Inr (i_Digests i)"
    using assms(1) by (auto simp: img_ok_def valid_digests_def split: if_splits option.splits)
  then have old: "\<forall>n e. (n, e) \<in> set (i_BigDataDigests i) \<and> bigDataNameIsManifest n \<longrightarrow> validate e = None"
    using digest_loop_valid by blast
  have "\<forall>n e. (n, e) \<in> set (i_BigDataDigests i') \<and> bigDataNameIsManifest n \<longrightarrow> validate e = None"
  proof (intro allI impI)
    fix n e assume ne: "(n, e) \<in> set (i_BigDataDigests i') \<and> bigDataNameIsManifest n"
    then have "(n, e) = (key, d) \<or> (n, e) \<in> set (i_BigDataDigests i)"
      using set_AList_update [of key d "i_BigDataDigests i"] unfolding f(8) by blast
    then show "validate e = None"
    proof
      assume "(n, e) = (key, d)"
      then show ?thesis using ne assms(3) by simp
    qed (use ne old in blast)
  qed
  then have "\<exists>ds'. digest_loop validate (i_BigDataDigests i') ds = Inr ds'" for ds by (rule digest_loop_ok)
  moreover have "i_Digest i \<noteq> [] \<Longrightarrow> validate (i_Digest i) = None"
    using assms(1) by (auto simp: img_ok_def valid_digests_def split: if_splits option.splits)
  ultimately have "\<exists>ds. valid_digests validate (i_Digest i') (i_BigDataDigests i') = Inr ds"
    by (simp add: valid_digests_def f(3))
  then show ?thesis by (auto simp: recomputeDigests_def)
qed

lemma item_digest_valid:
  "item_digest fromBytes digestManifest key data = Inr d \<Longrightarrow> manifest_ok validate digestManifest \<Longrightarrow>
   bigDataNameIsManifest key \<Longrightarrow> validate d = None"
  by (auto simp: item_digest_def manifest_ok_def split: option.splits)

lemma is_SetBigData_cases:
  assumes "istore_ok validate r" "validate [] \<noteq> None" "manifest_ok validate dm"
    and "is_SetBigData validate fromBytes ident key data dm (r, w) = (res, (r', w'))"
  shows "istore_ok validate r' \<and> (res = Inr () \<longrightarrow> (\<exists>x i' d. is_lookup r ident = Some x \<and> key \<noteq> [] \<and>
      item_digest fromBytes dm key data = Inr d \<and>
      map_of (i_BigDataSizes i') key = Some (int (length data)) \<and> map_of (i_BigDataDigests i') key = Some d \<and>
      key \<in> set (i_BigDataNames i') \<and> i_ID i' = i_ID (objs r ! x) \<and>
      item_map r' = (item_map r)(i_ID (objs r ! x) \<mapsto> i') \<and> is_lookup r' = is_lookup r \<and> objs r' ! x = i' \<and>
      is_dir r' = is_dir r \<and>
      (is_datapath r (i_ID (objs r ! x)) key \<notin> {is_imagespath r, lk_file (is_lockfile r)} \<longrightarrow>
       fs w' (is_datapath r (i_ID (objs r ! x)) key) = Some (Bytes data))))"
proof (cases "key = [] \<or> \<not> IsReadWrite (is_lockfile r) \<or> is_lookup r ident = None")
  case True
  then show ?thesis
    using assms(1,4)
    by (cases "key = []"; cases "IsReadWrite (is_lockfile r)") (auto simp: is_SetBigData_def Let_def)
next
  case False
  then obtain x where l: "is_lookup r ident = Some x" and key: "key \<noteq> []" and rw: "IsReadWrite (is_lockfile r)" by auto
  let ?i = "objs r ! x" and ?p = "is_datapath r (i_ID (objs r ! x)) key"
  obtain y1 w1 where m: "MkdirAll (is_datadir r (i_ID ?i)) w = (y1, w1)" by force
  show ?thesis
  proof (cases "y1 = Inr () \<and> (\<exists>d. item_digest fromBytes dm key data = Inr d)")
    case False
    then obtain e where "is_SetBigData validate fromBytes ident key data dm (r, w) = (Inl e, (r, w1))"
      using l key rw m by (cases y1; cases "item_digest fromBytes dm key data") (auto simp: is_SetBigData_def Let_def)
    then show ?thesis using assms(1,4) by simp
  next
    case True
    then obtain d where y1: "y1 = Inr ()" and d: "item_digest fromBytes dm key data = Inr d" by blast
    obtain y2 w2 where a: "AtomicWriteFile ?p (Bytes data) w1 = (y2, w2)" by force
    obtain save i1 where rc: "i_record_big_data key (int (length data)) d ?i = (save, i1)" by force
    note f = i_record_big_data_fields [OF rc]
    note x = is_lookup_item [OF assms(1) l]
    have io: "img_ok validate ?i" and s: "store_ok i_ID i_Names r"
      and dg: "digests_ok (objs r) (set (items r)) (bydigest r)"
      and im: "\<forall>y \<in> set (items r). img_ok validate (objs r ! y)" using assms(1) x(1) by (simp_all add: istore_ok_def)
    obtain i2 where i2: "recomputeDigests validate i1 = Inr i2"
      using recompute_after_record [OF io rc] item_digest_valid [OF d assms(3)] by blast
    note rd = recomputeDigests_ok [OF i2 assms(2)]
    have f2: "i_ID i2 = i_ID ?i" "i_Names i2 = i_Names ?i" "i_BigDataSizes i2 = i_BigDataSizes i1"
      "i_BigDataDigests i2 = i_BigDataDigests i1" "i_BigDataNames i2 = i_BigDataNames i1"
      by (subst rd(2), simp add: f)+
    define bd where "bd = enter_digests x (i_Digests i2) (leave_digests x (i_Digests ?i) (bydigest r))"
    define r2 where "r2 = (update_obj x (\<lambda>_. i2) r)\<lparr>bydigest := bd\<rparr>"
    have o2: "objs r2 = (objs r)[x := i2]" "items r2 = items r" "is_dir r2 = is_dir r" "is_lockfile r2 = is_lockfile r"
      by (simp_all add: r2_def update_obj_def)
    have "store_ok i_ID i_Names (update_obj x (\<lambda>_. i2) r)"
      by (rule ims.store_ok_update_obj [OF s x(2)]) (simp_all add: f2)
    moreover have "digests_ok (objs r2) (set (items r)) bd"
      unfolding bd_def using x(1,2) o2(1) by (intro digests_ok_move [OF dg]) simp_all
    moreover have "\<forall>y \<in> set (items r). img_ok validate (objs r2 ! y)"
    proof
      fix y assume "y \<in> set (items r)"
      then show "img_ok validate (objs r2 ! y)" using im rd(1) x(2) by (cases "y = x") (simp_all add: o2(1))
    qed
    ultimately have ok2: "istore_ok validate r2" by (simp add: istore_ok_def r2_def frame_simps)
    have m2: "item_map r2 = (item_map r)(i_ID ?i \<mapsto> i2)"
      using ims.item_map_update_obj [OF s x(1), of "\<lambda>_. i2"] f2(1) by (simp add: r2_def)
    have l2: "is_lookup r2 = is_lookup r"
      by (simp add: r2_def is_lookup_def update_obj_def fun_eq_iff cong: option.case_cong sum.case_cong)
    obtain y3 r3 w3 where sv: "is_Save (r2, w2) = (y3, (r3, w3))" by (metis prod_cases3)
    obtain k where k: "r3 = r2\<lparr>is_lockfile := k\<rparr>" using is_Save_frame [OF sv] by blast
    have path: "is_imagespath r2 = is_imagespath r" by (simp add: is_imagespath_def o2)
    have d2: "fs w2 ?p = Some (Bytes data)" if "y2 = Inr ()" using AtomicWriteFile_fs [OF a] that by simp
    have d3: "fs w3 ?p = fs w2 ?p" if "?p \<notin> {is_imagespath r, lk_file (is_lockfile r)}"
      using sv that save_file_frame(2) [of "is_imagespath r2" _ "is_lockfile r2" w2 _ _ _ ?p]
      by (auto simp: is_Save_def Let_def path o2 split: if_splits prod.splits)
    have "is_SetBigData validate fromBytes ident key data dm (r, w) =
        (case y2 of Inl e \<Rightarrow> (Inl e, (r, w2)) | Inr _ \<Rightarrow> if save then (y3, (r3, w3)) else (Inr (), (r2, w2)))"
      using l key rw m y1 d a rc i2 sv
      by (cases y2; cases save) (simp_all add: is_SetBigData_def Let_def r2_def bd_def)
    note run = this [unfolded assms(4)]
    have ox: "objs r2 ! x = i2" using x(2) by (simp add: o2)
    show ?thesis
    proof (cases y2)
      case (Inl e)
      then show ?thesis using run assms(1) by simp
    next
      case (Inr u)
      then have r': "(r' = r3 \<and> w' = w3) \<or> (r' = r2 \<and> w' = w2)" using run by (cases save) auto
      have facts: "is_lookup r ident = Some x \<and> key \<noteq> [] \<and> item_digest fromBytes dm key data = Inr d \<and>
          map_of (i_BigDataSizes i2) key = Some (int (length data)) \<and> map_of (i_BigDataDigests i2) key = Some d \<and>
          key \<in> set (i_BigDataNames i2) \<and> i_ID i2 = i_ID ?i"
        using l key d f2 f(5-7) by simp
      show ?thesis
        using r' ok2 m2 l2 ox o2(3) facts d2 d3 Inr k by (auto intro!: exI [of _ x] exI [of _ i2] exI [of _ d])
    qed
  qed
qed

section \<open>Loading\<close>

lemma drop_conflicts_cong:
  "(\<forall>n \<in> set ns. bn n = bn' n) \<Longrightarrow> drop_conflicts upd bn ns s = drop_conflicts upd bn' ns s"
  by (induction ns arbitrary: s) (auto split: option.splits)

lemma claim_names_drop:
  "distinct ns \<Longrightarrow> drop_conflicts upd bn ns (os, b) = (os', b') \<Longrightarrow>
   claim_names upd (\<lambda>_ c. c) x ns (os, bn, b) = (os', add_names x ns bn, b')"
proof (induction ns arbitrary: os bn b)
  case (Cons n ns)
  define bn1 where "bn1 = bn(n \<mapsto> x)"
  define os1 where "os1 = (case bn n of Some y \<Rightarrow> os[y := upd (\<lambda>s. stringSliceWithoutValue s n) (os ! y)] | None \<Rightarrow> os)"
  have "\<forall>m \<in> set ns. bn1 m = bn m" using Cons.prems(1) by (auto simp: bn1_def)
  then have "drop_conflicts upd bn1 ns s = drop_conflicts upd bn ns s" for s by (rule drop_conflicts_cong)
  then have "drop_conflicts upd bn1 ns (os1, b \<or> bn n \<noteq> None) = (os', b')"
    using Cons.prems(2) by (auto simp: os1_def split: option.splits)
  from Cons.IH [OF _ this] Cons.prems(1)
  have "claim_names upd (\<lambda>_ c. c) x ns (os1, bn1, b \<or> bn n \<noteq> None) = (os', add_names x ns bn1, b')" by simp
  then show ?case by (auto simp: bn1_def os1_def Let_def split: option.splits)
qed simp

definition loaded :: "(digest \<Rightarrow> gerr option) \<Rightarrow> nat set \<Rightarrow> is_index \<Rightarrow> bool" where
  "loaded validate P s \<longleftrightarrow> (case s of (os, bi, bn, bd, b) \<Rightarrow>
     ids_ok i_ID os P bi \<and> names_ok i_Names os P bn \<and> digests_ok os P bd \<and>
     (\<forall>y \<in> P. y < length os \<and> img_ok validate (os ! y)))"

lemma is_load_step:
  assumes "loaded validate P (os, bi, bn, bd, b)" "x \<notin> P" "x < length os" "validate [] \<noteq> None"
    and "distinct (i_Names (os ! x))" "\<And>y. y \<in> P \<Longrightarrow> i_ID (os ! y) \<noteq> i_ID (os ! x)"
    and dc: "drop_conflicts i_Names_update bn (i_Names (os ! x)) (os, b) = (os1, b1)"
    and rd: "recomputeDigests validate (os1 ! x) = Inr i"
    and os2: "os2 = os1[x := i\<lparr>i_ReadOnly := isro\<rparr>]"
  shows "loaded validate (insert x P) (os2, bi(i_ID i \<mapsto> x), add_names x (i_Names i) bn, add_digests x (i_Digests i) bd, b1)"
    and "length os2 = length os" and "\<And>y. i_ID (os2 ! y) = i_ID (os ! y)"
    and "\<And>y. y \<notin> insert x P \<Longrightarrow> os2 ! y = os ! y"
    and "\<And>y. i_TopLayer (os2 ! y) = i_TopLayer (os ! y)"
    and "\<not> b1 \<Longrightarrow> os1 = os \<and> \<not> b"
proof -
  have L: "ids_ok i_ID os P bi" "names_ok i_Names os P bn" "digests_ok os P bd"
    "\<And>y. y \<in> P \<Longrightarrow> y < length os" "\<And>y. y \<in> P \<Longrightarrow> img_ok validate (os ! y)"
    using assms(1) by (simp_all add: loaded_def)
  have run: "claim_names i_Names_update (\<lambda>_ c. c) x (i_Names (os ! x)) (os, bn, b) = (os1, add_names x (i_Names (os ! x)) bn, b1)"
    by (rule claim_names_drop [OF assms(5) dc])
  have "ims.claiming P x {} os bn" using L(2,4) assms(2,3) by (auto simp: ims.claiming_def names_ok_def)
  from ims.claim_names_spec [OF this assms(5) _ refl refl run]
  have c: "ims.claiming P x (set (i_Names (os ! x))) os1 (add_names x (i_Names (os ! x)) bn)" "length os1 = length os"
    "os1 ! x = os ! x" "\<And>y. y \<in> P \<Longrightarrow> os1 ! y = i_Names_update (filter (\<lambda>n. n \<notin> set (i_Names (os ! x)))) (os ! y)"
    "\<And>y. y \<notin> insert x P \<Longrightarrow> os1 ! y = os ! y"
    by (auto simp: ims.fold_ignore)
  note rdo = recomputeDigests_ok [OF rd assms(4), unfolded c(3)]
  have fi: "i_ID i = i_ID (os ! x)" "i_Names i = i_Names (os ! x)" "i_TopLayer i = i_TopLayer (os ! x)"
    by (subst rdo(2), simp)+
  have at: "os2 ! x = i\<lparr>i_ReadOnly := isro\<rparr>" using c(2) assms(3) by (simp add: os2)
  have off: "os2 ! y = os1 ! y" if "y \<noteq> x" for y using that by (simp add: os2)
  show len: "length os2 = length os" by (simp add: os2 c(2))
  show ids: "i_ID (os2 ! y) = i_ID (os ! y)" for y
    using at off [of y] c(4,5) [of y] fi(1) by (cases "y = x"; cases "y \<in> P") simp_all
  show "i_TopLayer (os2 ! y) = i_TopLayer (os ! y)" for y
    using at off [of y] c(4,5) [of y] fi(3) by (cases "y = x"; cases "y \<in> P") simp_all
  show "os2 ! y = os ! y" if "y \<notin> insert x P" for y using that off [of y] c(5) [of y] by simp
  show "\<not> b1 \<Longrightarrow> os1 = os \<and> \<not> b" using ims.claim_names_quiet [OF run] .
  have inP: "i_Digests (os2 ! y) = i_Digests (os ! y)" "img_ok validate (os2 ! y) = img_ok validate (os ! y)" if "y \<in> P" for y
  proof -
    have "os2 ! y = i_Names_update (filter (\<lambda>n. n \<notin> set (i_Names (os ! x)))) (os ! y)"
      using that off [of y] c(4) [OF that] assms(2) by (metis)
    then show "i_Digests (os2 ! y) = i_Digests (os ! y)" "img_ok validate (os2 ! y) = img_ok validate (os ! y)"
      by (simp_all add: img_ok_def)
  qed
  have "ids_ok i_ID os2 (insert x P) (bi(i_ID i \<mapsto> x))"
    unfolding ids_ok_def
  proof (intro allI)
    fix k y
    have "bi k = Some y \<longleftrightarrow> y \<in> P \<and> i_ID (os ! y) = k" using L(1) by (simp add: ids_ok_def)
    then show "(bi(i_ID i \<mapsto> x)) k = Some y \<longleftrightarrow> y \<in> insert x P \<and> i_ID (os2 ! y) = k"
      using ids [of y] fi(1) assms(6) by auto
  qed
  moreover have "names_ok i_Names os2 (insert x P) (add_names x (i_Names i) bn)"
  proof -
    have e: "i_Names (os2 ! y) = i_Names (os1 ! y)" for y
      using at off [of y] c(3) fi(2) by (cases "y = x") simp_all
    show ?thesis
      using c(1) assms(5) unfolding names_ok_def ims.claiming_def e fi(2) by (auto simp: c(3))
  qed
  moreover have "digests_ok os2 (insert x P) (add_digests x (i_Digests i) bd)"
    using assms(2) at inP(1) rdo(3) by (intro digests_ok_add [OF L(3)]) simp_all
  moreover have "img_ok validate (os2 ! x)" using rdo(1) by (simp add: at img_ok_def)
  ultimately show "loaded validate (insert x P) (os2, bi(i_ID i \<mapsto> x), add_names x (i_Names i) bn, add_digests x (i_Digests i) bd, b1)"
    using L(4,5) inP(2) len assms(3) by (simp add: loaded_def)
qed

lemma is_load_loop_spec:
  assumes "loaded validate P (os, bi, bn, bd, b)" "P \<inter> set xs = {}" "distinct xs" "\<forall>y \<in> set xs. y < length os"
    and "validate [] \<noteq> None" "inj_on (\<lambda>y. i_ID (os ! y)) (P \<union> set xs)" "\<forall>y \<in> set xs. distinct (i_Names (os ! y))"
    and "is_load_loop validate isro xs (os, bi, bn, bd, b) = Inr (os', s')"
  shows "loaded validate (P \<union> set xs) (os', s') \<and> length os' = length os \<and>
    (\<forall>y. i_ID (os' ! y) = i_ID (os ! y)) \<and> (\<forall>y. i_TopLayer (os' ! y) = i_TopLayer (os ! y))"
  using assms
proof (induction xs arbitrary: P os bi bn bd b)
  case Nil
  then show ?case by simp
next
  case (Cons x xs)
  obtain os1 b1 where dc: "drop_conflicts i_Names_update bn (i_Names (os ! x)) (os, b) = (os1, b1)" by force
  obtain i where rd: "recomputeDigests validate (os1 ! x) = Inr i"
    using Cons.prems(8) dc by (auto split: sum.splits)
  define os2 where "os2 = os1[x := i\<lparr>i_ReadOnly := isro\<rparr>]"
  define bi2 where "bi2 = bi(i_ID i \<mapsto> x)"
  have run: "is_load_loop validate isro xs (os2, bi2, add_names x (i_Names i) bn, add_digests x (i_Digests i) bd, b1) = Inr (os', s')"
    using Cons.prems(8) dc rd by (simp add: os2_def bi2_def)
  have xP: "x \<notin> P" "x < length os" "distinct (i_Names (os ! x))" using Cons.prems by auto
  have apart: "i_ID (os ! y) \<noteq> i_ID (os ! x)" if "y \<in> P" for y
    using inj_onD [OF Cons.prems(6), of y x] that xP(1) by auto
  note st = is_load_step [OF Cons.prems(1) xP(1,2) Cons.prems(5) xP(3) apart dc rd os2_def]
  have "inj_on (\<lambda>y. i_ID (os2 ! y)) (insert x P \<union> set xs)" using Cons.prems(6) by (simp add: st(3))
  moreover have "\<forall>y \<in> set xs. distinct (i_Names (os2 ! y))"
  proof
    fix y assume y: "y \<in> set xs"
    then have "y \<notin> insert x P" using Cons.prems(2,3) by auto
    then show "distinct (i_Names (os2 ! y))" using st(4) [of y] Cons.prems(7) y by simp
  qed
  ultimately have "loaded validate (insert x P \<union> set xs) (os', s') \<and> length os' = length os2 \<and>
    (\<forall>y. i_ID (os' ! y) = i_ID (os2 ! y)) \<and> (\<forall>y. i_TopLayer (os' ! y) = i_TopLayer (os2 ! y))"
    using Cons.prems(2-5) st(2) by (intro Cons.IH [OF st(1) [folded bi2_def] _ _ _ _ _ _ run]) auto
  then show ?case using st(2,3,5) by simp
qed

lemma is_load_data_ok:
  assumes "wf_images is" "validate [] \<noteq> None" "is_load_data validate is (r, w) = (res, (r', w'))" "istore_ok validate r"
  shows "istore_ok validate r'"
proof (cases "is_load_loop validate (\<not> IsReadWrite (is_lockfile r)) [0..<length is] (is, Map.empty, Map.empty, Map.empty, False)")
  case (Inl e)
  then show ?thesis using assms(3,4) by (simp add: is_load_data_def)
next
  case (Inr t)
  obtain os bi bn bd b where t: "t = (os, bi, bn, bd, b)" by (metis prod_cases5)
  have init: "loaded validate {} (is, Map.empty, Map.empty, Map.empty, False)"
    by (simp add: loaded_def ids_ok_def names_ok_def digests_ok_def images_with_def)
  have inj: "inj_on (\<lambda>y. i_ID (is ! y)) {0..<length is}"
    using assms(1) by (auto simp: wf_images_def distinct_conv_nth intro!: inj_onI) metis
  have "loaded validate ({} \<union> set [0..<length is]) (os, bi, bn, bd, b) \<and> length os = length is \<and>
    (\<forall>y. i_ID (os ! y) = i_ID (is ! y)) \<and> (\<forall>y. i_TopLayer (os ! y) = i_TopLayer (is ! y))"
    using assms(1,2) inj by (intro is_load_loop_spec [OF init _ _ _ _ _ _ Inr [unfolded t]]) (auto simp: wf_images_def)
  then have L: "ids_ok i_ID os {0..<length is} bi" "names_ok i_Names os {0..<length is} bn"
    "digests_ok os {0..<length is} bd" "\<forall>y \<in> {0..<length is}. img_ok validate (os ! y)" "length os = length is"
    "\<And>y. i_ID (os ! y) = i_ID (is ! y)"
    by (simp_all add: loaded_def)
  define r1 where "r1 = r\<lparr>objs := os, items := [0..<length is], idindex := NewTruncIndex (map i_ID is),
                           byid := bi, byname := bn, bydigest := bd\<rparr>"
  have "dom bi = i_ID ` set is"
    using L(1,6) by (auto simp: ids_ok_def dom_def set_conv_nth)
  then have ok1: "istore_ok validate r1"
    using L by (auto simp: istore_ok_def store_ok_def r1_def NewTruncIndex_ok tids_NewTruncIndex)
  obtain y r2 w2 where sv: "is_Save (r1, w) = (y, (r2, w2))" by (metis prod_cases3)
  have "r' = r \<or> r' = r1 \<or> r' = r2"
    using assms(3) Inr t sv by (auto simp: is_load_data_def Let_def r1_def [symmetric] split: if_splits)
  then show ?thesis using ok1 assms(4) is_Save_frame [OF sv] by auto
qed

lemma is_Load_ok:
  assumes "\<And>c. fs w (is_imagespath r) = Some c \<Longrightarrow> wf_images (decode_images c)" "istore_ok validate r"
    and "validate [] \<noteq> None" "is_Load validate (r, w) = (res, (r', w'))"
  shows "istore_ok validate r'"
proof -
  obtain y w1 where rd: "ReadFile (is_imagespath r) w = (y, w1)" by force
  have nil: "wf_images []" by (simp add: wf_images_def)
  show ?thesis
  proof (cases y)
    case (Inl e)
    then show ?thesis
      using assms(2-4) rd nil is_load_data_ok [of "[]" validate r w1] by (auto simp: is_Load_def split: if_splits)
  next
    case (Inr c)
    then have "fs w (is_imagespath r) = Some c"
      using rd by (cases w rule: io_call_cases) (auto simp: ReadFile_def split: option.splits)
    then show ?thesis
      using assms rd Inr is_load_data_ok [of "decode_images c" validate r w1] by (simp add: is_Load_def)
  qed
qed

text \<open>
  The steps of a process that holds an image store.  The callback that digests manifests returns
  valid digests; \<open>Load\<close> is a step on a file that is missing or holds a well-formed document.
\<close>

inductive is_step :: "(digest \<Rightarrow> gerr option) \<Rightarrow> (bytes \<Rightarrow> digest) \<Rightarrow> imageStore \<times> world \<Rightarrow> imageStore \<times> world \<Rightarrow> bool"
  for validate fb where
  create: "is_Create validate ident names layer metadata created sd s = (res, s') \<Longrightarrow> is_step validate fb s s'"
| setMetadata: "is_SetMetadata ident metadata s = (ures, s') \<Longrightarrow> is_step validate fb s s'"
| setNames: "is_SetNames ident names s = (ures, s') \<Longrightarrow> is_step validate fb s s'"
| setFlag: "is_SetFlag ident flag v s = (ures, s') \<Longrightarrow> is_step validate fb s s'"
| clearFlag: "is_ClearFlag ident flag s = (ures, s') \<Longrightarrow> is_step validate fb s s'"
| addMapped: "is_addMappedTopLayer ident layer s = (ures, s') \<Longrightarrow> is_step validate fb s s'"
| removeMapped: "is_removeMappedTopLayer ident layer s = (ures, s') \<Longrightarrow> is_step validate fb s s'"
| delete: "is_Delete ident s = (ures, s') \<Longrightarrow> is_step validate fb s s'"
| setBigData: "manifest_ok validate dm \<Longrightarrow> is_SetBigData validate fb ident key data dm s = (ures, s') \<Longrightarrow>
    is_step validate fb s s'"
| load: "(\<And>c. fs (snd s) (is_imagespath (fst s)) = Some c \<Longrightarrow> wf_images (decode_images c)) \<Longrightarrow>
    is_Load validate s = (ures, s') \<Longrightarrow> is_step validate fb s s'"
| environment: "is_step validate fb (r, w) (r\<lparr>is_lockfile := l\<rparr>, w')"

lemma is_removeMapped_ok:
  assumes "is_removeMappedTopLayer ident layer (r, w) = (res, (r', w'))" "istore_ok validate r"
  shows "istore_ok validate r'"
proof (cases "is_lookup r ident")
  case (Some x)
  have "istore_ok validate (update_obj x (i_MappedTopLayers_update (\<lambda>_. new)) r)" for new
    using istore_ok_update_obj [OF assms(2) Some] by simp
  then show ?thesis
    using assms Some by (auto simp: is_removeMappedTopLayer_def Let_def split: if_splits elim!: is_update_save_ok)
qed (use assms in \<open>simp add: is_removeMappedTopLayer_def\<close>)

lemma is_step_ok: "is_step validate fb s s' \<Longrightarrow> validate [] \<noteq> None \<Longrightarrow> istore_ok validate (fst s) \<Longrightarrow> istore_ok validate (fst s')"
proof (induction rule: is_step.induct)
  case (create ident names layer metadata created sd s res s')
  then show ?case by (cases s; cases s') (auto intro: is_Create_ok)
next
  case (setMetadata ident metadata s ures s')
  then show ?case
    by (cases s; cases s') (auto simp: is_SetMetadata_def split: if_splits option.splits elim!: is_update_save_ok)
next
  case (setNames ident names s ures s')
  then show ?case by (cases s; cases s') (auto intro: is_SetNames_cases(1))
next
  case (setFlag ident flag v s ures s')
  then show ?case
    by (cases s; cases s') (auto simp: is_SetFlag_def split: if_splits option.splits elim!: is_update_save_ok)
next
  case (clearFlag ident flag s ures s')
  then show ?case
    by (cases s; cases s') (auto simp: is_ClearFlag_def split: if_splits option.splits elim!: is_update_save_ok)
next
  case (addMapped ident layer s ures s')
  then show ?case
    by (cases s; cases s') (auto simp: is_addMappedTopLayer_def split: option.splits elim!: is_update_save_ok)
next
  case (removeMapped ident layer s ures s')
  then show ?case by (cases s; cases s') (auto intro: is_removeMapped_ok)
next
  case (delete ident s ures s')
  then show ?case by (cases s; cases s') (auto intro: is_Delete_cases(1))
next
  case (setBigData dm ident key data s ures s')
  obtain r w r' w' where s: "s = (r, w)" "s' = (r', w')" by (metis surj_pair)
  from is_SetBigData_cases [OF _ _ setBigData(1) setBigData(2) [unfolded s]] setBigData(3,4) show ?case
    by (simp add: s)
next
  case (load s ures s')
  then show ?case by (cases s; cases s') (auto intro: is_Load_ok)
qed simp

subsection \<open>A saved document loads as it was\<close>

lemma recompute_json:
  assumes "img_ok validate i"
  shows "recomputeDigests validate (json_Image i) = Inr ((json_Image i)\<lparr>i_Digests := i_Digests i\<rparr>)"
  using assms by (auto simp: recomputeDigests_def img_ok_def json_Image_def)

definition reloaded :: "bool \<Rightarrow> Image \<Rightarrow> Image" where
  "reloaded isro i = i\<lparr>i_ReadOnly := isro, i_Flags := json_flags (i_Flags i)\<rparr>"

lemma is_load_loop_fresh:
  assumes "names_apart i_Names (map (\<lambda>y. is ! y) xs)" "distinct xs" "\<forall>y \<in> set xs. y < length is \<and> img_ok validate (is ! y)"
    and "\<forall>y \<in> set xs. \<forall>n \<in> set (i_Names (is ! y)). bn n = None" "\<forall>y \<in> set xs. os ! y = json_Image (is ! y)"
    and "length os = length is"
  shows "\<exists>os' bi' bn' bd'. is_load_loop validate isro xs (os, bi, bn, bd, b) = Inr (os', bi', bn', bd', b) \<and>
    length os' = length is \<and> (\<forall>y \<in> set xs. os' ! y = reloaded isro (is ! y)) \<and> (\<forall>y. y \<notin> set xs \<longrightarrow> os' ! y = os ! y)"
  using assms
proof (induction xs arbitrary: os bi bn bd)
  case Nil
  then show ?case by simp
next
  case (Cons x xs)
  let ?i = "is ! x"
  have ox: "os ! x = json_Image ?i" "x < length os" "img_ok validate ?i" using Cons.prems by auto
  have "drop_conflicts i_Names_update bn ns (os, b) = (os, b)" if "\<forall>n \<in> set ns. bn n = None" for ns
    using that by (induction ns) auto
  then have dc: "drop_conflicts i_Names_update bn (i_Names (os ! x)) (os, b) = (os, b)"
    using Cons.prems(4) ox(1) by simp
  have rl: "(json_Image ?i)\<lparr>i_Digests := i_Digests ?i, i_ReadOnly := isro\<rparr> = reloaded isro ?i"
    by (simp add: reloaded_def json_Image_def)
  define os1 where "os1 = os[x := reloaded isro ?i]"
  define bi1 where "bi1 = bi(i_ID ?i \<mapsto> x)"
  have step: "is_load_loop validate isro (x # xs) (os, bi, bn, bd, b) =
      is_load_loop validate isro xs (os1, bi1, add_names x (i_Names ?i) bn, add_digests x (i_Digests ?i) bd, b)"
    using dc recompute_json [OF ox(3)] by (simp add: ox(1) os1_def bi1_def rl)
  have "\<forall>y \<in> set xs. \<forall>n \<in> set (i_Names (is ! y)). add_names x (i_Names ?i) bn n = None"
    using Cons.prems(1,4) by (auto simp: add_names_apply names_apart_def)
  moreover have "\<forall>y \<in> set xs. os1 ! y = json_Image (is ! y)" 
  proof
    fix y assume y: "y \<in> set xs"
    then have "y \<noteq> x" using Cons.prems(2) by auto
    then show "os1 ! y = json_Image (is ! y)" using Cons.prems(5) y by (simp add: os1_def)
  qed
  ultimately obtain os' bi' bn' bd' where IH: "is_load_loop validate isro xs
      (os1, bi1, add_names x (i_Names ?i) bn, add_digests x (i_Digests ?i) bd, b) = Inr (os', bi', bn', bd', b)"
    "length os' = length is" "\<forall>y \<in> set xs. os' ! y = reloaded isro (is ! y)" "\<forall>y. y \<notin> set xs \<longrightarrow> os' ! y = os1 ! y"
    using Cons.IH [of "add_names x (i_Names ?i) bn" os1 bi1 "add_digests x (i_Digests ?i) bd"] Cons.prems
    by (auto simp: names_apart_def os1_def)
  have "os' ! x = reloaded isro ?i" using IH(4) Cons.prems(2) ox(2) by (simp add: os1_def)
  moreover have "os' ! y = os ! y" if "y \<notin> set (x # xs)" for y using IH(4) that by (simp add: os1_def)
  ultimately show ?case using step IH(1-3) by auto
qed

lemma wf_images_saved: "istore_ok validate r \<Longrightarrow> wf_images (map json_Image (item_list r))"
  using store_ok_distinct_ids [of i_ID i_Names r]
  by (auto simp: wf_images_def istore_ok_def o_def item_list_def dest: store_okD(5))

lemma is_Load_saved:
  assumes "istore_ok validate r" "validate [] \<noteq> None" "faults w = []" "istore_ok validate r0"
    and "fs w (is_imagespath r0) = Some (JImages (map json_Image (item_list r)))"
  shows "\<exists>r1. is_Load validate (r0, w) = (Inr (), (r1, w)) \<and> istore_ok validate r1 \<and>
    item_map r1 = (\<lambda>k. map_option (reloaded (\<not> IsReadWrite (is_lockfile r0))) (item_map r k))"
proof -
  let ?is = "map json_Image (item_list r)" and ?isro = "\<not> IsReadWrite (is_lockfile r0)"
  have s: "store_ok i_ID i_Names r" using assms(1) by (simp add: istore_ok_def)
  have im: "img_ok validate i" if "i \<in> set (item_list r)" for i
    using assms(1) that by (auto simp: istore_ok_def item_list_def)
  have ap: "names_apart i_Names (map (\<lambda>y. item_list r ! y) [0..<length ?is])"
    using store_ok_names_apart [OF s] by (simp add: map_nth)
  have inb: "\<forall>y \<in> set [0..<length ?is]. y < length (item_list r) \<and> img_ok validate (item_list r ! y)"
    using im by simp
  obtain os bi bn bd where L: "is_load_loop validate ?isro [0..<length ?is] (?is, Map.empty, Map.empty, Map.empty, False)
      = Inr (os, bi, bn, bd, False)" "length os = length ?is"
    "\<forall>y \<in> set [0..<length ?is]. os ! y = reloaded ?isro (item_list r ! y)"
    using is_load_loop_fresh [OF ap distinct_upt inb, of Map.empty ?is ?isro Map.empty Map.empty False] by auto
  define r1 where "r1 = r0\<lparr>objs := os, items := [0..<length ?is], idindex := NewTruncIndex (map i_ID ?is),
                           byid := bi, byname := bn, bydigest := bd\<rparr>"
  have run: "is_load_data validate ?is (r0, w) = (Inr (), (r1, w))"
    using L(1) by (simp add: is_load_data_def Let_def r1_def)
  have ok1: "istore_ok validate r1" by (rule is_load_data_ok [OF wf_images_saved [OF assms(1)] assms(2) run assms(4)])
  have "item_list r1 = map (reloaded ?isro) (item_list r)"
    using L(2,3) by (auto simp: item_list_def r1_def intro!: nth_equalityI)
  then have "item_map r1 = (\<lambda>k. map_option (reloaded ?isro) (item_map r k))"
    using s ok1 by (intro item_map_same_list [where iid = i_ID and inames = i_Names]) (simp_all add: istore_ok_def reloaded_def)
  moreover have "is_Load validate (r0, w) = (Inr (), (r1, w))"
    using assms(3,5) run by (simp add: is_Load_def ReadFile_def decode_images_def)
  ultimately show ?thesis using ok1 by blast
qed

text \<open>Inputs of the examples: a validator that rejects the empty digest only.\<close>

definition demo_validate :: "digest \<Rightarrow> gerr option" where
  "demo_validate d = (if d = [] then Some (Errorf ''invalid checksum digest format'') else None)"

definition demo_is :: imageStore where
  "demo_is = empty_istore (demo_lock [''d'', ''images.lock'']) [''d'']"

lemma demo_is_ok [simp]: "istore_ok demo_validate demo_is" "demo_validate [] \<noteq> None"
  by (simp_all add: istore_ok_def store_ok_def demo_is_def empty_istore_def ids_ok_def names_ok_def
      digests_ok_def images_with_def demo_validate_def)

lemma is_Save_succeeds:
  assumes "Locked (is_lockfile r)" "IsReadWrite (is_lockfile r)" "faults w = []"
    "\<exists>b \<in> set (rand w). \<not> all_numeric (TruncateID b)"
  shows "\<exists>r' w'. is_Save (r, w) = (Inr (), (r', w')) \<and> faults w' = []"
  using save_file_ok [OF assms(3,4,1), of "is_imagespath r" "JImages (map json_Image (item_list r))"] assms(1,2)
  by (auto simp: is_Save_def Let_def)

lemma img_ok_manifest:
  assumes "img_ok validate i" "map_of (i_BigDataDigests i) key = Some d" "bigDataNameIsManifest key"
  shows "d \<in> set (i_Digests i)"
proof -
  obtain ds0 where "digest_loop validate (i_BigDataDigests i) ds0 = Inr (i_Digests i)"
    using assms(1) by (auto simp: img_ok_def valid_digests_def split: if_splits option.splits)
  from digest_loop_mono [OF this] show ?thesis using map_of_SomeD [OF assms(2)] assms(3) by blast
qed

lemma is_ByDigest_mem:
  assumes "istore_ok validate r" "x \<in> set (items r)" "d \<in> set (i_Digests (objs r ! x))"
  shows "\<exists>l. is_ByDigest d r = Inr l \<and> objs r ! x \<in> set l"
proof -
  have "x \<in> set (images_with (bydigest r) d)"
    using digests_okD(3) [of "objs r" "set (items r)" "bydigest r" x d] assms by (simp add: istore_ok_def)
  then show ?thesis by (cases "bydigest r d") (auto simp: images_with_def is_ByDigest_def copyImage_def)
qed

section \<open>Main theorems\<close>



text \<open>
  In a consistent store \<open>ByDigest\<close> returns each image that has the digest exactly once, and the
  error \<open>ErrImageUnknown\<close> exactly if there is none.
\<close>

lemma is_ByDigest_exact:
  assumes "istore_ok validate r"
  shows "case is_ByDigest d r of
      Inl e \<Rightarrow> e = ErrImageUnknown \<and> (\<forall>i \<in> ran (item_map r). d \<notin> set (i_Digests i))
    | Inr l \<Rightarrow> l \<noteq> [] \<and> distinct (map i_ID l) \<and> set l = {i \<in> ran (item_map r). d \<in> set (i_Digests i)}"
proof -
  have s: "store_ok i_ID i_Names r" and dg: "digests_ok (objs r) (set (items r)) (bydigest r)"
    using assms by (simp_all add: istore_ok_def)
  note ok = digests_okD [OF dg]
  have ran: "ran (item_map r) = (\<lambda>x. objs r ! x) ` set (items r)" by (simp add: ran_item_map [OF s] item_list_def)
  show ?thesis
  proof (cases "bydigest r d")
    case None
    then have "images_with (bydigest r) d = []" by (simp add: images_with_def)
    then have "\<forall>y \<in> set (items r). d \<notin> set (i_Digests (objs r ! y))" using ok(3) [of _ d] by auto
    then show ?thesis using None by (auto simp: is_ByDigest_def ran)
  next
    case (Some l)
    then have l: "images_with (bydigest r) d = l" by (simp add: images_with_def)
    have "l \<noteq> []" using ok(1) Some by auto
    moreover have sl: "set l = {y \<in> set (items r). d \<in> set (i_Digests (objs r ! y))}"
      using ok(3) [of _ d] unfolding l by auto
    moreover have "inj_on (\<lambda>x. i_ID (objs r ! x)) (set l)"
      using store_ok_inj [OF s] sl by (auto intro!: inj_onI)
    then have "distinct (map i_ID (map (\<lambda>x. objs r ! x) l))"
      using ok(2) [of d] l by (simp add: distinct_map o_def)
    ultimately show ?thesis using Some by (auto simp: is_ByDigest_def copyImage_def ran)
  qed
qed

lemma is_ByDigest_exact_witness:
  "is_ByDigest ''sha:1'' demo_is = Inl ErrImageUnknown"
proof -
  have "ran (item_map demo_is) = {}" by (simp add: item_map_def demo_is_def empty_istore_def)
  with is_ByDigest_exact [OF demo_is_ok(1), of "''sha:1''"] show ?thesis
    by (cases "is_ByDigest ''sha:1'' demo_is") auto
qed

text \<open>
  C11: what \<open>Save\<close> of an image store writes, a later \<open>Load\<close> of any store over the same directory
  reads back: it succeeds, the store is consistent, and its images are those saved (their digests
  recomputed to the same values, flags as JSON keeps them, and marked read-only if the store is).
\<close>

theorem is_Save_Load_roundtrip:
  assumes "istore_ok validate r" "is_Save (r, w) = (Inr (), (r', w'))" "lk_file (is_lockfile r) \<noteq> is_imagespath r"
    and "validate [] \<noteq> None" "istore_ok validate r0" "is_dir r0 = is_dir r"
    and "fs w0 (is_imagespath r) = fs w' (is_imagespath r)" "faults w0 = []"
  shows "\<exists>r1. is_Load validate (r0, w0) = (Inr (), (r1, w0)) \<and> istore_ok validate r1 \<and>
    item_map r1 = (\<lambda>k. map_option (reloaded (\<not> IsReadWrite (is_lockfile r0))) (item_map r k))"
proof (rule is_Load_saved [OF assms(1,4,8,5)])
  show "fs w0 (is_imagespath r0) = Some (JImages (map json_Image (item_list r)))"
    using is_Save_file [OF assms(2,3)] assms(6,7) by (simp add: is_imagespath_def)
qed

theorem is_Save_Load_roundtrip_witness:
  "\<exists>w' r1. is_Load demo_validate (demo_is, w'\<lparr>faults := []\<rparr>) = (Inr (), (r1, w'\<lparr>faults := []\<rparr>)) \<and> item_map r1 = Map.empty"
proof -
  have l: "Locked (is_lockfile demo_is)" "IsReadWrite (is_lockfile demo_is)" "lk_file (is_lockfile demo_is) \<noteq> is_imagespath demo_is"
    by (simp_all add: demo_is_def empty_istore_def demo_lock_def Locked_def IsReadWrite_def is_imagespath_def)
  have "\<exists>b \<in> set (rand demo_world). \<not> all_numeric (TruncateID b)"
    by (simp add: demo_world_def TruncateID_def all_numeric_def is_digit_def)
  then obtain r' w' where sv: "is_Save (demo_is, demo_world) = (Inr (), (r', w'))"
    using is_Save_succeeds [OF l(1,2), of demo_world] by (auto simp: demo_world_def)
  have "item_map demo_is = Map.empty" by (simp add: item_map_def demo_is_def empty_istore_def)
  with is_Save_Load_roundtrip [OF demo_is_ok(1) sv l(3) demo_is_ok(2) demo_is_ok(1) refl, of "w'\<lparr>faults := []\<rparr>"]
  show ?thesis by auto
qed

text \<open>
  After a successful \<open>SetBigData\<close> the item can be read back with its size and digest, and if its
  name marks it as a manifest, the image is found by the manifest's digest.
\<close>

lemma is_SetBigData_searchable:
  assumes "istore_ok validate r" "validate [] \<noteq> None" "manifest_ok validate dm"
    and "is_SetBigData validate fromBytes ident key data dm (r, w) = (Inr (), (r', w'))"
    and "is_Lookup ident r = Inr k" "faults w' = []"
    and "is_datapath r k key \<notin> {is_imagespath r, lk_file (is_lockfile r)}"
  shows "\<exists>d i. item_digest fromBytes dm key data = Inr d \<and> item_map r' k = Some i \<and>
    is_BigData ident key (r', w') = (Inr data, (r', w')) \<and>
    is_BigDataSize ident key (r', w') = (Inr (int (length data)), (r', w')) \<and>
    is_BigDataDigest ident key r' = Inr d \<and>
    (bigDataNameIsManifest key \<longrightarrow> (\<exists>l. is_ByDigest d r' = Inr l \<and> i \<in> set l))"
proof -
  obtain x i d where x: "is_lookup r ident = Some x" "key \<noteq> []" "item_digest fromBytes dm key data = Inr d"
    and i: "map_of (i_BigDataSizes i) key = Some (int (length data))" "map_of (i_BigDataDigests i) key = Some d"
      "i_ID i = i_ID (objs r ! x)"
    and r': "istore_ok validate r'" "item_map r' = (item_map r)(i_ID (objs r ! x) \<mapsto> i)" "is_lookup r' = is_lookup r"
      "objs r' ! x = i" "is_dir r' = is_dir r"
    and w': "is_datapath r (i_ID (objs r ! x)) key \<notin> {is_imagespath r, lk_file (is_lockfile r)} \<longrightarrow>
       fs w' (is_datapath r (i_ID (objs r ! x)) key) = Some (Bytes data)"
    using is_SetBigData_cases [OF assms(1-4)] by blast
  have k: "i_ID (objs r ! x) = k" using assms(5) x(1) by (simp add: is_Lookup_def)
  have l': "is_lookup r' ident = Some x" using x(1) r'(3) by simp
  have p: "is_datapath r' k key = is_datapath r k key" by (simp add: is_datapath_def is_datadir_def r'(5))
  have "is_BigData ident key (r', w') = (Inr data, (r', w'))"
    using l' x(2) r'(4) i(3) k p w' assms(6,7) by (simp add: is_BigData_def ReadFile_def content_bytes_def)
  moreover have "is_BigDataSize ident key (r', w') = (Inr (int (length data)), (r', w'))"
    using l' x(2) r'(4) i(1) by (simp add: is_BigDataSize_def)
  moreover have "is_BigDataDigest ident key r' = Inr d" using l' x(2) r'(4) i(2) by (simp add: is_BigDataDigest_def)
  moreover have "\<exists>l. is_ByDigest d r' = Inr l \<and> i \<in> set l" if "bigDataNameIsManifest key"
  proof -
    have xi: "x \<in> set (items r')" by (rule is_lookup_item(1) [OF r'(1) l'])
    then have "img_ok validate i" using r'(1,4) by (auto simp: istore_ok_def)
    from img_ok_manifest [OF this i(2) that] is_ByDigest_mem [OF r'(1) xi, of d] show ?thesis by (simp add: r'(4))
  qed
  ultimately show ?thesis using x(3) r'(2) k by auto
qed

definition demo_image :: Image where
  "demo_image = new_image ''i1'' [''web''] ''lay'' ''md'' 7 []"

definition demo_is1 :: imageStore where
  "demo_is1 = insert_item ''i1'' [''web''] demo_image demo_is"

lemma demo_is1_ok: "istore_ok demo_validate demo_is1"
proof -
  have e: "objs demo_is = []" "items demo_is = []" "byid demo_is = Map.empty" "byname demo_is = Map.empty" "bydigest demo_is = Map.empty"
    by (simp_all add: demo_is_def empty_istore_def)
  have i: "i_ID demo_image = ''i1''" "i_Names demo_image = [''web'']" "i_Digests demo_image = []" "img_ok demo_validate demo_image"
    by (simp_all add: demo_image_def new_image_def img_ok_def valid_digests_def)
  have "store_ok i_ID i_Names demo_is1"
    unfolding demo_is1_def using demo_is_ok(1) by (intro ims.store_ok_insert_item) (simp_all add: istore_ok_def e i)
  moreover have o: "objs demo_is1 = [demo_image]" "set (items demo_is1) = {0}" "bydigest demo_is1 = Map.empty"
    by (simp_all add: demo_is1_def insert_item_def Let_def e)
  moreover have "digests_ok [demo_image] {0} Map.empty" by (rule digests_okI) (auto simp: images_with_def i)
  ultimately show ?thesis using i(4) by (simp add: istore_ok_def)
qed

lemma is_SetBigData_searchable_witness:
  "\<exists>r' w' l. is_SetBigData demo_validate (\<lambda>_. ''sha:0'') ''i1'' ''manifest'' ''abc'' (Some (\<lambda>_. Inr ''sha:9'')) (demo_is1, demo_world)
       = (Inr (), (r', w')) \<and> is_ByDigest ''sha:9'' r' = Inr l \<and> l \<noteq> []"
proof -
  let ?dm = "Some (\<lambda>_ :: bytes. Inr ''sha:9'' :: gerr + digest)"
  have dm: "manifest_ok demo_validate ?dm" by (simp add: manifest_ok_def demo_validate_def)
  have lk: "is_lookup demo_is1 ''i1'' = Some 0" "is_Lookup ''i1'' demo_is1 = Inr ''i1''" "objs demo_is1 ! 0 = demo_image"
    by (simp_all add: is_lookup_def is_Lookup_def demo_is1_def insert_item_def Let_def demo_is_def empty_istore_def demo_image_def new_image_def)
  have base: "makeBigDataBaseName ''manifest'' = ''manifest''"
    by (simp add: makeBigDataBaseName_def read_plain.simps plain_char_def in_range_def byte_of_def)
  have len: "length (is_datapath demo_is1 ''i1'' ''manifest'') = 3"
    by (simp add: is_datapath_def is_datadir_def base join_name_def join_elem_def demo_is1_def insert_item_def Let_def demo_is_def empty_istore_def)
  have lf: "is_lockfile demo_is1 = demo_lock [''d'', ''images.lock'']"
    by (simp add: demo_is1_def insert_item_def Let_def demo_is_def empty_istore_def)
  have rw: "IsReadWrite (is_lockfile demo_is1)" "Locked (is_lockfile demo_is1)"
    by (simp_all add: lf demo_lock_def IsReadWrite_def Locked_def)
  let ?p = "is_datapath demo_is1 ''i1'' ''manifest''"
  let ?w = "demo_world\<lparr>fs := (fs demo_world)(?p \<mapsto> Bytes ''abc''), mtimes := (mtimes demo_world)(?p := clock demo_world)\<rparr>"
  have rnd: "\<exists>b \<in> set (rand ?w). \<not> all_numeric (TruncateID b)" "faults ?w = []" "faults demo_world = []"
    by (simp_all add: demo_world_def TruncateID_def all_numeric_def is_digit_def)
  obtain save i1 where rc: "i_record_big_data ''manifest'' 3 ''sha:9'' demo_image = (save, i1)" by force
  have io: "img_ok demo_validate demo_image" by (simp add: demo_image_def new_image_def img_ok_def valid_digests_def)
  obtain i2 where i2: "recomputeDigests demo_validate i1 = Inr i2"
    using recompute_after_record [OF io rc] by (auto simp: demo_validate_def)
  have id0: "i_ID demo_image = ''i1''" by (simp add: demo_image_def new_image_def)
  have dg: "item_digest (\<lambda>_. ''sha:0'') ?dm ''manifest'' ''abc'' = Inr ''sha:9''"
    by (simp add: item_digest_def bigDataNameIsManifest_def)
  define r2 where "r2 = (update_obj 0 (\<lambda>_. i2) demo_is1)\<lparr>bydigest := enter_digests 0 (i_Digests i2)
      (leave_digests 0 (i_Digests demo_image) (bydigest demo_is1))\<rparr>"
  have "Locked (is_lockfile r2)" "IsReadWrite (is_lockfile r2)" using rw by (simp_all add: r2_def)
  from is_Save_succeeds [OF this rnd(2,1)] obtain r3 w3 where sv: "is_Save (r2, ?w) = (Inr (), (r3, w3))" "faults w3 = []" by blast
  obtain r' w' where run: "is_SetBigData demo_validate (\<lambda>_. ''sha:0'') ''i1'' ''manifest'' ''abc'' ?dm (demo_is1, demo_world)
       = (Inr (), (r', w'))" "faults w' = []"
    using lk(1,3) rw rc i2 dg sv id0 rnd(3)
    by (cases save) (auto simp: is_SetBigData_def Let_def MkdirAll_def AtomicWriteFile_def r2_def [symmetric])
  have "is_datapath demo_is1 ''i1'' ''manifest'' \<notin> {is_imagespath demo_is1, lk_file (is_lockfile demo_is1)}"
    using len by (auto simp: is_imagespath_def lf demo_lock_def demo_is1_def insert_item_def Let_def demo_is_def empty_istore_def)
  from is_SetBigData_searchable [OF demo_is1_ok demo_is_ok(2) dm run(1) lk(2) run(2) this] dg run(1)
  show ?thesis by (auto simp: bigDataNameIsManifest_def)
qed

text \<open>
  C39: \<open>Create\<close> does not report a failed save.  In particular, on a store that is writable but not
  locked it returns the new image as if it had been stored, adds it in memory, and writes nothing.
\<close>

theorem is_Create_hides_save_error:
  assumes "istore_ok validate r" "IsReadWrite (is_lockfile r)" "\<not> Locked (is_lockfile r)"
    and "ident \<noteq> []" "item_map r ident = None" "\<forall>n \<in> set names. byname r n = None"
  shows "\<exists>i r'. is_Create validate ident names layer metadata created [] (r, w) = (Inr i, (r', w)) \<and>
    item_map r' = (item_map r)(ident \<mapsto> i) \<and> is_Save (r', w) = (Inl (Errorf ''image store is not locked for writing''), (r', w))"
proof -
  define i where "i = new_image ident (dedupeNames names) layer metadata (if created = 0 then clock w else created) []"
  define r1 where "r1 = (insert_item ident (dedupeNames names) i r)\<lparr>bydigest := add_digests (length (objs r)) (i_Digests i) (bydigest r)\<rparr>"
  have rc: "recomputeDigests validate i = Inr i" by (simp add: recomputeDigests_def valid_digests_def i_def new_image_def)
  have lf: "is_lockfile r1 = is_lockfile r" by (simp add: r1_def insert_item_def Let_def)
  have sv: "is_Save (r1, w) = (Inl (Errorf ''image store is not locked for writing''), (r1, w))"
    using assms(2,3) by (simp add: is_Save_def Let_def lf)
  have "byid r ident = None" using assms(5) by (simp add: item_map_def)
  then have "is_Create validate ident names layer metadata created [] (r, w) = (Inr i, (r1, w))"
    using assms(2,4,6) rc sv
    by (simp add: is_Create_def Let_def pick_id_def list_ex_iff i_def [symmetric] r1_def [symmetric] copyImage_def)
  moreover have "item_map r1 = (item_map r)(ident \<mapsto> i)"
    using ims.item_map_insert_item [of r] assms(1) by (simp add: istore_ok_def r1_def)
  ultimately show ?thesis using sv by blast
qed

theorem is_Create_hides_save_error_witness:
  "\<exists>i r'. is_Create demo_validate ''i1'' [''web''] ''lay'' ''md'' 0 [] (demo_is\<lparr>is_lockfile := (demo_lock [])\<lparr>locked := False\<rparr>\<rparr>, demo_world)
     = (Inr i, (r', demo_world)) \<and> item_map r' ''i1'' = Some i"
proof -
  let ?r = "demo_is\<lparr>is_lockfile := (demo_lock [])\<lparr>locked := False\<rparr>\<rparr>"
  have "istore_ok demo_validate ?r" "IsReadWrite (is_lockfile ?r)" "\<not> Locked (is_lockfile ?r)"
    "item_map ?r ''i1'' = None" "\<forall>n \<in> set [''web'']. byname ?r n = None"
    using demo_is_ok(1)
    by (simp_all add: demo_lock_def IsReadWrite_def Locked_def) (simp_all add: item_map_def demo_is_def empty_istore_def)
  from is_Create_hides_save_error [OF this(1-3) _ this(4,5)] show ?thesis by fastforce
qed

end
