(* ===== verification/Containers.thy ===== *)
theory Containers
  imports ItemStore BigData Lockfile
begin

text \<open>
  The container store: \<^verbatim>\<open>containers.go\<close>.

  The state of an operation is the store (which includes its lock object) and the world.  The
  operations keep the source's names under the prefix \<open>cs_\<close>.  \<open>fromBytes\<close> is
  \<open>digest.Canonical.FromBytes\<close> of the vendored digest package.
\<close>

record containerStore = "Container itemStore" +
  cs_lockfile :: lockfile
  cs_dir :: path
  bylayer :: "string \<rightharpoonup> nat"

record ContainerOptions =
  co_IDMappingOptions :: IDMappingOptions
  co_LabelOpts :: "string list"
  co_Flags :: "flags option"
  co_MountOpts :: "string list option"
  co_Volatile :: bool
  co_StorageOpt :: "(string \<times> string) list"

section \<open>The record\<close>

text \<open>
  \<open>copyContainer\<close> copies field by field.  Copies of slices and maps are equal to their
  originals here; only the copy of an empty ID map differs, because it is nil.
\<close>

definition copyContainer :: "Container \<Rightarrow> Container" where
  "copyContainer c = c\<lparr>c_UIDMap := copyIDMap (c_UIDMap c), c_GIDMap := copyIDMap (c_GIDMap c)\<rparr>"

definition c_MountLabel :: "Container \<Rightarrow> string" where
  "c_MountLabel c = (case c_Flags c ''MountLabel'' of Some (IString s) \<Rightarrow> s | _ \<Rightarrow> [])"

definition c_ProcessLabel :: "Container \<Rightarrow> string" where
  "c_ProcessLabel c = (case c_Flags c ''ProcessLabel'' of Some (IString s) \<Rightarrow> s | _ \<Rightarrow> [])"

fun istrings :: "ival list \<Rightarrow> string list" where
  "istrings [] = []"
| "istrings (IString s # vs) = s # istrings vs"
| "istrings (v # vs) = istrings vs"

definition c_MountOpts :: "Container \<Rightarrow> string list" where
  "c_MountOpts c =
     (case c_Flags c ''MountOpts'' of
        Some (IStrings ss) \<Rightarrow> ss
      | Some (IArray vs) \<Rightarrow> istrings vs
      | _ \<Rightarrow> [])"

section \<open>Files\<close>

definition cs_containerspath :: "containerStore \<Rightarrow> path" where
  "cs_containerspath r = cs_dir r @ [''containers.json'']"

definition cs_datadir :: "containerStore \<Rightarrow> string \<Rightarrow> path" where
  "cs_datadir r ident = join_name (cs_dir r) ident"

definition cs_datapath :: "containerStore \<Rightarrow> string \<Rightarrow> string \<Rightarrow> path" where
  "cs_datapath r ident key = join_name (cs_datadir r ident) (makeBigDataBaseName key)"

definition cs_Containers :: "containerStore \<Rightarrow> Container list" where
  "cs_Containers r = map copyContainer (item_list r)"

definition cs_Save :: "(containerStore \<times> world, unit) go" where
  "cs_Save s =
     (let r = fst s in
      if \<not> Locked (cs_lockfile r) then (Inl (Errorf ''container store is not locked''), s)
      else case save_file (cs_containerspath r) (JContainers (map json_Container (item_list r)))
                  (cs_lockfile r, snd s) of
        (res, (l, w)) \<Rightarrow> (res, (r\<lparr>cs_lockfile := l\<rparr>, w)))"

text \<open>
  \<open>json.Unmarshal\<close> into the empty slice: a file that is empty or does not parse leaves it empty.
\<close>

definition decode_containers :: "content \<Rightarrow> Container list" where
  "decode_containers c = (case c of JContainers cs \<Rightarrow> cs | _ \<Rightarrow> [])"

fun load_layers :: "nat \<Rightarrow> Container list \<Rightarrow> (string \<rightharpoonup> nat) \<Rightarrow> string \<rightharpoonup> nat" where
  "load_layers n [] m = m"
| "load_layers n (c # cs) m = load_layers (Suc n) cs (m(c_LayerID c \<mapsto> n))"

definition cs_load_data :: "Container list \<Rightarrow> (containerStore \<times> world, unit) go" where
  "cs_load_data cs s =
     (let (r, needSave) = load_store c_ID c_Names c_Names_update cs (fst s);
          s' = (r\<lparr>bylayer := load_layers 0 cs Map.empty\<rparr>, snd s)
      in if needSave then cs_Save s' else (Inr (), s'))"

definition cs_Load :: "(containerStore \<times> world, unit) go" where
  "cs_Load s =
     (case ReadFile (cs_containerspath (fst s)) (snd s) of
        (Inl e, w) \<Rightarrow> if e \<noteq> NotExist then (Inl e, (fst s, w)) else cs_load_data [] (fst s, w)
      | (Inr c, w) \<Rightarrow> cs_load_data (decode_containers c) (fst s, w))"

definition empty_cstore :: "lockfile \<Rightarrow> path \<Rightarrow> containerStore" where
  "empty_cstore l dir =
     \<lparr>objs = [], items = [], idindex = \<lparr>trie = [], tids = {}\<rparr>, byid = Map.empty, byname = Map.empty,
      cs_lockfile = l, cs_dir = dir, bylayer = Map.empty\<rparr>"

text \<open>\<open>newContainerStore\<close>, with the deferred \<open>Unlock\<close>; the lock object is a new one.\<close>

definition newContainerStore :: "path \<Rightarrow> (world, containerStore) go" where
  "newContainerStore dir w =
     (case MkdirAll dir w of
        (Inl e, w1) \<Rightarrow> (Inl e, w1)
      | (Inr _, w1) \<Rightarrow>
          (case createLockerForPath (dir @ [''containers.lock'']) False w1 of
             (Inl e, w2) \<Rightarrow> (Inl e, w2)
           | (Inr l, w2) \<Rightarrow>
               (case Lock (l, w2) of
                  (Inl e, (_, w3)) \<Rightarrow> (Inl e, w3)
                | (Inr _, (l3, w3)) \<Rightarrow>
                    (case cs_Load (empty_cstore l3 dir, w3) of
                       (res, (r, w4)) \<Rightarrow>
                         (case Unlock (cs_lockfile r) of
                            (Inl e, _) \<Rightarrow> (Inl e, w4)
                          | (Inr _, l5) \<Rightarrow>
                              (case res of
                                 Inl e \<Rightarrow> (Inl e, w4)
                               | Inr _ \<Rightarrow> (Inr (r\<lparr>cs_lockfile := l5\<rparr>), w4)))))))"

definition cs_ReloadIfChanged :: "(containerStore \<times> world, unit) go" where
  "cs_ReloadIfChanged s =
     (case Modified (cs_lockfile (fst s), snd s) of
        (Inl e, (l, w)) \<Rightarrow> (Inl e, ((fst s)\<lparr>cs_lockfile := l\<rparr>, w))
      | (Inr modified, (l, w)) \<Rightarrow>
          (let s' = ((fst s)\<lparr>cs_lockfile := l\<rparr>, w)
           in if modified then cs_Load s' else (Inr (), s')))"

section \<open>Operations on one container\<close>

definition cs_lookup :: "containerStore \<Rightarrow> string \<Rightarrow> nat option" where
  "cs_lookup r ident =
     (case byid r ident of
        Some x \<Rightarrow> Some x
      | None \<Rightarrow>
          (case byname r ident of
             Some x \<Rightarrow> Some x
           | None \<Rightarrow>
               (case bylayer r ident of
                  Some x \<Rightarrow> Some x
                | None \<Rightarrow>
                    (case ti_Get (idindex r) ident of
                       Inr longid \<Rightarrow> byid r longid
                     | Inl _ \<Rightarrow> None))))"

definition cs_ClearFlag :: "string \<Rightarrow> string \<Rightarrow> (containerStore \<times> world, unit) go" where
  "cs_ClearFlag ident flag s =
     (case cs_lookup (fst s) ident of
        None \<Rightarrow> (Inl ErrContainerUnknown, s)
      | Some x \<Rightarrow> cs_Save (update_obj x (c_Flags_update (\<lambda>fl. fl(flag := None))) (fst s), snd s))"

definition cs_SetFlag :: "string \<Rightarrow> string \<Rightarrow> ival \<Rightarrow> (containerStore \<times> world, unit) go" where
  "cs_SetFlag ident flag v s =
     (case cs_lookup (fst s) ident of
        None \<Rightarrow> (Inl ErrContainerUnknown, s)
      | Some x \<Rightarrow> cs_Save (update_obj x (c_Flags_update (\<lambda>fl. fl(flag \<mapsto> v))) (fst s), snd s))"

text \<open>
  The flags \<open>Create\<close> records: it stores \<open>MountOpts\<close> and \<open>Volatile\<close> into the map of the
  options first, which panics if that map is nil.
\<close>

definition create_flags :: "ContainerOptions \<Rightarrow> gerr + flags" where
  "create_flags opts =
     (case co_Flags opts of
        None \<Rightarrow> if co_MountOpts opts \<noteq> None \<or> co_Volatile opts
                then Inl (Panic ''assignment to entry in nil map'') else Inr Map.empty
      | Some fl \<Rightarrow>
          let fl1 = (case co_MountOpts opts of None \<Rightarrow> fl | Some m \<Rightarrow> fl(''MountOpts'' \<mapsto> IStrings m));
              fl2 = (if co_Volatile opts then fl1(''Volatile'' \<mapsto> IBool True) else fl1)
          in Inr fl2)"

definition new_container :: "string \<Rightarrow> string list \<Rightarrow> string \<Rightarrow> string \<Rightarrow> string \<Rightarrow> nat \<Rightarrow> flags \<Rightarrow>
    ContainerOptions \<Rightarrow> Container" where
  "new_container ident names imageID layer metadata now fl opts =
     \<lparr>c_ID = ident, c_Names = names, c_ImageID = imageID, c_LayerID = layer, c_Metadata = metadata,
      c_BigDataNames = [], c_BigDataSizes = [], c_BigDataDigests = [], c_Created = now,
      c_UIDMap = copyIDMap (UIDMap (co_IDMappingOptions opts)),
      c_GIDMap = copyIDMap (GIDMap (co_IDMappingOptions opts)), c_Flags = fl\<rparr>"

definition cs_Create :: "string \<Rightarrow> string list \<Rightarrow> string \<Rightarrow> string \<Rightarrow> string \<Rightarrow> ContainerOptions \<Rightarrow>
    (containerStore \<times> world, Container) go" where
  "cs_Create ident names imageID layer metadata opts s =
     (let r = fst s in
      case pick_id (\<lambda>k. byid r k \<noteq> None) ident (snd s) of
        (Inl e, w) \<Rightarrow> (Inl e, (r, w))
      | (Inr k, w) \<Rightarrow>
          if byid r k \<noteq> None then (Inl ErrDuplicateID, (r, w))
          else case create_flags opts of
            Inl e \<Rightarrow> (Inl e, (r, w))
          | Inr fl \<Rightarrow>
              let ns = dedupeNames names in
              if list_ex (\<lambda>n. byname r n \<noteq> None) ns then (Inl ErrDuplicateName, (r, w))
              else let c = new_container k ns imageID layer metadata (clock w) fl opts;
                       r1 = (insert_item k ns c r)\<lparr>bylayer := (bylayer r)(layer \<mapsto> length (objs r))\<rparr>
                   in (case cs_Save (r1, w) of
                         (Inl e, s') \<Rightarrow> (Inl e, s')
                       | (Inr _, s') \<Rightarrow> (Inr (copyContainer c), s')))"

definition cs_Metadata :: "string \<Rightarrow> containerStore \<Rightarrow> gerr + string" where
  "cs_Metadata ident r =
     (case cs_lookup r ident of Some x \<Rightarrow> Inr (c_Metadata (objs r ! x)) | None \<Rightarrow> Inl ErrContainerUnknown)"

definition cs_SetMetadata :: "string \<Rightarrow> string \<Rightarrow> (containerStore \<times> world, unit) go" where
  "cs_SetMetadata ident metadata s =
     (case cs_lookup (fst s) ident of
        Some x \<Rightarrow> cs_Save (update_obj x (c_Metadata_update (\<lambda>_. metadata)) (fst s), snd s)
      | None \<Rightarrow> (Inl ErrContainerUnknown, s))"

definition cs_removeName :: "nat \<Rightarrow> string \<Rightarrow> containerStore \<Rightarrow> containerStore" where
  "cs_removeName x name = update_obj x (c_Names_update (\<lambda>ns. stringSliceWithoutValue ns name))"

definition cs_SetNames :: "string \<Rightarrow> string list \<Rightarrow> (containerStore \<times> world, unit) go" where
  "cs_SetNames ident names s =
     (case cs_lookup (fst s) ident of
        Some x \<Rightarrow> cs_Save (set_names c_Names c_Names_update (\<lambda>_ c. c) (dedupeNames names) x (fst s), snd s)
      | None \<Rightarrow> (Inl ErrContainerUnknown, s))"

definition cs_Delete :: "string \<Rightarrow> (containerStore \<times> world, unit) go" where
  "cs_Delete ident s =
     (let r = fst s in
      case cs_lookup r ident of
        None \<Rightarrow> (Inl ErrContainerUnknown, s)
      | Some x \<Rightarrow>
          let c = objs r ! x;
              toDeleteIndex = find_index (\<lambda>y. c_ID (objs r ! y) = c_ID c) (items r);
              r1 = (remove_item (c_ID c) (c_Names c) toDeleteIndex r)
                     \<lparr>bylayer := (bylayer r)(c_LayerID c := None)\<rparr>
          in (case cs_Save (r1, snd s) of
                (Inl e, s') \<Rightarrow> (Inl e, s')
              | (Inr _, (r2, w2)) \<Rightarrow>
                  (case RemoveAll (cs_datadir r2 (c_ID c)) w2 of (res, w3) \<Rightarrow> (res, (r2, w3)))))"

definition cs_Get :: "string \<Rightarrow> containerStore \<Rightarrow> gerr + Container" where
  "cs_Get ident r =
     (case cs_lookup r ident of Some x \<Rightarrow> Inr (copyContainer (objs r ! x)) | None \<Rightarrow> Inl ErrContainerUnknown)"

definition cs_Lookup :: "string \<Rightarrow> containerStore \<Rightarrow> gerr + string" where
  "cs_Lookup name r =
     (case cs_lookup r name of Some x \<Rightarrow> Inr (c_ID (objs r ! x)) | None \<Rightarrow> Inl ErrContainerUnknown)"

definition cs_Exists :: "string \<Rightarrow> containerStore \<Rightarrow> bool" where
  "cs_Exists ident r = (cs_lookup r ident \<noteq> None)"

section \<open>Big data\<close>

definition cs_BigData :: "string \<Rightarrow> string \<Rightarrow> (containerStore \<times> world, bytes) go" where
  "cs_BigData ident key s =
     (if key = [] then (Inl ErrInvalidBigDataName, s)
      else case cs_lookup (fst s) ident of
        None \<Rightarrow> (Inl ErrContainerUnknown, s)
      | Some x \<Rightarrow>
          (case ReadFile (cs_datapath (fst s) (c_ID (objs (fst s) ! x)) key) (snd s) of
             (Inl e, w) \<Rightarrow> (Inl e, (fst s, w))
           | (Inr c, w) \<Rightarrow> (Inr (content_bytes c), (fst s, w))))"

definition c_record_big_data :: "string \<Rightarrow> int \<Rightarrow> digest \<Rightarrow> Container \<Rightarrow> bool \<times> Container" where
  "c_record_big_data key sz d c =
     (let (save, names, sizes, digests) =
            record_big_data key sz d (c_BigDataNames c, c_BigDataSizes c, c_BigDataDigests c)
      in (save, c\<lparr>c_BigDataNames := names, c_BigDataSizes := sizes, c_BigDataDigests := digests\<rparr>))"

definition cs_SetBigData :: "(bytes \<Rightarrow> digest) \<Rightarrow> string \<Rightarrow> string \<Rightarrow> bytes \<Rightarrow> (containerStore \<times> world, unit) go" where
  "cs_SetBigData fromBytes ident key data s =
     (let r = fst s in
      if key = [] then (Inl ErrInvalidBigDataName, s)
      else case cs_lookup r ident of
        None \<Rightarrow> (Inl ErrContainerUnknown, s)
      | Some x \<Rightarrow>
          let c = objs r ! x in
          (case MkdirAll (cs_datadir r (c_ID c)) (snd s) of
             (Inl e, w1) \<Rightarrow> (Inl e, (r, w1))
           | (Inr _, w1) \<Rightarrow>
               (case AtomicWriteFile (cs_datapath r (c_ID c) key) (Bytes data) w1 of
                  (Inl e, w2) \<Rightarrow> (Inl e, (r, w2))
                | (Inr _, w2) \<Rightarrow>
                    let (save, c') = c_record_big_data key (int (length data)) (fromBytes data) c;
                        r' = update_obj x (\<lambda>_. c') r
                    in if save then cs_Save (r', w2) else (Inr (), (r', w2)))))"

text \<open>
  \<open>BigDataSize\<close> and \<open>BigDataDigest\<close>: a value that is not recorded is computed by storing the
  item again.  \<open>get\<close> reads the recorded value of a container.
\<close>

definition cs_recorded :: "(bytes \<Rightarrow> digest) \<Rightarrow> (Container \<Rightarrow> 'v option) \<Rightarrow> gerr \<Rightarrow> string \<Rightarrow> string \<Rightarrow>
    (containerStore \<times> world, 'v) go" where
  "cs_recorded fromBytes get unknown ident key s =
     (if key = [] then (Inl ErrInvalidBigDataName, s)
      else case cs_lookup (fst s) ident of
        None \<Rightarrow> (Inl ErrContainerUnknown, s)
      | Some x \<Rightarrow>
          (case get (objs (fst s) ! x) of
             Some v \<Rightarrow> (Inr v, s)
           | None \<Rightarrow>
               (case cs_BigData ident key s of
                  (Inl _, s1) \<Rightarrow> (Inl unknown, s1)
                | (Inr data, s1) \<Rightarrow>
                    (case cs_SetBigData fromBytes ident key data s1 of
                       (Inl e, s2) \<Rightarrow> (Inl e, s2)
                     | (Inr _, s2) \<Rightarrow>
                         (case cs_lookup (fst s2) ident of
                            None \<Rightarrow> (Inl ErrContainerUnknown, s2)
                          | Some y \<Rightarrow>
                              (case get (objs (fst s2) ! y) of
                                 Some v \<Rightarrow> (Inr v, s2)
                               | None \<Rightarrow> (Inl unknown, s2)))))))"

definition cs_BigDataSize :: "(bytes \<Rightarrow> digest) \<Rightarrow> string \<Rightarrow> string \<Rightarrow> (containerStore \<times> world, int) go" where
  "cs_BigDataSize fromBytes ident key =
     cs_recorded fromBytes (\<lambda>c. map_of (c_BigDataSizes c) key) ErrSizeUnknown ident key"

definition cs_BigDataDigest :: "(bytes \<Rightarrow> digest) \<Rightarrow> string \<Rightarrow> string \<Rightarrow> (containerStore \<times> world, digest) go" where
  "cs_BigDataDigest fromBytes ident key =
     cs_recorded fromBytes (\<lambda>c. map_of (c_BigDataDigests c) key) ErrDigestUnknown ident key"

definition cs_BigDataNames :: "string \<Rightarrow> containerStore \<Rightarrow> gerr + string list" where
  "cs_BigDataNames ident r =
     (case cs_lookup r ident of Some x \<Rightarrow> Inr (c_BigDataNames (objs r ! x)) | None \<Rightarrow> Inl ErrContainerUnknown)"

text \<open>\<open>Wipe\<close> deletes in the order in which the range over the map delivers the keys.\<close>

fun cs_Wipe :: "string list \<Rightarrow> (containerStore \<times> world, unit) go" where
  "cs_Wipe [] s = (Inr (), s)"
| "cs_Wipe (k # ks) s = (case cs_Delete k s of (Inl e, s') \<Rightarrow> (Inl e, s') | (Inr _, s') \<Rightarrow> cs_Wipe ks s')"

text \<open>Inputs of the examples.\<close>

definition demo_cs :: containerStore where
  "demo_cs = empty_cstore (demo_lock [''d'', ''containers.lock'']) [''d'']"

definition demo_copts :: ContainerOptions where
  "demo_copts = \<lparr>co_IDMappingOptions = \<lparr>HostUIDMapping = True, HostGIDMapping = True, UIDMap = None, GIDMap = None,
       AutoUserNs = False, AutoUserNsOpts = no_auto_userns\<rparr>,
     co_LabelOpts = [], co_Flags = Some Map.empty, co_MountOpts = None, co_Volatile = False, co_StorageOpt = []\<rparr>"

section \<open>Invariant\<close>

interpretation cs: named_item c_ID c_Names c_Names_update
  by unfold_locales auto

definition bylayer_ok :: "containerStore \<Rightarrow> bool" where
  "bylayer_ok r \<longleftrightarrow> (\<forall>k y. bylayer r k = Some y \<longrightarrow> y \<in> set (items r) \<and> c_LayerID (objs r ! y) = k)"

definition cs_ok :: "containerStore \<Rightarrow> bool" where
  "cs_ok r \<longleftrightarrow> store_ok c_ID c_Names r \<and> bylayer_ok r"

text \<open>A container document that \<open>Load\<close> accepts without losing records.\<close>

definition wf_containers :: "Container list \<Rightarrow> bool" where
  "wf_containers cs \<longleftrightarrow> distinct (map c_ID cs) \<and> (\<forall>c \<in> set cs. distinct (c_Names c))"

lemma cs_ok_lockfile [simp]: "cs_ok (r\<lparr>cs_lockfile := l\<rparr>) \<longleftrightarrow> cs_ok r"
  by (simp add: cs_ok_def store_ok_def bylayer_ok_def)

lemma item_map_lockfile [simp]: "item_map (r\<lparr>cs_lockfile := l\<rparr>) = item_map r"
  "item_list (r\<lparr>cs_lockfile := l\<rparr>) = item_list r" "cs_lookup (r\<lparr>cs_lockfile := l\<rparr>) = cs_lookup r"
  by (simp_all add: item_map_def item_list_def cs_lookup_def fun_eq_iff cong: option.case_cong sum.case_cong)

lemma item_map_bylayer [simp]: "item_map (r\<lparr>bylayer := m\<rparr>) = item_map r"
  "item_list (r\<lparr>bylayer := m\<rparr>) = item_list r" "store_ok c_ID c_Names (r\<lparr>bylayer := m\<rparr>) = store_ok c_ID c_Names r"
  by (simp_all add: item_map_def item_list_def store_ok_def)

lemma cs_update_obj_fields [simp]:
  "bylayer (update_obj x f r) = bylayer r" "cs_dir (update_obj x f r) = cs_dir r"
  "cs_lockfile (update_obj x f r) = cs_lockfile r"
  by (simp_all add: update_obj_def)

lemma cs_Save_frame:
  assumes "cs_Save (r, w) = (res, (r', w'))"
  shows "\<exists>l. r' = r\<lparr>cs_lockfile := l\<rparr>"
proof -
  have "\<exists>l. r = r\<lparr>cs_lockfile := l\<rparr>" by (rule exI [of _ "cs_lockfile r"]) simp
  with assms show ?thesis by (auto simp: cs_Save_def Let_def split: if_splits prod.splits)
qed

lemma cs_Save_lock:
  assumes "cs_Save (r, w) = (res, (r', w'))"
  shows "\<exists>k. cs_lockfile r' = (cs_lockfile r)\<lparr>lw := k\<rparr>"
proof (cases "Locked (cs_lockfile r)")
  case True
  then show ?thesis
    using assms save_file_frame(1) by (auto simp: cs_Save_def Let_def split: prod.splits)
next
  case False
  then show ?thesis
    using assms by (auto simp: cs_Save_def intro: exI [of _ "lw (cs_lockfile r)"])
qed

lemma cs_Save_file:
  assumes "cs_Save (r, w) = (Inr (), (r', w'))" "lk_file (cs_lockfile r) \<noteq> cs_containerspath r"
  shows "fs w' (cs_containerspath r) = Some (JContainers (map json_Container (item_list r)))"
  using assms save_file_frame(3) by (auto simp: cs_Save_def Let_def split: if_splits prod.splits)

lemma cs_lookup_item:
  assumes "cs_ok r" "cs_lookup r ident = Some x"
  shows "x \<in> set (items r)" "x < length (objs r)" "byid r (c_ID (objs r ! x)) = Some x"
proof -
  have s: "store_ok c_ID c_Names r" and b: "bylayer_ok r" using assms(1) by (simp_all add: cs_ok_def)
  show x: "x \<in> set (items r)"
    using assms(2) b store_okD(1,2) [OF s]
    by (auto simp: cs_lookup_def bylayer_ok_def split: option.splits sum.splits)
  then show "x < length (objs r)" "byid r (c_ID (objs r ! x)) = Some x" using store_okD(3) [OF s] by blast+
qed

lemma cs_ok_update_obj:
  assumes "cs_ok r" "cs_lookup r ident = Some x"
    and "c_ID (f (objs r ! x)) = c_ID (objs r ! x)" "c_Names (f (objs r ! x)) = c_Names (objs r ! x)"
    "c_LayerID (f (objs r ! x)) = c_LayerID (objs r ! x)"
  shows "cs_ok (update_obj x f r)"
proof -
  note x = cs_lookup_item [OF assms(1,2)]
  have "c_LayerID ((objs r)[x := f (objs r ! x)] ! y) = c_LayerID (objs r ! y)" for y
    using x assms(5) by (cases "y = x") simp_all
  then show ?thesis
    using assms x cs.store_ok_update_obj [of r x f]
    by (auto simp: cs_ok_def bylayer_ok_def frame_simps) (simp add: update_obj_def)
qed

lemma cs_ok_insert:
  assumes "cs_ok r" "byid r k = None" "c_ID c = k" "c_Names c = ns" "distinct ns"
    "\<forall>n \<in> set ns. byname r n = None"
  shows "cs_ok ((insert_item k ns c r)\<lparr>bylayer := (bylayer r)(c_LayerID c \<mapsto> length (objs r))\<rparr>)"
proof -
  have "store_ok c_ID c_Names (insert_item k ns c r)"
    using assms by (intro cs.store_ok_insert_item) (simp_all add: cs_ok_def)
  moreover have "y < length (objs r)" if "y \<in> set (items r)" for y
    using assms(1) that by (simp add: cs_ok_def store_ok_def)
  ultimately show ?thesis
    using assms(1) unfolding cs_ok_def
    by (auto simp: bylayer_ok_def insert_item_def Let_def nth_append)
qed

lemma cs_ok_set_names:
  assumes "cs_ok r" "cs_lookup r ident = Some x"
  shows "cs_ok (set_names c_Names c_Names_update (\<lambda>_ c. c) (dedupeNames names) x r)" (is "cs_ok ?r")
proof -
  have s: "store_ok c_ID c_Names r" using assms(1) by (simp add: cs_ok_def)
  note x = cs_lookup_item [OF assms]
  note spec = cs.set_names_spec [where mark = "\<lambda>_ c. c", OF s x(1) distinct_dedupeNames [of names] refl refl]
  obtain os bn where r: "?r = r\<lparr>objs := os, byname := bn\<rparr>" using spec(3) by blast
  have "c_LayerID (os ! y) = c_LayerID (objs r ! y)" if y: "y \<in> set (items r)" for y
    using spec(4) [OF y] by (simp add: r cs.fold_ignore split: if_splits)
  then show ?thesis using spec(1) assms(1) by (auto simp: cs_ok_def bylayer_ok_def r)
qed

lemma cs_delete_index:
  assumes "cs_ok r" "cs_lookup r ident = Some x"
  shows "\<exists>i. find_index (\<lambda>y. c_ID (objs r ! y) = c_ID (objs r ! x)) (items r) = Some i \<and>
    i < length (items r) \<and> items r ! i = x"
proof -
  have s: "store_ok c_ID c_Names r" using assms(1) by (simp add: cs_ok_def)
  note x = cs_lookup_item [OF assms]
  obtain i where i: "find_index (\<lambda>y. c_ID (objs r ! y) = c_ID (objs r ! x)) (items r) = Some i"
    using x(1) by (metis (mono_tags) find_index_None option.exhaust)
  from find_index_Some [OF this] store_ok_inj [OF s _ x(1)] show ?thesis using i by auto
qed

lemma cs_ok_remove:
  assumes "cs_ok r" "cs_lookup r ident = Some x" "i < length (items r)" "items r ! i = x"
  shows "cs_ok ((remove_item (c_ID (objs r ! x)) (c_Names (objs r ! x)) (Some i) r)
    \<lparr>bylayer := (bylayer r)(c_LayerID (objs r ! x) := None)\<rparr>)"
proof -
  have s: "store_ok c_ID c_Names r" using assms(1) by (simp add: cs_ok_def)
  note x = cs_lookup_item [OF assms(1,2)]
  have "set (remove_nth i (items r)) = set (items r) - {x}"
    using s assms(3,4) by (simp add: store_ok_def set_remove_nth)
  then show ?thesis
    using assms(1) cs.store_ok_remove_item [OF s x(1) assms(3,4)]
    by (auto simp: cs_ok_def bylayer_ok_def remove_item_def)
qed

lemma load_layers_apply:
  "load_layers n cs m k = Some y \<Longrightarrow>
   (\<exists>i < length cs. y = n + i \<and> c_LayerID (cs ! i) = k) \<or> m k = Some y"
proof (induction cs arbitrary: n m)
  case Nil
  then show ?case by simp
next
  case (Cons c cs)
  define m1 where "m1 = m(c_LayerID c \<mapsto> n)"
  from Cons.IH [of "Suc n" m1] Cons.prems
  consider i where "i < length cs" "y = Suc n + i" "c_LayerID (cs ! i) = k" | "m1 k = Some y"
    by (auto simp: m1_def [symmetric])
  then show ?case
  proof cases
    case 1
    then show ?thesis by (intro disjI1 exI [of _ "Suc i"]) simp
  next
    case 2
    then show ?thesis by (cases "k = c_LayerID c") (auto simp: m1_def intro: exI [of _ 0])
  qed
qed

lemma cs_load_data_ok:
  assumes "wf_containers cs" "cs_load_data cs (r, w) = (res, (r', w'))"
  shows "cs_ok r'" and "map c_ID (item_list r') = map c_ID cs"
proof -
  obtain r1 b where l: "load_store c_ID c_Names c_Names_update cs r = (r1, b)" by force
  let ?r = "r1\<lparr>bylayer := load_layers 0 cs Map.empty\<rparr>"
  obtain k where r': "r' = ?r\<lparr>cs_lockfile := k\<rparr>"
  proof (cases b)
    case True
    then have "cs_Save (?r, w) = (res, (r', w'))" using assms(2) l by (simp add: cs_load_data_def)
    from cs_Save_frame [OF this] that show ?thesis by blast
  next
    case False
    then have "r' = ?r" using assms(2) l by (simp add: cs_load_data_def)
    with that [of "cs_lockfile ?r"] show ?thesis by simp
  qed
  note spec = cs.load_store_spec [OF _ _ l]
  have wf: "distinct (map c_ID cs)" "\<forall>c \<in> set cs. distinct (c_Names c)"
    using assms(1) by (simp_all add: wf_containers_def)
  show "map c_ID (item_list r') = map c_ID cs" using spec(2) [OF wf] by (simp add: r')
  have lay: "map c_LayerID (objs r1) = map c_LayerID cs \<and> items r1 = [0..<length cs]"
    using spec(4) [OF wf] cs.load_store_proj [of c_LayerID, OF _ l] by auto
  have "bylayer_ok ?r"
    unfolding bylayer_ok_def
  proof (intro allI impI)
    fix k y assume "bylayer ?r k = Some y"
    then obtain i where i: "i < length cs" "y = i" "c_LayerID (cs ! i) = k"
      using load_layers_apply [of 0 cs Map.empty k y] by auto
    moreover have "c_LayerID (objs r1 ! i) = c_LayerID (cs ! i)"
      using lay i(1) by (metis length_map nth_map)
    ultimately show "y \<in> set (items ?r) \<and> c_LayerID (objs ?r ! y) = k" using lay by simp
  qed
  then have "cs_ok ?r" using spec(1) [OF wf] by (simp add: cs_ok_def)
  then show "cs_ok r'" by (simp add: r')
qed

section \<open>What the operations do\<close>

lemma cs_same_lockfile: "\<exists>l. r = r\<lparr>cs_lockfile := l\<rparr>" for r :: containerStore
  by (rule exI [of _ "cs_lockfile r"]) simp

lemma cs_Create_cases:
  assumes "cs_Create ident names imageID layer metadata opts (r, w) = (res, (r', w'))"
  obtains (fail) e where "res = Inl e" "r' = r" "fs w' = fs w"
  | (save) k fl w1 c l where "byid r k = None" "ident \<noteq> [] \<longrightarrow> k = ident" "create_flags opts = Inr fl"
      "\<forall>n \<in> set names. byname r n = None"
      "c = new_container k (dedupeNames names) imageID layer metadata (clock w1) fl opts"
      "fs w1 = fs w" "clock w1 = clock w"
      "r' = (insert_item k (dedupeNames names) c r)\<lparr>bylayer := (bylayer r)(layer \<mapsto> length (objs r)), cs_lockfile := l\<rparr>"
      "cs_Save ((insert_item k (dedupeNames names) c r)\<lparr>bylayer := (bylayer r)(layer \<mapsto> length (objs r))\<rparr>, w1)
         = (map_sum id (\<lambda>_. ()) res, (r', w'))"
      "\<forall>c'. res = Inr c' \<longrightarrow> c' = copyContainer c"
proof -
  obtain x w1 where g: "pick_id (\<lambda>k. byid r k \<noteq> None) ident w = (x, w1)" by force
  have w1: "fs w1 = fs w" "clock w1 = clock w" using pick_id_frame [OF g] by simp_all
  show ?thesis
  proof (cases x)
    case (Inl e)
    then show ?thesis using assms g w1 fail by (auto simp: cs_Create_def Let_def)
  next
    case (Inr k)
    have kid: "ident \<noteq> [] \<longrightarrow> k = ident" using g Inr by (auto simp: pick_id_def)
    note run = assms [unfolded cs_Create_def Let_def fst_conv snd_conv g Inr, simplified]
    show ?thesis
    proof (cases "byid r k = None")
      case False
      then show ?thesis using run w1 fail by auto
    next
      case new: True
      show ?thesis
      proof (cases "create_flags opts")
        case (Inl e)
        then show ?thesis using run w1 fail new by auto
      next
        case (Inr fl)
        show ?thesis
        proof (cases "list_ex (\<lambda>n. byname r n \<noteq> None) (dedupeNames names)")
          case True
          then show ?thesis using run w1 fail new Inr by auto
        next
          case False
          define c where "c = new_container k (dedupeNames names) imageID layer metadata (clock w1) fl opts"
          define r1 where "r1 = (insert_item k (dedupeNames names) c r)\<lparr>bylayer := (bylayer r)(layer \<mapsto> length (objs r))\<rparr>"
          obtain y r2 w2 where sv: "cs_Save (r1, w1) = (y, (r2, w2))" by (metis prod_cases3)
          obtain l where l: "r2 = r1\<lparr>cs_lockfile := l\<rparr>" using cs_Save_frame [OF sv] by blast
          have free: "\<forall>n \<in> set names. byname r n = None" using False by (simp add: list_ex_iff)
          have "(case y of Inl e \<Rightarrow> (Inl e, r2, w2) | Inr _ \<Rightarrow> (Inr (copyContainer c), r2, w2)) = (res, r', w')"
            using run new Inr False sv by (simp add: c_def [symmetric] r1_def [symmetric] split: sum.splits)
          then have "r' = r2" "w' = w2" "y = map_sum id (\<lambda>_. ()) res" "\<forall>c'. res = Inr c' \<longrightarrow> c' = copyContainer c"
            by (cases y; auto)+
          then show ?thesis
            using save [OF new kid Inr free c_def w1] sv l by (simp add: r1_def)
        qed
      qed
    qed
  qed
qed

lemma cs_update_cases:
  assumes "op = (\<lambda>s. case cs_lookup (fst s) ident of
      None \<Rightarrow> (Inl ErrContainerUnknown, s) | Some x \<Rightarrow> cs_Save (update_obj x f (fst s), snd s))"
    and "op (r, w) = (res, (r', w'))" "cs_ok r"
    and "\<And>c. c_ID (f c) = c_ID c" "\<And>c. c_Names (f c) = c_Names c" "\<And>c. c_LayerID (f c) = c_LayerID c"
  shows "cs_ok r'"
    and "cs_lookup r ident = None \<Longrightarrow> res = Inl ErrContainerUnknown \<and> r' = r \<and> w' = w"
    and "cs_lookup r ident = Some x \<Longrightarrow>
      item_map r' = (item_map r)(c_ID (objs r ! x) \<mapsto> f (objs r ! x)) \<and> cs_Save (update_obj x f r, w) = (res, (r', w'))"
proof -
  show none: "cs_lookup r ident = None \<Longrightarrow> res = Inl ErrContainerUnknown \<and> r' = r \<and> w' = w"
    using assms(1,2) by simp
  have some: "item_map r' = (item_map r)(c_ID (objs r ! x) \<mapsto> f (objs r ! x)) \<and>
      cs_Save (update_obj x f r, w) = (res, (r', w')) \<and> cs_ok r'" if l: "cs_lookup r ident = Some x" for x
  proof -
    have sv: "cs_Save (update_obj x f r, w) = (res, (r', w'))" using assms(1,2) l by simp
    obtain k where r': "r' = (update_obj x f r)\<lparr>cs_lockfile := k\<rparr>" using cs_Save_frame [OF sv] by blast
    have "item_map (update_obj x f r) = (item_map r)(c_ID (objs r ! x) \<mapsto> f (objs r ! x))"
      using assms(3,4) cs_lookup_item(1) [OF assms(3) l] by (intro cs.item_map_update_obj) (simp_all add: cs_ok_def)
    moreover have "cs_ok (update_obj x f r)" using assms(3-6) l by (intro cs_ok_update_obj)
    ultimately show ?thesis using sv by (simp add: r')
  qed
  then show "cs_lookup r ident = Some x \<Longrightarrow>
      item_map r' = (item_map r)(c_ID (objs r ! x) \<mapsto> f (objs r ! x)) \<and> cs_Save (update_obj x f r, w) = (res, (r', w'))"
    by blast
  show "cs_ok r'"
    using none some assms(3) by (cases "cs_lookup r ident") auto
qed

lemma cs_Create_ok:
  assumes "cs_ok r" "cs_Create ident names imageID layer metadata opts (r, w) = (res, (r', w'))"
  shows "cs_ok r'"
  using assms(2)
proof (cases rule: cs_Create_cases)
  case (save k fl w1 c l)
  have "cs_ok ((insert_item k (dedupeNames names) c r)\<lparr>bylayer := (bylayer r)(c_LayerID c \<mapsto> length (objs r))\<rparr>)"
    using assms(1) save by (intro cs_ok_insert) (simp_all add: new_container_def)
  then show ?thesis using save by (simp add: new_container_def)
qed (simp add: assms(1))

lemma cs_SetNames_cases:
  assumes "cs_ok r" "cs_SetNames ident names (r, w) = (res, (r', w'))"
  shows "cs_ok r'"
    and "cs_lookup r ident = None \<Longrightarrow> res = Inl ErrContainerUnknown \<and> r' = r \<and> w' = w"
    and "cs_lookup r ident = Some x \<Longrightarrow> item_map r' = (\<lambda>k.
      if k = c_ID (objs r ! x) then Some ((objs r ! x)\<lparr>c_Names := dedupeNames names\<rparr>)
      else map_option (c_Names_update (filter (\<lambda>n. n \<notin> set names))) (item_map r k))"
proof -
  show none: "cs_lookup r ident = None \<Longrightarrow> res = Inl ErrContainerUnknown \<and> r' = r \<and> w' = w"
    using assms(2) by (simp add: cs_SetNames_def)
  have some: "cs_ok r' \<and> item_map r' = (\<lambda>k.
      if k = c_ID (objs r ! x) then Some ((objs r ! x)\<lparr>c_Names := dedupeNames names\<rparr>)
      else map_option (c_Names_update (filter (\<lambda>n. n \<notin> set names))) (item_map r k))"
    if l: "cs_lookup r ident = Some x" for x
  proof -
    let ?r = "set_names c_Names c_Names_update (\<lambda>_ c. c) (dedupeNames names) x r"
    have "cs_Save (?r, w) = (res, (r', w'))" using assms(2) l by (simp add: cs_SetNames_def)
    from cs_Save_frame [OF this] obtain k where r': "r' = ?r\<lparr>cs_lockfile := k\<rparr>" by blast
    have s: "store_ok c_ID c_Names r" using assms(1) by (simp add: cs_ok_def)
    show ?thesis
      using cs_ok_set_names [OF assms(1) l, of names]
        cs.set_names_spec(2) [where mark = "\<lambda>_ c. c", OF s cs_lookup_item(1) [OF assms(1) l] distinct_dedupeNames [of names] refl refl]
      by (simp add: r' cs.fold_ignore cong: if_cong)
  qed
  then show "cs_lookup r ident = Some x \<Longrightarrow> item_map r' = (\<lambda>k.
      if k = c_ID (objs r ! x) then Some ((objs r ! x)\<lparr>c_Names := dedupeNames names\<rparr>)
      else map_option (c_Names_update (filter (\<lambda>n. n \<notin> set names))) (item_map r k))" by blast
  show "cs_ok r'" using none some assms(1) by (cases "cs_lookup r ident") auto
qed

lemma cs_Delete_cases:
  assumes "cs_ok r" "cs_Delete ident (r, w) = (res, (r', w'))"
  shows "cs_ok r'"
    and "cs_lookup r ident = None \<Longrightarrow> res = Inl ErrContainerUnknown \<and> r' = r \<and> w' = w"
    and "cs_lookup r ident = Some x \<Longrightarrow> item_map r' = (item_map r)(c_ID (objs r ! x) := None) \<and>
      cs_dir r' = cs_dir r \<and> byid r' = (byid r)(c_ID (objs r ! x) := None) \<and>
      (res = Inr () \<longrightarrow> (\<forall>q. prefix (cs_datadir r (c_ID (objs r ! x))) q \<longrightarrow> fs w' q = None))"
proof -
  show none: "cs_lookup r ident = None \<Longrightarrow> res = Inl ErrContainerUnknown \<and> r' = r \<and> w' = w"
    using assms(2) by (simp add: cs_Delete_def)
  have some: "cs_ok r' \<and> item_map r' = (item_map r)(c_ID (objs r ! x) := None) \<and>
      cs_dir r' = cs_dir r \<and> byid r' = (byid r)(c_ID (objs r ! x) := None) \<and>
      (res = Inr () \<longrightarrow> (\<forall>q. prefix (cs_datadir r (c_ID (objs r ! x))) q \<longrightarrow> fs w' q = None))"
    if l: "cs_lookup r ident = Some x" for x
  proof -
    let ?c = "objs r ! x"
    obtain i where i: "find_index (\<lambda>y. c_ID (objs r ! y) = c_ID ?c) (items r) = Some i" "i < length (items r)" "items r ! i = x"
      using cs_delete_index [OF assms(1) l] by blast
    define r1 where "r1 = (remove_item (c_ID ?c) (c_Names ?c) (Some i) r)\<lparr>bylayer := (bylayer r)(c_LayerID ?c := None)\<rparr>"
    have ok1: "cs_ok r1" unfolding r1_def by (rule cs_ok_remove [OF assms(1) l i(2,3)])
    have m1: "item_map r1 = (item_map r)(c_ID ?c := None)" by (simp add: r1_def cs.item_map_remove_item)
    have f1: "cs_dir r1 = cs_dir r" "byid r1 = (byid r)(c_ID ?c := None)" by (simp_all add: r1_def remove_item_def)
    obtain y r2 w2 where sv: "cs_Save (r1, w) = (y, (r2, w2))" by (metis prod_cases3)
    obtain k where k: "r2 = r1\<lparr>cs_lockfile := k\<rparr>" using cs_Save_frame [OF sv] by blast
    obtain z w3 where rm: "RemoveAll (cs_datadir r2 (c_ID ?c)) w2 = (z, w3)" by force
    have run: "(case y of Inl e \<Rightarrow> (Inl e, r2, w2) | Inr _ \<Rightarrow> (z, r2, w3)) = (res, r', w')"
      using assms(2) l i(1) sv rm by (cases y) (auto simp: cs_Delete_def Let_def r1_def [symmetric])
    have dd: "cs_datadir r2 (c_ID ?c) = cs_datadir r (c_ID ?c)" by (simp add: k cs_datadir_def f1)
    show ?thesis
      using run RemoveAll_fs [OF rm] ok1 m1 f1
      by (cases y; cases z) (auto simp: k cs_datadir_def)
  qed
  then show "cs_lookup r ident = Some x \<Longrightarrow> item_map r' = (item_map r)(c_ID (objs r ! x) := None) \<and>
      cs_dir r' = cs_dir r \<and> byid r' = (byid r)(c_ID (objs r ! x) := None) \<and>
      (res = Inr () \<longrightarrow> (\<forall>q. prefix (cs_datadir r (c_ID (objs r ! x))) q \<longrightarrow> fs w' q = None))" by blast
  show "cs_ok r'" using none some assms(1) by (cases "cs_lookup r ident") auto
qed

lemma cs_Wipe_spec:
  assumes "cs_ok r" "cs_Wipe ks (r, w) = (res, (r', w'))" "distinct ks" "set ks \<subseteq> dom (byid r)"
  shows "cs_ok r'" and "res = Inr () \<Longrightarrow> dom (byid r') = dom (byid r) - set ks"
proof -
  have "cs_ok r' \<and> (res = Inr () \<longrightarrow> dom (byid r') = dom (byid r) - set ks)"
    using assms
  proof (induction ks arbitrary: r w)
    case Nil
    then show ?case by auto
  next
    case (Cons k ks)
    obtain y r1 w1 where d: "cs_Delete k (r, w) = (y, (r1, w1))" by (metis prod_cases3)
    obtain x where x: "byid r k = Some x" using Cons.prems(4) by auto
    then have l: "cs_lookup r k = Some x" and kx: "c_ID (objs r ! x) = k"
      using store_okD(1) [of c_ID c_Names r k x] Cons.prems(1) by (simp_all add: cs_lookup_def cs_ok_def)
    note dc = cs_Delete_cases [OF Cons.prems(1) d]
    have b1: "dom (byid r1) = dom (byid r) - {k}" using dc(3) [OF l] kx by simp
    show ?case
    proof (cases y)
      case (Inl e)
      then show ?thesis using Cons.prems(2) d dc(1) by auto
    next
      case (Inr u)
      then have "cs_Wipe ks (r1, w1) = (res, (r', w'))" using Cons.prems(2) d by simp
      moreover have "set ks \<subseteq> dom (byid r1)" "distinct ks" using Cons.prems(3,4) b1 by auto
      ultimately have "cs_ok r' \<and> (res = Inr () \<longrightarrow> dom (byid r') = dom (byid r1) - set ks)"
        using Cons.IH [OF dc(1)] by blast
      then show ?thesis unfolding b1 by (metis Diff_insert2 list.simps(15))
    qed
  qed
  then show "cs_ok r'" "res = Inr () \<Longrightarrow> dom (byid r') = dom (byid r) - set ks" by blast+
qed

lemma c_record_big_data_fields:
  assumes "c_record_big_data key sz d c = (save, c')"
  shows "c_ID c' = c_ID c" "c_Names c' = c_Names c" "c_LayerID c' = c_LayerID c"
    and "map_of (c_BigDataSizes c') key = Some sz" "map_of (c_BigDataDigests c') key = Some d"
    and "key \<in> set (c_BigDataNames c')"
  using assms record_big_data_spec [of key sz d "c_BigDataNames c" "c_BigDataSizes c" "c_BigDataDigests c"]
  by (auto simp: c_record_big_data_def split: prod.splits)

lemma cs_SetBigData_cases:
  assumes "cs_ok r" "cs_SetBigData fromBytes ident key data (r, w) = (res, (r', w'))"
  shows "cs_ok r'"
    and "res = Inr () \<Longrightarrow> \<exists>x save c'. cs_lookup r ident = Some x \<and> key \<noteq> [] \<and>
      c_record_big_data key (int (length data)) (fromBytes data) (objs r ! x) = (save, c') \<and>
      item_map r' = (item_map r)(c_ID (objs r ! x) \<mapsto> c') \<and> cs_lookup r' = cs_lookup r \<and>
      objs r' = (objs r)[x := c'] \<and> cs_dir r' = cs_dir r \<and>
      (cs_datapath r (c_ID (objs r ! x)) key \<notin> {cs_containerspath r, lk_file (cs_lockfile r)} \<longrightarrow>
       fs w' (cs_datapath r (c_ID (objs r ! x)) key) = Some (Bytes data))"
proof -
  have "cs_ok r' \<and> (res = Inr () \<longrightarrow> (\<exists>x save c'. cs_lookup r ident = Some x \<and> key \<noteq> [] \<and>
      c_record_big_data key (int (length data)) (fromBytes data) (objs r ! x) = (save, c') \<and>
      item_map r' = (item_map r)(c_ID (objs r ! x) \<mapsto> c') \<and> cs_lookup r' = cs_lookup r \<and>
      objs r' = (objs r)[x := c'] \<and> cs_dir r' = cs_dir r \<and>
      (cs_datapath r (c_ID (objs r ! x)) key \<notin> {cs_containerspath r, lk_file (cs_lockfile r)} \<longrightarrow>
       fs w' (cs_datapath r (c_ID (objs r ! x)) key) = Some (Bytes data))))"
  proof (cases "key = [] \<or> cs_lookup r ident = None")
    case True
    then show ?thesis using assms by (cases "key = []") (auto simp: cs_SetBigData_def Let_def)
  next
    case False
    then obtain x where l: "cs_lookup r ident = Some x" and key: "key \<noteq> []" by auto
    let ?c = "objs r ! x" and ?p = "cs_datapath r (c_ID (objs r ! x)) key"
    obtain y1 w1 where m: "MkdirAll (cs_datadir r (c_ID ?c)) w = (y1, w1)" by force
    obtain y2 w2 where a: "AtomicWriteFile ?p (Bytes data) w1 = (y2, w2)" by force
    obtain save c' where rc: "c_record_big_data key (int (length data)) (fromBytes data) ?c = (save, c')" by force
    note cf = c_record_big_data_fields [OF rc]
    define r1 where "r1 = update_obj x (\<lambda>_. c') r"
    obtain y3 r3 w3 where sv: "cs_Save (r1, w2) = (y3, (r3, w3))" by (metis prod_cases3)
    have "cs_SetBigData fromBytes ident key data (r, w) = (case y1 of Inl e \<Rightarrow> (Inl e, r, w1) | Inr _ \<Rightarrow>
        (case y2 of Inl e \<Rightarrow> (Inl e, r, w2) | Inr _ \<Rightarrow> if save then (y3, r3, w3) else (Inr (), r1, w2)))"
      using key l m a rc sv
      by (cases y1; cases y2; cases save) (simp_all add: cs_SetBigData_def Let_def r1_def)
    note run = this [unfolded assms(2)]
    have ok1: "cs_ok r1" unfolding r1_def by (rule cs_ok_update_obj [OF assms(1) l]) (simp_all add: cf)
    have m1: "item_map r1 = (item_map r)(c_ID ?c \<mapsto> c')"
      using assms(1) cs_lookup_item(1) [OF assms(1) l] cf cs.item_map_update_obj [of r x "\<lambda>_. c'"]
      by (simp add: r1_def cs_ok_def)
    have f1: "cs_lookup r1 = cs_lookup r" "objs r1 = (objs r)[x := c']" "cs_dir r1 = cs_dir r" "cs_lockfile r1 = cs_lockfile r"
      by (simp_all add: r1_def update_obj_def cs_lookup_def fun_eq_iff cong: option.case_cong sum.case_cong)
    have d: "fs w2 ?p = Some (Bytes data)" if "y2 = Inr ()" using AtomicWriteFile_fs [OF a] that by simp
    obtain k where k: "r3 = r1\<lparr>cs_lockfile := k\<rparr>" using cs_Save_frame [OF sv] by blast
    have path: "cs_containerspath r1 = cs_containerspath r" by (simp add: cs_containerspath_def f1)
    have d3: "fs w3 ?p = fs w2 ?p" if "?p \<notin> {cs_containerspath r, lk_file (cs_lockfile r)}"
      using sv that save_file_frame(2) [of "cs_containerspath r1" _ "cs_lockfile r1" w2 _ _ _ ?p]
      by (auto simp: cs_Save_def Let_def path f1 split: if_splits prod.splits)
    show ?thesis
    proof (cases "y1 = Inr () \<and> y2 = Inr ()")
      case False
      then show ?thesis using run assms(1) by (cases y1; cases y2) auto
    next
      case True
      then show ?thesis
        using run ok1 m1 f1 d d3 l key rc by (cases save) (auto simp: k)
    qed
  qed
  then show "cs_ok r'"
    "res = Inr () \<Longrightarrow> \<exists>x save c'. cs_lookup r ident = Some x \<and> key \<noteq> [] \<and>
      c_record_big_data key (int (length data)) (fromBytes data) (objs r ! x) = (save, c') \<and>
      item_map r' = (item_map r)(c_ID (objs r ! x) \<mapsto> c') \<and> cs_lookup r' = cs_lookup r \<and>
      objs r' = (objs r)[x := c'] \<and> cs_dir r' = cs_dir r \<and>
      (cs_datapath r (c_ID (objs r ! x)) key \<notin> {cs_containerspath r, lk_file (cs_lockfile r)} \<longrightarrow>
       fs w' (cs_datapath r (c_ID (objs r ! x)) key) = Some (Bytes data))" by blast+
qed

lemma cs_BigData_frame: "cs_BigData ident key s = (res, s') \<Longrightarrow> fst s' = fst s"
  by (auto simp: cs_BigData_def split: if_splits option.splits prod.splits sum.splits)

lemma cs_recorded_ok:
  assumes "cs_ok (fst s)" "cs_recorded fromBytes get unknown ident key s = (res, s')"
  shows "cs_ok (fst s')"
proof -
  obtain y1 s1 where b: "cs_BigData ident key s = (y1, s1)" by (meson surj_pair)
  have f1: "fst s1 = fst s" by (rule cs_BigData_frame [OF b])
  show ?thesis
  proof (cases y1)
    case (Inl e)
    then show ?thesis
      using assms b f1 by (auto simp: cs_recorded_def split: if_splits option.splits)
  next
    case (Inr data)
    obtain y2 r2 w2 where d: "cs_SetBigData fromBytes ident key data s1 = (y2, (r2, w2))" by (metis prod_cases3)
    have "cs_ok r2"
      using cs_SetBigData_cases(1) [of "fst s1" fromBytes ident key data "snd s1"] assms(1) f1 d
      by (metis prod.collapse)
    then show ?thesis
      using assms b f1 Inr d by (auto simp: cs_recorded_def split: if_splits option.splits sum.splits)
  qed
qed

lemma cs_update_save_ok:
  assumes "cs_Save (update_obj x f r, w) = (res, (r', w'))" "cs_ok r" "cs_lookup r ident = Some x"
    and "\<And>c. c_ID (f c) = c_ID c" "\<And>c. c_Names (f c) = c_Names c" "\<And>c. c_LayerID (f c) = c_LayerID c"
  shows "cs_ok r'"
  using cs_Save_frame [OF assms(1)] cs_ok_update_obj [OF assms(2,3), of f] assms(4-6) by auto

lemma wf_containers_saved: "cs_ok r \<Longrightarrow> wf_containers (map json_Container (item_list r))"
  using store_ok_distinct_ids [of c_ID c_Names r]
  by (auto simp: wf_containers_def cs_ok_def o_def item_list_def dest: store_okD(5))

lemma wf_containers_Nil [simp]: "wf_containers []"
  by (simp add: wf_containers_def)

lemma cs_Load_ok:
  assumes "\<And>c. fs w (cs_containerspath r) = Some c \<Longrightarrow> wf_containers (decode_containers c)" "cs_ok r"
    and "cs_Load (r, w) = (res, (r', w'))"
  shows "cs_ok r'"
proof -
  obtain y w1 where rd: "ReadFile (cs_containerspath r) w = (y, w1)" by force
  show ?thesis
  proof (cases y)
    case (Inl e)
    then show ?thesis
      using assms(2,3) rd cs_load_data_ok(1) [of "[]" r w1] by (auto simp: cs_Load_def split: if_splits)
  next
    case (Inr c)
    then have "fs w (cs_containerspath r) = Some c"
      using rd by (cases w rule: io_call_cases) (auto simp: ReadFile_def split: option.splits)
    then show ?thesis
      using assms rd Inr cs_load_data_ok(1) [of "decode_containers c" r w1] by (simp add: cs_Load_def)
  qed
qed

text \<open>
  The steps of a process that holds a container store: its operations, with any outcome, and
  whatever the lock operations and the other processes do to the lock object and the world.
  \<open>Load\<close> is a step only on a file that is missing or holds a well-formed document, which is what
  every \<open>Save\<close> writes.
\<close>

inductive cs_step :: "(bytes \<Rightarrow> digest) \<Rightarrow> containerStore \<times> world \<Rightarrow> containerStore \<times> world \<Rightarrow> bool" for fb where
  create: "cs_Create ident names imageID layer metadata opts s = (res, s') \<Longrightarrow> cs_step fb s s'"
| setMetadata: "cs_SetMetadata ident metadata s = (ures, s') \<Longrightarrow> cs_step fb s s'"
| setNames: "cs_SetNames ident names s = (ures, s') \<Longrightarrow> cs_step fb s s'"
| setFlag: "cs_SetFlag ident flag v s = (ures, s') \<Longrightarrow> cs_step fb s s'"
| clearFlag: "cs_ClearFlag ident flag s = (ures, s') \<Longrightarrow> cs_step fb s s'"
| delete: "cs_Delete ident s = (ures, s') \<Longrightarrow> cs_step fb s s'"
| setBigData: "cs_SetBigData fb ident key data s = (ures, s') \<Longrightarrow> cs_step fb s s'"
| bigDataSize: "cs_BigDataSize fb ident key s = (ires, s') \<Longrightarrow> cs_step fb s s'"
| bigDataDigest: "cs_BigDataDigest fb ident key s = (dres, s') \<Longrightarrow> cs_step fb s s'"
| load: "(\<And>c. fs (snd s) (cs_containerspath (fst s)) = Some c \<Longrightarrow> wf_containers (decode_containers c)) \<Longrightarrow>
    cs_Load s = (ures, s') \<Longrightarrow> cs_step fb s s'"
| environment: "cs_step fb (r, w) (r\<lparr>cs_lockfile := l\<rparr>, w')"

lemma cs_step_ok: "cs_step fb s s' \<Longrightarrow> cs_ok (fst s) \<Longrightarrow> cs_ok (fst s')"
proof (induction rule: cs_step.induct)
  case (create ident names imageID layer metadata opts s res s')
  then show ?case by (cases s; cases s') (auto intro: cs_Create_ok)
next
  case (setMetadata ident metadata s ures s')
  then show ?case
    by (cases s; cases s') (auto simp: cs_SetMetadata_def split: option.splits elim!: cs_update_save_ok)
next
  case (setNames ident names s ures s')
  then show ?case by (cases s; cases s') (auto intro: cs_SetNames_cases(1))
next
  case (setFlag ident flag v s ures s')
  then show ?case
    by (cases s; cases s') (auto simp: cs_SetFlag_def split: option.splits elim!: cs_update_save_ok)
next
  case (clearFlag ident flag s ures s')
  then show ?case
    by (cases s; cases s') (auto simp: cs_ClearFlag_def split: option.splits elim!: cs_update_save_ok)
next
  case (delete ident s ures s')
  then show ?case by (cases s; cases s') (auto intro: cs_Delete_cases(1))
next
  case (setBigData ident key data s ures s')
  then show ?case by (cases s; cases s') (auto intro: cs_SetBigData_cases(1))
next
  case (bigDataSize ident key s ires s')
  then show ?case by (auto intro: cs_recorded_ok simp: cs_BigDataSize_def)
next
  case (bigDataDigest ident key s dres s')
  then show ?case by (auto intro: cs_recorded_ok simp: cs_BigDataDigest_def)
next
  case (load s ures s')
  then show ?case by (cases s; cases s') (auto intro: cs_Load_ok)
qed simp

lemma cs_Load_saved:
  assumes "cs_ok r" "fs w (cs_containerspath r0) = Some (JContainers (map json_Container (item_list r)))" "faults w = []"
  shows "\<exists>r1. cs_Load (r0, w) = (Inr (), (r1, w)) \<and> cs_ok r1 \<and>
    item_map r1 = (\<lambda>k. map_option json_Container (item_map r k))"
proof -
  let ?cs = "map json_Container (item_list r)"
  have s: "store_ok c_ID c_Names r" using assms(1) by (simp add: cs_ok_def)
  have wf: "distinct (map c_ID ?cs)" "\<forall>c \<in> set ?cs. distinct (c_Names c)"
    using wf_containers_saved [OF assms(1)] by (simp_all add: wf_containers_def)
  have "names_apart c_Names ?cs"
    using store_ok_names_apart [OF s] by (simp add: names_apart_def sorted_wrt_map)
  then obtain r1 where l: "load_store c_ID c_Names c_Names_update ?cs r0 = (r1, False)"
    using cs.load_store_fresh wf(2) by blast
  note spec = cs.load_store_spec [OF wf l]
  let ?r = "r1\<lparr>bylayer := load_layers 0 ?cs Map.empty\<rparr>"
  have run: "cs_load_data ?cs (r0, w) = (Inr (), (?r, w))" by (simp add: cs_load_data_def l)
  have "cs_Load (r0, w) = (Inr (), (?r, w))"
    using assms(2,3) run by (simp add: cs_Load_def ReadFile_def decode_containers_def)
  moreover have "item_map ?r = (\<lambda>k. map_option json_Container (item_map r k))"
    using item_map_same_list [OF s spec(1), of json_Container] spec(3) by simp
  moreover have "cs_ok ?r" using cs_load_data_ok(1) [OF wf_containers_saved [OF assms(1)] run] .
  ultimately show ?thesis by blast
qed

lemma cs_lookup_id: "byid r k = Some x \<Longrightarrow> cs_lookup r k = Some x"
  by (simp add: cs_lookup_def)

lemma cs_Get_item_map:
  assumes "item_map r k = Some c"
  shows "cs_Get k r = Inr (copyContainer c)"
  using assms by (auto simp: cs_Get_def item_map_def cs_lookup_def)

lemma cs_Save_ok:
  assumes "Locked (cs_lockfile r)" "faults w = []" "\<exists>b \<in> set (rand w). \<not> all_numeric (TruncateID b)"
  shows "\<exists>r' w'. cs_Save (r, w) = (Inr (), (r', w')) \<and> faults w' = []"
  using save_file_ok [OF assms(2,3,1), of "cs_containerspath r" "JContainers (map json_Container (item_list r))"] assms(1)
  by (auto simp: cs_Save_def Let_def)

lemma demo_cs_ok [simp]: "cs_ok demo_cs"
  by (simp add: cs_ok_def store_ok_def demo_cs_def empty_cstore_def ids_ok_def names_ok_def bylayer_ok_def)

lemma demo_rand: "\<exists>b \<in> set (rand demo_world). \<not> all_numeric (TruncateID b)"
  by (simp add: demo_world_def TruncateID_def all_numeric_def is_digit_def)

lemma demo_create:
  "\<exists>r' w'. cs_Create ''c1'' [''web'', ''web''] ''img'' ''lay'' ''md'' demo_copts (demo_cs, demo_world) =
     (Inr (copyContainer (new_container ''c1'' [''web''] ''img'' ''lay'' ''md'' 7 Map.empty demo_copts)), (r', w'))"
proof -
  define c where "c = new_container ''c1'' [''web''] ''img'' ''lay'' ''md'' 7 Map.empty demo_copts"
  define r1 where "r1 = (insert_item ''c1'' [''web''] c demo_cs)\<lparr>bylayer := (bylayer demo_cs)(''lay'' \<mapsto> length (objs demo_cs))\<rparr>"
  have "Locked (cs_lockfile r1)"
    by (simp add: r1_def insert_item_def Let_def demo_cs_def empty_cstore_def demo_lock_def Locked_def)
  then obtain r' w' where sv: "cs_Save (r1, demo_world) = (Inr (), (r', w'))"
    using cs_Save_ok [of r1 demo_world] demo_rand by (auto simp: demo_world_def)
  have "create_flags demo_copts = Inr Map.empty" by (simp add: create_flags_def demo_copts_def)
  moreover have "byid demo_cs = Map.empty" "byname demo_cs = Map.empty" "clock demo_world = 7"
    by (simp_all add: demo_cs_def empty_cstore_def demo_world_def)
  moreover have "dedupeNames [''web'', ''web''] = [''web'']" by (simp add: dedupeNames_def)
  ultimately show ?thesis
    using sv by (simp add: cs_Create_def pick_id_def Let_def c_def [symmetric] r1_def [symmetric])
qed

section \<open>Main theorems\<close>

text \<open>
  C1: every operation of the container store, with any arguments and any outcome (errors of the
  operating system included), keeps the indexes of the store consistent: \<open>byid\<close>, \<open>byname\<close>, \<open>bylayer\<close>
  and the prefix index describe exactly the containers in the slice, and no two containers share an
  identifier or a name.
\<close>

theorem cs_operations_keep_invariant:
  assumes "rtranclp (cs_step fromBytes) s s'" "cs_ok (fst s)"
  shows "cs_ok (fst s')"
  using assms by (induction rule: rtranclp_induct) (auto intro: cs_step_ok)

theorem cs_operations_keep_invariant_witness:
  "cs_ok (fst (snd (cs_Create ''c1'' [''web''] ''img'' ''lay'' ''md'' demo_copts (demo_cs, demo_world))))"
  by (rule cs_operations_keep_invariant [of "\<lambda>_. []" "(demo_cs, demo_world)"])
    (auto intro!: r_into_rtranclp cs_step.create [where res = "fst (cs_Create ''c1'' [''web''] ''img'' ''lay'' ''md'' demo_copts (demo_cs, demo_world))"])



text \<open>
  C29: \<open>SetNames\<close> gives the container exactly the deduplicated names and takes those names away from
  every other container, which keeps its remaining names in their order; nothing else changes.  An
  unknown container is an error that changes nothing.
\<close>

theorem cs_SetNames_moves_names:
  assumes "cs_ok r" "cs_SetNames ident names (r, w) = (res, (r', w'))"
  shows "case cs_Lookup ident r of
      Inl e \<Rightarrow> res = Inl ErrContainerUnknown \<and> r' = r \<and> w' = w
    | Inr k \<Rightarrow> item_map r' = (\<lambda>j. map_option (\<lambda>c. if j = k then c\<lparr>c_Names := dedupeNames names\<rparr>
        else c\<lparr>c_Names := filter (\<lambda>n. n \<notin> set names) (c_Names c)\<rparr>) (item_map r j))"
proof (cases "cs_lookup r ident")
  case None
  then show ?thesis using cs_SetNames_cases(2) [OF assms] by (simp add: cs_Lookup_def)
next
  case (Some x)
  have upd: "c_Names_update (filter (\<lambda>n. n \<notin> set names)) =
      (\<lambda>c. c\<lparr>c_Names := filter (\<lambda>n. n \<notin> set names) (c_Names c)\<rparr>)"
    by (simp add: fun_eq_iff)
  have "item_map r (c_ID (objs r ! x)) = Some (objs r ! x)"
    using cs_lookup_item(3) [OF assms(1) Some] by (simp add: item_map_def)
  then show ?thesis
    using cs_SetNames_cases(3) [OF assms Some] Some
    by (auto simp: cs_Lookup_def fun_eq_iff upd split: option.splits)
qed

theorem cs_SetNames_moves_names_witness:
  "item_map (fst (snd (cs_SetNames ''zz'' [''a''] (demo_cs, demo_world)))) = Map.empty"
proof -
  obtain res r' w' where run: "cs_SetNames ''zz'' [''a''] (demo_cs, demo_world) = (res, (r', w'))"
    by (metis prod_cases3)
  have e: "item_map demo_cs = Map.empty" by (simp add: item_map_def demo_cs_def empty_cstore_def)
  from cs_SetNames_moves_names [OF demo_cs_ok run] show ?thesis
    by (auto simp: run e split: sum.splits)
qed


lemma demo_created:
  obtains c r w where "cs_ok r" "cs_Lookup ''c1'' r = Inr ''c1''" "item_map r = [''c1'' \<mapsto> c]"
    "c_Names c = [''web'']" "cs_dir r = [''d'']" "Locked (cs_lockfile r)" "lk_file (cs_lockfile r) = [''d'', ''containers.lock'']"
proof -
  obtain r' w' where run: "cs_Create ''c1'' [''web'', ''web''] ''img'' ''lay'' ''md'' demo_copts (demo_cs, demo_world) =
     (Inr (copyContainer (new_container ''c1'' [''web''] ''img'' ''lay'' ''md'' 7 Map.empty demo_copts)), (r', w'))"
    using demo_create by blast
  have e: "item_map demo_cs = Map.empty" by (simp add: item_map_def demo_cs_def empty_cstore_def)
  have s: "store_ok c_ID c_Names demo_cs" using demo_cs_ok by (simp add: cs_ok_def)
  from run show ?thesis
  proof (cases rule: cs_Create_cases)
    case (save k fl w1 c l)
    have m: "item_map r' = [''c1'' \<mapsto> c]"
      using cs.item_map_insert_item [OF s] save(2) by (simp add: save(8) e)
    have c: "c_ID c = ''c1''" "c_Names c = [''web'']" using save(2) by (simp_all add: save(5) new_container_def dedupeNames_def)
    from m c(1) have "cs_Lookup ''c1'' r' = Inr ''c1''"
      by (auto simp: item_map_def cs_Lookup_def cs_lookup_def dest!: fun_cong [of _ _ "''c1''"])
    moreover have "cs_dir r' = [''d'']"
      by (simp add: save(8) insert_item_def Let_def demo_cs_def empty_cstore_def)
    moreover have "Locked (cs_lockfile r')" "lk_file (cs_lockfile r') = [''d'', ''containers.lock'']"
      using cs_Save_lock [OF save(9)]
      by (auto simp: insert_item_def Let_def demo_cs_def empty_cstore_def demo_lock_def Locked_def)
    ultimately show ?thesis using that cs_Create_ok [OF demo_cs_ok run] m c(2) by blast
  qed simp
qed


text \<open>
  C10: what \<open>Save\<close> writes, a later \<open>Load\<close> of any store over the same directory reads back: it
  succeeds, its indexes are consistent, and its containers are those saved, up to what the JSON
  encoding keeps.
\<close>

theorem cs_Save_Load_roundtrip:
  assumes "cs_ok r" "cs_Save (r, w) = (Inr (), (r', w'))" "lk_file (cs_lockfile r) \<noteq> cs_containerspath r"
    and "cs_dir r0 = cs_dir r" "fs w0 (cs_containerspath r) = fs w' (cs_containerspath r)" "faults w0 = []"
  shows "\<exists>r1. cs_Load (r0, w0) = (Inr (), (r1, w0)) \<and> cs_ok r1 \<and>
    item_map r1 = (\<lambda>k. map_option json_Container (item_map r k))"
proof (rule cs_Load_saved [OF assms(1) _ assms(6)])
  show "fs w0 (cs_containerspath r0) = Some (JContainers (map json_Container (item_list r)))"
    using cs_Save_file [OF assms(2,3)] assms(4,5) by (simp add: cs_containerspath_def)
qed

theorem cs_Save_Load_roundtrip_witness:
  "\<exists>w' r1. cs_Load (demo_cs, w'\<lparr>faults := []\<rparr>) = (Inr (), (r1, w'\<lparr>faults := []\<rparr>)) \<and> item_map r1 = Map.empty"
proof -
  have l: "Locked (cs_lockfile demo_cs)" "lk_file (cs_lockfile demo_cs) \<noteq> cs_containerspath demo_cs"
    by (simp_all add: demo_cs_def empty_cstore_def demo_lock_def Locked_def cs_containerspath_def)
  obtain r' w' where sv: "cs_Save (demo_cs, demo_world) = (Inr (), (r', w'))"
    using cs_Save_ok [OF l(1) _ demo_rand] by (auto simp: demo_world_def)
  have "item_map demo_cs = Map.empty" by (simp add: item_map_def demo_cs_def empty_cstore_def)
  with cs_Save_Load_roundtrip [OF demo_cs_ok sv l(2) refl, of "w'\<lparr>faults := []\<rparr>"] show ?thesis by auto
qed

text \<open>
  C30: after a successful \<open>SetBigData\<close> the item's size, digest and name are recorded for the
  container, and \<open>BigData\<close> reads back the bytes that were stored.
\<close>

theorem cs_SetBigData_BigData:
  assumes "cs_ok r" "cs_SetBigData fromBytes ident key data (r, w) = (Inr (), (r', w'))"
    and "cs_Lookup ident r = Inr k"
    and "cs_datapath r k key \<notin> {cs_containerspath r, lk_file (cs_lockfile r)}" "faults w' = []"
  shows "cs_BigData ident key (r', w') = (Inr data, (r', w')) \<and>
    cs_BigDataSize fromBytes ident key (r', w') = (Inr (int (length data)), (r', w')) \<and>
    cs_BigDataDigest fromBytes ident key (r', w') = (Inr (fromBytes data), (r', w')) \<and>
    (\<exists>ns. cs_BigDataNames ident r' = Inr ns \<and> key \<in> set ns)"
proof -
  obtain x save c' where x: "cs_lookup r ident = Some x" "key \<noteq> []"
    and rc: "c_record_big_data key (int (length data)) (fromBytes data) (objs r ! x) = (save, c')"
    and r': "cs_lookup r' = cs_lookup r" "objs r' = (objs r)[x := c']" "cs_dir r' = cs_dir r"
    and w': "cs_datapath r (c_ID (objs r ! x)) key \<notin> {cs_containerspath r, lk_file (cs_lockfile r)} \<longrightarrow>
       fs w' (cs_datapath r (c_ID (objs r ! x)) key) = Some (Bytes data)"
    using cs_SetBigData_cases(2) [OF assms(1,2) refl] by blast
  have k: "c_ID (objs r ! x) = k" using assms(3) x(1) by (simp add: cs_Lookup_def)
  note cf = c_record_big_data_fields [OF rc]
  have ox: "objs r' ! x = c'" using r'(2) cs_lookup_item(2) [OF assms(1) x(1)] by simp
  have p: "cs_datapath r' k key = cs_datapath r k key" by (simp add: cs_datapath_def cs_datadir_def r'(3))
  have "cs_BigData ident key (r', w') = (Inr data, (r', w'))"
    using x r'(1) ox cf(1) k p w' assms(4,5) by (simp add: cs_BigData_def ReadFile_def content_bytes_def)
  then show ?thesis
    using x r'(1) ox cf(4-6)
    by (simp add: cs_BigDataSize_def cs_BigDataDigest_def cs_recorded_def cs_BigDataNames_def)
qed

lemma cs_SetBigData_succeeds:
  assumes "cs_lookup r ident = Some x" "key \<noteq> []" "Locked (cs_lockfile r)" "faults w = []"
    "\<exists>b \<in> set (rand w). \<not> all_numeric (TruncateID b)"
  shows "\<exists>r' w'. cs_SetBigData fromBytes ident key data (r, w) = (Inr (), (r', w')) \<and> faults w' = []"
proof -
  obtain save c' where rc: "c_record_big_data key (int (length data)) (fromBytes data) (objs r ! x) = (save, c')" by force
  let ?p = "cs_datapath r (c_ID (objs r ! x)) key"
  let ?w = "w\<lparr>fs := (fs w)(?p \<mapsto> Bytes data), mtimes := (mtimes w)(?p := clock w)\<rparr>"
  have "\<exists>r' w'. cs_Save (update_obj x (\<lambda>_. c') r, ?w) = (Inr (), (r', w')) \<and> faults w' = []"
    using assms(3-5) by (intro cs_Save_ok) simp_all
  then show ?thesis
    using assms(1,2,4) rc
    by (cases save) (auto simp: cs_SetBigData_def Let_def MkdirAll_def AtomicWriteFile_def)
qed

theorem cs_SetBigData_BigData_witness:
  "\<exists>r r' w'. cs_SetBigData (\<lambda>_. ''sha'') ''c1'' ''cfg'' ''abc'' (r, demo_world) = (Inr (), (r', w')) \<and>
     cs_BigData ''c1'' ''cfg'' (r', w') = (Inr ''abc'', (r', w'))"
proof -
  obtain c r where r: "cs_ok r" "cs_Lookup ''c1'' r = Inr ''c1''" "cs_dir r = [''d'']"
    "Locked (cs_lockfile r)" "lk_file (cs_lockfile r) = [''d'', ''containers.lock'']"
    by (rule demo_created)
  obtain x where x: "cs_lookup r ''c1'' = Some x" using r(2) by (auto simp: cs_Lookup_def split: option.splits)
  obtain r' w' where run: "cs_SetBigData (\<lambda>_. ''sha'') ''c1'' ''cfg'' ''abc'' (r, demo_world) = (Inr (), (r', w'))" "faults w' = []"
    using cs_SetBigData_succeeds [OF x _ r(4) _ demo_rand, of "''cfg''" "\<lambda>_. ''sha''" "''abc''"] by (auto simp: demo_world_def)
  have "length (cs_datapath r ''c1'' ''cfg'') = 3"
    by (simp add: cs_datapath_def cs_datadir_def r(3) join_name_def join_elem_def makeBigDataBaseName_def
        read_plain.simps plain_char_def in_range_def byte_of_def)
  then have "cs_datapath r ''c1'' ''cfg'' \<notin> {cs_containerspath r, lk_file (cs_lockfile r)}"
    by (auto simp: cs_containerspath_def r)
  from cs_SetBigData_BigData [OF r(1) run(1) r(2) this run(2)] run(1) show ?thesis by blast
qed

end
