(* ===== verification/IdSet.thy ===== *)
theory IdSet
  imports IdTools
begin

text \<open>
  Sets of numeric IDs: \<^verbatim>\<open>idset.go\<close>, on top of the interval sets of the vendored
  package \<^verbatim>\<open>google/go-intervals/intervalset\<close>, whose routines (\<open>insert\<close>, \<open>Sub\<close>,
  \<open>Contains\<close>, \<open>IntervalsBetween\<close>) are translated here as well, because the set semantics of
  an \<open>idSet\<close> rests on them.  \<open>sort.Search\<close> for the first interval that is not before \<open>x\<close>
  is a \<open>dropWhile\<close>.  An \<open>idSet\<close> pointer may be \<open>nil\<close>, which is \<open>None\<close>; the channel
  based iterator delivers the intervals in order, so the loops recurse over the list.
\<close>

section \<open>Intervals\<close>

record interval =
  start :: int
  stop :: int

definition minInt :: "int \<Rightarrow> int \<Rightarrow> int" where
  "minInt a b = (if a < b then a else b)"

definition maxInt :: "int \<Rightarrow> int \<Rightarrow> int" where
  "maxInt a b = (if a < b then b else a)"

definition ilength :: "interval \<Rightarrow> int" where
  "ilength i = maxInt 0 (stop i - start i)"

definition Intersect :: "interval \<Rightarrow> interval \<Rightarrow> interval" where
  "Intersect i j = \<lparr>start = maxInt (start i) (start j), stop = minInt (stop i) (stop j)\<rparr>"

definition IsZero :: "interval \<Rightarrow> bool" where
  "IsZero i \<longleftrightarrow> ilength i \<le> 0"

definition Before :: "interval \<Rightarrow> interval \<Rightarrow> bool" where
  "Before i j \<longleftrightarrow> \<not> IsZero i \<and> \<not> IsZero j \<and> stop i < start j"

definition zero_interval :: interval where
  "zero_interval = \<lparr>start = 0, stop = 0\<rparr>"

definition Bisect :: "interval \<Rightarrow> interval \<Rightarrow> interval \<times> interval" where
  "Bisect i j =
     (if IsZero j then (i, zero_interval)
      else (\<lparr>start = start i, stop = minInt (stop i) (start j)\<rparr>,
            \<lparr>start = maxInt (start i) (stop j), stop = stop i\<rparr>))"

definition Adjoin :: "interval \<Rightarrow> interval \<Rightarrow> interval" where
  "Adjoin i j =
     (if \<not> IsZero i \<and> \<not> IsZero j \<and> (stop i = start j \<or> stop j = start i)
      then \<lparr>start = minInt (start i) (start j), stop = maxInt (stop i) (stop j)\<rparr>
      else zero_interval)"

definition Encompass :: "interval \<Rightarrow> interval \<Rightarrow> interval" where
  "Encompass i j =
     (if IsZero i then j else if IsZero j then i
      else \<lparr>start = minInt (start i) (start j), stop = maxInt (stop i) (stop j)\<rparr>)"

section \<open>The vendored interval sets\<close>

fun CheckSorted :: "interval list \<Rightarrow> bool" where
  "CheckSorted (a # b # xs) = (Before a b \<and> CheckSorted (b # xs))"
| "CheckSorted _ = True"

definition NewSet :: "interval list \<Rightarrow> gerr + interval list" where
  "NewSet xs = (if CheckSorted xs then Inr xs else Inl (Panic ''intervals are not sorted''))"

definition Extent :: "interval list \<Rightarrow> interval option" where
  "Extent xs = (if xs = [] then None else Some (Encompass (hd xs) (last xs)))"

fun contains_loop :: "interval \<Rightarrow> interval list \<Rightarrow> bool" where
  "contains_loop i [] = IsZero i"
| "contains_loop i (x # xs) =
     (let (l, r) = Bisect i x in if \<not> IsZero l then False else contains_loop r xs)"

definition Contains :: "interval list \<Rightarrow> interval \<Rightarrow> bool" where
  "Contains xs i = contains_loop i (dropWhile (\<lambda>x. Before x i) xs)"

definition adjoinOrAppend :: "interval list \<Rightarrow> interval \<Rightarrow> interval list" where
  "adjoinOrAppend xs x =
     (if xs = [] then [x]
      else let a = Adjoin (last xs) x in if IsZero a then xs @ [x] else butlast xs @ [a])"

fun insert_loop :: "interval list \<Rightarrow> bool \<Rightarrow> interval \<Rightarrow> interval list \<Rightarrow> interval list" where
  "insert_loop acc inserted i [] = (if inserted then acc else adjoinOrAppend acc i)"
| "insert_loop acc inserted i (x # xs) =
     (if inserted then insert_loop (adjoinOrAppend acc x) True i xs
      else if Before i x
      then insert_loop (adjoinOrAppend (adjoinOrAppend acc i) x) True i xs
      else let (l, r) = Bisect i x;
               acc1 = (if IsZero l then acc else adjoinOrAppend acc l);
               acc2 = adjoinOrAppend acc1 x
           in if IsZero r then insert_loop acc2 True i xs else insert_loop acc2 False r xs)"

definition set_insert :: "interval list \<Rightarrow> interval \<Rightarrow> interval list" where
  "set_insert xs i = (if Contains xs i then xs else insert_loop [] False i xs)"

definition IntervalsBetween :: "interval list \<Rightarrow> interval \<Rightarrow> interval list" where
  "IntervalsBetween xs ext =
     filter (\<lambda>i. \<not> IsZero i)
       (map (Intersect ext)
         (takeWhile (\<lambda>x. \<not> Before ext x) (dropWhile (\<lambda>x. Before x ext) xs)))"

definition set_Add :: "interval list \<Rightarrow> interval list \<Rightarrow> interval list" where
  "set_Add s b = (case Extent b of None \<Rightarrow> s | Some e \<Rightarrow> foldl set_insert s (IntervalsBetween b e))"

function sub_loop :: "interval list \<Rightarrow> interval list \<Rightarrow> interval list \<Rightarrow> interval list" where
  "sub_loop acc [] ys = acc"
| "sub_loop acc (x # xs) [] = sub_loop (adjoinOrAppend acc x) xs []"
| "sub_loop acc (x # xs) (y # ys) =
     (let (l, r) = Bisect x y;
          acc' = (if IsZero l then acc else adjoinOrAppend acc l)
      in if \<not> IsZero r then sub_loop acc' (r # xs) ys else sub_loop acc' xs (y # ys))"
  by pat_completeness auto
termination
  by (relation "measure (\<lambda>(acc, xs, ys). length xs + length ys)") auto

definition set_Sub :: "interval list \<Rightarrow> interval list \<Rightarrow> interval list" where
  "set_Sub s b =
     (case Extent s of
        None \<Rightarrow> s
      | Some e \<Rightarrow> sub_loop [] (dropWhile (\<lambda>x. Before x e) s) (IntervalsBetween b e))"

section \<open>idSet\<close>

type_synonym idSet = "interval list option"

fun newIDSet_loop :: "interval list \<Rightarrow> interval list \<Rightarrow> interval list" where
  "newIDSet_loop s [] = s"
| "newIDSet_loop s (i # is) = newIDSet_loop (set_Add s [i]) is"

definition newIDSet :: "interval list \<Rightarrow> idSet" where
  "newIDSet intervals = Some (newIDSet_loop [] intervals)"

definition getHostIDs :: "IDMap list \<Rightarrow> idSet" where
  "getHostIDs idMaps = newIDSet (map (\<lambda>m. \<lparr>start = HostID m, stop = HostID m + Size m\<rparr>) idMaps)"

definition getContainerIDs :: "IDMap list \<Rightarrow> idSet" where
  "getContainerIDs idMaps =
     newIDSet (map (\<lambda>m. \<lparr>start = ContainerID m, stop = ContainerID m + Size m\<rparr>) idMaps)"

definition subtract :: "idSet \<Rightarrow> idSet \<Rightarrow> idSet" where
  "subtract s t =
     (case s of None \<Rightarrow> s | Some xs \<Rightarrow> (case t of None \<Rightarrow> s | Some ys \<Rightarrow> Some (set_Sub xs ys)))"

definition idset_union :: "idSet \<Rightarrow> idSet \<Rightarrow> idSet" where
  "idset_union s t =
     (case s of None \<Rightarrow> t | Some xs \<Rightarrow> (case t of None \<Rightarrow> s | Some ys \<Rightarrow> Some (set_Add xs ys)))"

definition idset_iterate :: "idSet \<Rightarrow> interval list" where
  "idset_iterate s = (case s of None \<Rightarrow> [] | Some xs \<Rightarrow> xs)"

definition idset_size :: "idSet \<Rightarrow> int" where
  "idset_size s = foldl (\<lambda>size i. size + ilength i) 0 (idset_iterate s)"

fun findAvailable_loop :: "int \<Rightarrow> interval list \<Rightarrow> interval list \<Rightarrow> interval list \<times> int" where
  "findAvailable_loop n [] acc = (acc, n)"
| "findAvailable_loop n (i # is) acc =
     (if n > 0
      then let i' = \<lparr>start = start i, stop = minInt (stop i) (start i + n)\<rparr>
           in findAvailable_loop (n - ilength i') is (acc @ [i'])
      else (acc, n))"

definition findAvailable :: "idSet \<Rightarrow> int \<Rightarrow> gerr + idSet" where
  "findAvailable s n =
     (case findAvailable_loop n (idset_iterate s) [] of
        (intervals, n') \<Rightarrow>
          if n' > 0 then Inl (Errorf ''could not find enough available IDs'')
          else (case NewSet intervals of Inl e \<Rightarrow> Inl e | Inr xs \<Rightarrow> Inr (Some xs)))"

text \<open>One round of the \<open>zip\<close> loop: both current intervals shrink by \<open>n\<close>.\<close>

definition drop_start :: "int \<Rightarrow> interval \<Rightarrow> interval" where
  "drop_start n i = i\<lparr>start := start i + n\<rparr>"

lemma zip_round_zero:
  "n = minInt (ilength h) (ilength c) \<Longrightarrow>
   IsZero (if n > 0 then drop_start n h else h) \<or> IsZero (if n > 0 then drop_start n c else c)"
  by (auto simp: minInt_def maxInt_def ilength_def IsZero_def drop_start_def split: if_splits)

function zip_loop :: "interval list \<Rightarrow> interval list \<Rightarrow> IDMap list" where
  "zip_loop [] cs = []"
| "zip_loop (h # hs) [] = []"
| "zip_loop (h # hs) (c # cs) =
     (let n = minInt (ilength h) (ilength c);
          h' = (if n > 0 then drop_start n h else h);
          c' = (if n > 0 then drop_start n c else c);
          rest = zip_loop (if IsZero h' then hs else h' # hs) (if IsZero c' then cs else c' # cs)
      in if n > 0 then \<lparr>ContainerID = start c, HostID = start h, Size = n\<rparr> # rest else rest)"
  by pat_completeness auto
termination
proof (relation "measure (\<lambda>(hs, cs). length hs + length cs)", goal_cases)
  case 1
  show ?case by simp
next
  case (2 h hs c cs n h' c')
  then show ?case using zip_round_zero [of n h c] by auto
qed

definition idset_zip :: "idSet \<Rightarrow> idSet \<Rightarrow> IDMap list" where
  "idset_zip s container = zip_loop (idset_iterate s) (idset_iterate container)"

section \<open>Set semantics of intervals\<close>

definition iids :: "interval \<Rightarrow> int set" where
  "iids i = {start i ..< stop i}"

definition sids :: "interval list \<Rightarrow> int set" where
  "sids xs = (\<Union>i \<in> set xs. iids i)"

text \<open>Well-formed interval sets: no empty interval, and a gap between neighbours.\<close>

definition iset_ok :: "interval list \<Rightarrow> bool" where
  "iset_ok xs \<longleftrightarrow> (\<forall>i \<in> set xs. start i < stop i) \<and> sorted_wrt (\<lambda>i j. stop i < start j) xs"

lemmas interval_defs = minInt_def maxInt_def ilength_def zero_interval_def Bisect_def
  Intersect_def Adjoin_def Encompass_def Before_def

lemma IsZero_iff [simp]: "IsZero i \<longleftrightarrow> stop i \<le> start i"
  by (simp add: IsZero_def ilength_def maxInt_def)

lemma iids_iff [simp]: "k \<in> iids i \<longleftrightarrow> start i \<le> k \<and> k < stop i"
  by (simp add: iids_def)

lemma sids_simps [simp]:
  "sids [] = {}" "sids (x # xs) = iids x \<union> sids xs" "sids (xs @ ys) = sids xs \<union> sids ys"
  by (auto simp: sids_def)

lemma iset_ok_simps [simp]:
  "iset_ok []"
  "iset_ok (x # xs) \<longleftrightarrow> start x < stop x \<and> (\<forall>j \<in> set xs. stop x < start j) \<and> iset_ok xs"
  by (auto simp: iset_ok_def)

lemma iset_ok_append:
  "iset_ok (xs @ ys) \<longleftrightarrow> iset_ok xs \<and> iset_ok ys \<and> (\<forall>i \<in> set xs. \<forall>j \<in> set ys. stop i < start j)"
  by (auto simp: iset_ok_def sorted_wrt_append)

lemma iids_empty_iff: "iids i = {} \<longleftrightarrow> IsZero i"
  by (auto simp: iids_def)

lemma finite_sids [simp]: "finite (sids xs)"
  by (simp add: sids_def iids_def)

lemma Bisect_ids: "Bisect i j = (l, r) \<Longrightarrow> iids l \<union> iids r = iids i - iids j"
  by (auto simp: Bisect_def zero_interval_def minInt_def maxInt_def split: if_splits)

text \<open>
  \<open>adjoinOrAppend\<close> is used on intervals that start no earlier than the last one ends;
  \<open>fits\<close> states that, and the three facts below are all its callers need.
\<close>

definition fits :: "interval list \<Rightarrow> int \<Rightarrow> bool" where
  "fits acc k \<longleftrightarrow> (\<forall>i \<in> set acc. stop i \<le> k)"

lemma fits_Nil [simp]: "fits [] k"
  by (simp add: fits_def)

lemma fits_mono: "fits acc k \<Longrightarrow> k \<le> k' \<Longrightarrow> fits acc k'"
  by (auto simp: fits_def)

lemma adjoinOrAppend_snoc:
  "adjoinOrAppend (xs @ [y]) x =
     (if IsZero (Adjoin y x) then xs @ [y, x] else xs @ [Adjoin y x])"
  by (simp add: adjoinOrAppend_def Let_def)

lemma push_props:
  assumes "iset_ok acc" "fits acc (start x)" "start x < stop x"
  shows "iset_ok (adjoinOrAppend acc x) \<and> sids (adjoinOrAppend acc x) = sids acc \<union> iids x
    \<and> fits (adjoinOrAppend acc x) (stop x)"
proof (cases acc rule: rev_cases)
  case Nil
  with assms show ?thesis by (simp add: adjoinOrAppend_def fits_def)
next
  case (snoc ys y)
  with assms have y: "start y < stop y" "stop y \<le> start x"
    and ys: "iset_ok ys" "\<forall>i \<in> set ys. stop i < start y"
    by (auto simp: iset_ok_append fits_def)
  have "\<forall>i \<in> set ys. stop i < start x" using y ys by fastforce
  then show ?thesis
  proof (cases "stop y = start x")
    case True
    then have "Adjoin y x = \<lparr>start = start y, stop = stop x\<rparr>"
      using assms(3) y by (auto simp: Adjoin_def minInt_def maxInt_def)
    then show ?thesis using True assms(3) y ys
      by (fastforce simp: snoc adjoinOrAppend_snoc iset_ok_append fits_def)
  next
    case False
    then have "IsZero (Adjoin y x)"
      using assms(3) y by (auto simp: Adjoin_def zero_interval_def)
    then show ?thesis using False assms(3) y ys \<open>\<forall>i \<in> set ys. stop i < start x\<close>
      by (fastforce simp: snoc adjoinOrAppend_snoc iset_ok_append fits_def)
  qed
qed

lemmas push_ok = push_props [THEN conjunct1]
lemmas push_ids = push_props [THEN conjunct2, THEN conjunct1]
lemmas push_fits = push_props [THEN conjunct2, THEN conjunct2]

lemma contains_loop_sound: "contains_loop i xs \<Longrightarrow> iids i \<subseteq> sids xs"
proof (induction i xs rule: contains_loop.induct)
  case (1 i)
  then show ?case by (auto simp: iids_empty_iff [symmetric])
next
  case (2 i x xs)
  obtain l r where lr: "Bisect i x = (l, r)" by force
  with 2 have "IsZero l" "iids r \<subseteq> sids xs" by (auto split: if_splits)
  with Bisect_ids [OF lr] iids_empty_iff [of l] show ?case by auto
qed

lemma Contains_sound: "Contains xs i \<Longrightarrow> iids i \<subseteq> sids xs"
proof -
  assume "Contains xs i"
  then have "iids i \<subseteq> sids (dropWhile (\<lambda>x. Before x i) xs)"
    unfolding Contains_def by (rule contains_loop_sound)
  also have "\<dots> \<subseteq> sids xs" by (auto simp: sids_def dest: set_dropWhileD)
  finally show ?thesis .
qed

lemma fits_tail: "fits acc (stop x) \<Longrightarrow> iset_ok (x # xs) \<Longrightarrow> \<forall>y \<in> set xs. fits acc (start y)"
  unfolding fits_def by (meson iset_ok_simps(2) less_imp_le order_trans)

lemma insert_loop_done:
  "iset_ok acc \<Longrightarrow> iset_ok xs \<Longrightarrow> (\<forall>x \<in> set xs. fits acc (start x)) \<Longrightarrow>
   iset_ok (insert_loop acc True i xs) \<and> sids (insert_loop acc True i xs) = sids acc \<union> sids xs"
proof (induction xs arbitrary: acc)
  case Nil
  then show ?case by simp
next
  case (Cons x xs)
  let ?acc = "adjoinOrAppend acc x"
  have x: "iset_ok ?acc" "sids ?acc = sids acc \<union> iids x" "fits ?acc (stop x)"
    using Cons.prems push_props [of acc x] by auto
  have "\<forall>y \<in> set xs. fits ?acc (start y)"
    using x(3) Cons.prems(2) by (rule fits_tail)
  with Cons.IH [of ?acc] Cons.prems(2) x show ?case by (simp add: Un_assoc)
qed

lemma insert_loop_props:
  "iset_ok acc \<Longrightarrow> iset_ok xs \<Longrightarrow> (\<forall>x \<in> set xs. fits acc (start x)) \<Longrightarrow>
   fits acc (start i) \<Longrightarrow> start i < stop i \<Longrightarrow>
   iset_ok (insert_loop acc False i xs) \<and>
   sids (insert_loop acc False i xs) = sids acc \<union> iids i \<union> sids xs"
proof (induction xs arbitrary: acc i)
  case Nil
  then show ?case using push_props [of acc i] by simp
next
  case (Cons x xs)
  note ok = Cons.prems(2)
  show ?case
  proof (cases "Before i x")
    case True
    let ?acc1 = "adjoinOrAppend acc i"
    let ?acc2 = "adjoinOrAppend ?acc1 x"
    have 1: "iset_ok ?acc1" "sids ?acc1 = sids acc \<union> iids i" "fits ?acc1 (stop i)"
      using Cons.prems push_props [of acc i] by auto
    then have "fits ?acc1 (start x)" using True by (auto simp: Before_def intro: fits_mono)
    then have 2: "iset_ok ?acc2" "sids ?acc2 = sids ?acc1 \<union> iids x" "fits ?acc2 (stop x)"
      using ok 1 push_props [of ?acc1 x] by auto
    have "\<forall>y \<in> set xs. fits ?acc2 (start y)" using 2(3) ok by (rule fits_tail)
    with insert_loop_done [of ?acc2 xs i] 1 2 ok True show ?thesis by auto
  next
    case False
    obtain l r where lr: "Bisect i x = (l, r)" by force
    let ?acc1 = "if IsZero l then acc else adjoinOrAppend acc l"
    let ?acc2 = "adjoinOrAppend ?acc1 x"
    have b: "start l = start i" "stop l \<le> start x" "stop x \<le> start r" "stop r = stop i"
      using lr ok by (auto simp: Bisect_def minInt_def maxInt_def split: if_splits)
    have 1: "iset_ok ?acc1" "sids ?acc1 = sids acc \<union> iids l" "fits ?acc1 (start x)"
      using Cons.prems b push_props [of acc l] iids_empty_iff [of l]
      by (auto intro: fits_mono)
    then have 2: "iset_ok ?acc2" "sids ?acc2 = sids ?acc1 \<union> iids x" "fits ?acc2 (stop x)"
      using ok push_props [of ?acc1 x] by auto
    have 3: "\<forall>y \<in> set xs. fits ?acc2 (start y)" using 2(3) ok by (rule fits_tail)
    have "fits ?acc2 (start r)" using 2(3) b(3) by (rule fits_mono)
    moreover have "iids i \<union> iids x = iids l \<union> iids r \<union> iids x"
      using Bisect_ids [OF lr] by blast
    ultimately show ?thesis
      using False lr ok 1 2 3 Cons.IH [of ?acc2 r] insert_loop_done [of ?acc2 xs i]
        iids_empty_iff [of r]
      by (auto simp: Let_def)
  qed
qed

lemma set_insert_props:
  assumes "iset_ok xs" "start i < stop i"
  shows "iset_ok (set_insert xs i) \<and> sids (set_insert xs i) = sids xs \<union> iids i"
  using assms Contains_sound [of xs i] insert_loop_props [of "[]" xs i]
  by (auto simp: set_insert_def)

lemma foldl_set_insert:
  "iset_ok s \<Longrightarrow> \<forall>i \<in> set is. start i < stop i \<Longrightarrow>
   iset_ok (foldl set_insert s is) \<and> sids (foldl set_insert s is) = sids s \<union> sids is"
proof (induction "is" arbitrary: s)
  case Nil
  then show ?case by simp
next
  case (Cons i "is")
  then show ?case using set_insert_props [of s i] by auto
qed

subsection \<open>Restriction to an extent\<close>

lemma Intersect_ids: "iids (Intersect i j) = iids i \<inter> iids j"
  by (auto simp: Intersect_def minInt_def maxInt_def)

lemma iset_ok_filter: "iset_ok xs \<Longrightarrow> iset_ok (filter P xs)"
  by (induction xs) auto

lemma iset_ok_dropWhile: "iset_ok xs \<Longrightarrow> iset_ok (dropWhile P xs)"
  by (induction xs) auto

lemma IntervalsBetween_Before: "Before x e \<Longrightarrow> IntervalsBetween (x # xs) e = IntervalsBetween xs e"
  by (simp add: IntervalsBetween_def)

lemma takeWhile_between:
  assumes "iset_ok xs" "start e < stop e"
  shows "iset_ok (filter (\<lambda>i. \<not> IsZero i) (map (Intersect e) (takeWhile (\<lambda>x. \<not> Before e x) xs))) \<and>
    sids (filter (\<lambda>i. \<not> IsZero i) (map (Intersect e) (takeWhile (\<lambda>x. \<not> Before e x) xs)))
      = sids xs \<inter> iids e"
  using assms
proof (induction xs)
  case Nil
  then show ?case by simp
next
  case (Cons x xs)
  show ?case
  proof (cases "Before e x")
    case True
    with Cons.prems have "\<forall>y \<in> set (x # xs). stop e < start y"
      by (fastforce simp: Before_def)
    then have "\<forall>y \<in> set (x # xs). iids y \<inter> iids e = {}"
      by (auto simp del: list.set simp: disjoint_iff)
    then have "sids (x # xs) \<inter> iids e = {}" unfolding sids_def by blast
    then show ?thesis using True by simp
  next
    case False
    let ?ys = "filter (\<lambda>i. \<not> IsZero i) (map (Intersect e) (takeWhile (\<lambda>x. \<not> Before e x) xs))"
    have "\<forall>j \<in> set ?ys. stop (Intersect e x) < start j"
      using Cons.prems by (fastforce simp: Intersect_def minInt_def maxInt_def dest: set_takeWhileD)
    then show ?thesis
      using False Cons.IH Cons.prems Intersect_ids [of e x] iids_empty_iff [of "Intersect e x"]
      by auto
  qed
qed

lemma IntervalsBetween_props:
  assumes "iset_ok xs" "start e < stop e"
  shows "iset_ok (IntervalsBetween xs e) \<and> sids (IntervalsBetween xs e) = sids xs \<inter> iids e"
  using assms
proof (induction xs)
  case Nil
  then show ?case by (simp add: IntervalsBetween_def)
next
  case (Cons x xs)
  show ?case
  proof (cases "Before x e")
    case True
    then have "iids x \<inter> iids e = {}" by (auto simp: Before_def)
    with True Cons show ?thesis by (auto simp: IntervalsBetween_Before)
  next
    case False
    then have "IntervalsBetween (x # xs) e =
      filter (\<lambda>i. \<not> IsZero i) (map (Intersect e) (takeWhile (\<lambda>x. \<not> Before e x) (x # xs)))"
      by (simp add: IntervalsBetween_def)
    with takeWhile_between [OF Cons.prems] show ?thesis by simp
  qed
qed

lemma Extent_props:
  assumes "iset_ok xs" "xs \<noteq> []"
  shows "\<exists>e. Extent xs = Some e \<and> start e < stop e \<and> sids xs \<subseteq> iids e
    \<and> (\<forall>x \<in> set xs. \<not> Before x e)"
proof -
  obtain x ys where xs: "xs = x # ys" using assms(2) by (cases xs) auto
  have lt: "start x < stop x" "start (last xs) < stop (last xs)"
    using assms by (auto simp: iset_ok_def xs)
  have le: "start x \<le> start i \<and> stop i \<le> stop (last xs)" if "i \<in> set xs" for i
  proof -
    from that obtain as bs where "xs = as @ i # bs" by (meson split_list)
    then have ok: "iset_ok (as @ i # bs)" "xs = as @ i # bs" using assms(1) by simp_all
    have "as = [] \<or> x \<in> set as" using ok(2) xs by (cases as) auto
    moreover have "bs = [] \<or> last xs \<in> set bs" using ok(2) by simp
    moreover have "bs = [] \<longrightarrow> last xs = i" "as = [] \<longrightarrow> x = i" using ok(2) xs by auto
    ultimately show ?thesis using ok(1) lt by (force simp: iset_ok_append)
  qed
  let ?e = "\<lparr>start = start x, stop = stop (last xs)\<rparr>"
  have "Encompass x (last xs) = ?e"
    using lt le [of x] le [of "last xs"] xs
    by (auto simp: Encompass_def minInt_def maxInt_def)
  then have "Extent xs = Some ?e" by (simp add: Extent_def xs)
  moreover have "sids xs \<subseteq> iids ?e" using le by (fastforce simp: sids_def)
  moreover have "start x < stop (last xs)" using lt le [of x] xs by force
  moreover have "\<forall>i \<in> set xs. \<not> Before i ?e"
    using le assms(1) by (force simp: Before_def iset_ok_def)
  ultimately show ?thesis by auto
qed

lemma set_Add_props:
  assumes "iset_ok s" "iset_ok b"
  shows "iset_ok (set_Add s b) \<and> sids (set_Add s b) = sids s \<union> sids b"
proof (cases "b = []")
  case True
  with assms show ?thesis by (simp add: set_Add_def Extent_def)
next
  case False
  with assms(2) obtain e where e: "Extent b = Some e" "start e < stop e" "sids b \<subseteq> iids e"
    using Extent_props by blast
  then have b: "iset_ok (IntervalsBetween b e)" "sids (IntervalsBetween b e) = sids b"
    using IntervalsBetween_props [OF assms(2) e(2)] by auto
  then show ?thesis
    using foldl_set_insert [of s "IntervalsBetween b e"] assms(1)
    by (auto simp: set_Add_def e(1) iset_ok_def)
qed

lemma set_Add_single:
  assumes "iset_ok s"
  shows "iset_ok (set_Add s [i]) \<and> sids (set_Add s [i]) = sids s \<union> iids i"
proof (cases "start i < stop i")
  case True
  with set_Add_props [of s "[i]"] assms show ?thesis by simp
next
  case False
  then have "set_Add s [i] = s" and "iids i = {}"
    by (auto simp: set_Add_def Extent_def Encompass_def IntervalsBetween_def Before_def
        Intersect_def minInt_def maxInt_def)
  with assms show ?thesis by simp
qed

subsection \<open>Subtraction\<close>

lemma sub_loop_props:
  "iset_ok acc \<Longrightarrow> iset_ok xs \<Longrightarrow> iset_ok ys \<Longrightarrow> (\<forall>x \<in> set xs. fits acc (start x)) \<Longrightarrow>
   iset_ok (sub_loop acc xs ys) \<and> sids (sub_loop acc xs ys) = sids acc \<union> (sids xs - sids ys)"
proof (induction acc xs ys rule: sub_loop.induct)
  case (1 acc ys)
  then show ?case by simp
next
  case (2 acc x xs)
  have "fits (adjoinOrAppend acc x) (stop x)"
    using "2.prems" by (auto intro!: push_fits)
  then have "\<forall>y \<in> set xs. fits (adjoinOrAppend acc x) (start y)"
    using "2.prems"(2) by (rule fits_tail)
  with "2.IH" "2.prems" push_props [of acc x] show ?case by auto
next
  case (3 acc x xs y ys)
  obtain l r where lr: "Bisect x y = (l, r)" by force
  let ?acc = "if IsZero l then acc else adjoinOrAppend acc l"
  note ok = "3.prems"
  have b: "start l = start x" "stop l \<le> start y" "stop l \<le> stop x"
    "start x \<le> start r" "stop y \<le> start r" "stop r = stop x"
    using lr ok by (auto simp: Bisect_def minInt_def maxInt_def split: if_splits)
  have acc: "iset_ok ?acc" "sids ?acc = sids acc \<union> iids l" "fits ?acc (stop x)"
    using ok b push_props [of acc l] iids_empty_iff [of l] by (auto intro: fits_mono)
  have fx: "\<forall>z \<in> set xs. fits ?acc (start z)" using acc(3) ok(2) by (rule fits_tail)
  have ids: "iids l \<union> iids r = iids x - iids y" using lr by (rule Bisect_ids)
  have l_ys: "iids l \<inter> sids ys = {}"
  proof -
    have "\<forall>z \<in> set ys. stop y < start z" "start y < stop y" using ok(3) by auto
    then show ?thesis using b(2) by (fastforce simp: sids_def)
  qed
  show ?case
  proof (cases "IsZero r")
    case True
    have "iset_ok (sub_loop ?acc xs (y # ys)) \<and>
      sids (sub_loop ?acc xs (y # ys)) = sids ?acc \<union> (sids xs - sids (y # ys))"
      using "3.IH"(2) [OF lr [symmetric] refl refl] True acc(1) ok fx by auto
    moreover have "iids x - sids (y # ys) = iids l"
      using ids l_ys True iids_empty_iff [of r] by auto
    ultimately show ?thesis using lr True acc(2) by (auto simp: Let_def)
  next
    case False
    have "stop y < stop x" using False b by simp
    have y_xs: "iids y \<inter> sids xs = {}"
    proof -
      have "\<forall>z \<in> set xs. stop x < start z" using ok(2) by auto
      with \<open>stop y < stop x\<close> show ?thesis by (fastforce simp: sids_def)
    qed
    have "fits ?acc (start r)"
    proof (cases "IsZero l")
      case True
      then show ?thesis using ok(4) b(4) by (auto intro: fits_mono)
    next
      case l: False
      have "stop l \<le> start r" using b ok(3) by auto
      then show ?thesis using l ok(1,2,4) b(1) push_fits [of acc l] by (auto intro: fits_mono)
    qed
    then have "iset_ok (sub_loop ?acc (r # xs) ys) \<and>
      sids (sub_loop ?acc (r # xs) ys) = sids ?acc \<union> (sids (r # xs) - sids ys)"
      using "3.IH"(1) [OF lr [symmetric] refl refl] False acc(1) ok fx b by auto
    moreover have "sids (x # xs) - sids (y # ys) = iids l \<union> (sids (r # xs) - sids ys)"
      using ids l_ys y_xs by auto
    ultimately show ?thesis using lr False acc(2) by (auto simp: Let_def)
  qed
qed

lemma set_Sub_props:
  assumes "iset_ok s" "iset_ok b"
  shows "iset_ok (set_Sub s b) \<and> sids (set_Sub s b) = sids s - sids b"
proof (cases "s = []")
  case True
  then show ?thesis by (simp add: set_Sub_def Extent_def)
next
  case False
  with assms(1) obtain e where e: "Extent s = Some e" "start e < stop e" "sids s \<subseteq> iids e"
    and nb: "\<forall>x \<in> set s. \<not> Before x e"
    using Extent_props by blast
  have "dropWhile (\<lambda>x. Before x e) s = s"
    using nb by (cases s) auto
  moreover have "iset_ok (IntervalsBetween b e)" "sids (IntervalsBetween b e) = sids b \<inter> iids e"
    using IntervalsBetween_props [OF assms(2) e(2)] by auto
  ultimately show ?thesis
    using sub_loop_props [of "[]" s "IntervalsBetween b e"] assms(1) e by (auto simp: set_Sub_def)
qed

section \<open>The contract idset.go relies on\<close>

text \<open>
  What the client uses of an interval set: adding one interval and subtracting a set act as
  union and difference of the represented IDs, and keep the representation well formed.
\<close>

locale interval_set =
  fixes empty :: 's
    and add :: "'s \<Rightarrow> interval \<Rightarrow> 's"
    and sub :: "'s \<Rightarrow> 's \<Rightarrow> 's"
    and ids :: "'s \<Rightarrow> int set"
    and invar :: "'s \<Rightarrow> bool"
  assumes ids_empty: "ids empty = {}"
    and invar_empty: "invar empty"
    and ids_add: "invar s \<Longrightarrow> ids (add s i) = ids s \<union> iids i"
    and invar_add: "invar s \<Longrightarrow> invar (add s i)"
    and ids_sub: "invar s \<Longrightarrow> invar t \<Longrightarrow> ids (sub s t) = ids s - ids t"
    and invar_sub: "invar s \<Longrightarrow> invar t \<Longrightarrow> invar (sub s t)"
begin

lemma foldl_add: "invar s \<Longrightarrow> invar (foldl add s is) \<and> ids (foldl add s is) = ids s \<union> (\<Union>i \<in> set is. iids i)"
  by (induction "is" arbitrary: s) (auto simp: ids_add invar_add)

lemma of_intervals:
  "invar (foldl add empty is)" "ids (foldl add empty is) = (\<Union>i \<in> set is. iids i)"
  using foldl_add [OF invar_empty, of "is"] by (simp_all add: ids_empty)

end

interpretation ivs: interval_set "[]" "\<lambda>s i. set_Add s [i]" set_Sub sids iset_ok
  by unfold_locales (simp_all add: set_Add_single set_Sub_props)

section \<open>idSet as a set of IDs\<close>

definition idset_ok :: "idSet \<Rightarrow> bool" where
  "idset_ok s \<longleftrightarrow> iset_ok (idset_iterate s)"

definition idset_ids :: "idSet \<Rightarrow> int set" where
  "idset_ids s = sids (idset_iterate s)"

lemma idset_iterate_simps [simp]: "idset_iterate None = []" "idset_iterate (Some xs) = xs"
  by (simp_all add: idset_iterate_def)

lemma newIDSet_loop_foldl: "newIDSet_loop s is = foldl (\<lambda>s i. set_Add s [i]) s is"
  by (induction s "is" rule: newIDSet_loop.induct) auto

lemma newIDSet_ids: "idset_ids (newIDSet is) = (\<Union>i \<in> set is. iids i)"
  and newIDSet_ok: "idset_ok (newIDSet is)"
  by (simp_all add: idset_ids_def idset_ok_def newIDSet_def newIDSet_loop_foldl ivs.of_intervals)

lemma getHostIDs_ids: "idset_ids (getHostIDs ms) = all_ids HostID ms"
  by (auto simp: getHostIDs_def newIDSet_ids all_ids_def ids_by_def iids_def)

lemma getContainerIDs_ids: "idset_ids (getContainerIDs ms) = all_ids ContainerID ms"
  by (auto simp: getContainerIDs_def newIDSet_ids all_ids_def ids_by_def iids_def)

lemma getHostIDs_ok: "idset_ok (getHostIDs ms)"
  and getContainerIDs_ok: "idset_ok (getContainerIDs ms)"
  by (simp_all add: getHostIDs_def getContainerIDs_def newIDSet_ok)

lemma getHostIDs_Some: "\<exists>xs. getHostIDs ms = Some xs"
  and getContainerIDs_Some: "\<exists>xs. getContainerIDs ms = Some xs"
  by (simp_all add: getHostIDs_def getContainerIDs_def newIDSet_def)

lemma subtract_ids:
  assumes "idset_ok s" "idset_ok t"
  shows "idset_ids (subtract s t) = idset_ids s - idset_ids t"
    and "idset_ok (subtract s t)"
  using assms
  by (auto simp: subtract_def idset_ids_def idset_ok_def ivs.ids_sub ivs.invar_sub
      split: option.splits)

lemma idset_union_ids:
  assumes "idset_ok s" "idset_ok t"
  shows "idset_ids (idset_union s t) = idset_ids s \<union> idset_ids t"
    and "idset_ok (idset_union s t)"
  using assms
  by (auto simp: idset_union_def idset_ids_def idset_ok_def set_Add_props split: option.splits)

lemma finite_idset_ids [simp]: "finite (idset_ids s)"
  by (simp add: idset_ids_def)

definition total :: "interval list \<Rightarrow> int" where
  "total xs = sum_list (map ilength xs)"

lemma total_simps [simp]:
  "total [] = 0" "total (x # xs) = ilength x + total xs" "total (xs @ ys) = total xs + total ys"
  by (simp_all add: total_def)

lemma ilength_nonneg [simp]: "0 \<le> ilength i"
  by (simp add: ilength_def maxInt_def)

lemma ilength_card: "ilength i = int (card (iids i))"
  by (simp add: ilength_def maxInt_def iids_def)

lemma total_nonneg [simp]: "0 \<le> total xs"
  by (induction xs) auto

lemma card_sids: "iset_ok xs \<Longrightarrow> int (card (sids xs)) = total xs"
proof (induction xs)
  case Nil
  then show ?case by simp
next
  case (Cons x xs)
  have "\<forall>z \<in> set xs. stop x < start z" using Cons.prems by simp
  then have "iids x \<inter> sids xs = {}" by (fastforce simp: sids_def)
  with Cons show ?case by (simp add: card_Un_disjoint ilength_card iids_def)
qed

lemma idset_size_total: "idset_size s = total (idset_iterate s)"
proof -
  have "foldl (\<lambda>size i. size + ilength i) a xs = a + total xs" for a xs
    by (induction xs arbitrary: a) auto
  then show ?thesis by (simp add: idset_size_def)
qed

lemma idset_size_card: "idset_ok s \<Longrightarrow> idset_size s = int (card (idset_ids s))"
  by (simp add: idset_size_total idset_ids_def idset_ok_def card_sids)

subsection \<open>findAvailable\<close>

text \<open>The intervals the loop collects, without the accumulator.\<close>

fun taken :: "int \<Rightarrow> interval list \<Rightarrow> interval list" where
  "taken n [] = []"
| "taken n (i # is) =
     (if n > 0
      then let i' = \<lparr>start = start i, stop = minInt (stop i) (start i + n)\<rparr>
           in i' # taken (n - ilength i') is
      else [])"

lemma findAvailable_loop_taken:
  "findAvailable_loop n is acc = (acc @ taken n is, n - total (taken n is))"
  by (induction n "is" acc rule: findAvailable_loop.induct) (auto simp: Let_def)

lemma taken_subset: "\<forall>j \<in> set (taken n is). \<exists>i \<in> set is. start j = start i \<and> stop j \<le> stop i"
  by (induction n "is" rule: taken.induct) (auto simp: Let_def minInt_def)

lemma taken_ok: "iset_ok is \<Longrightarrow> iset_ok (taken n is)"
proof (induction n "is" rule: taken.induct)
  case (1 n)
  then show ?case by simp
next
  case (2 n i "is")
  show ?case
  proof (cases "n > 0")
    case False
    then show ?thesis by simp
  next
    case True
    let ?i = "\<lparr>start = start i, stop = minInt (stop i) (start i + n)\<rparr>"
    have "\<forall>j \<in> set (taken (n - ilength ?i) is). stop ?i < start j"
      using taken_subset [of "n - ilength ?i" "is"] "2.prems"
      by (fastforce simp: minInt_def)
    with 2 True show ?thesis by (auto simp: Let_def minInt_def)
  qed
qed

lemma taken_ids: "sids (taken n is) \<subseteq> sids is"
  using taken_subset [of n "is"] by (fastforce simp: sids_def)

lemma taken_total: "iset_ok is \<Longrightarrow> 0 \<le> n \<Longrightarrow> total (taken n is) = min n (total is)"
proof (induction n "is" rule: taken.induct)
  case (1 n)
  then show ?case by simp
next
  case (2 n i "is")
  show ?case
  proof (cases "n > 0")
    case False
    with "2.prems" show ?thesis by simp
  next
    case True
    let ?i = "\<lparr>start = start i, stop = minInt (stop i) (start i + n)\<rparr>"
    have "ilength ?i = min n (ilength i)"
      using True "2.prems" by (auto simp: ilength_def minInt_def maxInt_def)
    then show ?thesis
      using 2 True total_nonneg [of "is"] ilength_nonneg [of i]
      by (auto simp: Let_def min_def simp del: total_nonneg ilength_nonneg)
  qed
qed

lemma CheckSorted_ok: "iset_ok xs \<Longrightarrow> CheckSorted xs"
  by (induction xs rule: CheckSorted.induct) (auto simp: Before_def)

lemma findAvailable_ok:
  assumes "idset_ok s" "0 \<le> n" "n \<le> idset_size s"
  shows "\<exists>t. findAvailable s n = Inr t \<and> idset_ok t \<and> idset_ids t \<subseteq> idset_ids s \<and> idset_size t = n"
proof -
  let ?t = "taken n (idset_iterate s)"
  have ok: "iset_ok ?t" using assms(1) by (simp add: idset_ok_def taken_ok)
  have "total ?t = n"
    using assms by (simp add: idset_ok_def taken_total idset_size_total)
  then have "findAvailable s n = Inr (Some ?t)"
    by (simp add: findAvailable_def findAvailable_loop_taken NewSet_def CheckSorted_ok ok)
  with ok \<open>total ?t = n\<close> show ?thesis
    by (simp add: idset_ok_def idset_ids_def idset_size_total taken_ids)
qed

lemma findAvailable_insufficient:
  assumes "idset_ok s" "idset_size s < n"
  shows "findAvailable s n = Inl (Errorf ''could not find enough available IDs'')"
proof -
  have "0 \<le> idset_size s" by (simp add: idset_size_total)
  with assms(2) have "0 \<le> n" by linarith
  then have "total (taken n (idset_iterate s)) < n"
    using assms taken_total [of "idset_iterate s" n] by (simp add: idset_ok_def idset_size_total)
  then show ?thesis by (simp add: findAvailable_def findAvailable_loop_taken)
qed

subsection \<open>zip\<close>

lemma consume_head:
  assumes "iset_ok (h # hs)" "0 < n" "n \<le> ilength h"
  defines "rest \<equiv> if IsZero (drop_start n h) then hs else drop_start n h # hs"
  shows "iset_ok rest" "sids rest = sids (h # hs) - {start h ..< start h + n}"
    "{start h ..< start h + n} \<subseteq> sids (h # hs)" "total rest = total (h # hs) - n"
proof -
  have h: "start h < stop h" "n \<le> stop h - start h"
    using assms(1,3) by (auto simp: ilength_def maxInt_def split: if_splits)
  have hs: "\<forall>z \<in> set hs. stop h < start z" using assms(1) by simp
  then have "sids hs \<inter> {start h ..< start h + n} = {}"
    using h by (fastforce simp: sids_def)
  then show "sids rest = sids (h # hs) - {start h ..< start h + n}"
    using h assms(2) by (auto simp: rest_def drop_start_def)
  show "iset_ok rest" using assms(1) by (auto simp: rest_def drop_start_def)
  show "{start h ..< start h + n} \<subseteq> sids (h # hs)" using h by auto
  show "total rest = total (h # hs) - n"
    using h assms(2) by (auto simp: rest_def drop_start_def ilength_def maxInt_def)
qed

definition zip_spec :: "interval list \<Rightarrow> interval list \<Rightarrow> IDMap list \<Rightarrow> bool" where
  "zip_spec hs cs ms \<longleftrightarrow>
     (\<forall>m \<in> set ms. 0 < Size m) \<and>
     disjoint_by HostID ms \<and> disjoint_by ContainerID ms \<and>
     all_ids HostID ms \<subseteq> sids hs \<and> all_ids ContainerID ms \<subseteq> sids cs \<and>
     sum_list (map Size ms) = min (total hs) (total cs)"

declare zip_loop.simps(3) [simp del]

lemma zip_loop_spec: "iset_ok hs \<Longrightarrow> iset_ok cs \<Longrightarrow> zip_spec hs cs (zip_loop hs cs)"
proof (induction hs cs rule: zip_loop.induct)
  case (1 cs)
  then show ?case by (simp add: zip_spec_def)
next
  case (2 h hs)
  then show ?case by (simp add: zip_spec_def min_absorb2)
next
  case (3 h hs c cs)
  let ?n = "minInt (ilength h) (ilength c)"
  let ?hs = "if IsZero (drop_start ?n h) then hs else drop_start ?n h # hs"
  let ?cs = "if IsZero (drop_start ?n c) then cs else drop_start ?n c # cs"
  let ?m = "\<lparr>ContainerID = start c, HostID = start h, Size = ?n\<rparr>"
  have n: "0 < ?n" "?n \<le> ilength h" "?n \<le> ilength c"
    using "3.prems" by (auto simp: minInt_def ilength_def maxInt_def)
  define hs' cs' where rest: "hs' = ?hs" "cs' = ?cs"
  note H = consume_head [OF "3.prems"(1) n(1,2), folded rest(1)]
  note C = consume_head [OF "3.prems"(2) n(1,3), folded rest(2)]
  have "zip_spec hs' cs' (zip_loop hs' cs')"
    using H(1) C(1) unfolding rest by (rule "3.IH" [OF refl refl refl, unfolded if_P [OF n(1)]])
  moreover have "zip_loop (h # hs) (c # cs) = ?m # zip_loop hs' cs'"
    using n(1) unfolding rest by (simp add: zip_loop.simps(3) [of h hs c cs] Let_def)
  moreover have "ids_by HostID ?m = {start h ..< start h + ?n}"
    "ids_by ContainerID ?m = {start c ..< start c + ?n}"
    by (simp_all add: ids_by_def)
  ultimately show ?case
    using n(1) H(2-4) C(2-4) unfolding zip_spec_def by (auto simp del: sids_simps)
qed

lemma card_all_ids:
  "disjoint_by key ms \<Longrightarrow> \<forall>m \<in> set ms. 0 < Size m \<Longrightarrow> int (card (all_ids key ms)) = sum_list (map Size ms)"
proof (induction ms)
  case Nil
  then show ?case by simp
next
  case (Cons m ms)
  have "finite (all_ids key ms)" by (simp add: all_ids_def ids_by_def)
  moreover have "int (card (ids_by key m)) = Size m" "finite (ids_by key m)"
    using Cons.prems(2) by (simp_all add: ids_by_def)
  ultimately show ?case using Cons by (simp add: card_Un_disjoint)
qed

lemma idset_zip_props:
  assumes "idset_ok s" "idset_ok t" "idset_size s = idset_size t"
  shows "all_ids HostID (idset_zip s t) = idset_ids s"
    and "all_ids ContainerID (idset_zip s t) = idset_ids t"
    and "disjoint_by HostID (idset_zip s t)" "disjoint_by ContainerID (idset_zip s t)"
    and "\<forall>m \<in> set (idset_zip s t). 0 < Size m"
proof -
  let ?ms = "idset_zip s t"
  have spec: "zip_spec (idset_iterate s) (idset_iterate t) ?ms"
    using assms(1,2) by (simp add: idset_zip_def idset_ok_def zip_loop_spec)
  then show dis: "disjoint_by HostID ?ms" "disjoint_by ContainerID ?ms"
    and pos: "\<forall>m \<in> set ?ms. 0 < Size m"
    by (simp_all add: zip_spec_def)
  have sum: "sum_list (map Size ?ms) = idset_size s" "sum_list (map Size ?ms) = idset_size t"
    using spec assms(3) by (simp_all add: zip_spec_def idset_size_total)
  have "card (all_ids HostID ?ms) = card (idset_ids s)"
    and "card (all_ids ContainerID ?ms) = card (idset_ids t)"
    using card_all_ids [OF dis(1) pos] card_all_ids [OF dis(2) pos] sum
      idset_size_card [OF assms(1)] idset_size_card [OF assms(2)] by simp_all
  moreover have "all_ids HostID ?ms \<subseteq> idset_ids s" "all_ids ContainerID ?ms \<subseteq> idset_ids t"
    using spec by (simp_all add: zip_spec_def idset_ids_def)
  ultimately show "all_ids HostID ?ms = idset_ids s" "all_ids ContainerID ?ms = idset_ids t"
    by (simp_all add: card_subset_eq)
qed

section \<open>Main theorems\<close>

text \<open>
  C32: the operations on ID sets compute union and difference of the sets of IDs, a set built from
  intervals holds the IDs of all of them (in whatever order and however they overlap), the size is
  the number of IDs, and the results are again sorted, disjoint, non-empty intervals.
\<close>

theorem idset_operations:
  assumes "idset_ok s" "idset_ok t"
  shows "idset_ids (idset_union s t) = idset_ids s \<union> idset_ids t \<and> idset_ok (idset_union s t) \<and>
    idset_ids (subtract s t) = idset_ids s - idset_ids t \<and> idset_ok (subtract s t) \<and>
    idset_size s = int (card (idset_ids s)) \<and>
    idset_ids (newIDSet is) = (\<Union>i \<in> set is. iids i) \<and> idset_ok (newIDSet is)"
  using idset_union_ids [OF assms] subtract_ids [OF assms] idset_size_card [OF assms(1)]
    newIDSet_ids [of "is"] newIDSet_ok [of "is"] by simp

theorem idset_operations_witness:
  "idset_ids (subtract (newIDSet [\<lparr>start = 5, stop = 9\<rparr>, \<lparr>start = 0, stop = 6\<rparr>]) (newIDSet [\<lparr>start = 3, stop = 4\<rparr>]))
     = {0 ..< 9} - {3 ..< 4}"
  using idset_operations [of "newIDSet [\<lparr>start = 5, stop = 9\<rparr>, \<lparr>start = 0, stop = 6\<rparr>]" "newIDSet [\<lparr>start = 3, stop = 4\<rparr>]" "[]"]
    newIDSet_ok [of "[\<lparr>start = 5, stop = 9\<rparr>, \<lparr>start = 0, stop = 6\<rparr>]"] newIDSet_ok [of "[\<lparr>start = 3, stop = 4\<rparr>]"]
    newIDSet_ids [of "[\<lparr>start = 5, stop = 9\<rparr>, \<lparr>start = 0, stop = 6\<rparr>]"] newIDSet_ids [of "[\<lparr>start = 3, stop = 4\<rparr>]"]
  by (auto simp: iids_def)

text \<open>
  \<open>findAvailable\<close> succeeds exactly if the set holds at least \<open>n\<close> IDs, and then returns a
  well-formed subset of exactly \<open>n\<close> IDs.
\<close>

lemma findAvailable_exact:
  assumes "idset_ok s" "0 \<le> n"
  shows "case findAvailable s n of
      Inl _ \<Rightarrow> int (card (idset_ids s)) < n
    | Inr t \<Rightarrow> idset_ok t \<and> idset_ids t \<subseteq> idset_ids s \<and> int (card (idset_ids t)) = n"
proof (cases "n \<le> idset_size s")
  case True
  from findAvailable_ok [OF assms True] idset_size_card show ?thesis by force
next
  case False
  then show ?thesis
    using findAvailable_insufficient [OF assms(1), of n] idset_size_card [OF assms(1)] by simp
qed

lemma findAvailable_exact_witness:
  "case findAvailable (newIDSet [\<lparr>start = 10, stop = 12\<rparr>, \<lparr>start = 20, stop = 30\<rparr>]) 5 of
     Inl _ \<Rightarrow> False | Inr t \<Rightarrow> int (card (idset_ids t)) = 5"
proof -
  let ?s = "newIDSet [\<lparr>start = 10, stop = 12\<rparr>, \<lparr>start = 20, stop = 30\<rparr>]"
  have "idset_ids ?s = {10 ..< 12} \<union> {20 ..< 30}" by (auto simp: newIDSet_ids iids_def)
  moreover have "card ({10 ..< 12} \<union> {20 ..< 30 :: int}) = 12" by (subst card_Un_disjoint) auto
  ultimately show ?thesis
    using findAvailable_exact [OF newIDSet_ok, of 5 "[\<lparr>start = 10, stop = 12\<rparr>, \<lparr>start = 20, stop = 30\<rparr>]"]
    by (auto split: sum.splits)
qed

text \<open>
  \<open>zip\<close> of two ID sets of equal size maps the container set one-to-one onto the host set.
\<close>

lemma idset_zip_bijective:
  assumes "idset_ok s" "idset_ok t" "idset_size s = idset_size t"
  shows "all_ids HostID (idset_zip s t) = idset_ids s \<and> all_ids ContainerID (idset_zip s t) = idset_ids t \<and>
    disjoint_by HostID (idset_zip s t) \<and> disjoint_by ContainerID (idset_zip s t) \<and>
    (\<forall>c \<in> idset_ids t. \<exists>h \<in> idset_ids s. toHost c (Some (idset_zip s t)) = Inr h \<and>
       toContainer h (Some (idset_zip s t)) = Inr c)"
proof -
  note z = idset_zip_props [OF assms]
  have "\<exists>h \<in> idset_ids s. toHost c (Some (idset_zip s t)) = Inr h \<and> toContainer h (Some (idset_zip s t)) = Inr c"
    if c: "c \<in> idset_ids t" for c
  proof -
    obtain h where h: "toHost_loop c (idset_zip s t) = Inr h"
      using to_host.shift_defined_iff [of c "idset_zip s t"] z(2) c by auto
    then have "h \<in> idset_ids s" using to_host.shift_range [OF h] z(1) by simp
    with h toContainer_loop_toHost_loop [OF z(3) h] show ?thesis by (auto simp: toHost_def toContainer_def)
  qed
  then show ?thesis using z by simp
qed

lemma idset_zip_bijective_witness:
  "all_ids HostID (idset_zip (newIDSet [\<lparr>start = 100, stop = 104\<rparr>]) (newIDSet [\<lparr>start = 0, stop = 4\<rparr>])) = {100 ..< 104}"
proof -
  let ?s = "newIDSet [\<lparr>start = 100, stop = 104\<rparr>]" and ?t = "newIDSet [\<lparr>start = 0, stop = 4\<rparr>]"
  have i: "idset_ids ?s = {100 ..< 104}" "idset_ids ?t = {0 ..< 4}" by (simp_all add: newIDSet_ids iids_def)
  then have "idset_size ?s = idset_size ?t" by (simp add: idset_size_card newIDSet_ok)
  from idset_zip_bijective [OF newIDSet_ok newIDSet_ok this] i(1) show ?thesis by simp
qed

end
