(* ===== verification/UserNS.thy ===== *)
theory UserNS
  imports IdSet "HOL-Library.Word"
begin

text \<open>
  Automatic user namespaces: the parts of \<^verbatim>\<open>userns.go\<close> that compute with IDs only.
  The parts that walk layers and containers are in \<open>StoreUpdate\<close>.  The passwd and
  group parsers belong to \<^verbatim>\<open>runc/libcontainer\<close> and are parameters of
  \<open>parseMountedFiles\<close>.
\<close>

section \<open>Sizes from the image's user files\<close>

record pw_entry =
  pw_Name :: string
  pw_Uid :: int
  pw_Gid :: int

record gr_entry =
  gr_Name :: string
  gr_Gid :: int

fun users_max :: "int \<Rightarrow> pw_entry list \<Rightarrow> int" where
  "users_max sz [] = sz"
| "users_max sz (u # us) =
     (if pw_Name u = ''nobody'' then users_max sz us
      else let s1 = (if pw_Uid u > sz then pw_Uid u else sz);
               s2 = (if pw_Gid u > s1 then pw_Gid u else s1)
           in users_max s2 us)"

fun groups_max :: "int \<Rightarrow> gr_entry list \<Rightarrow> int" where
  "groups_max sz [] = sz"
| "groups_max sz (g # gs) =
     (if gr_Name g = ''nobody'' then groups_max sz gs
      else groups_max (if gr_Gid g > sz then gr_Gid g else sz) gs)"

text \<open>
  \<open>filepath.Join\<close> drops empty elements; with \<open>groupFile\<close> empty the group path is
  therefore just \<^verbatim>\<open>etc/group\<close>.
\<close>

definition join_nonempty :: "string list \<Rightarrow> string list" where
  "join_nonempty elems = filter (\<lambda>e. e \<noteq> []) elems"

definition passwd_path :: "string \<Rightarrow> string \<Rightarrow> string list" where
  "passwd_path containerMount passwdFile =
     (if passwdFile = [] then join_nonempty [containerMount, ''etc/passwd''] else [passwdFile])"

definition group_path :: "string \<Rightarrow> string \<Rightarrow> string list" where
  "group_path containerMount groupFile =
     (if groupFile = [] then join_nonempty [groupFile, ''etc/group''] else [groupFile])"

definition parseMountedFiles ::
  "(string list \<Rightarrow> gerr + pw_entry list) \<Rightarrow> (string list \<Rightarrow> gerr + gr_entry list) \<Rightarrow>
   string \<Rightarrow> string \<Rightarrow> string \<Rightarrow> 32 word" where
  "parseMountedFiles ParsePasswdFile ParseGroupFile containerMount passwdFile groupFile =
     (let s1 = (case ParsePasswdFile (passwd_path containerMount passwdFile) of
                  Inl _ \<Rightarrow> 0 | Inr users \<Rightarrow> users_max 0 users);
          s2 = (case ParseGroupFile (group_path containerMount groupFile) of
                  Inl _ \<Rightarrow> s1 | Inr groups \<Rightarrow> groups_max s1 groups)
      in word_of_int s2)"

section \<open>The loops over a layer's UIDs and GIDs\<close>

fun ids_size :: "32 word \<Rightarrow> 32 word list \<Rightarrow> 32 word" where
  "ids_size sz [] = sz"
| "ids_size sz (uid # ids) = ids_size (if uid \<ge> sz then uid + 1 else sz) ids"

section \<open>Choosing the mappings\<close>

definition getAutoUserNSIDMappings ::
  "int \<Rightarrow> idSet \<Rightarrow> idSet \<Rightarrow> IDMap list \<Rightarrow> IDMap list \<Rightarrow> IDMap list \<Rightarrow> IDMap list \<Rightarrow>
   gerr + (IDMap list \<times> IDMap list)" where
  "getAutoUserNSIDMappings sz availableUIDs availableGIDs usedUIDMappings usedGIDMappings
      additionalUIDMappings additionalGIDMappings =
     (let usedUIDs = getHostIDs (usedUIDMappings @ additionalUIDMappings);
          usedGIDs = getHostIDs (usedGIDMappings @ additionalGIDMappings);
          targetIDs = newIDSet [\<lparr>start = 0, stop = sz\<rparr>];
          requestedContainerUIDs = subtract targetIDs (getContainerIDs additionalUIDMappings);
          requestedContainerGIDs = subtract targetIDs (getContainerIDs additionalGIDMappings)
      in case findAvailable (subtract availableUIDs usedUIDs) (idset_size requestedContainerUIDs) of
           Inl e \<Rightarrow> Inl e
         | Inr us \<Rightarrow>
             (case findAvailable (subtract availableGIDs usedGIDs) (idset_size requestedContainerGIDs) of
                Inl e \<Rightarrow> Inl e
              | Inr gs \<Rightarrow>
                  Inr (idset_zip us requestedContainerUIDs @ additionalUIDMappings,
                       idset_zip gs requestedContainerGIDs @ additionalGIDMappings)))"

section \<open>Properties\<close>

text \<open>
  One side (users or groups) of the computation: \<open>n\<close> container IDs requested, \<open>avail\<close> the
  host IDs that may be used, \<open>used\<close> the mappings already in use, \<open>add\<close> the additional ones.
\<close>

definition auto_side :: "int \<Rightarrow> idSet \<Rightarrow> IDMap list \<Rightarrow> IDMap list \<Rightarrow> IDMap list \<Rightarrow> bool" where
  "auto_side n avail used add ms \<longleftrightarrow>
     (\<exists>auto. ms = auto @ add \<and>
        all_ids ContainerID auto = {0 ..< n} - all_ids ContainerID add \<and>
        all_ids HostID auto \<subseteq> idset_ids avail - all_ids HostID (used @ add) \<and>
        disjoint_by HostID auto \<and> disjoint_by ContainerID auto \<and> (\<forall>m \<in> set auto. 0 < Size m))"

definition requested :: "int \<Rightarrow> IDMap list \<Rightarrow> idSet" where
  "requested n add = subtract (newIDSet [\<lparr>start = 0, stop = n\<rparr>]) (getContainerIDs add)"

definition free_ids :: "idSet \<Rightarrow> IDMap list \<Rightarrow> IDMap list \<Rightarrow> idSet" where
  "free_ids avail used add = subtract avail (getHostIDs (used @ add))"

lemma requested_props:
  "idset_ids (requested n add) = {0 ..< n} - all_ids ContainerID add" "idset_ok (requested n add)"
  by (simp_all add: requested_def subtract_ids newIDSet_ok newIDSet_ids getContainerIDs_ok
      getContainerIDs_ids iids_def)

lemma free_ids_props:
  assumes "idset_ok avail"
  shows "idset_ids (free_ids avail used add) = idset_ids avail - all_ids HostID (used @ add)"
    and "idset_ok (free_ids avail used add)"
  using assms by (simp_all add: free_ids_def subtract_ids getHostIDs_ok getHostIDs_ids)

lemma idset_size_nonneg [simp]: "0 \<le> idset_size s"
  by (simp add: idset_size_total)

lemma findAvailable_Inr:
  assumes "idset_ok s" "findAvailable s n = Inr t" "0 \<le> n"
  shows "idset_ok t" "idset_ids t \<subseteq> idset_ids s" "idset_size t = n" "n \<le> idset_size s"
proof -
  show "n \<le> idset_size s"
    using findAvailable_insufficient [OF assms(1), of n] assms(2) by force
  with findAvailable_ok [OF assms(1,3)] assms(2)
  show "idset_ok t" "idset_ids t \<subseteq> idset_ids s" "idset_size t = n" by auto
qed

lemma auto_sideI:
  assumes "idset_ok avail"
    and "findAvailable (free_ids avail used add) (idset_size (requested n add)) = Inr t"
  shows "auto_side n avail used add (idset_zip t (requested n add) @ add)"
proof -
  note t = findAvailable_Inr [OF free_ids_props(2) [OF assms(1)] assms(2) idset_size_nonneg]
  note z = idset_zip_props [OF t(1) requested_props(2) t(3)]
  show ?thesis
    unfolding auto_side_def
    using z t(2) free_ids_props(1) [OF assms(1)] requested_props(1) [of n add] by auto
qed

lemma getAutoUserNSIDMappings_eq:
  "getAutoUserNSIDMappings n availU availG usedU usedG addU addG =
     (case findAvailable (free_ids availU usedU addU) (idset_size (requested n addU)) of
        Inl e \<Rightarrow> Inl e
      | Inr u \<Rightarrow>
          (case findAvailable (free_ids availG usedG addG) (idset_size (requested n addG)) of
             Inl e \<Rightarrow> Inl e
           | Inr g \<Rightarrow> Inr (idset_zip u (requested n addU) @ addU, idset_zip g (requested n addG) @ addG)))"
  by (simp only: getAutoUserNSIDMappings_def free_ids_def requested_def Let_def)

lemma getAutoUserNSIDMappings_sound:
  assumes "idset_ok availU" "idset_ok availG"
    and "getAutoUserNSIDMappings n availU availG usedU usedG addU addG = Inr (u, g)"
  shows "auto_side n availU usedU addU u \<and> auto_side n availG usedG addG g"
  using assms auto_sideI
  by (fastforce simp: getAutoUserNSIDMappings_eq split: sum.splits)

definition enough_ids :: "int \<Rightarrow> idSet \<Rightarrow> IDMap list \<Rightarrow> IDMap list \<Rightarrow> bool" where
  "enough_ids n avail used add \<longleftrightarrow>
     card ({0 ..< n} - all_ids ContainerID add) \<le> card (idset_ids avail - all_ids HostID (used @ add))"

lemma enough_ids_iff:
  assumes "idset_ok avail"
  shows "enough_ids n avail used add \<longleftrightarrow>
    idset_size (requested n add) \<le> idset_size (free_ids avail used add)"
  using assms
  by (simp add: enough_ids_def idset_size_card requested_props free_ids_props)

lemma findAvailable_iff:
  assumes "idset_ok s" "0 \<le> n"
  shows "(\<exists>t. findAvailable s n = Inr t) \<longleftrightarrow> n \<le> idset_size s"
  using assms findAvailable_ok [OF assms] findAvailable_insufficient [OF assms(1), of n]
  by (metis findAvailable_Inr(4))

lemma findAvailable_enough:
  assumes "idset_ok avail"
  shows "(\<exists>t. findAvailable (free_ids avail used add) (idset_size (requested n add)) = Inr t) \<longleftrightarrow>
    enough_ids n avail used add"
  using findAvailable_iff [OF free_ids_props(2) [OF assms] idset_size_nonneg] enough_ids_iff [OF assms]
  by simp

lemma getAutoUserNSIDMappings_complete:
  assumes "idset_ok availU" "idset_ok availG"
  shows "(\<exists>r. getAutoUserNSIDMappings n availU availG usedU usedG addU addG = Inr r) \<longleftrightarrow>
    enough_ids n availU usedU addU \<and> enough_ids n availG usedG addG"
  unfolding findAvailable_enough [OF assms(1), symmetric] findAvailable_enough [OF assms(2), symmetric]
    getAutoUserNSIDMappings_eq
  by (auto split: sum.splits)

lemma users_max_ge: "sz \<le> users_max sz us \<and>
   (\<forall>u \<in> set us. pw_Name u \<noteq> ''nobody'' \<longrightarrow> pw_Uid u \<le> users_max sz us \<and> pw_Gid u \<le> users_max sz us)"
proof (induction sz us rule: users_max.induct)
  case (1 sz)
  then show ?case by simp
next
  case (2 sz u us)
  show ?case
  proof (cases "pw_Name u = ''nobody''")
    case True
    with 2 show ?thesis by auto
  next
    case False
    from 2(2) [OF False refl refl] False show ?thesis
      by (auto simp: Let_def split: if_splits)
  qed
qed

lemma word_less_succ: "(w :: 32 word) \<noteq> - 1 \<Longrightarrow> w < w + 1"
proof -
  assume "w \<noteq> - 1"
  then have "1 + w \<noteq> 0" by (metis eq_neg_iff_add_eq_0 add.commute)
  then have "unat (1 + w) = Suc (unat w)" by (rule unatSuc)
  then show "w < w + 1" by (simp add: word_less_nat_alt add.commute)
qed

lemma ids_size_bound:
  assumes "\<forall>uid \<in> set ids. uid \<noteq> - 1"
  shows "sz \<le> ids_size sz ids \<and> (\<forall>uid \<in> set ids. uid < ids_size sz ids)"
  using assms
proof (induction sz ids rule: ids_size.induct)
  case (1 sz)
  then show ?case by simp
next
  case (2 sz uid ids)
  let ?s = "if uid \<ge> sz then uid + 1 else sz"
  have "uid \<noteq> - 1" using "2.prems" by simp
  then have "uid < uid + 1" by (rule word_less_succ)
  then have "sz \<le> ?s" "uid < ?s" by auto
  moreover have "?s \<le> ids_size ?s ids" "\<forall>uid \<in> set ids. uid < ids_size ?s ids"
    using 2 by auto
  ultimately show ?case by (auto intro: order_trans order.strict_trans2)
qed

section \<open>Main theorems\<close>

text \<open>
  C7: the mappings chosen for an automatic user namespace cover every requested container ID that
  is not covered by an additional mapping, use only available host IDs that neither an existing
  container nor an additional mapping uses, and map one-to-one.
\<close>

theorem auto_userns_mappings_sound:
  assumes "idset_ok availU" "idset_ok availG"
    and "getAutoUserNSIDMappings n availU availG usedU usedG addU addG = Inr (u, g)"
  shows "auto_side n availU usedU addU u \<and> auto_side n availG usedG addG g"
  by (rule getAutoUserNSIDMappings_sound [OF assms])

definition demo_avail :: idSet where
  "demo_avail = newIDSet [\<lparr>start = 1000, stop = 1010\<rparr>]"

lemma demo_avail_props: "idset_ok demo_avail" "idset_ids demo_avail = {1000 ..< 1010}"
  by (simp_all add: demo_avail_def newIDSet_ok newIDSet_ids iids_def)

definition demo_used :: "IDMap list" where
  "demo_used = [\<lparr>ContainerID = 0, HostID = 1000, Size = 4\<rparr>]"

lemma demo_enough: "enough_ids 5 demo_avail demo_used []"
proof -
  have "{1000 ..< 1010} - ids_by HostID \<lparr>ContainerID = 0, HostID = 1000, Size = 4\<rparr> = {1004 ..< 1010 :: int}"
    by (auto simp: ids_by_def)
  then show ?thesis by (simp add: enough_ids_def demo_avail_props demo_used_def)
qed

theorem auto_userns_mappings_sound_witness:
  "\<exists>u g. getAutoUserNSIDMappings 5 demo_avail demo_avail demo_used demo_used [] [] = Inr (u, g) \<and>
     auto_side 5 demo_avail demo_used [] u"
proof -
  obtain u g where run: "getAutoUserNSIDMappings 5 demo_avail demo_avail demo_used demo_used [] [] = Inr (u, g)"
    using getAutoUserNSIDMappings_complete [OF demo_avail_props(1) demo_avail_props(1), of 5 demo_used demo_used "[]" "[]"]
      demo_enough by auto
  from auto_userns_mappings_sound [OF demo_avail_props(1) demo_avail_props(1) run] run show ?thesis by blast
qed

text \<open>
  C31: mappings are found exactly if, for users and for groups, as many host IDs are free as
  container IDs are requested; otherwise the result is an error.
\<close>

theorem auto_userns_mappings_complete:
  assumes "idset_ok availU" "idset_ok availG"
  shows "(\<exists>r. getAutoUserNSIDMappings n availU availG usedU usedG addU addG = Inr r) \<longleftrightarrow>
    enough_ids n availU usedU addU \<and> enough_ids n availG usedG addG"
  by (rule getAutoUserNSIDMappings_complete [OF assms])

theorem auto_userns_mappings_complete_witness:
  "\<exists>r. getAutoUserNSIDMappings 5 demo_avail demo_avail demo_used demo_used [] [] = Inr r"
  using auto_userns_mappings_complete [OF demo_avail_props(1) demo_avail_props(1), of 5 demo_used demo_used "[]" "[]"] demo_enough
  by simp

text \<open>
  C40: the size computed from the IDs of a layer is larger than every ID below the largest 32-bit
  number and never shrinks; an ID equal to the largest 32-bit number wraps the size around to 0.
\<close>

theorem ids_size_bounds_and_wraps:
  "(\<forall>uid \<in> set ids. uid \<noteq> - 1 \<longrightarrow> uid < ids_size sz (filter (\<lambda>i. i \<noteq> - 1) ids)) \<and>
   sz \<le> ids_size sz (filter (\<lambda>i. i \<noteq> - 1) ids) \<and> ids_size sz (ids @ [- 1]) = 0"
proof -
  have "ids_size sz (ids @ ids') = ids_size (ids_size sz ids) ids'" for ids'
    by (induction sz ids rule: ids_size.induct) auto
  then show ?thesis using ids_size_bound [of "filter (\<lambda>i. i \<noteq> - 1) ids" sz] by auto
qed

theorem ids_size_bounds_and_wraps_witness:
  "ids_size 10 [5, 20, - 1] = (0 :: 32 word)"
  using ids_size_bounds_and_wraps [of "[5, 20]" 10] by simp

text \<open>
  With the default group file, the size read from the mounted files does not depend on the
  container's group file: two mounts give the same size whenever they have the same users.
\<close>

lemma parseMountedFiles_ignores_mounted_groups:
  assumes "passwdFile \<noteq> []"
  shows "parseMountedFiles pw gr mount passwdFile [] = parseMountedFiles pw gr mount' passwdFile []"
  using assms by (simp add: parseMountedFiles_def passwd_path_def group_path_def)

end
