(* ===== verification/Store.thy ===== *)
theory Store
  imports DriverNew Images Containers UserNS
begin

text \<open>
  The store: the state of \<^verbatim>\<open>store.go\<close> and how its operations reach the stores of layers,
  images and containers.

  \<^item> The operations keep the source's names under the prefix \<open>st_\<close>.  Their state is the
    \<open>store\<close> object and the environment of the layer stores.
  \<^item> The layer stores and image stores the process has created are kept in lists; a pointer to
    one is its position.  \<open>s_layerStore\<close> may become nil while an operation still uses the store it
    obtained before; such a store stays where it is.  A layer store carries the driver it was
    created with.  A nil slice of read-only stores is the empty list.
  \<^item> Every store object has a lock object of its own.
  \<^item> \<open>'d storeLib\<close> collects the code outside the component: the registered drivers, the
    digest and label packages, the passwd and group parsers, and what the operating system knows.
  \<^item> \<open>with_ls\<close>, \<open>with_is\<close> and \<open>with_cs\<close> are the pattern \<open>Lock(); defer Unlock(); ReloadIfChanged()\<close>,
    with the rest of the function inside, because the deferred call runs when it returns;
    \<open>find_ls\<close> and \<open>each_ls\<close> are the loops over the writable and the read-only stores, which
    keep every lock they took until the function returns.
\<close>

section \<open>State\<close>

record 'd storeLib =
  lib_drivers :: "'d registry"
  lib_isdir :: "path \<Rightarrow> bool"
  lib_diff :: diffLib
  lib_validate :: "digest \<Rightarrow> gerr option"
  lib_InitLabels :: "string list \<Rightarrow> gerr + (string \<times> string)"
  lib_stat :: "string \<Rightarrow> gerr + (int \<times> int)"
  lib_lstat :: "string \<Rightarrow> gerr + (int \<times> int)"
  lib_dirSize :: "path \<Rightarrow> world \<Rightarrow> gerr + int"
  lib_rootless :: bool
  lib_USER :: string
  lib_Geteuid :: nat
  lib_rootlessUID :: nat
  lib_LookupId :: "string \<Rightarrow> gerr + string"
  lib_subids :: "string \<Rightarrow> gerr + IDMappings"
  lib_ParsePasswdFile :: "string list \<Rightarrow> gerr + pw_entry list"
  lib_ParseGroupFile :: "string list \<Rightarrow> gerr + gr_entry list"
  lib_AdditionalLayers :: "'d Driver \<Rightarrow> (digest \<Rightarrow> string \<Rightarrow> ('d, 'd AdditionalLayer) go) option"

record 'd store =
  s_lastLoaded :: nat
  s_runRoot :: path
  s_graphLock :: lockfile
  s_usernsLock :: lockfile
  s_graphRoot :: path
  s_graphDriverName :: string
  s_graphOptions :: "string list"
  s_uidMap :: idmaps
  s_gidMap :: idmaps
  s_autoUsernsUser :: string
  s_additionalUIDs :: idSet
  s_additionalGIDs :: idSet
  s_autoNsMinSize :: "32 word"
  s_autoNsMaxSize :: "32 word"
  s_graphDriver :: "'d Driver option"
  s_layerStores :: "(layerStore \<times> 'd Driver) list"
  s_layerStore :: "nat option"
  s_roLayerStores :: "nat list"
  s_imageStores :: "imageStore list"
  s_imageStore :: "nat option"
  s_roImageStores :: "nat list"
  s_containerStore :: "containerStore option"
  s_digestLockRoot :: path
  s_disableVolatile :: bool

type_synonym ('d, 'a) sop = "('d store \<times> 'd env, 'a) go"

section \<open>Reaching the parts\<close>

definition st_world :: "(world, 'a) go \<Rightarrow> ('d, 'a) sop" where
  "st_world m = on_snd (env_world m)"

definition upd_st :: "('d store \<Rightarrow> 'd store) \<Rightarrow> ('d, unit) sop" where
  "upd_st f = modify (\<lambda>s. (f (fst s), snd s))"

definition ask_st :: "('d store \<Rightarrow> 'a) \<Rightarrow> ('d, 'a) sop" where
  "ask_st f s = (Inr (f (fst s)), s)"

definition of_res :: "gerr + 'a \<Rightarrow> ('s, 'a) go" where
  "of_res x s = (x, s)"

text \<open>\<open>time.Now()\<close>\<close>

definition st_now :: "('d, nat) sop" where
  "st_now s = (Inr (clock (wld (snd s))), s)"

definition on_graphLock :: "(lockfile \<times> world, 'a) go \<Rightarrow> ('d, 'a) sop" where
  "on_graphLock m s =
     (let (x, l, w) = m (s_graphLock (fst s), wld (snd s))
      in (x, ((fst s)\<lparr>s_graphLock := l\<rparr>, (snd s)\<lparr>wld := w\<rparr>)))"

definition on_usernsLock :: "(lockfile \<times> world, 'a) go \<Rightarrow> ('d, 'a) sop" where
  "on_usernsLock m s =
     (let (x, l, w) = m (s_usernsLock (fst s), wld (snd s))
      in (x, ((fst s)\<lparr>s_usernsLock := l\<rparr>, (snd s)\<lparr>wld := w\<rparr>)))"

definition layers_at :: "'d store \<Rightarrow> nat \<Rightarrow> layerStore" where
  "layers_at st i = fst (s_layerStores st ! i)"

definition images_at :: "'d store \<Rightarrow> nat \<Rightarrow> imageStore" where
  "images_at st i = s_imageStores st ! i"

definition on_ls :: "nat \<Rightarrow> ('d Driver \<Rightarrow> ('d, 'a) lop) \<Rightarrow> ('d, 'a) sop" where
  "on_ls i m s =
     (let (r, drv) = s_layerStores (fst s) ! i; (x, r', e) = m drv (r, snd s)
      in (x, ((fst s)\<lparr>s_layerStores := (s_layerStores (fst s))[i := (r', drv)]\<rparr>, e)))"

definition get_ls :: "nat \<Rightarrow> (layerStore \<Rightarrow> gerr + 'a) \<Rightarrow> ('d, 'a) sop" where
  "get_ls i f s = (f (layers_at (fst s) i), s)"

definition on_is :: "nat \<Rightarrow> (imageStore \<times> world, 'a) go \<Rightarrow> ('d, 'a) sop" where
  "on_is i m s =
     (let (x, r, w) = m (images_at (fst s) i, wld (snd s))
      in (x, ((fst s)\<lparr>s_imageStores := (s_imageStores (fst s))[i := r]\<rparr>, (snd s)\<lparr>wld := w\<rparr>)))"

definition get_is :: "nat \<Rightarrow> (imageStore \<Rightarrow> gerr + 'a) \<Rightarrow> ('d, 'a) sop" where
  "get_is i f s = (f (images_at (fst s) i), s)"

definition on_cs :: "(containerStore \<times> world, 'a) go \<Rightarrow> ('d, 'a) sop" where
  "on_cs m s =
     (case s_containerStore (fst s) of
        None \<Rightarrow> (Inl (Panic ''nil pointer dereference''), s)
      | Some r \<Rightarrow>
          (let (x, r', w) = m (r, wld (snd s))
           in (x, ((fst s)\<lparr>s_containerStore := Some r'\<rparr>, (snd s)\<lparr>wld := w\<rparr>))))"

definition get_cs :: "(containerStore \<Rightarrow> gerr + 'a) \<Rightarrow> ('d, 'a) sop" where
  "get_cs f s =
     (case s_containerStore (fst s) of
        None \<Rightarrow> (Inl (Panic ''nil pointer dereference''), s)
      | Some r \<Rightarrow> (f r, s))"

section \<open>Locking\<close>

definition is_lock :: "(lockfile \<times> world, 'a) go \<Rightarrow> (imageStore \<times> world, 'a) go" where
  "is_lock m s = (let (x, l, w) = m (is_lockfile (fst s), snd s) in (x, ((fst s)\<lparr>is_lockfile := l\<rparr>, w)))"

definition cs_lock :: "(lockfile \<times> world, 'a) go \<Rightarrow> (containerStore \<times> world, 'a) go" where
  "cs_lock m s = (let (x, l, w) = m (cs_lockfile (fst s), snd s) in (x, ((fst s)\<lparr>cs_lockfile := l\<rparr>, w)))"

type_synonym locking = "(lockfile \<times> world, unit) go"

definition locked_ls :: "nat \<Rightarrow> locking \<Rightarrow> ('d, 'a) sop \<Rightarrow> ('d, 'a) sop" where
  "locked_ls i lock m =
     bind (on_ls i (\<lambda>_. on_lock lock)) (\<lambda>_. deferred (on_ls i (\<lambda>_. on_lock (on_fst Unlock))) m)"

definition with_ls :: "nat \<Rightarrow> locking \<Rightarrow> ('d, 'a) sop \<Rightarrow> ('d, 'a) sop" where
  "with_ls i lock m = locked_ls i lock (bind (on_ls i ls_ReloadIfChanged) (\<lambda>_. m))"

definition with_is :: "'d storeLib \<Rightarrow> nat \<Rightarrow> locking \<Rightarrow> ('d, 'a) sop \<Rightarrow> ('d, 'a) sop" where
  "with_is lib i lock m =
     bind (on_is i (is_lock lock)) (\<lambda>_. deferred (on_is i (is_lock (on_fst Unlock)))
       (bind (on_is i (is_ReloadIfChanged (lib_validate lib))) (\<lambda>_. m)))"

definition with_cs :: "locking \<Rightarrow> ('d, 'a) sop \<Rightarrow> ('d, 'a) sop" where
  "with_cs lock m =
     bind (on_cs (cs_lock lock)) (\<lambda>_. deferred (on_cs (cs_lock (on_fst Unlock)))
       (bind (on_cs cs_ReloadIfChanged) (\<lambda>_. m)))"

definition with_graphLock :: "('d, 'a) sop \<Rightarrow> ('d, 'a) sop" where
  "with_graphLock m = bind (on_graphLock Lock) (\<lambda>_. deferred (on_graphLock (on_fst Unlock)) m)"

definition with_usernsLock :: "('d, 'a) sop \<Rightarrow> ('d, 'a) sop" where
  "with_usernsLock m = bind (on_usernsLock Lock) (\<lambda>_. deferred (on_usernsLock (on_fst Unlock)) m)"

text \<open>
  A loop over stores: \<open>f\<close> is the body; a value ends the loop and the rest \<open>k\<close> of the function runs
  with it, with the locks still held.
\<close>

fun find_ls :: "(nat \<Rightarrow> locking) \<Rightarrow> nat list \<Rightarrow> (nat \<Rightarrow> ('d, 'b option) sop) \<Rightarrow> ('b option \<Rightarrow> ('d, 'a) sop) \<Rightarrow>
    ('d, 'a) sop" where
  "find_ls lock [] f k = k None"
| "find_ls lock (i # ss) f k =
     with_ls i (lock i) (bind (f i) (\<lambda>r. case r of Some x \<Rightarrow> k (Some x) | None \<Rightarrow> find_ls lock ss f k))"

fun find_is :: "'d storeLib \<Rightarrow> (nat \<Rightarrow> locking) \<Rightarrow> nat list \<Rightarrow> (nat \<Rightarrow> ('d, 'b option) sop) \<Rightarrow>
    ('b option \<Rightarrow> ('d, 'a) sop) \<Rightarrow> ('d, 'a) sop" where
  "find_is lib lock [] f k = k None"
| "find_is lib lock (i # ss) f k =
     with_is lib i (lock i) (bind (f i) (\<lambda>r. case r of Some x \<Rightarrow> k (Some x) | None \<Rightarrow> find_is lib lock ss f k))"

text \<open>A loop that visits every store and collects.\<close>

fun each_ls :: "nat list \<Rightarrow> (nat \<Rightarrow> 'b \<Rightarrow> ('d, 'b) sop) \<Rightarrow> 'b \<Rightarrow> ('b \<Rightarrow> ('d, 'a) sop) \<Rightarrow> ('d, 'a) sop" where
  "each_ls [] f acc k = k acc"
| "each_ls (i # ss) f acc k = with_ls i RLock (bind (f i acc) (\<lambda>acc'. each_ls ss f acc' k))"

fun each_is :: "'d storeLib \<Rightarrow> nat list \<Rightarrow> (nat \<Rightarrow> 'b \<Rightarrow> ('d, 'b) sop) \<Rightarrow> 'b \<Rightarrow> ('b \<Rightarrow> ('d, 'a) sop) \<Rightarrow> ('d, 'a) sop" where
  "each_is lib [] f acc k = k acc"
| "each_is lib (i # ss) f acc k = with_is lib i RLock (bind (f i acc) (\<lambda>acc'. each_is lib ss f acc' k))"

definition reading :: "nat \<Rightarrow> locking" where
  "reading i = RLock"

text \<open>The writable store is locked for writing, the others for reading.\<close>

definition writing :: "nat \<Rightarrow> nat \<Rightarrow> locking" where
  "writing main i = (if i = main then Lock else RLock)"

text \<open>The loop body \<open>if x, err := store.op(); err == nil { return x }\<close> and its form behind \<open>Exists\<close>.\<close>

definition first_ok :: "('s, 'a) go \<Rightarrow> ('s, 'a option) go" where
  "first_ok m = bind (attempt m) (\<lambda>res. ret (case res of Inr x \<Rightarrow> Some x | Inl _ \<Rightarrow> None))"

definition if_in_ls :: "nat \<Rightarrow> string \<Rightarrow> ('d, 'a) sop \<Rightarrow> ('d, 'a option) sop" where
  "if_in_ls i ident m s =
     (if ls_Exists ident (layers_at (fst s) i) then bind m (\<lambda>x. ret (Some x)) s else (Inr None, s))"

definition if_in_is :: "nat \<Rightarrow> string \<Rightarrow> ('d, 'a) sop \<Rightarrow> ('d, 'a option) sop" where
  "if_in_is i ident m s =
     (if is_Exists ident (images_at (fst s) i) then bind m (\<lambda>x. ret (Some x)) s else (Inr None, s))"

text \<open>What the loops return when no store had an answer.\<close>

definition or_fail :: "gerr \<Rightarrow> 'a option \<Rightarrow> ('s, 'a) go" where
  "or_fail e r = (case r of Some x \<Rightarrow> ret x | None \<Rightarrow> fail e)"

definition or_else :: "('s, 'a) go \<Rightarrow> 'a option \<Rightarrow> ('s, 'a) go" where
  "or_else m r = (case r of Some x \<Rightarrow> ret x | None \<Rightarrow> m)"

end
