(* ===== verification/StoreOpen.thy ===== *)
theory StoreOpen
  imports Store
begin

text \<open>
  Opening a store and obtaining its parts: \<open>GetStore\<close>, \<open>load\<close>, \<open>GraphDriver\<close>, \<open>LayerStore\<close>,
  \<open>ROLayerStores\<close>, \<open>ImageStore\<close>, \<open>ROImageStores\<close>, \<open>ContainerStore\<close>, \<open>Free\<close> and the
  accessors of \<^verbatim>\<open>store.go\<close>.

  The stores that \<open>GetStore\<close> has created are a list; a store is its position.  \<open>Abs\<close> is
  \<open>filepath.Abs\<close> and \<open>defaults\<close> the value of \<open>types.Options()\<close>.
\<close>

record StoreOptions =
  so_RunRoot :: string
  so_GraphRoot :: string
  so_GraphDriverName :: string
  so_GraphDriverOptions :: "string list"
  so_UIDMap :: idmaps
  so_GIDMap :: idmaps
  so_RootAutoNsUser :: string
  so_AutoNsMinSize :: "32 word"
  so_AutoNsMaxSize :: "32 word"
  so_DisableVolatile :: bool

section \<open>The graph driver\<close>

definition st_getGraphDriver :: "'d storeLib \<Rightarrow> ('d, 'd Driver) sop" where
  "st_getGraphDriver lib s =
     (case s_graphDriver (fst s) of
        Some driver \<Rightarrow> (Inr driver, s)
      | None \<Rightarrow>
          let st = fst s;
              config = \<lparr>dopt_Root = s_graphRoot st, dopt_RunRoot = s_runRoot st, dopt_DriverOptions = s_graphOptions st,
                        dopt_UIDMaps = s_uidMap st, dopt_GIDMaps = s_gidMap st, dopt_ExperimentalEnabled = False\<rparr>
          in bind (on_snd (drv_New (lib_isdir lib) (lib_drivers lib) (s_graphDriverName st) config)) (\<lambda>driver.
             bind (upd_st (\<lambda>st. st\<lparr>s_graphDriver := Some driver, s_graphDriverName := drv_String driver\<rparr>)) (\<lambda>_.
               ret driver)) s)"

text \<open>
  \<open>if s.graphLock.TouchedSince(s.lastLoaded) { ... }\<close>: what another process has changed makes the
  driver and the layer store stale.
\<close>

definition st_drop_stale :: "('d, unit) sop" where
  "st_drop_stale s =
     bind (on_graphLock (TouchedSince (s_lastLoaded (fst s)))) (\<lambda>touched.
       if touched
       then bind st_now (\<lambda>now. upd_st (\<lambda>st. st\<lparr>s_graphDriver := None, s_layerStore := None, s_lastLoaded := now\<rparr>))
       else ret ()) s"

definition st_GraphDriver :: "'d storeLib \<Rightarrow> ('d, 'd Driver) sop" where
  "st_GraphDriver lib = with_graphLock (bind st_drop_stale (\<lambda>_. st_getGraphDriver lib))"

section \<open>The stores of layers, images and containers\<close>

definition prefixed :: "'d store \<Rightarrow> string \<Rightarrow> string" where
  "prefixed st name = s_graphDriverName st @ ''-'' @ name"

text \<open>A new object in the list of layer stores; the result is its position.\<close>

definition new_ls :: "layerStore \<Rightarrow> 'd Driver \<Rightarrow> ('d, nat) sop" where
  "new_ls r driver s =
     (Inr (length (s_layerStores (fst s))), ((fst s)\<lparr>s_layerStores := s_layerStores (fst s) @ [(r, driver)]\<rparr>, snd s))"

definition st_open_layers :: "'d storeLib \<Rightarrow> ('d, nat) sop" where
  "st_open_layers lib =
     bind (st_getGraphDriver lib) (\<lambda>driver.
     bind (ask_st (\<lambda>st. (join_name (s_runRoot st) (prefixed st ''layers''), join_name (s_graphRoot st) (prefixed st ''layers'')))) (\<lambda>(rlpath, glpath).
     bind (st_world (MkdirAll rlpath)) (\<lambda>_.
     bind (st_world (MkdirAll glpath)) (\<lambda>_.
     bind (ask_st (\<lambda>st. (s_uidMap st, s_gidMap st))) (\<lambda>(um, gm).
     bind (on_snd (newLayerStore um gm driver rlpath glpath)) (\<lambda>rls.
     bind (new_ls rls driver) (\<lambda>i.
     bind (upd_st (\<lambda>st. st\<lparr>s_layerStore := Some i\<rparr>)) (\<lambda>_. ret i))))))))"

definition st_LayerStore :: "'d storeLib \<Rightarrow> ('d, nat) sop" where
  "st_LayerStore lib =
     with_graphLock (bind st_drop_stale (\<lambda>_ s.
       case s_layerStore (fst s) of Some i \<Rightarrow> (Inr i, s) | None \<Rightarrow> st_open_layers lib s))"

fun st_open_ro_layers :: "'d Driver \<Rightarrow> path \<Rightarrow> path list \<Rightarrow> ('d, nat list) sop" where
  "st_open_ro_layers driver rlpath [] = ask_st s_roLayerStores"
| "st_open_ro_layers driver rlpath (p # ps) =
     bind (ask_st (\<lambda>st. join_name p (prefixed st ''layers''))) (\<lambda>glpath.
     bind (on_snd (newROLayerStore driver rlpath glpath)) (\<lambda>rls.
     bind (new_ls rls driver) (\<lambda>i.
     bind (upd_st (\<lambda>st. st\<lparr>s_roLayerStores := s_roLayerStores st @ [i]\<rparr>)) (\<lambda>_.
       st_open_ro_layers driver rlpath ps))))"

definition st_ROLayerStores :: "'d storeLib \<Rightarrow> ('d, nat list) sop" where
  "st_ROLayerStores lib =
     with_graphLock (\<lambda>s.
       if s_roLayerStores (fst s) \<noteq> [] then (Inr (s_roLayerStores (fst s)), s)
       else bind (st_getGraphDriver lib) (\<lambda>driver.
            bind (ask_st (\<lambda>st. join_name (s_runRoot st) (prefixed st ''layers''))) (\<lambda>rlpath.
            bind (st_world (MkdirAll rlpath)) (\<lambda>_.
              st_open_ro_layers driver rlpath (drv_AdditionalImageStores driver)))) s)"

definition st_ImageStore :: "('d, nat) sop" where
  "st_ImageStore s = (case s_imageStore (fst s) of Some i \<Rightarrow> (Inr i, s) | None \<Rightarrow> (Inl ErrLoadError, s))"

definition st_ROImageStores :: "('d, nat list) sop" where
  "st_ROImageStores s =
     (if s_imageStore (fst s) = None then (Inl ErrLoadError, s) else (Inr (s_roImageStores (fst s)), s))"

definition st_ContainerStore :: "('d, unit) sop" where
  "st_ContainerStore s = (if s_containerStore (fst s) = None then (Inl ErrLoadError, s) else (Inr (), s))"

text \<open>\<open>LayerStore()\<close> and \<open>ROLayerStores()\<close>, and the same for images.\<close>

definition all_ls :: "'d storeLib \<Rightarrow> (nat \<Rightarrow> nat list \<Rightarrow> ('d, 'a) sop) \<Rightarrow> ('d, 'a) sop" where
  "all_ls lib k = bind (st_LayerStore lib) (\<lambda>lstore. bind (st_ROLayerStores lib) (\<lambda>lstores. k lstore lstores))"

definition all_is :: "(nat \<Rightarrow> nat list \<Rightarrow> ('d, 'a) sop) \<Rightarrow> ('d, 'a) sop" where
  "all_is k = bind st_ImageStore (\<lambda>istore. bind st_ROImageStores (\<lambda>istores. k istore istores))"

text \<open>
  The beginning of the operations that change layers, images and containers: the three writable
  stores are obtained, then locked and reloaded in this order.
\<close>

definition with_writable :: "'d storeLib \<Rightarrow> (nat \<Rightarrow> nat \<Rightarrow> ('d, 'a) sop) \<Rightarrow> ('d, 'a) sop" where
  "with_writable lib k =
     bind (st_LayerStore lib) (\<lambda>rl.
     bind st_ImageStore (\<lambda>ri.
     bind st_ContainerStore (\<lambda>_.
       with_ls rl Lock (with_is lib ri Lock (with_cs Lock (k rl ri))))))"

section \<open>Loading\<close>

definition new_is :: "imageStore \<Rightarrow> ('d, nat) sop" where
  "new_is r s = (Inr (length (s_imageStores (fst s))), ((fst s)\<lparr>s_imageStores := s_imageStores (fst s) @ [r]\<rparr>, snd s))"

fun st_open_ro_images :: "'d storeLib \<Rightarrow> path list \<Rightarrow> ('d, unit) sop" where
  "st_open_ro_images lib [] = ret ()"
| "st_open_ro_images lib (p # ps) =
     bind (ask_st (\<lambda>st. join_name p (prefixed st ''images''))) (\<lambda>gipath.
     bind (st_world (newROImageStore (lib_validate lib) gipath)) (\<lambda>ris.
     bind (new_is ris) (\<lambda>i.
     bind (upd_st (\<lambda>st. st\<lparr>s_roImageStores := s_roImageStores st @ [i]\<rparr>)) (\<lambda>_.
       st_open_ro_images lib ps))))"

definition st_load :: "'d storeLib \<Rightarrow> ('d, unit) sop" where
  "st_load lib =
     bind (st_GraphDriver lib) (\<lambda>driver.
     bind (upd_st (\<lambda>st. st\<lparr>s_graphDriver := Some driver, s_graphDriverName := drv_String driver\<rparr>)) (\<lambda>_.
     bind (ask_st (\<lambda>st. join_name (s_graphRoot st) (prefixed st ''images''))) (\<lambda>gipath.
     bind (st_world (MkdirAll gipath)) (\<lambda>_.
     bind (st_world (newImageStore (lib_validate lib) gipath)) (\<lambda>ris.
     bind (new_is ris) (\<lambda>i.
     bind (upd_st (\<lambda>st. st\<lparr>s_imageStore := Some i\<rparr>)) (\<lambda>_.
     bind st_ROImageStores (\<lambda>_.
     bind (ask_st (\<lambda>st. join_name (s_graphRoot st) (prefixed st ''containers''))) (\<lambda>gcpath.
     bind (st_world (MkdirAll gcpath)) (\<lambda>_.
     bind (st_world (newContainerStore gcpath)) (\<lambda>rcs.
     bind (ask_st (\<lambda>st. join_name (s_runRoot st) (prefixed st ''containers''))) (\<lambda>rcpath.
     bind (st_world (MkdirAll rcpath)) (\<lambda>_.
     bind (upd_st (\<lambda>st. st\<lparr>s_containerStore := Some rcs\<rparr>)) (\<lambda>_.
     bind (st_open_ro_images lib (drv_AdditionalImageStores driver)) (\<lambda>_.
     bind (upd_st (\<lambda>st. st\<lparr>s_digestLockRoot := join_name (s_runRoot st) (prefixed st ''locks'')\<rparr>)) (\<lambda>_ s.
       st_world (MkdirAll (s_digestLockRoot (fst s))) s))))))))))))))))"

definition st_GetDigestLock :: "digest \<Rightarrow> ('d, lockfile) sop" where
  "st_GetDigestLock d s = st_world (createLockerForPath (join_name (s_digestLockRoot (fst s)) d) False) s"

text \<open>The fields \<open>GetStore\<close> fills in.\<close>

definition AutoUserNsMinSize :: "32 word" where
  "AutoUserNsMinSize = 1024"

definition AutoUserNsMaxSize :: "32 word" where
  "AutoUserNsMaxSize = 65536"

definition new_store :: "StoreOptions \<Rightarrow> path \<Rightarrow> path \<Rightarrow> lockfile \<Rightarrow> lockfile \<Rightarrow> 'd store" where
  "new_store options runRoot graphRoot graphLock usernsLock =
     \<lparr>s_lastLoaded = 0, s_runRoot = runRoot, s_graphLock = graphLock, s_usernsLock = usernsLock,
      s_graphRoot = graphRoot, s_graphDriverName = so_GraphDriverName options,
      s_graphOptions = so_GraphDriverOptions options,
      s_uidMap = copyIDMap (so_UIDMap options), s_gidMap = copyIDMap (so_GIDMap options),
      s_autoUsernsUser = so_RootAutoNsUser options, s_additionalUIDs = None, s_additionalGIDs = None,
      s_autoNsMinSize = (if so_AutoNsMinSize options = 0 then AutoUserNsMinSize else so_AutoNsMinSize options),
      s_autoNsMaxSize = (if so_AutoNsMaxSize options = 0 then AutoUserNsMaxSize else so_AutoNsMaxSize options),
      s_graphDriver = None, s_layerStores = [], s_layerStore = None, s_roLayerStores = [],
      s_imageStores = [], s_imageStore = None, s_roImageStores = [], s_containerStore = None,
      s_digestLockRoot = [], s_disableVolatile = so_DisableVolatile options\<rparr>"

definition known_store :: "path option \<Rightarrow> string \<Rightarrow> 'd store \<Rightarrow> bool" where
  "known_store graphRoot name st \<longleftrightarrow>
     Some (s_graphRoot st) = graphRoot \<and> (name = [] \<or> s_graphDriverName st = name)"

definition get_env :: "(world, 'a) go \<Rightarrow> ('d store list \<times> 'd env, 'a) go" where
  "get_env m = on_snd (env_world m)"

definition st_open_store :: "'d storeLib \<Rightarrow> StoreOptions \<Rightarrow> path \<Rightarrow> path \<Rightarrow> ('d store list \<times> 'd env, nat) go" where
  "st_open_store lib options runRoot graphRoot =
     bind (get_env (MkdirAll runRoot)) (\<lambda>_.
     bind (get_env (MkdirAll graphRoot)) (\<lambda>_.
     bind (get_env (MkdirAll (join_name graphRoot ''mounts''))) (\<lambda>_.
     bind (get_env (MkdirAll (join_name graphRoot ''tmp''))) (\<lambda>_.
     bind (get_env (MkdirAll (join_name graphRoot (so_GraphDriverName options)))) (\<lambda>_.
     bind (get_env (createLockerForPath (join_name graphRoot ''storage.lock'') False)) (\<lambda>graphLock.
     bind (get_env (createLockerForPath (join_name graphRoot ''userns.lock'') False)) (\<lambda>usernsLock (sts, e).
       case st_load lib (new_store options runRoot graphRoot graphLock usernsLock, e) of
         (Inl err, (_, e')) \<Rightarrow> (Inl err, (sts, e'))
       | (Inr _, (st, e')) \<Rightarrow> (Inr (length sts), (sts @ [st], e')))))))))"

definition abs_root :: "(string \<Rightarrow> gerr + path) \<Rightarrow> string \<Rightarrow> gerr + path option" where
  "abs_root Abs root = (if root = [] then Inr None else map_sum id Some (Abs root))"

definition st_GetStore :: "'d storeLib \<Rightarrow> (string \<Rightarrow> gerr + path) \<Rightarrow> StoreOptions \<Rightarrow> StoreOptions \<Rightarrow>
    ('d store list \<times> 'd env, nat) go" where
  "st_GetStore lib Abs defaults options0 =
     (let options = (if so_RunRoot options0 = [] \<and> so_GraphRoot options0 = [] \<and> so_GraphDriverName options0 = [] \<and>
                        so_GraphDriverOptions options0 = [] then defaults else options0)
      in bind (of_res (abs_root Abs (so_GraphRoot options))) (\<lambda>graphRoot.
         bind (of_res (abs_root Abs (so_RunRoot options))) (\<lambda>runRoot s.
           case find_index (known_store graphRoot (so_GraphDriverName options)) (fst s) of
             Some i \<Rightarrow> (Inr i, s)
           | None \<Rightarrow>
               (case graphRoot of
                  None \<Rightarrow> (Inl ErrIncompleteOptions, s)
                | Some g \<Rightarrow>
                    (case runRoot of
                       None \<Rightarrow> (Inl ErrIncompleteOptions, s)
                     | Some r \<Rightarrow> st_open_store lib options r g s)))))"

text \<open>\<open>Free\<close> takes the store out of the list.\<close>

definition st_Free :: "nat \<Rightarrow> 'd store list \<Rightarrow> 'd store list" where
  "st_Free i sts = (if i < length sts then remove_nth i sts else sts)"

section \<open>Accessors and mount options\<close>

definition st_UIDMap :: "'d store \<Rightarrow> idmaps" where
  "st_UIDMap st = copyIDMap (s_uidMap st)"

definition st_GIDMap :: "'d store \<Rightarrow> idmaps" where
  "st_GIDMap st = copyIDMap (s_gidMap st)"

fun mount_option :: "string list \<Rightarrow> string list \<Rightarrow> gerr + string list option" where
  "mount_option keys [] = Inr None"
| "mount_option keys (opt # opts) =
     (case ParseKeyValueOpt opt of
        Inl e \<Rightarrow> Inl e
      | Inr (key, val) \<Rightarrow>
          if map lower key \<in> set keys then Inr (Some (split_on (CHR '','') val)) else mount_option keys opts)"

definition GetMountOptions :: "string \<Rightarrow> string list \<Rightarrow> gerr + string list option" where
  "GetMountOptions driver graphDriverOptions = mount_option [''.mountopt'', driver @ ''.mountopt''] graphDriverOptions"

definition validateMountOptions :: "string list \<Rightarrow> gerr option" where
  "validateMountOptions mountOptions = (if ''rw'' \<in> set mountOptions then Some (Errorf ''option not supported'') else None)"

end
