(* ===== verification/StoreQuery.thy ===== *)
theory StoreQuery
  imports StoreOpen
begin

text \<open>
  The operations of \<^verbatim>\<open>store.go\<close> that look things up: by identifier, by name, by digest and by
  layer, data items, sizes, owners and differences.  Most of them ask the layer stores, then the image
  stores, then the container store, each locked for reading and reloaded if it has changed, and return
  the first answer.
\<close>

section \<open>By identifier or name\<close>

definition st_in_cs :: "('d, 'a) sop \<Rightarrow> ('d, 'a) sop" where
  "st_in_cs m = bind st_ContainerStore (\<lambda>_. with_cs RLock m)"

definition st_Metadata :: "'d storeLib \<Rightarrow> string \<Rightarrow> ('d, string) sop" where
  "st_Metadata lib ident =
     all_ls lib (\<lambda>lstore lstores.
       find_ls reading (lstore # lstores) (\<lambda>i. if_in_ls i ident (get_ls i (ls_Metadata ident))) (or_else
         (all_is (\<lambda>istore istores.
            find_is lib reading (istore # istores) (\<lambda>i. if_in_is i ident (get_is i (is_Metadata ident))) (or_else
              (st_in_cs (get_cs (\<lambda>r. if cs_Exists ident r then cs_Metadata ident r else Inl ErrNotAnID))))))))"

text \<open>\<open>Exists\<close> turns every error into \<open>false\<close>; a panic is not an error.\<close>

definition st_exists_body :: "'d storeLib \<Rightarrow> string \<Rightarrow> ('d, bool) sop" where
  "st_exists_body lib ident =
     all_ls lib (\<lambda>lstore lstores.
       find_ls reading (lstore # lstores) (\<lambda>i. if_in_ls i ident (ret True)) (or_else
         (all_is (\<lambda>istore istores.
            find_is lib reading (istore # istores) (\<lambda>i. if_in_is i ident (ret True)) (or_else
              (st_in_cs (get_cs (\<lambda>r. Inr (cs_Exists ident r)))))))))"

definition st_Exists :: "'d storeLib \<Rightarrow> string \<Rightarrow> ('d, bool) sop" where
  "st_Exists lib ident =
     bind (attempt (st_exists_body lib ident)) (\<lambda>res. ret (case res of Inr b \<Rightarrow> b | Inl _ \<Rightarrow> False))"

definition st_Names :: "'d storeLib \<Rightarrow> string \<Rightarrow> ('d, string list) sop" where
  "st_Names lib ident =
     all_ls lib (\<lambda>lstore lstores.
       find_ls reading (lstore # lstores) (\<lambda>i. first_ok (get_ls i (\<lambda>r. map_sum id l_Names (ls_Get ident r)))) (or_else
         (all_is (\<lambda>istore istores.
            find_is lib reading (istore # istores) (\<lambda>i. first_ok (get_is i (\<lambda>r. map_sum id i_Names (is_Get ident r)))) (or_else
              (st_in_cs (get_cs (\<lambda>r. map_sum (\<lambda>_. ErrLayerUnknown) c_Names (cs_Get ident r)))))))))"

definition st_Lookup :: "'d storeLib \<Rightarrow> string \<Rightarrow> ('d, string) sop" where
  "st_Lookup lib name =
     all_ls lib (\<lambda>lstore lstores.
       find_ls reading (lstore # lstores) (\<lambda>i. first_ok (get_ls i (\<lambda>r. map_sum id l_ID (ls_Get name r)))) (or_else
         (all_is (\<lambda>istore istores.
            find_is lib reading (istore # istores) (\<lambda>i. first_ok (get_is i (\<lambda>r. map_sum id i_ID (is_Get name r)))) (or_else
              (st_in_cs (get_cs (\<lambda>r. map_sum (\<lambda>_. ErrLayerUnknown) c_ID (cs_Get name r)))))))))"

definition st_Layer :: "'d storeLib \<Rightarrow> string \<Rightarrow> ('d, Layer) sop" where
  "st_Layer lib ident =
     all_ls lib (\<lambda>lstore lstores.
       find_ls reading (lstore # lstores) (\<lambda>i. first_ok (get_ls i (ls_Get ident))) (or_fail ErrLayerUnknown))"

definition st_Image :: "'d storeLib \<Rightarrow> string \<Rightarrow> ('d, Image) sop" where
  "st_Image lib ident =
     all_is (\<lambda>istore istores.
       find_is lib reading (istore # istores) (\<lambda>i. first_ok (get_is i (is_Get ident))) (or_fail ErrImageUnknown))"

definition st_Container :: "string \<Rightarrow> ('d, Container) sop" where
  "st_Container ident = st_in_cs (get_cs (cs_Get ident))"

definition st_ContainerLayerID :: "string \<Rightarrow> ('d, string) sop" where
  "st_ContainerLayerID ident = st_in_cs (bind (get_cs (cs_Get ident)) (\<lambda>c. ret (c_LayerID c)))"

definition st_ContainerByLayer :: "'d storeLib \<Rightarrow> string \<Rightarrow> ('d, Container) sop" where
  "st_ContainerByLayer lib ident =
     bind (st_Layer lib ident) (\<lambda>layer.
       st_in_cs (get_cs (\<lambda>r.
         case find (\<lambda>c. c_LayerID c = l_ID layer) (cs_Containers r) of Some c \<Rightarrow> Inr c | None \<Rightarrow> Inl ErrContainerUnknown)))"

section \<open>Lists\<close>

definition st_Layers :: "'d storeLib \<Rightarrow> ('d, Layer list) sop" where
  "st_Layers lib =
     bind (st_LayerStore lib) (\<lambda>lstore.
     bind (locked_ls lstore Lock (bind (on_ls lstore ls_Load) (\<lambda>_. get_ls lstore (\<lambda>r. Inr (ls_Layers r))))) (\<lambda>layers.
     bind (st_ROLayerStores lib) (\<lambda>lstores.
       each_ls lstores (\<lambda>i acc. get_ls i (\<lambda>r. Inr (acc @ ls_Layers r))) layers ret)))"

definition st_Images :: "'d storeLib \<Rightarrow> ('d, Image list) sop" where
  "st_Images lib =
     all_is (\<lambda>istore istores.
       each_is lib (istore # istores) (\<lambda>i acc. get_is i (\<lambda>r. Inr (acc @ is_Images r))) [] ret)"

definition st_Containers :: "('d, Container list) sop" where
  "st_Containers = st_in_cs (get_cs (\<lambda>r. Inr (cs_Containers r)))"

definition InSlice :: "string list \<Rightarrow> string \<Rightarrow> bool" where
  "InSlice ss s = list_ex (EqualFold s) ss"

text \<open>
  \<open>ImagesByTopLayer\<close> appends the address of the loop variable.  In the version of Go the module is
  written for, one variable serves all iterations of a loop, so every pointer taken in one store leads
  to the image that the loop saw last.
\<close>

definition image_uses_layer :: "string \<Rightarrow> Image \<Rightarrow> bool" where
  "image_uses_layer layerID i \<longleftrightarrow> i_TopLayer i = layerID \<or> InSlice (i_MappedTopLayers i) layerID"

definition loop_pointers :: "('a \<Rightarrow> bool) \<Rightarrow> 'a list \<Rightarrow> 'a list" where
  "loop_pointers P xs = map (\<lambda>_. last xs) (filter P xs)"

definition st_ImagesByTopLayer :: "'d storeLib \<Rightarrow> string \<Rightarrow> ('d, Image list) sop" where
  "st_ImagesByTopLayer lib ident =
     bind (st_Layer lib ident) (\<lambda>layer.
     all_is (\<lambda>istore istores.
       each_is lib (istore # istores)
         (\<lambda>i acc. get_is i (\<lambda>r. Inr (acc @ loop_pointers (image_uses_layer (l_ID layer)) (is_Images r)))) [] ret))"

definition st_ImagesByDigest :: "'d storeLib \<Rightarrow> digest \<Rightarrow> ('d, Image list) sop" where
  "st_ImagesByDigest lib d =
     all_is (\<lambda>istore istores.
       each_is lib (istore # istores)
         (\<lambda>i acc. get_is i (\<lambda>r. case is_ByDigest d r of
            Inr l \<Rightarrow> Inr (acc @ l)
          | Inl e \<Rightarrow> if e \<noteq> ErrImageUnknown then Inl e else Inr acc)) [] ret)"

definition st_layersByMappedDigest :: "'d storeLib \<Rightarrow> (digest \<Rightarrow> layerStore \<Rightarrow> gerr + Layer list) \<Rightarrow> digest \<Rightarrow> ('d, Layer list) sop" where
  "st_layersByMappedDigest lib m d =
     all_ls lib (\<lambda>lstore lstores.
       each_ls (lstore # lstores)
         (\<lambda>i acc. get_ls i (\<lambda>r. case m d r of
            Inr l \<Rightarrow> Inr (acc @ l)
          | Inl e \<Rightarrow> if e \<noteq> ErrLayerUnknown then Inl e else Inr acc)) []
         (\<lambda>layers. if layers = [] then fail ErrLayerUnknown else ret layers))"

definition st_LayersByCompressedDigest :: "'d storeLib \<Rightarrow> digest \<Rightarrow> ('d, Layer list) sop" where
  "st_LayersByCompressedDigest lib d =
     (case lib_validate lib d of Some e \<Rightarrow> fail e | None \<Rightarrow> st_layersByMappedDigest lib ls_LayersByCompressedDigest d)"

definition st_LayersByUncompressedDigest :: "'d storeLib \<Rightarrow> digest \<Rightarrow> ('d, Layer list) sop" where
  "st_LayersByUncompressedDigest lib d =
     (case lib_validate lib d of Some e \<Rightarrow> fail e | None \<Rightarrow> st_layersByMappedDigest lib ls_LayersByUncompressedDigest d)"

section \<open>Data items\<close>

definition st_ListImageBigData :: "'d storeLib \<Rightarrow> string \<Rightarrow> ('d, string list) sop" where
  "st_ListImageBigData lib ident =
     all_is (\<lambda>istore istores.
       find_is lib reading (istore # istores) (\<lambda>i. first_ok (get_is i (is_BigDataNames ident))) (or_fail ErrImageUnknown))"

definition st_ImageBigDataSize :: "'d storeLib \<Rightarrow> string \<Rightarrow> string \<Rightarrow> ('d, int) sop" where
  "st_ImageBigDataSize lib ident key =
     all_is (\<lambda>istore istores.
       find_is lib reading (istore # istores) (\<lambda>i. first_ok (on_is i (is_BigDataSize ident key))) (or_fail ErrSizeUnknown))"

definition st_ImageBigDataDigest :: "'d storeLib \<Rightarrow> string \<Rightarrow> string \<Rightarrow> ('d, digest) sop" where
  "st_ImageBigDataDigest lib ident key =
     all_is (\<lambda>istore istores.
       find_is lib reading (istore # istores)
         (\<lambda>i. bind (first_ok (get_is i (is_BigDataDigest ident key))) (\<lambda>r.
            ret (case r of Some d \<Rightarrow> if lib_validate lib d = None then Some d else None | None \<Rightarrow> None)))
         (or_fail ErrDigestUnknown))"

text \<open>
  The loops that remember whether a store knew the item: the first success is returned; otherwise the
  error depends on the flag.
\<close>

fun find_item_is :: "'d storeLib \<Rightarrow> string \<Rightarrow> (nat \<Rightarrow> ('d, 'a) sop) \<Rightarrow> nat list \<Rightarrow> bool \<Rightarrow> ('d, 'a) sop" where
  "find_item_is lib ident f [] found = fail (if found then NotExist else ErrImageUnknown)"
| "find_item_is lib ident f (i # ss) found =
     with_is lib i RLock (bind (first_ok (f i)) (\<lambda>r s.
       case r of
         Some x \<Rightarrow> (Inr x, s)
       | None \<Rightarrow> find_item_is lib ident f ss (found \<or> is_Exists ident (images_at (fst s) i)) s))"

fun find_item_ls :: "string \<Rightarrow> (nat \<Rightarrow> ('d, 'a) sop) \<Rightarrow> nat list \<Rightarrow> bool \<Rightarrow> ('d, 'a) sop" where
  "find_item_ls ident f [] found = fail (if found then NotExist else ErrLayerUnknown)"
| "find_item_ls ident f (i # ss) found =
     with_ls i RLock (bind (first_ok (f i)) (\<lambda>r s.
       case r of
         Some x \<Rightarrow> (Inr x, s)
       | None \<Rightarrow> find_item_ls ident f ss (found \<or> ls_Exists ident (layers_at (fst s) i)) s))"

definition st_ImageBigData :: "'d storeLib \<Rightarrow> string \<Rightarrow> string \<Rightarrow> ('d, bytes) sop" where
  "st_ImageBigData lib ident key =
     all_is (\<lambda>istore istores. find_item_is lib ident (\<lambda>i. on_is i (is_BigData ident key)) (istore # istores) False)"

definition st_ListLayerBigData :: "'d storeLib \<Rightarrow> string \<Rightarrow> ('d, string list) sop" where
  "st_ListLayerBigData lib ident =
     all_ls lib (\<lambda>lstore lstores. find_item_ls ident (\<lambda>i. get_ls i (ls_BigDataNames ident)) (lstore # lstores) False)"

definition st_LayerBigData :: "'d storeLib \<Rightarrow> string \<Rightarrow> string \<Rightarrow> ('d, bytes) sop" where
  "st_LayerBigData lib ident key =
     all_ls lib (\<lambda>lstore lstores. find_item_ls ident (\<lambda>i. on_ls i (\<lambda>_. ls_BigData ident key)) (lstore # lstores) False)"

definition st_ListContainerBigData :: "string \<Rightarrow> ('d, string list) sop" where
  "st_ListContainerBigData ident = st_in_cs (get_cs (cs_BigDataNames ident))"

definition st_ContainerBigDataSize :: "'d storeLib \<Rightarrow> string \<Rightarrow> string \<Rightarrow> ('d, int) sop" where
  "st_ContainerBigDataSize lib ident key = st_in_cs (on_cs (cs_BigDataSize (dl_canonical (lib_diff lib)) ident key))"

definition st_ContainerBigDataDigest :: "'d storeLib \<Rightarrow> string \<Rightarrow> string \<Rightarrow> ('d, digest) sop" where
  "st_ContainerBigDataDigest lib ident key = st_in_cs (on_cs (cs_BigDataDigest (dl_canonical (lib_diff lib)) ident key))"

definition st_ContainerBigData :: "string \<Rightarrow> string \<Rightarrow> ('d, bytes) sop" where
  "st_ContainerBigData ident key = st_in_cs (on_cs (cs_BigData ident key))"

section \<open>Directories of a container\<close>

definition container_dir :: "('d store \<Rightarrow> path) \<Rightarrow> 'd store \<Rightarrow> string \<Rightarrow> path" where
  "container_dir root st ident = join_name (join_name (root st) (prefixed st ''containers'')) ident"

definition st_container_dir :: "('d store \<Rightarrow> path) \<Rightarrow> string \<Rightarrow> ('d, path) sop" where
  "st_container_dir root ident0 =
     st_in_cs (bind (get_cs (cs_Lookup ident0)) (\<lambda>ident.
       bind (ask_st (\<lambda>st. join_name (container_dir root st ident) ''userdata'')) (\<lambda>p.
       bind (st_world (MkdirAll p)) (\<lambda>_. ret p))))"

definition st_ContainerDirectory :: "string \<Rightarrow> ('d, path) sop" where
  "st_ContainerDirectory ident = st_container_dir s_graphRoot ident"

definition st_ContainerRunDirectory :: "string \<Rightarrow> ('d, path) sop" where
  "st_ContainerRunDirectory ident = st_container_dir s_runRoot ident"

definition write_in :: "path \<Rightarrow> string \<Rightarrow> bytes \<Rightarrow> ('d, unit) sop" where
  "write_in dir file data =
     bind (st_world (MkdirAll (butlast (join_name dir file)))) (\<lambda>_.
       st_world (AtomicWriteFile (join_name dir file) (Bytes data)))"

definition read_in :: "path \<Rightarrow> string \<Rightarrow> ('d, bytes) sop" where
  "read_in dir file = bind (st_world (ReadFile (join_name dir file))) (\<lambda>c. ret (content_bytes c))"

definition st_SetContainerDirectoryFile :: "string \<Rightarrow> string \<Rightarrow> bytes \<Rightarrow> ('d, unit) sop" where
  "st_SetContainerDirectoryFile ident file data = bind (st_ContainerDirectory ident) (\<lambda>dir. write_in dir file data)"

definition st_FromContainerDirectory :: "string \<Rightarrow> string \<Rightarrow> ('d, bytes) sop" where
  "st_FromContainerDirectory ident file = bind (st_ContainerDirectory ident) (\<lambda>dir. read_in dir file)"

definition st_SetContainerRunDirectoryFile :: "string \<Rightarrow> string \<Rightarrow> bytes \<Rightarrow> ('d, unit) sop" where
  "st_SetContainerRunDirectoryFile ident file data = bind (st_ContainerRunDirectory ident) (\<lambda>dir. write_in dir file data)"

definition st_FromContainerRunDirectory :: "string \<Rightarrow> string \<Rightarrow> ('d, bytes) sop" where
  "st_FromContainerRunDirectory ident file = bind (st_ContainerRunDirectory ident) (\<lambda>dir. read_in dir file)"

section \<open>Sizes, owners and differences\<close>

text \<open>The first store that has the layer, in the order of the list.\<close>

fun first_layer :: "'d store \<Rightarrow> nat list \<Rightarrow> string \<Rightarrow> (nat \<times> Layer) option" where
  "first_layer st [] k = None"
| "first_layer st (i # ss) k =
     (case ls_Get k (layers_at st i) of Inr l \<Rightarrow> Some (i, l) | Inl _ \<Rightarrow> first_layer st ss k)"

text \<open>
  The walk of \<open>ImageSize\<close>: as long as a layer of the queue is not visited, one of them, which the
  order of the map decides (\<open>pick\<close>), is counted and its parent is queued.
\<close>

fun size_walk :: "nat list \<Rightarrow> (string list \<Rightarrow> nat) \<Rightarrow> nat \<Rightarrow> string list \<Rightarrow> string list \<Rightarrow> int \<Rightarrow> ('d, int) sop" where
  "size_walk stores pick 0 queue visited sum0 s = (Inl (Blocked ''ImageSize: still walking''), s)"
| "size_walk stores pick (Suc n) queue visited sum0 s =
     (let todo = filter (\<lambda>k. k \<notin> set visited) queue in
      if todo = [] then (Inr sum0, s)
      else let layerID = todo ! (pick todo mod length todo) in
        case first_layer (fst s) stores layerID of
          None \<Rightarrow> (Inl ErrLayerUnknown, s)
        | Some (i, layer) \<Rightarrow>
            bind (if l_UncompressedDigest layer = [] then on_ls i (\<lambda>drv. ls_DiffSize drv [] (l_ID layer))
                  else ret (l_UncompressedSize layer)) (\<lambda>sz.
              size_walk stores pick n (if l_Parent layer \<noteq> [] then List.insert (l_Parent layer) queue else queue)
                (layerID # visited) (int64 (sum0 + sz))) s)"

definition count_layers :: "'d store \<Rightarrow> nat list \<Rightarrow> nat" where
  "count_layers st stores = sum_list (map (\<lambda>i. length (objs (layers_at st i))) stores)"

fun sum_items :: "(string \<Rightarrow> ('s, int) go) \<Rightarrow> string list \<Rightarrow> int \<Rightarrow> ('s, int) go" where
  "sum_items f [] sum0 = ret sum0"
| "sum_items f (name # names) sum0 = bind (f name) (\<lambda>n. sum_items f names (int64 (sum0 + n)))"

definition st_image_size :: "(string list \<Rightarrow> nat) \<Rightarrow> nat list \<Rightarrow> string \<Rightarrow> nat \<Rightarrow> Image \<Rightarrow> ('d, int) sop" where
  "st_image_size pick stores ident i img s =
     (let tops = remdups (filter (\<lambda>k. k \<noteq> []) (i_TopLayer img # i_MappedTopLayers img)) in
      bind (size_walk stores pick (Suc (length tops + count_layers (fst s) stores)) tops [] 0) (\<lambda>sum0.
      bind (get_is i (is_BigDataNames ident)) (\<lambda>names.
        sum_items (\<lambda>name. on_is i (is_BigDataSize ident name)) names sum0)) s)"

definition st_ImageSize :: "'d storeLib \<Rightarrow> (string list \<Rightarrow> nat) \<Rightarrow> string \<Rightarrow> ('d, int) sop" where
  "st_ImageSize lib pick ident =
     all_ls lib (\<lambda>lstore lstores.
       each_ls (lstore # lstores) (\<lambda>_. ret) () (\<lambda>_.
         all_is (\<lambda>istore istores.
           find_is lib reading (istore # istores) (\<lambda>i. first_ok (get_is i (\<lambda>r. map_sum id (Pair i) (is_Get ident r)))) (\<lambda>r.
             case r of
               None \<Rightarrow> fail ErrImageUnknown
             | Some (i, img) \<Rightarrow> st_image_size pick (lstore # lstores) ident i img))))"

definition st_container_size :: "'d storeLib \<Rightarrow> nat list \<Rightarrow> string \<Rightarrow> path \<Rightarrow> path \<Rightarrow> ('d, int) sop" where
  "st_container_size lib stores ident cdir rdir =
     bind (get_cs (cs_Get ident)) (\<lambda>container s.
       case first_layer (fst s) stores (c_LayerID container) of
         None \<Rightarrow> (Inl ErrLayerUnknown, s)
       | Some (i, layer) \<Rightarrow>
           bind (on_ls i (\<lambda>drv. ls_DiffSize drv [] (l_ID layer))) (\<lambda>sum0.
           bind (get_cs (cs_BigDataNames ident)) (\<lambda>names.
           bind (sum_items (\<lambda>name. on_cs (cs_BigDataSize (dl_canonical (lib_diff lib)) ident name)) names sum0) (\<lambda>sum1 s1.
             bind (of_res (lib_dirSize lib cdir (wld (snd s1)))) (\<lambda>n1.
             bind (of_res (lib_dirSize lib rdir (wld (snd s1)))) (\<lambda>n2. ret (int64 (int64 (sum1 + n1) + n2)))) s1))) s)"

definition st_ContainerSize :: "'d storeLib \<Rightarrow> string \<Rightarrow> ('d, int) sop" where
  "st_ContainerSize lib ident =
     all_ls lib (\<lambda>lstore lstores.
       each_ls (lstore # lstores) (\<lambda>_. ret) () (\<lambda>_.
         bind (st_ContainerDirectory ident) (\<lambda>cdir.
         bind (st_ContainerRunDirectory ident) (\<lambda>rdir.
           st_in_cs (st_container_size lib (lstore # lstores) ident cdir rdir)))))"

definition st_LayerSize :: "'d storeLib \<Rightarrow> string \<Rightarrow> ('d, int) sop" where
  "st_LayerSize lib ident =
     all_ls lib (\<lambda>lstore lstores.
       find_ls reading (lstore # lstores) (\<lambda>i. if_in_ls i ident (get_ls i (ls_Size ident))) (or_fail ErrLayerUnknown))"

definition st_Changes :: "'d storeLib \<Rightarrow> string \<Rightarrow> string \<Rightarrow> ('d, Change list) sop" where
  "st_Changes lib from to =
     all_ls lib (\<lambda>lstore lstores.
       find_ls reading (lstore # lstores) (\<lambda>i. if_in_ls i to (on_ls i (\<lambda>drv. ls_Changes drv from to))) (or_fail ErrLayerUnknown))"

definition st_DiffSize :: "'d storeLib \<Rightarrow> string \<Rightarrow> string \<Rightarrow> ('d, int) sop" where
  "st_DiffSize lib from to =
     all_ls lib (\<lambda>lstore lstores.
       find_ls reading (lstore # lstores) (\<lambda>i. if_in_ls i to (on_ls i (\<lambda>drv. ls_DiffSize drv from to))) (or_fail ErrLayerUnknown))"

definition st_owners :: "'d storeLib \<Rightarrow> nat \<Rightarrow> string \<Rightarrow> ('d, int list \<times> int list) sop" where
  "st_owners lib i ident =
     bind (if_in_ls i ident (on_ls i (\<lambda>_. ls_ParentOwners (lib_stat lib) (lib_lstat lib) ident))) (or_fail ErrLayerUnknown)"

definition st_LayerParentOwners :: "'d storeLib \<Rightarrow> string \<Rightarrow> ('d, int list \<times> int list) sop" where
  "st_LayerParentOwners lib ident =
     bind (st_LayerStore lib) (\<lambda>i. with_ls i RLock (st_owners lib i ident))"

definition st_ContainerParentOwners :: "'d storeLib \<Rightarrow> string \<Rightarrow> ('d, int list \<times> int list) sop" where
  "st_ContainerParentOwners lib ident =
     bind (st_LayerStore lib) (\<lambda>i.
     bind st_ContainerStore (\<lambda>_.
       with_ls i RLock (with_cs RLock (bind (get_cs (cs_Get ident)) (\<lambda>c. st_owners lib i (c_LayerID c))))))"

definition st_Status :: "'d storeLib \<Rightarrow> ('d, (string \<times> string) list) sop" where
  "st_Status lib = bind (st_LayerStore lib) (\<lambda>i. on_ls i (\<lambda>drv s. (Inr (ls_Status drv (snd s)), s)))"

text \<open>\<open>LookupAdditionalLayer\<close>: the optional interface of the driver; the result carries the decoded record.\<close>

definition st_LookupAdditionalLayer :: "'d storeLib \<Rightarrow> digest \<Rightarrow> string \<Rightarrow> ('d, Layer \<times> 'd AdditionalLayer) sop" where
  "st_LookupAdditionalLayer lib d imageref s =
     (case s_graphDriver (fst s) of
        None \<Rightarrow> (Inl ErrLayerUnknown, s)
      | Some driver \<Rightarrow>
          (case lib_AdditionalLayers lib driver of
             None \<Rightarrow> (Inl ErrLayerUnknown, s)
           | Some lookupLayer \<Rightarrow>
               bind (on_snd (\<lambda>e. let (x, d') = lookupLayer d imageref (dstate e) in (x, e\<lparr>dstate := d'\<rparr>))) (\<lambda>al.
                 bind (of_res (al_Info al)) (\<lambda>layer. ret (layer, al))) s))"

end
