(* ===== verification/StoreUpdate.thy ===== *)
theory StoreUpdate
  imports StoreQuery
begin

text \<open>
  The operations of \<^verbatim>\<open>store.go\<close> that create layers, images and containers or change what is
  recorded of them, and the parts of \<^verbatim>\<open>userns.go\<close> that use the stores.

  \<open>idtools.IsContiguous\<close> sorts the slice it is given, so \<open>canUseShifting\<close> returns the slices as it
  leaves them, and its callers go on with those.  The options a caller passes by pointer are values
  here: what the code stores into them is used by the rest of the function.
\<close>

section \<open>Changing records\<close>

definition st_SetMetadata :: "'d storeLib \<Rightarrow> string \<Rightarrow> string \<Rightarrow> ('d, unit) sop" where
  "st_SetMetadata lib ident metadata =
     with_writable lib (\<lambda>rl ri.
       bind (if_in_ls rl ident (on_ls rl (\<lambda>_. ls_SetMetadata ident metadata))) (or_else
         (bind (if_in_is ri ident (on_is ri (is_SetMetadata ident metadata))) (or_else
           (bind (get_cs (\<lambda>r. Inr (cs_Exists ident r))) (\<lambda>found.
              if found then on_cs (cs_SetMetadata ident metadata) else fail ErrNotAnID))))))"

definition st_SetLayerBigData :: "'d storeLib \<Rightarrow> string \<Rightarrow> string \<Rightarrow> bytes \<Rightarrow> ('d, unit) sop" where
  "st_SetLayerBigData lib ident key data =
     bind (st_LayerStore lib) (\<lambda>rl. with_ls rl Lock (on_ls rl (\<lambda>_. ls_SetBigData ident key data)))"

definition st_SetImageBigData :: "'d storeLib \<Rightarrow> string \<Rightarrow> string \<Rightarrow> bytes \<Rightarrow> (bytes \<Rightarrow> gerr + digest) option \<Rightarrow> ('d, unit) sop" where
  "st_SetImageBigData lib ident key data digestManifest =
     bind st_ImageStore (\<lambda>ri. with_is lib ri Lock
       (on_is ri (is_SetBigData (lib_validate lib) (dl_canonical (lib_diff lib)) ident key data digestManifest)))"

definition st_SetContainerBigData :: "'d storeLib \<Rightarrow> string \<Rightarrow> string \<Rightarrow> bytes \<Rightarrow> ('d, unit) sop" where
  "st_SetContainerBigData lib ident key data =
     bind st_ContainerStore (\<lambda>_. with_cs Lock (on_cs (cs_SetBigData (dl_canonical (lib_diff lib)) ident key data)))"

text \<open>An image of a read-only store is copied into the writable one, without the first of several names.\<close>

definition copy_ro_image :: "'d storeLib \<Rightarrow> nat \<Rightarrow> string \<Rightarrow> string list \<Rightarrow> Image \<Rightarrow> ('d, unit) sop" where
  "copy_ro_image lib ri ident deduped i =
     bind (on_is ri (is_Create (lib_validate lib) ident (if length deduped > 1 then tl deduped else deduped)
       (i_TopLayer i) (i_Metadata i) (i_Created i) (i_Digest i))) (\<lambda>_. on_is ri is_Save)"

definition st_SetNames :: "'d storeLib \<Rightarrow> string \<Rightarrow> string list \<Rightarrow> ('d, unit) sop" where
  "st_SetNames lib ident names =
     (let deduped = dedupeNames names in
      bind (st_LayerStore lib) (\<lambda>rl. with_ls rl Lock
        (bind (if_in_ls rl ident (on_ls rl (\<lambda>_. ls_SetNames ident deduped))) (or_else
          (bind st_ImageStore (\<lambda>ri. with_is lib ri Lock
            (bind (if_in_is ri ident (on_is ri (is_SetNames ident deduped))) (or_else
              (bind st_ROImageStores (\<lambda>ris.
                 find_is lib reading ris (\<lambda>i. first_ok (get_is i (is_Get ident))) (\<lambda>found.
                   case found of
                     Some i \<Rightarrow> copy_ro_image lib ri ident deduped i
                   | None \<Rightarrow>
                       bind st_ContainerStore (\<lambda>_. with_cs Lock
                         (bind (get_cs (\<lambda>r. Inr (cs_Exists ident r))) (\<lambda>b.
                            if b then on_cs (cs_SetNames ident deduped) else fail ErrLayerUnknown))))))))))))))"

section \<open>ID maps of new layers\<close>

definition contiguous :: "idmaps \<Rightarrow> bool \<times> idmaps" where
  "contiguous m = (case m of None \<Rightarrow> (True, None) | Some ms \<Rightarrow> (let (b, ms') = IsContiguous ms in (b, Some ms')))"

definition st_canUseShifting :: "'d store \<Rightarrow> idmaps \<Rightarrow> idmaps \<Rightarrow> bool \<times> idmaps \<times> idmaps" where
  "st_canUseShifting st uidmap gidmap =
     (case s_graphDriver st of
        None \<Rightarrow> (False, uidmap, gidmap)
      | Some driver \<Rightarrow>
          if \<not> drv_SupportsShifting driver then (False, uidmap, gidmap)
          else let (ub, um) = contiguous uidmap in
               if \<not> ub then (False, um, gidmap)
               else let (gb, gm) = contiguous gidmap in (gb, um, gm))"

definition host_mapping :: IDMappingOptions where
  "host_mapping = \<lparr>HostUIDMapping = True, HostGIDMapping = True, UIDMap = None, GIDMap = None, AutoUserNs = False,
     AutoUserNsOpts = no_auto_userns\<rparr>"

definition mapping_for :: "bool \<Rightarrow> IDMappingOptions \<Rightarrow> idmaps \<Rightarrow> idmaps \<Rightarrow> IDMappingOptions" where
  "mapping_for shifting options um gm =
     (if shifting then host_mapping
      else host_mapping\<lparr>HostUIDMapping := HostUIDMapping options, HostGIDMapping := HostGIDMapping options,
             UIDMap := copyIDMap um, GIDMap := copyIDMap gm\<rparr>)"

definition no_layer_options :: LayerOptions where
  "no_layer_options = \<lparr>lo_IDMappingOptions = \<lparr>HostUIDMapping = False, HostGIDMapping = False, UIDMap = None, GIDMap = None,
       AutoUserNs = False, AutoUserNsOpts = no_auto_userns\<rparr>, lo_TemplateLayer = [], lo_OriginalDigest = [], lo_UncompressedDigest = []\<rparr>"

text \<open>\<open>if options.HostUIDMapping { options.UIDMap = nil }\<close>, and the same for groups.\<close>

definition drop_host_maps :: "IDMappingOptions \<Rightarrow> IDMappingOptions" where
  "drop_host_maps o' =
     o'\<lparr>UIDMap := (if HostUIDMapping o' then None else UIDMap o'), GIDMap := (if HostGIDMapping o' then None else GIDMap o')\<rparr>"

text \<open>
  Where a map comes from: the options, a copy of a layer's record, or the store's own slice, which
  \<open>canUseShifting\<close> then sorts in place.
\<close>

datatype map_source = FromOptions | FromLayer | FromStore

definition pick_map :: "bool \<Rightarrow> idmaps \<Rightarrow> map_source \<Rightarrow> idmaps \<Rightarrow> map_source \<times> idmaps" where
  "pick_map host given src other = (if \<not> host \<and> slice_of given = [] then (src, other) else (FromOptions, given))"

definition keep_sorted :: "map_source \<Rightarrow> idmaps \<Rightarrow> map_source \<Rightarrow> idmaps \<Rightarrow> 'd store \<Rightarrow> 'd store" where
  "keep_sorted usrc um gsrc gm st =
     st\<lparr>s_uidMap := (if usrc = FromStore then um else s_uidMap st), s_gidMap := (if gsrc = FromStore then gm else s_gidMap st)\<rparr>"

section \<open>Creating layers and images\<close>

text \<open>The search for a parent: in the writable store, which is locked already, then in the others.\<close>

definition find_parent :: "nat \<Rightarrow> nat list \<Rightarrow> string \<Rightarrow> (Layer option \<Rightarrow> ('d, 'a) sop) \<Rightarrow> ('d, 'a) sop" where
  "find_parent rl rls parent k =
     bind (first_ok (get_ls rl (ls_Get parent))) (\<lambda>r.
       case r of
         Some l \<Rightarrow> k (Some l)
       | None \<Rightarrow> find_ls reading rls (\<lambda>i. first_ok (get_ls i (ls_Get parent))) k)"

definition put_layer :: "'d storeLib \<Rightarrow> nat \<Rightarrow> string \<Rightarrow> Layer option \<Rightarrow> string list \<Rightarrow> string \<Rightarrow> bool \<Rightarrow> LayerOptions \<Rightarrow>
    map_source \<times> idmaps \<Rightarrow> map_source \<times> idmaps \<Rightarrow> bytes option \<Rightarrow> ('d, Layer \<times> int) sop" where
  "put_layer lib rl ident parentLayer names mountLabel writeable options u g diff s =
     (let (shifting, um, gm) = st_canUseShifting (fst s) (snd u) (snd g);
          mo = no_layer_options\<lparr>lo_OriginalDigest := lo_OriginalDigest options, lo_UncompressedDigest := lo_UncompressedDigest options,
                 lo_IDMappingOptions := mapping_for shifting (lo_IDMappingOptions options) um gm\<rparr>
      in bind (upd_st (keep_sorted (fst u) um (fst g) gm)) (\<lambda>_.
           on_ls rl (\<lambda>drv. ls_Put drv (lib_diff lib) ident parentLayer names mountLabel [] mo writeable Map.empty diff)) s)"

definition put_layer_on :: "'d storeLib \<Rightarrow> nat \<Rightarrow> string \<Rightarrow> string list \<Rightarrow> string \<Rightarrow> bool \<Rightarrow> LayerOptions \<Rightarrow> bytes option \<Rightarrow>
    Layer option \<Rightarrow> ('d, Layer \<times> int) sop" where
  "put_layer_on lib rl ident names mountLabel writeable options diff found =
     (case found of
        None \<Rightarrow> fail ErrLayerUnknown
      | Some ilayer \<Rightarrow>
          bind (get_cs (\<lambda>r. Inr (cs_Containers r))) (\<lambda>containers.
            if list_ex (\<lambda>c. c_LayerID c = l_ID ilayer) containers then fail ErrParentIsContainer
            else let io = lo_IDMappingOptions options in
                 put_layer lib rl ident (Some ilayer) names mountLabel writeable options
                   (pick_map (HostUIDMapping io) (UIDMap io) FromLayer (l_UIDMap ilayer))
                   (pick_map (HostGIDMapping io) (GIDMap io) FromLayer (l_GIDMap ilayer)) diff))"

definition st_PutLayer :: "'d storeLib \<Rightarrow> string \<Rightarrow> string \<Rightarrow> string list \<Rightarrow> string \<Rightarrow> bool \<Rightarrow> LayerOptions option \<Rightarrow>
    bytes option \<Rightarrow> ('d, Layer \<times> int) sop" where
  "st_PutLayer lib ident0 parent names mountLabel writeable options0 diff =
     bind (st_LayerStore lib) (\<lambda>rl.
     bind (st_ROLayerStores lib) (\<lambda>rls.
     bind st_ContainerStore (\<lambda>_.
       with_ls rl Lock (with_cs Lock
         (bind (if ident0 = [] then st_world GenerateRandomID else ret ident0) (\<lambda>ident s.
            let options1 = (case options0 of None \<Rightarrow> no_layer_options | Some o' \<Rightarrow> o');
                io = drop_host_maps (lo_IDMappingOptions options1);
                options = options1\<lparr>lo_IDMappingOptions := io\<rparr>
            in (if parent \<noteq> []
                then find_parent rl rls parent (put_layer_on lib rl ident names mountLabel writeable options diff)
                else put_layer lib rl ident None names mountLabel writeable options
                       (pick_map (HostUIDMapping io) (UIDMap io) FromStore (s_uidMap (fst s)))
                       (pick_map (HostGIDMapping io) (GIDMap io) FromStore (s_gidMap (fst s))) diff) s))))))"

definition st_CreateLayer :: "'d storeLib \<Rightarrow> string \<Rightarrow> string \<Rightarrow> string list \<Rightarrow> string \<Rightarrow> bool \<Rightarrow> LayerOptions option \<Rightarrow> ('d, Layer) sop" where
  "st_CreateLayer lib ident parent names mountLabel writeable options =
     bind (st_PutLayer lib ident parent names mountLabel writeable options None) (\<lambda>(l, _). ret l)"

record ImageOptions =
  io_CreationDate :: nat
  io_Digest :: digest

text \<open>The end of \<open>CreateImage\<close>; it reads \<open>options.Digest\<close> even if the options are nil.\<close>

definition create_image :: "'d storeLib \<Rightarrow> string \<Rightarrow> string list \<Rightarrow> string \<Rightarrow> ImageOptions option \<Rightarrow> string \<Rightarrow> ('d, Image) sop" where
  "create_image lib ident names metadata options layer =
     bind st_ImageStore (\<lambda>ri. with_is lib ri Lock
       (bind st_now (\<lambda>now.
          case options of
            None \<Rightarrow> fail (Panic ''nil pointer dereference'')
          | Some o' \<Rightarrow>
              on_is ri (is_Create (lib_validate lib) ident names layer metadata
                (if io_CreationDate o' \<noteq> 0 then io_CreationDate o' else now) (io_Digest o')))))"

definition st_CreateImage :: "'d storeLib \<Rightarrow> string \<Rightarrow> string list \<Rightarrow> string \<Rightarrow> string \<Rightarrow> ImageOptions option \<Rightarrow> ('d, Image) sop" where
  "st_CreateImage lib ident0 names layer metadata options =
     bind (if ident0 = [] then st_world GenerateRandomID else ret ident0) (\<lambda>ident.
       if layer \<noteq> []
       then all_ls lib (\<lambda>lstore lstores.
              find_ls (writing lstore) (lstore # lstores) (\<lambda>i. first_ok (get_ls i (ls_Get layer))) (\<lambda>r.
                case r of
                  None \<Rightarrow> fail ErrLayerUnknown
                | Some l \<Rightarrow> create_image lib ident names metadata options (l_ID l)))
       else create_image lib ident names metadata options layer)"

section \<open>The top layer for a container\<close>

text \<open>\<open>layerMatchesMappingOptions\<close>: the options come back with their maps as \<open>canUseShifting\<close> left them.\<close>

definition layer_matches :: "'d store \<Rightarrow> Layer \<Rightarrow> IDMappingOptions \<Rightarrow> bool \<times> IDMappingOptions" where
  "layer_matches st layer options =
     (let (shifting, um, gm) = st_canUseShifting st (UIDMap options) (GIDMap options);
          options' = options\<lparr>UIDMap := um, GIDMap := gm\<rparr>
      in (if shifting \<and> slice_of (l_UIDMap layer) = [] \<and> slice_of (l_GIDMap layer) = [] then True
          else if HostUIDMapping options \<and> slice_of (l_UIDMap layer) \<noteq> [] then False
          else if HostGIDMapping options \<and> slice_of (l_GIDMap layer) \<noteq> [] then False
          else l_UIDMap layer = um \<and> l_GIDMap layer = gm, options'))"

text \<open>
  The walk over the top layers of the image in one store: a perfect match, or the first candidate
  whose parent, if it has one, is known.  A candidate comes with its parent.
\<close>

type_synonym candidate = "IDMappingOptions \<times> (Layer \<times> Layer option) option"

fun walk_candidates :: "'d store \<Rightarrow> nat list \<Rightarrow> nat \<Rightarrow> string list \<Rightarrow> candidate \<Rightarrow> Layer option \<times> candidate" where
  "walk_candidates st stores i [] acc = (None, acc)"
| "walk_candidates st stores i (c # cs) acc =
     (case ls_Get c (layers_at st i) of
        Inl _ \<Rightarrow> walk_candidates st stores i cs acc
      | Inr cLayer \<Rightarrow>
          let parent = first_layer st stores (l_Parent cLayer) in
          if l_Parent cLayer \<noteq> [] \<and> parent = None then walk_candidates st stores i cs acc
          else let (match, options') = layer_matches st cLayer (fst acc) in
            if match then (Some cLayer, (options', snd acc))
            else walk_candidates st stores i cs
              (options', if snd acc = None then Some (cLayer, if l_Parent cLayer = [] then None else map_option snd parent)
                         else snd acc))"

fun top_layer_loop :: "nat \<Rightarrow> nat list \<Rightarrow> string list \<Rightarrow> nat list \<Rightarrow> (candidate \<Rightarrow> ('d, Layer \<times> IDMappingOptions) sop) \<Rightarrow>
    candidate \<Rightarrow> ('d, Layer \<times> IDMappingOptions) sop" where
  "top_layer_loop rl stores tops [] k acc = k acc"
| "top_layer_loop rl stores tops (i # ss) k acc =
     (let body = (\<lambda>s. case walk_candidates (fst s) stores i tops acc of
                    (Some l, acc') \<Rightarrow> (Inr (l, fst acc'), s)
                  | (None, acc') \<Rightarrow> top_layer_loop rl stores tops ss k acc' s)
      in if i = rl then body else with_ls i RLock body)"

definition create_mapped :: "'d storeLib \<Rightarrow> nat \<Rightarrow> nat \<Rightarrow> Image \<Rightarrow> IDMappingOptions \<Rightarrow> Layer \<Rightarrow> Layer option \<Rightarrow>
    ('d, Layer \<times> IDMappingOptions) sop" where
  "create_mapped lib rl home img options layer parentLayer s =
     (let (shifting, um, gm) = st_canUseShifting (fst s) (UIDMap options) (GIDMap options);
          options' = options\<lparr>UIDMap := um, GIDMap := gm\<rparr>;
          mo = no_layer_options\<lparr>lo_IDMappingOptions := mapping_for shifting options um gm, lo_TemplateLayer := l_ID layer\<rparr>
      in bind (on_ls rl (\<lambda>drv. ls_Put drv (lib_diff lib) [] parentLayer [] (l_MountLabel layer) [] mo False Map.empty None)) (\<lambda>(mapped, _).
         bind (attempt (on_is home (is_addMappedTopLayer (i_ID img) (l_ID mapped)))) (\<lambda>res.
           case res of
             Inr _ \<Rightarrow> ret (mapped, options')
           | Inl e \<Rightarrow> bind (ignoring (on_ls rl (\<lambda>drv. ls_Delete drv (l_ID mapped)))) (\<lambda>_. fail e))) s)"

definition st_imageTopLayerForMapping :: "'d storeLib \<Rightarrow> Image \<Rightarrow> nat \<Rightarrow> bool \<Rightarrow> nat \<Rightarrow> nat list \<Rightarrow> IDMappingOptions \<Rightarrow>
    ('d, Layer \<times> IDMappingOptions) sop" where
  "st_imageTopLayerForMapping lib img home createMappedLayer rl lstores options =
     top_layer_loop rl (rl # lstores) (i_TopLayer img # i_MappedTopLayers img) (rl # lstores) (\<lambda>(options', found).
       case found of
         None \<Rightarrow> fail ErrLayerUnknown
       | Some (layer, parentLayer) \<Rightarrow>
           if \<not> createMappedLayer then ret (layer, options')
           else create_mapped lib rl home img options' layer parentLayer) (options, None)"

section \<open>Automatic user namespaces\<close>

definition RootAutoUserNsUser :: string where
  "RootAutoUserNsUser = ''containers''"

definition subid_user :: "'d storeLib \<Rightarrow> string \<Rightarrow> string" where
  "subid_user lib username =
     (if lib_rootless lib
      then if lib_USER lib \<noteq> [] then lib_USER lib
           else case lib_LookupId lib (show_nat (if lib_Geteuid lib = 0 then lib_rootlessUID lib else lib_Geteuid lib)) of
             Inr name \<Rightarrow> name
           | Inl _ \<Rightarrow> []
      else if username = [] then RootAutoUserNsUser else username)"

definition getAdditionalSubIDs :: "'d storeLib \<Rightarrow> string \<Rightarrow> idSet \<times> idSet" where
  "getAdditionalSubIDs lib username =
     (case lib_subids lib (subid_user lib username) of
        Inl _ \<Rightarrow> (None, None)
      | Inr mappings \<Rightarrow> (getHostIDs (slice_of (uids mappings)), getHostIDs (slice_of (gids mappings))))"

definition st_getAvailableIDs :: "'d storeLib \<Rightarrow> ('d, idSet \<times> idSet) sop" where
  "st_getAvailableIDs lib s =
     (let st = (if s_additionalUIDs (fst s) = None
                then let (us, gs) = getAdditionalSubIDs lib (s_autoUsernsUser (fst s))
                     in (fst s)\<lparr>s_additionalUIDs := us, s_additionalGIDs := gs\<rparr>
                else fst s)
      in (Inr (if \<not> lib_rootless lib then (s_additionalUIDs st, s_additionalGIDs st)
               else (newIDSet [\<lparr>start = 1, stop = idset_size (s_additionalUIDs st) + 1\<rparr>],
                     newIDSet [\<lparr>start = 1, stop = idset_size (s_additionalGIDs st) + 1\<rparr>])), (st, snd s)))"

text \<open>
  The loop of \<open>getMaxSizeFromImage\<close> from the top layer down to the base.  Every round is determined
  by the name it looks up, and the names are the first one and the parents of the known layers; a walk
  that is longer than their number repeats itself for ever.
\<close>

fun max_walk :: "nat \<Rightarrow> 'd store \<Rightarrow> nat list \<Rightarrow> string \<Rightarrow> string \<Rightarrow> 32 word \<Rightarrow> Layer option \<Rightarrow> gerr + (32 word \<times> Layer option)" where
  "max_walk 0 st stores imgTop layerName sz topLayer = Inl (Blocked ''getMaxSizeFromImage: layers form a cycle'')"
| "max_walk (Suc n) st stores imgTop layerName sz topLayer =
     (case first_layer st stores layerName of
        None \<Rightarrow> Inl (Errorf ''cannot find layer'')
      | Some (i, layer) \<Rightarrow>
          let topLayer' = (if imgTop = layerName then Some layer else topLayer);
              sz' = ids_size (ids_size sz (map word_of_nat (l_UIDs layer))) (map word_of_nat (l_GIDs layer))
          in if l_Parent layer = [] then Inr (sz', topLayer')
             else max_walk n st stores imgTop (l_Parent layer) sz' topLayer')"

definition st_getMaxSizeFromImage :: "'d storeLib \<Rightarrow> string \<Rightarrow> Image \<Rightarrow> string \<Rightarrow> string \<Rightarrow> ('d, 32 word) sop" where
  "st_getMaxSizeFromImage lib ident img passwdFile groupFile =
     all_ls lib (\<lambda>lstore lstores s.
       bind (of_res (max_walk (Suc (Suc (count_layers (fst s) (lstore # lstores)))) (fst s) (lstore # lstores)
              (i_TopLayer img) (i_TopLayer img) 0 None)) (\<lambda>(sz, topLayer).
       bind (st_LayerStore lib) (\<lambda>rl.
       bind (on_ls rl (\<lambda>drv. ls_Create drv (lib_diff lib) ident topLayer [] [] []
              (no_layer_options\<lparr>lo_IDMappingOptions := host_mapping\<rparr>) False)) (\<lambda>clayer.
         deferred (on_ls rl (\<lambda>drv. ls_Delete drv (l_ID clayer)))
           (bind (on_ls rl (\<lambda>drv. ls_Mount drv (l_ID clayer) no_mount_opts)) (\<lambda>mountpoint.
              deferred (bind (on_ls rl (\<lambda>drv. ls_Unmount drv (l_ID clayer) True)) (\<lambda>_. ret ()))
                (ret (max sz (parseMountedFiles (lib_ParsePasswdFile lib) (lib_ParseGroupFile lib) mountpoint passwdFile groupFile))))))))
       s)"

text \<open>The size of the namespace when the caller does not request one.\<close>

definition st_autoSize :: "'d storeLib \<Rightarrow> string \<Rightarrow> AutoUserNsOptions \<Rightarrow> Image option \<Rightarrow> ('d, 32 word) sop" where
  "st_autoSize lib ident options img s =
     (let initialSize = (if aun_InitialSize options > 0 then word_of_nat (aun_InitialSize options) else 1);
          sz = max initialSize (s_autoNsMinSize (fst s))
      in bind (case img of
                 None \<Rightarrow> ret sz
               | Some i \<Rightarrow> bind (st_getMaxSizeFromImage lib ident i (aun_PasswdFile options) (aun_GroupFile options)) (\<lambda>n. ret (max sz n)))
         (\<lambda>sz' s'. if s_autoNsMaxSize (fst s') > 0 \<and> sz' > s_autoNsMaxSize (fst s')
                   then (Inl (Errorf ''the container needs a bigger user namespace than the maximum allowed''), s')
                   else (Inr sz', s')) s)"

text \<open>\<open>append\<close> of nothing to a nil slice is nil.\<close>

definition as_slice :: "'a list \<Rightarrow> 'a list option" where
  "as_slice xs = (if xs = [] then None else Some xs)"

definition st_getAutoUserNS :: "'d storeLib \<Rightarrow> string \<Rightarrow> AutoUserNsOptions \<Rightarrow> Image option \<Rightarrow> ('d, idmaps \<times> idmaps) sop" where
  "st_getAutoUserNS lib ident options img =
     bind (st_getAvailableIDs lib) (\<lambda>(availableUIDs, availableGIDs).
     bind st_Containers (\<lambda>containers.
     bind (if aun_Size options > 0 then ret (word_of_nat (aun_Size options)) else st_autoSize lib ident options img) (\<lambda>sz.
     bind (of_res (getAutoUserNSIDMappings (uint sz) availableUIDs availableGIDs
            (concat (map (\<lambda>c. slice_of (c_UIDMap c)) containers)) (concat (map (\<lambda>c. slice_of (c_GIDMap c)) containers))
            (aun_AdditionalUIDMappings options) (aun_AdditionalGIDMappings options))) (\<lambda>(um, gm).
       ret (as_slice um, as_slice gm)))))"

section \<open>Creating containers\<close>

definition flag_string :: "flags \<Rightarrow> string \<Rightarrow> string" where
  "flag_string fl k = (case fl k of Some (IString s) \<Rightarrow> s | _ \<Rightarrow> [])"

text \<open>The labels: both or none are given; if none is, the label package chooses them.\<close>

definition with_labels :: "'d storeLib \<Rightarrow> ContainerOptions \<Rightarrow> gerr + flags" where
  "with_labels lib options =
     (let fl = (case co_Flags options of None \<Rightarrow> Map.empty | Some fl \<Rightarrow> fl);
          plabel = flag_string fl ''ProcessLabel''; mlabel = flag_string fl ''MountLabel''
      in if (plabel = []) \<noteq> (mlabel = []) then Inl (Errorf ''ProcessLabel and Mountlabel must either not be specified or both specified'')
         else if plabel = []
         then (case lib_InitLabels lib (co_LabelOpts options) of
                 Inl e \<Rightarrow> Inl e
               | Inr (p, m) \<Rightarrow> Inr (fl(''ProcessLabel'' \<mapsto> IString p, ''MountLabel'' \<mapsto> IString m)))
         else Inr fl)"

definition record_container :: "nat \<Rightarrow> string \<Rightarrow> string list \<Rightarrow> string \<Rightarrow> string \<Rightarrow> string \<Rightarrow> ContainerOptions \<Rightarrow> ('d, Container) sop" where
  "record_container rl ident names imageID layer metadata options =
     bind st_ContainerStore (\<lambda>_. with_cs Lock
       (bind (attempt (on_cs (cs_Create ident names imageID layer metadata options))) (\<lambda>res.
          case res of
            Inr c \<Rightarrow> ret c
          | Inl e \<Rightarrow> bind (ignoring (on_ls rl (\<lambda>drv. ls_Delete drv layer))) (\<lambda>_. fail e))))"

definition create_container :: "'d storeLib \<Rightarrow> nat \<Rightarrow> string \<Rightarrow> string list \<Rightarrow> string \<Rightarrow> string \<Rightarrow> string \<Rightarrow> ContainerOptions \<Rightarrow>
    Layer option \<Rightarrow> map_source \<times> idmaps \<Rightarrow> map_source \<times> idmaps \<Rightarrow> ('d, Container) sop" where
  "create_container lib rl ident names imageID layer metadata options imageTopLayer u g s =
     (let (shifting, um, gm) = st_canUseShifting (fst s) (snd u) (snd g);
          io = co_IDMappingOptions options;
          mo = no_layer_options\<lparr>lo_IDMappingOptions := mapping_for shifting io um gm\<rparr>;
          um' = (if fst u = FromOptions then um else UIDMap io);
          gm' = (if fst g = FromOptions then gm else GIDMap io)
      in bind (upd_st (keep_sorted (fst u) um (fst g) gm)) (\<lambda>_.
         bind (of_res (with_labels lib options)) (\<lambda>fl.
         bind (on_ls rl (\<lambda>drv. ls_Create drv (lib_diff lib) layer imageTopLayer [] (flag_string fl ''MountLabel'') (co_StorageOpt options) mo True)) (\<lambda>clayer.
           record_container rl ident names imageID (l_ID clayer) metadata
             (options\<lparr>co_Flags := Some fl, co_IDMappingOptions :=
                host_mapping\<lparr>HostUIDMapping := slice_of um' = [], HostGIDMapping := slice_of gm' = [],
                  UIDMap := copyIDMap um', GIDMap := copyIDMap gm'\<rparr>\<rparr>)))) s)"

definition auto_mapped :: "'d storeLib \<Rightarrow> string \<Rightarrow> Image option \<Rightarrow> ContainerOptions \<Rightarrow> ('d, ContainerOptions) sop" where
  "auto_mapped lib ident img options =
     (let io = co_IDMappingOptions options in
      if AutoUserNs io
      then bind (st_getAutoUserNS lib ident (AutoUserNsOpts io) img) (\<lambda>(um, gm).
             ret (options\<lparr>co_IDMappingOptions := io\<lparr>UIDMap := um, GIDMap := gm\<rparr>\<rparr>))
      else ret options)"

definition container_on_image :: "'d storeLib \<Rightarrow> nat \<Rightarrow> nat list \<Rightarrow> string \<Rightarrow> string list \<Rightarrow> string \<Rightarrow> string \<Rightarrow> ContainerOptions \<Rightarrow>
    nat \<Rightarrow> nat \<Rightarrow> Image \<Rightarrow> ('d, Container) sop" where
  "container_on_image lib rl lstores ident names layer metadata options istore home img =
     (let io = co_IDMappingOptions options in
      if i_TopLayer img = []
      then create_container lib rl ident names (i_ID img) layer metadata options None (FromOptions, UIDMap io) (FromOptions, GIDMap io)
      else bind (st_imageTopLayerForMapping lib img home (home = istore) rl lstores io) (\<lambda>(ilayer, io').
             create_container lib rl ident names (i_ID img) layer metadata (options\<lparr>co_IDMappingOptions := io'\<rparr>) (Some ilayer)
               (pick_map (HostUIDMapping io') (UIDMap io') FromLayer (l_UIDMap ilayer))
               (pick_map (HostGIDMapping io') (GIDMap io') FromLayer (l_GIDMap ilayer))))"

definition container_alone :: "'d storeLib \<Rightarrow> nat \<Rightarrow> string \<Rightarrow> string list \<Rightarrow> string \<Rightarrow> string \<Rightarrow> ContainerOptions \<Rightarrow> ('d, Container) sop" where
  "container_alone lib rl ident names layer metadata options =
     with_ls rl Lock (\<lambda>s.
       let io = co_IDMappingOptions options in
       create_container lib rl ident names [] layer metadata options None
         (pick_map (HostUIDMapping io) (UIDMap io) FromStore (s_uidMap (fst s)))
         (pick_map (HostGIDMapping io) (GIDMap io) FromStore (s_gidMap (fst s))) s)"

definition no_container_options :: ContainerOptions where
  "no_container_options = \<lparr>co_IDMappingOptions = lo_IDMappingOptions no_layer_options, co_LabelOpts = [], co_Flags = None,
     co_MountOpts = None, co_Volatile = False, co_StorageOpt = []\<rparr>"

definition st_CreateContainer :: "'d storeLib \<Rightarrow> string \<Rightarrow> string list \<Rightarrow> string \<Rightarrow> string \<Rightarrow> string \<Rightarrow> ContainerOptions option \<Rightarrow>
    ('d, Container) sop" where
  "st_CreateContainer lib ident0 names img layer metadata options0 =
     (let options1 = (case options0 of None \<Rightarrow> no_container_options | Some o' \<Rightarrow> o');
          io = drop_host_maps (co_IDMappingOptions options1);
          options = options1\<lparr>co_IDMappingOptions := io\<rparr>;
          guarded = (if AutoUserNs io \<or> UIDMap io \<noteq> None \<or> GIDMap io \<noteq> None then with_usernsLock else (\<lambda>m. m))
      in bind (st_LayerStore lib) (\<lambda>rl.
         bind (if ident0 = [] then st_world GenerateRandomID else ret ident0) (\<lambda>ident.
           guarded
             (if img \<noteq> []
              then bind (st_ROLayerStores lib) (\<lambda>lstores.
                   all_is (\<lambda>istore istores.
                     with_ls rl Lock
                       (find_is lib (writing istore) (istore # istores)
                          (\<lambda>i. first_ok (get_is i (\<lambda>r. map_sum id (Pair i) (is_Get img r)))) (\<lambda>found.
                          case found of
                            None \<Rightarrow> fail ErrImageUnknown
                          | Some (home, cimage) \<Rightarrow>
                              bind (auto_mapped lib ident (Some cimage) options) (\<lambda>options'.
                                container_on_image lib rl lstores ident names layer metadata options' istore home cimage)))))
              else bind (auto_mapped lib ident None options) (\<lambda>options'.
                     container_alone lib rl ident names layer metadata options')))))"

text \<open>\<open>PutAs\<close> of an additional layer.\<close>

definition st_PutAs :: "'d storeLib \<Rightarrow> 'd AdditionalLayer \<Rightarrow> string \<Rightarrow> string \<Rightarrow> string list \<Rightarrow> ('d, Layer) sop" where
  "st_PutAs lib handler ident parent names =
     bind (st_LayerStore lib) (\<lambda>rl. with_ls rl Lock
       (bind (st_ROLayerStores lib) (\<lambda>rls.
          if parent \<noteq> []
          then find_parent rl rls parent (\<lambda>found.
                 case found of
                   None \<Rightarrow> fail ErrLayerUnknown
                 | Some l \<Rightarrow> on_ls rl (\<lambda>drv. ls_PutAdditionalLayer drv ident (Some l) names handler))
          else on_ls rl (\<lambda>drv. ls_PutAdditionalLayer drv ident None names handler))))"

end
