(* ===== verification/StoreDelete.thy ===== *)
theory StoreDelete
  imports StoreUpdate
begin

text \<open>
  Deleting: \<open>DeleteLayer\<close>, \<open>DeleteImage\<close>, \<open>DeleteContainer\<close>, \<open>Delete\<close> and \<open>Wipe\<close> of
  \<^verbatim>\<open>store.go\<close>.  Each of them holds the locks of the three writable stores.
\<close>

section \<open>Layers\<close>

text \<open>The loop over the images that take the layer out of their mapped top layers.\<close>

fun unmap_images :: "nat \<Rightarrow> string \<Rightarrow> Image list \<Rightarrow> ('d, unit) sop" where
  "unmap_images ri ident [] = ret ()"
| "unmap_images ri ident (i # is) =
     (if InSlice (i_MappedTopLayers i) ident
      then bind (on_is ri (is_removeMappedTopLayer (i_ID i) ident)) (\<lambda>_. unmap_images ri ident is)
      else unmap_images ri ident is)"

text \<open>
  The checks before the layer is deleted.  The code means to replace a name by the identifier, but
  does it only when the lookup has failed, which cannot happen here: the checks compare with the
  string the caller gave.
\<close>

definition layer_unused :: "string \<Rightarrow> layerStore \<Rightarrow> imageStore \<Rightarrow> containerStore \<Rightarrow> gerr option" where
  "layer_unused ident r ri rc =
     (if list_ex (\<lambda>l. l_Parent l = ident) (ls_Layers r) then Some ErrLayerHasChildren
      else if list_ex (\<lambda>i. i_TopLayer i = ident) (is_Images ri) then Some ErrLayerUsedByImage
      else if list_ex (\<lambda>c. c_LayerID c = ident) (cs_Containers rc) then Some ErrLayerUsedByContainer
      else None)"

definition delete_layer :: "nat \<Rightarrow> nat \<Rightarrow> string \<Rightarrow> ('d, unit) sop" where
  "delete_layer rl ri ident s =
     (if ls_Exists ident (layers_at (fst s) rl)
      then case ls_Get ident (layers_at (fst s) rl) of
        Inl _ \<Rightarrow> (Inl (Panic ''nil pointer dereference''), s)
      | Inr _ \<Rightarrow>
          bind (get_cs (\<lambda>rc. case layer_unused ident (layers_at (fst s) rl) (images_at (fst s) ri) rc of
                  Some e \<Rightarrow> Inl e | None \<Rightarrow> Inr ())) (\<lambda>_.
          bind (on_ls rl (\<lambda>drv. ls_Delete drv ident)) (\<lambda>_.
            unmap_images ri ident (is_Images (images_at (fst s) ri)))) s
      else (Inl ErrNotALayer, s))"

definition st_DeleteLayer :: "'d storeLib \<Rightarrow> string \<Rightarrow> ('d, unit) sop" where
  "st_DeleteLayer lib ident = with_writable lib (\<lambda>rl ri. delete_layer rl ri ident)"

section \<open>Images\<close>

definition children_of :: "Layer list \<Rightarrow> string \<Rightarrow> string list" where
  "children_of layers k = map l_ID (filter (\<lambda>l. l_Parent l = k) layers)"

definition parent_of :: "layerStore \<Rightarrow> string \<Rightarrow> string" where
  "parent_of r k = (case ls_Get k r of Inr l \<Rightarrow> l_Parent l | Inl _ \<Rightarrow> [])"

definition other_tops :: "string \<Rightarrow> Image list \<Rightarrow> string list" where
  "other_tops ident images =
     concat (map (\<lambda>i. i_TopLayer i # i_MappedTopLayers i) (filter (\<lambda>i. i_ID i \<noteq> ident) images))"

text \<open>
  The loop of \<open>DeleteImage\<close> from the top layer of the image towards the base.  \<open>stay\<close> holds for a layer
  that a container uses or that is a top layer of another image; the loop stops there, and at a layer
  that has a child which is not going to be removed.
\<close>

fun remove_chain :: "nat \<Rightarrow> (string \<Rightarrow> bool) \<Rightarrow> (string \<Rightarrow> string) \<Rightarrow> (string \<Rightarrow> string list) \<Rightarrow> Image \<Rightarrow> string \<Rightarrow> string list \<Rightarrow>
    gerr + string list" where
  "remove_chain 0 stay parent children img layer removed = Inl (Blocked ''DeleteImage: layers form a cycle'')"
| "remove_chain (Suc n) stay parent children img layer removed =
     (if layer = [] \<or> stay layer then Inr removed
      else let mapped = (if layer = i_TopLayer img then i_MappedTopLayers img else []) in
        if list_ex (\<lambda>k. list_ex (\<lambda>c. c \<notin> set removed) (children k)) (layer # mapped) then Inr removed
        else remove_chain n stay parent children img (parent layer) (removed @ mapped @ [layer]))"

text \<open>The layers \<open>DeleteImage\<close> removes with the image.\<close>

definition layers_to_remove :: "layerStore \<Rightarrow> imageStore \<Rightarrow> containerStore \<Rightarrow> Image \<Rightarrow> gerr + string list" where
  "layers_to_remove r ri rc img =
     remove_chain (Suc (Suc (length (ls_Layers r))))
       (\<lambda>k. cs_Exists k rc \<or> k \<in> set (other_tops (i_ID img) (is_Images ri)))
       (parent_of r) (children_of (ls_Layers r)) img (i_TopLayer img) []"

definition delete_image :: "nat \<Rightarrow> nat \<Rightarrow> string \<Rightarrow> bool \<Rightarrow> ('d, string list) sop" where
  "delete_image rl ri ident commit s =
     (case is_Get ident (images_at (fst s) ri) of
        Inl _ \<Rightarrow> (Inl ErrNotAnImage, s)
      | Inr img \<Rightarrow>
          bind (get_cs (\<lambda>rc. if list_ex (\<lambda>c. c_ImageID c = i_ID img) (cs_Containers rc) then Inl ErrImageUsedByContainer else Inr rc)) (\<lambda>rc.
          bind (if commit then on_is ri (is_Delete (i_ID img)) else ret ()) (\<lambda>_.
          bind (of_res (layers_to_remove (layers_at (fst s) rl) (images_at (fst s) ri) rc img)) (\<lambda>layersToRemove.
          bind (if commit then on_ls rl (\<lambda>drv. ls_delete_all drv layersToRemove) else ret ()) (\<lambda>_.
            ret layersToRemove)))) s)"

definition st_DeleteImage :: "'d storeLib \<Rightarrow> string \<Rightarrow> bool \<Rightarrow> ('d, string list) sop" where
  "st_DeleteImage lib ident commit = with_writable lib (\<lambda>rl ri. delete_image rl ri ident commit)"

section \<open>Containers\<close>

definition EBUSY :: gerr where
  "EBUSY = SysErr 16"

text \<open>\<open>os.RemoveAll\<close>, tried again while the directory is busy.\<close>

fun remove_retry :: "nat \<Rightarrow> path \<Rightarrow> (world, unit) go" where
  "remove_retry 0 p = RemoveAll p"
| "remove_retry (Suc n) p =
     bind (attempt (RemoveAll p)) (\<lambda>res.
       case res of
         Inr _ \<Rightarrow> ret ()
       | Inl e \<Rightarrow> if e = EBUSY then remove_retry n p else fail e)"

text \<open>
  The goroutines of \<open>DeleteContainer\<close>, in the order in which the scheduler runs them; their errors
  are collected from the channel.
\<close>

fun run_tasks :: "('s, unit) go list \<Rightarrow> gerr list \<Rightarrow> ('s, unit) go" where
  "run_tasks [] errs = (if errs = [] then ret () else fail (MultiErr errs))"
| "run_tasks (m # ms) errs =
     bind (attempt m) (\<lambda>res. run_tasks ms (case res of Inl e \<Rightarrow> errs @ [e] | Inr _ \<Rightarrow> errs))"

definition container_tasks :: "nat \<Rightarrow> string \<Rightarrow> Container \<Rightarrow> 'd store \<Rightarrow> ('d, unit) sop list" where
  "container_tasks rl ident container st =
     (if ls_Exists (c_LayerID container) (layers_at st rl) then [on_ls rl (\<lambda>drv. ls_Delete drv (c_LayerID container))] else []) @
     [on_cs (cs_Delete ident),
      st_world (remove_retry 49 (container_dir s_graphRoot st (c_ID container))),
      st_world (RemoveAll (container_dir s_runRoot st (c_ID container)))]"

definition delete_container :: "(('d, unit) sop list \<Rightarrow> ('d, unit) sop list) \<Rightarrow> nat \<Rightarrow> string \<Rightarrow> ('d, unit) sop" where
  "delete_container sched rl ident =
     bind (get_cs (\<lambda>rc. map_sum (\<lambda>_. ErrNotAContainer) id (cs_Get ident rc))) (\<lambda>container s.
       run_tasks (sched (container_tasks rl ident container (fst s))) [] s)"

definition st_DeleteContainer :: "'d storeLib \<Rightarrow> (('d, unit) sop list \<Rightarrow> ('d, unit) sop list) \<Rightarrow> string \<Rightarrow> ('d, unit) sop" where
  "st_DeleteContainer lib sched ident = with_writable lib (\<lambda>rl ri. delete_container sched rl ident)"

section \<open>Anything\<close>

definition delete_any_container :: "nat \<Rightarrow> string \<Rightarrow> Container \<Rightarrow> ('d, unit) sop" where
  "delete_any_container rl ident container s =
     (if ls_Exists (c_LayerID container) (layers_at (fst s) rl)
      then bind (on_ls rl (\<lambda>drv. ls_Delete drv (c_LayerID container))) (\<lambda>_.
           bind (on_cs (cs_Delete ident)) (\<lambda>_.
           bind (st_world (RemoveAll (join_name (container_dir s_graphRoot (fst s) (c_ID container)) ''userdata''))) (\<lambda>_.
             st_world (RemoveAll (join_name (container_dir s_runRoot (fst s) (c_ID container)) ''userdata''))))) s
      else (Inl ErrNotALayer, s))"

definition st_Delete :: "'d storeLib \<Rightarrow> string \<Rightarrow> ('d, unit) sop" where
  "st_Delete lib ident =
     with_writable lib (\<lambda>rl ri.
       bind (get_cs (\<lambda>rc. Inr (case cs_Get ident rc of Inr c \<Rightarrow> Some c | Inl _ \<Rightarrow> None))) (\<lambda>found.
         case found of
           Some c \<Rightarrow> delete_any_container rl ident c
         | None \<Rightarrow>
             bind (if_in_is ri ident (on_is ri (is_Delete ident))) (or_else
               (bind (if_in_ls rl ident (on_ls rl (\<lambda>drv. ls_Delete drv ident))) (or_fail ErrLayerUnknown)))))"

text \<open>The identifiers in \<open>byid\<close>; \<open>order\<close> is the order in which a range over the map delivers them.\<close>

definition known_ids :: "('a \<Rightarrow> string) \<Rightarrow> ('a, 'z) itemStore_scheme \<Rightarrow> string list" where
  "known_ids ident r = filter (\<lambda>k. byid r k \<noteq> None) (remdups (map ident (objs r)))"

definition st_Wipe :: "'d storeLib \<Rightarrow> (string list \<Rightarrow> string list) \<Rightarrow> ('d, unit) sop" where
  "st_Wipe lib order =
     bind st_ContainerStore (\<lambda>_.
     bind st_ImageStore (\<lambda>ri.
     bind (st_LayerStore lib) (\<lambda>rl.
       with_ls rl Lock (with_is lib ri Lock (with_cs Lock
         (bind (on_cs (\<lambda>s. cs_Wipe (order (known_ids c_ID (fst s))) s)) (\<lambda>_.
          bind (on_is ri (\<lambda>s. is_Wipe (order (known_ids i_ID (fst s))) s)) (\<lambda>_.
            on_ls rl (\<lambda>drv s. ls_Wipe drv (order (known_ids l_ID (fst s))) s)))))))))"

end
