(* ===== verification/StoreMount.thy ===== *)
theory StoreMount
  imports StoreDelete
begin

text \<open>
  Mounting, applying differences and shutting down: the remaining operations of
  \<^verbatim>\<open>store.go\<close>.
\<close>

section \<open>Mounting\<close>

text \<open>
  What \<open>mount\<close> does when another process has written to the graph lock: the driver is created anew,
  and the next operation opens the layer store anew, while this one goes on with the store it has.
\<close>

definition st_reload_driver :: "'d storeLib \<Rightarrow> ('d, unit) sop" where
  "st_reload_driver lib =
     bind (upd_st (\<lambda>st. st\<lparr>s_graphDriver := None, s_layerStore := None\<rparr>)) (\<lambda>_.
     bind (st_getGraphDriver lib) (\<lambda>driver.
     bind st_now (\<lambda>now. upd_st (\<lambda>st. st\<lparr>s_graphDriver := Some driver, s_lastLoaded := now\<rparr>))))"

definition shift_options :: "'d store \<Rightarrow> MountOpts \<Rightarrow> MountOpts" where
  "shift_options st options =
     (if mo_UidMaps options \<noteq> None \<or> mo_GidMaps options \<noteq> None
      then let (shifting, um, gm) = st_canUseShifting st (mo_UidMaps options) (mo_GidMaps options)
           in options\<lparr>mo_UidMaps := um, mo_GidMaps := gm, mo_DisableShifting := \<not> shifting\<rparr>
      else options)"

definition st_mount :: "'d storeLib \<Rightarrow> string \<Rightarrow> MountOpts \<Rightarrow> ('d, string) sop" where
  "st_mount lib ident options =
     bind (st_LayerStore lib) (\<lambda>rl.
       with_graphLock (with_ls rl Lock
         (bind (on_graphLock Modified) (\<lambda>modified.
          bind (if modified then st_reload_driver lib else ret ()) (\<lambda>_ s.
            bind (if_in_ls rl ident (on_ls rl (\<lambda>drv. ls_Mount drv ident (shift_options (fst s) options))))
              (or_fail ErrLayerUnknown) s)))))"

definition st_MountImage :: "'d storeLib \<Rightarrow> string \<Rightarrow> string list \<Rightarrow> string \<Rightarrow> ('d, string) sop" where
  "st_MountImage lib ident mountOpts mountLabel =
     bind (st_Image lib ident) (\<lambda>img.
       case validateMountOptions mountOpts of
         Some e \<Rightarrow> fail e
       | None \<Rightarrow> st_mount lib (i_TopLayer img) (no_mount_opts\<lparr>mo_MountLabel := mountLabel, mo_Options := mountOpts @ [''ro'']\<rparr>))"

text \<open>The options for the layer of a container; \<open>v.(bool)\<close> panics on a value of another type.\<close>

definition container_mount :: "bool \<Rightarrow> string \<Rightarrow> Container \<Rightarrow> gerr + MountOpts" where
  "container_mount disableVolatile mountLabel c =
     (let options = no_mount_opts\<lparr>mo_MountLabel := mountLabel, mo_UidMaps := c_UIDMap c, mo_GidMaps := c_GIDMap c,
                      mo_Options := c_MountOpts c\<rparr>
      in if disableVolatile then Inr options
         else case c_Flags c ''Volatile'' of
           None \<Rightarrow> Inr options
         | Some (IBool b) \<Rightarrow> Inr (options\<lparr>mo_Volatile := b\<rparr>)
         | Some _ \<Rightarrow> Inl (Panic ''interface conversion''))"

definition st_Mount :: "'d storeLib \<Rightarrow> string \<Rightarrow> string \<Rightarrow> ('d, string) sop" where
  "st_Mount lib ident mountLabel =
     bind (attempt (st_Container ident)) (\<lambda>res s.
       case res of
         Inl _ \<Rightarrow> st_mount lib ident (no_mount_opts\<lparr>mo_MountLabel := mountLabel\<rparr>) s
       | Inr c \<Rightarrow> bind (of_res (container_mount (s_disableVolatile (fst s)) mountLabel c)) (\<lambda>options.
                   st_mount lib (c_LayerID c) options) s)"

text \<open>A container stands for its layer.\<close>

definition st_resolve :: "string \<Rightarrow> ('d, string) sop" where
  "st_resolve ident = bind (attempt (st_ContainerLayerID ident)) (\<lambda>res. ret (case res of Inr k \<Rightarrow> k | Inl _ \<Rightarrow> ident))"

definition st_Mounted :: "'d storeLib \<Rightarrow> string \<Rightarrow> ('d, int) sop" where
  "st_Mounted lib ident0 =
     bind (st_resolve ident0) (\<lambda>ident.
     bind (st_LayerStore lib) (\<lambda>rl. with_ls rl RLock (on_ls rl (\<lambda>_. ls_Mounted ident))))"

definition st_Unmount :: "'d storeLib \<Rightarrow> string \<Rightarrow> bool \<Rightarrow> ('d, bool) sop" where
  "st_Unmount lib ident0 force =
     bind (st_resolve ident0) (\<lambda>ident.
     bind (st_LayerStore lib) (\<lambda>rl. with_ls rl Lock
       (bind (if_in_ls rl ident (on_ls rl (\<lambda>drv. ls_Unmount drv ident force))) (or_fail ErrLayerUnknown))))"

definition st_UnmountImage :: "'d storeLib \<Rightarrow> string \<Rightarrow> bool \<Rightarrow> ('d, bool) sop" where
  "st_UnmountImage lib ident force = bind (st_Image lib ident) (\<lambda>img. st_Unmount lib (i_TopLayer img) force)"

section \<open>Applying differences\<close>

text \<open>\<open>if modified, err := rlstore.Modified(); modified || err != nil { rlstore.Load() }\<close>, under the write lock.\<close>

definition with_loaded :: "'d storeLib \<Rightarrow> (nat \<Rightarrow> ('d, 'a) sop) \<Rightarrow> ('d, 'a) sop" where
  "with_loaded lib k =
     bind (st_LayerStore lib) (\<lambda>rl. locked_ls rl Lock
       (bind (attempt (on_ls rl (\<lambda>_. ls_Modified))) (\<lambda>res.
        bind (if res = Inr False then ret () else on_ls rl ls_Load) (\<lambda>_. k rl))))"

definition st_ApplyDiffFromStagingDirectory :: "'d storeLib \<Rightarrow> string \<Rightarrow> string \<Rightarrow> DriverWithDifferOutput \<Rightarrow> ApplyDiffOpts option \<Rightarrow>
    ('d, unit) sop" where
  "st_ApplyDiffFromStagingDirectory lib to stagingDirectory diffOutput options =
     with_loaded lib (\<lambda>rl.
       bind (if_in_ls rl to (on_ls rl (\<lambda>drv. ls_ApplyDiffFromStagingDirectory drv to stagingDirectory diffOutput options)))
         (or_fail ErrLayerUnknown))"

definition st_CleanupStagingDirectory :: "'d storeLib \<Rightarrow> string \<Rightarrow> ('d, unit) sop" where
  "st_CleanupStagingDirectory lib stagingDirectory =
     with_loaded lib (\<lambda>rl. on_ls rl (\<lambda>drv. ls_CleanupStagingDirectory drv stagingDirectory))"

definition st_ApplyDiffWithDiffer :: "'d storeLib \<Rightarrow> string \<Rightarrow> ApplyDiffOpts option \<Rightarrow> Differ \<Rightarrow> ('d, DriverWithDifferOutput) sop" where
  "st_ApplyDiffWithDiffer lib to options differ =
     with_loaded lib (\<lambda>rl s.
       if to \<noteq> [] \<and> \<not> ls_Exists to (layers_at (fst s) rl) then (Inl ErrLayerUnknown, s)
       else on_ls rl (\<lambda>drv. ls_ApplyDiffWithDiffer drv to options differ) s)"

definition st_DifferTarget :: "'d storeLib \<Rightarrow> string \<Rightarrow> ('d, string) sop" where
  "st_DifferTarget lib ident =
     with_loaded lib (\<lambda>rl. bind (if_in_ls rl ident (on_ls rl (\<lambda>drv. ls_DifferTarget drv ident))) (or_fail ErrLayerUnknown))"

definition st_ApplyDiff :: "'d storeLib \<Rightarrow> string \<Rightarrow> bytes \<Rightarrow> ('d, int) sop" where
  "st_ApplyDiff lib to diff =
     bind (st_LayerStore lib) (\<lambda>rl. with_ls rl Lock
       (bind (if_in_ls rl to (on_ls rl (\<lambda>drv. ls_ApplyDiff drv (lib_diff lib) to diff))) (or_fail ErrLayerUnknown)))"

section \<open>Shutting down\<close>

text \<open>
  The inner loop of \<open>Shutdown\<close> tests the mount count of its own copy of the layer, which no call
  changes: it ends only when \<open>Unmount\<close> fails.  \<open>n\<close> bounds the number of rounds.
\<close>

fun shutdown_unmount :: "nat \<Rightarrow> nat \<Rightarrow> string \<Rightarrow> bool \<Rightarrow> ('d, gerr \<times> bool) sop" where
  "shutdown_unmount 0 rl layerID modified = fail (Blocked ''Shutdown: the loop does not end'')"
| "shutdown_unmount (Suc n) rl layerID modified =
     bind (attempt (on_ls rl (\<lambda>drv. ls_Unmount drv layerID True))) (\<lambda>res.
       case res of
         Inl e \<Rightarrow> ret (e, modified)
       | Inr _ \<Rightarrow> shutdown_unmount n rl layerID True)"

fun shutdown_layers :: "nat \<Rightarrow> nat \<Rightarrow> bool \<Rightarrow> Layer list \<Rightarrow> string list \<times> gerr option \<times> bool \<Rightarrow>
    ('d, string list \<times> gerr option \<times> bool) sop" where
  "shutdown_layers n rl force [] acc = ret acc"
| "shutdown_layers n rl force (l # ls) (mounted, err, modified) =
     (if l_MountCount l = 0 then shutdown_layers n rl force ls (mounted, err, modified)
      else if force \<and> l_MountCount l > 0
      then bind (shutdown_unmount n rl (l_ID l) modified) (\<lambda>(e, modified').
             shutdown_layers n rl force ls (mounted @ [l_ID l], if err = None then Some e else err, modified'))
      else shutdown_layers n rl force ls (mounted @ [l_ID l], err, modified))"

definition st_cleanup :: "('d, gerr option) sop" where
  "st_cleanup s =
     (case s_graphDriver (fst s) of
        None \<Rightarrow> (Inl (Panic ''nil pointer dereference''), s)
      | Some driver \<Rightarrow>
          bind (attempt (on_snd (\<lambda>e. let (x, d) = drv_Cleanup driver (dstate e) in (x, e\<lparr>dstate := d\<rparr>)))) (\<lambda>res.
          bind (ignoring (on_graphLock Touch)) (\<lambda>_. ret (case res of Inl e \<Rightarrow> Some e | Inr _ \<Rightarrow> None))) s)"

definition st_Shutdown :: "'d storeLib \<Rightarrow> nat \<Rightarrow> bool \<Rightarrow> ('d, string list \<times> gerr option) sop" where
  "st_Shutdown lib n force =
     bind (st_LayerStore lib) (\<lambda>rl.
       with_graphLock (with_ls rl Lock
         (bind (get_ls rl (\<lambda>r. Inr (ls_Layers r))) (\<lambda>layers.
          bind (shutdown_layers n rl force layers ([], None, False)) (\<lambda>(mounted, err, modified).
            let err' = (if mounted \<noteq> [] \<and> err = None then Some ErrLayerUsedByContainer else err) in
            bind (if err' = None then bind st_cleanup (\<lambda>e. ret (e, True)) else ret (err', modified)) (\<lambda>(err2, modified2).
            bind (if modified2 then ignoring (on_ls rl (\<lambda>_. on_lock Touch)) else ret ()) (\<lambda>_.
              ret (mounted, err2))))))))"

end
