(* ===== verification/LayersInv.thy ===== *)
theory LayersInv
  imports Layers
begin

text \<open>
  The invariant of the layer store and the proof that its operations keep it.

  \<open>ls_ok u r\<close>: the shared invariant of the stores, mount points that lead to allocated records, and
  the map of compressed digests in agreement with the records; with \<open>u\<close> also the map of uncompressed
  digests, which two operations do not maintain.  The proofs follow the composition of the operations
  with the rules \<open>keeps_rules\<close>.
\<close>

section \<open>The invariant\<close>

interpretation ls: named_item l_ID l_Names l_Names_update
  by unfold_locales auto

definition sums_ok :: "(Layer \<Rightarrow> digest) \<Rightarrow> (digest \<rightharpoonup> string list) \<Rightarrow> layerStore \<Rightarrow> bool" where
  "sums_ok dg m r \<longleftrightarrow> (\<forall>d. d \<noteq> [] \<longrightarrow> distinct (sums m d) \<and>
     set (sums m d) = {k. \<exists>x \<in> set (items r). l_ID (objs r ! x) = k \<and> dg (objs r ! x) = d})"

definition ls_ok :: "bool \<Rightarrow> layerStore \<Rightarrow> bool" where
  "ls_ok u r \<longleftrightarrow> store_ok l_ID l_Names r \<and> (\<forall>x \<in> ran (bymount r). x < length (objs r)) \<and>
     sums_ok l_CompressedDigest (bycompressedsum r) r \<and>
     (u \<longrightarrow> sums_ok l_UncompressedDigest (byuncompressedsum r) r)"

text \<open>A document that \<open>Load\<close> accepts without losing records.\<close>

definition wf_layers :: "Layer list \<Rightarrow> bool" where
  "wf_layers ls \<longleftrightarrow> distinct (map l_ID ls) \<and> (\<forall>l \<in> set ls. distinct (l_Names l))"

lemma ls_lookup_chain: "ls_lookup r = lookup_chain r"
  by (simp add: fun_eq_iff ls_lookup_def lookup_chain_def cong: option.case_cong sum.case_cong)

lemma ls_okD:
  assumes "ls_ok u r"
  shows "store_ok l_ID l_Names r"
  using assms by (simp add: ls_ok_def)

lemma ls_lookup_item:
  assumes "ls_ok u r" "ls_lookup r ident = Some x"
  shows "x \<in> set (items r)" "byid r (l_ID (objs r ! x)) = Some x" "x < length (objs r)"
  using lookup_chain_item [OF ls_okD [OF assms(1)]] assms(2) by (simp_all add: ls_lookup_chain)

lemma ls_ok_fields [simp]:
  "ls_ok u (r\<lparr>ls_lockfile := l\<rparr>) = ls_ok u r" "ls_ok u (r\<lparr>ls_mountsLockfile := ml\<rparr>) = ls_ok u r"
  "ls_ok u (r\<lparr>ls_layerspathModified := t\<rparr>) = ls_ok u r"
  by (simp_all add: ls_ok_def store_ok_def sums_ok_def)

lemma store_ok_layer_fields [simp]:
  "store_ok l_ID l_Names (r\<lparr>bymount := bm\<rparr>) = store_ok l_ID l_Names r"
  "store_ok l_ID l_Names (r\<lparr>bycompressedsum := m, byuncompressedsum := m'\<rparr>) = store_ok l_ID l_Names r"
  by (simp_all add: store_ok_def)

lemma sums_ok_fields [simp]:
  "sums_ok dg m (r\<lparr>bymount := bm\<rparr>) = sums_ok dg m r"
  "sums_ok dg m (r\<lparr>bycompressedsum := cm, byuncompressedsum := um\<rparr>) = sums_ok dg m r"
  by (simp_all add: sums_ok_def)

lemma ls_ok_bymount:
  "ls_ok u r \<Longrightarrow> (\<And>x. x \<in> ran bm \<Longrightarrow> x < length (objs r)) \<Longrightarrow> ls_ok u (r\<lparr>bymount := bm\<rparr>)"
  by (auto simp: ls_ok_def)

lemma ls_ok_no_mounts: "ls_ok u r \<Longrightarrow> ls_ok u (r\<lparr>bymount := Map.empty\<rparr>)"
  by (rule ls_ok_bymount) simp_all

lemma ls_ok_byid: "ls_ok u r \<Longrightarrow> x \<in> ran (bymount r) \<Longrightarrow> x < length (objs r)"
  by (auto simp: ls_ok_def)

lemma ran_delete_subset: "x \<in> ran (m(k := None)) \<Longrightarrow> x \<in> ran m"
  by (auto simp: ran_def split: if_splits)

lemma ran_upd_cases: "x \<in> ran (m(k \<mapsto> v)) \<Longrightarrow> x = v \<or> x \<in> ran m"
  by (auto simp: ran_def split: if_splits)

section \<open>Changes of the records and the indexes\<close>

lemma sums_ok_update_obj:
  assumes "sums_ok dg m r" "l_ID (f (objs r ! x)) = l_ID (objs r ! x)" "dg (f (objs r ! x)) = dg (objs r ! x)"
  shows "sums_ok dg m (update_obj x f r)"
proof (cases "x < length (objs r)")
  case True
  have "l_ID ((objs r)[x := f (objs r ! x)] ! y) = l_ID (objs r ! y) \<and>
      dg ((objs r)[x := f (objs r ! x)] ! y) = dg (objs r ! y)" for y
    using assms(2,3) True by (cases "y = x") simp_all
  then show ?thesis using assms(1) by (simp add: sums_ok_def update_obj_def)
next
  case False
  then show ?thesis using assms(1) by (simp add: update_obj_beyond)
qed

text \<open>An update that leaves the indexed fields alone keeps the invariant.\<close>

lemma ls_ok_update_obj:
  assumes "ls_ok u r" "\<And>l. l_ID (f l) = l_ID l" "\<And>l. l_Names (f l) = l_Names l"
    "\<And>l. l_CompressedDigest (f l) = l_CompressedDigest l"
    "\<And>l. u \<Longrightarrow> l_UncompressedDigest (f l) = l_UncompressedDigest l"
  shows "ls_ok u (update_obj x f r)"
proof (cases "x < length (objs r)")
  case True
  have "store_ok l_ID l_Names (update_obj x f r)"
    using assms(1-3) True by (intro ls.store_ok_update_obj) (simp_all add: ls_ok_def)
  then show ?thesis
    using assms sums_ok_update_obj [of _ _ r f x] by (auto simp: ls_ok_def update_obj_def)
next
  case False
  then show ?thesis using assms(1) by (simp add: update_obj_beyond)
qed

lemma ls_ok_mount_update:
  "ls_ok u r \<Longrightarrow> ls_ok u (update_obj x (\<lambda>l. l\<lparr>l_MountPoint := p l, l_MountCount := n l\<rparr>) r)"
  "ls_ok u r \<Longrightarrow> ls_ok u (update_obj x (\<lambda>l. l\<lparr>l_MountCount := n l\<rparr>) r)"
  "ls_ok u r \<Longrightarrow> ls_ok u (update_obj x (\<lambda>l. l\<lparr>l_MountCount := n l, l_MountPoint := p l\<rparr>) r)"
  "ls_ok u r \<Longrightarrow> ls_ok u (update_obj x (\<lambda>l. if b then l\<lparr>l_MountCount := n l\<rparr> else l) r)"
  by (rule ls_ok_update_obj; simp)+

lemma ls_ok_clear_mounts: "ls_ok u r \<Longrightarrow> ls_ok u (clear_mounts r)"
proof -
  have "ls_ok u r \<Longrightarrow> ls_ok u (fold (\<lambda>x. update_obj x (\<lambda>l. l\<lparr>l_MountPoint := [], l_MountCount := 0\<rparr>)) xs r)" for xs
    by (induction xs arbitrary: r) (simp_all add: ls_ok_mount_update)
  then show "ls_ok u r \<Longrightarrow> ls_ok u (clear_mounts r)" by (simp add: clear_mounts_def)
qed

lemma ls_ok_set_mount: "ls_ok u r \<Longrightarrow> ls_ok u (set_mount m r)"
proof (cases "m_MountPoint m = [] \<or> ls_lookup r (m_ID m) = None")
  case False
  assume ok: "ls_ok u r"
  from False obtain x where x: "ls_lookup r (m_ID m) = Some x" "m_MountPoint m \<noteq> []" by auto
  let ?r = "update_obj x (\<lambda>l. l\<lparr>l_MountPoint := m_MountPoint m, l_MountCount := m_MountCount m\<rparr>) r"
  have "ls_ok u (?r\<lparr>bymount := (bymount r)(m_MountPoint m \<mapsto> x)\<rparr>)"
    by (rule ls_ok_bymount [OF ls_ok_mount_update(1) [OF ok]])
      (auto dest!: ran_upd_cases ls_ok_byid [OF ok] simp: ls_lookup_item(3) [OF ok x(1)])
  then show ?thesis using x by (simp add: set_mount_def)
qed (auto simp: set_mount_def)

lemma ls_ok_merge_mounts: "ls_ok u r \<Longrightarrow> ls_ok u (merge_mounts ms r)"
proof -
  assume ok: "ls_ok u r"
  have "ls_ok u r \<Longrightarrow> ls_ok u (fold set_mount ms r)" for r
    by (induction ms arbitrary: r) (simp_all add: ls_ok_set_mount)
  then show ?thesis using ls_ok_bymount [OF ls_ok_clear_mounts [OF ok], of Map.empty]
    by (simp add: merge_mounts_def)
qed

lemma sums_ok_forget:
  assumes "sums_ok dg m r" "store_ok l_ID l_Names r" "x \<in> set (items r)" "items r' = remove_nth i (items r)"
    "i < length (items r)" "items r ! i = x" "objs r' = objs r"
  shows "sums_ok dg (\<lambda>d. map_option (remove1 (l_ID (objs r ! x))) (m d)) r'"
  unfolding sums_ok_def
proof (intro allI impI conjI)
  fix d :: digest assume d: "d \<noteq> []"
  let ?k = "l_ID (objs r ! x)"
  have eq: "sums (\<lambda>d. map_option (remove1 ?k) (m d)) d = remove1 ?k (sums m d)"
    by (simp add: sums_def split: option.splits)
  have dd: "distinct (sums m d)" and ss: "set (sums m d) = {k. \<exists>x \<in> set (items r). l_ID (objs r ! x) = k \<and> dg (objs r ! x) = d}"
    using assms(1) d by (simp_all add: sums_ok_def)
  show "distinct (sums (\<lambda>d. map_option (remove1 ?k) (m d)) d)" unfolding eq using dd by simp
  have it: "set (items r') = set (items r) - {x}"
    using assms(2,4-6) by (simp add: store_ok_def set_remove_nth)
  have "y = x" if "y \<in> set (items r)" "l_ID (objs r ! y) = ?k" for y
    using store_ok_inj [OF assms(2) that(1) assms(3) that(2)] .
  then show "set (sums (\<lambda>d. map_option (remove1 ?k) (m d)) d) = {k. \<exists>x \<in> set (items r'). l_ID (objs r' ! x) = k \<and> dg (objs r' ! x) = d}"
    unfolding eq set_remove1_eq [OF dd] it assms(7) using ss by blast
qed

lemma ls_delete_index:
  assumes "store_ok l_ID l_Names r" "x \<in> set (items r)"
  shows "\<exists>i. find_index (\<lambda>y. l_ID (objs r ! y) = l_ID (objs r ! x)) (items r) = Some i \<and>
    i < length (items r) \<and> items r ! i = x"
proof -
  obtain i where i: "find_index (\<lambda>y. l_ID (objs r ! y) = l_ID (objs r ! x)) (items r) = Some i"
    using assms(2) by (metis (mono_tags) find_index_None option.exhaust)
  from find_index_Some [OF this] store_ok_inj [OF assms(1) _ assms(2)] show ?thesis using i by auto
qed

lemma ls_ok_forget_layer:
  assumes "ls_ok u r" "x \<in> set (items r)"
  shows "ls_ok u (forget_layer (objs r ! x) r)"
proof -
  have s: "store_ok l_ID l_Names r" using assms(1) by (rule ls_okD)
  let ?l = "objs r ! x"
  obtain i where i: "find_index (\<lambda>y. l_ID (objs r ! y) = l_ID ?l) (items r) = Some i" "i < length (items r)" "items r ! i = x"
    using ls_delete_index [OF s assms(2)] by blast
  define r1 where "r1 = remove_item (l_ID ?l) (l_Names ?l) (Some i) r"
  have f: "objs r1 = objs r" "items r1 = remove_nth i (items r)" "bymount r1 = bymount r"
    "bycompressedsum r1 = bycompressedsum r" "byuncompressedsum r1 = byuncompressedsum r"
    by (simp_all add: r1_def remove_item_def)
  have s1: "store_ok l_ID l_Names r1" unfolding r1_def by (rule ls.store_ok_remove_item [OF s assms(2) i(2,3)])
  have sums: "sums_ok dg m r \<Longrightarrow> sums_ok dg (\<lambda>d. map_option (remove1 (l_ID ?l)) (m d)) r1" for dg m
    by (rule sums_ok_forget [OF _ s assms(2) f(2) i(2,3) f(1)])
  have eq: "forget_layer ?l r = deleteInDigestMap (l_ID ?l)
      (r1\<lparr>bymount := (if l_MountPoint ?l \<noteq> [] then (bymount r)(l_MountPoint ?l := None) else bymount r)\<rparr>)"
    by (simp add: forget_layer_def Let_def i(1) r1_def)
  show ?thesis
    using s1 sums assms(1) unfolding eq ls_ok_def deleteInDigestMap_def
    by (auto simp: f dest: ran_delete_subset split: if_splits)
qed

section \<open>Operations that do not touch the records\<close>

text \<open>Calls of the world, the driver and the label package leave the store as it is.\<close>

lemma keeps_on_world [keeps_rules]: "keeps (\<lambda>s. Q (fst s)) (on_world m)"
  and keeps_on_driver [keeps_rules]: "keeps (\<lambda>s. Q (fst s)) (on_driver dm)"
  and keeps_label_do [keeps_rules]: "keeps (\<lambda>s. Q (fst s)) (label_do cs)"
  by (auto simp: keeps_def on_world_def on_driver_def label_do_def split: prod.splits)

lemma keeps_release_label [keeps_rules]: "keeps (\<lambda>s. Q (fst s)) (release_label lb)"
  by (auto simp: keeps_def release_label_def label_do_def)

lemma keeps_on_layers: "(\<And>r. Q r \<Longrightarrow> Q (f r)) \<Longrightarrow> keeps (\<lambda>s. Q (fst s)) (on_layers f)"
  by (simp add: keeps_def on_layers_def modify_def)

lemma keeps_on_lock [keeps_rules]: "keeps (\<lambda>s. ls_ok u (fst s)) (on_lock m)"
  and keeps_on_mounts_lock [keeps_rules]: "keeps (\<lambda>s. ls_ok u (fst s)) (on_mounts_lock m')"
  by (auto simp: keeps_def on_lock_def on_mounts_lock_def split: prod.splits option.splits)

lemma keeps_with_mounts [keeps_rules]:
  "keeps (\<lambda>s. ls_ok u (fst s)) m \<Longrightarrow> keeps (\<lambda>s. ls_ok u (fst s)) (with_mounts lock m)"
  unfolding with_mounts_def by (intro keeps_rules)

text \<open>
  Operations that leave the store exactly as it is; what follows them starts from the same store.
\<close>

definition same_store :: "('d, 'a) lop \<Rightarrow> bool" where
  "same_store m \<longleftrightarrow> (\<forall>s. fst (snd (m s)) = fst s)"

named_theorems same_store_rules "operations that do not change the store"

lemma same_store_basic [same_store_rules]:
  "same_store (on_world m1)" "same_store (on_driver m2)" "same_store (label_do cs)" "same_store (release_label lb)"
  "same_store (ret x)" "same_store (fail e)"
  by (auto simp: same_store_def on_world_def on_driver_def label_do_def release_label_def split: prod.splits)

lemma same_store_attempt [same_store_rules]: "same_store m \<Longrightarrow> same_store (attempt m)"
  unfolding same_store_def
proof (intro allI)
  fix s assume "\<forall>s. fst (snd (m s)) = fst s"
  then have "fst (snd (m s)) = fst s" by blast
  then show "fst (snd (attempt m s)) = fst s"
    by (auto simp: attempt_def split: prod.splits sum.splits)
qed

lemma same_store_bind [same_store_rules]:
  assumes "same_store m" "\<And>x. same_store (f x)"
  shows "same_store (bind m f)"
  unfolding same_store_def
proof
  fix s
  obtain x s1 where m: "m s = (x, s1)" by (rule prod.exhaust)
  have "fst s1 = fst s" using assms(1) m unfolding same_store_def by (metis snd_conv)
  moreover have "fst (snd (f y s1)) = fst s1" for y using assms(2) unfolding same_store_def by blast
  ultimately show "fst (snd (bind m f s)) = fst s"
    using m by (cases x) (simp_all add: bind_def)
qed

lemma same_store_ignoring [same_store_rules]: "same_store m \<Longrightarrow> same_store (ignoring m)"
  unfolding ignoring_def by (intro same_store_rules)

lemma bind_same_store:
  assumes "same_store m" "P (fst s)" "\<And>x s'. fst s' = fst s \<Longrightarrow> P (fst (snd (f x s')))"
  shows "P (fst (snd (bind m f s)))"
proof -
  obtain x s1 where m: "m s = (x, s1)" by (rule prod.exhaust)
  have "fst s1 = fst s" using assms(1) m unfolding same_store_def by (metis snd_conv)
  then show ?thesis using assms(2,3) m by (cases x) (simp_all add: bind_def)
qed

section \<open>Saving and loading\<close>

abbreviation keeps_ok :: "bool \<Rightarrow> ('d, 'a) lop \<Rightarrow> bool" where
  "keeps_ok u m \<equiv> keeps (\<lambda>s. ls_ok u (fst s)) m"

lemma bind_on_layers:
  assumes "ls_ok u (f (fst s))" "keeps_ok u (g ())"
  shows "ls_ok u (fst (snd (bind (on_layers f) g s)))"
  using keeps_snd [OF assms(2), of "(f (fst s), snd s)"] assms(1)
  by (simp add: bind_def on_layers_def modify_def)

text \<open>Case distinctions of an operation on its state, as introduction rules.\<close>

lemma ok_split:
  "(c \<Longrightarrow> ls_ok u (fst (snd a))) \<Longrightarrow> (\<not> c \<Longrightarrow> ls_ok u (fst (snd b))) \<Longrightarrow> ls_ok u (fst (snd (if c then a else b)))"
  "(x = None \<Longrightarrow> ls_ok u (fst (snd a))) \<Longrightarrow> (\<And>y. x = Some y \<Longrightarrow> ls_ok u (fst (snd (f y)))) \<Longrightarrow>
   ls_ok u (fst (snd (case x of None \<Rightarrow> a | Some y \<Rightarrow> f y)))"
  "ls_ok u (fst s) \<Longrightarrow> ls_ok u (fst (snd (res, s)))"
  by (simp_all split: option.splits)

lemma keeps_loadMounts [keeps_rules]: "keeps_ok u ls_loadMounts"
proof (rule keepsI)
  fix s res s'
  assume ok: "ls_ok u (fst s)" and run: "ls_loadMounts s = (res, s')"
  obtain x s1 where r: "on_world (ReadFile (ls_mountspath (fst s))) s = (x, s1)" by (rule prod.exhaust)
  have ok1: "ls_ok u (fst s1)" by (rule keepsD [OF keeps_on_world [of "ls_ok u"] ok r])
  show "ls_ok u (fst s')"
    using run ok1 unfolding ls_loadMounts_def r
    by (auto simp: on_layers_def modify_def intro: ls_ok_merge_mounts ls_ok_no_mounts
        split: sum.splits option.splits if_splits)
qed

lemma keeps_saveMounts [keeps_rules]: "keeps_ok u ls_saveMounts"
proof -
  have k: "keeps_ok u (bind (on_world (MkdirAll p)) (\<lambda>_. bind (on_world (AtomicWriteFile q c)) (\<lambda>_. ls_loadMounts)))" for p q c
    by (intro keeps_rules)
  show ?thesis
    by (rule keepsI2) (simp add: ls_saveMounts_def keeps_snd [OF k] split: option.splits)
qed

lemma keeps_saveLayers [keeps_rules]: "keeps_ok u ls_saveLayers"
  by (rule keepsI2) (simp add: ls_saveLayers_def keeps_snd [OF keeps_on_lock])

lemma keeps_Save [keeps_rules]: "keeps_ok u ls_Save"
  unfolding ls_Save_def by (intro keeps_rules)

lemma keeps_refresh_mounts [keeps_rules]: "keeps_ok u ls_refresh_mounts"
  unfolding ls_refresh_mounts_def by (intro keeps_rules) (auto intro: keeps_rules)

lemma keeps_deleteInternal [keeps_rules]: "keeps_ok u (ls_deleteInternal drv ident)"
proof (rule keepsI)
  fix s :: "layerStore \<times> 'a env" and res s'
  assume ok: "ls_ok u (fst s)" and run: "ls_deleteInternal drv ident s = (res, s')"
  show "ls_ok u (fst s')"
  proof (cases "ls_IsReadWrite (fst s) \<and> ls_lookup (fst s) ident \<noteq> None")
    case False
    then show ?thesis using ok run by (simp add: ls_deleteInternal_def split: if_splits option.splits)
  next
    case True
    then obtain x where x: "ls_lookup (fst s) ident = Some x" by auto
    define l where "l = objs (fst s) ! x"
    let ?m = "bind (on_driver (drv_Remove drv (l_ID l))) (\<lambda>_.
          bind (ignoring (on_world (RemoveFile (ls_tspath (fst s) (l_ID l))))) (\<lambda>_.
          bind (ignoring (on_world (RemoveAll (ls_datadir (fst s) (l_ID l))))) (\<lambda>_.
          bind (on_layers (forget_layer l)) (\<lambda>_. release_label (l_MountLabel l)))))"
    have rm: "?m s = (res, s')" using run True x by (simp add: ls_deleteInternal_def l_def Let_def)
    have fin: "ls_ok u (fst (snd (bind (on_layers (forget_layer l)) (\<lambda>_. release_label (l_MountLabel l)) s3)))"
      if "fst s3 = fst s" for s3 :: "layerStore \<times> 'a env"
    proof -
      have "ls_ok u (forget_layer l (fst s3))"
        using ls_ok_forget_layer [OF ok ls_lookup_item(1) [OF ok x]] that by (simp add: l_def)
      then show ?thesis
        using keeps_snd [OF keeps_release_label [of "ls_ok u" "l_MountLabel l"], of "(forget_layer l (fst s3), snd s3)"]
        by (simp add: bind_def on_layers_def modify_def)
    qed
    have "ls_ok u (fst (snd (?m s)))"
      by (intro bind_same_store [where P = "ls_ok u"] same_store_rules fin) (simp_all add: ok)
    then show ?thesis by (simp add: rm)
  qed
qed

lemma keeps_cleanup: "keeps_ok u (ls_cleanup drv idxs arr b)"
proof (rule keepsI)
  fix s :: "layerStore \<times> 'a env" and res s'
  assume "ls_ok u (fst s)" "ls_cleanup drv idxs arr b s = (res, s')"
  then show "ls_ok u (fst s')"
  proof (induction drv idxs arr b s arbitrary: res s' rule: ls_cleanup.induct)
    case (2 drv i idxs arr b s)
    let ?l = "objs (fst s) ! (arr ! i)"
    obtain y s1 where d: "attempt (ls_deleteInternal drv (l_ID ?l)) s = (y, s1)" by (rule prod.exhaust)
    have ok1: "ls_ok u (fst s1)"
      by (rule keepsD [OF keeps_attempt [OF keeps_deleteInternal] "2.prems"(1) d])
    show ?case
    proof (cases "l_Flags ?l incompleteFlag = Some (IBool True)")
      case False
      then show ?thesis using "2.IH"(2) [OF refl] "2.prems" by (simp add: Let_def)
    next
      case True
      show ?thesis
      proof (cases "\<exists>u. y = Inr (Inr u)")
        case ok2: True
        then show ?thesis
          using "2.IH"(1) [OF refl True d [symmetric]] "2.prems"(2) True d ok1 by (auto simp: Let_def)
      next
        case False
        then have "s' = s1" using "2.prems"(2) True d by (auto simp: Let_def split: sum.splits)
        then show ?thesis using ok1 by simp
      qed
    qed
  qed simp
qed

lemma sums_load_sums:
  assumes "d \<noteq> []"
  shows "sums (load_sums dg ls) d = map l_ID (filter (\<lambda>l. dg l = d) ls)"
proof -
  have one: "sums (add_sum dg l m) d = sums m d @ (if dg l = d then [l_ID l] else [])" for l m
    using assms by (auto simp: sums_def add_sum_def)
  have "sums (fold (add_sum dg) ls m) d = sums m d @ map l_ID (filter (\<lambda>l. dg l = d) ls)" for m
    by (induction ls arbitrary: m) (simp_all add: one)
  then show ?thesis by (simp add: load_sums_def sums_def)
qed

lemma store_ok_more_objs:
  assumes "store_ok l_ID l_Names r"
  shows "store_ok l_ID l_Names (keep_stale old r)"
proof -
  have "(objs r @ os) ! y = objs r ! y" if "y \<in> set (items r)" for y os
    using that assms by (simp add: store_ok_def nth_append)
  then show ?thesis
    using assms by (auto simp: store_ok_def keep_stale_def ids_ok_def names_ok_def)
qed

lemma sums_ok_loaded:
  assumes "distinct (map l_ID ls)" "items r = [0..<length ls]" "length (objs r) = length ls"
    "map l_ID (objs r) = map l_ID ls" "map dg (objs r) = map dg ls"
  shows "sums_ok dg (load_sums dg ls) (keep_stale old r)"
  unfolding sums_ok_def
proof (intro allI impI conjI)
  fix d :: digest assume d: "d \<noteq> []"
  show "distinct (sums (load_sums dg ls) d)"
    using assms(1) by (simp add: sums_load_sums [OF d] distinct_map_filter)
  have eq: "l_ID (objs (keep_stale old r) ! x) = l_ID (ls ! x)" "dg (objs (keep_stale old r) ! x) = dg (ls ! x)"
    if "x < length ls" for x
    using that assms(3-5) by (simp_all add: keep_stale_def nth_append) (metis length_map nth_map)+
  show "set (sums (load_sums dg ls) d) = {k. \<exists>x \<in> set (items (keep_stale old r)).
      l_ID (objs (keep_stale old r) ! x) = k \<and> dg (objs (keep_stale old r) ! x) = d}"
  proof -
    have "set (items (keep_stale old r)) = {0..<length ls}" by (simp add: keep_stale_def assms(2))
    then have "(\<exists>x \<in> set (items (keep_stale old r)). l_ID (objs (keep_stale old r) ! x) = k \<and> dg (objs (keep_stale old r) ! x) = d) \<longleftrightarrow>
        (\<exists>x < length ls. l_ID (ls ! x) = k \<and> dg (ls ! x) = d)" for k
      using eq by (metis atLeastLessThan_iff zero_le)
    moreover have "k \<in> set (sums (load_sums dg ls) d) \<longleftrightarrow> (\<exists>x < length ls. l_ID (ls ! x) = k \<and> dg (ls ! x) = d)" for k
      unfolding sums_load_sums [OF d] by (auto simp: in_set_conv_nth)
    ultimately show ?thesis by blast
  qed
qed

lemma ls_ok_loaded:
  assumes "wf_layers ls" "load_store l_ID l_Names l_Names_update ls r = (r1, b)" "ls_ok u r"
  shows "ls_ok True ((keep_stale r r1)\<lparr>bycompressedsum := load_sums l_CompressedDigest ls,
     byuncompressedsum := load_sums l_UncompressedDigest ls\<rparr>)"
proof -
  have wf: "distinct (map l_ID ls)" "\<forall>l \<in> set ls. distinct (l_Names l)" using assms(1) by (simp_all add: wf_layers_def)
  note spec = ls.load_store_spec [OF wf assms(2)]
  have it: "items r1 = [0..<length ls]" "length (objs r1) = length ls" using spec(4) by auto
  have proj: "map l_ID (objs r1) = map l_ID ls" "map l_CompressedDigest (objs r1) = map l_CompressedDigest ls"
    "map l_UncompressedDigest (objs r1) = map l_UncompressedDigest ls"
    by (rule ls.load_store_proj [OF _ assms(2)]; simp)+
  have "x < length (objs (keep_stale r r1))" if "x \<in> ran (bymount (keep_stale r r1))" for x
    using that assms(3) by (fastforce simp: keep_stale_def ran_def ls_ok_def)
  then show ?thesis
    using store_ok_more_objs [OF spec(1)] sums_ok_loaded [OF wf(1) it proj(1) proj(2)]
      sums_ok_loaded [OF wf(1) it proj(1) proj(3)]
    by (auto simp: ls_ok_def)
qed

lemma keeps_load_finish [keeps_rules]: "keeps_ok u (ls_load_finish drv b)"
proof -
  have k: "keeps_ok u (bind (if c then ls_cleanup drv idxs arr b else ret (None, b)) (\<lambda>(err, save).
         if save then ls_saveLayers else case err of None \<Rightarrow> ret () | Some e \<Rightarrow> fail e))" for c idxs arr
    by (intro keeps_bind) (auto intro: keeps_rules keeps_cleanup split: option.splits)
  have "keeps_ok u (\<lambda>s. bind (if ls_Locked (fst s) then ls_cleanup drv [0..<length (items (fst s))] (items (fst s)) b
             else ret (None, b)) (\<lambda>(err, save).
         if save then ls_saveLayers else case err of None \<Rightarrow> ret () | Some e \<Rightarrow> fail e) s)"
    by (rule keepsI2) (rule keeps_snd [OF k])
  then show ?thesis unfolding ls_load_finish_def by (intro keeps_bind keeps_rules)
qed

text \<open>Loading a well-formed document leaves the whole invariant, also for a store that had lost a part of it.\<close>

lemma ls_ok_weaken: "ls_ok True r \<Longrightarrow> ls_ok u r"
  by (simp add: ls_ok_def)

lemma ls_load_data_ok:
  assumes "ls_ok u (fst s)" "wf_layers (case decoded of None \<Rightarrow> [] | Some ls \<Rightarrow> ls)" "ls_load_data drv decoded s = (res, s')"
  shows "ls_ok u (fst s')"
proof -
  define rw where "rw = ls_IsReadWrite (fst s)"
  define ls where "ls = map (\<lambda>l. l\<lparr>l_ReadOnly := \<not> rw\<rparr>) (case decoded of None \<Rightarrow> [] | Some ls \<Rightarrow> ls)"
  have wf: "wf_layers ls"
    using assms(2) by (auto simp: ls_def wf_layers_def o_def split: option.splits)
  obtain r1 b where l: "load_store l_ID l_Names l_Names_update ls (fst s) = (r1, b)" by (rule prod.exhaust)
  let ?r = "(keep_stale (fst s) r1)\<lparr>bycompressedsum := load_sums l_CompressedDigest ls,
     byuncompressedsum := load_sums l_UncompressedDigest ls\<rparr>"
  have ok: "ls_ok u ?r" by (rule ls_ok_weaken [OF ls_ok_loaded [OF wf l assms(1)]])
  let ?rest = "if rw then with_mounts RLock (ls_load_finish drv b)
             else if decoded = None then fail (Errorf ''json: cannot decode layers'') else ret ()"
  have rest: "keeps_ok u ?rest" by (auto intro: keeps_rules)
  have run: "ls_load_data drv decoded s = bind (label_do (load_labels rw ls)) (\<lambda>_.
           if b \<and> (\<not> rw \<or> \<not> ls_Locked (fst s)) then fail ErrDuplicateLayerNames
           else bind (on_layers (\<lambda>_. ?r)) (\<lambda>_. ?rest)) s"
    unfolding ls_load_data_def Let_def rw_def [symmetric] ls_def [symmetric] l prod.case by (rule refl)
  have "ls_ok u (fst (snd (ls_load_data drv decoded s)))"
    unfolding run
    by (intro bind_same_store [where P = "ls_ok u"] same_store_rules assms(1))
      (use ok keeps_snd [OF rest, of "(?r, x)" for x] assms(1) in \<open>auto simp: bind_def on_layers_def modify_def\<close>)
  then show ?thesis by (simp add: assms(3))
qed

definition disk_ok :: "layerStore \<times> 'd env \<Rightarrow> bool" where
  "disk_ok s \<longleftrightarrow> (\<forall>c ls. fs (wld (snd s)) (ls_layerspath (fst s)) = Some c \<longrightarrow> decode_layers c = Some ls \<longrightarrow> wf_layers ls)"

lemma wf_layers_Nil [simp]: "wf_layers []"
  by (simp add: wf_layers_def)

lemma ls_Load_ok:
  assumes "ls_ok u (fst s)" "disk_ok s" "ls_Load drv s = (res, s')"
  shows "ls_ok u (fst s')"
proof -
  let ?p = "ls_layerspath (fst s)"
  obtain x w where r: "ReadFile ?p (wld (snd s)) = (x, w)" by (rule prod.exhaust)
  let ?s1 = "(fst s, (snd s)\<lparr>wld := w\<rparr>)"
  have on: "on_world (ReadFile ?p) s = (x, ?s1)" by (simp add: on_world_def r)
  have ok1: "ls_ok u (fst ?s1)" using assms(1) by simp
  show ?thesis
  proof (cases x)
    case (Inl e)
    then show ?thesis
      using assms(3) on ok1 ls_load_data_ok [OF ok1, of "Some []" drv res s']
      by (auto simp: ls_Load_def split: if_splits)
  next
    case (Inr c)
    then have "fs (wld (snd s)) ?p = Some c"
      using r by (cases "wld (snd s)" rule: io_call_cases) (auto simp: ReadFile_def split: option.splits)
    then have "wf_layers (case decode_layers c of None \<Rightarrow> [] | Some ls \<Rightarrow> ls)"
      using assms(2) by (auto simp: disk_ok_def split: option.splits)
    from ls_load_data_ok [OF ok1 this] show ?thesis
      using assms(3) on Inr by (simp add: ls_Load_def)
  qed
qed

section \<open>The digest maps\<close>

lemma sums_updateDigestMap:
  assumes "d \<noteq> []"
  shows "sums (updateDigestMap old new k m) d =
    (if d = old then filter (\<lambda>v. v \<noteq> k) (sums m d) else sums m d) @ (if d = new then [k] else [])"
  using assms by (auto simp: updateDigestMap_def sums_def Let_def)

lemma sums_ok_item_map:
  assumes "store_ok l_ID l_Names r"
  shows "sums_ok dg m r \<longleftrightarrow> (\<forall>d. d \<noteq> [] \<longrightarrow> distinct (sums m d) \<and>
    set (sums m d) = {k. \<exists>l. item_map r k = Some l \<and> dg l = d})"
proof -
  have "{k. \<exists>x \<in> set (items r). l_ID (objs r ! x) = k \<and> dg (objs r ! x) = d} = {k. \<exists>l. item_map r k = Some l \<and> dg l = d}" for d
    by (auto simp: item_map_Some [OF assms])
  then show ?thesis by (simp add: sums_ok_def)
qed

lemma sums_ok_record:
  assumes "sums_ok dg m r" "store_ok l_ID l_Names r" "store_ok l_ID l_Names r'"
    "item_map r k = Some l" "item_map r' = (item_map r)(k \<mapsto> l')"
  shows "sums_ok dg (updateDigestMap (dg l) (dg l') k m) r'"
  unfolding sums_ok_item_map [OF assms(3)]
proof (intro allI impI conjI)
  fix d :: digest assume d: "d \<noteq> []"
  have dd: "distinct (sums m d)" and ss: "set (sums m d) = {k. \<exists>l. item_map r k = Some l \<and> dg l = d}"
    using assms(1) d unfolding sums_ok_item_map [OF assms(2)] by blast+
  have notin: "k \<notin> set (sums m d)" if "d \<noteq> dg l" using that ss assms(4) by auto
  show "distinct (sums (updateDigestMap (dg l) (dg l') k m) d)"
    using dd notin by (auto simp: sums_updateDigestMap [OF d])
  have "set (sums (updateDigestMap (dg l) (dg l') k m) d) = (set (sums m d) - {k}) \<union> (if d = dg l' then {k} else {})"
    using notin by (auto simp: sums_updateDigestMap [OF d])
  then show "set (sums (updateDigestMap (dg l) (dg l') k m) d) = {k. \<exists>l. item_map r' k = Some l \<and> dg l = d}"
    unfolding ss assms(5) by auto
qed

lemma ls_ok_record_diff:
  assumes "ls_ok u r" "x \<in> set (items r)"
  shows "ls_ok u (record_diff x cd csz ud usz cty us gs r)"
proof -
  have s: "store_ok l_ID l_Names r" using assms(1) by (rule ls_okD)
  define f :: "Layer \<Rightarrow> Layer" where "f = (\<lambda>l. l\<lparr>l_CompressedDigest := cd, l_CompressedSize := csz, l_UncompressedDigest := ud,
           l_UncompressedSize := usz, l_CompressionType := cty, l_UIDs := us, l_GIDs := gs\<rparr>)"
  have f: "l_ID (f l) = l_ID l" "l_Names (f l) = l_Names l" "l_CompressedDigest (f l) = cd" "l_UncompressedDigest (f l) = ud" for l
    by (simp_all add: f_def)
  have eq: "record_diff x cd csz ud usz cty us gs r = (update_obj x f r)
        \<lparr>bycompressedsum := updateDigestMap (l_CompressedDigest (objs r ! x)) cd (l_ID (objs r ! x)) (bycompressedsum r),
         byuncompressedsum := updateDigestMap (l_UncompressedDigest (objs r ! x)) ud (l_ID (objs r ! x)) (byuncompressedsum r)\<rparr>"
    by (simp add: record_diff_def Let_def f_def)
  have s1: "store_ok l_ID l_Names (update_obj x f r)"
    using store_okD(3) [OF s assms(2)] by (intro ls.store_ok_update_obj s) (simp_all add: f)
  have m: "item_map r (l_ID (objs r ! x)) = Some (objs r ! x)"
    using store_okD(3) [OF s assms(2)] by (simp add: item_map_def)
  have rec: "sums_ok dg sm r \<Longrightarrow>
      sums_ok dg (updateDigestMap (dg (objs r ! x)) (dg (f (objs r ! x))) (l_ID (objs r ! x)) sm) (update_obj x f r)" for dg sm
    by (rule sums_ok_record [OF _ s s1 m ls.item_map_update_obj [where f = f, OF s assms(2) f(1)]])
  moreover have "bymount (update_obj x f r) = bymount r" by (simp add: update_obj_def)
  ultimately show ?thesis
    using assms(1) s1 rec [of l_CompressedDigest] rec [of l_UncompressedDigest]
    unfolding eq by (auto simp: ls_ok_def f)
qed

lemma sums_ok_insert:
  assumes "sums_ok dg m r" "store_ok l_ID l_Names r" "store_ok l_ID l_Names r'" "item_map r k = None"
    "item_map r' = (item_map r)(k \<mapsto> l)" "\<And>d. d \<noteq> [] \<Longrightarrow> sums m' d = sums m d @ (if dg l = d then [k] else [])"
  shows "sums_ok dg m' r'"
  unfolding sums_ok_item_map [OF assms(3)]
proof (intro allI impI conjI)
  fix d :: digest assume d: "d \<noteq> []"
  have dd: "distinct (sums m d)" and ss: "set (sums m d) = {k. \<exists>l. item_map r k = Some l \<and> dg l = d}"
    using assms(1) d unfolding sums_ok_item_map [OF assms(2)] by blast+
  have "k \<notin> set (sums m d)" using ss assms(4) by auto
  then show "distinct (sums m' d)" using dd by (auto simp: assms(6) [OF d])
  show "set (sums m' d) = {k. \<exists>l. item_map r' k = Some l \<and> dg l = d}"
    using ss assms(4) by (auto simp: assms(6) [OF d] assms(5))
qed

lemma ls_ok_insert:
  assumes "ls_ok u r" "byid r k = None" "l_ID l = k" "l_Names l = ns" "distinct ns" "\<forall>n \<in> set ns. byname r n = None"
    "\<And>d. d \<noteq> [] \<Longrightarrow> sums cm d = sums (bycompressedsum r) d @ (if l_CompressedDigest l = d then [k] else [])"
    "\<And>d. u \<Longrightarrow> d \<noteq> [] \<Longrightarrow> sums um d = sums (byuncompressedsum r) d @ (if l_UncompressedDigest l = d then [k] else [])"
  shows "ls_ok u ((insert_item k ns l r)\<lparr>bycompressedsum := cm, byuncompressedsum := um\<rparr>)"
proof -
  have s: "store_ok l_ID l_Names r" using assms(1) by (rule ls_okD)
  have s1: "store_ok l_ID l_Names (insert_item k ns l r)" by (rule ls.store_ok_insert_item [OF s assms(2-6)])
  have kN: "item_map r k = None" using assms(2) by (simp add: item_map_def)
  note ins = sums_ok_insert [OF _ s s1 kN ls.item_map_insert_item [OF s]]
  have "bymount (insert_item k ns l r) = bymount r" "length (objs (insert_item k ns l r)) = Suc (length (objs r))"
    by (simp_all add: insert_item_def Let_def)
  then show ?thesis
    using assms(1,7,8) s1 ins [where dg = l_CompressedDigest and m' = cm] ins [where dg = l_UncompressedDigest and m' = um]
    by (auto simp: ls_ok_def less_SucI)
qed

section \<open>The other operations\<close>

lemma keeps_update:
  assumes "\<And>l. l_ID (f l) = l_ID l" "\<And>l. l_Names (f l) = l_Names l"
    "\<And>l. l_CompressedDigest (f l) = l_CompressedDigest l" "\<And>l. l_UncompressedDigest (f l) = l_UncompressedDigest l"
  shows "keeps_ok u (ls_update ident f)"
proof (rule keepsI2)
  fix s :: "layerStore \<times> 'd env" assume ok: "ls_ok u (fst s)"
  have "ls_ok u (update_obj x f (fst s))" for x by (rule ls_ok_update_obj [OF ok]) (simp_all add: assms)
  then show "ls_ok u (fst (snd (ls_update ident f s)))"
    using ok keeps_snd [OF keeps_Save, of u "(update_obj x f (fst s), snd s)" for x]
    by (simp add: ls_update_def split: option.splits)
qed

lemma keeps_setters [keeps_rules]:
  "keeps_ok u (ls_ClearFlag ident flag)" "keeps_ok u (ls_SetFlag ident flag v)" "keeps_ok u (ls_SetMetadata ident md)"
  unfolding ls_ClearFlag_def ls_SetFlag_def ls_SetMetadata_def by (rule keeps_update; simp)+

lemma ls_ok_set_names:
  assumes "ls_ok u r" "x \<in> set (items r)" "distinct names"
  shows "ls_ok u (set_names l_Names l_Names_update (\<lambda>_ c. c) names x r)" (is "ls_ok u ?r")
proof -
  have s: "store_ok l_ID l_Names r" using assms(1) by (rule ls_okD)
  note spec = ls.set_names_spec [where mark = "\<lambda>_ c. c", OF s assms(2,3) refl refl]
  obtain os bn where r: "?r = r\<lparr>objs := os, byname := bn\<rparr>" "length os = length (objs r)" using spec(3) by blast
  have "l_ID (os ! y) = l_ID (objs r ! y) \<and> l_CompressedDigest (os ! y) = l_CompressedDigest (objs r ! y) \<and>
      l_UncompressedDigest (os ! y) = l_UncompressedDigest (objs r ! y)" if y: "y \<in> set (items r)" for y
    using spec(4) [OF y] by (simp add: r ls.fold_ignore split: if_splits)
  then have "sums_ok l_CompressedDigest m r \<Longrightarrow> sums_ok l_CompressedDigest m ?r"
    "sums_ok l_UncompressedDigest m r \<Longrightarrow> sums_ok l_UncompressedDigest m ?r" for m
    by (simp_all add: sums_ok_def r)
  then show ?thesis using spec(1) assms(1) by (simp add: ls_ok_def r)
qed

lemma keeps_SetNames [keeps_rules]: "keeps_ok u (ls_SetNames ident names)"
proof (rule keepsI2)
  fix s :: "layerStore \<times> 'd env" assume ok: "ls_ok u (fst s)"
  have "ls_ok u (set_names l_Names l_Names_update (\<lambda>_ c. c) (dedupeNames names) x (fst s))"
    if "ls_lookup (fst s) ident = Some x" for x
    by (rule ls_ok_set_names [OF ok ls_lookup_item(1) [OF ok that]]) simp
  then show "ls_ok u (fst (snd (ls_SetNames ident names s)))"
    using ok by (auto simp: ls_SetNames_def split: option.splits intro!: keeps_snd [OF keeps_Save, simplified])
qed

lemma keeps_SetBigData [keeps_rules]: "keeps_ok u (ls_SetBigData ident key data)"
proof (rule keepsI2)
  fix s :: "layerStore \<times> 'd env" assume ok: "ls_ok u (fst s)"
  have "keeps_ok u (on_layers (update_obj x (\<lambda>l. l\<lparr>l_BigDataNames := l_BigDataNames l @ [key]\<rparr>)))" for x
    by (intro keeps_on_layers ls_ok_update_obj) simp_all
  then have "keeps_ok u (bind (on_world m) (\<lambda>_. bind (on_world m') (\<lambda>_. if c then ret ()
      else bind (on_layers (update_obj x (\<lambda>l. l\<lparr>l_BigDataNames := l_BigDataNames l @ [key]\<rparr>))) (\<lambda>_. ls_Save))))"
    for m m' c x
    by (auto intro!: keeps_rules)
  from keeps_snd [OF this ok] show "ls_ok u (fst (snd (ls_SetBigData ident key data s)))"
    unfolding ls_SetBigData_def Let_def by (intro ok_split ok)
qed

lemma keeps_Mounted [keeps_rules]: "keeps_ok u (ls_Mounted ident)"
proof -
  have "keeps_ok u (\<lambda>s. case ls_lookup (fst s) ident of None \<Rightarrow> (Inl ErrLayerUnknown, s)
      | Some x \<Rightarrow> (Inr (l_MountCount (objs (fst s) ! x)), s))"
    by (rule keepsI2) (simp split: option.splits)
  then have k: "keeps_ok u (with_mounts RLock (bind ls_refresh_mounts (\<lambda>_ s. case ls_lookup (fst s) ident of
        None \<Rightarrow> (Inl ErrLayerUnknown, s) | Some x \<Rightarrow> (Inr (l_MountCount (objs (fst s) ! x)), s))))"
    by (intro keeps_rules)
  show ?thesis by (rule keepsI2) (simp add: ls_Mounted_def keeps_snd [OF k])
qed

lemma keeps_mount_updates [keeps_rules]:
  "keeps_ok u (on_layers (update_obj x (\<lambda>l. l\<lparr>l_MountCount := n l\<rparr>)))"
  "keeps_ok u (on_layers (update_obj x (\<lambda>l. if b then l\<lparr>l_MountCount := n l\<rparr> else l)))"
  by (intro keeps_on_layers ls_ok_mount_update; simp)+

lemma ls_ok_bymount_update:
  assumes "ls_ok u r" "ls_ok u (update_obj x f r)" "x < length (objs r)"
  shows "ls_ok u ((update_obj x f r)\<lparr>bymount := (if p \<noteq> [] then (bymount r)(p := None) else bymount r)(q \<mapsto> x)\<rparr>)"
    and "ls_ok u ((update_obj x f r)\<lparr>bymount := (if p \<noteq> [] then (bymount r)(p := None) else bymount r)\<rparr>)"
proof -
  have b: "y < length (objs (update_obj x f r))" if "y \<in> ran (if p \<noteq> [] then (bymount r)(p := None) else bymount r)" for y
    using that ls_ok_byid [OF assms(1)] by (auto dest: ran_delete_subset split: if_splits)
  then show "ls_ok u ((update_obj x f r)\<lparr>bymount := (if p \<noteq> [] then (bymount r)(p := None) else bymount r)\<rparr>)"
    by (rule ls_ok_bymount [OF assms(2)])
  show "ls_ok u ((update_obj x f r)\<lparr>bymount := (if p \<noteq> [] then (bymount r)(p := None) else bymount r)(q \<mapsto> x)\<rparr>)"
    by (rule ls_ok_bymount [OF assms(2)]) (use b assms(3) in \<open>auto dest!: ran_upd_cases\<close>)
qed

lemma ok_mounted_at:
  assumes "ls_ok u (fst s)" "x < length (objs (fst s))"
  shows "ls_ok u (fst (snd (ls_mounted_at x old mp s)))"
proof -
  have "keeps_ok u (bind ls_saveMounts (\<lambda>_. ret mp))" by (intro keeps_rules)
  then show ?thesis
    unfolding ls_mounted_at_def
    by (intro bind_on_layers ls_ok_bymount_update(1) [OF assms(1) ls_ok_mount_update(1) [OF assms(1)] assms(2)])
qed

lemma ok_mount_layer:
  assumes "ls_ok u (fst s)" "x < length (objs (fst s))"
  shows "ls_ok u (fst (snd (ls_mount_layer drv ident options x s)))"
proof -
  have "ls_ok u (fst (snd ((if mp = [] then ret mp else ls_mounted_at x old mp) s')))" if "fst s' = fst s" for s' :: "layerStore \<times> 'a env" and mp old
    using that assms ok_mounted_at [of u s' x old mp] by (cases "mp = []") simp_all
  then show ?thesis
    unfolding ls_mount_layer_def Let_def
    by (intro ok_split assms(1) bind_same_store [where P = "ls_ok u"] same_store_rules)
qed

lemma keeps_mount_again [keeps_rules]: "keeps_ok u (ls_mount_again x p)"
  unfolding ls_mount_again_def by (intro keeps_rules)

lemma keeps_mount_found [keeps_rules]: "keeps_ok u (ls_mount_found drv ident options)"
proof (rule keepsI2)
  fix s :: "layerStore \<times> 'a env" assume ok: "ls_ok u (fst s)"
  have "ls_ok u (fst (snd ((if b then ls_mount_again x p else ls_mount_layer drv ident options x) s')))"
    if "ls_lookup (fst s) ident = Some x" "fst s' = fst s" for x b p and s' :: "layerStore \<times> 'a env"
    using that ls_lookup_item(3) [OF ok that(1)] ok ok_mount_layer [of u s' x] keeps_snd [OF keeps_mount_again, of u s' x p]
    by (cases b) simp_all
  then show "ls_ok u (fst (snd (ls_mount_found drv ident options s)))"
    unfolding ls_mount_found_def Let_def
    by (intro ok_split ok bind_same_store [where P = "ls_ok u"] same_store_rules ok_mount_layer ls_lookup_item(3) [OF ok])
qed

lemma keeps_Mount [keeps_rules]: "keeps_ok u (ls_Mount drv ident options)"
proof -
  have k: "keeps_ok u (with_mounts Lock (bind ls_refresh_mounts (\<lambda>_.
             deferred (on_mounts_lock Touch) (ls_mount_found drv ident options))))"
    by (intro keeps_rules)
  show ?thesis unfolding ls_Mount_def by (rule keepsI2, intro ok_split keeps_snd [OF k])
qed

lemma ls_find_mounted_length:
  assumes "ls_ok u r" "ls_find_mounted r ident = Some x"
  shows "x < length (objs r)"
  using assms ls_lookup_item(3) [OF assms(1)] ls_ok_byid [OF assms(1)]
  by (auto simp: ls_find_mounted_def ran_def split: option.splits)

lemma ok_unmount_layer:
  assumes "ls_ok u (fst s)" "x < length (objs (fst s))"
  shows "ls_ok u (fst (snd (ls_unmount_layer drv ident x s)))"
proof -
  let ?up = "bind (on_layers (update_obj x (\<lambda>l. l\<lparr>l_MountCount := l_MountCount l - 1\<rparr>))) (\<lambda>_. bind ls_saveMounts (\<lambda>_. ret True))"
  have up: "keeps_ok u ?up" by (intro keeps_rules)
  have ret: "keeps_ok u (bind ls_saveMounts (\<lambda>_. ret False))" by (intro keeps_rules)
  have un: "ls_ok u (fst (snd (ls_unmounted x mp s')))" if "fst s' = fst s" for s' :: "layerStore \<times> 'a env" and mp
    unfolding ls_unmounted_def using that assms
    by (intro bind_on_layers ret ls_ok_bymount_update(2) ls_ok_mount_update(3)) simp_all
  have "ls_ok u (fst (snd ((if res = Inr () \<or> res = Inl NotExist then ls_unmounted x mp
             else case res of Inl e \<Rightarrow> fail e | Inr _ \<Rightarrow> ret True) s')))"
    if "fst s' = fst s" for s' :: "layerStore \<times> 'a env" and mp res
    using un [OF that] that assms(1) by (cases res) simp_all
  then show ?thesis
    unfolding ls_unmount_layer_def Let_def
    by (intro ok_split keeps_snd [OF up] assms(1) bind_same_store [where P = "ls_ok u"] same_store_rules)
qed

lemma keeps_unmount_found [keeps_rules]: "keeps_ok u (ls_unmount_found drv ident force)"
proof (rule keepsI2)
  fix s :: "layerStore \<times> 'a env" assume ok: "ls_ok u (fst s)"
  have "ls_ok u (fst (snd (bind (on_layers (update_obj x (\<lambda>l. if force then l\<lparr>l_MountCount := 1\<rparr> else l)))
            (\<lambda>_. ls_unmount_layer drv ident x) s)))" if "ls_find_mounted (fst s) ident = Some x" for x
    using ok_unmount_layer [of u "(update_obj x (\<lambda>l. if force then l\<lparr>l_MountCount := 1\<rparr> else l) (fst s), snd s)" x]
      ls_ok_mount_update(4) [OF ok] ls_find_mounted_length [OF ok that]
    by (simp add: bind_def on_layers_def modify_def)
  then show "ls_ok u (fst (snd (ls_unmount_found drv ident force s)))"
    unfolding ls_unmount_found_def by (intro ok_split ok)
qed

lemma keeps_Unmount [keeps_rules]: "keeps_ok u (ls_Unmount drv ident force)"
proof -
  have k: "keeps_ok u (with_mounts Lock (bind ls_refresh_mounts (\<lambda>_.
             deferred (on_mounts_lock Touch) (ls_unmount_found drv ident force))))"
    by (intro keeps_rules)
  show ?thesis unfolding ls_Unmount_def by (rule keepsI2, intro ok_split keeps_snd [OF k])
qed

lemma keeps_unmount_all [keeps_rules]: "keeps_ok u (ls_unmount_all drv ident n c)"
  by (induction n arbitrary: c) (auto intro!: keeps_rules)

lemma keeps_Delete [keeps_rules]: "keeps_ok u (ls_Delete drv ident)"
proof (rule keepsI2)
  fix s :: "layerStore \<times> 'a env" assume ok: "ls_ok u (fst s)"
  have "keeps_ok u (bind (ls_Mounted k) (\<lambda>c. bind (ls_unmount_all drv k n c) (\<lambda>_. bind (ls_deleteInternal drv k) (\<lambda>_. ls_Save))))" for k n
    by (intro keeps_rules)
  from keeps_snd [OF this ok] show "ls_ok u (fst (snd (ls_Delete drv ident s)))"
    unfolding ls_Delete_def Let_def by (intro ok_split ok)
qed

lemma keeps_delete_all [keeps_rules]: "keeps_ok u (ls_delete_all drv ks)"
proof (induction ks)
  case Nil
  show ?case unfolding ls_delete_all.simps by (rule keeps_ret)
next
  case (Cons k ks)
  then show ?case unfolding ls_delete_all.simps by (intro keeps_rules)
qed

lemma keeps_Wipe [keeps_rules]: "keeps_ok u (ls_Wipe drv ks)"
  unfolding ls_Wipe_def by (rule keepsI2, intro ok_split keeps_snd [OF keeps_delete_all])

lemma keeps_applyDiff [keeps_rules]: "keeps_ok u (ls_applyDiffWithOptions drv dl to lo diff)"
proof (rule keepsI2)
  fix s :: "layerStore \<times> 'a env" assume ok: "ls_ok u (fst s)"
  have sv: "keeps_ok u (bind ls_Save (\<lambda>_. ret sz))" for sz :: int by (intro keeps_rules)
  have rec: "ls_ok u (fst (snd (bind (on_layers (record_diff x cd csz ud usz cty us gs)) (\<lambda>_. bind ls_Save (\<lambda>_. ret sz)) s')))"
    if "ls_lookup (fst s) to = Some x" "fst s' = fst s"
    for x cd csz ud usz cty us gs and sz :: int and s' :: "layerStore \<times> 'a env"
    by (intro bind_on_layers sv) (use that ok ls_ok_record_diff ls_lookup_item(1) [OF ok that(1)] in simp)
  have body: "ls_ok u (fst (snd ((case dec of Inl e \<Rightarrow> fail e
      | Inr tar \<Rightarrow> bind (on_driver (ad tar)) (\<lambda>sz. bind (on_world (MkdirAll p)) (\<lambda>_. bind (on_world (AtomicWriteFile q (c tar))) (\<lambda>_.
          bind (on_layers (record_diff x cd (csz tar) (ud tar) (usz tar) cty (us tar) (gs tar))) (\<lambda>_. bind ls_Save (\<lambda>_. ret sz)))))) s')))"
    if "ls_lookup (fst s) to = Some x" "fst s' = fst s"
    for x cd csz ud usz cty us gs p q c dec and ad :: "bytes \<Rightarrow> ('a, int) go" and s' :: "layerStore \<times> 'a env"
  proof (cases dec)
    case (Inr tar)
    show ?thesis
      unfolding Inr sum.case
      by ((rule bind_same_store [where P = "ls_ok u"], rule same_store_rules, simp add: that ok)+,
          rule rec [OF that(1)], simp add: that)
  qed (simp add: that ok)
  show "ls_ok u (fst (snd (ls_applyDiffWithOptions drv dl to lo diff s)))"
    unfolding ls_applyDiffWithOptions_def Let_def
    by (intro ok_split ok bind_same_store [where P = "ls_ok u"] same_store_rules body)
qed

lemma keeps_save_or_remove [keeps_rules]: "keeps_ok u (ls_save_or_remove drv k)"
proof -
  have "keeps_ok u (case res of Inr _ \<Rightarrow> ret ()
       | Inl e \<Rightarrow> bind (ignoring (on_driver (drv_Remove drv k))) (\<lambda>_. fail e))" for res :: "gerr + unit"
  proof (cases res)
    case (Inl e)
    show ?thesis unfolding Inl sum.case by (intro keeps_rules)
  next
    case (Inr x)
    show ?thesis unfolding Inr sum.case by (intro keeps_rules)
  qed
  then show ?thesis unfolding ls_save_or_remove_def by (intro keeps_rules)
qed

lemma keeps_put_finish [keeps_rules]: "keeps_ok u (ls_put_finish drv k x sz)"
proof -
  have "keeps_ok u (\<lambda>s. (Inr (copyLayer (objs (fst s) ! x), sz), s))" by (simp add: keeps_def)
  then show ?thesis unfolding ls_put_finish_def by (intro keeps_rules)
qed

lemma ok_put_record:
  assumes ok: "ls_ok u (fst s)" and new: "byid (fst s) k = None" "distinct names" "\<forall>n \<in> set names. byname (fst s) n = None"
  shows "ls_ok u (fst (snd (ls_put_record drv dl k parent names mountLabel mo flags diff s)))"
proof -
  have flag: "keeps_ok u (on_layers (update_obj x (l_Flags_update (\<lambda>fl. fl(incompleteFlag := None)))))" for x
    by (intro keeps_on_layers ls_ok_update_obj) simp_all
  have k: "keeps_ok u (case diff of
             None \<Rightarrow> ls_put_finish drv k x (-1)
           | Some b \<Rightarrow>
               bind (ls_save_or_remove drv k) (\<lambda>_.
               bind (attempt (ls_applyDiffWithOptions drv dl k (Some mo) b)) (\<lambda>res.
                 case res of
                   Inl e \<Rightarrow> bind (ignoring (ls_Delete drv k)) (\<lambda>_. fail e)
                 | Inr sz \<Rightarrow>
                     bind (on_layers (update_obj x (l_Flags_update (\<lambda>fl. fl(incompleteFlag := None))))) (\<lambda>_.
                       ls_put_finish drv k x sz))))" for x
  proof (cases diff)
    case (Some b)
    have "keeps_ok u (case res of Inl e \<Rightarrow> bind (ignoring (ls_Delete drv k)) (\<lambda>_. fail e)
                 | Inr sz \<Rightarrow> bind (on_layers (update_obj x (l_Flags_update (\<lambda>fl. fl(incompleteFlag := None))))) (\<lambda>_.
                       ls_put_finish drv k x sz))" for res :: "gerr + int"
      by (cases res) (auto intro!: keeps_rules flag simp del: fail_apply)
    then show ?thesis unfolding Some option.case by (intro keeps_rules)
  qed (simp add: keeps_put_finish)
  have ins: "ls_ok u (insert_item k names l (fst s))"
    if "l = new_layer k parent names mountLabel t fl mo" for l t fl
    using ls_ok_insert [OF ok new(1) _ _ new(2,3), of l "bycompressedsum (fst s)" "byuncompressedsum (fst s)"]
    by (simp add: that new_layer_def insert_item_def Let_def)
  show ?thesis
    unfolding ls_put_record_def Let_def by (intro bind_on_layers ins [OF refl] k)
qed

lemma ok_put_new:
  assumes ok: "ls_ok u (fst s)"
  shows "ls_ok u (fst (snd (ls_put_new drv dl k parentLayer names mountLabel options mo writeable flags diff s)))"
proof -
  have chown: "same_store (if c then bind (attempt (on_driver m)) (\<lambda>res. case res of Inr _ \<Rightarrow> ret ()
      | Inl e \<Rightarrow> bind (ignoring (on_driver m')) (\<lambda>_. fail e)) else ret ())"
    for c and m :: "('a, unit) go" and m' :: "('a, unit) go"
  proof -
    have "same_store (case res of Inr _ \<Rightarrow> ret () | Inl e \<Rightarrow> bind (ignoring (on_driver m')) (\<lambda>_. fail e))" for res :: "gerr + unit"
      by (cases res) (simp_all only: sum.case same_store_rules)
    then show ?thesis by (cases c) (simp_all only: if_True if_False same_store_rules)
  qed
  have rec: "ls_ok u (fst (snd (ls_put_record drv dl k parent (dedupeNames names) mountLabel mo flags diff s')))"
    if "byid (fst s) k = None" "\<not> list_ex (\<lambda>n. byname (fst s) n \<noteq> None) (dedupeNames names)" "fst s' = fst s" for parent s'
    using that ok by (intro ok_put_record) (simp_all add: list_ex_iff)
  show ?thesis
    unfolding ls_put_new_def Let_def
    by (intro ok_split(1) ok_split(3) ok;
        ((rule bind_same_store [where P = "ls_ok u"], (rule chown | rule same_store_rules), simp add: ok)+,
         rule rec)) simp_all
qed

lemma keeps_Put [keeps_rules]:
  "keeps_ok u (ls_Put drv dl ident parentLayer names mountLabel options mo writeable flags diff)"
proof (rule keepsI2)
  fix s :: "layerStore \<times> 'a env" assume ok: "ls_ok u (fst s)"
  show "ls_ok u (fst (snd (ls_Put drv dl ident parentLayer names mountLabel options mo writeable flags diff s)))"
    unfolding ls_Put_def
    by (intro ok_split ok;
        ((rule bind_same_store [where P = "ls_ok u"], rule same_store_rules, simp add: ok)+, rule ok_put_new, simp add: ok))
qed

lemma keeps_CreateWithFlags [keeps_rules]:
  "keeps_ok u (ls_CreateWithFlags drv dl ident parent names mountLabel options mo writeable flags)"
  unfolding ls_CreateWithFlags_def by (intro keeps_bind keeps_Put) (auto simp: keeps_def split: prod.splits)

text \<open>
  \<open>PutAdditionalLayer\<close> keeps the invariant only if no names are involved, and the map of
  uncompressed digests only if the layer has no uncompressed digest.
\<close>

lemma ls_ok_enter_additional:
  assumes "ls_ok u r" "byid r k = None" "l_ID l = k" "l_Names l = []" "u \<longrightarrow> l_UncompressedDigest l = []"
  shows "ls_ok u (enter_additional k [] l r)"
  unfolding enter_additional_def Let_def
  by (rule ls_ok_insert) (use assms in \<open>auto simp: sums_def\<close>)

lemma keeps_PutAdditionalLayer:
  assumes "\<And>info. al_Info aLayer = Inr info \<Longrightarrow> l_Names info = [] \<and> (u \<longrightarrow> l_UncompressedDigest info = [])"
  shows "keeps_ok u (ls_PutAdditionalLayer drv ident parentLayer [] aLayer)"
proof (rule keepsI2)
  fix s :: "layerStore \<times> 'a env" assume ok: "ls_ok u (fst s)"
  have fin: "keeps_ok u (bind (ls_save_or_remove drv ident) (\<lambda>_. ret l))" for l :: Layer by (intro keeps_rules)
  have ins: "ls_ok u (fst (snd (bind (on_layers (enter_additional ident [] l)) (\<lambda>_. bind (ls_save_or_remove drv ident) (\<lambda>_. ret l')) s')))"
    if "byid (fst s) ident = None" "fst s' = fst s" "l_ID l = ident" "l_Names l = []" "u \<longrightarrow> l_UncompressedDigest l = []"
    for l and l' :: Layer and s' :: "layerStore \<times> 'a env"
    by (rule bind_on_layers [OF _ fin]) (use that ok ls_ok_enter_additional in simp)
  show "ls_ok u (fst (snd (ls_PutAdditionalLayer drv ident parentLayer [] aLayer s)))"
  proof (cases "al_Info aLayer")
    case (Inr info)
    note info = assms [OF Inr]
    show ?thesis
      unfolding ls_PutAdditionalLayer_def Let_def Inr sum.case
      by (intro ok_split(1) ok_split(3) ok;
          (rule bind_same_store [where P = "ls_ok u"], rule same_store_rules, simp add: ok, rule ins)) (simp_all add: info)
  qed (use ok in \<open>simp add: ls_PutAdditionalLayer_def\<close>)
qed

lemma keeps_set_items [keeps_rules]: "keeps_ok u (ls_set_items drv ident kvs)"
proof (induction kvs)
  case Nil
  show ?case unfolding ls_set_items.simps by (rule keeps_ret)
next
  case (Cons kv kvs)
  obtain k v where kv: "kv = (k, v)" by (rule prod.exhaust)
  have "keeps_ok u (case res of Inr _ \<Rightarrow> ls_set_items drv ident kvs
       | Inl e \<Rightarrow> bind (ignoring (ls_Delete drv ident)) (\<lambda>_. fail e))" for res :: "gerr + unit"
  proof (cases res)
    case (Inl e)
    show ?thesis unfolding Inl sum.case by (intro keeps_rules)
  qed (simp add: Cons.IH)
  then show ?case unfolding kv ls_set_items.simps by (intro keeps_rules)
qed

lemma keeps_ApplyDiffFromStagingDirectory:
  "keeps_ok False (ls_ApplyDiffFromStagingDirectory drv ident dir out options)"
proof (rule keepsI2)
  fix s :: "layerStore \<times> 'a env" assume ok: "ls_ok False (fst s)"
  have up: "keeps_ok False (on_layers (update_obj x (\<lambda>l. l\<lparr>l_UIDs := a, l_GIDs := b, l_UncompressedDigest := c,
      l_UncompressedSize := d, l_Metadata := e\<rparr>)))" for x a b c d e
    by (intro keeps_on_layers ls_ok_update_obj) simp_all
  have "keeps_ok False (bind (on_driver m) (\<lambda>_. bind (on_layers (update_obj x (\<lambda>l. l\<lparr>l_UIDs := a, l_GIDs := b,
      l_UncompressedDigest := c, l_UncompressedSize := d, l_Metadata := e\<rparr>))) (\<lambda>_.
      bind ls_Save (\<lambda>_. ls_set_items drv ident kvs))))" for m x a b c d e kvs
    by (intro keeps_rules up)
  from keeps_snd [OF this ok]
  show "ls_ok False (fst (snd (ls_ApplyDiffFromStagingDirectory drv ident dir out options s)))"
    unfolding ls_ApplyDiffFromStagingDirectory_def Let_def by (intro ok_split ok)
qed

lemma keeps_ApplyDiffWithDiffer [keeps_rules]: "keeps_ok u (ls_ApplyDiffWithDiffer drv to options differ)"
proof (rule keepsI2)
  fix s :: "layerStore \<times> 'a env" assume ok: "ls_ok u (fst s)"
  have up: "keeps_ok u (on_layers (update_obj x (\<lambda>l. l\<lparr>l_UIDs := f out, l_GIDs := g out\<rparr>)))" for x f g and out :: DriverWithDifferOutput
    by (intro keeps_on_layers ls_ok_update_obj) simp_all
  have k: "keeps_ok u (bind (on_driver m) (\<lambda>out. bind (on_layers (update_obj x (\<lambda>l. l\<lparr>l_UIDs := do_UIDs out, l_GIDs := do_GIDs out\<rparr>))) (\<lambda>_.
      bind ls_Save (\<lambda>_. ret out))))" for m x
    by (intro keeps_rules up)
  show "ls_ok u (fst (snd (ls_ApplyDiffWithDiffer drv to options differ s)))"
    unfolding ls_ApplyDiffWithDiffer_def Let_def
    by (intro ok_split ok keeps_snd [OF k] keeps_snd [OF keeps_on_driver [where Q = "ls_ok u"]])
qed

section \<open>Reloading\<close>

lemma openLock_fs:
  "openLock p w = (res, w') \<Longrightarrow> fs w' q = fs w q \<or> fs w' q = Some (Bytes [])"
proof (induction p w arbitrary: res w' rule: openLock.induct)
  case (1 p w)
  show ?case
  proof (cases "\<exists>fl. faults w = Some NotExist # fl")
    case True
    then obtain fl where fl: "faults w = Some NotExist # fl" by blast
    obtain r1 w1 where m: "MkdirAll (butlast p) (w\<lparr>faults := fl\<rparr>) = (r1, w1)" by (rule prod.exhaust)
    have f: "fs w1 = fs w" using MkdirAll_fs [of "butlast p" "w\<lparr>faults := fl\<rparr>"] by (simp add: m)
    show ?thesis
    proof (cases r1)
      case (Inl e)
      then show ?thesis using "1.prems" fl m f by (simp add: openLock.simps [of p w])
    next
      case (Inr x)
      then have "openLock p w1 = (res, w')" using "1.prems" fl m by (simp add: openLock.simps [of p w])
      from "1.IH" [OF fl refl refl m [symmetric] Inr this] show ?thesis by (simp add: f)
    qed
  next
    case False
    then show ?thesis
      using "1.prems" by (auto simp: openLock.simps [of p w] io_call_def Let_def split: list.splits option.splits gerr.splits)
  qed
qed

text \<open>Lock operations that at most create an empty lock file.\<close>

definition quiet_lock :: "(lockfile \<times> world, 'a) go \<Rightarrow> bool" where
  "quiet_lock m \<longleftrightarrow> (\<forall>l w x l' w' q. m (l, w) = (x, l', w') \<longrightarrow> fs w' q = fs w q \<or> fs w' q = Some (Bytes []))"

lemma quiet_locks: "quiet_lock RLock" "quiet_lock Modified" "quiet_lock (on_fst Unlock)"
proof -
  show "quiet_lock RLock"
    unfolding quiet_lock_def
  proof (intro allI impI)
    fix l w and x :: "gerr + unit" and l' w' q
    assume run: "RLock (l, w) = (x, l', w')"
    obtain y l1 where a: "rw_acquire F_RDLCK False l = (y, l1)" by (rule prod.exhaust)
    obtain z w1 where o: "(if counter l1 = 0 then openLock (lk_file l1) w else (Inr (), w)) = (z, w1)" by (rule prod.exhaust)
    have "fs w1 q = fs w q \<or> fs w1 q = Some (Bytes [])"
      using o openLock_fs [of "lk_file l1" w z w1 q] by (auto split: if_splits)
    moreover have "w' = w \<or> w' = w1"
      using run [unfolded RLock_def lk_lock_def fst_conv snd_conv a prod.case o] by (cases y; cases z) auto
    ultimately show "fs w' q = fs w q \<or> fs w' q = Some (Bytes [])" by auto
  qed
  show "quiet_lock Modified"
    unfolding quiet_lock_def
  proof (intro allI impI)
    fix l w and x :: "gerr + bool" and l' w' q
    assume "Modified (l, w) = (x, l', w')"
    then have "fs w' = fs w"
      by (cases w rule: io_call_cases) (auto simp: Modified_def Let_def split: if_splits)
    then show "fs w' q = fs w q \<or> fs w' q = Some (Bytes [])" by simp
  qed
  show "quiet_lock (on_fst Unlock)"
    by (auto simp: quiet_lock_def on_fst_def split: prod.splits)
qed

lemma decode_empty [simp]: "decode_layers (Bytes []) = Some []"
  by (simp add: decode_layers_def)

lemma disk_ok_quiet:
  assumes "disk_ok s" "ls_layerdir (fst s') = ls_layerdir (fst s)"
    "\<And>q. fs (wld (snd s')) q = fs (wld (snd s)) q \<or> fs (wld (snd s')) q = Some (Bytes [])"
  shows "disk_ok s'"
proof -
  have p: "ls_layerspath (fst s') = ls_layerspath (fst s)" using assms(2) by (simp add: ls_layerspath_def)
  show ?thesis
    using assms(1) assms(3) [of "ls_layerspath (fst s)"] unfolding disk_ok_def p by auto
qed

lemma keeps_disk_lock:
  assumes "quiet_lock m"
  shows "keeps disk_ok (on_lock m)" and "keeps disk_ok (on_mounts_lock m)"
proof -
  have q: "m (l, w) = (x, l', w') \<Longrightarrow> fs w' q = fs w q \<or> fs w' q = Some (Bytes [])" for l w x l' w' q
    using assms by (simp add: quiet_lock_def)
  show "keeps disk_ok (on_lock m)"
    by (rule keepsI, erule disk_ok_quiet) (auto simp: on_lock_def split: prod.splits dest: q)
  show "keeps disk_ok (on_mounts_lock m)"
    by (rule keepsI, erule disk_ok_quiet) (auto simp: on_mounts_lock_def split: prod.splits option.splits dest: q)
qed

lemma Stat_fs: "Stat p w = (x, w') \<Longrightarrow> fs w' = fs w"
  by (cases w rule: io_call_cases) (auto simp: Stat_def split: option.splits)

lemma ls_Modified_keeps:
  assumes "\<And>m :: (lockfile \<times> world, unit) go. quiet_lock m \<Longrightarrow> keeps P (on_mounts_lock m)"
    "\<And>m :: (lockfile \<times> world, bool) go. quiet_lock m \<Longrightarrow> keeps P (on_lock m)"
    "\<And>m :: (lockfile \<times> world, bool) go. quiet_lock m \<Longrightarrow> keeps P (on_mounts_lock m)"
    "\<And>p. keeps P (on_world (Stat p))" "\<And>s t. P s \<Longrightarrow> P ((fst s)\<lparr>ls_layerspathModified := t\<rparr>, snd s)"
  shows "keeps P ls_Modified"
proof -
  define rest :: "bool \<Rightarrow> bool \<Rightarrow> ('a, bool) lop" where "rest lm mm = (if lm \<or> mm then ret True
      else (\<lambda>s. case on_world (Stat (ls_layerspath (fst s))) s of
                     (Inl e, s1) \<Rightarrow> if e \<noteq> NotExist then (Inl e, s1) else (Inr False, s1)
                   | (Inr t, s1) \<Rightarrow> (Inr (t \<noteq> ls_layerspathModified (fst s1)),
                                     ((fst s1)\<lparr>ls_layerspathModified := t\<rparr>, snd s1))))" for lm mm
  have stat: "keeps P (\<lambda>s. case on_world (Stat (ls_layerspath (fst s))) s of
                     (Inl e, s1) \<Rightarrow> if e \<noteq> NotExist then (Inl e, s1) else (Inr False, s1)
                   | (Inr t, s1) \<Rightarrow> (Inr (t \<noteq> ls_layerspathModified (fst s1)),
                                     ((fst s1)\<lparr>ls_layerspathModified := t\<rparr>, snd s1)))"
  proof (rule keepsI2)
    fix s :: "layerStore \<times> 'a env" assume "P s"
    obtain x s1 where st: "on_world (Stat (ls_layerspath (fst s))) s = (x, s1)" by (rule prod.exhaust)
    have "P s1" by (rule keepsD [OF assms(4) \<open>P s\<close> st])
    then show "P (snd (case on_world (Stat (ls_layerspath (fst s))) s of
                     (Inl e, s1) \<Rightarrow> if e \<noteq> NotExist then (Inl e, s1) else (Inr False, s1)
                   | (Inr t, s1) \<Rightarrow> (Inr (t \<noteq> ls_layerspathModified (fst s1)),
                                     ((fst s1)\<lparr>ls_layerspathModified := t\<rparr>, snd s1))))"
      using assms(5) unfolding st by (cases x) simp_all
  qed
  have rest: "keeps P (rest lm mm)" for lm mm
    unfolding rest_def using stat by (cases "lm \<or> mm") (simp_all only: if_True if_False keeps_ret simp_thms)
  have locked: "keeps P (with_mounts RLock (bind (on_mounts_lock Modified) (rest lm)))" for lm
    unfolding with_mounts_def by (intro keeps_rules rest assms(1,3) quiet_locks)
  have "keeps P (\<lambda>s. if ls_IsReadWrite (fst s) then with_mounts RLock (bind (on_mounts_lock Modified) (rest lm)) s
           else rest lm False s)" for lm
    using locked [of lm] rest [of lm False] by (simp add: keeps_def)
  then have "keeps P (bind (on_lock Modified) (\<lambda>lm s. if ls_IsReadWrite (fst s)
      then with_mounts RLock (bind (on_mounts_lock Modified) (rest lm)) s else rest lm False s))"
    by (intro keeps_bind assms(2) quiet_locks)
  then show ?thesis unfolding ls_Modified_def Let_def rest_def .
qed

lemma keeps_Modified [keeps_rules]: "keeps_ok u ls_Modified"
  by (rule ls_Modified_keeps) (auto intro: keeps_rules)

lemma keeps_disk_Modified: "keeps disk_ok ls_Modified"
proof (rule ls_Modified_keeps)
  show "keeps disk_ok (on_world (Stat p))" for p
    by (rule keepsI, erule disk_ok_quiet) (auto simp: on_world_def split: prod.splits dest: Stat_fs)
  show "disk_ok s \<Longrightarrow> disk_ok ((fst s)\<lparr>ls_layerspathModified := t\<rparr>, snd s)" for s :: "layerStore \<times> 'a env" and t
    by (erule disk_ok_quiet) simp_all
qed (fact keeps_disk_lock)+

lemma ls_ReloadIfChanged_ok:
  assumes "ls_ok u (fst s)" "disk_ok s" "ls_ReloadIfChanged drv s = (res, s')"
  shows "ls_ok u (fst s')"
proof -
  obtain x s1 where m: "ls_Modified s = (x, s1)" by (rule prod.exhaust)
  have ok: "ls_ok u (fst s1)" by (rule keepsD [OF keeps_Modified assms(1) m])
  have d: "disk_ok s1" by (rule keepsD [OF keeps_disk_Modified assms(2) m])
  show ?thesis
    using assms(3) m ok ls_Load_ok [OF ok d]
    by (cases x) (auto simp: ls_ReloadIfChanged_def bind_def split: if_splits)
qed

end
