(* ===== verification/LayersFun.thy ===== *)
theory LayersFun
  imports LayersInv
begin

text \<open>
  What the operations of the layer store do to the part of the store that is not mount
  information.

  \<open>ls_core r\<close> is the store without mount points and mount counts.  The calls of the world, the
  locks, \<open>Save\<close>, \<open>Mount\<close> and \<open>Unmount\<close> keep it; the lemmas \<open>core_rules\<close> say so, together with
  what they keep of the driver state.
\<close>

section \<open>The store without mount information\<close>

definition bare :: "Layer \<Rightarrow> Layer" where
  "bare l = l\<lparr>l_MountPoint := [], l_MountCount := 0\<rparr>"

definition ls_core :: "layerStore \<Rightarrow> nat list \<times> (string \<rightharpoonup> nat) \<times> (string \<rightharpoonup> nat) \<times> TruncIndex \<times>
    (digest \<rightharpoonup> string list) \<times> (digest \<rightharpoonup> string list) \<times> path \<times> path \<times> Layer list" where
  "ls_core r = (items r, byid r, byname r, idindex r, bycompressedsum r, byuncompressedsum r,
     ls_rundir r, ls_layerdir r, map bare (objs r))"

lemma bare_fields [simp]:
  "l_ID (bare l) = l_ID l" "l_Names (bare l) = l_Names l" "l_Parent (bare l) = l_Parent l"
  "l_Flags (bare l) = l_Flags l" "l_CompressedDigest (bare l) = l_CompressedDigest l"
  "bare (l\<lparr>l_MountPoint := p\<rparr>) = bare l" "bare (l\<lparr>l_MountCount := n\<rparr>) = bare l" "bare (bare l) = bare l"
  by (simp_all add: bare_def)

lemma json_bare: "json_Layer (bare l) = json_Layer l"
  by (simp add: bare_def json_Layer_def)

lemma ls_core_fields [simp]:
  "ls_core (r\<lparr>ls_lockfile := l\<rparr>) = ls_core r" "ls_core (r\<lparr>ls_mountsLockfile := ml\<rparr>) = ls_core r"
  "ls_core (r\<lparr>ls_layerspathModified := t\<rparr>) = ls_core r" "ls_core (r\<lparr>bymount := bm\<rparr>) = ls_core r"
  by (simp_all add: ls_core_def)

lemma ls_core_update_obj: "(\<And>l. bare (f l) = bare l) \<Longrightarrow> ls_core (update_obj x f r) = ls_core r"
proof (cases "x < length (objs r)")
  assume f: "\<And>l. bare (f l) = bare l"
  case True
  have "map bare ((objs r)[x := f (objs r ! x)]) = map bare (objs r)"
    using True by (simp add: map_update f list_update_same_conv)
  then show ?thesis by (simp add: ls_core_def update_obj_def)
qed (simp add: update_obj_beyond)

lemma ls_core_merge_mounts: "ls_core (merge_mounts ms r) = ls_core r"
proof -
  have one: "ls_core (set_mount m r) = ls_core r" for m r
    by (simp add: set_mount_def ls_core_update_obj split: option.splits)
  have "ls_core (fold set_mount ms r) = ls_core r" for r
    by (induction ms arbitrary: r) (simp_all add: one)
  moreover have "ls_core (fold (\<lambda>x. update_obj x (\<lambda>l. l\<lparr>l_MountPoint := [], l_MountCount := 0\<rparr>)) xs r) = ls_core r" for xs r
    by (induction xs arbitrary: r) (simp_all add: ls_core_update_obj)
  ultimately show ?thesis by (simp add: merge_mounts_def clear_mounts_def)
qed

lemma ls_coreD:
  assumes "ls_core r = ls_core r'"
  shows "items r = items r'" "byid r = byid r'" "byname r = byname r'" "idindex r = idindex r'"
    "bycompressedsum r = bycompressedsum r'" "byuncompressedsum r = byuncompressedsum r'"
    "ls_rundir r = ls_rundir r'" "ls_layerdir r = ls_layerdir r'" "map bare (objs r) = map bare (objs r')"
    "length (objs r) = length (objs r')" "ls_lookup r = ls_lookup r'"
proof -
  show *: "items r = items r'" "byid r = byid r'" "byname r = byname r'" "idindex r = idindex r'"
    "bycompressedsum r = bycompressedsum r'" "byuncompressedsum r = byuncompressedsum r'"
    "ls_rundir r = ls_rundir r'" "ls_layerdir r = ls_layerdir r'" "map bare (objs r) = map bare (objs r')"
    using assms by (simp_all add: ls_core_def)
  show "length (objs r) = length (objs r')" using *(9) by (metis length_map)
  show "ls_lookup r = ls_lookup r'" by (simp add: fun_eq_iff ls_lookup_def * cong: option.case_cong sum.case_cong)
qed

lemma ls_core_nth: "ls_core r = ls_core r' \<Longrightarrow> x < length (objs r) \<Longrightarrow> bare (objs r ! x) = bare (objs r' ! x)"
  using ls_coreD(9,10) [of r r'] by (metis nth_map)

lemma ls_core_ID: "ls_core r = ls_core r' \<Longrightarrow> x < length (objs r) \<Longrightarrow> l_ID (objs r ! x) = l_ID (objs r' ! x)"
  using ls_core_nth [of r r' x] by (metis bare_fields(1))

text \<open>The layers by identifier, without mount information.\<close>

definition bare_map :: "layerStore \<Rightarrow> string \<rightharpoonup> Layer" where
  "bare_map r = (\<lambda>k. map_option bare (item_map r k))"

lemma bare_map_core:
  assumes "ls_core r = ls_core r'" "store_ok l_ID l_Names r"
  shows "bare_map r = bare_map r'"
  using ls_coreD(2) [OF assms(1)] store_okD(1) [OF assms(2)]
  by (auto simp: bare_map_def item_map_def fun_eq_iff option.map_comp o_def ls_core_nth [OF assms(1)]
      intro!: option.map_cong0 split: option.splits)

section \<open>Lock files\<close>

lemma openLock_frame: "openLock p w = (res, w') \<Longrightarrow> q \<noteq> p \<Longrightarrow> fs w' q = fs w q"
proof (induction p w arbitrary: res w' rule: openLock.induct)
  case (1 p w)
  show ?case
  proof (cases "\<exists>fl. faults w = Some NotExist # fl")
    case True
    then obtain fl where fl: "faults w = Some NotExist # fl" by blast
    obtain r1 w1 where m: "MkdirAll (butlast p) (w\<lparr>faults := fl\<rparr>) = (r1, w1)" by (rule prod.exhaust)
    have f: "fs w1 = fs w" using MkdirAll_fs [of "butlast p" "w\<lparr>faults := fl\<rparr>"] by (simp add: m)
    show ?thesis
    proof (cases r1)
      case (Inl e)
      then show ?thesis using "1.prems" fl m f by (simp add: openLock.simps [of p w])
    next
      case (Inr x)
      then have "openLock p w1 = (res, w')" using "1.prems" fl m by (simp add: openLock.simps [of p w])
      from "1.IH" [OF fl refl refl m [symmetric] Inr this "1.prems"(2)] show ?thesis by (simp add: f)
    qed
  next
    case False
    then show ?thesis
      using "1.prems" by (auto simp: openLock.simps [of p w] io_call_def Let_def split: list.splits option.splits gerr.splits)
  qed
qed

text \<open>Lock operations touch at most the file of the lock.\<close>

definition lock_frame :: "(lockfile \<times> world, 'a) go \<Rightarrow> bool" where
  "lock_frame m \<longleftrightarrow> (\<forall>l w x l' w'. m (l, w) = (x, l', w') \<longrightarrow>
     lk_file l' = lk_file l \<and> (\<forall>q. q \<noteq> lk_file l \<longrightarrow> fs w' q = fs w q))"

lemma lk_lock_frame: "lock_frame (lk_lock t rc)"
  unfolding lock_frame_def
proof (intro allI impI)
  fix l w and x :: "gerr + unit" and l' w'
  assume run: "lk_lock t rc (l, w) = (x, l', w')"
  obtain y l1 where a: "rw_acquire t rc l = (y, l1)" by (rule prod.exhaust)
  have l1: "lk_file l1 = lk_file l" using a by (auto simp: rw_acquire_def split: if_splits)
  obtain z w1 where o: "(if counter l1 = 0 then openLock (lk_file l1) w else (Inr (), w)) = (z, w1)" by (rule prod.exhaust)
  have "fs w1 q = fs w q" if "q \<noteq> lk_file l" for q
    using o openLock_frame [of "lk_file l1" w z w1 q] that l1 by (auto split: if_splits)
  moreover have "(w' = w \<or> w' = w1) \<and> lk_file l' = lk_file l"
    using run [unfolded lk_lock_def fst_conv snd_conv a prod.case o] l1 by (cases y; cases z) (auto simp: local_lock_def)
  ultimately show "lk_file l' = lk_file l \<and> (\<forall>q. q \<noteq> lk_file l \<longrightarrow> fs w' q = fs w q)" by auto
qed

lemma lock_frames [simp]:
  "lock_frame Lock" "lock_frame RLock" "lock_frame (on_fst Unlock)" "lock_frame Modified" "lock_frame Touch"
proof -
  show "lock_frame RLock" using lk_lock_frame [of F_RDLCK False] by (simp add: lock_frame_def RLock_def)
  show "lock_frame Lock" using lk_lock_frame [of F_WRLCK False] by (auto simp: lock_frame_def Lock_def)
  show "lock_frame (on_fst Unlock)"
    by (auto simp: lock_frame_def on_fst_def Unlock_def rw_release_def Let_def split: prod.splits if_splits)
  show "lock_frame Modified"
    unfolding lock_frame_def
  proof (intro allI impI)
    fix l w and x :: "gerr + bool" and l' w'
    assume "Modified (l, w) = (x, l', w')"
    then show "lk_file l' = lk_file l \<and> (\<forall>q. q \<noteq> lk_file l \<longrightarrow> fs w' q = fs w q)"
      by (cases w rule: io_call_cases) (auto simp: Modified_def Let_def split: if_splits)
  qed
  show "lock_frame Touch"
    unfolding lock_frame_def by (auto dest: Touch_frame)
qed

lemma lock_frame_file: "lock_frame m \<Longrightarrow> lk_file (fst (snd (m s))) = lk_file (fst s)"
  unfolding lock_frame_def by (metis prod.collapse)

lemma lock_file_kept [simp]:
  "lk_file (fst (snd (Lock s))) = lk_file (fst s)" "lk_file (fst (snd (RLock s))) = lk_file (fst s)"
  "lk_file (fst (snd (on_fst Unlock s))) = lk_file (fst s)" "lk_file (fst (snd (Modified s))) = lk_file (fst s)"
  "lk_file (fst (snd (Touch s))) = lk_file (fst s)"
  by (simp_all add: lock_frame_file)

lemma save_file_lock_kept [simp]: "lk_file (fst (snd (save_file p c s))) = lk_file (fst s)"
proof -
  obtain res l w where "save_file p c (fst s, snd s) = (res, l, w)" by (metis prod_cases3)
  from save_file_frame(1) [OF this] this show ?thesis by auto
qed

text \<open>The files of a store: its directories and its lock files.\<close>

definition ls_paths :: "layerStore \<Rightarrow> path \<times> path \<times> path \<times> path option" where
  "ls_paths r = (ls_rundir r, ls_layerdir r, lk_file (ls_lockfile r), map_option lk_file (ls_mountsLockfile r))"

lemma ls_paths_merge_mounts: "ls_paths (merge_mounts ms r) = ls_paths r"
proof -
  have "ls_paths (fold set_mount ms r) = ls_paths r" for r
    by (induction ms arbitrary: r) (simp_all add: set_mount_def update_obj_def ls_paths_def split: option.splits)
  moreover have "ls_paths (fold (\<lambda>x. update_obj x f) xs r) = ls_paths r" for xs r and f :: "Layer \<Rightarrow> Layer"
    by (induction xs arbitrary: r) (simp_all add: update_obj_def ls_paths_def)
  ultimately show ?thesis by (simp add: merge_mounts_def clear_mounts_def) (simp add: ls_paths_def)
qed

section \<open>Operations that keep it\<close>

named_theorems core_rules "operations that keep the store without mount information"

definition core_at :: "_ \<Rightarrow> ('d \<Rightarrow> bool) \<Rightarrow> layerStore \<times> 'd env \<Rightarrow> bool" where
  "core_at c Q s \<longleftrightarrow> (ls_core (fst s), ls_paths (fst s)) = c \<and> Q (dstate (snd s))"

lemmas keeps_combine = keeps_ret keeps_fail keeps_bind keeps_attempt keeps_ignoring keeps_deferred

lemma core_basic [core_rules]:
  "keeps (core_at c Q) (on_world m)" "keeps (core_at c Q) (label_do cs)"
  by (auto simp: core_at_def keeps_def on_world_def label_do_def split: prod.splits)

lemma core_on_lock [core_rules]:
  "(\<And>s. lk_file (fst (snd (m s))) = lk_file (fst s)) \<Longrightarrow> keeps (core_at c Q) (on_lock m)"
  "(\<And>s. lk_file (fst (snd (m s))) = lk_file (fst s)) \<Longrightarrow> keeps (core_at c Q) (on_mounts_lock m)"
  by (auto simp: keeps_def core_at_def on_lock_def on_mounts_lock_def case_prod_beta Let_def ls_paths_def split: option.splits)

lemma core_on_driver: "keeps Q m \<Longrightarrow> keeps (core_at c Q) (on_driver m)"
  by (auto simp: core_at_def keeps_def on_driver_def split: prod.splits)

lemma core_on_layers:
  "(\<And>r. ls_core (f r) = ls_core r) \<Longrightarrow> (\<And>r. ls_paths (f r) = ls_paths r) \<Longrightarrow> keeps (core_at c Q) (on_layers f)"
  by (auto simp: core_at_def keeps_def on_layers_def modify_def)

lemma ls_paths_update_obj [simp]: "ls_paths (update_obj x f r) = ls_paths r" "ls_paths (r\<lparr>bymount := bm\<rparr>) = ls_paths r"
  by (simp_all add: ls_paths_def update_obj_def)

lemma core_with_mounts [core_rules]:
  "keeps (core_at c Q) m \<Longrightarrow> (\<And>s. lk_file (fst (snd (lock s))) = lk_file (fst s)) \<Longrightarrow> keeps (core_at c Q) (with_mounts lock m)"
  unfolding with_mounts_def by (intro keeps_combine core_rules) simp_all

lemma core_loadMounts [core_rules]: "keeps (core_at c Q) ls_loadMounts"
proof (rule keepsI)
  fix s :: "layerStore \<times> 'a env" and res s'
  assume p: "core_at c Q s" and run: "ls_loadMounts s = (res, s')"
  obtain x s1 where r: "on_world (ReadFile (ls_mountspath (fst s))) s = (x, s1)" by (rule prod.exhaust)
  have "core_at c Q s1" by (rule keepsD [OF core_basic(1) p r])
  then show "core_at c Q s'"
    using run unfolding ls_loadMounts_def r
    by (auto simp: core_at_def on_layers_def modify_def ls_core_merge_mounts ls_paths_merge_mounts
        split: sum.splits option.splits if_splits)
qed

lemma core_saveMounts [core_rules]: "keeps (core_at c Q) ls_saveMounts"
proof -
  have k: "keeps (core_at c Q) (bind (on_world (MkdirAll p)) (\<lambda>_. bind (on_world (AtomicWriteFile q ct)) (\<lambda>_. ls_loadMounts)))" for p q ct
    by (intro keeps_combine core_rules)
  show ?thesis
    by (rule keepsI2) (simp add: ls_saveMounts_def keeps_snd [OF k] split: option.splits)
qed

lemma core_saveLayers [core_rules]: "keeps (core_at c Q) ls_saveLayers"
  by (rule keepsI2) (simp add: ls_saveLayers_def keeps_snd [OF core_on_lock(1)])

lemma core_Save [core_rules]: "keeps (core_at c Q) ls_Save"
  unfolding ls_Save_def by (intro keeps_combine core_rules) simp_all

lemma core_refresh [core_rules]: "keeps (core_at c Q) ls_refresh_mounts"
  unfolding ls_refresh_mounts_def
  by (intro keeps_combine core_rules) (auto intro: keeps_combine core_rules simp del: ret_apply)

lemma core_Mounted [core_rules]: "keeps (core_at c Q) (ls_Mounted ident)"
proof -
  have "keeps (core_at c Q) (\<lambda>s. case ls_lookup (fst s) ident of None \<Rightarrow> (Inl ErrLayerUnknown, s)
      | Some x \<Rightarrow> (Inr (l_MountCount (objs (fst s) ! x)), s))"
    by (rule keepsI2) (simp split: option.splits)
  then have k: "keeps (core_at c Q) (with_mounts RLock (bind ls_refresh_mounts (\<lambda>_ s. case ls_lookup (fst s) ident of
        None \<Rightarrow> (Inl ErrLayerUnknown, s) | Some x \<Rightarrow> (Inr (l_MountCount (objs (fst s) ! x)), s))))"
    by (intro keeps_combine core_rules) simp_all
  show ?thesis by (rule keepsI2) (simp add: ls_Mounted_def keeps_snd [OF k])
qed

text \<open>\<open>Unmount\<close> calls the driver's \<open>Put\<close>.\<close>

lemma core_unmount_found:
  assumes "\<And>k. keeps Q (drv_Put drv k)"
  shows "keeps (core_at c Q) (ls_unmount_found drv ident force)"
proof -
  have up: "keeps (core_at c Q) (on_layers (update_obj x (\<lambda>l. l\<lparr>l_MountCount := n l\<rparr>)))"
    "keeps (core_at c Q) (on_layers (update_obj x (\<lambda>l. if force then l\<lparr>l_MountCount := n l\<rparr> else l)))" for x n
    by (rule core_on_layers; simp add: ls_core_update_obj)+
  have un: "keeps (core_at c Q) (ls_unmounted x mp)" for x mp
    unfolding ls_unmounted_def
    by (intro keeps_combine core_rules core_on_layers) (simp_all add: ls_core_update_obj)
  have dec: "keeps (core_at c Q) (bind (on_layers (update_obj x (\<lambda>l. l\<lparr>l_MountCount := l_MountCount l - 1\<rparr>))) (\<lambda>_.
      bind ls_saveMounts (\<lambda>_. ret True)))" for x
    by (intro keeps_combine core_rules up)
  have res: "keeps (core_at c Q) (if res = Inr () \<or> res = Inl NotExist then ls_unmounted x mp
       else case res of Inl e \<Rightarrow> fail e | Inr _ \<Rightarrow> ret True)" for res x mp
    by (cases res) (simp_all add: un keeps_ret keeps_fail del: fail_apply ret_apply)
  have put: "keeps (core_at c Q) (bind (attempt (on_driver (drv_Put drv ident))) (\<lambda>res.
       if res = Inr () \<or> res = Inl NotExist then ls_unmounted x mp
       else case res of Inl e \<Rightarrow> fail e | Inr _ \<Rightarrow> ret True))" for x mp
    by (intro keeps_combine core_on_driver assms res)
  have lay: "keeps (core_at c Q) (ls_unmount_layer drv ident x)" for x
    by (rule keepsI2) (simp add: ls_unmount_layer_def Let_def keeps_snd [OF dec] keeps_snd [OF put])
  have "keeps (core_at c Q) (bind (on_layers (update_obj x (\<lambda>l. if force then l\<lparr>l_MountCount := 1\<rparr> else l)))
            (\<lambda>_. ls_unmount_layer drv ident x))" for x
    by (intro keeps_combine up lay)
  from keeps_snd [OF this] show ?thesis
    by (intro keepsI2) (simp add: ls_unmount_found_def split: option.splits)
qed

lemma core_Unmount:
  assumes "\<And>k. keeps Q (drv_Put drv k)"
  shows "keeps (core_at c Q) (ls_Unmount drv ident force)"
proof -
  have k: "keeps (core_at c Q) (with_mounts Lock (bind ls_refresh_mounts (\<lambda>_.
             deferred (on_mounts_lock Touch) (ls_unmount_found drv ident force))))"
    by (intro keeps_combine core_rules core_unmount_found assms) simp_all
  show ?thesis by (rule keepsI2) (simp add: ls_Unmount_def keeps_snd [OF k])
qed

lemma core_unmount_all:
  assumes "\<And>k. keeps Q (drv_Put drv k)"
  shows "keeps (core_at c Q) (ls_unmount_all drv ident n mc)"
  by (induction n arbitrary: mc) (auto intro!: keeps_combine core_rules core_Unmount assms simp del: fail_apply ret_apply)

section \<open>What is on disk\<close>

text \<open>The file \<open>q\<close>, which is no lock file, has the content \<open>v\<close>.\<close>

definition file_at :: "path \<Rightarrow> content option \<Rightarrow> layerStore \<times> 'd env \<Rightarrow> bool" where
  "file_at q v s \<longleftrightarrow> fs (wld (snd s)) q = v \<and> q \<noteq> lk_file (ls_lockfile (fst s)) \<and>
     (\<forall>ml. ls_mountsLockfile (fst s) = Some ml \<longrightarrow> q \<noteq> lk_file ml)"

named_theorems file_rules "operations that keep a file"

lemma file_locks [file_rules]:
  assumes "lock_frame m"
  shows "keeps (file_at q v) (on_lock m)" "keeps (file_at q v) (on_mounts_lock m)"
proof -
  have f: "lk_file l' = lk_file l" "q \<noteq> lk_file l \<Longrightarrow> fs w' q = fs w q" if "m (l, w) = (x, l', w')" for l w x l' w'
    using assms that by (simp_all add: lock_frame_def)
  show "keeps (file_at q v) (on_lock m)" "keeps (file_at q v) (on_mounts_lock m)"
    by (rule keepsI, auto simp: file_at_def on_lock_def on_mounts_lock_def split: prod.splits option.splits dest: f)+
qed

lemma file_on_world: "(\<And>w. fs (snd (m w)) q = fs w q) \<Longrightarrow> keeps (file_at q v) (on_world m)"
  by (rule keepsI2) (simp add: file_at_def on_world_def case_prod_beta Let_def)

lemma file_world [file_rules]:
  "keeps (file_at q v) (on_world (MkdirAll p))" "keeps (file_at q v) (on_world (ReadFile p))"
  "p \<noteq> q \<Longrightarrow> keeps (file_at q v) (on_world (AtomicWriteFile p ct))"
  "keeps (file_at q v) (label_do cs)" "keeps (file_at q v) (on_driver dm)"
proof -
  have "fs (snd (AtomicWriteFile p ct w)) q = fs w q" if "p \<noteq> q" for w
    using AtomicWriteFile_fs [of p ct w "fst (AtomicWriteFile p ct w)" "snd (AtomicWriteFile p ct w)"] that
    by (simp split: sum.splits)
  then show "p \<noteq> q \<Longrightarrow> keeps (file_at q v) (on_world (AtomicWriteFile p ct))" by (intro file_on_world)
  show "keeps (file_at q v) (on_world (MkdirAll p))" "keeps (file_at q v) (on_world (ReadFile p))"
    by (intro file_on_world; simp)+
qed (auto simp: keeps_def file_at_def label_do_def on_driver_def split: prod.splits)

lemma file_on_layers:
  "(\<And>r. ls_lockfile (f r) = ls_lockfile r \<and> ls_mountsLockfile (f r) = ls_mountsLockfile r) \<Longrightarrow>
   keeps (file_at q v) (on_layers f)"
  by (simp add: keeps_def on_layers_def modify_def file_at_def)

lemma merge_mounts_locks:
  "ls_lockfile (merge_mounts ms r) = ls_lockfile r \<and> ls_mountsLockfile (merge_mounts ms r) = ls_mountsLockfile r"
proof -
  have "ls_lockfile (fold set_mount ms r) = ls_lockfile r \<and> ls_mountsLockfile (fold set_mount ms r) = ls_mountsLockfile r" for r
    by (induction ms arbitrary: r) (simp_all add: set_mount_def update_obj_def split: option.splits)
  moreover have "ls_lockfile (fold (\<lambda>x. update_obj x f) xs r) = ls_lockfile r \<and>
      ls_mountsLockfile (fold (\<lambda>x. update_obj x f) xs r) = ls_mountsLockfile r" for xs r and f :: "Layer \<Rightarrow> Layer"
    by (induction xs arbitrary: r) (simp_all add: update_obj_def)
  ultimately show ?thesis by (simp add: merge_mounts_def clear_mounts_def)
qed

lemma file_loadMounts [file_rules]: "keeps (file_at q v) ls_loadMounts"
proof (rule keepsI)
  fix s :: "layerStore \<times> 'a env" and res s'
  assume p: "file_at q v s" and run: "ls_loadMounts s = (res, s')"
  obtain x s1 where r: "on_world (ReadFile (ls_mountspath (fst s))) s = (x, s1)" by (rule prod.exhaust)
  have "file_at q v s1" by (rule keepsD [OF file_world(2) p r])
  then show "file_at q v s'"
    using run unfolding ls_loadMounts_def r
    by (auto simp: file_at_def on_layers_def modify_def merge_mounts_locks split: sum.splits option.splits if_splits)
qed

lemma file_with_mounts [file_rules]:
  "keeps (file_at q v) m \<Longrightarrow> lock_frame lock \<Longrightarrow> keeps (file_at q v) (with_mounts lock m)"
  unfolding with_mounts_def by (intro keeps_combine file_rules) simp_all

text \<open>\<open>Save\<close> writes the two documents.\<close>

lemma AtomicWriteFile_there: "AtomicWriteFile p c w = (Inr u, w') \<Longrightarrow> fs w' p = Some c"
  by (drule AtomicWriteFile_fs) simp

lemma file_saveMounts: "q \<noteq> ls_mountspath r \<Longrightarrow> ensures (\<lambda>s. fst s = r \<and> file_at q v s) ls_saveMounts (\<lambda>_. file_at q v)"
proof (rule ensuresI)
  fix s :: "layerStore \<times> 'a env" and x s'
  assume q: "q \<noteq> ls_mountspath r" and s: "fst s = r \<and> file_at q v s" and run: "ls_saveMounts s = (Inr x, s')"
  have eq: "bind (on_world (MkdirAll (ls_rundir r))) (\<lambda>_. bind (on_world (AtomicWriteFile (ls_mountspath r) (JMounts (mounts_of r))))
      (\<lambda>_. ls_loadMounts)) s = (Inr x, s')"
    using run s by (simp add: ls_saveMounts_def split: if_splits option.splits)
  have k: "keeps (file_at q v) (bind (on_world (MkdirAll (ls_rundir r))) (\<lambda>_.
      bind (on_world (AtomicWriteFile (ls_mountspath r) (JMounts (mounts_of r)))) (\<lambda>_. ls_loadMounts)))"
    using q by (intro keeps_combine file_rules) auto
  show "file_at q v s'" by (rule keepsD [OF k _ eq]) (use s in simp)
qed

definition apart :: "layerStore \<Rightarrow> bool" where
  "apart r \<longleftrightarrow> (\<forall>q \<in> {ls_layerspath r, ls_mountspath r}. q \<noteq> lk_file (ls_lockfile r) \<and>
     (\<forall>ml. ls_mountsLockfile r = Some ml \<longrightarrow> q \<noteq> lk_file ml)) \<and> ls_layerspath r \<noteq> ls_mountspath r"

lemma saveLayers_writes:
  "ensures (\<lambda>s. fst s = r \<and> apart r) ls_saveLayers
     (\<lambda>_ s. file_at (ls_layerspath r) (Some (JLayers (map json_Layer (item_list r)))) s \<and>
       (\<exists>k. fst s = r\<lparr>ls_lockfile := (ls_lockfile r)\<lparr>lw := k\<rparr>\<rparr>))"
proof (rule ensuresI)
  fix s :: "layerStore \<times> 'a env" and x s'
  assume s: "fst s = r \<and> apart r" and run: "ls_saveLayers s = (Inr x, s')"
  let ?p = "ls_layerspath r" and ?c = "JLayers (map json_Layer (item_list r))"
  obtain res l' w' where sv: "save_file ?p ?c (ls_lockfile r, wld (snd s)) = (res, l', w')" by (metis prod_cases3)
  have "ls_saveLayers s = on_lock (save_file ?p ?c) s" using run s by (simp add: ls_saveLayers_def split: if_splits)
  then have "res = Inr ()" and s': "s' = (r\<lparr>ls_lockfile := l'\<rparr>, (snd s)\<lparr>wld := w'\<rparr>)"
    using run s sv by (simp_all add: on_lock_def)
  then show "file_at ?p (Some ?c) s' \<and> (\<exists>k. fst s' = r\<lparr>ls_lockfile := (ls_lockfile r)\<lparr>lw := k\<rparr>\<rparr>)"
    using save_file_frame(1,3) [OF sv] s by (auto simp: file_at_def apart_def)
qed

text \<open>
  \<open>saveMounts\<close> reads its file back; a read that reports the file missing leaves no mounts in memory.
\<close>

lemma saveMounts_writes:
  "ensures (\<lambda>s. fst s = r \<and> apart r) ls_saveMounts
     (\<lambda>_ s. file_at (ls_mountspath r) (Some (JMounts (mounts_of r))) s \<and>
       (fst s = merge_mounts (mounts_of r) r \<or> fst s = merge_mounts [] r))"
proof (rule ensuresI)
  fix s :: "layerStore \<times> 'a env" and x s'
  assume s: "fst s = r \<and> apart r" and run: "ls_saveMounts s = (Inr x, s')"
  let ?p = "ls_mountspath r" and ?c = "JMounts (mounts_of r)"
  have eq: "bind (on_world (MkdirAll (ls_rundir r))) (\<lambda>_. bind (on_world (AtomicWriteFile ?p ?c)) (\<lambda>_. ls_loadMounts)) s = (Inr x, s')"
    using run s by (simp add: ls_saveMounts_def split: if_splits option.splits)
  have wr: "ensures (\<lambda>s :: layerStore \<times> 'a env. fst s = r) (on_world (AtomicWriteFile ?p ?c)) (\<lambda>_ s. fst s = r \<and> file_at ?p (Some ?c) s)"
    using s by (auto intro!: ensuresI simp: on_world_def file_at_def apart_def split: prod.splits
        dest: AtomicWriteFile_there)
  have ld: "ensures (\<lambda>s :: layerStore \<times> 'a env. fst s = r \<and> file_at ?p (Some ?c) s) ls_loadMounts
      (\<lambda>_ s. file_at ?p (Some ?c) s \<and> (fst s = merge_mounts (mounts_of r) r \<or> fst s = merge_mounts [] r))"
  proof (rule ensuresI)
    fix t :: "layerStore \<times> 'a env" and x t'
    assume t: "fst t = r \<and> file_at ?p (Some ?c) t" and run: "ls_loadMounts t = (Inr x, t')"
    have "file_at ?p (Some ?c) t'" by (rule keepsD [OF file_loadMounts _ run]) (use t in simp)
    moreover have "fst t' = merge_mounts (mounts_of r) r \<or> fst t' = merge_mounts [] r"
      using t run
      by (cases "wld (snd t)" rule: io_call_cases)
        (auto simp: ls_loadMounts_def on_world_def ReadFile_def file_at_def on_layers_def modify_def decode_mounts_def split: if_splits)
    ultimately show "file_at ?p (Some ?c) t' \<and> (fst t' = merge_mounts (mounts_of r) r \<or> fst t' = merge_mounts [] r)" by simp
  qed
  have mk: "ensures (\<lambda>s :: layerStore \<times> 'a env. fst s = r) (on_world (MkdirAll (ls_rundir r))) (\<lambda>_ s. fst s = r)"
    by (auto intro!: ensuresI simp: on_world_def split: prod.splits)
  from ensuresD [OF ensures_bind [OF mk ensures_bind [OF wr ld]] _ eq] s
  show "file_at ?p (Some ?c) s' \<and> (fst s' = merge_mounts (mounts_of r) r \<or> fst s' = merge_mounts [] r)" by simp
qed

lemma mounts_core_locks:
  "mounts_of (r\<lparr>ls_lockfile := l\<rparr>) = mounts_of r" "mounts_of (r\<lparr>ls_mountsLockfile := ml\<rparr>) = mounts_of r"
  "item_list (r\<lparr>ls_lockfile := l\<rparr>) = item_list r" "item_list (r\<lparr>ls_mountsLockfile := ml\<rparr>) = item_list r"
  by (simp_all add: mounts_of_def item_list_def)

text \<open>
  A successful \<open>Save\<close> leaves both documents on disk and the mount information in memory as the file
  has it.  \<open>same_records r s\<close>: the store of \<open>s\<close> is \<open>r\<close> up to the lock objects.
\<close>

definition same_records :: "layerStore \<Rightarrow> layerStore \<times> 'd env \<Rightarrow> bool" where
  "same_records r s \<longleftrightarrow> (\<exists>l ml. fst s = r\<lparr>ls_lockfile := l, ls_mountsLockfile := ml\<rparr> \<and> apart (fst s))"

lemma same_records_locks:
  assumes "lock_frame m"
  shows "keeps (same_records r) (on_mounts_lock m)"
proof -
  have f: "lk_file l' = lk_file l" if "m (l, w) = (x, l', w')" for l w x l' w'
    using assms that by (simp add: lock_frame_def)
  show ?thesis
    by (rule keepsI, auto simp: same_records_def apart_def on_mounts_lock_def ls_layerspath_def ls_mountspath_def
        split: prod.splits option.splits dest!: f) blast+
qed

definition saved :: "layerStore \<Rightarrow> layerStore \<times> 'd env \<Rightarrow> bool" where
  "saved r s \<longleftrightarrow> file_at (ls_layerspath r) (Some (JLayers (map json_Layer (item_list r)))) s \<and>
     file_at (ls_mountspath r) (Some (JMounts (mounts_of r))) s \<and> ls_core (fst s) = ls_core r \<and>
     (objs (fst s) = objs (merge_mounts (mounts_of r) r) \<or> objs (fst s) = objs (merge_mounts [] r))"

lemma merge_mounts_lock_fields:
  "merge_mounts ms (r\<lparr>ls_lockfile := l, ls_mountsLockfile := ml\<rparr>) = (merge_mounts ms r)\<lparr>ls_lockfile := l, ls_mountsLockfile := ml\<rparr>"
proof -
  let ?f = "\<lambda>r. r\<lparr>ls_lockfile := l, ls_mountsLockfile := ml\<rparr>"
  have "ls_lookup (?f r) = ls_lookup r" for r by (simp add: fun_eq_iff ls_lookup_def cong: option.case_cong sum.case_cong)
  then have "set_mount m (?f r) = ?f (set_mount m r)" for m r
    by (simp add: set_mount_def update_obj_def split: option.splits)
  then have sets: "fold set_mount ms (?f r) = ?f (fold set_mount ms r)" for r
    by (induction ms arbitrary: r) simp_all
  have one: "update_obj x g (?f r) = ?f (update_obj x g r)" for x g r by (simp add: update_obj_def)
  have clears: "fold (\<lambda>x. update_obj x g) xs (?f r) = ?f (fold (\<lambda>x. update_obj x g) xs r)" for xs r g
    by (induction xs arbitrary: r) (simp_all add: one)
  have "items (?f r) = items r" by simp
  then have "clear_mounts (?f r) = ?f (clear_mounts r)" unfolding clear_mounts_def by (simp only: clears)
  then have "(clear_mounts (?f r))\<lparr>bymount := Map.empty\<rparr> = ?f ((clear_mounts r)\<lparr>bymount := Map.empty\<rparr>)" by simp
  then show ?thesis by (simp only: merge_mounts_def sets)
qed

lemma save_both:
  "ensures (same_records r) (bind ls_saveLayers (\<lambda>_. ls_saveMounts)) (\<lambda>_. saved r)"
proof (rule ensuresI)
  fix s :: "layerStore \<times> 'a env" and x s'
  assume s: "same_records r s" and run: "bind ls_saveLayers (\<lambda>_. ls_saveMounts) s = (Inr x, s')"
  obtain l ml where r: "fst s = r\<lparr>ls_lockfile := l, ls_mountsLockfile := ml\<rparr>" and ap: "apart (fst s)"
    using s by (auto simp: same_records_def)
  obtain y s1 where a: "ls_saveLayers s = (Inr y, s1)" and b: "ls_saveMounts s1 = (Inr x, s')"
    using run by (auto simp: bind_def split: prod.splits sum.splits)
  have f1: "file_at (ls_layerspath (fst s)) (Some (JLayers (map json_Layer (item_list (fst s))))) s1"
    and r1: "\<exists>k. fst s1 = (fst s)\<lparr>ls_lockfile := (ls_lockfile (fst s))\<lparr>lw := k\<rparr>\<rparr>"
    using ensuresD [OF saveLayers_writes [of "fst s"] _ a] ap by auto
  from r1 obtain k where "fst s1 = (fst s)\<lparr>ls_lockfile := (ls_lockfile (fst s))\<lparr>lw := k\<rparr>\<rparr>" by blast
  then have k: "fst s1 = r\<lparr>ls_lockfile := l\<lparr>lw := k\<rparr>, ls_mountsLockfile := ml\<rparr>" by (simp add: r)
  have ap1: "apart (fst s1)" using ap by (simp add: r k apart_def ls_layerspath_def ls_mountspath_def)
  have f2: "file_at (ls_mountspath (fst s1)) (Some (JMounts (mounts_of (fst s1)))) s'"
    and r2: "fst s' = merge_mounts (mounts_of (fst s1)) (fst s1) \<or> fst s' = merge_mounts [] (fst s1)"
    using ensuresD [OF saveMounts_writes [of "fst s1"] _ b] ap1 by auto
  have paths: "ls_layerspath (fst s) = ls_layerspath r" "ls_mountspath (fst s1) = ls_mountspath r"
    "item_list (fst s) = item_list r" "mounts_of (fst s1) = mounts_of r"
    by (simp_all add: r k ls_layerspath_def ls_mountspath_def item_list_def mounts_of_def)
  have "ls_layerspath (fst s) \<noteq> ls_mountspath (fst s1)" using ap1 by (simp add: apart_def paths k ls_layerspath_def ls_mountspath_def)
  then have f1': "file_at (ls_layerspath (fst s)) (Some (JLayers (map json_Layer (item_list (fst s))))) s'"
    using ensuresD [OF file_saveMounts _ b] f1 by blast
  show "saved r s'"
    using f1' f2 r2 unfolding saved_def paths unfolding k merge_mounts_lock_fields
    by (auto simp: ls_core_merge_mounts)
qed

lemma saved_locks: "lock_frame m \<Longrightarrow> keeps (saved r) (on_mounts_lock m)"
proof (rule keepsI)
  fix s :: "layerStore \<times> 'b env" and res s'
  assume m: "lock_frame m" and s: "saved r s" and run: "on_mounts_lock m s = (res, s')"
  have "objs (fst s') = objs (fst s) \<and> ls_core (fst s') = ls_core (fst s)"
    using run by (auto simp: on_mounts_lock_def split: option.splits prod.splits)
  then show "saved r s'"
    using s keepsD [OF file_locks(2) [OF m] _ run] by (simp add: saved_def)
qed

lemma ls_Save_saves: "ensures (same_records r) ls_Save (\<lambda>_. saved r)"
  unfolding ls_Save_def with_mounts_def
  by (rule ensures_bind [OF ensures_keeps [OF same_records_locks]], simp,
      (rule ensures_deferred)+, rule save_both) (simp_all add: saved_locks)

section \<open>Deleting\<close>

lemma item_map_forget_layer: "item_map (forget_layer l r) = (item_map r)(l_ID l := None)"
  using ls.item_map_remove_item [of "l_ID l" "l_Names l" _ r]
  by (simp add: forget_layer_def Let_def deleteInDigestMap_def item_map_def)

lemma deleteInternal_effect:
  assumes "byid (fst s) k = Some x" "l_ID (objs (fst s) ! x) = k" "ls_deleteInternal drv k s = (Inr u, s')"
  shows "fst s' = forget_layer (objs (fst s) ! x) (fst s) \<and> drv_Remove drv k (dstate (snd s)) = (Inr (), dstate (snd s'))"
proof -
  define l where "l = objs (fst s) ! x"
  define G where "G t \<longleftrightarrow> drv_Remove drv k (dstate (snd s)) = (Inr (), dstate (snd t))" for t :: "layerStore \<times> 'a env"
  define R where "R t \<longleftrightarrow> fst t = fst s \<and> G t" for t
  have lk: "ls_lookup (fst s) k = Some x" using assms(1) by (simp add: ls_lookup_def)
  have run: "bind (on_driver (drv_Remove drv k)) (\<lambda>_.
          bind (ignoring (on_world (RemoveFile (ls_tspath (fst s) k)))) (\<lambda>_.
          bind (ignoring (on_world (RemoveAll (ls_datadir (fst s) k)))) (\<lambda>_.
          bind (on_layers (forget_layer l)) (\<lambda>_. release_label (l_MountLabel l))))) s = (Inr u, s')"
    using assms(2,3) lk by (simp add: ls_deleteInternal_def Let_def l_def split: if_splits)
  have rm: "ensures (\<lambda>t. t = s) (on_driver (drv_Remove drv k)) (\<lambda>_. R)"
    by (auto intro!: ensuresI simp: on_driver_def R_def G_def split: prod.splits)
  have keep: "ensures R (ignoring (on_world m)) (\<lambda>_. R)" for m :: "(world, unit) go"
    by (intro ensures_keeps keeps_ignoring) (auto simp: keeps_def on_world_def R_def G_def split: prod.splits)
  have fin: "ensures R (bind (on_layers (forget_layer l)) (\<lambda>_. release_label (l_MountLabel l)))
      (\<lambda>_ t. fst t = forget_layer l (fst s) \<and> G t)"
    by (auto intro!: ensuresI simp: bind_def on_layers_def modify_def release_label_def label_do_def R_def G_def split: if_splits)
  from ensuresD [OF ensures_bind [OF rm ensures_bind [OF keep ensures_bind [OF keep fin]]] refl run]
  show ?thesis by (simp add: l_def G_def)
qed

text \<open>Which layers the driver has, as a predicate on its state.\<close>

definition has_layers :: "'d Driver \<Rightarrow> (string \<Rightarrow> bool) \<Rightarrow> 'd \<Rightarrow> bool" where
  "has_layers drv E d \<longleftrightarrow> (\<forall>j. plain_id j \<longrightarrow> drv_Exists drv j d = E j)"

lemma apart_paths: "ls_paths r = ls_paths r' \<Longrightarrow> apart r = apart r'"
  by (cases "ls_mountsLockfile r"; cases "ls_mountsLockfile r'") (auto simp: apart_def ls_paths_def ls_layerspath_def ls_mountspath_def)

lemma saved_layers:
  assumes "saved r s" "store_ok l_ID l_Names r"
  shows "fs (wld (snd s)) (ls_layerspath r) = Some (JLayers (map json_Layer (item_list (fst s))))"
proof -
  have c: "ls_core (fst s) = ls_core r" using assms(1) by (simp add: saved_def)
  have "json_Layer (objs (fst s) ! x) = json_Layer (objs r ! x)" if "x \<in> set (items r)" for x
    using ls_core_nth [OF c [symmetric], of x] that assms(2) by (metis json_bare store_ok_def)
  then have "map json_Layer (item_list (fst s)) = map json_Layer (item_list r)"
    by (simp add: item_list_def ls_coreD(1) [OF c])
  then show ?thesis using assms(1) by (simp add: saved_def file_at_def)
qed

lemma ls_Save_effect:
  assumes "ls_Save s = (Inr v, s')" "store_ok l_ID l_Names (fst s)" "apart (fst s)"
  shows "fs (wld (snd s')) (ls_layerspath (fst s)) = Some (JLayers (map json_Layer (item_list (fst s'))))"
proof -
  have "same_records (fst s) s"
    unfolding same_records_def by (rule exI [of _ "ls_lockfile (fst s)"], rule exI [of _ "ls_mountsLockfile (fst s)"]) (simp add: assms(3))
  from ensuresD [OF ls_Save_saves this assms(1)] assms(2) show ?thesis by (rule saved_layers)
qed

context graph_driver
begin

lemma has_layers_Put: "keeps (has_layers drv E) (drv_Put drv k)"
  using put_keeps by (simp add: keeps_def has_layers_def)

lemma Delete_effect:
  assumes ok: "ls_ok u (fst s)" and x: "ls_lookup (fst s) ident = Some x" and k: "k = l_ID (objs (fst s) ! x)" "plain_id k"
    and run: "ls_Delete drv ident s = (Inr v, s')" and E: "has_layers drv E (dstate (snd s))"
  shows "bare_map (fst s') = (bare_map (fst s))(k := None)"
    and "has_layers drv (E(k := False)) (dstate (snd s'))"
    and "apart (fst s) \<Longrightarrow> fs (wld (snd s')) (ls_layerspath (fst s)) = Some (JLayers (map json_Layer (item_list (fst s'))))"
proof -
  define c where "c = (ls_core (fst s), ls_paths (fst s))"
  define P where "P = (\<lambda>s. core_at c (has_layers drv E) s \<and> ls_ok u (fst s))"
  have P: "P s" using ok E by (simp add: P_def core_at_def c_def)
  note by_item = ls_lookup_item [OF ok x]
  obtain mc s1 where m: "ls_Mounted k s = (Inr mc, s1)"
    and r1: "bind (ls_unmount_all drv k (unmount_fuel s) mc) (\<lambda>_. bind (ls_deleteInternal drv k) (\<lambda>_. ls_Save)) s1 = (Inr v, s')"
    using run unfolding ls_Delete_def x option.case Let_def k(1) [symmetric] by (rule bind_InrE)
  obtain v2 s2 where un: "ls_unmount_all drv k (unmount_fuel s) mc s1 = (Inr v2, s2)"
    and r2: "bind (ls_deleteInternal drv k) (\<lambda>_. ls_Save) s2 = (Inr v, s')" using r1 by (rule bind_InrE)
  obtain v3 s3 where d: "ls_deleteInternal drv k s2 = (Inr v3, s3)" and sv: "ls_Save s3 = (Inr v, s')" using r2 by (rule bind_InrE)
  have "P s1" unfolding P_def by (rule keepsD [OF keeps_conj [OF core_Mounted keeps_Mounted] _ m]) (use P in \<open>simp add: P_def\<close>)
  moreover have "keeps P (ls_unmount_all drv k (unmount_fuel s) mc)"
    unfolding P_def by (intro keeps_conj core_unmount_all keeps_unmount_all has_layers_Put)
  ultimately have P2: "P s2" using un by (metis keepsD)
  have c2: "ls_core (fst s2) = ls_core (fst s)" "ls_paths (fst s2) = ls_paths (fst s)"
    using P2 by (simp_all add: P_def core_at_def c_def)
  have x2: "byid (fst s2) k = Some x" "l_ID (objs (fst s2) ! x) = k"
    using by_item k(1) ls_coreD(2) [OF c2(1)] ls_core_ID [OF c2(1) [symmetric], of x] by simp_all
  have s3: "fst s3 = forget_layer (objs (fst s2) ! x) (fst s2)" "drv_Remove drv k (dstate (snd s2)) = (Inr (), dstate (snd s3))"
    using deleteInternal_effect [OF x2 d] by simp_all
  have has3: "has_layers drv (E(k := False)) (dstate (snd s3))"
    using P2 remove_effect [OF k(2) _ s3(2)] by (auto simp: P_def core_at_def has_layers_def)
  have ok3: "ls_ok u (fst s3)" by (rule keepsD [OF keeps_deleteInternal _ d]) (use P2 in \<open>simp add: P_def\<close>)
  have p3: "ls_paths (fst s3) = ls_paths (fst s)"
    unfolding s3(1) c2(2) [symmetric] by (simp add: ls_paths_def forget_layer_def Let_def deleteInDigestMap_def remove_item_def)
  have end': "core_at (ls_core (fst s3), ls_paths (fst s3)) (has_layers drv (E(k := False))) s'"
    by (rule keepsD [OF core_Save _ sv]) (simp add: core_at_def has3)
  then show "has_layers drv (E(k := False)) (dstate (snd s'))" by (simp add: core_at_def)
  have "bare_map (fst s') = bare_map (fst s3)"
    by (rule bare_map_core [OF _ ls_okD [OF keepsD [OF keeps_Save ok3 sv]]]) (use end' in \<open>simp add: core_at_def\<close>)
  also have "\<dots> = (bare_map (fst s2))(k := None)"
    unfolding s3(1) bare_map_def item_map_forget_layer x2(2) by auto
  also have "bare_map (fst s2) = bare_map (fst s)"
    by (rule bare_map_core [OF c2(1)]) (use P2 ls_okD in \<open>auto simp: P_def\<close>)
  finally show "bare_map (fst s') = (bare_map (fst s))(k := None)" .
  assume "apart (fst s)"
  then have "apart (fst s3)" using apart_paths [OF p3] by simp
  from ls_Save_effect [OF sv ls_okD [OF ok3] this]
  show "fs (wld (snd s')) (ls_layerspath (fst s)) = Some (JLayers (map json_Layer (item_list (fst s'))))"
    using p3 by (simp add: ls_layerspath_def ls_paths_def)
qed

end

section \<open>Creating\<close>

text \<open>The record without what \<open>applyDiffWithOptions\<close> fills in.\<close>

definition undiffed :: "Layer \<Rightarrow> Layer" where
  "undiffed l = (bare l)\<lparr>l_CompressedDigest := [], l_CompressedSize := 0, l_UncompressedDigest := [],
     l_UncompressedSize := 0, l_CompressionType := Uncompressed, l_UIDs := [], l_GIDs := []\<rparr>"

lemma undiffed_sel:
  "l_ID (undiffed l) = l_ID l" "l_Names (undiffed l) = l_Names l" "l_Parent (undiffed l) = l_Parent l"
  "l_Metadata (undiffed l) = l_Metadata l" "l_MountLabel (undiffed l) = l_MountLabel l" "l_Created (undiffed l) = l_Created l"
  "l_Flags (undiffed l) = l_Flags l" "l_UIDMap (undiffed l) = l_UIDMap l" "l_GIDMap (undiffed l) = l_GIDMap l"
  by (simp_all add: undiffed_def bare_def)

lemma undiffed_fields:
  assumes "undiffed l = undiffed l'"
  shows "l_ID l = l_ID l'" "l_Names l = l_Names l'" "l_Parent l = l_Parent l'" "l_Metadata l = l_Metadata l'"
    "l_MountLabel l = l_MountLabel l'" "l_Created l = l_Created l'" "l_Flags l = l_Flags l'"
    "l_UIDMap l = l_UIDMap l'" "l_GIDMap l = l_GIDMap l'"
  by (metis assms undiffed_sel)+

text \<open>The store \<open>r\<close> is \<open>r0\<close> with one more layer \<open>l0\<close>, up to mount and diff information.\<close>

definition added :: "layerStore \<Rightarrow> Layer \<Rightarrow> layerStore \<Rightarrow> bool" where
  "added r0 l0 r \<longleftrightarrow> (let x = length (objs r0) in
     items r = items r0 @ [x] \<and> byid r = (byid r0)(l_ID l0 \<mapsto> x) \<and> byname r = add_names x (l_Names l0) (byname r0) \<and>
     length (objs r) = Suc x \<and> (\<forall>y < x. bare (objs r ! y) = bare (objs r0 ! y)) \<and> undiffed (objs r ! x) = undiffed l0)"

lemma undiffed_bare: "undiffed (bare l) = undiffed l"
  by (simp add: undiffed_def)

lemma added_core:
  assumes "ls_core r = ls_core r'"
  shows "added r0 l0 r = added r0 l0 r'"
proof -
  have "bare (objs r ! y) = bare (objs r' ! y)" if "y < length (objs r)" for y by (rule ls_core_nth [OF assms that])
  then have *: "bare (objs r ! y) = bare (objs r' ! y)" "undiffed (objs r ! y) = undiffed (objs r' ! y)" if "y < length (objs r)" for y
    using that undiffed_bare by metis+
  show ?thesis
    using ls_coreD [OF assms] * by (auto simp: added_def Let_def)
qed

lemma core_lift:
  assumes "\<And>c. keeps (core_at c Q) m" "\<And>r r'. ls_core r = ls_core r' \<Longrightarrow> ls_paths r = ls_paths r' \<Longrightarrow> A r \<Longrightarrow> A r'"
  shows "keeps (\<lambda>s. A (fst s) \<and> Q (dstate (snd s))) m"
proof (rule keepsI)
  fix s res s' assume s: "A (fst s) \<and> Q (dstate (snd s))" and run: "m s = (res, s')"
  have "core_at (ls_core (fst s), ls_paths (fst s)) Q s'"
    by (rule keepsD [OF assms(1) _ run]) (simp add: core_at_def s)
  then show "A (fst s') \<and> Q (dstate (snd s'))" using s assms(2) [of "fst s" "fst s'"] by (simp add: core_at_def)
qed

lemma added_insert:
  "l_ID l = k \<Longrightarrow> l_Names l = names \<Longrightarrow> added r l (insert_item k names l r)"
  by (auto simp: added_def insert_item_def Let_def nth_append)

lemma added_update:
  assumes "added r0 l0 r" "\<And>l. undiffed (f l) = g (undiffed l)" "undiffed l1 = g (undiffed l0)" "l_ID l1 = l_ID l0" "l_Names l1 = l_Names l0"
  shows "added r0 l1 (update_obj (length (objs r0)) f r)"
  using assms by (auto simp: added_def Let_def update_obj_def nth_list_update)

lemma added_record_diff:
  assumes "added r0 l0 r"
  shows "added r0 l0 (record_diff (length (objs r0)) cd csz ud usz cty us gs r)"
proof -
  have "added r0 l0 (update_obj (length (objs r0)) (\<lambda>l. l\<lparr>l_CompressedDigest := cd, l_CompressedSize := csz, l_UncompressedDigest := ud,
           l_UncompressedSize := usz, l_CompressionType := cty, l_UIDs := us, l_GIDs := gs\<rparr>) r)"
    by (rule added_update [OF assms, where g = id]) (simp_all add: undiffed_def bare_def)
  then show ?thesis by (simp add: record_diff_def Let_def added_def)
qed

lemma ls_paths_record_diff: "ls_paths (record_diff x cd csz ud usz cty us gs r) = ls_paths r"
  by (simp add: record_diff_def Let_def ls_paths_def update_obj_def)

text \<open>What is kept while the new layer is completed.\<close>

definition adding :: "'d Driver \<Rightarrow> layerStore \<Rightarrow> Layer \<Rightarrow> layerStore \<times> 'd env \<Rightarrow> bool" where
  "adding drv r0 l0 s \<longleftrightarrow> (added r0 l0 (fst s) \<and> ls_paths (fst s) = ls_paths r0) \<and> drv_Exists drv (l_ID l0) (dstate (snd s))"

lemma adding_core:
  assumes "\<And>c. keeps (core_at c (drv_Exists drv (l_ID l0))) m"
  shows "keeps (adding drv r0 l0) m"
proof -
  have "keeps (\<lambda>s. (\<lambda>r. added r0 l0 r \<and> ls_paths r = ls_paths r0) (fst s) \<and> drv_Exists drv (l_ID l0) (dstate (snd s))) m"
    by (rule core_lift [OF assms]) (metis added_core)
  then show ?thesis by (simp add: adding_def [abs_def])
qed

lemma adding_lookup: "adding drv r0 l0 s \<Longrightarrow> ls_lookup (fst s) (l_ID l0) = Some (length (objs r0))"
  by (simp add: adding_def added_def Let_def ls_lookup_def)

context graph_driver
begin

lemma adding_applyDiff:
  assumes "plain_id (l_ID l0)"
  shows "keeps (adding drv r0 l0) (ls_applyDiffWithOptions drv dl (l_ID l0) lo diff)"
proof (rule keepsI2)
  fix s :: "layerStore \<times> 'd env" assume A: "adding drv r0 l0 s"
  let ?x = "length (objs r0)"
  have w: "keeps (adding drv r0 l0) (on_world m)" for m :: "(world, unit) go" by (intro adding_core core_rules)
  have sv: "keeps (adding drv r0 l0) ls_Save" by (intro adding_core core_rules)
  have d: "keeps (adding drv r0 l0) (on_driver (drv_ApplyDiff drv k p ao))" for k p ao
    by (intro adding_core core_on_driver) (simp add: keeps_def apply_keeps [OF assms])
  have rd: "keeps (adding drv r0 l0) (on_layers (record_diff ?x cd csz ud usz cty us gs))" for cd csz ud usz cty us gs
    by (simp add: keeps_def on_layers_def modify_def adding_def added_record_diff ls_paths_record_diff)
  have body: "keeps (adding drv r0 l0) (case dec of Inl e \<Rightarrow> fail e
      | Inr tar \<Rightarrow> bind (on_driver (drv_ApplyDiff drv k p (ao tar))) (\<lambda>sz. bind (on_world (MkdirAll q)) (\<lambda>_. bind (on_world (AtomicWriteFile t (ct tar))) (\<lambda>_.
          bind (on_layers (record_diff ?x cd (csz tar) (ud tar) (usz tar) cty (us tar) (gs tar))) (\<lambda>_. bind ls_Save (\<lambda>_. ret sz))))))"
    for dec k p ao q t ct cd csz ud usz cty us gs
    by (cases dec) (simp_all only: sum.case, (intro keeps_combine w sv d rd)+)
  have all: "keeps (adding drv r0 l0) (bind (on_world io) (\<lambda>_. case dec of Inl e \<Rightarrow> fail e
      | Inr tar \<Rightarrow> bind (on_driver (drv_ApplyDiff drv k p (ao tar))) (\<lambda>sz. bind (on_world (MkdirAll q)) (\<lambda>_. bind (on_world (AtomicWriteFile t (ct tar))) (\<lambda>_.
          bind (on_layers (record_diff ?x cd (csz tar) (ud tar) (usz tar) cty (us tar) (gs tar))) (\<lambda>_. bind ls_Save (\<lambda>_. ret sz)))))))"
    for io :: "(world, unit) go" and dec k p ao q t ct cd csz ud usz cty us gs
    by (intro keeps_combine w body)
  show "adding drv r0 l0 (snd (ls_applyDiffWithOptions drv dl (l_ID l0) lo diff s))"
    unfolding ls_applyDiffWithOptions_def adding_lookup [OF A] option.case Let_def
    using A keeps_snd [OF all A] by (cases "ls_IsReadWrite (fst s)") simp_all
qed

text \<open>
  \<open>Put\<close> has returned: the layer \<open>l0\<close> is recorded, in the driver, and the document lists it.
\<close>

definition put_done :: "bool \<Rightarrow> layerStore \<Rightarrow> Layer \<Rightarrow> layerStore \<times> 'd env \<Rightarrow> bool" where
  "put_done u r0 l0 s \<longleftrightarrow> adding drv r0 l0 s \<and> ls_ok u (fst s) \<and>
     (apart r0 \<longrightarrow> fs (wld (snd s)) (ls_layerspath r0) = Some (JLayers (map json_Layer (item_list (fst s)))))"

lemma save_or_remove_done:
  "ensures (\<lambda>s. adding drv r0 l0 s \<and> ls_ok u (fst s)) (ls_save_or_remove drv k) (\<lambda>_. put_done u r0 l0)"
proof (rule ensuresI)
  fix s :: "layerStore \<times> 'd env" and x s'
  assume s: "adding drv r0 l0 s \<and> ls_ok u (fst s)" and run: "ls_save_or_remove drv k s = (Inr x, s')"
  obtain res s1 where a: "attempt ls_Save s = (Inr res, s1)"
    and f: "(case res of Inr _ \<Rightarrow> ret () | Inl e \<Rightarrow> bind (ignoring (on_driver (drv_Remove drv k))) (\<lambda>_. fail e)) s1 = (Inr x, s')"
    using run unfolding ls_save_or_remove_def by (rule bind_InrE)
  have "\<exists>v. res = Inr v" using f by (cases res) (auto elim!: bind_InrE)
  then obtain v where sv: "ls_Save s = (Inr v, s')"
    using a f by (auto simp: attempt_def split: prod.splits sum.splits if_splits)
  have "adding drv r0 l0 s'" by (rule keepsD [OF adding_core [OF core_Save] _ sv]) (use s in simp)
  moreover have "ls_ok u (fst s')" by (rule keepsD [OF keeps_Save _ sv]) (use s in simp)
  moreover have "ls_paths (fst s) = ls_paths r0" using s by (simp add: adding_def)
  moreover from this have "ls_layerspath (fst s) = ls_layerspath r0" by (simp add: ls_paths_def ls_layerspath_def)
  ultimately show "put_done u r0 l0 s'"
    using ls_Save_effect [OF sv ls_okD] s apart_paths [of "fst s" r0] by (auto simp: put_done_def)
qed

lemma put_finish_done:
  "ensures (\<lambda>s. adding drv r0 l0 s \<and> ls_ok u (fst s)) (ls_put_finish drv k (length (objs r0)) sz)
     (\<lambda>(l, _) s. put_done u r0 l0 s \<and> l = copyLayer (objs (fst s) ! length (objs r0)))"
  unfolding ls_put_finish_def
  by (rule ensures_bind [OF save_or_remove_done]) (auto intro!: ensuresI)

lemma clear_flag_adding:
  assumes "undiffed l1 = l_Flags_update f (undiffed l0)"
  shows "ensures (\<lambda>s. adding drv r0 l0 s \<and> ls_ok u (fst s)) (on_layers (update_obj (length (objs r0)) (l_Flags_update f)))
    (\<lambda>_ s. adding drv r0 l1 s \<and> ls_ok u (fst s))"
proof (rule ensuresI)
  fix t :: "layerStore \<times> 'd env" and v t'
  assume t: "adding drv r0 l0 t \<and> ls_ok u (fst t)"
    and "on_layers (update_obj (length (objs r0)) (l_Flags_update f)) t = (Inr v, t')"
  then have t': "t' = (update_obj (length (objs r0)) (l_Flags_update f) (fst t), snd t)"
    by (simp add: on_layers_def modify_def)
  have l1: "l_ID l1 = l_ID l0" "l_Names l1 = l_Names l0"
    using arg_cong [OF assms, of l_ID] arg_cong [OF assms, of l_Names] by (simp_all add: undiffed_sel)
  have "added r0 l1 (fst t')"
    unfolding t' fst_conv
    by (rule added_update [where g = "l_Flags_update f" and ?l0.0 = l0])
      (use t assms l1 in \<open>simp_all add: adding_def undiffed_def bare_def\<close>)
  moreover have "ls_ok u (fst t')" unfolding t' fst_conv by (rule ls_ok_update_obj) (use t in simp_all)
  ultimately show "adding drv r0 l1 t' \<and> ls_ok u (fst t')" using t l1 by (simp add: adding_def t')
qed

text \<open>The part of \<open>Put\<close> that applies a diff to the new layer.\<close>

lemma put_diff_done:
  assumes k: "plain_id (l_ID l0)" and l1: "undiffed l1 = l_Flags_update f (undiffed l0)"
  shows "ensures (\<lambda>s. adding drv r0 l0 s \<and> ls_ok u (fst s))
    (bind (ls_save_or_remove drv (l_ID l0)) (\<lambda>_. bind (attempt (ls_applyDiffWithOptions drv dl (l_ID l0) lo b)) (\<lambda>res.
       case res of
         Inl e \<Rightarrow> bind (ignoring (ls_Delete drv (l_ID l0))) (\<lambda>_. fail e)
       | Inr sz \<Rightarrow> bind (on_layers (update_obj (length (objs r0)) (l_Flags_update f))) (\<lambda>_.
             ls_put_finish drv (l_ID l0) (length (objs r0)) sz))))
    (\<lambda>(l, _) s. put_done u r0 l1 s \<and> l = copyLayer (objs (fst s) ! length (objs r0)))"
proof -
  let ?P = "\<lambda>s. adding drv r0 l0 s \<and> ls_ok u (fst s)"
  have e1: "ensures ?P (ls_save_or_remove drv (l_ID l0)) (\<lambda>_. ?P)"
    by (rule ensures_weaken [OF save_or_remove_done]) (auto simp: put_done_def)
  have "keeps ?P (ls_applyDiffWithOptions drv dl (l_ID l0) lo b)"
    by (intro keeps_conj keeps_applyDiff adding_applyDiff k)
  then have e2: "ensures ?P (attempt (ls_applyDiffWithOptions drv dl (l_ID l0) lo b)) (\<lambda>_. ?P)"
    by (intro ensures_keeps keeps_attempt)
  have e3: "ensures ?P (case res of
         Inl e \<Rightarrow> bind (ignoring (ls_Delete drv (l_ID l0))) (\<lambda>_. fail e)
       | Inr sz \<Rightarrow> bind (on_layers (update_obj (length (objs r0)) (l_Flags_update f))) (\<lambda>_.
             ls_put_finish drv (l_ID l0) (length (objs r0)) sz))
      (\<lambda>(l, _) s. put_done u r0 l1 s \<and> l = copyLayer (objs (fst s) ! length (objs r0)))" for res
  proof (cases res)
    case (Inl e)
    then show ?thesis by (auto intro!: ensuresI elim!: bind_InrE)
  next
    case (Inr z)
    then show ?thesis using ensures_bind [OF clear_flag_adding [OF l1] put_finish_done] by simp
  qed
  show ?thesis by (rule ensures_bind [OF e1 ensures_bind [OF e2 e3]])
qed

lemma put_record_done:
  assumes run: "ls_put_record drv dl k parent names mountLabel mo flags diff s = (Inr (l, sz), s')"
    and ok: "ls_ok u (fst s)" and k: "plain_id k" "byid (fst s) k = None" "distinct names" "\<forall>n \<in> set names. byname (fst s) n = None"
    and ex: "drv_Exists drv k (dstate (snd s))"
  shows "put_done u (fst s) (new_layer k parent names mountLabel (clock (wld (snd s)))
      (if diff = None then flags else flags(incompleteFlag := None)) mo) s' \<and>
    l = copyLayer (objs (fst s') ! length (objs (fst s)))"
proof -
  let ?r = "fst s" and ?x = "length (objs (fst s))"
  let ?new = "new_layer k parent names mountLabel (clock (wld (snd s)))"
  define l0 where "l0 = ?new (if diff = None then flags else flags(incompleteFlag \<mapsto> IBool True)) mo"
  have l0: "l_ID l0 = k" "l_Names l0 = names" "l_CompressedDigest l0 = []" "l_UncompressedDigest l0 = []"
    by (simp_all add: l0_def new_layer_def)
  have "ls_ok u (insert_item k names l0 ?r)"
    using ls_ok_insert [OF ok k(2) l0(1,2) k(3,4), of "bycompressedsum ?r" "byuncompressedsum ?r"] l0(3,4)
    by (simp add: insert_item_def Let_def)
  then have start: "adding drv ?r l0 (insert_item k names l0 ?r, snd s) \<and> ls_ok u (fst (insert_item k names l0 ?r, snd s))"
    using added_insert [OF l0(1,2)] ex by (simp add: adding_def l0(1) ls_paths_def insert_item_def Let_def)
  have on: "bind (on_layers f) g s = g () (f (fst s), snd s)" for f and g :: "unit \<Rightarrow> ('d, Layer \<times> int) lop"
    by (simp add: bind_def on_layers_def modify_def)
  show ?thesis
  proof (cases diff)
    case None
    then have "ls_put_finish drv k ?x (-1) (insert_item k names l0 ?r, snd s) = (Inr (l, sz), s')"
      using run by (simp add: ls_put_record_def Let_def on l0_def)
    from ensuresD [OF put_finish_done start this] show ?thesis using None by (simp add: l0_def)
  next
    case (Some b)
    have l1: "undiffed (?new (flags(incompleteFlag := None)) mo) = l_Flags_update (\<lambda>fl. fl(incompleteFlag := None)) (undiffed l0)"
      using Some by (simp add: l0_def new_layer_def undiffed_def bare_def)
    have "plain_id (l_ID l0)" using k(1) l0(1) by simp
    note e = put_diff_done [OF this l1, where lo = "Some mo" and b = b and dl = dl, unfolded l0(1)]
    have "bind (ls_save_or_remove drv k) (\<lambda>_. bind (attempt (ls_applyDiffWithOptions drv dl k (Some mo) b)) (\<lambda>res.
       case res of
         Inl e \<Rightarrow> bind (ignoring (ls_Delete drv k)) (\<lambda>_. fail e)
       | Inr sz \<Rightarrow> bind (on_layers (update_obj ?x (l_Flags_update (\<lambda>fl. fl(incompleteFlag := None))))) (\<lambda>_.
             ls_put_finish drv k ?x sz))) (insert_item k names l0 ?r, snd s) = (Inr (l, sz), s')"
      using run by (simp add: ls_put_record_def Let_def on Some l0_def)
    from ensuresD [OF e start this] show ?thesis using Some by simp
  qed
qed

lemma driver_create_there:
  assumes "plain_id k" "ls_driver_create drv k parent tm pm opts mo writeable d = (Inr (), d')"
  shows "drv_Exists drv k d'"
  using assms create_there create_rw_there template_there by (auto simp: ls_driver_create_def split: if_splits)

lemma put_new_effect:
  assumes ok: "ls_ok u (fst s)" and k: "plain_id k"
    and run: "ls_put_new drv dl k parentLayer names mountLabel options mo writeable flags diff s = (Inr (l, sz), s')"
  shows "\<exists>l0. put_done u (fst s) l0 s' \<and> l = copyLayer (objs (fst s') ! length (objs (fst s))) \<and>
    l_ID l0 = k \<and> l_Names l0 = dedupeNames names \<and> l_Parent l0 = (case parentLayer of None \<Rightarrow> [] | Some p \<Rightarrow> l_ID p) \<and>
    l_Flags l0 = (if diff = None then flags else flags(incompleteFlag := None)) \<and> byid (fst s) k = None"
proof -
  define there where "there t \<longleftrightarrow> fst t = fst s \<and> drv_Exists drv k (dstate (snd t))" for t :: "layerStore \<times> 'd env"
  let ?parent = "case parentLayer of None \<Rightarrow> [] | Some p \<Rightarrow> l_ID p"
  have c: "\<not> byid (fst s) k \<noteq> None" "\<not> list_ex (\<lambda>n. byname (fst s) n \<noteq> None) (dedupeNames names)"
    "\<not> (lo_TemplateLayer mo \<noteq> [] \<and> ls_lookup (fst s) (lo_TemplateLayer mo) = None)"
    using run by (auto simp: ls_put_new_def Let_def split: if_splits)
  then have new: "byid (fst s) k = None" "\<forall>n \<in> set (dedupeNames names). byname (fst s) n = None"
    by (auto simp: list_ex_iff)
  note run' = run [unfolded ls_put_new_def Let_def if_not_P [OF c(1)] if_not_P [OF c(2)] if_not_P [OF c(3)]]
  have e1: "ensures (\<lambda>t. t = s) (label_do cs) (\<lambda>_ t. fst t = fst s)" for cs
    by (auto intro!: ensuresI simp: label_do_def)
  have e2: "ensures (\<lambda>t. fst t = fst s) (on_driver (ls_driver_create drv k parent tm pm opts mo writeable)) (\<lambda>_. there)"
    for parent tm pm opts
    by (auto intro!: ensuresI simp: on_driver_def there_def driver_create_there [OF k] split: prod.splits)
  have up: "keeps there (on_driver (drv_UpdateLayerIDMap drv k a b lb))" for a b lb
    unfolding keeps_def there_def on_driver_def Let_def case_prod_beta using update_keeps [OF k] by simp
  have fail: "ensures there (case res of Inr _ \<Rightarrow> ret () | Inl e \<Rightarrow> bind (ignoring (on_driver (drv_Remove drv k))) (\<lambda>_. fail e)) (\<lambda>_. there)" for res
    by (cases res) (auto intro!: ensuresI elim!: bind_InrE)
  have e3: "ensures there (if c then bind (attempt (on_driver (drv_UpdateLayerIDMap drv k a b lb))) (\<lambda>res.
       case res of Inr _ \<Rightarrow> ret () | Inl e \<Rightarrow> bind (ignoring (on_driver (drv_Remove drv k))) (\<lambda>_. fail e))
       else ret ()) (\<lambda>_. there)" for c a b lb
    using ensures_bind [OF ensures_keeps [OF keeps_attempt [OF up]] fail] by (auto intro!: ensures_if ensures_ret simp del: ret_apply)
  have e4: "ensures there (ls_put_record drv dl k ?parent (dedupeNames names) mountLabel mo flags diff)
      (\<lambda>(l, _) t. \<exists>c. put_done u (fst s) (new_layer k ?parent (dedupeNames names) mountLabel c
        (if diff = None then flags else flags(incompleteFlag := None)) mo) t \<and> l = copyLayer (objs (fst t) ! length (objs (fst s))))"
  proof (rule ensuresI)
    fix t x t' assume t: "there t" and r: "ls_put_record drv dl k ?parent (dedupeNames names) mountLabel mo flags diff t = (Inr x, t')"
    obtain l' z where x: "x = (l', z)" by (rule prod.exhaust)
    have "put_done u (fst t) (new_layer k ?parent (dedupeNames names) mountLabel (clock (wld (snd t)))
        (if diff = None then flags else flags(incompleteFlag := None)) mo) t' \<and> l' = copyLayer (objs (fst t') ! length (objs (fst t)))"
      by (rule put_record_done [OF r [unfolded x]]) (use t ok new k in \<open>simp_all add: there_def\<close>)
    then show "(case x of (l, _) \<Rightarrow> \<lambda>t. \<exists>c. put_done u (fst s) (new_layer k ?parent (dedupeNames names) mountLabel c
        (if diff = None then flags else flags(incompleteFlag := None)) mo) t \<and> l = copyLayer (objs (fst t) ! length (objs (fst s)))) t'"
      using t by (auto simp only: there_def x prod.case)
  qed
  have "\<exists>c. put_done u (fst s) (new_layer k ?parent (dedupeNames names) mountLabel c
        (if diff = None then flags else flags(incompleteFlag := None)) mo) s' \<and> l = copyLayer (objs (fst s') ! length (objs (fst s)))"
    using run'
    apply (elim bind_InrE)
    subgoal premises prems for v1 s1 v2 s2 v3 s3
      using ensuresD [OF e4 ensuresD [OF e3 ensuresD [OF e2 ensuresD [OF e1 refl prems(1)] prems(2)] prems(3)] prems(4)]
      by (simp only: prod.case)
    done
  then show ?thesis using new(1) by (auto simp: new_layer_def)
qed

text \<open>\<open>Put\<close> as a whole: what a run that succeeds has done.\<close>

lemma Put_effect:
  assumes ok: "ls_ok u (fst s)"
    and plain: "if ident = [] then \<forall>b \<in> set (rand (wld (snd s))). plain_id b else plain_id ident"
    and run: "ls_Put drv dl ident parentLayer names mountLabel options mo writeable flags diff s = (Inr (l, sz), s')"
  shows "\<exists>l0 k. put_done u (fst s) l0 s' \<and> l = copyLayer (objs (fst s') ! length (objs (fst s))) \<and>
    l_ID l0 = k \<and> l_Names l0 = dedupeNames names \<and> l_Parent l0 = (case parentLayer of None \<Rightarrow> [] | Some p \<Rightarrow> l_ID p) \<and>
    l_Flags l0 = (if diff = None then flags else flags(incompleteFlag := None)) \<and> byid (fst s) k = None \<and>
    (ident \<noteq> [] \<longrightarrow> k = ident)"
proof -
  define quiet where "quiet t \<longleftrightarrow> fst t = fst s \<and> rand (wld (snd t)) = rand (wld (snd s))" for t :: "layerStore \<times> 'd env"
  have "rand (snd (MkdirAll p w)) = rand w" for p w by (cases w rule: io_call_cases) (simp_all add: MkdirAll_def)
  then have mk: "keeps quiet (on_world (MkdirAll p))" for p
    by (simp add: keeps_def quiet_def on_world_def case_prod_beta Let_def)
  have pick: "ensures quiet (on_world (pick_id inUse ident)) (\<lambda>k t. fst t = fst s \<and> plain_id k \<and> (ident \<noteq> [] \<longrightarrow> k = ident))" for inUse
    using plain fresh_id_unused by (fastforce intro!: ensuresI simp: on_world_def quiet_def pick_id_def GenerateUnusedID_def
        split: prod.splits if_splits)
  have run': "bind (on_world (MkdirAll (ls_rundir (fst s)))) (\<lambda>_. bind (on_world (MkdirAll (ls_layerdir (fst s)))) (\<lambda>_.
      bind (on_world (pick_id (\<lambda>k. byid (fst s) k \<noteq> None) ident)) (\<lambda>k.
        ls_put_new drv dl k parentLayer names mountLabel options mo writeable flags diff))) s = (Inr (l, sz), s')"
    using run by (simp add: ls_Put_def split: if_splits)
  let ?Q = "\<lambda>l s'. \<exists>l0 k. put_done u (fst s) l0 s' \<and> l = copyLayer (objs (fst s') ! length (objs (fst s))) \<and>
    l_ID l0 = k \<and> l_Names l0 = dedupeNames names \<and> l_Parent l0 = (case parentLayer of None \<Rightarrow> [] | Some p \<Rightarrow> l_ID p) \<and>
    l_Flags l0 = (if diff = None then flags else flags(incompleteFlag := None)) \<and> byid (fst s) k = None \<and>
    (ident \<noteq> [] \<longrightarrow> k = ident)"
  have new: "ensures (\<lambda>t. fst t = fst s \<and> plain_id k \<and> (ident \<noteq> [] \<longrightarrow> k = ident))
      (ls_put_new drv dl k parentLayer names mountLabel options mo writeable flags diff) (\<lambda>x. ?Q (fst x))" for k
  proof (rule ensuresI)
    fix t x t' assume t: "fst t = fst s \<and> plain_id k \<and> (ident \<noteq> [] \<longrightarrow> k = ident)"
      and r: "ls_put_new drv dl k parentLayer names mountLabel options mo writeable flags diff t = (Inr x, t')"
    have okt: "ls_ok u (fst t)" and pk: "plain_id k" and tk: "fst t = fst s" using ok t by simp_all
    obtain l' z where x: "x = (l', z)" by (rule prod.exhaust)
    from put_new_effect [OF okt pk r [unfolded x]] t show "?Q (fst x) t'" unfolding tk x fst_conv by blast
  qed
  have "quiet s" by (simp add: quiet_def)
  then show ?thesis
    using run'
    apply (elim bind_InrE)
    subgoal premises prems for v1 s1 v2 s2 k s3
      using ensuresD [OF new ensuresD [OF pick keepsD [OF mk keepsD [OF mk prems(1,2)] prems(3)] prems(4)] prems(5)]
      by (simp only: fst_conv)
    done
qed

end

end
