(* ===== verification/LayersTerm.thy ===== *)
theory LayersTerm
  imports LayersFun
begin

text \<open>
  The loops of the layer store end.

  \<open>ls_unmount_loop\<close> and \<open>climb_loop\<close> are the loops of \<open>Delete\<close> and \<open>ParentOwners\<close> without a bound on
  the number of rounds; \<open>None\<close> stands for a loop that does not return.  The theorems say that they
  return, with the result of the bounded loops \<open>ls_unmount_all\<close> and \<open>climb_owners\<close> of the model.
\<close>

section \<open>Climbing to the root\<close>

partial_function (option) climb_loop :: "(string \<Rightarrow> gerr + (int \<times> int)) \<Rightarrow> (string \<Rightarrow> gerr + (int \<times> int)) \<Rightarrow> IDMappings \<Rightarrow> int \<Rightarrow> int \<Rightarrow>
    string \<Rightarrow> int list \<Rightarrow> int list \<Rightarrow> (gerr + (int list \<times> int list)) option" where
  "climb_loop stat lstat m ru rg dir us gs =
     (if dir = [] \<or> dir = ''/'' then Some (Inr (us, gs))
      else case stat dir of
        Inl e \<Rightarrow> Some (Inl e)
      | Inr (u, g) \<Rightarrow>
          (case lstat dir of
             Inl e \<Rightarrow> Some (Inl e)
           | Inr (lu, lg) \<Rightarrow>
               climb_loop stat lstat m ru rg (Dir dir)
                 (unmapped m (\<lambda>i. \<lparr>UID = i, GID = rg\<rparr>) lu (unmapped m (\<lambda>i. \<lparr>UID = i, GID = rg\<rparr>) u us))
                 (unmapped m (\<lambda>i. \<lparr>UID = ru, GID = i\<rparr>) lg (unmapped m (\<lambda>i. \<lparr>UID = ru, GID = i\<rparr>) g gs))))"

lemma climb_loop_ends:
  assumes "rooted_path dir" "length dir \<le> n"
  shows "climb_loop stat lstat m ru rg dir us gs = Some (climb_owners stat lstat m ru rg n dir (us, gs))"
  using assms
proof (induction n arbitrary: dir us gs)
  case 0
  then show ?case by (simp add: rooted_path_def)
next
  case (Suc n)
  show ?case
  proof (cases "dir = ''/''")
    case True
    then show ?thesis by (simp add: climb_loop.simps)
  next
    case False
    then have d: "rooted_path (Dir dir)" "length (Dir dir) \<le> n" using Dir_climbs [of dir] Suc.prems by simp_all
    show ?thesis
      using False Suc.IH [OF d]
      by (subst climb_loop.simps) (auto split: sum.splits simp: rooted_path_def)
  qed
qed

section \<open>Unmounting\<close>

partial_function (option) ls_unmount_loop :: "'d Driver \<Rightarrow> string \<Rightarrow> int \<Rightarrow> layerStore \<times> 'd env \<Rightarrow>
    ((gerr + unit) \<times> layerStore \<times> 'd env) option" where
  "ls_unmount_loop drv ident mountCount s =
     (if mountCount > 0
      then (case ls_Unmount drv ident False s of
              (Inl e, s1) \<Rightarrow> Some (Inl e, s1)
            | (Inr _, s1) \<Rightarrow>
                (case ls_Mounted ident s1 of
                   (Inl e, s2) \<Rightarrow> Some (Inl e, s2)
                 | (Inr c, s2) \<Rightarrow> ls_unmount_loop drv ident c s2))
      else Some (Inr (), s))"

text \<open>The mount count of the record \<open>x\<close> after the mounts \<open>ms\<close> are merged.\<close>

definition merge_count :: "(string \<Rightarrow> nat option) \<Rightarrow> nat \<Rightarrow> layerMountPoint list \<Rightarrow> int" where
  "merge_count lk x ms = fold (\<lambda>m c. if m_MountPoint m \<noteq> [] \<and> lk (m_ID m) = Some x then m_MountCount m else c) ms 0"

lemma merge_mounts_count:
  assumes "x \<in> set (items r)" "x < length (objs r)"
  shows "l_MountCount (objs (merge_mounts ms r) ! x) = merge_count (ls_lookup r) x ms"
proof -
  have lk: "ls_lookup (set_mount m r) = ls_lookup r" "length (objs (set_mount m r)) = length (objs r)" for m r
    by (auto simp: set_mount_def fun_eq_iff ls_lookup_def update_obj_def split: option.splits sum.splits)
  have one: "l_MountCount (objs (set_mount m r) ! x) =
      (if m_MountPoint m \<noteq> [] \<and> ls_lookup r (m_ID m) = Some x then m_MountCount m else l_MountCount (objs r ! x))"
    if "x < length (objs r)" for m r
    using that by (auto simp: set_mount_def update_obj_def nth_list_update split: option.splits)
  have all: "l_MountCount (objs (fold set_mount ms r) ! x) =
      fold (\<lambda>m c. if m_MountPoint m \<noteq> [] \<and> ls_lookup r (m_ID m) = Some x then m_MountCount m else c) ms (l_MountCount (objs r ! x))"
    if "x < length (objs r)" for r
    using that by (induction ms arbitrary: r) (simp_all add: one lk)
  let ?f = "\<lambda>x. update_obj x (\<lambda>l. l\<lparr>l_MountPoint := [], l_MountCount := 0\<rparr>)"
  have clear: "length (objs (fold ?f xs r)) = length (objs r) \<and>
      (x \<in> set xs \<or> l_MountCount (objs r ! x) = 0 \<longrightarrow> l_MountCount (objs (fold ?f xs r) ! x) = 0)"
    if "x < length (objs r)" for xs r
    using that
  proof (induction xs arbitrary: r)
    case (Cons a xs)
    show ?case
      using Cons.IH [of "?f a r"] Cons.prems by (cases "a = x") (auto simp: update_obj_def nth_list_update)
  qed simp
  have "ls_core (clear_mounts r) = ls_core r"
    unfolding clear_mounts_def by (rule fold_invariant [where Q = "\<lambda>_. True" and P = "\<lambda>q. ls_core q = ls_core r"])
      (simp_all add: ls_core_update_obj)
  then have "ls_lookup ((clear_mounts r)\<lparr>bymount := Map.empty\<rparr>) = ls_lookup r"
    by (intro ls_coreD(11)) simp
  moreover have "l_MountCount (objs ((clear_mounts r)\<lparr>bymount := Map.empty\<rparr>) ! x) = 0"
    "x < length (objs ((clear_mounts r)\<lparr>bymount := Map.empty\<rparr>))"
    using clear [OF assms(2), of "items r"] assms by (simp_all add: clear_mounts_def)
  ultimately show ?thesis unfolding merge_mounts_def merge_count_def by (simp add: all)
qed

lemma merge_count_bound:
  assumes "\<And>m. m \<in> set ms \<Longrightarrow> m_MountPoint m \<noteq> [] \<Longrightarrow> lk (m_ID m) = Some x \<Longrightarrow> nat (m_MountCount m) \<le> n"
  shows "nat (merge_count lk x ms) \<le> n"
  unfolding merge_count_def
  by (rule fold_invariant [where Q = "\<lambda>m. m \<in> set ms" and P = "\<lambda>c. nat c \<le> n"]) (auto intro: assms)

text \<open>
  The mount count of the layer \<open>k\<close>, kept in the record \<open>x\<close>, is at most \<open>n\<close> in memory and on disk, and
  the file with the mounts is no lock file.
\<close>

definition mounts_file_ok :: "layerStore \<Rightarrow> bool" where
  "mounts_file_ok r \<longleftrightarrow> ls_mountspath r \<noteq> lk_file (ls_lockfile r) \<and>
     (\<forall>ml. ls_mountsLockfile r = Some ml \<longrightarrow> ls_mountspath r \<noteq> lk_file ml)"

definition counted :: "string \<Rightarrow> nat \<Rightarrow> nat \<Rightarrow> layerStore \<times> 'd env \<Rightarrow> bool" where
  "counted k x n s \<longleftrightarrow> ls_ok False (fst s) \<and> ls_lookup (fst s) k = Some x \<and> mounts_file_ok (fst s) \<and>
     nat (l_MountCount (objs (fst s) ! x)) \<le> n \<and>
     (\<forall>c ms. fs (wld (snd s)) (ls_mountspath (fst s)) = Some c \<longrightarrow> decode_mounts c = Some ms \<longrightarrow>
        nat (merge_count (ls_lookup (fst s)) x ms) \<le> n)"

lemma counted_mono: "counted k x n s \<Longrightarrow> n \<le> n' \<Longrightarrow> counted k x n' s"
  by (fastforce simp: counted_def)

lemma mounts_file_ok_paths: "ls_paths r = ls_paths r' \<Longrightarrow> mounts_file_ok r = mounts_file_ok r'"
  by (cases "ls_mountsLockfile r"; cases "ls_mountsLockfile r'") (auto simp: mounts_file_ok_def ls_paths_def ls_mountspath_def)

text \<open>A change of the state that keeps the core, the paths and the file, and does not raise the count.\<close>

lemma counted_step:
  assumes "counted k x n s" "ls_ok False (fst s')" "ls_core (fst s') = ls_core (fst s)" "ls_paths (fst s') = ls_paths (fst s)"
    "fs (wld (snd s')) (ls_mountspath (fst s)) = fs (wld (snd s)) (ls_mountspath (fst s))"
    "nat (l_MountCount (objs (fst s') ! x)) \<le> n"
  shows "counted k x n s'"
proof -
  have "ls_mountspath (fst s') = ls_mountspath (fst s)" using assms(4) by (simp add: ls_mountspath_def ls_paths_def)
  then show ?thesis
    using assms ls_coreD(11) [OF assms(3)] mounts_file_ok_paths [OF assms(4)] unfolding counted_def by simp
qed

lemma counted_lock:
  assumes "lock_frame m"
  shows "keeps (counted k x n) (on_mounts_lock m)"
proof (rule keepsI)
  fix s :: "layerStore \<times> 'b env" and res s'
  assume s: "counted k x n s" and run: "on_mounts_lock m s = (res, s')"
  have ok: "ls_ok False (fst s')" by (rule keepsD [OF keeps_on_mounts_lock _ run]) (use s in \<open>simp add: counted_def\<close>)
  have c: "core_at (ls_core (fst s), ls_paths (fst s)) (\<lambda>_. True) s'"
    by (rule keepsD [OF core_on_lock(2) _ run]) (simp_all add: core_at_def lock_frame_file [OF assms])
  have "file_at (ls_mountspath (fst s)) (fs (wld (snd s)) (ls_mountspath (fst s))) s'"
    by (rule keepsD [OF file_locks(2) [OF assms] _ run]) (use s in \<open>simp add: file_at_def counted_def mounts_file_ok_def\<close>)
  moreover have "objs (fst s') = objs (fst s)"
    using run by (auto simp: on_mounts_lock_def split: option.splits prod.splits)
  ultimately show "counted k x n s'"
    by (intro counted_step [OF s ok]) (use c s in \<open>simp_all add: core_at_def file_at_def counted_def\<close>)
qed

lemma counted_item:
  assumes "counted k x n s"
  shows "x \<in> set (items (fst s))" "x < length (objs (fst s))"
  using ls_lookup_item [of False "fst s" k x] assms by (simp_all add: counted_def)

lemma counted_loadMounts: "keeps (counted k x n) ls_loadMounts"
proof (rule keepsI)
  fix s :: "layerStore \<times> 'a env" and res s'
  assume s: "counted k x n s" and run: "ls_loadMounts s = (res, s')"
  note it = counted_item [OF s]
  have ok: "ls_ok False (fst s')" by (rule keepsD [OF keeps_loadMounts _ run]) (use s in \<open>simp add: counted_def\<close>)
  have c: "core_at (ls_core (fst s), ls_paths (fst s)) (\<lambda>_. True) s'"
    by (rule keepsD [OF core_loadMounts _ run]) (simp add: core_at_def)
  have "file_at (ls_mountspath (fst s)) (fs (wld (snd s)) (ls_mountspath (fst s))) s'"
    by (rule keepsD [OF file_loadMounts _ run]) (use s in \<open>simp add: file_at_def counted_def mounts_file_ok_def\<close>)
  moreover have "objs (fst s') = objs (fst s) \<or> fst s' = merge_mounts [] (fst s) \<or>
      (\<exists>c ms. fs (wld (snd s)) (ls_mountspath (fst s)) = Some c \<and> decode_mounts c = Some ms \<and> fst s' = merge_mounts ms (fst s))"
    using run
    by (cases "wld (snd s)" rule: io_call_cases)
      (auto simp: ls_loadMounts_def on_world_def ReadFile_def on_layers_def modify_def split: option.splits if_splits)
  then have "nat (l_MountCount (objs (fst s') ! x)) \<le> n"
    using s merge_mounts_count [OF it] by (auto simp: counted_def) (simp add: merge_count_def)
  ultimately show "counted k x n s'"
    by (intro counted_step [OF s ok]) (use c in \<open>simp_all add: core_at_def file_at_def\<close>)
qed

lemma counted_refresh: "keeps (counted k x n) ls_refresh_mounts"
  unfolding ls_refresh_mounts_def
  by (intro keeps_combine counted_lock) (auto intro: keeps_ret counted_loadMounts simp del: ret_apply)

text \<open>After \<open>saveMounts\<close> the count in memory also bounds the one on disk.\<close>

lemma mounts_of_count:
  assumes "store_ok l_ID l_Names r" "x \<in> set (items r)"
  shows "nat (merge_count (ls_lookup r) x (mounts_of r)) \<le> nat (l_MountCount (objs r ! x))"
proof (rule merge_count_bound)
  fix m assume "m \<in> set (mounts_of r)" and x: "ls_lookup r (m_ID m) = Some x"
  then obtain y where y: "y \<in> set (items r)" "m_ID m = l_ID (objs r ! y)" "m_MountCount m = l_MountCount (objs r ! y)"
    by (auto simp: mounts_of_def item_list_def)
  then have "ls_lookup r (m_ID m) = Some y" using store_okD(3) [OF assms(1) y(1)] by (simp add: ls_lookup_def)
  then show "nat (m_MountCount m) \<le> nat (l_MountCount (objs r ! x))" using x y(3) by simp
qed

definition mounted_upto :: "string \<Rightarrow> nat \<Rightarrow> nat \<Rightarrow> layerStore \<times> 'd env \<Rightarrow> bool" where
  "mounted_upto k x n s \<longleftrightarrow> ls_ok False (fst s) \<and> ls_lookup (fst s) k = Some x \<and> apart (fst s) \<and>
     nat (l_MountCount (objs (fst s) ! x)) \<le> n"

lemma saveMounts_counted: "ensures (mounted_upto k x n) ls_saveMounts (\<lambda>_. counted k x n)"
proof (rule ensuresI)
  fix s :: "layerStore \<times> 'a env" and v s'
  assume s: "mounted_upto k x n s" and run: "ls_saveMounts s = (Inr v, s')"
  let ?r = "fst s"
  have ok: "ls_ok False ?r" and lk: "ls_lookup ?r k = Some x" and ap: "apart ?r" and cnt: "nat (l_MountCount (objs ?r ! x)) \<le> n"
    using s by (simp_all add: mounted_upto_def)
  note it = ls_lookup_item [OF ok lk]
  have w: "file_at (ls_mountspath ?r) (Some (JMounts (mounts_of ?r))) s'"
    and m: "fst s' = merge_mounts (mounts_of ?r) ?r \<or> fst s' = merge_mounts [] ?r"
    using ensuresD [OF saveMounts_writes [of ?r] _ run] ap by simp_all
  have core: "ls_core (fst s') = ls_core ?r" "ls_paths (fst s') = ls_paths ?r"
    using m by (auto simp: ls_core_merge_mounts ls_paths_merge_mounts)
  have mp: "ls_mountspath (fst s') = ls_mountspath ?r" using core(2) by (simp add: ls_mountspath_def ls_paths_def)
  have bound: "nat (merge_count (ls_lookup ?r) x (mounts_of ?r)) \<le> n"
    using mounts_of_count [OF ls_okD [OF ok] it(1)] cnt by simp
  have "nat (l_MountCount (objs (fst s') ! x)) \<le> n"
    using m bound merge_mounts_count [OF it(1,3)] by (auto simp: merge_count_def)
  moreover have "ls_ok False (fst s')" by (rule keepsD [OF keeps_saveMounts ok run])
  ultimately show "counted k x n s'"
    using w lk bound unfolding counted_def mp ls_coreD(11) [OF core(1)]
    by (auto simp: file_at_def decode_mounts_def mounts_file_ok_def mp)
qed

lemma counted_Mounted:
  "keeps (counted k x n :: layerStore \<times> 'a env \<Rightarrow> bool) (ls_Mounted k)"
  "ensures (counted k x n :: layerStore \<times> 'a env \<Rightarrow> bool) (ls_Mounted k) (\<lambda>c _. nat c \<le> n)"
proof -
  let ?get = "\<lambda>s :: layerStore \<times> 'a env. case ls_lookup (fst s) k of
        None \<Rightarrow> (Inl ErrLayerUnknown, s) | Some x \<Rightarrow> (Inr (l_MountCount (objs (fst s) ! x)), s)"
  have g: "keeps (counted k x n) ?get" by (rule keepsI2) (simp split: option.splits)
  have k: "keeps (counted k x n) (with_mounts RLock (bind ls_refresh_mounts (\<lambda>_. ?get)))"
    unfolding with_mounts_def by (intro keeps_combine counted_lock counted_refresh g) simp_all
  show "keeps (counted k x n :: layerStore \<times> 'a env \<Rightarrow> bool) (ls_Mounted k)"
    by (rule keepsI2) (auto simp: ls_Mounted_def intro: keeps_snd [OF k])
  have "ensures (counted k x n) ?get (\<lambda>c s. counted k x n s \<and> nat c \<le> n)"
    by (auto intro!: ensuresI simp: counted_def)
  then have e: "ensures (counted k x n) (bind ls_refresh_mounts (\<lambda>_. ?get)) (\<lambda>c s. counted k x n s \<and> nat c \<le> n)"
    by (rule ensures_bind [OF ensures_keeps [OF counted_refresh]])
  have "keeps (\<lambda>s :: layerStore \<times> 'a env. counted k x n s \<and> nat c \<le> n) (on_mounts_lock (on_fst Unlock))" for c :: int
    by (rule keeps_conj [OF counted_lock]) (simp_all add: keeps_def)
  from ensures_bind [OF ensures_keeps [OF counted_lock [of RLock]] ensures_deferred [OF e this]]
  have "ensures (counted k x n) (with_mounts RLock (bind ls_refresh_mounts (\<lambda>_. ?get))) (\<lambda>c s. counted k x n s \<and> nat c \<le> n)"
    unfolding with_mounts_def by simp
  then show "ensures (counted k x n :: layerStore \<times> 'a env \<Rightarrow> bool) (ls_Mounted k) (\<lambda>c _. nat c \<le> n)"
    by (auto simp: ensures_def ls_Mounted_def split: if_splits)
qed

lemma apart_mounts_file: "apart r \<Longrightarrow> mounts_file_ok r"
  by (simp add: apart_def mounts_file_ok_def)

text \<open>The files of the store stay apart.\<close>

definition counting :: "string \<Rightarrow> nat \<Rightarrow> nat \<Rightarrow> layerStore \<times> 'd env \<Rightarrow> bool" where
  "counting k x n s \<longleftrightarrow> counted k x n s \<and> apart (fst s)"

lemma keeps_apart:
  assumes "\<And>c. keeps (core_at c (\<lambda>_. True)) m"
  shows "keeps (\<lambda>s. apart (fst s)) m"
proof -
  have "keeps (\<lambda>s. apart (fst s) \<and> True) m"
    by (rule core_lift [where Q = "\<lambda>_. True", OF assms]) (use apart_paths in blast)
  then show ?thesis by simp
qed

lemma counting_lock:
  "lock_frame m \<Longrightarrow> keeps (counting k x n) (on_mounts_lock m)"
  unfolding counting_def [abs_def]
  by (intro keeps_conj counted_lock keeps_apart core_on_lock(2)) (simp_all add: lock_frame_file)

lemma counting_refresh: "keeps (counting k x n) ls_refresh_mounts"
  unfolding counting_def [abs_def] by (intro keeps_conj counted_refresh keeps_apart core_rules)

lemma counting_Mounted: "keeps (counting k x n) (ls_Mounted k)"
  unfolding counting_def [abs_def] by (intro keeps_conj counted_Mounted keeps_apart core_rules)

text \<open>One round: the count goes down.\<close>

lemma save_after:
  assumes "ls_ok False (f (fst s))" "ls_core (f (fst s)) = ls_core (fst s)" "ls_paths (f (fst s)) = ls_paths (fst s)"
    "counting k x n s" "nat (l_MountCount (objs (f (fst s)) ! x)) \<le> n'"
    "bind (on_layers f) (\<lambda>_. bind ls_saveMounts (\<lambda>_. ret b)) s = (Inr v, s')"
  shows "counting k x n' s'"
proof -
  let ?s1 = "(f (fst s), snd s)"
  have run: "ls_saveMounts ?s1 = (Inr (), s')"
    using assms(6) by (auto simp: bind_def on_layers_def modify_def split: prod.splits sum.splits)
  have ap: "apart (f (fst s))" using apart_paths [OF assms(3)] assms(4) by (simp add: counting_def)
  have "mounted_upto k x n' ?s1"
    using assms ap ls_coreD(11) [OF assms(2)] by (simp add: mounted_upto_def counting_def counted_def)
  then have "counted k x n' s'" using ensuresD [OF saveMounts_counted _ run] by blast
  moreover have "apart (fst s')" by (rule keepsD [OF keeps_apart [OF core_saveMounts] _ run]) (simp add: ap)
  ultimately show ?thesis by (simp add: counting_def)
qed

lemma unmount_layer_counts:
  "ensures (counting k x (Suc n)) (ls_unmount_layer drv k x) (\<lambda>_. counting k x n)"
proof (rule ensuresI)
  fix s :: "layerStore \<times> 'a env" and v s'
  assume s: "counting k x (Suc n) s" and run: "ls_unmount_layer drv k x s = (Inr v, s')"
  have ok: "ls_ok False (fst s)" and cnt: "nat (l_MountCount (objs (fst s) ! x)) \<le> Suc n"
    and x: "x < length (objs (fst s))"
    using s counted_item by (auto simp: counting_def counted_def dest: ls_lookup_item(3))
  show "counting k x n s'"
  proof (cases "l_MountCount (objs (fst s) ! x) > 1")
    case True
    let ?f = "update_obj x (\<lambda>l. l\<lparr>l_MountCount := l_MountCount l - 1\<rparr>)"
    have "bind (on_layers ?f) (\<lambda>_. bind ls_saveMounts (\<lambda>_. ret True)) s = (Inr v, s')"
      using run True by (simp add: ls_unmount_layer_def Let_def)
    moreover have "nat (l_MountCount (objs (?f (fst s)) ! x)) \<le> n" using x True cnt by (simp add: update_obj_def)
    ultimately show ?thesis
      by (intro save_after [where f = ?f, OF _ _ _ s]) (simp_all add: ls_ok_mount_update [OF ok] ls_core_update_obj)
  next
    case False
    let ?mp = "l_MountPoint (objs (fst s) ! x)"
    have "bind (attempt (on_driver (drv_Put drv k))) (\<lambda>res. if res = Inr () \<or> res = Inl NotExist then ls_unmounted x ?mp
             else case res of Inl e \<Rightarrow> fail e | Inr _ \<Rightarrow> ret True) s = (Inr v, s')"
      using run False by (simp add: ls_unmount_layer_def Let_def)
    then obtain res s1 where a: "attempt (on_driver (drv_Put drv k)) s = (Inr res, s1)"
      and r: "(if res = Inr () \<or> res = Inl NotExist then ls_unmounted x ?mp
             else case res of Inl e \<Rightarrow> fail e | Inr _ \<Rightarrow> ret True) s1 = (Inr v, s')"
      by (rule bind_InrE)
    have s1: "fst s1 = fst s \<and> wld (snd s1) = wld (snd s)"
    proof -
      have "keeps (\<lambda>t. fst t = fst s \<and> wld (snd t) = wld (snd s)) (on_driver (drv_Put drv k))"
        by (simp add: keeps_def on_driver_def Let_def case_prod_beta)
      from keepsD [OF keeps_attempt [OF this] _ a] show ?thesis by simp
    qed
    have un: "ls_unmounted x ?mp s1 = (Inr v, s')" using r by (cases res) (auto split: if_splits)
    let ?f = "\<lambda>r. (update_obj x (\<lambda>l. l\<lparr>l_MountCount := l_MountCount l - 1, l_MountPoint := []\<rparr>) r)
         \<lparr>bymount := (if ?mp \<noteq> [] then (bymount r)(?mp := None) else bymount r)\<rparr>"
    have c: "counting k x (Suc n) s1" using s s1 by (simp add: counting_def counted_def)
    have ok1: "ls_ok False (?f (fst s1))"
      unfolding conjunct1 [OF s1] by (rule ls_ok_bymount_update(2) [OF ok ls_ok_mount_update(3) [OF ok] x])
    have core: "ls_core (?f (fst s1)) = ls_core (fst s1)" "ls_paths (?f (fst s1)) = ls_paths (fst s1)"
      by (simp_all add: ls_core_update_obj)
    have "nat (l_MountCount (objs (?f (fst s1)) ! x)) \<le> n" using x False by (simp add: s1 update_obj_def)
    from save_after [where f = ?f, OF ok1 core c this un [unfolded ls_unmounted_def]] show ?thesis .
  qed
qed

lemma Unmount_counts: "ensures (counting k x (Suc n)) (ls_Unmount drv k False) (\<lambda>_. counting k x n)"
proof -
  have found: "ensures (counting k x (Suc n)) (ls_unmount_found drv k False) (\<lambda>_. counting k x n)"
  proof (rule ensuresI)
    fix s :: "layerStore \<times> 'a env" and v s'
    assume s: "counting k x (Suc n) s" and run: "ls_unmount_found drv k False s = (Inr v, s')"
    have "ls_find_mounted (fst s) k = Some x" using s by (simp add: counting_def counted_def ls_find_mounted_def)
    moreover have "update_obj x (\<lambda>l. l) (fst s) = fst s" by (simp add: update_obj_def)
    ultimately have "ls_unmount_layer drv k x s = (Inr v, s')"
      using run by (simp add: ls_unmount_found_def bind_def on_layers_def modify_def)
    from ensuresD [OF unmount_layer_counts s this] show "counting k x n s'" .
  qed
  have lock: "ensures (counting k x (Suc n)) (on_mounts_lock Lock) (\<lambda>_. counting k x (Suc n))"
    by (intro ensures_keeps counting_lock) simp
  have touch: "ensures (counting k x (Suc n)) (deferred (on_mounts_lock Touch) (ls_unmount_found drv k False)) (\<lambda>_. counting k x n)"
    by (rule ensures_deferred [OF found]) (intro counting_lock, simp)
  have "ensures (counting k x (Suc n)) (bind ls_refresh_mounts (\<lambda>_. deferred (on_mounts_lock Touch) (ls_unmount_found drv k False)))
      (\<lambda>_. counting k x n)"
    by (rule ensures_bind [OF ensures_keeps [OF counting_refresh] touch])
  then have "ensures (counting k x (Suc n)) (deferred (on_mounts_lock (on_fst Unlock)) (bind ls_refresh_mounts (\<lambda>_.
      deferred (on_mounts_lock Touch) (ls_unmount_found drv k False)))) (\<lambda>_. counting k x n)"
    by (rule ensures_deferred) (intro counting_lock, simp)
  from ensures_bind [OF lock this] show ?thesis
    unfolding ensures_def ls_Unmount_def with_mounts_def by (auto split: if_splits)
qed

section \<open>The loop of Delete\<close>

lemma unmount_loop_ends:
  assumes "counting k x n s" "nat c \<le> n" "n \<le> fuel"
  shows "ls_unmount_loop drv k c s = Some (ls_unmount_all drv k fuel c s)"
  using assms
proof (induction fuel arbitrary: n c s)
  case 0
  then show ?case by (subst ls_unmount_loop.simps) simp
next
  case (Suc fuel)
  show ?case
  proof (cases "c > 0")
    case False
    then show ?thesis by (subst ls_unmount_loop.simps) simp
  next
    case True
    then obtain n' where n': "n = Suc n'" using Suc.prems(2) by (cases n) auto
    obtain r1 s1 where u: "ls_Unmount drv k False s = (r1, s1)" by (rule prod.exhaust)
    obtain r2 s2 where m: "ls_Mounted k s1 = (r2, s2)" by (rule prod.exhaust)
    show ?thesis
    proof (cases "isl r1 \<or> isl r2")
      case True
      then show ?thesis
        using \<open>c > 0\<close> u m by (subst ls_unmount_loop.simps) (cases r1; cases r2; simp add: bind_def)
    next
      case False
      then obtain v c' where r: "r1 = Inr v" "r2 = Inr c'" by (cases r1; cases r2) auto
      have c1: "counting k x n' s1" using ensuresD [OF Unmount_counts _ u [unfolded r]] Suc.prems(1) n' by simp
      have c2: "counting k x n' s2" by (rule keepsD [OF counting_Mounted c1 m])
      have "counted k x n' s1" using c1 by (simp add: counting_def)
      from ensuresD [OF counted_Mounted(2) this m [unfolded r]] have "nat c' \<le> n'" .
      from Suc.IH [OF c2 this] Suc.prems(3) n' show ?thesis
        using \<open>c > 0\<close> u m r by (subst ls_unmount_loop.simps) (simp add: bind_def)
    qed
  qed
qed

lemma member_le_sum: "x \<in> set xs \<Longrightarrow> f x \<le> sum_list (map f xs)" for f :: "'a \<Rightarrow> nat"
  by (simp add: member_le_sum_list)

lemma fuel_counts:
  assumes "ls_ok False (fst s)" "apart (fst s)" "ls_lookup (fst s) k = Some x"
  shows "counting k x (unmount_fuel s) s"
proof -
  let ?r = "fst s"
  have x: "x \<in> set (items ?r)" using ls_lookup_item [OF assms(1,3)] by simp
  then have mem: "nat (l_MountCount (objs ?r ! x)) \<le> sum_list (map (\<lambda>l. nat (l_MountCount l)) (item_list ?r))"
    by (intro member_le_sum [of _ _ "\<lambda>l. nat (l_MountCount l)"]) (simp add: item_list_def)
  have "nat (merge_count (ls_lookup ?r) x ms) \<le> unmount_fuel s"
    if "fs (wld (snd s)) (ls_mountspath ?r) = Some c" "decode_mounts c = Some ms" for c ms
  proof -
    have "c = JMounts ms \<or> ms = []" using that(2) by (auto simp: decode_mounts_def split: content.splits list.splits)
    moreover have "nat (merge_count (ls_lookup ?r) x ms) \<le> sum_list (map (\<lambda>m. nat (m_MountCount m)) ms)"
      by (rule merge_count_bound) (auto intro: member_le_sum [of _ _ "\<lambda>m. nat (m_MountCount m)"])
    ultimately show ?thesis using that(1) by (auto simp: unmount_fuel_def)
  qed
  then show ?thesis
    using assms mem by (auto simp: counting_def counted_def apart_mounts_file unmount_fuel_def)
qed

end
