(* ===== verification/LayersProps.thy ===== *)
theory LayersProps
  imports LayersTerm
begin

text \<open>
  What the layer store guarantees: the theorems of \<^verbatim>\<open>layers.go\<close>, on the invariant of
  \<open>LayersInv\<close>.
\<close>

section \<open>Steps\<close>

text \<open>
  The steps of a process that holds a layer store, with any arguments and any outcome.
  \<open>u\<close> excludes the two operations that do not maintain the map of uncompressed digests.  \<open>Load\<close> is a
  step on a file that is missing, does not parse or holds a well-formed document; the environment
  changes the lock objects, the driver state, the labels and the world.
\<close>

inductive ls_step :: "'d Driver \<Rightarrow> diffLib \<Rightarrow> bool \<Rightarrow> layerStore \<times> 'd env \<Rightarrow> layerStore \<times> 'd env \<Rightarrow> bool" for drv dl u where
  put: "ls_Put drv dl ident parent names lab opts mo writeable fl diff s = (pres, s') \<Longrightarrow> ls_step drv dl u s s'"
| additional: "ls_PutAdditionalLayer drv ident parent [] aLayer s = (lres, s') \<Longrightarrow>
    (\<And>info. al_Info aLayer = Inr info \<Longrightarrow> l_Names info = [] \<and> (u \<longrightarrow> l_UncompressedDigest info = [])) \<Longrightarrow> ls_step drv dl u s s'"
| setNames: "ls_SetNames ident names s = (ures, s') \<Longrightarrow> ls_step drv dl u s s'"
| setMetadata: "ls_SetMetadata ident md s = (ures, s') \<Longrightarrow> ls_step drv dl u s s'"
| setFlag: "ls_SetFlag ident flag v s = (ures, s') \<Longrightarrow> ls_step drv dl u s s'"
| clearFlag: "ls_ClearFlag ident flag s = (ures, s') \<Longrightarrow> ls_step drv dl u s s'"
| setBigData: "ls_SetBigData ident key data s = (ures, s') \<Longrightarrow> ls_step drv dl u s s'"
| mounted: "ls_Mounted ident s = (ires, s') \<Longrightarrow> ls_step drv dl u s s'"
| mount: "ls_Mount drv ident options s = (sres, s') \<Longrightarrow> ls_step drv dl u s s'"
| unmount: "ls_Unmount drv ident force s = (bres, s') \<Longrightarrow> ls_step drv dl u s s'"
| delete: "ls_Delete drv ident s = (ures, s') \<Longrightarrow> ls_step drv dl u s s'"
| wipe: "ls_Wipe drv ks s = (ures, s') \<Longrightarrow> ls_step drv dl u s s'"
| applyDiff: "ls_ApplyDiff drv dl to diff s = (ires, s') \<Longrightarrow> ls_step drv dl u s s'"
| differ: "ls_ApplyDiffWithDiffer drv to aopts df s = (dres, s') \<Longrightarrow> ls_step drv dl u s s'"
| staging: "ls_ApplyDiffFromStagingDirectory drv ident dir out aopts s = (ures, s') \<Longrightarrow> \<not> u \<Longrightarrow> ls_step drv dl u s s'"
| save: "ls_Save s = (ures, s') \<Longrightarrow> ls_step drv dl u s s'"
| load: "ls_Load drv s = (ures, s') \<Longrightarrow> disk_ok s \<Longrightarrow> ls_step drv dl u s s'"
| reload: "ls_ReloadIfChanged drv s = (ures, s') \<Longrightarrow> disk_ok s \<Longrightarrow> ls_step drv dl u s s'"
| environment: "ls_step drv dl u (r, e) (r\<lparr>ls_lockfile := l, ls_mountsLockfile := ml\<rparr>, e')"

lemma ls_step_ok: "ls_step drv dl u s s' \<Longrightarrow> ls_ok u (fst s) \<Longrightarrow> ls_ok u (fst s')"
proof (induction rule: ls_step.induct)
  case (additional ident parent aLayer s lres s')
  from keepsD [OF keeps_PutAdditionalLayer additional(3,1)] additional(2) show ?case by blast
next
  case (staging ident dir out aopts s ures s')
  then show ?case using keepsD [OF keeps_ApplyDiffFromStagingDirectory _ staging(1)] by simp
next
  case (applyDiff to diff s ires s')
  then show ?case unfolding ls_ApplyDiff_def by (blast dest: keepsD [OF keeps_applyDiff])
next
  case (load s ures s')
  then show ?case by (blast intro: ls_Load_ok)
next
  case (reload s ures s')
  then show ?case by (blast intro: ls_ReloadIfChanged_ok)
qed (simp_all, (rule keepsD [where P = "\<lambda>s. ls_ok u (fst s)"], rule keeps_rules, assumption, assumption)+)

section \<open>Inputs of the examples\<close>

definition demo_ls :: layerStore where
  "demo_ls = empty_lstore (demo_lock [''g'', ''layers.lock''])
     (Some (idle_lock\<lparr>lk_file := [''r'', ''mountpoints.lock'']\<rparr>)) [''r''] [''g''] None None"

definition demo_env :: "vfsState env" where
  "demo_env = \<lparr>dstate = demo_vfs_state, labels = [], wld = demo_world\<rparr>"

definition demo_lopts :: LayerOptions where
  "demo_lopts = \<lparr>lo_IDMappingOptions = \<lparr>HostUIDMapping = True, HostGIDMapping = True, UIDMap = None, GIDMap = None,
       AutoUserNs = False, AutoUserNsOpts = no_auto_userns\<rparr>,
     lo_TemplateLayer = [], lo_OriginalDigest = [], lo_UncompressedDigest = []\<rparr>"

definition demo_dl :: diffLib where
  "demo_dl = \<lparr>dl_decompress = Inr, dl_canonical = (\<lambda>b. ''sha256:'' @ b), dl_algorithm = (\<lambda>d. takeWhile (\<lambda>c. c \<noteq> CHR '':'') d),
     dl_headers = (\<lambda>_. []), dl_tarsplit = id\<rparr>"

lemma demo_ls_ok: "ls_ok u demo_ls"
  by (simp add: ls_ok_def demo_ls_def empty_lstore_def store_ok_def ids_ok_def names_ok_def sums_ok_def sums_def
      ti_ok_def)

section \<open>Main theorems\<close>



text \<open>
  Looking layers up by the digest of their compressed blob is exact: it succeeds and returns a
  copy of every layer that has this digest recorded, each once, and no other.
\<close>

lemma ls_LayersByCompressedDigest_exact:
  assumes "ls_ok u r" "d \<noteq> []"
  shows "\<exists>ls. ls_LayersByCompressedDigest d r = Inr ls \<and> distinct (map l_ID ls) \<and>
    set ls = copyLayer ` {l \<in> ran (item_map r). l_CompressedDigest l = d}"
proof -
  have s: "store_ok l_ID l_Names r" using assms(1) by (rule ls_okD)
  have sm: "distinct (sums (bycompressedsum r) d)"
    "set (sums (bycompressedsum r) d) = {k. \<exists>l. item_map r k = Some l \<and> l_CompressedDigest l = d}"
    using assms sums_ok_item_map [OF s] by (auto simp: ls_ok_def)
  have found: "layers_of r ks = Inr (map (\<lambda>k. copyLayer (the (item_map r k))) ks)" if "set ks \<subseteq> dom (item_map r)" for ks
    using that
  proof (induction ks)
    case (Cons k ks)
    then obtain x where "byid r k = Some x" by (auto simp: item_map_def)
    then show ?case using Cons by (simp add: ls_lookup_def item_map_def)
  qed simp
  let ?ls = "map (\<lambda>k. copyLayer (the (item_map r k))) (sums (bycompressedsum r) d)"
  have idof: "l_ID (copyLayer (the (item_map r k))) = k" if "k \<in> set (sums (bycompressedsum r) d)" for k
  proof -
    obtain l where "item_map r k = Some l" using \<open>k \<in> set (sums (bycompressedsum r) d)\<close> sm(2) by auto
    then show ?thesis using item_map_Some [OF s, of k l] by (auto simp: copyLayer_def)
  qed
  have "map l_ID ?ls = sums (bycompressedsum r) d"
    by (rule nth_equalityI) (auto simp: idof)
  then have "distinct (map l_ID ?ls)" using sm(1) by simp
  moreover have "set ?ls = copyLayer ` {l \<in> ran (item_map r). l_CompressedDigest l = d}"
    using sm(2) by (force simp: ran_def)
  moreover have "ls_LayersByCompressedDigest d r = Inr ?ls"
    unfolding ls_LayersByCompressedDigest_def layersByDigestMap_def by (rule found) (use sm(2) in auto)
  ultimately show ?thesis by blast
qed

lemma ls_LayersByCompressedDigest_exact_witness:
  "\<exists>ls. ls_LayersByCompressedDigest ''sha256:0'' demo_ls = Inr ls \<and> ls = []"
proof -
  obtain ls where ls: "ls_LayersByCompressedDigest ''sha256:0'' demo_ls = Inr ls"
    "set ls = copyLayer ` {l \<in> ran (item_map demo_ls). l_CompressedDigest l = ''sha256:0''}"
    using ls_LayersByCompressedDigest_exact [OF demo_ls_ok, of "''sha256:0''"] by auto
  moreover have "item_map demo_ls = Map.empty" by (simp add: item_map_def demo_ls_def empty_lstore_def)
  ultimately show ?thesis by simp
qed

section \<open>Creating and deleting\<close>

lemma added_get:
  assumes "added r0 l0 r"
  shows "ls_Get (l_ID l0) r = Inr (copyLayer (objs r ! length (objs r0)))" "undiffed (objs r ! length (objs r0)) = undiffed l0"
    "\<forall>n \<in> set (l_Names l0). byname r n = byid r (l_ID l0)"
  using assms by (auto simp: added_def Let_def ls_Get_def ls_lookup_def add_names_apply)

lemma added_others:
  assumes "added r0 l0 r" "store_ok l_ID l_Names r0" "k \<noteq> l_ID l0"
  shows "bare_map r k = bare_map r0 k"
  using assms store_okD(1) [OF assms(2), of k]
  by (cases "byid r0 k") (auto simp: added_def Let_def bare_map_def item_map_def)


definition demo_put :: "(gerr + Layer \<times> int) \<times> layerStore \<times> vfsState env" where
  "demo_put = ls_Put (vfs_driver demo_vfs) demo_dl ''l1'' None [''base''] [] [] demo_lopts False Map.empty None (demo_ls, demo_env)"

lemma demo_put_ok: "\<exists>l sz s'. demo_put = (Inr (l, sz), s')"
proof -
  have "\<not> isl (fst demo_put)" by code_simp
  then show ?thesis by (metis prod.collapse sum.collapse(2))
qed

lemma demo_graph_driver: "graph_driver (vfs_driver demo_vfs)"
  unfolding demo_vfs_single by (rule vfs.graph_driver_axioms)

lemma demo_apart: "apart demo_ls"
  by (simp add: apart_def demo_ls_def empty_lstore_def demo_lock_def idle_lock_def ls_layerspath_def ls_mountspath_def)



definition demo_one :: layerStore where
  "demo_one = insert_item ''l1'' [] (new_layer ''l1'' [] [] [] 0 Map.empty demo_lopts) demo_ls"

definition demo_one_env :: "vfsState env" where
  "demo_one_env = demo_env\<lparr>dstate := snd (vfs_create demo_vfs ''l1'' []
     \<lparr>cr_MountLabel = [], cr_StorageOpt = [], cr_IDMappings = \<lparr>uids = None, gids = None\<rparr>\<rparr> demo_vfs_state)\<rparr>"

lemma demo_one_ok: "ls_ok True demo_one"
proof -
  have "byid demo_ls ''l1'' = None" by (simp add: demo_ls_def empty_lstore_def)
  from ls_ok_insert [OF demo_ls_ok this, where l = "new_layer ''l1'' [] [] [] 0 Map.empty demo_lopts" and ns = "[]"
      and cm = "bycompressedsum demo_ls" and um = "byuncompressedsum demo_ls" and u = True]
  show ?thesis by (simp add: demo_one_def new_layer_def insert_item_def Let_def)
qed


section \<open>Loops that end\<close>

text \<open>
  C17: the loop of \<open>Delete\<close> that unmounts a layer until its count is zero returns, whatever the driver
  and the file system do: every round that does not fail lowers the count in memory and on disk
  below what it was.  The bounded loop of the model computes the same result.
\<close>

theorem ls_Delete_unmounts:
  assumes "ls_ok u (fst s)" "apart (fst s)" "ls_lookup (fst s) ident = Some x"
    and "k = l_ID (objs (fst s) ! x)" "ls_Mounted k s = (Inr mountCount, s1)"
  shows "ls_unmount_loop drv k mountCount s1 = Some (ls_unmount_all drv k (unmount_fuel s) mountCount s1)"
proof -
  have ok: "ls_ok False (fst s)" using assms(1) by (simp add: ls_ok_def)
  have "ls_lookup (fst s) k = Some x" using ls_lookup_item(2) [OF ok assms(3)] assms(4) by (simp add: ls_lookup_def)
  note c = fuel_counts [OF ok assms(2) this]
  have c1: "counting k x (unmount_fuel s) s1" by (rule keepsD [OF counting_Mounted c assms(5)])
  have "counted k x (unmount_fuel s) s" using c by (simp add: counting_def)
  from ensuresD [OF counted_Mounted(2) this assms(5)] show ?thesis by (intro unmount_loop_ends [OF c1]) simp_all
qed

definition demo_mounted :: layerStore where
  "demo_mounted = update_obj 0 (\<lambda>l. l\<lparr>l_MountPoint := ''/m'', l_MountCount := 2\<rparr>) demo_one"

theorem ls_Delete_unmounts_witness:
  "\<exists>s1. ls_Mounted ''l1'' (demo_mounted, demo_one_env) = (Inr 2, s1) \<and>
     ls_unmount_loop (vfs_driver demo_vfs) ''l1'' 2 s1 =
       Some (ls_unmount_all (vfs_driver demo_vfs) ''l1'' (unmount_fuel (demo_mounted, demo_one_env)) 2 s1)"
proof -
  have "case fst (ls_Mounted ''l1'' (demo_mounted, demo_one_env)) of Inl _ \<Rightarrow> False | Inr c \<Rightarrow> c = 2" by code_simp
  then obtain s1 where run: "ls_Mounted ''l1'' (demo_mounted, demo_one_env) = (Inr 2, s1)"
    by (cases "ls_Mounted ''l1'' (demo_mounted, demo_one_env)") (auto split: sum.splits)
  have ok: "ls_ok True (fst (demo_mounted, demo_one_env))"
    unfolding demo_mounted_def fst_conv by (rule ls_ok_mount_update [OF demo_one_ok])
  have x: "ls_lookup (fst (demo_mounted, demo_one_env)) ''l1'' = Some 0"
    "''l1'' = l_ID (objs (fst (demo_mounted, demo_one_env)) ! 0)"
    by (simp_all add: demo_mounted_def update_obj_def demo_one_def demo_ls_def empty_lstore_def insert_item_def Let_def
        ls_lookup_def new_layer_def)
  have "ls_paths demo_mounted = ls_paths demo_ls"
    by (simp add: demo_mounted_def demo_one_def insert_item_def Let_def) (simp add: ls_paths_def)
  then have "apart (fst (demo_mounted, demo_one_env))" using apart_paths [of demo_mounted demo_ls] demo_apart by simp
  from ls_Delete_unmounts [OF ok this x run] run show ?thesis by blast
qed

text \<open>
  The loop of \<open>ParentOwners\<close> returns for every absolute mount point: \<open>filepath.Dir\<close> leads from it
  to the root in at most as many steps as the path has characters, which is the bound of the model.
\<close>

lemma ParentOwners_ends:
  assumes "rooted_path (l_MountPoint l)"
  shows "climb_loop stat lstat m ru rg (Dir (l_MountPoint l)) [] [] =
    Some (climb_owners stat lstat m ru rg (Suc (length (l_MountPoint l))) (Dir (l_MountPoint l)) ([], []))"
proof (rule climb_loop_ends)
  show "rooted_path (Dir (l_MountPoint l))" by (rule Dir_climbs(1) [OF assms])
  show "length (Dir (l_MountPoint l)) \<le> Suc (length (l_MountPoint l))"
    using Dir_climbs(2) [OF assms] Dir_root by (cases "l_MountPoint l = ''/''") auto
qed

lemma ParentOwners_ends_witness:
  "climb_loop (\<lambda>_. Inr (5, 6)) (\<lambda>_. Inr (5, 6)) \<lparr>uids = Some [], gids = Some []\<rparr> 0 0 (Dir ''/a/b'') [] [] =
    Some (climb_owners (\<lambda>_. Inr (5, 6)) (\<lambda>_. Inr (5, 6)) \<lparr>uids = Some [], gids = Some []\<rparr> 0 0 5 (Dir ''/a/b'') ([], []))"
  using ParentOwners_ends [of "(new_layer [] [] [] [] 0 Map.empty demo_lopts)\<lparr>l_MountPoint := ''/a/b''\<rparr>"
      "\<lambda>_. Inr (5, 6)" "\<lambda>_. Inr (5, 6)" "\<lparr>uids = Some [], gids = Some []\<rparr>" 0 0]
  by (simp add: rooted_path_def eval_nat_numeral)

section \<open>Where the code does not do what it means to\<close>

text \<open>
  \<open>PutAdditionalLayer\<close> enters the layer in the map of uncompressed digests under its compressed
  digest: a layer with two different digests is not listed under its uncompressed one.
\<close>

lemma PutAdditionalLayer_misfiles:
  assumes "l_UncompressedDigest l \<noteq> l_CompressedDigest l"
  shows "sums (byuncompressedsum (enter_additional k names l r)) (l_UncompressedDigest l) =
    sums (byuncompressedsum r) (l_UncompressedDigest l)"
  using assms by (auto simp: enter_additional_def Let_def insert_item_def sums_def)

text \<open>
  The clean-up of \<open>Load\<close> passes over the layer that follows a deleted one, because \<open>deleteInternal\<close>
  has moved it into the place already visited: of three layers, the first two incomplete, the
  second one stays.
\<close>

definition demo_incomplete :: layerStore where
  "demo_incomplete =
     (let new = (\<lambda>k fl. insert_item k [] (new_layer k [] [] [] 0 fl demo_lopts))
      in new ''l3'' Map.empty (new ''l2'' [incompleteFlag \<mapsto> IBool True] (new ''l1'' [incompleteFlag \<mapsto> IBool True] demo_ls)))"

lemma Load_cleanup_skips:
  "items (fst (snd (ls_cleanup (vfs_driver demo_vfs) [0, 1, 2] (items demo_incomplete) False (demo_incomplete, demo_env)))) = [1, 2] \<and>
   l_Flags (objs demo_incomplete ! 1) incompleteFlag = Some (IBool True)"
  by code_simp

end
