(* ===== verification/Steady.thy ===== *)
theory Steady
  imports LayersProps Images Containers
begin

text \<open>
  Lock discipline of the parts: no operation of the layer, image and container stores leaves a lock
  in another state than it found it in.

  \<open>steady S V m\<close>: from a state with \<open>S\<close>, a run of \<open>m\<close> that returns (with a value or an error; a panic
  or an endless wait is not a return) leaves \<open>S\<close> true and the view \<open>V\<close> unchanged.  The view of a lock is
  what its \<open>sync.RWMutex\<close> holds, and \<open>sane\<close> says that the other fields agree with it.
\<close>

definition normal :: "gerr + 'a \<Rightarrow> bool" where
  "normal res \<longleftrightarrow> (case res of Inl e \<Rightarrow> \<not> abnormal e | Inr _ \<Rightarrow> True)"

definition steady :: "('s \<Rightarrow> bool) \<Rightarrow> ('s \<Rightarrow> 'v) \<Rightarrow> ('s, 'a) go \<Rightarrow> bool" where
  "steady S V m \<longleftrightarrow> (\<forall>s res s'. S s \<longrightarrow> m s = (res, s') \<longrightarrow> normal res \<longrightarrow> S s' \<and> V s' = V s)"

named_theorems steady_rules "operations that leave the locks as they were"

lemma normal_simps [simp]: "normal (Inr x)" "normal (Inl e) = (\<not> abnormal e)"
  by (simp_all add: normal_def)

lemma steadyI:
  "(\<And>s res s'. S s \<Longrightarrow> m s = (res, s') \<Longrightarrow> normal res \<Longrightarrow> S s' \<and> V s' = V s) \<Longrightarrow> steady S V m"
  by (simp add: steady_def)

lemma steadyD: "steady S V m \<Longrightarrow> S s \<Longrightarrow> m s = (res, s') \<Longrightarrow> normal res \<Longrightarrow> S s' \<and> V s' = V s"
  by (simp add: steady_def)

text \<open>An operation that is written as a case distinction on its state.\<close>

lemma steady_at: "(\<And>s. S s \<Longrightarrow> \<exists>n. m s = n s \<and> steady S V n) \<Longrightarrow> steady S V m"
  unfolding steady_def by metis

lemma steady_same: "(\<And>s. snd (m s) = s) \<Longrightarrow> steady S V m"
  unfolding steady_def by (metis snd_conv)

lemma steady_ret [steady_rules]: "steady S V (ret x)"
  and steady_fail [steady_rules]: "steady S V (fail e)"
  by (simp_all add: steady_def)

lemma steady_bind [steady_rules]:
  assumes "steady S V m" "\<And>x. steady S V (f x)"
  shows "steady S V (bind m f)"
proof (rule steadyI)
  fix s res s' assume S: "S s" and run: "bind m f s = (res, s')" and n: "normal res"
  obtain r1 s1 where m: "m s = (r1, s1)" by (rule prod.exhaust)
  show "S s' \<and> V s' = V s"
  proof (cases r1)
    case (Inl e)
    with run m n have "normal r1" "s' = s1" by (auto simp: bind_def)
    with steadyD [OF assms(1) S m] show ?thesis by simp
  next
    case (Inr x)
    with run m have "f x s1 = (res, s')" by (simp add: bind_def)
    with steadyD [OF assms(1) S m] steadyD [OF assms(2) _ _ n] Inr show ?thesis by fastforce
  qed
qed

lemma steady_attempt [steady_rules]: "steady S V m \<Longrightarrow> steady S V (attempt m)"
  unfolding steady_def attempt_def by (fastforce split: prod.splits sum.splits if_splits)

lemma steady_ignoring [steady_rules]: "steady S V m \<Longrightarrow> steady S V (ignoring m)"
  unfolding ignoring_def by (intro steady_rules)

lemma ignoring_abnormal: "ignoring m s = (Inl e, s') \<Longrightarrow> abnormal e"
  by (auto simp: ignoring_def bind_def attempt_def split: prod.splits sum.splits if_splits)

lemma deferred_normal:
  assumes "deferred c m s = (res, s')" "normal res"
  obtains s1 where "m s = (res, s1)" "ignoring c s1 = (Inr (), s')"
proof -
  obtain r1 s1 where m: "m s = (r1, s1)" by (rule prod.exhaust)
  obtain y s2 where c: "ignoring c s1 = (y, s2)" by (rule prod.exhaust)
  have b: "\<not> blocked r1"
  proof
    assume "blocked r1"
    with assms(1) deferred_run [of m s r1 s1 c y s2, OF m c] have "res = r1" by simp
    with \<open>blocked r1\<close> assms(2) show False by (auto simp: blocked_def normal_def abnormal_def split: sum.splits gerr.splits)
  qed
  show ?thesis
  proof (cases y)
    case (Inl e)
    with assms deferred_run [of m s r1 s1 c y s2, OF m c] b ignoring_abnormal [of c s1 e s2] c show ?thesis by auto
  next
    case (Inr u)
    with assms deferred_run [of m s r1 s1 c y s2, OF m c] b m c that show ?thesis by simp
  qed
qed

lemma steady_deferred [steady_rules]:
  assumes "steady S V c" "steady S V m"
  shows "steady S V (deferred c m)"
proof (rule steadyI)
  fix s res s' assume S: "S s" and run: "deferred c m s = (res, s')" and n: "normal res"
  obtain s1 where m: "m s = (res, s1)" and c: "ignoring c s1 = (Inr (), s')" using deferred_normal [OF run n] .
  from steadyD [OF assms(2) S m n] steadyD [OF steady_ignoring [OF assms(1)] _ c] show "S s' \<and> V s' = V s" by simp
qed

lemma steady_if [steady_rules]: "steady S V m \<Longrightarrow> steady S V n \<Longrightarrow> steady S V (if b then m else n)"
  by simp

lemma steady_case_option [steady_rules]:
  "steady S V m \<Longrightarrow> (\<And>x. steady S V (f x)) \<Longrightarrow> steady S V (case r of None \<Rightarrow> m | Some x \<Rightarrow> f x)"
  by (cases r) simp_all

lemma steady_case_sum [steady_rules]:
  "(\<And>e. steady S V (f e)) \<Longrightarrow> (\<And>x. steady S V (g x)) \<Longrightarrow> steady S V (case r of Inl e \<Rightarrow> f e | Inr x \<Rightarrow> g x)"
  by (cases r) simp_all

lemma steady_case_prod [steady_rules]: "(\<And>x y. steady S V (f x y)) \<Longrightarrow> steady S V (case p of (x, y) \<Rightarrow> f x y)"
  by (cases p) simp

text \<open>One run, for operations written as case distinctions on their state.\<close>

definition srun :: "('s \<Rightarrow> bool) \<Rightarrow> ('s \<Rightarrow> 'v) \<Rightarrow> 's \<Rightarrow> (gerr + 'a) \<times> 's \<Rightarrow> bool" where
  "srun S V s p \<longleftrightarrow> (normal (fst p) \<longrightarrow> S (snd p) \<and> V (snd p) = V s)"

named_theorems srun_rules "runs that leave the locks as they were"

lemma steady_runs: "(\<And>s. S s \<Longrightarrow> srun S V s (m s)) \<Longrightarrow> steady S V m"
  unfolding steady_def srun_def by (metis fst_conv snd_conv)

lemma srun_of: "steady S V m \<Longrightarrow> S s \<Longrightarrow> srun S V s (m s)"
  unfolding steady_def srun_def by (metis prod.collapse)

lemma srun_stop [srun_rules]: "S s \<Longrightarrow> srun S V s (x, s)"
  by (simp add: srun_def)

lemma srun_bind [srun_rules]: "steady S V m \<Longrightarrow> (\<And>x. steady S V (f x)) \<Longrightarrow> S s \<Longrightarrow> srun S V s (bind m f s)"
  by (intro srun_of steady_bind)

lemma srun_if [srun_rules]:
  "(c \<Longrightarrow> srun S V s a) \<Longrightarrow> (\<not> c \<Longrightarrow> srun S V s b) \<Longrightarrow> srun S V s (if c then a else b)"
  by simp

lemma srun_option [srun_rules]:
  "(x = None \<Longrightarrow> srun S V s a) \<Longrightarrow> (\<And>y. x = Some y \<Longrightarrow> srun S V s (f y)) \<Longrightarrow>
   srun S V s (case x of None \<Rightarrow> a | Some y \<Rightarrow> f y)"
  by (cases x) simp_all

lemma srun_sum [srun_rules]:
  "(\<And>e. x = Inl e \<Longrightarrow> srun S V s (f e)) \<Longrightarrow> (\<And>y. x = Inr y \<Longrightarrow> srun S V s (g y)) \<Longrightarrow>
   srun S V s (case x of Inl e \<Rightarrow> f e | Inr y \<Rightarrow> g y)"
  by (cases x) simp_all

lemma srun_prod [srun_rules]:
  "(\<And>a b. x = (a, b) \<Longrightarrow> srun S V s (f a b)) \<Longrightarrow> srun S V s (case x of (a, b) \<Rightarrow> f a b)"
  by (cases x) simp

lemma srun_then:
  assumes "steady S V m" "S s" "m s = (Inr x, s1)" "S s1 \<Longrightarrow> srun S V s1 p"
  shows "srun S V s p"
  using steadyD [OF assms(1,2,3)] assms(4) by (simp add: srun_def)

text \<open>
  A lock that is taken, with its release deferred.  \<open>L v v'\<close>: the view \<open>v'\<close> is \<open>v\<close> with the lock taken.
\<close>

lemma steady_locked:
  assumes fails: "\<And>s e s1. lock s = (Inl e, s1) \<Longrightarrow> abnormal e"
    and locks: "\<And>s u s1. S s \<Longrightarrow> lock s = (Inr u, s1) \<Longrightarrow> S s1 \<and> L (V s) (V s1)"
    and unlocks: "\<And>v s2 u s3. S s2 \<Longrightarrow> L v (V s2) \<Longrightarrow> ignoring unlock s2 = (Inr u, s3) \<Longrightarrow> S s3 \<and> V s3 = v"
    and m: "steady S V m"
  shows "steady S V (bind lock (\<lambda>_. deferred unlock m))"
proof (rule steadyI)
  fix s res s' assume S: "S s" and run: "bind lock (\<lambda>_. deferred unlock m) s = (res, s')" and n: "normal res"
  obtain r1 s1 where l: "lock s = (r1, s1)" by (rule prod.exhaust)
  show "S s' \<and> V s' = V s"
  proof (cases r1)
    case (Inl e)
    with fails l run n show ?thesis by (auto simp: bind_def)
  next
    case (Inr u)
    with run l have d: "deferred unlock m s1 = (res, s')" by (simp add: bind_def)
    obtain s2 where ms: "m s1 = (res, s2)" and c: "ignoring unlock s2 = (Inr (), s')" using deferred_normal [OF d n] .
    have s1: "S s1" "L (V s) (V s1)" using locks [OF S] l Inr by auto
    with steadyD [OF m s1(1) ms n] unlocks [OF _ _ c] show ?thesis by simp
  qed
qed

section \<open>One lock\<close>

type_synonym lockview = "nat \<times> bool"

definition lkview :: "lockfile \<Rightarrow> lockview" where
  "lkview l = (rw_readers l, rw_writer l)"

definition sane :: "lockfile \<Rightarrow> bool" where
  "sane l \<longleftrightarrow> proc_inv l (if locked l then Some (locktype l) else None)"

definition taken :: "lockview \<Rightarrow> lockview \<Rightarrow> bool" where
  "taken v v' \<longleftrightarrow> \<not> snd v \<and> (v' = (Suc (fst v), False) \<or> fst v = 0 \<and> v' = (0, True))"

lemma sane_iff: "sane l \<longleftrightarrow> counter l = int (rw_readers l) + (if rw_writer l then 1 else 0) \<and>
     (rw_writer l \<longrightarrow> rw_readers l = 0) \<and> (locked l \<longleftrightarrow> counter l > 0) \<and>
     (locked l \<longrightarrow> \<not> recursive l \<and> (locktype l = F_WRLCK \<longleftrightarrow> rw_writer l))"
  by (auto simp: sane_def proc_inv_def)

lemma lw_only: "sane (l\<lparr>lw := k\<rparr>) = sane l" "lkview (l\<lparr>lw := k\<rparr>) = lkview l"
  by (simp_all add: sane_iff lkview_def)

lemma lk_lock_view:
  assumes "lk_lock t False (l, w) = (res, l', w')" "sane l"
  shows "case res of Inl e \<Rightarrow> abnormal e | Inr _ \<Rightarrow> sane l' \<and> taken (lkview l) (lkview l')"
proof -
  obtain r1 l1 where a: "rw_acquire t False l = (r1, l1)" by (rule prod.exhaust)
  show ?thesis
  proof (cases r1)
    case (Inl e)
    with assms(1) a show ?thesis
      by (cases t) (auto simp: lk_lock_def rw_acquire_def abnormal_def split: if_splits)
  next
    case (Inr u)
    then have v: "taken (lkview l) (lkview (local_lock t False l1))"
      using a assms(2) by (cases t) (auto simp: rw_acquire_False taken_def lkview_def local_lock_def sane_iff)
    have "proc_inv (local_lock t False l1) (if counter l1 = 0 then Some t else (if locked l then Some (locktype l) else None))"
      using rw_acquire_inv [of l _ t l1] assms(2) a Inr by (simp add: sane_def)
    then have s: "sane (local_lock t False l1)"
      by (auto simp: sane_iff proc_inv_def split: if_splits)
    show ?thesis using assms(1) a Inr s v by (auto simp: lk_lock_def abnormal_def split: prod.splits sum.splits if_splits)
  qed
qed

lemma locking_view:
  assumes "m \<in> {Lock, RLock}" "m (l, w) = (res, l', w')" "sane l"
  shows "case res of Inl e \<Rightarrow> abnormal e | Inr _ \<Rightarrow> sane l' \<and> taken (lkview l) (lkview l')"
proof (cases "m = RLock")
  case True
  with assms show ?thesis using lk_lock_view [of F_RDLCK l w res l' w'] by (simp add: RLock_def)
next
  case False
  with assms have L: "Lock (l, w) = (res, l', w')" by simp
  show ?thesis
  proof (cases "ro l")
    case True
    with L have "res = Inl (Panic ''cannot take write lock on read-only lock file'')" by (simp add: Lock_def)
    then show ?thesis by (simp add: abnormal_def)
  next
    case False
    with L have "lk_lock F_WRLCK False (l, w) = (res, l', w')" by (simp add: Lock_def)
    then show ?thesis by (rule lk_lock_view [OF _ assms(3)])
  qed
qed

lemma locking_abnormal:
  assumes "m \<in> {Lock, RLock}" "m (l, w) = (Inl e, l', w')"
  shows "abnormal e"
proof -
  have "abnormal e" if "lk_lock t False (l, w) = (Inl e, l', w')" for t
    using that by (cases t) (auto simp: lk_lock_def rw_acquire_def abnormal_def split: prod.splits sum.splits if_splits)
  with assms show ?thesis by (auto simp: Lock_def RLock_def abnormal_def split: if_splits)
qed

lemma Unlock_view:
  assumes "taken v (lkview l)" "sane l"
  shows "\<exists>l'. Unlock l = (Inr (), l') \<and> sane l' \<and> lkview l' = v"
proof -
  obtain n where v: "v = (n, False)" using assms(1) by (cases v) (auto simp: taken_def)
  consider "rw_readers l = Suc n" "\<not> rw_writer l" | "n = 0" "rw_readers l = 0" "rw_writer l"
    using assms(1) v by (auto simp: taken_def lkview_def)
  then show ?thesis
  proof cases
    case 1
    then have l: "counter l = int n + 1" "locked l" "locktype l = F_RDLCK" using assms(2)
      by (cases "locktype l"; simp add: sane_iff)+
    then show ?thesis using 1 v assms(2)
      by (cases "n = 0") (auto simp: Unlock_def Let_def rw_release_def sane_iff lkview_def)
  next
    case 2
    then have l: "counter l = 1" "locked l" "locktype l = F_WRLCK" "\<not> recursive l" using assms(2)
      by (simp_all add: sane_iff)
    then show ?thesis using 2 v by (auto simp: Unlock_def Let_def rw_release_def sane_iff lkview_def)
  qed
qed

text \<open>Operations on a lock object that leave its state alone.\<close>

definition gentle :: "(lockfile \<times> world, 'a) go \<Rightarrow> bool" where
  "gentle m \<longleftrightarrow> (\<forall>l w res l' w'. m (l, w) = (res, l', w') \<longrightarrow> (\<exists>k. l' = l\<lparr>lw := k\<rparr>))"

lemma gentle_view: "gentle m \<Longrightarrow> m (l, w) = (res, l', w') \<Longrightarrow> (sane l' \<longleftrightarrow> sane l) \<and> lkview l' = lkview l"
  unfolding gentle_def using lw_only by metis

lemma gentle_locks [simp]: "gentle Touch" "gentle Modified" "gentle (save_file p c)" "gentle (TouchedSince t)"
proof -
  have same: "\<exists>k. l = l\<lparr>lw := k\<rparr>" for l :: lockfile by (rule exI [of _ "lw l"]) simp
  show "gentle Touch" "gentle (save_file p c)"
    unfolding gentle_def using Touch_frame(1) save_file_frame(1) by blast+
  show "gentle Modified" unfolding gentle_def Modified_def Let_def
    using same by (auto split: if_splits prod.splits option.splits)
  show "gentle (TouchedSince t)" unfolding gentle_def TouchedSince_def
    using same by (auto split: prod.splits option.splits)
qed

section \<open>Layer stores\<close>

definition ls_locks :: "layerStore \<Rightarrow> lockview \<times> lockview" where
  "ls_locks r = (lkview (ls_lockfile r), case ls_mountsLockfile r of None \<Rightarrow> (0, False) | Some ml \<Rightarrow> lkview ml)"

definition ls_sane :: "layerStore \<Rightarrow> bool" where
  "ls_sane r \<longleftrightarrow> sane (ls_lockfile r) \<and> (\<forall>ml. ls_mountsLockfile r = Some ml \<longrightarrow> sane ml)"

abbreviation lsteady :: "('d, 'a) lop \<Rightarrow> bool" where
  "lsteady m \<equiv> steady (\<lambda>s. ls_sane (fst s)) (\<lambda>s. ls_locks (fst s)) m"

text \<open>\<open>same_locks f\<close>: the function does not touch the lock objects.\<close>

definition same_locks :: "layerStore \<Rightarrow> layerStore \<Rightarrow> bool" where
  "same_locks r r' \<longleftrightarrow> ls_lockfile r' = ls_lockfile r \<and> ls_mountsLockfile r' = ls_mountsLockfile r"

lemma same_locks_view: "same_locks r r' \<Longrightarrow> ls_locks r' = ls_locks r \<and> (ls_sane r' \<longleftrightarrow> ls_sane r)"
  by (simp add: same_locks_def ls_locks_def ls_sane_def)

lemma lsteady_same_store: "same_store m \<Longrightarrow> lsteady m"
  unfolding steady_def same_store_def by (metis snd_conv)

lemma lsteady_basic [steady_rules]:
  "lsteady (on_world m1)" "lsteady (on_driver m2)" "lsteady (label_do cs)" "lsteady (release_label lb)"
  by (intro lsteady_same_store same_store_rules)+

lemma lsteady_on_layers: "(\<And>r. same_locks r (f r)) \<Longrightarrow> lsteady (on_layers f)"
  by (auto simp: steady_def on_layers_def modify_def dest: same_locks_view)

lemma srun_from:
  "lsteady n \<Longrightarrow> ls_sane (fst s) \<Longrightarrow> same_locks (fst s) r \<Longrightarrow>
   srun (\<lambda>s. ls_sane (fst s)) (\<lambda>s. ls_locks (fst s)) s (n (r, e))"
  using srun_of [of "\<lambda>s. ls_sane (fst s)" "\<lambda>s. ls_locks (fst s)" n "(r, e)"] same_locks_view
  by (simp add: srun_def)

lemma lsteady_on_lock [steady_rules]:
  assumes "gentle m"
  shows "lsteady (on_lock m)" "lsteady (on_mounts_lock m)"
proof -
  show "lsteady (on_lock m)"
    unfolding steady_def on_lock_def ls_sane_def ls_locks_def
    using gentle_view [OF assms] by (auto split: prod.splits)
  show "lsteady (on_mounts_lock m)"
  proof (rule steadyI)
    fix s :: "layerStore \<times> 'd env" and res s'
    assume S: "ls_sane (fst s)" and run: "on_mounts_lock m s = (res, s')" and n: "normal res"
    show "ls_sane (fst s') \<and> ls_locks (fst s') = ls_locks (fst s)"
    proof (cases "ls_mountsLockfile (fst s)")
      case None
      with run n show ?thesis by (auto simp: on_mounts_lock_def abnormal_def)
    next
      case (Some ml)
      obtain x l w where x: "m (ml, wld (snd s)) = (x, l, w)" by (rule prod_cases3)
      with run Some have "fst s' = (fst s)\<lparr>ls_mountsLockfile := Some l\<rparr>" by (auto simp: on_mounts_lock_def)
      with gentle_view [OF assms x] S Some show ?thesis by (simp add: ls_sane_def ls_locks_def)
    qed
  qed
qed

lemma lsteady_with_mounts [steady_rules]:
  assumes "lock \<in> {Lock, RLock}" "lsteady m"
  shows "lsteady (with_mounts lock m)"
  unfolding with_mounts_def
proof (rule steady_locked [where L = "\<lambda>v v'. fst v' = fst v \<and> taken (snd v) (snd v')"])
  have some: "\<exists>ml l w. ls_mountsLockfile (fst s) = Some ml \<and> lock (ml, wld (snd s)) = (res, l, w) \<and>
      s1 = ((fst s)\<lparr>ls_mountsLockfile := Some l\<rparr>, (snd s)\<lparr>wld := w\<rparr>)"
    if "on_mounts_lock lock s = (res, s1)" "ls_mountsLockfile (fst s) \<noteq> None" for s :: "layerStore \<times> 'd env" and res s1
    using that by (auto simp: on_mounts_lock_def split: prod.splits option.splits)
  fix s :: "layerStore \<times> 'd env" and e s1 assume run: "on_mounts_lock lock s = (Inl e, s1)"
  show "abnormal e"
  proof (cases "ls_mountsLockfile (fst s)")
    case None
    with run show ?thesis by (auto simp: on_mounts_lock_def abnormal_def)
  next
    case (Some ml)
    then obtain l w where "lock (ml, wld (snd s)) = (Inl e, l, w)" using some [OF run] by auto
    then show ?thesis using assms(1) by (auto intro: locking_abnormal)
  qed
next
  fix s :: "layerStore \<times> 'd env" and u s1
  assume S: "ls_sane (fst s)" and run: "on_mounts_lock lock s = (Inr u, s1)"
  then obtain ml l w where "ls_mountsLockfile (fst s) = Some ml" "lock (ml, wld (snd s)) = (Inr u, l, w)"
    "s1 = ((fst s)\<lparr>ls_mountsLockfile := Some l\<rparr>, (snd s)\<lparr>wld := w\<rparr>)"
    by (auto simp: on_mounts_lock_def split: prod.splits option.splits)
  with locking_view [OF assms(1)] S
  show "ls_sane (fst s1) \<and> fst (ls_locks (fst s1)) = fst (ls_locks (fst s)) \<and> taken (snd (ls_locks (fst s))) (snd (ls_locks (fst s1)))"
    by (fastforce simp: ls_sane_def ls_locks_def)
next
  fix v and s2 :: "layerStore \<times> 'd env" and u s3
  assume S: "ls_sane (fst s2)" and L: "fst (ls_locks (fst s2)) = fst v \<and> taken (snd v) (snd (ls_locks (fst s2)))"
    and run: "ignoring (on_mounts_lock (on_fst Unlock)) s2 = (Inr u, s3)"
  have ne: "ls_mountsLockfile (fst s2) \<noteq> None" using L by (cases "ls_mountsLockfile (fst s2)") (auto simp: ls_locks_def taken_def)
  then obtain ml where ml: "ls_mountsLockfile (fst s2) = Some ml" by blast
  with L S obtain l' where "Unlock ml = (Inr (), l')" "sane l'" "lkview l' = snd v"
    using Unlock_view [of "snd v" ml] by (auto simp: ls_locks_def ls_sane_def)
  with run ml L S show "ls_sane (fst s3) \<and> ls_locks (fst s3) = v"
    by (auto simp: ignoring_def bind_def attempt_def on_mounts_lock_def on_fst_def ls_sane_def ls_locks_def)
qed (rule assms(2))

subsection \<open>Operations\<close>

lemma same_locks_simps [simp]:
  "same_locks r r" "same_locks r (update_obj x f r)" "same_locks r (r\<lparr>bymount := bm\<rparr>)"
  "same_locks r ((update_obj x f r)\<lparr>bymount := bm\<rparr>)" "same_locks r (insert_item k ns l r)"
  "same_locks r (forget_layer l r)" "same_locks r (merge_mounts ms r)"
  "same_locks r (record_diff x cd csz ud usz cty us gs r)" "same_locks r (enter_additional k ns l r)"
  "same_locks r (set_names nm upd h ns x r)" "same_locks r (r\<lparr>ls_layerspathModified := t\<rparr>)"
proof -
  show "same_locks r (merge_mounts ms r)" using merge_mounts_locks [of ms r] by (simp add: same_locks_def)
qed (simp_all add: same_locks_def update_obj_def insert_item_def forget_layer_def deleteInDigestMap_def remove_item_def
      record_diff_def enter_additional_def set_names_def Let_def split: prod.splits)

lemma lsteady_frame: "(\<And>s. same_locks (fst s) (fst (snd (m s)))) \<Longrightarrow> lsteady m"
  unfolding steady_def using same_locks_view by (metis snd_conv)

lemma lsteady_loadMounts [steady_rules]: "lsteady ls_loadMounts"
proof (rule lsteady_frame)
  fix s :: "layerStore \<times> 'd env"
  obtain x s1 where r: "on_world (ReadFile (ls_mountspath (fst s))) s = (x, s1)" by (rule prod.exhaust)
  then have "fst s1 = fst s" by (auto simp: on_world_def split: prod.splits)
  with r show "same_locks (fst s) (fst (snd (ls_loadMounts s)))"
    by (auto simp: ls_loadMounts_def on_layers_def modify_def split: sum.splits option.splits)
qed

lemma lsteady_saveMounts [steady_rules]: "lsteady ls_saveMounts"
  by (rule steady_runs, unfold ls_saveMounts_def) (intro srun_rules steady_rules; assumption)

lemma lsteady_saveLayers [steady_rules]: "lsteady ls_saveLayers"
  by (rule steady_runs, unfold ls_saveLayers_def) (intro srun_rules srun_of [OF lsteady_on_lock(1)]; simp)

lemma lsteady_Save [steady_rules]: "lsteady ls_Save"
  unfolding ls_Save_def by (intro steady_rules) simp_all

lemma lsteady_refresh [steady_rules]: "lsteady ls_refresh_mounts"
  unfolding ls_refresh_mounts_def by (intro steady_rules) simp_all

lemma lsteady_deleteInternal [steady_rules]: "lsteady (ls_deleteInternal drv ident)"
  by (rule steady_runs, unfold ls_deleteInternal_def Let_def) (intro srun_rules steady_rules lsteady_on_layers; simp)

lemma lsteady_cleanup [steady_rules]: "lsteady (ls_cleanup drv idxs arr b)"
proof (rule steady_runs)
  fix s :: "layerStore \<times> 'a env" assume "ls_sane (fst s)"
  then show "srun (\<lambda>s. ls_sane (fst s)) (\<lambda>s. ls_locks (fst s)) s (ls_cleanup drv idxs arr b s)"
  proof (induction idxs arbitrary: arr b s)
    case Nil
    then show ?case by (simp add: srun_stop)
  next
    case (Cons i idxs)
    note d = steady_attempt [OF lsteady_deleteInternal]
    obtain r1 s1 where r: "attempt (ls_deleteInternal drv (l_ID (objs (fst s) ! (arr ! i)))) s = (r1, s1)" by (rule prod.exhaust)
    show ?case
    proof (cases "l_Flags (objs (fst s) ! (arr ! i)) incompleteFlag = Some (IBool True)")
      case False
      with Cons show ?thesis by simp
    next
      case True
      from steadyD [OF d Cons.prems r] have n: "normal r1 \<Longrightarrow> ls_sane (fst s1) \<and> ls_locks (fst s1) = ls_locks (fst s)" .
      show ?thesis
      proof (cases r1)
        case (Inl e)
        with True r n show ?thesis by (simp add: srun_def)
      next
        case (Inr y)
        show ?thesis
        proof (cases y)
          case (Inl e)
          with Inr True r n show ?thesis by (simp add: srun_def)
        next
          case (Inr u)
          with \<open>r1 = Inr y\<close> True r n Cons.IH [of s1 "items (fst s1) @ drop (length (items (fst s1))) arr" True]
          show ?thesis by (simp add: srun_def Let_def)
        qed
      qed
    qed
  qed
qed

lemma lsteady_load_finish [steady_rules]: "lsteady (ls_load_finish drv b)"
proof -
  have k: "lsteady (\<lambda>s. bind (if ls_Locked (fst s) then ls_cleanup drv [0..<length (items (fst s))] (items (fst s)) b else ret (None, b))
      (\<lambda>(err, save). if save then ls_saveLayers else case err of None \<Rightarrow> ret () | Some e \<Rightarrow> fail e) s)"
    by (rule steady_runs) (intro srun_rules steady_rules; assumption)
  show ?thesis unfolding ls_load_finish_def by (intro steady_rules k)
qed

lemma lsteady_load_data [steady_rules]: "lsteady (ls_load_data drv decoded)"
proof (rule steady_runs)
  fix s :: "layerStore \<times> 'a env" assume S: "ls_sane (fst s)"
  let ?rw = "ls_IsReadWrite (fst s)"
  let ?ls = "map (\<lambda>l. l\<lparr>l_ReadOnly := \<not> ?rw\<rparr>) (case decoded of None \<Rightarrow> [] | Some ls \<Rightarrow> ls)"
  obtain r b where l: "load_store l_ID l_Names l_Names_update ?ls (fst s) = (r, b)" by (rule prod.exhaust)
  define r1 where "r1 = (keep_stale (fst s) r)\<lparr>bycompressedsum := load_sums l_CompressedDigest ?ls, byuncompressedsum := load_sums l_UncompressedDigest ?ls\<rparr>"
  have r1: "same_locks (fst s) r1"
    using l by (auto simp: same_locks_def r1_def keep_stale_def load_store_def Let_def split: prod.splits)
  define k :: "('a, unit) lop" where "k = (if ?rw then with_mounts RLock (ls_load_finish drv b)
     else if decoded = None then fail (Errorf ''json: cannot decode layers'') else ret ())"
  have k: "lsteady k" unfolding k_def by (intro steady_rules) simp
  define e where "e = (snd s)\<lparr>labels := labels (snd s) @ load_labels ?rw ?ls\<rparr>"
  have "ls_load_data drv decoded s =
      (if b \<and> (\<not> ?rw \<or> \<not> ls_Locked (fst s)) then (Inl ErrDuplicateLayerNames, (fst s, e)) else k (r1, e))"
    by (simp add: ls_load_data_def l bind_def label_do_def on_layers_def modify_def k_def r1_def e_def Let_def)
  moreover have "srun (\<lambda>s. ls_sane (fst s)) (\<lambda>s. ls_locks (fst s)) s (k (r1, e))"
    using srun_of [OF k, of "(r1, e)"] S same_locks_view [OF r1] by (simp add: srun_def)
  ultimately show "srun (\<lambda>s. ls_sane (fst s)) (\<lambda>s. ls_locks (fst s)) s (ls_load_data drv decoded s)"
    using S by (simp add: srun_def)
qed

lemma lsteady_Load [steady_rules]: "lsteady (ls_Load drv)"
proof (rule steady_runs)
  fix s :: "layerStore \<times> 'a env" assume S: "ls_sane (fst s)"
  obtain x s1 where r: "on_world (ReadFile (ls_layerspath (fst s))) s = (x, s1)" by (rule prod.exhaust)
  then have "fst s1 = fst s" by (auto simp: on_world_def split: prod.splits)
  then show "srun (\<lambda>s. ls_sane (fst s)) (\<lambda>s. ls_locks (fst s)) s (ls_Load drv s)"
    using r S srun_of [OF lsteady_load_data, of s1] by (cases x) (simp_all add: ls_Load_def srun_def)
qed

lemma lsteady_Modified [steady_rules]: "lsteady ls_Modified"
proof -
  have st: "lsteady (\<lambda>s. case on_world (Stat (ls_layerspath (fst s))) s of
                     (Inl e, s1) \<Rightarrow> if e \<noteq> NotExist then (Inl e, s1) else (Inr False, s1)
                   | (Inr t, s1) \<Rightarrow> (Inr (t \<noteq> ls_layerspathModified (fst s1)),
                                     ((fst s1)\<lparr>ls_layerspathModified := t\<rparr>, snd s1)))"
    by (rule lsteady_frame) (auto simp: on_world_def split: prod.splits sum.splits)
  have sw: "lsteady (\<lambda>s. if ls_IsReadWrite (fst s) then with_mounts RLock (bind (on_mounts_lock Modified) f) s else f False s)"
    if "\<And>b. lsteady (f b)" for f :: "bool \<Rightarrow> ('a, bool) lop"
    by (rule steady_runs) (intro srun_if srun_of [OF lsteady_with_mounts] srun_of [OF that] steady_rules that; simp)
  show ?thesis unfolding ls_Modified_def Let_def
    by (intro steady_bind [OF lsteady_on_lock(1)] sw steady_if steady_ret st) simp
qed

lemma lsteady_Reload [steady_rules]: "lsteady (ls_ReloadIfChanged drv)"
  unfolding ls_ReloadIfChanged_def by (intro steady_rules)

lemma lsteady_update [steady_rules]: "lsteady (ls_update ident f)"
  by (rule steady_runs, unfold ls_update_def) (intro srun_rules srun_from [OF lsteady_Save]; simp)

lemma lsteady_setters [steady_rules]:
  "lsteady (ls_ClearFlag ident flag)" "lsteady (ls_SetFlag ident flag v)" "lsteady (ls_SetMetadata ident md)"
  unfolding ls_ClearFlag_def ls_SetFlag_def ls_SetMetadata_def by (rule lsteady_update)+

lemma lsteady_SetNames [steady_rules]: "lsteady (ls_SetNames ident names)"
  by (rule steady_runs, unfold ls_SetNames_def) (intro srun_rules srun_from [OF lsteady_Save]; simp)

lemma lsteady_BigData [steady_rules]: "lsteady (ls_BigData ident key)"
  by (rule steady_runs, unfold ls_BigData_def) (intro srun_rules steady_rules; assumption)

lemma lsteady_SetBigData [steady_rules]: "lsteady (ls_SetBigData ident key data)"
  by (rule steady_runs, unfold ls_SetBigData_def Let_def) (intro srun_rules steady_rules lsteady_on_layers; simp)

lemma lsteady_Mounted [steady_rules]: "lsteady (ls_Mounted ident)"
proof -
  have "lsteady (\<lambda>s. case ls_lookup (fst s) ident of None \<Rightarrow> (Inl ErrLayerUnknown, s)
        | Some x \<Rightarrow> (Inr (l_MountCount (objs (fst s) ! x)), s))"
    by (rule steady_runs) (intro srun_rules; assumption)
  note k = lsteady_with_mounts [of RLock, OF _ steady_bind [OF lsteady_refresh this]]
  show ?thesis by (rule steady_runs, unfold ls_Mounted_def) (intro srun_rules srun_of [OF k]; simp)
qed

lemma lsteady_ParentOwners [steady_rules]: "lsteady (ls_ParentOwners stat lstat ident)"
proof -
  have "lsteady (\<lambda>s. case ls_lookup (fst s) ident of None \<Rightarrow> (Inl ErrLayerUnknown, s)
        | Some x \<Rightarrow> (parent_owners stat lstat (objs (fst s) ! x), s))"
    by (rule steady_runs) (intro srun_rules; assumption)
  note k = lsteady_with_mounts [of RLock, OF _ steady_bind [OF lsteady_refresh this]]
  show ?thesis by (rule steady_runs, unfold ls_ParentOwners_def) (intro srun_rules srun_of [OF k]; simp)
qed

lemma lsteady_mount_found [steady_rules]: "lsteady (ls_mount_found drv ident options)"
proof -
  have at: "lsteady (ls_mounted_at x old mp)" "lsteady (ls_mount_again x p)" for x old mp p
    unfolding ls_mounted_at_def ls_mount_again_def by (intro steady_rules lsteady_on_layers; simp)+
  have ml: "lsteady (ls_mount_layer drv ident options x)" for x
    by (rule steady_runs, unfold ls_mount_layer_def Let_def) (intro srun_rules steady_rules at; assumption)
  show ?thesis by (rule steady_runs, unfold ls_mount_found_def Let_def) (intro srun_rules steady_rules at ml srun_of [OF ml]; assumption)
qed

lemma lsteady_Mount [steady_rules]: "lsteady (ls_Mount drv ident options)"
proof -
  have k: "lsteady (with_mounts Lock (bind ls_refresh_mounts (\<lambda>_. deferred (on_mounts_lock Touch) (ls_mount_found drv ident options))))"
    by (intro steady_rules) simp_all
  show ?thesis by (rule steady_runs, unfold ls_Mount_def) (intro srun_rules srun_of [OF k]; simp)
qed

lemma lsteady_unmount_found [steady_rules]: "lsteady (ls_unmount_found drv ident force)"
proof -
  have un: "lsteady (ls_unmounted x mp)" for x mp
    unfolding ls_unmounted_def by (intro steady_rules lsteady_on_layers; simp)
  have ul: "lsteady (ls_unmount_layer drv ident x)" for x
    by (rule steady_runs, unfold ls_unmount_layer_def Let_def) (intro srun_rules steady_rules lsteady_on_layers un; simp)
  show ?thesis by (rule steady_runs, unfold ls_unmount_found_def) (intro srun_rules ul lsteady_on_layers; simp)
qed

lemma lsteady_Unmount [steady_rules]: "lsteady (ls_Unmount drv ident force)"
proof -
  have k: "lsteady (with_mounts Lock (bind ls_refresh_mounts (\<lambda>_. deferred (on_mounts_lock Touch) (ls_unmount_found drv ident force))))"
    by (intro steady_rules) simp_all
  show ?thesis by (rule steady_runs, unfold ls_Unmount_def) (intro srun_rules srun_of [OF k]; simp)
qed

lemma lsteady_unmount_all [steady_rules]: "lsteady (ls_unmount_all drv ident n c)"
  by (induction n arbitrary: c) (unfold ls_unmount_all.simps, (intro steady_rules; assumption?)+)

lemma lsteady_Delete [steady_rules]: "lsteady (ls_Delete drv ident)"
  by (rule steady_runs, unfold ls_Delete_def Let_def) (intro srun_rules steady_rules; assumption)

lemma lsteady_delete_all [steady_rules]: "lsteady (ls_delete_all drv ks)"
  by (induction ks) (unfold ls_delete_all.simps, (intro steady_rules; assumption?)+)

lemma lsteady_Wipe [steady_rules]: "lsteady (ls_Wipe drv ks)"
  by (rule steady_runs, unfold ls_Wipe_def) (intro srun_rules srun_of [OF lsteady_delete_all]; assumption)

lemma lsteady_differences [steady_rules]: "lsteady (ls_Changes drv from to)" "lsteady (ls_DiffSize drv from to)"
  by (rule steady_runs, unfold ls_Changes_def ls_DiffSize_def,
      intro srun_rules srun_of [OF lsteady_basic(2)]; assumption)+

lemma lsteady_applyDiff [steady_rules]:
  "lsteady (ls_applyDiffWithOptions drv dl to lo diff)" "lsteady (ls_ApplyDiff drv dl to diff)"
proof -
  show "lsteady (ls_applyDiffWithOptions drv dl to lo diff)" for lo
    by (rule steady_runs, unfold ls_applyDiffWithOptions_def Let_def) (intro srun_rules steady_rules lsteady_on_layers; simp)
  then show "lsteady (ls_ApplyDiff drv dl to diff)" unfolding ls_ApplyDiff_def .
qed

lemma lsteady_save_or_remove [steady_rules]: "lsteady (ls_save_or_remove drv k)"
  unfolding ls_save_or_remove_def by (intro steady_rules)

lemma lsteady_put_finish [steady_rules]: "lsteady (ls_put_finish drv k x sz)"
  unfolding ls_put_finish_def by (intro steady_rules steady_same) simp

lemma lsteady_put_record [steady_rules]: "lsteady (ls_put_record drv dl k parent names lab mo flags diff)"
  by (rule steady_runs, unfold ls_put_record_def Let_def) (intro srun_rules steady_rules lsteady_on_layers; simp)

lemma lsteady_put_new [steady_rules]:
  "lsteady (ls_put_new drv dl k parentLayer names lab options mo writeable flags diff)"
  by (rule steady_runs, unfold ls_put_new_def Let_def) (intro srun_rules steady_rules; assumption)

lemma lsteady_Put [steady_rules]: "lsteady (ls_Put drv dl ident parentLayer names lab options mo writeable flags diff)"
  by (rule steady_runs, unfold ls_Put_def) (intro srun_rules steady_rules; assumption)

lemma lsteady_Create [steady_rules]: "lsteady (ls_Create drv dl ident parent names lab options mo writeable)"
  unfolding ls_Create_def ls_CreateWithFlags_def by (intro steady_rules)

lemma lsteady_PutAdditionalLayer [steady_rules]: "lsteady (ls_PutAdditionalLayer drv ident parentLayer names aLayer)"
  by (rule steady_runs, unfold ls_PutAdditionalLayer_def Let_def) (intro srun_rules steady_rules lsteady_on_layers; simp)

lemma lsteady_set_items [steady_rules]: "lsteady (ls_set_items drv ident kvs)"
  by (induction kvs) (unfold split_paired_all ls_set_items.simps, (intro steady_rules; assumption?)+)

lemma lsteady_differ [steady_rules]:
  "lsteady (ls_DifferTarget drv ident)" "lsteady (ls_CleanupStagingDirectory drv dir)"
  "lsteady (ls_ApplyDiffWithDiffer drv to options differ)"
  "lsteady (ls_ApplyDiffFromStagingDirectory drv ident dir out options)"
  by (rule steady_runs, unfold ls_DifferTarget_def ls_CleanupStagingDirectory_def ls_ApplyDiffWithDiffer_def
      ls_ApplyDiffFromStagingDirectory_def Let_def,
      intro srun_rules steady_rules lsteady_on_layers srun_of [OF lsteady_basic(2)]; simp)+

section \<open>Image stores\<close>

text \<open>\<open>lw_eq l l'\<close>: the same lock object, except for the identifier of the last writer.\<close>

definition lw_eq :: "lockfile \<Rightarrow> lockfile \<Rightarrow> bool" where
  "lw_eq l l' \<longleftrightarrow> (\<exists>k. l' = l\<lparr>lw := k\<rparr>)"

lemma lw_eq_refl [simp]: "lw_eq l l"
  unfolding lw_eq_def by (rule exI [of _ "lw l"]) simp

lemma lw_eq_trans: "lw_eq l l' \<Longrightarrow> lw_eq l' l'' \<Longrightarrow> lw_eq l l''"
  by (auto simp: lw_eq_def)

lemma lw_eq_view: "lw_eq l l' \<Longrightarrow> (sane l' \<longleftrightarrow> sane l) \<and> lkview l' = lkview l"
  by (auto simp: lw_eq_def lw_only)

text \<open>
  The operations of these stores are written as case distinctions, with the lock object of the store
  in the state: \<open>lwr g l p\<close> says that the outcome \<open>p\<close> holds the lock \<open>l\<close>, up to the last writer.
\<close>

definition lwr :: "('r \<Rightarrow> lockfile) \<Rightarrow> lockfile \<Rightarrow> (gerr + 'a) \<times> ('r \<times> world) \<Rightarrow> bool" where
  "lwr g l p \<longleftrightarrow> lw_eq l (g (fst (snd p)))"

named_theorems lwr_rules "outcomes that keep the lock object"

lemma lwr_leaf [lwr_rules]: "lw_eq l (g r) \<Longrightarrow> lwr g l (x, (r, w))"
  by (simp add: lwr_def)

lemma lwr_state [lwr_rules]: "lw_eq l (g (fst s)) \<Longrightarrow> lwr g l (x, s)"
  by (simp add: lwr_def)

lemma lwr_if [lwr_rules]: "lwr g l a \<Longrightarrow> lwr g l b \<Longrightarrow> lwr g l (if c then a else b)"
  by simp

lemma lwr_option [lwr_rules]: "lwr g l a \<Longrightarrow> (\<And>y. lwr g l (f y)) \<Longrightarrow> lwr g l (case x of None \<Rightarrow> a | Some y \<Rightarrow> f y)"
  by (cases x) simp_all

lemma lwr_sum [lwr_rules]: "(\<And>e. lwr g l (f e)) \<Longrightarrow> (\<And>y. lwr g l (h y)) \<Longrightarrow> lwr g l (case x of Inl e \<Rightarrow> f e | Inr y \<Rightarrow> h y)"
  by (cases x) simp_all

lemma lwr_world [lwr_rules]: "(\<And>a w. lwr g l (f a w)) \<Longrightarrow> lwr g l (case x of (a, w) \<Rightarrow> f a w)"
  by (cases x) simp

lemma lwr_then:
  assumes "lwr g l p" "\<And>x s. lw_eq l (g (fst s)) \<Longrightarrow> lwr g l (f x s)"
  shows "lwr g l (case p of (x, s) \<Rightarrow> f x s)"
  using assms by (cases p) (simp add: lwr_def)

abbreviation is_gentle :: "(imageStore \<times> world, 'a) go \<Rightarrow> bool" where
  "is_gentle m \<equiv> (\<forall>l s. lw_eq l (is_lockfile (fst s)) \<longrightarrow> lwr is_lockfile l (m s))"

lemma is_lock_fields [simp]:
  "is_lockfile (update_obj x f r) = is_lockfile (r :: imageStore)" "is_lockfile (insert_item k ns i r) = is_lockfile r"
  "is_lockfile (remove_item k ns di r) = is_lockfile r" "is_lockfile (set_names nm upd h ns x r) = is_lockfile r"
  by (simp_all add: update_obj_def insert_item_def remove_item_def set_names_def Let_def split: prod.splits)

lemma is_Save_gentle: "is_gentle is_Save"
proof (intro allI impI)
  fix l :: lockfile and s :: "imageStore \<times> world" assume l: "lw_eq l (is_lockfile (fst s))"
  obtain res l' w where r: "save_file (is_imagespath (fst s)) (JImages (map json_Image (item_list (fst s)))) (is_lockfile (fst s), snd s) = (res, l', w)"
    by (rule prod_cases3)
  have "lw_eq l l'" using save_file_frame(1) [OF r] lw_eq_trans [OF l, of l'] by (simp add: lw_eq_def)
  with r l show "lwr is_lockfile l (is_Save s)" by (simp add: is_Save_def Let_def lwr_def)
qed

lemma is_Save_from: "lw_eq l (is_lockfile r) \<Longrightarrow> lwr is_lockfile l (is_Save (r, w))"
  using is_Save_gentle by simp

lemma is_load_data_gentle: "is_gentle (is_load_data validate is)"
  unfolding is_load_data_def Let_def by (intro allI impI lwr_rules is_Save_from) simp_all

lemma is_Load_gentle: "is_gentle (is_Load validate)"
  unfolding is_Load_def by (intro allI impI lwr_rules is_load_data_gentle [rule_format]) simp_all

lemma is_Reload_gentle: "is_gentle (is_ReloadIfChanged validate)"
proof (intro allI impI)
  fix l :: lockfile and s :: "imageStore \<times> world" assume l: "lw_eq l (is_lockfile (fst s))"
  obtain x l' w where m: "Modified (is_lockfile (fst s), snd s) = (x, l', w)" by (rule prod_cases3)
  have "lw_eq (is_lockfile (fst s)) l'" using m gentle_locks(2) unfolding gentle_def lw_eq_def by blast
  with lw_eq_trans [OF l] have "lw_eq l l'" .
  then show "lwr is_lockfile l (is_ReloadIfChanged validate s)"
    unfolding is_ReloadIfChanged_def m prod.case Let_def by (intro lwr_rules is_Load_gentle [rule_format]) simp_all
qed

lemma is_setters_gentle:
  "is_gentle (is_SetMetadata ident md)" "is_gentle (is_SetNames ident names)" "is_gentle (is_addMappedTopLayer ident k)"
  "is_gentle (is_removeMappedTopLayer ident k)" "is_gentle (is_BigData ident key)"
  unfolding is_SetMetadata_def is_SetNames_def is_addMappedTopLayer_def is_removeMappedTopLayer_def is_BigData_def Let_def
  by (intro allI impI lwr_rules is_Save_from; simp)+

lemma is_BigDataSize_gentle: "is_gentle (is_BigDataSize ident key)"
  unfolding is_BigDataSize_def
  by (intro allI impI lwr_if lwr_option lwr_state lwr_then [OF is_setters_gentle(5) [rule_format]] lwr_sum) simp_all

lemma is_Create_gentle: "is_gentle (is_Create validate ident names layer metadata created d)"
proof -
  have c: "lwr is_lockfile l (case is_Save (r, w) of (Inl (Panic m), s') \<Rightarrow> (Inl (Panic m), s') | (_, s') \<Rightarrow> (Inr i, s'))"
    if "lw_eq l (is_lockfile r)" for l r w and i :: Image
    using is_Save_from [OF that, of w] by (auto simp: lwr_def split: prod.splits sum.splits gerr.splits)
  show ?thesis unfolding is_Create_def Let_def by (intro allI impI lwr_if lwr_world lwr_sum lwr_leaf lwr_state c) simp_all
qed

lemma is_Delete_gentle: "is_gentle (is_Delete ident)"
  unfolding is_Delete_def Let_def
  by (intro allI impI lwr_if lwr_option lwr_then [OF is_Save_from] lwr_sum lwr_leaf lwr_state) (auto simp: lwr_def split: prod.splits)

lemma is_Wipe_gentle: "is_gentle (is_Wipe ks)"
proof -
  have "is_gentle (is_wipe_loop ks)"
  proof (induction ks)
    case Nil
    then show ?case by (simp add: lwr_def)
  next
    case (Cons k ks)
    then show ?case unfolding is_wipe_loop.simps
      by (intro allI impI lwr_then [OF is_Delete_gentle [rule_format]] lwr_sum lwr_state) blast+
  qed
  then show ?thesis unfolding is_Wipe_def by (intro allI impI lwr_if lwr_state) blast+
qed

lemma is_SetBigData_gentle: "is_gentle (is_SetBigData validate fromBytes ident key data dm)"
  unfolding is_SetBigData_def Let_def by (intro allI impI lwr_rules is_Save_from) simp_all

lemmas is_gentle_rules = is_Save_gentle is_Load_gentle is_Reload_gentle is_setters_gentle is_BigDataSize_gentle
  is_Create_gentle is_Delete_gentle is_Wipe_gentle is_SetBigData_gentle

section \<open>Container stores\<close>

abbreviation cs_gentle :: "(containerStore \<times> world, 'a) go \<Rightarrow> bool" where
  "cs_gentle m \<equiv> (\<forall>l s. lw_eq l (cs_lockfile (fst s)) \<longrightarrow> lwr cs_lockfile l (m s))"

lemma cs_lock_fields [simp]:
  "cs_lockfile (update_obj x f r) = cs_lockfile (r :: containerStore)" "cs_lockfile (insert_item k ns i r) = cs_lockfile r"
  "cs_lockfile (remove_item k ns di r) = cs_lockfile r" "cs_lockfile (set_names nm upd h ns x r) = cs_lockfile r"
  by (simp_all add: update_obj_def insert_item_def remove_item_def set_names_def Let_def split: prod.splits)

lemma cs_Save_gentle: "cs_gentle cs_Save"
proof (intro allI impI)
  fix l :: lockfile and s :: "containerStore \<times> world" assume l: "lw_eq l (cs_lockfile (fst s))"
  obtain res l' w where r: "save_file (cs_containerspath (fst s)) (JContainers (map json_Container (item_list (fst s)))) (cs_lockfile (fst s), snd s) = (res, l', w)"
    by (rule prod_cases3)
  have "lw_eq l l'" using save_file_frame(1) [OF r] lw_eq_trans [OF l, of l'] by (simp add: lw_eq_def)
  with r l show "lwr cs_lockfile l (cs_Save s)" by (simp add: cs_Save_def Let_def lwr_def)
qed

lemma cs_Save_from: "lw_eq l (cs_lockfile r) \<Longrightarrow> lwr cs_lockfile l (cs_Save (r, w))"
  using cs_Save_gentle by simp

lemma cs_Load_gentle: "cs_gentle cs_Load"
proof -
  have "cs_lockfile (fst (load_store a b c cs r)) = cs_lockfile r" for a b c cs and r :: containerStore
    by (simp add: load_store_def Let_def split: prod.splits)
  then have d: "cs_gentle (cs_load_data cs)" for cs
    unfolding cs_load_data_def Let_def case_prod_beta by (intro allI impI lwr_rules cs_Save_from) simp_all
  show ?thesis unfolding cs_Load_def by (intro allI impI lwr_rules d [rule_format]) simp_all
qed

lemma cs_Reload_gentle: "cs_gentle cs_ReloadIfChanged"
proof (intro allI impI)
  fix l :: lockfile and s :: "containerStore \<times> world" assume l: "lw_eq l (cs_lockfile (fst s))"
  obtain x l' w where m: "Modified (cs_lockfile (fst s), snd s) = (x, l', w)" by (rule prod_cases3)
  have "lw_eq (cs_lockfile (fst s)) l'" using m gentle_locks(2) unfolding gentle_def lw_eq_def by blast
  with lw_eq_trans [OF l] have "lw_eq l l'" .
  then show "lwr cs_lockfile l (cs_ReloadIfChanged s)"
    unfolding cs_ReloadIfChanged_def m prod.case Let_def by (intro lwr_rules cs_Load_gentle [rule_format]) simp_all
qed

lemma cs_setters_gentle:
  "cs_gentle (cs_SetMetadata ident md)" "cs_gentle (cs_SetNames ident names)" "cs_gentle (cs_BigData ident key)"
  "cs_gentle (cs_SetBigData fromBytes ident key data)"
  unfolding cs_SetMetadata_def cs_SetNames_def cs_BigData_def cs_SetBigData_def Let_def
  by (intro allI impI lwr_rules cs_Save_from; simp)+

lemma cs_recorded_gentle: "cs_gentle (cs_recorded fromBytes get unknown ident key)"
  unfolding cs_recorded_def
  by (intro allI impI lwr_if lwr_option lwr_state lwr_then [OF cs_setters_gentle(3) [rule_format]]
      lwr_then [OF cs_setters_gentle(4) [rule_format]] lwr_sum) simp_all

lemma cs_sizes_gentle: "cs_gentle (cs_BigDataSize fromBytes ident key)" "cs_gentle (cs_BigDataDigest fromBytes ident key)"
  unfolding cs_BigDataSize_def cs_BigDataDigest_def by (rule cs_recorded_gentle)+

lemma cs_Create_gentle: "cs_gentle (cs_Create ident names imageID layer metadata opts)"
  unfolding cs_Create_def Let_def
  by (intro allI impI lwr_if lwr_then [OF cs_Save_from] lwr_world lwr_sum lwr_leaf lwr_state) simp_all

lemma cs_Delete_gentle: "cs_gentle (cs_Delete ident)"
  unfolding cs_Delete_def Let_def
  by (intro allI impI lwr_if lwr_option lwr_then [OF cs_Save_from] lwr_sum lwr_leaf lwr_state) (auto simp: lwr_def split: prod.splits)

lemma cs_Wipe_gentle: "cs_gentle (cs_Wipe ks)"
proof (induction ks)
  case Nil
  then show ?case by (simp add: lwr_def)
next
  case (Cons k ks)
  then show ?case unfolding cs_Wipe.simps
    by (intro allI impI lwr_then [OF cs_Delete_gentle [rule_format]] lwr_sum lwr_state) blast+
qed

lemmas cs_gentle_rules = cs_Save_gentle cs_Load_gentle cs_Reload_gentle cs_setters_gentle cs_sizes_gentle
  cs_Create_gentle cs_Delete_gentle cs_Wipe_gentle

end
