(* ===== verification/StoreLocks.thy ===== *)
theory StoreLocks
  imports StoreMount Steady
begin

text \<open>
  Lock discipline of the store: an operation that returns has released every lock it took.

  The view of a store is the state of all its locks: the graph lock, the user namespace lock, and the
  locks of its layer stores, image stores and container store.  A position that holds no store counts
  as unlocked, so that opening a store does not change the view.
\<close>

section \<open>The view\<close>

definition free :: lockview where
  "free = (0, False)"

definition st_locks :: "'d store \<Rightarrow> (nat \<Rightarrow> lockview \<times> lockview) \<times> (nat \<Rightarrow> lockview) \<times> lockview \<times> lockview \<times> lockview" where
  "st_locks st =
     (\<lambda>i. if i < length (s_layerStores st) then ls_locks (layers_at st i) else (free, free),
      \<lambda>i. if i < length (s_imageStores st) then lkview (is_lockfile (images_at st i)) else free,
      case s_containerStore st of None \<Rightarrow> free | Some r \<Rightarrow> lkview (cs_lockfile r),
      lkview (s_graphLock st), lkview (s_usernsLock st))"

text \<open>Every position that the store keeps is one of an object that exists.\<close>

definition st_positions :: "'d store \<Rightarrow> bool" where
  "st_positions st \<longleftrightarrow> (\<forall>i. s_layerStore st = Some i \<longrightarrow> i < length (s_layerStores st)) \<and>
     (\<forall>i \<in> set (s_roLayerStores st). i < length (s_layerStores st)) \<and>
     (\<forall>i. s_imageStore st = Some i \<longrightarrow> i < length (s_imageStores st)) \<and>
     (\<forall>i \<in> set (s_roImageStores st). i < length (s_imageStores st))"

definition st_sane :: "'d store \<Rightarrow> bool" where
  "st_sane st \<longleftrightarrow> st_positions st \<and> (\<forall>i < length (s_layerStores st). ls_sane (layers_at st i)) \<and>
     (\<forall>i < length (s_imageStores st). sane (is_lockfile (images_at st i))) \<and>
     (\<forall>r. s_containerStore st = Some r \<longrightarrow> sane (cs_lockfile r)) \<and>
     sane (s_graphLock st) \<and> sane (s_usernsLock st)"

abbreviation ssteady :: "('d, 'a) sop \<Rightarrow> bool" where
  "ssteady m \<equiv> steady (\<lambda>s. st_sane (fst s)) (\<lambda>s. st_locks (fst s)) m"

lemma ssteady_frame: "(\<And>s. fst (snd (m s)) = fst s) \<Longrightarrow> ssteady m"
  unfolding steady_def by (metis snd_conv)

lemma ssteady_basic [steady_rules]:
  "ssteady (st_world wm)" "ssteady (on_snd em)" "ssteady (ask_st f)" "ssteady st_now" "ssteady (of_res r)"
  "ssteady (get_ls i lf)" "ssteady (get_is i af)" "ssteady (get_cs cf)"
  by (auto intro!: ssteady_frame simp: st_world_def on_snd_def ask_st_def st_now_def of_res_def get_ls_def get_is_def get_cs_def
      split: prod.splits option.splits)

lemma ssteady_upd_st:
  "(\<And>st. st_sane st \<Longrightarrow> st_sane (f st) \<and> st_locks (f st) = st_locks st) \<Longrightarrow> ssteady (upd_st f)"
  by (simp add: steady_def upd_st_def modify_def)

lemma st_fields [simp]:
  "st_sane (st\<lparr>s_graphDriver := d\<rparr>) = st_sane st" "st_locks (st\<lparr>s_graphDriver := d\<rparr>) = st_locks st"
  "st_sane (st\<lparr>s_graphDriverName := n\<rparr>) = st_sane st" "st_locks (st\<lparr>s_graphDriverName := n\<rparr>) = st_locks st"
  "st_locks (st\<lparr>s_layerStore := p\<rparr>) = st_locks st"
  "st_sane (st\<lparr>s_lastLoaded := t\<rparr>) = st_sane st" "st_locks (st\<lparr>s_lastLoaded := t\<rparr>) = st_locks st"
  "st_locks (st\<lparr>s_roLayerStores := ps\<rparr>) = st_locks st" "st_locks (st\<lparr>s_imageStore := p\<rparr>) = st_locks st"
  "st_locks (st\<lparr>s_roImageStores := ps\<rparr>) = st_locks st" "st_locks (st\<lparr>s_digestLockRoot := r\<rparr>) = st_locks st"
  "st_sane (st\<lparr>s_digestLockRoot := r\<rparr>) = st_sane st"
  "st_sane (st\<lparr>s_uidMap := um, s_gidMap := gm\<rparr>) = st_sane st" "st_locks (st\<lparr>s_uidMap := um, s_gidMap := gm\<rparr>) = st_locks st"
  "st_sane (st\<lparr>s_additionalUIDs := us, s_additionalGIDs := gs\<rparr>) = st_sane st"
  "st_locks (st\<lparr>s_additionalUIDs := us, s_additionalGIDs := gs\<rparr>) = st_locks st"
  by (simp_all add: st_sane_def st_positions_def st_locks_def layers_at_def images_at_def cong: if_cong)

lemma ssteady_keep_sorted [steady_rules]: "ssteady (upd_st (keep_sorted usrc um gsrc gm))"
  by (rule ssteady_upd_st) (simp add: keep_sorted_def)

section \<open>Operations of the parts\<close>

lemma gentle_lw: "gentle m \<Longrightarrow> m (l, w) = (res, l', w') \<Longrightarrow> (sane l' \<longleftrightarrow> sane l) \<and> lkview l' = lkview l"
  by (rule gentle_view)

lemma ssteady_graphLock [steady_rules]: "gentle m \<Longrightarrow> ssteady (on_graphLock m)"
  using gentle_view [of m] by (fastforce simp: steady_def on_graphLock_def st_sane_def st_positions_def st_locks_def layers_at_def images_at_def split: prod.splits)

lemma st_locks_ls:
  assumes "i < length (s_layerStores st)"
  shows "st_locks (st\<lparr>s_layerStores := (s_layerStores st)[i := (r, drv)]\<rparr>) =
    (let (a, b) = st_locks st in (a(i := ls_locks r), b))"
  using assms by (auto simp: st_locks_def layers_at_def images_at_def fun_eq_iff)

lemma st_sane_ls:
  "st_sane st \<Longrightarrow> ls_sane r \<Longrightarrow> st_sane (st\<lparr>s_layerStores := (s_layerStores st)[i := (r, drv)]\<rparr>)"
  by (cases "i < length (s_layerStores st)") (auto simp: st_sane_def st_positions_def layers_at_def images_at_def nth_list_update)

lemma on_ls_run:
  "on_ls i m s =
     (let (x, r', e) = m (snd (s_layerStores (fst s) ! i)) (layers_at (fst s) i, snd s)
      in (x, ((fst s)\<lparr>s_layerStores := (s_layerStores (fst s))[i := (r', snd (s_layerStores (fst s) ! i))]\<rparr>, e)))"
  by (simp add: on_ls_def layers_at_def Let_def case_prod_beta)

lemma ls_beyond:
  "\<not> i < length (s_layerStores st) \<Longrightarrow> st\<lparr>s_layerStores := (s_layerStores st)[i := p]\<rparr> = st"
  by (simp add: not_less list_update_beyond)

lemma ls_view:
  "i < length (s_layerStores st) \<Longrightarrow> fst (st_locks st) i = ls_locks (layers_at st i)"
  "\<not> i < length (s_layerStores st) \<Longrightarrow> fst (st_locks st) i = (free, free)"
  by (simp_all add: st_locks_def)

lemma ssteady_on_ls [steady_rules]:
  assumes "\<And>drv. lsteady (m drv)"
  shows "ssteady (on_ls i m :: ('d, 'a) sop)"
proof (rule steadyI)
  fix s :: "'d store \<times> 'd env" and res s'
  assume S: "st_sane (fst s)" and run: "on_ls i m s = (res, s')" and n: "normal res"
  define drv where "drv = snd (s_layerStores (fst s) ! i)"
  obtain r' e where m: "m drv (layers_at (fst s) i, snd s) = (res, r', e)"
    and s': "fst s' = (fst s)\<lparr>s_layerStores := (s_layerStores (fst s))[i := (r', drv)]\<rparr>"
    using run by (auto simp: on_ls_run drv_def split: prod.splits)
  show "st_sane (fst s') \<and> st_locks (fst s') = st_locks (fst s)"
  proof (cases "i < length (s_layerStores (fst s))")
    case True
    have "ls_sane (layers_at (fst s) i)" using S True by (simp add: st_sane_def st_positions_def)
    with steadyD [OF assms _ m n] have r': "ls_sane r'" "ls_locks r' = fst (st_locks (fst s)) i"
      using ls_view(1) [OF True] by simp_all
    then have "st_locks (fst s') = st_locks (fst s)"
      unfolding s' st_locks_ls [OF True] by (simp add: case_prod_beta)
    then show ?thesis using st_sane_ls [OF S r'(1)] s' by simp
  next
    case False
    then show ?thesis using S s' ls_beyond by metis
  qed
qed

lemma is_view:
  "i < length (s_imageStores st) \<Longrightarrow> fst (snd (st_locks st)) i = lkview (is_lockfile (images_at st i))"
  "\<not> i < length (s_imageStores st) \<Longrightarrow> fst (snd (st_locks st)) i = free"
  by (simp_all add: st_locks_def)

lemma st_locks_is:
  assumes "i < length (s_imageStores st)"
  shows "st_locks (st\<lparr>s_imageStores := (s_imageStores st)[i := r]\<rparr>) =
    (let (a, b, c) = st_locks st in (a, b(i := lkview (is_lockfile r)), c))"
  using assms by (auto simp: st_locks_def layers_at_def images_at_def fun_eq_iff)

lemma st_sane_is:
  "st_sane st \<Longrightarrow> sane (is_lockfile r) \<Longrightarrow> st_sane (st\<lparr>s_imageStores := (s_imageStores st)[i := r]\<rparr>)"
  by (cases "i < length (s_imageStores st)") (auto simp: st_sane_def st_positions_def layers_at_def images_at_def nth_list_update)

lemma is_beyond: "\<not> i < length (s_imageStores st) \<Longrightarrow> st\<lparr>s_imageStores := (s_imageStores st)[i := p]\<rparr> = st"
  by (simp add: not_less list_update_beyond)

lemma ssteady_on_is [steady_rules]:
  assumes "is_gentle m"
  shows "ssteady (on_is i m :: ('d, 'a) sop)"
proof (rule steadyI)
  fix s :: "'d store \<times> 'd env" and res s'
  assume S: "st_sane (fst s)" and run: "on_is i m s = (res, s')" and n: "normal res"
  obtain r' w where m: "m (images_at (fst s) i, wld (snd s)) = (res, r', w)"
    and s': "fst s' = (fst s)\<lparr>s_imageStores := (s_imageStores (fst s))[i := r']\<rparr>"
    using run by (auto simp: on_is_def split: prod.splits)
  have "lw_eq (is_lockfile (images_at (fst s) i)) (is_lockfile r')"
    using assms [rule_format, of "is_lockfile (images_at (fst s) i)" "(images_at (fst s) i, wld (snd s))"] m by (simp add: lwr_def)
  note r' = lw_eq_view [OF this]
  show "st_sane (fst s') \<and> st_locks (fst s') = st_locks (fst s)"
  proof (cases "i < length (s_imageStores (fst s))")
    case True
    have "sane (is_lockfile (images_at (fst s) i))" using S True by (simp add: st_sane_def st_positions_def)
    with r' have "st_sane (fst s')" using st_sane_is [OF S] s' by simp
    moreover have "st_locks (fst s') = st_locks (fst s)"
      unfolding s' st_locks_is [OF True] conjunct2 [OF r'] is_view(1) [OF True, symmetric] by (simp add: case_prod_beta)
    ultimately show ?thesis ..
  next
    case False
    then show ?thesis using S s' is_beyond by metis
  qed
qed

lemma st_fields_cs:
  "st_locks (st\<lparr>s_containerStore := Some r\<rparr>) = (let (a, b, c, d) = st_locks st in (a, b, lkview (cs_lockfile r), d))"
  "st_sane st \<Longrightarrow> sane (cs_lockfile r) \<Longrightarrow> st_sane (st\<lparr>s_containerStore := Some r\<rparr>)"
  by (auto simp: st_locks_def st_sane_def st_positions_def layers_at_def images_at_def cong: if_cong)

lemma ssteady_on_cs [steady_rules]:
  assumes "cs_gentle m"
  shows "ssteady (on_cs m :: ('d, 'a) sop)"
proof (rule steadyI)
  fix s :: "'d store \<times> 'd env" and res s'
  assume S: "st_sane (fst s)" and run: "on_cs m s = (res, s')" and n: "normal res"
  show "st_sane (fst s') \<and> st_locks (fst s') = st_locks (fst s)"
  proof (cases "s_containerStore (fst s)")
    case None
    with run S show ?thesis by (auto simp: on_cs_def)
  next
    case (Some r)
    obtain r' w where m: "m (r, wld (snd s)) = (res, r', w)" and s': "fst s' = (fst s)\<lparr>s_containerStore := Some r'\<rparr>"
      using run Some by (auto simp: on_cs_def split: prod.splits)
    have "lw_eq (cs_lockfile r) (cs_lockfile r')"
      using assms [rule_format, of "cs_lockfile r" "(r, wld (snd s))"] m by (simp add: lwr_def)
    note r' = lw_eq_view [OF this]
    have "sane (cs_lockfile r)" using S Some by (simp add: st_sane_def st_positions_def)
    with r' have "st_sane (fst s')" unfolding s' by (intro st_fields_cs(2) [OF S]) simp
    moreover have "st_locks (fst s') = st_locks (fst s)"
      unfolding s' st_fields_cs using r' Some by (simp add: case_prod_beta st_locks_def)
    ultimately show ?thesis ..
  qed
qed

section \<open>Taking a lock\<close>

lemma Unlock_free: "lkview l = free \<Longrightarrow> sane l \<Longrightarrow> \<exists>e l'. Unlock l = (Inl e, l') \<and> abnormal e"
  by (auto simp: lkview_def free_def sane_iff Unlock_def Let_def rw_release_def abnormal_def)

text \<open>
  The contract of a lock the store reaches through \<open>acq\<close>: the view has a place for it (\<open>held\<close>,
  \<open>put\<close>), and an operation on the lock object changes the store there and nowhere else.  A place that
  has no lock object is free and stays as it is.
\<close>

locale lock_slot =
  fixes acq :: "locking \<Rightarrow> ('d, unit) sop"
    and held :: "(nat \<Rightarrow> lockview \<times> lockview) \<times> (nat \<Rightarrow> lockview) \<times> lockview \<times> lockview \<times> lockview \<Rightarrow> lockview"
    and put :: "lockview \<Rightarrow> (nat \<Rightarrow> lockview \<times> lockview) \<times> (nat \<Rightarrow> lockview) \<times> lockview \<times> lockview \<times> lockview \<Rightarrow>
      (nat \<Rightarrow> lockview \<times> lockview) \<times> (nat \<Rightarrow> lockview) \<times> lockview \<times> lockview \<times> lockview"
  assumes held_put: "held (put a v) = a"
    and put_held: "put (held v) v = v"
    and put_put: "put a (put b v) = put a v"
    and origin: "acq m s = (Inl e, s') \<Longrightarrow> abnormal e \<or> (\<exists>l w l' w'. m (l, w) = (Inl e, l', w'))"
    and reach: "acq m s = (x, s') \<Longrightarrow> st_sane (fst s) \<Longrightarrow>
      (\<exists>l w l' w'. m (l, w) = (x, l', w') \<and> sane l \<and> held (st_locks (fst s)) = lkview l \<and>
         (sane l' \<longrightarrow> st_sane (fst s')) \<and> st_locks (fst s') = put (lkview l') (st_locks (fst s))) \<or>
      held (st_locks (fst s)) = free \<and> fst s' = fst s"
begin

definition holding :: "(nat \<Rightarrow> lockview \<times> lockview) \<times> (nat \<Rightarrow> lockview) \<times> lockview \<times> lockview \<times> lockview \<Rightarrow>
    (nat \<Rightarrow> lockview \<times> lockview) \<times> (nat \<Rightarrow> lockview) \<times> lockview \<times> lockview \<times> lockview \<Rightarrow> bool" where
  "holding v v' \<longleftrightarrow> (\<exists>a. taken (held v) a \<and> v' = put a v) \<or> held v = free \<and> v' = v"

lemma acquire:
  assumes "lock \<in> {Lock, RLock}" "st_sane (fst s)" "acq lock s = (Inr u, s1)"
  shows "st_sane (fst s1) \<and> holding (st_locks (fst s)) (st_locks (fst s1))"
  using reach [OF assms(3,2)]
proof (elim disjE exE conjE)
  fix l w l' w' assume l: "lock (l, w) = (Inr u, l', w')" "sane l" "held (st_locks (fst s)) = lkview l"
    "sane l' \<longrightarrow> st_sane (fst s1)" "st_locks (fst s1) = put (lkview l') (st_locks (fst s))"
  have "sane l'" "taken (lkview l) (lkview l')" using locking_view [OF assms(1) l(1,2)] by simp_all
  with l show ?thesis unfolding holding_def by metis
next
  assume "held (st_locks (fst s)) = free" "fst s1 = fst s"
  with assms(2) show ?thesis by (simp add: holding_def)
qed

lemma release:
  assumes "st_sane (fst s)" "holding v (st_locks (fst s))" "ignoring (acq (on_fst Unlock)) s = (Inr u, s')"
  shows "st_sane (fst s') \<and> st_locks (fst s') = v"
proof -
  obtain x where x: "acq (on_fst Unlock) s = (x, s')" "normal x"
    using assms(3) by (auto simp: ignoring_def bind_def attempt_def split: prod.splits sum.splits if_splits)
  show ?thesis using reach [OF x(1) assms(1)]
  proof (elim disjE exE conjE)
    fix l w l' w' assume l: "on_fst Unlock (l, w) = (x, l', w')" "sane l" "held (st_locks (fst s)) = lkview l"
      "sane l' \<longrightarrow> st_sane (fst s')" "st_locks (fst s') = put (lkview l') (st_locks (fst s))"
    then have u: "Unlock l = (x, l')" by (simp add: on_fst_def split: prod.splits)
    show ?thesis using assms(2) unfolding holding_def
    proof (elim disjE exE conjE)
      fix a assume a: "taken (held v) a" "st_locks (fst s) = put a v"
      with l(3) held_put have "taken (held v) (lkview l)" by simp
      with Unlock_view [OF this l(2)] u have "sane l'" "lkview l' = held v" by auto
      with l(4,5) a(2) show ?thesis by (simp add: put_put put_held)
    next
      assume "held v = free" "st_locks (fst s) = v"
      with l(3) have "lkview l = free" by simp
      with Unlock_free [OF this l(2)] u x(2) show ?thesis by auto
    qed
  next
    assume f: "held (st_locks (fst s)) = free" "fst s' = fst s"
    then have "st_locks (fst s) = v" using assms(2) by (auto simp: holding_def taken_def free_def held_put)
    with f assms(1) show ?thesis by simp
  qed
qed

lemma locked:
  assumes "lock \<in> {Lock, RLock}" "ssteady m"
  shows "ssteady (bind (acq lock) (\<lambda>_. deferred (acq (on_fst Unlock)) m))"
proof (rule steady_locked [where L = holding])
  fix s e s1 assume "acq lock s = (Inl e, s1)"
  with origin assms(1) show "abnormal e" by (blast intro: locking_abnormal)
qed (use assms acquire release in blast)+

end

text \<open>The five kinds of places.\<close>

interpretation graph_slot: lock_slot on_graphLock "\<lambda>(a, b, c, g, u). g" "\<lambda>x (a, b, c, g, u). (a, b, c, x, u)"
proof
  fix m :: locking and s :: "'d store \<times> 'd env" and e s' x
  show "abnormal e \<or> (\<exists>l w l' w'. m (l, w) = (Inl e, l', w'))" if "on_graphLock m s = (Inl e, s')"
    using that by (auto simp: on_graphLock_def split: prod.splits)
  assume "on_graphLock m s = (x, s')" and S: "st_sane (fst s)"
  then obtain l' w' where "m (s_graphLock (fst s), wld (snd s)) = (x, l', w')" "fst s' = (fst s)\<lparr>s_graphLock := l'\<rparr>"
    by (auto simp: on_graphLock_def split: prod.splits)
  with S show "(\<exists>l w l' w'. m (l, w) = (x, l', w') \<and> sane l \<and> (case st_locks (fst s) of (a, b, c, g, u) \<Rightarrow> g) = lkview l \<and>
        (sane l' \<longrightarrow> st_sane (fst s')) \<and>
        st_locks (fst s') = (case st_locks (fst s) of (a, b, c, g, u) \<Rightarrow> (a, b, c, lkview l', u))) \<or>
      (case st_locks (fst s) of (a, b, c, g, u) \<Rightarrow> g) = free \<and> fst s' = fst s"
    by (intro disjI1 exI [of _ "s_graphLock (fst s)"] exI [of _ "wld (snd s)"] exI [of _ l'] exI [of _ w'])
      (auto simp: st_locks_def st_sane_def st_positions_def layers_at_def images_at_def cong: if_cong)
qed auto

interpretation userns_slot: lock_slot on_usernsLock "\<lambda>(a, b, c, g, u). u" "\<lambda>x (a, b, c, g, u). (a, b, c, g, x)"
proof
  fix m :: locking and s :: "'d store \<times> 'd env" and e s' x
  show "abnormal e \<or> (\<exists>l w l' w'. m (l, w) = (Inl e, l', w'))" if "on_usernsLock m s = (Inl e, s')"
    using that by (auto simp: on_usernsLock_def split: prod.splits)
  assume "on_usernsLock m s = (x, s')" and S: "st_sane (fst s)"
  then obtain l' w' where "m (s_usernsLock (fst s), wld (snd s)) = (x, l', w')" "fst s' = (fst s)\<lparr>s_usernsLock := l'\<rparr>"
    by (auto simp: on_usernsLock_def split: prod.splits)
  with S show "(\<exists>l w l' w'. m (l, w) = (x, l', w') \<and> sane l \<and> (case st_locks (fst s) of (a, b, c, g, u) \<Rightarrow> u) = lkview l \<and>
        (sane l' \<longrightarrow> st_sane (fst s')) \<and>
        st_locks (fst s') = (case st_locks (fst s) of (a, b, c, g, u) \<Rightarrow> (a, b, c, g, lkview l'))) \<or>
      (case st_locks (fst s) of (a, b, c, g, u) \<Rightarrow> u) = free \<and> fst s' = fst s"
    by (intro disjI1 exI [of _ "s_usernsLock (fst s)"] exI [of _ "wld (snd s)"] exI [of _ l'] exI [of _ w'])
      (auto simp: st_locks_def st_sane_def st_positions_def layers_at_def images_at_def cong: if_cong)
qed auto

interpretation cs_slot: lock_slot "\<lambda>m. on_cs (cs_lock m)" "\<lambda>(a, b, c, d). c" "\<lambda>x (a, b, c, d). (a, b, x, d)"
proof
  fix m :: locking and s :: "'d store \<times> 'd env" and e s' x
  show "abnormal e \<or> (\<exists>l w l' w'. m (l, w) = (Inl e, l', w'))" if "on_cs (cs_lock m) s = (Inl e, s')"
    using that by (auto simp: on_cs_def cs_lock_def abnormal_def split: prod.splits option.splits)
  assume run: "on_cs (cs_lock m) s = (x, s')" and S: "st_sane (fst s)"
  show "(\<exists>l w l' w'. m (l, w) = (x, l', w') \<and> sane l \<and> (case st_locks (fst s) of (a, b, c, d) \<Rightarrow> c) = lkview l \<and>
        (sane l' \<longrightarrow> st_sane (fst s')) \<and>
        st_locks (fst s') = (case st_locks (fst s) of (a, b, c, d) \<Rightarrow> (a, b, lkview l', d))) \<or>
      (case st_locks (fst s) of (a, b, c, d) \<Rightarrow> c) = free \<and> fst s' = fst s"
  proof (cases "s_containerStore (fst s)")
    case None
    with run show ?thesis by (auto simp: on_cs_def st_locks_def)
  next
    case (Some r)
    with run obtain l' w' where "m (cs_lockfile r, wld (snd s)) = (x, l', w')"
      "fst s' = (fst s)\<lparr>s_containerStore := Some (r\<lparr>cs_lockfile := l'\<rparr>)\<rparr>"
      by (auto simp: on_cs_def cs_lock_def split: prod.splits)
    with S Some show ?thesis
      by (intro disjI1 exI [of _ "cs_lockfile r"] exI [of _ "wld (snd s)"] exI [of _ l'] exI [of _ w'])
        (auto simp: st_locks_def st_sane_def st_positions_def layers_at_def images_at_def cong: if_cong)
  qed
qed auto

interpretation is_slot: lock_slot "\<lambda>m. on_is i (is_lock m)" "\<lambda>v. fst (snd v) i" "\<lambda>x (a, b, c). (a, b(i := x), c)" for i
proof
  fix m :: locking and s :: "'d store \<times> 'd env" and e s' x
  show "abnormal e \<or> (\<exists>l w l' w'. m (l, w) = (Inl e, l', w'))" if "on_is i (is_lock m) s = (Inl e, s')"
    using that by (auto simp: on_is_def is_lock_def split: prod.splits)
  assume run: "on_is i (is_lock m) s = (x, s')" and S: "st_sane (fst s)"
  let ?l = "is_lockfile (images_at (fst s) i)"
  obtain l' w' where m: "m (?l, wld (snd s)) = (x, l', w')"
    and s': "fst s' = (fst s)\<lparr>s_imageStores := (s_imageStores (fst s))[i := (images_at (fst s) i)\<lparr>is_lockfile := l'\<rparr>]\<rparr>"
    using run by (auto simp: on_is_def is_lock_def split: prod.splits)
  show "(\<exists>l w l' w'. m (l, w) = (x, l', w') \<and> sane l \<and> fst (snd (st_locks (fst s))) i = lkview l \<and>
        (sane l' \<longrightarrow> st_sane (fst s')) \<and>
        st_locks (fst s') = (case st_locks (fst s) of (a, b, c) \<Rightarrow> (a, b(i := lkview l'), c))) \<or>
      fst (snd (st_locks (fst s))) i = free \<and> fst s' = fst s"
  proof (cases "i < length (s_imageStores (fst s))")
    case True
    have "sane ?l" using S True by (simp add: st_sane_def st_positions_def)
    then show ?thesis using m is_view(1) [OF True] st_sane_is [OF S] st_locks_is [OF True]
      by (intro disjI1 exI [of _ ?l] exI [of _ "wld (snd s)"] exI [of _ l'] exI [of _ w']) (simp add: s')
  next
    case False
    then show ?thesis using is_view(2) is_beyond s' by metis
  qed
qed auto

interpretation ls_slot: lock_slot "\<lambda>m. on_ls i (\<lambda>_. on_lock m)" "\<lambda>v. fst (fst v i)" "\<lambda>x (a, b). (a(i := (x, snd (a i))), b)" for i
proof
  fix m :: locking and s :: "'d store \<times> 'd env" and e s' x
  show "abnormal e \<or> (\<exists>l w l' w'. m (l, w) = (Inl e, l', w'))" if "on_ls i (\<lambda>_. on_lock m) s = (Inl e, s')"
    using that by (auto simp: on_ls_def on_lock_def Let_def split: prod.splits)
  assume run: "on_ls i (\<lambda>_. on_lock m) s = (x, s')" and S: "st_sane (fst s)"
  let ?r = "layers_at (fst s) i"
  obtain l' w' where m: "m (ls_lockfile ?r, wld (snd s)) = (x, l', w')"
    and s': "fst s' = (fst s)\<lparr>s_layerStores := (s_layerStores (fst s))[i := (?r\<lparr>ls_lockfile := l'\<rparr>, snd (s_layerStores (fst s) ! i))]\<rparr>"
    using run by (auto simp: on_ls_run on_lock_def split: prod.splits)
  show "(\<exists>l w l' w'. m (l, w) = (x, l', w') \<and> sane l \<and> fst (fst (st_locks (fst s)) i) = lkview l \<and>
        (sane l' \<longrightarrow> st_sane (fst s')) \<and>
        st_locks (fst s') = (case st_locks (fst s) of (a, b) \<Rightarrow> (a(i := (lkview l', snd (a i))), b))) \<or>
      fst (fst (st_locks (fst s)) i) = free \<and> fst s' = fst s"
  proof (cases "i < length (s_layerStores (fst s))")
    case True
    have sl: "ls_sane ?r" using S True by (simp add: st_sane_def st_positions_def)
    then have "sane l' \<Longrightarrow> ls_sane (?r\<lparr>ls_lockfile := l'\<rparr>)" by (simp add: ls_sane_def)
    moreover have "ls_locks (?r\<lparr>ls_lockfile := l'\<rparr>) = (lkview l', snd (fst (st_locks (fst s)) i))"
      unfolding ls_view(1) [OF True] by (simp add: ls_locks_def)
    ultimately show ?thesis using m ls_view(1) [OF True] sl st_sane_ls [OF S] st_locks_ls [OF True]
      by (intro disjI1 exI [of _ "ls_lockfile ?r"] exI [of _ "wld (snd s)"] exI [of _ l'] exI [of _ w'])
        (simp add: s' ls_sane_def ls_locks_def case_prod_beta)
  next
    case False
    then show ?thesis using ls_view(2) [OF False] ls_beyond [OF False] s' by simp
  qed
qed auto

end
