(* ===== verification/StoreSteady.thy ===== *)
theory StoreSteady
  imports StoreLocks
begin

text \<open>
  The operations of the store leave its locks as they found them.
\<close>

section \<open>Combinators\<close>

lemma ssteady_locked_ls [steady_rules]: "lock \<in> {Lock, RLock} \<Longrightarrow> ssteady m \<Longrightarrow> ssteady (locked_ls i lock m)"
  unfolding locked_ls_def by (rule ls_slot.locked)

lemma ssteady_with_ls [steady_rules]: "lock \<in> {Lock, RLock} \<Longrightarrow> ssteady m \<Longrightarrow> ssteady (with_ls i lock m)"
  unfolding with_ls_def by (intro steady_rules)

lemma ssteady_with_is [steady_rules]: "lock \<in> {Lock, RLock} \<Longrightarrow> ssteady m \<Longrightarrow> ssteady (with_is lib i lock m)"
  unfolding with_is_def by (intro is_slot.locked steady_rules is_gentle_rules)

lemma ssteady_with_cs [steady_rules]: "lock \<in> {Lock, RLock} \<Longrightarrow> ssteady m \<Longrightarrow> ssteady (with_cs lock m)"
  unfolding with_cs_def by (intro cs_slot.locked steady_rules cs_gentle_rules)

lemma ssteady_with_graphLock [steady_rules]: "ssteady m \<Longrightarrow> ssteady (with_graphLock m)"
  unfolding with_graphLock_def by (intro graph_slot.locked) simp_all

lemma ssteady_with_usernsLock [steady_rules]: "ssteady m \<Longrightarrow> ssteady (with_usernsLock m)"
  unfolding with_usernsLock_def by (intro userns_slot.locked) simp_all

lemma lock_kinds [simp]: "reading i \<in> {Lock, RLock}" "writing main i \<in> {Lock, RLock}"
  by (simp_all add: reading_def writing_def)

lemma ssteady_find_ls [steady_rules]:
  assumes "\<And>i. lock i \<in> {Lock, RLock}" "\<And>i. ssteady (f i)" "\<And>r. ssteady (k r)"
  shows "ssteady (find_ls lock ss f k)"
proof (induction ss)
  case Nil
  show ?case by (simp add: assms(3))
next
  case (Cons i ss)
  then show ?case unfolding find_ls.simps by (intro steady_rules assms)
qed

lemma ssteady_find_is [steady_rules]:
  assumes "\<And>i. lock i \<in> {Lock, RLock}" "\<And>i. ssteady (f i)" "\<And>r. ssteady (k r)"
  shows "ssteady (find_is lib lock ss f k)"
proof (induction ss)
  case Nil
  show ?case by (simp add: assms(3))
next
  case (Cons i ss)
  then show ?case unfolding find_is.simps by (intro steady_rules assms)
qed

lemma ssteady_each_ls [steady_rules]:
  assumes "\<And>i acc. ssteady (f i acc)" "\<And>acc. ssteady (k acc)"
  shows "ssteady (each_ls ss f acc k)"
proof (induction ss arbitrary: acc)
  case Nil
  show ?case by (simp add: assms(2))
next
  case (Cons i ss)
  then show ?case unfolding each_ls.simps by (intro steady_rules assms) simp_all
qed

lemma ssteady_each_is [steady_rules]:
  assumes "\<And>i acc. ssteady (f i acc)" "\<And>acc. ssteady (k acc)"
  shows "ssteady (each_is lib ss f acc k)"
proof (induction ss arbitrary: acc)
  case Nil
  show ?case by (simp add: assms(2))
next
  case (Cons i ss)
  then show ?case unfolding each_is.simps by (intro steady_rules assms) simp_all
qed

lemma steady_first_ok [steady_rules]: "steady S V m \<Longrightarrow> steady S V (first_ok m)"
  unfolding first_ok_def by (intro steady_rules)

lemma steady_or_fail [steady_rules]: "steady S V (or_fail e r)"
  unfolding or_fail_def by (intro steady_rules)

lemma steady_or_else [steady_rules]: "steady S V m \<Longrightarrow> steady S V (or_else m r)"
  unfolding or_else_def by (intro steady_rules)

lemma ssteady_if_in [steady_rules]:
  "ssteady m \<Longrightarrow> ssteady (if_in_ls i ident m)" "ssteady m \<Longrightarrow> ssteady (if_in_is i ident m)"
  by (rule steady_runs, unfold if_in_ls_def if_in_is_def, intro srun_rules steady_rules; assumption)+

section \<open>Opening stores\<close>

definition fresh_lock :: "lockfile \<Rightarrow> bool" where
  "fresh_lock l \<longleftrightarrow> sane l \<and> lkview l = free"

lemma createLocker_fresh: "createLockerForPath p b w = (Inr l, w') \<Longrightarrow> fresh_lock l"
  by (auto simp: createLockerForPath_def fresh_lock_def sane_iff lkview_def free_def split: prod.splits sum.splits)

definition fresh_ls :: "layerStore \<Rightarrow> bool" where
  "fresh_ls r \<longleftrightarrow> ls_sane r \<and> ls_locks r = (free, free)"

text \<open>A property of the value an operation returns.\<close>

definition returns :: "('a \<Rightarrow> bool) \<Rightarrow> ('s, 'a) go \<Rightarrow> bool" where
  "returns P m \<longleftrightarrow> (\<forall>s x s'. m s = (Inr x, s') \<longrightarrow> P x)"

lemma returns_bind: "returns Q m \<Longrightarrow> (\<And>x. Q x \<Longrightarrow> returns P (f x)) \<Longrightarrow> returns P (bind m f)"
  unfolding returns_def bind_def by (fastforce split: prod.splits sum.splits)

lemma returns_any: "returns (\<lambda>_. True) m"
  by (simp add: returns_def)

lemma returns_env: "returns P m \<Longrightarrow> returns P (env_world m)" "returns P m2 \<Longrightarrow> returns P (on_snd m2)"
  by (auto simp: returns_def env_world_def on_snd_def split: prod.splits)

lemma returns_st_world: "returns P m \<Longrightarrow> returns P (st_world m)"
  unfolding st_world_def by (intro returns_env)

lemma steady_bind_value:
  assumes "steady S V m" "returns P m" "\<And>x. P x \<Longrightarrow> steady S V (f x)"
  shows "steady S V (bind m f)"
proof (rule steadyI)
  fix s res s' assume S: "S s" and run: "bind m f s = (res, s')" and n: "normal res"
  obtain r1 s1 where m: "m s = (r1, s1)" by (rule prod.exhaust)
  show "S s' \<and> V s' = V s"
  proof (cases r1)
    case (Inl e)
    with run m n steadyD [OF assms(1) S m] show ?thesis by (auto simp: bind_def)
  next
    case (Inr x)
    with run m have "f x s1 = (res, s')" "P x" using assms(2) by (auto simp: bind_def returns_def)
    with steadyD [OF assms(1) S m] steadyD [OF assms(3) _ _ n] Inr show ?thesis by fastforce
  qed
qed

lemma run_new_fresh:
  assumes "fresh_lock l" "ml = None \<or> fresh_lock (the ml)"
  shows "returns fresh_ls (run_new drv (empty_lstore l ml rd ld um gm))"
proof -
  have r: "fresh_ls (empty_lstore l ml rd ld um gm)"
    using assms by (cases ml) (auto simp: fresh_ls_def fresh_lock_def ls_sane_def ls_locks_def empty_lstore_def free_def)
  have "fresh_ls r'" if "ls_Load drv (empty_lstore l ml rd ld um gm, e) = (Inr u, r', e')" for e u r' e'
    using steadyD [OF lsteady_Load _ that] r by (simp add: fresh_ls_def)
  then show ?thesis by (auto simp: returns_def run_new_def split: prod.splits sum.splits)
qed

lemma returns_locker: "returns fresh_lock (createLockerForPath p b)"
  by (auto simp: returns_def dest: createLocker_fresh)

lemma newLayerStore_fresh: "returns fresh_ls (newLayerStore um gm drv rd ld)" "returns fresh_ls (newROLayerStore drv rd ld)"
  unfolding newLayerStore_def newROLayerStore_def
  by (intro returns_bind [OF returns_any] returns_bind [OF returns_env(1) [OF returns_locker]] run_new_fresh; simp)+

text \<open>A new layer store is entered into the list, and its position into a field of the store.\<close>

lemma st_more_ls:
  fixes driver :: "'d Driver"
  assumes "fresh_ls r" "st_sane st"
  defines "st1 \<equiv> st\<lparr>s_layerStores := s_layerStores st @ [(r, driver)]\<rparr>" and "i \<equiv> length (s_layerStores st)"
  shows "st_sane (st1\<lparr>s_layerStore := Some i\<rparr>)" "st_sane (st1\<lparr>s_roLayerStores := s_roLayerStores st1 @ [i]\<rparr>)"
    "st_locks st1 = st_locks st"
  using assms by (auto simp: st_sane_def st_positions_def st_locks_def layers_at_def images_at_def fresh_ls_def fun_eq_iff
      nth_append less_Suc_eq)

lemma ssteady_new_ls:
  assumes "fresh_ls r" "\<And>i. ssteady (k i)"
  shows "ssteady (bind (new_ls r driver) (\<lambda>i. bind (upd_st (\<lambda>st. st\<lparr>s_layerStore := Some i\<rparr>)) (\<lambda>_. k i)))"
    "ssteady (bind (new_ls r driver) (\<lambda>i. bind (upd_st (\<lambda>st. st\<lparr>s_roLayerStores := s_roLayerStores st @ [i]\<rparr>)) (\<lambda>_. k i)))"
proof -
  have k: "ssteady (bind (new_ls r driver) (\<lambda>i. bind (upd_st (f i)) (\<lambda>_. k i)))"
    if f: "\<And>st. st_sane st \<Longrightarrow> st_sane (f (length (s_layerStores st)) (st\<lparr>s_layerStores := s_layerStores st @ [(r, driver)]\<rparr>))"
      "\<And>i st. st_locks (f i st) = st_locks st" for f
  proof (rule steady_runs)
    fix s :: "'a store \<times> 'a env" assume S: "st_sane (fst s)"
    show "srun (\<lambda>s. st_sane (fst s)) (\<lambda>s. st_locks (fst s)) s (bind (new_ls r driver) (\<lambda>i. bind (upd_st (f i)) (\<lambda>_. k i)) s)"
      using srun_of [OF assms(2), of "(f (length (s_layerStores (fst s))) ((fst s)\<lparr>s_layerStores := s_layerStores (fst s) @ [(r, driver)]\<rparr>), snd s)"]
        f(1) [OF S] by (simp add: srun_def bind_def new_ls_def upd_st_def modify_def f(2) st_more_ls(3) [OF assms(1) S])
  qed
  show "ssteady (bind (new_ls r driver) (\<lambda>i. bind (upd_st (\<lambda>st. st\<lparr>s_layerStore := Some i\<rparr>)) (\<lambda>_. k i)))"
    by (rule k) (simp_all add: st_more_ls(1) [OF assms(1)])
  show "ssteady (bind (new_ls r driver) (\<lambda>i. bind (upd_st (\<lambda>st. st\<lparr>s_roLayerStores := s_roLayerStores st @ [i]\<rparr>)) (\<lambda>_. k i)))"
    by (rule k) (use st_more_ls(2) [OF assms(1)] in simp_all)
qed

lemma open_lock_fresh:
  assumes "fresh_lock l" "m \<in> {Lock, RLock}" "m (l, w) = (Inr u, l3, w3)" "lw_eq l3 l4" "Unlock l4 = (Inr v, l5)"
  shows "fresh_lock l5"
proof -
  have "sane l3" "taken (lkview l) (lkview l3)" using locking_view [OF assms(2,3)] assms(1) by (simp_all add: fresh_lock_def)
  then have "sane l4" "taken free (lkview l4)" using lw_eq_view [OF assms(4)] assms(1) by (simp_all add: fresh_lock_def)
  with Unlock_view [of free l4] assms(5) show ?thesis by (auto simp: fresh_lock_def)
qed

lemma newImageStore_fresh:
  "returns (\<lambda>r. fresh_lock (is_lockfile r)) (newImageStore validate dir)"
  "returns (\<lambda>r. fresh_lock (is_lockfile r)) (newROImageStore validate dir)"
proof -
  have "fresh_lock (is_lockfile x)" if run: "open_istore validate isro dir w = (Inr x, w')" for isro w w' and x :: imageStore
  proof -
    define m where "m = (if isro then RLock else Lock)"
    have m: "(if isro then RLock p else Lock p) = m p" "m \<in> {Lock, RLock}" for p by (simp_all add: m_def)
    obtain l w2 u l3 w3 v r w4 l5 where
      l: "createLockerForPath (dir @ [''images.lock'']) isro w = (Inr l, w2)"
         "m (l, w2) = (Inr u, l3, w3)"
         "is_Load validate (empty_istore l3 dir, w3) = (Inr v, r, w4)" "Unlock (is_lockfile r) = (Inr (), l5)"
         "x = r\<lparr>is_lockfile := l5\<rparr>"
      using run unfolding open_istore_def m(1) by (auto split: prod.splits sum.splits)
    have "lw_eq l3 (is_lockfile r)" using is_Load_gentle [of validate, rule_format, of l3 "(empty_istore l3 dir, w3)"] l(3)
      by (simp add: lwr_def empty_istore_def)
    from open_lock_fresh [OF createLocker_fresh [OF l(1)] m(2) l(2) this l(4)] l(5) show ?thesis by simp
  qed
  then show "returns (\<lambda>r. fresh_lock (is_lockfile r)) (newImageStore validate dir)"
    "returns (\<lambda>r. fresh_lock (is_lockfile r)) (newROImageStore validate dir)"
    by (auto simp: returns_def newImageStore_def newROImageStore_def split: prod.splits sum.splits)
qed

lemma newContainerStore_fresh: "returns (\<lambda>r. fresh_lock (cs_lockfile r)) (newContainerStore dir)"
  unfolding returns_def
proof (intro allI impI)
  fix w x w' assume run: "newContainerStore dir w = (Inr x, w')"
  then obtain w1 l w2 u l3 w3 v r w4 l5 where
    l: "createLockerForPath (dir @ [''containers.lock'']) False w1 = (Inr l, w2)"
       "Lock (l, w2) = (Inr u, l3, w3)"
       "cs_Load (empty_cstore l3 dir, w3) = (Inr v, r, w4)" "Unlock (cs_lockfile r) = (Inr (), l5)"
       "x = r\<lparr>cs_lockfile := l5\<rparr>"
    by (auto simp: newContainerStore_def split: prod.splits sum.splits)
  have "lw_eq l3 (cs_lockfile r)" using cs_Load_gentle [rule_format, of l3 "(empty_cstore l3 dir, w3)"] l(3)
    by (simp add: lwr_def empty_cstore_def)
  from open_lock_fresh [OF createLocker_fresh [OF l(1)] insertI1 l(2) this l(4)] l(5) show "fresh_lock (cs_lockfile x)" by simp
qed

lemma ssteady_now [steady_rules]: "ssteady st_now"
  by (rule ssteady_basic)

lemma ssteady_fields [steady_rules]:
  "ssteady (upd_st (\<lambda>st. st\<lparr>s_graphDriver := d, s_graphDriverName := n\<rparr>))"
  "ssteady (upd_st (\<lambda>st. st\<lparr>s_graphDriver := d, s_layerStore := None, s_lastLoaded := t\<rparr>))"
  "ssteady (upd_st (\<lambda>st. st\<lparr>s_graphDriver := d, s_layerStore := None\<rparr>))"
  "ssteady (upd_st (\<lambda>st. st\<lparr>s_graphDriver := d, s_lastLoaded := t\<rparr>))"
  by (rule ssteady_upd_st; simp add: st_sane_def st_positions_def layers_at_def images_at_def)+

lemma ssteady_getGraphDriver [steady_rules]: "ssteady (st_getGraphDriver lib)"
  by (rule steady_runs, unfold st_getGraphDriver_def Let_def) (intro srun_rules steady_rules; assumption)

lemma ssteady_drop_stale [steady_rules]: "ssteady st_drop_stale"
  by (rule steady_runs, unfold st_drop_stale_def) (intro srun_rules steady_rules; simp)

lemma ssteady_GraphDriver [steady_rules]: "ssteady (st_GraphDriver lib)"
  unfolding st_GraphDriver_def by (intro steady_rules)

lemma ssteady_open_layers [steady_rules]: "ssteady (st_open_layers lib)"
  unfolding st_open_layers_def
  by (intro steady_bind_value [OF ssteady_basic(2) returns_env(2) [OF newLayerStore_fresh(1)]] ssteady_new_ls steady_rules)

lemma ssteady_open_ro_layers [steady_rules]: "ssteady (st_open_ro_layers driver rlpath ps)"
proof (induction ps)
  case Nil
  show ?case by (simp add: steady_rules)
next
  case (Cons p ps)
  then show ?case unfolding st_open_ro_layers.simps
    by (intro steady_bind_value [OF ssteady_basic(2) returns_env(2) [OF newLayerStore_fresh(2)]] ssteady_new_ls steady_rules)
qed

lemma ssteady_LayerStore [steady_rules]: "ssteady (st_LayerStore lib)"
proof -
  have "ssteady (\<lambda>s. case s_layerStore (fst s) of Some i \<Rightarrow> (Inr i, s) | None \<Rightarrow> st_open_layers lib s)"
    by (rule steady_runs) (intro srun_rules srun_of [OF ssteady_open_layers]; assumption)
  then show ?thesis unfolding st_LayerStore_def by (intro steady_rules)
qed

lemma ssteady_ROLayerStores [steady_rules]: "ssteady (st_ROLayerStores lib)"
  unfolding st_ROLayerStores_def
  by (rule ssteady_with_graphLock, rule steady_runs, intro srun_rules steady_rules; assumption)

lemma ssteady_stores [steady_rules]: "ssteady st_ImageStore" "ssteady st_ROImageStores" "ssteady st_ContainerStore"
  by (rule steady_runs, unfold st_ImageStore_def st_ROImageStores_def st_ContainerStore_def, intro srun_rules; assumption)+

lemma ssteady_all [steady_rules]:
  "(\<And>i is. ssteady (k i is)) \<Longrightarrow> ssteady (all_ls lib k)" "(\<And>i is. ssteady (k i is)) \<Longrightarrow> ssteady (all_is k)"
  unfolding all_ls_def all_is_def by (intro steady_rules; assumption)+

lemma ssteady_with_writable [steady_rules]: "(\<And>rl ri. ssteady (k rl ri)) \<Longrightarrow> ssteady (with_writable lib k)"
  unfolding with_writable_def by (intro steady_rules) simp_all

section \<open>Queries\<close>

lemma ssteady_in_cs [steady_rules]: "ssteady m \<Longrightarrow> ssteady (st_in_cs m)"
  unfolding st_in_cs_def by (intro steady_rules) simp

lemma ssteady_lookups [steady_rules]:
  "ssteady (st_Metadata lib ident)" "ssteady (st_exists_body lib ident)" "ssteady (st_Names lib ident)"
  "ssteady (st_Lookup lib ident)" "ssteady (st_Layer lib ident)" "ssteady (st_Image lib ident)" "ssteady (st_Container ident)"
  "ssteady (st_ContainerLayerID ident)"
  unfolding st_Metadata_def st_exists_body_def st_Names_def st_Lookup_def st_Layer_def st_Image_def st_Container_def
    st_ContainerLayerID_def
  by (intro steady_rules lock_kinds; simp)+

lemma ssteady_Exists [steady_rules]: "ssteady (st_Exists lib ident)" "ssteady (st_ContainerByLayer lib ident)"
  unfolding st_Exists_def st_ContainerByLayer_def by (intro steady_rules)+

lemma ssteady_lists [steady_rules]:
  "ssteady (st_Layers lib)" "ssteady (st_Images lib)" "ssteady st_Containers" "ssteady (st_ImagesByTopLayer lib ident)"
  "ssteady (st_ImagesByDigest lib d)" "ssteady (st_layersByMappedDigest lib m d)"
  unfolding st_Layers_def st_Images_def st_Containers_def st_ImagesByTopLayer_def st_ImagesByDigest_def st_layersByMappedDigest_def
  by (intro steady_rules; simp)+

lemma ssteady_by_digest [steady_rules]:
  "ssteady (st_LayersByCompressedDigest lib d)" "ssteady (st_LayersByUncompressedDigest lib d)"
  unfolding st_LayersByCompressedDigest_def st_LayersByUncompressedDigest_def by (intro steady_rules)+

lemma ssteady_find_item_is [steady_rules]:
  assumes f: "\<And>i. ssteady (f i)"
  shows "ssteady (find_item_is lib ident f ss found)"
proof (induction ss arbitrary: found)
  case Nil
  show ?case unfolding find_item_is.simps by (intro steady_rules)
next
  case (Cons i ss)
  have "ssteady (\<lambda>s. case r of Some x \<Rightarrow> (Inr x, s)
       | None \<Rightarrow> find_item_is lib ident f ss (found \<or> is_Exists ident (images_at (fst s) i)) s)" for r
    by (rule steady_runs) (intro srun_rules srun_of [OF Cons]; assumption)
  then show ?case unfolding find_item_is.simps by (intro steady_rules f) simp_all
qed

lemma ssteady_find_item_ls [steady_rules]:
  assumes f: "\<And>i. ssteady (f i)"
  shows "ssteady (find_item_ls ident f ss found)"
proof (induction ss arbitrary: found)
  case Nil
  show ?case unfolding find_item_ls.simps by (intro steady_rules)
next
  case (Cons i ss)
  have "ssteady (\<lambda>s. case r of Some x \<Rightarrow> (Inr x, s)
       | None \<Rightarrow> find_item_ls ident f ss (found \<or> ls_Exists ident (layers_at (fst s) i)) s)" for r
    by (rule steady_runs) (intro srun_rules srun_of [OF Cons]; assumption)
  then show ?case unfolding find_item_ls.simps by (intro steady_rules f) simp_all
qed

lemma ssteady_items [steady_rules]:
  "ssteady (st_ListImageBigData lib ident)" "ssteady (st_ImageBigDataSize lib ident key)"
  "ssteady (st_ImageBigDataDigest lib ident key)" "ssteady (st_ImageBigData lib ident key)"
  "ssteady (st_ListLayerBigData lib ident)" "ssteady (st_LayerBigData lib ident key)"
  "ssteady (st_ListContainerBigData ident)" "ssteady (st_ContainerBigDataSize lib ident key)"
  "ssteady (st_ContainerBigDataDigest lib ident key)" "ssteady (st_ContainerBigData ident key)"
  unfolding st_ListImageBigData_def st_ImageBigDataSize_def st_ImageBigDataDigest_def st_ImageBigData_def
    st_ListLayerBigData_def st_LayerBigData_def st_ListContainerBigData_def st_ContainerBigDataSize_def
    st_ContainerBigDataDigest_def st_ContainerBigData_def
  by (intro steady_rules lock_kinds is_gentle_rules cs_gentle_rules; simp)+

lemma ssteady_directories [steady_rules]:
  "ssteady (st_ContainerDirectory ident)" "ssteady (st_ContainerRunDirectory ident)"
  "ssteady (st_SetContainerDirectoryFile ident file data)" "ssteady (st_FromContainerDirectory ident file)"
  "ssteady (st_SetContainerRunDirectoryFile ident file data)" "ssteady (st_FromContainerRunDirectory ident file)"
  unfolding st_SetContainerDirectoryFile_def st_FromContainerDirectory_def st_SetContainerRunDirectoryFile_def
    st_FromContainerRunDirectory_def st_ContainerDirectory_def st_ContainerRunDirectory_def st_container_dir_def write_in_def read_in_def
  by (intro steady_rules)+

lemma ssteady_size_walk [steady_rules]: "ssteady (size_walk stores pick n queue visited sum0)"
proof (induction n arbitrary: queue visited sum0)
  case 0
  show ?case by (rule steady_runs, unfold size_walk.simps) (rule srun_stop)
next
  case (Suc n)
  show ?case by (rule steady_runs, unfold size_walk.simps Let_def) (intro srun_rules steady_rules Suc; assumption)
qed

lemma steady_sum_items [steady_rules]:
  assumes f: "\<And>name. steady S V (f name)"
  shows "steady S V (sum_items f names sum0)"
  by (induction names arbitrary: sum0) (unfold sum_items.simps, (intro steady_rules f; assumption?)+)

lemma ssteady_sizes [steady_rules]:
  "ssteady (st_ImageSize lib pick ident)" "ssteady (st_ContainerSize lib ident)" "ssteady (st_LayerSize lib ident)"
proof -
  have i: "ssteady (st_image_size pick stores ident i img)" for stores i img
    by (rule steady_runs, unfold st_image_size_def Let_def) (intro srun_rules steady_rules is_gentle_rules; assumption)
  show "ssteady (st_ImageSize lib pick ident)"
    unfolding st_ImageSize_def by (intro steady_rules lock_kinds i)
  have k: "ssteady (\<lambda>s1. bind (of_res (lib_dirSize lib cdir (wld (snd s1)))) (\<lambda>n1.
             bind (of_res (lib_dirSize lib rdir (wld (snd s1)))) (\<lambda>n2. ret (int64 (int64 (sum1 + n1) + n2)))) s1)" for cdir rdir sum1
    by (rule steady_runs) (intro srun_rules steady_rules; assumption)
  have c: "ssteady (\<lambda>s. case first_layer (fst s) stores (c_LayerID container) of
         None \<Rightarrow> (Inl ErrLayerUnknown, s)
       | Some (i, layer) \<Rightarrow>
           bind (on_ls i (\<lambda>drv. ls_DiffSize drv [] (l_ID layer))) (\<lambda>sum0.
           bind (get_cs (cs_BigDataNames ident)) (\<lambda>names.
           bind (sum_items (\<lambda>name. on_cs (cs_BigDataSize (dl_canonical (lib_diff lib)) ident name)) names sum0) (\<lambda>sum1 s1.
             bind (of_res (lib_dirSize lib cdir (wld (snd s1)))) (\<lambda>n1.
             bind (of_res (lib_dirSize lib rdir (wld (snd s1)))) (\<lambda>n2. ret (int64 (int64 (sum1 + n1) + n2)))) s1))) s)"
    for stores container cdir rdir
    by (rule steady_runs) (intro srun_rules steady_rules cs_gentle_rules k; assumption)
  have "ssteady (st_container_size lib stores ident cdir rdir)" for stores cdir rdir
    unfolding st_container_size_def by (intro steady_bind c ssteady_basic)
  then show "ssteady (st_ContainerSize lib ident)" unfolding st_ContainerSize_def by (intro steady_rules)
  show "ssteady (st_LayerSize lib ident)" unfolding st_LayerSize_def by (intro steady_rules lock_kinds)
qed

lemma ssteady_differences [steady_rules]:
  "ssteady (st_Changes lib from to)" "ssteady (st_DiffSize lib from to)"
  "ssteady (st_LayerParentOwners lib ident)" "ssteady (st_ContainerParentOwners lib ident)"
  unfolding st_Changes_def st_DiffSize_def st_owners_def st_LayerParentOwners_def st_ContainerParentOwners_def
  by (intro steady_rules lock_kinds; simp)+

lemma ssteady_Status [steady_rules]: "ssteady (st_Status lib)"
  unfolding st_Status_def by (intro steady_rules steady_same) simp

lemma ssteady_LookupAdditionalLayer [steady_rules]: "ssteady (st_LookupAdditionalLayer lib d imageref)"
  by (rule steady_runs, unfold st_LookupAdditionalLayer_def) (intro srun_rules steady_rules; assumption)

section \<open>Updates\<close>

lemma ssteady_setters [steady_rules]:
  "ssteady (st_SetMetadata lib ident metadata)" "ssteady (st_SetLayerBigData lib ident key data)"
  "ssteady (st_SetImageBigData lib ident key data dm)" "ssteady (st_SetContainerBigData lib ident key data)"
  "ssteady (st_SetNames lib ident names)"
  unfolding st_SetMetadata_def st_SetLayerBigData_def st_SetImageBigData_def st_SetContainerBigData_def st_SetNames_def
    copy_ro_image_def Let_def
  by (intro steady_rules lock_kinds is_gentle_rules cs_gentle_rules; simp)+

lemma ssteady_find_parent [steady_rules]: "(\<And>r. ssteady (k r)) \<Longrightarrow> ssteady (find_parent rl rls parent k)"
  unfolding find_parent_def by (intro steady_rules lock_kinds; assumption)

lemma ssteady_put_layer [steady_rules]:
  "ssteady (put_layer lib rl ident parentLayer names mountLabel writeable options u g diff)"
  by (rule steady_runs, unfold put_layer_def Let_def) (intro srun_rules steady_rules; assumption)

lemma ssteady_put_layer_on [steady_rules]:
  "ssteady (put_layer_on lib rl ident names mountLabel writeable options diff found)"
  unfolding put_layer_on_def Let_def by (intro steady_rules)

lemma ssteady_PutLayer [steady_rules]: "ssteady (st_PutLayer lib ident0 parent names mountLabel writeable options0 diff)"
proof -
  have k: "ssteady (\<lambda>s. (if b then m else n s) s)" if "ssteady m" "\<And>s. ssteady (n s)" for b m and n :: "'d store \<times> 'd env \<Rightarrow> ('d, 'z) sop"
    by (rule steady_runs) (use that srun_of in \<open>auto simp: srun_of\<close>)
  show ?thesis unfolding st_PutLayer_def Let_def by (intro steady_rules k) simp_all
qed

lemma ssteady_CreateLayer [steady_rules]: "ssteady (st_CreateLayer lib ident parent names mountLabel writeable options)"
  unfolding st_CreateLayer_def by (intro steady_rules)

lemma ssteady_create_image [steady_rules]: "ssteady (create_image lib ident names metadata options layer)"
  unfolding create_image_def by (intro steady_rules is_gentle_rules) simp

lemma ssteady_CreateImage [steady_rules]: "ssteady (st_CreateImage lib ident names layer metadata options)"
  unfolding st_CreateImage_def by (intro steady_rules lock_kinds)

lemma ssteady_top_layer_loop [steady_rules]:
  assumes k: "\<And>acc. ssteady (k acc)"
  shows "ssteady (top_layer_loop rl stores tops ss k acc)"
proof (induction ss arbitrary: acc)
  case Nil
  show ?case by (simp add: k)
next
  case (Cons i ss)
  have "ssteady (\<lambda>s. case walk_candidates (fst s) stores i tops acc of
                    (Some l, acc') \<Rightarrow> (Inr (l, fst acc'), s)
                  | (None, acc') \<Rightarrow> top_layer_loop rl stores tops ss k acc' s)"
    by (rule steady_runs) (intro srun_rules srun_of [OF Cons]; assumption)
  then show ?case unfolding top_layer_loop.simps Let_def by (intro steady_rules) simp_all
qed

lemma ssteady_create_mapped [steady_rules]: "ssteady (create_mapped lib rl home img options layer parentLayer)"
  by (rule steady_runs, unfold create_mapped_def Let_def) (intro srun_rules steady_rules is_gentle_rules; assumption)

lemma ssteady_imageTopLayer [steady_rules]:
  "ssteady (st_imageTopLayerForMapping lib img home createMappedLayer rl lstores options)"
  unfolding st_imageTopLayerForMapping_def by (intro steady_rules)

lemma ssteady_getAvailableIDs [steady_rules]: "ssteady (st_getAvailableIDs lib)"
  by (auto simp: steady_def st_getAvailableIDs_def Let_def split: prod.splits)

lemma ssteady_getMaxSize [steady_rules]: "ssteady (st_getMaxSizeFromImage lib ident img passwdFile groupFile)"
  unfolding st_getMaxSizeFromImage_def
  by (rule ssteady_all, rule steady_runs) (intro srun_rules steady_rules; assumption)

lemma ssteady_autoSize [steady_rules]: "ssteady (st_autoSize lib ident options img)"
proof -
  have k: "ssteady (\<lambda>s. if s_autoNsMaxSize (fst s) > 0 \<and> sz > s_autoNsMaxSize (fst s) then (Inl e, s) else (Inr sz, s))" for e sz
    by (rule steady_same) simp
  show ?thesis by (rule steady_runs, unfold st_autoSize_def Let_def) (intro srun_rules steady_rules k; assumption)
qed

lemma ssteady_getAutoUserNS [steady_rules]: "ssteady (st_getAutoUserNS lib ident options img)"
  unfolding st_getAutoUserNS_def by (intro steady_rules)

lemma ssteady_record_container [steady_rules]: "ssteady (record_container rl ident names imageID layer metadata options)"
  unfolding record_container_def by (intro steady_rules cs_gentle_rules) simp

lemma ssteady_create_container [steady_rules]:
  "ssteady (create_container lib rl ident names imageID layer metadata options imageTopLayer u g)"
  by (rule steady_runs, unfold create_container_def Let_def) (intro srun_rules steady_rules; assumption)

lemma ssteady_container_on [steady_rules]:
  "ssteady (container_on_image lib rl lstores ident names layer metadata options istore home img)"
  "ssteady (auto_mapped lib ident cimg options)"
  unfolding container_on_image_def auto_mapped_def Let_def by (intro steady_rules)+

lemma ssteady_container_alone [steady_rules]: "ssteady (container_alone lib rl ident names layer metadata options)"
  unfolding container_alone_def Let_def
  by (rule ssteady_with_ls, simp, rule steady_runs) (intro srun_of [OF ssteady_create_container])

lemma ssteady_CreateContainer [steady_rules]: "ssteady (st_CreateContainer lib ident names img layer metadata options)"
proof -
  have g: "ssteady ((if b then with_usernsLock else (\<lambda>m. m)) m)" if "ssteady m" for b and m :: "('d, 'z) sop"
    using that by (cases b) (simp_all add: ssteady_with_usernsLock)
  show ?thesis unfolding st_CreateContainer_def Let_def by (intro g steady_rules lock_kinds) simp_all
qed

lemma ssteady_PutAs [steady_rules]: "ssteady (st_PutAs lib handler ident parent names)"
  unfolding st_PutAs_def by (intro steady_rules) simp_all

section \<open>Deleting\<close>

lemma ssteady_unmap_images [steady_rules]: "ssteady (unmap_images ri ident is)"
proof (induction "is")
  case Nil
  show ?case unfolding unmap_images.simps by (intro steady_rules)
next
  case (Cons i "is")
  then show ?case unfolding unmap_images.simps by (intro steady_rules is_gentle_rules)
qed

lemma ssteady_delete_layer [steady_rules]: "ssteady (delete_layer rl ri ident)"
  by (rule steady_runs, unfold delete_layer_def) (intro srun_rules steady_rules; assumption)

lemma ssteady_delete_image [steady_rules]: "ssteady (delete_image rl ri ident commit)"
  by (rule steady_runs, unfold delete_image_def) (intro srun_rules steady_rules is_gentle_rules; assumption)

lemma steady_run_tasks: "(\<And>m. m \<in> set ms \<Longrightarrow> steady S V m) \<Longrightarrow> steady S V (run_tasks ms errs)"
proof (induction ms arbitrary: errs)
  case Nil
  show ?case unfolding run_tasks.simps by (intro steady_rules)
next
  case (Cons m ms)
  then show ?case unfolding run_tasks.simps by (intro steady_rules) simp_all
qed

lemma container_tasks_steady: "m \<in> set (container_tasks rl ident container st) \<Longrightarrow> ssteady m"
  unfolding container_tasks_def using ssteady_on_cs [OF cs_Delete_gentle] ssteady_on_ls [OF lsteady_Delete] ssteady_basic(1)
  by (auto split: if_splits)

lemma ssteady_delete_container [steady_rules]:
  assumes "\<And>ms. set (sched ms) \<subseteq> set ms"
  shows "ssteady (delete_container sched rl ident)"
proof -
  have "ssteady (run_tasks (sched (container_tasks rl ident container st)) [])" for container st
    by (rule steady_run_tasks) (use assms container_tasks_steady in blast)
  then have "ssteady (\<lambda>s. run_tasks (sched (container_tasks rl ident container (fst s))) [] s)" for container
    unfolding steady_def by metis
  then show ?thesis unfolding delete_container_def by (intro steady_rules)
qed

lemma ssteady_delete_any_container [steady_rules]: "ssteady (delete_any_container rl ident container)"
  by (rule steady_runs, unfold delete_any_container_def) (intro srun_rules steady_rules cs_gentle_rules; assumption)

lemma ssteady_deletes [steady_rules]:
  "ssteady (st_DeleteLayer lib ident)" "ssteady (st_DeleteImage lib ident commit)" "ssteady (st_Delete lib ident)"
  unfolding st_DeleteLayer_def st_DeleteImage_def st_Delete_def by (intro steady_rules is_gentle_rules)+

lemma ssteady_DeleteContainer [steady_rules]:
  "(\<And>ms. set (sched ms) \<subseteq> set ms) \<Longrightarrow> ssteady (st_DeleteContainer lib sched ident)"
  unfolding st_DeleteContainer_def by (intro steady_rules)

lemma ssteady_Wipe [steady_rules]: "ssteady (st_Wipe lib order)"
proof -
  have c: "cs_gentle (\<lambda>s. cs_Wipe (f s) s)" and i: "is_gentle (\<lambda>s. is_Wipe (g s) s)" for f g
    using cs_Wipe_gentle is_Wipe_gentle by blast+
  have l: "lsteady (\<lambda>s. ls_Wipe drv (h s) s)" for drv h
    by (rule steady_runs) (rule srun_of [OF lsteady_Wipe])
  show ?thesis unfolding st_Wipe_def by (intro steady_rules c i l) simp_all
qed

section \<open>Mounting, applying differences, shutting down\<close>

lemma ssteady_reload_driver [steady_rules]: "ssteady (st_reload_driver lib)"
  unfolding st_reload_driver_def by (intro steady_rules)

lemma ssteady_mount [steady_rules]: "ssteady (st_mount lib ident options)"
proof -
  have "ssteady (\<lambda>s. bind (if_in_ls rl ident (on_ls rl (\<lambda>drv. ls_Mount drv ident (shift_options (fst s) options))))
              (or_fail ErrLayerUnknown) s)" for rl
    by (rule steady_runs) (intro srun_rules steady_rules; assumption)
  then show ?thesis unfolding st_mount_def by (intro steady_rules) simp_all
qed

lemma ssteady_Mount [steady_rules]: "ssteady (st_Mount lib ident mountLabel)" "ssteady (st_MountImage lib ident opts mountLabel)"
proof -
  have "ssteady (\<lambda>s. case res of
         Inl _ \<Rightarrow> st_mount lib ident (no_mount_opts\<lparr>mo_MountLabel := mountLabel\<rparr>) s
       | Inr c \<Rightarrow> bind (of_res (container_mount (s_disableVolatile (fst s)) mountLabel c)) (\<lambda>options.
                   st_mount lib (c_LayerID c) options) s)" for res :: "gerr + Container"
    by (rule steady_runs) (intro srun_rules srun_of [OF ssteady_mount] steady_rules; assumption)
  then show "ssteady (st_Mount lib ident mountLabel)" unfolding st_Mount_def by (intro steady_rules)
  show "ssteady (st_MountImage lib ident opts mountLabel)" unfolding st_MountImage_def by (intro steady_rules)
qed

lemma ssteady_resolve [steady_rules]: "ssteady (st_resolve ident)"
  unfolding st_resolve_def by (intro steady_rules)

lemma ssteady_Unmount [steady_rules]:
  "ssteady (st_Mounted lib ident)" "ssteady (st_Unmount lib ident force)" "ssteady (st_UnmountImage lib ident force)"
  unfolding st_UnmountImage_def st_Mounted_def st_Unmount_def by (intro steady_rules; simp)+

lemma ssteady_with_loaded [steady_rules]: "(\<And>rl. ssteady (k rl)) \<Longrightarrow> ssteady (with_loaded lib k)"
  unfolding with_loaded_def by (intro steady_rules) simp_all

lemma ssteady_apply_diffs [steady_rules]:
  "ssteady (st_ApplyDiffFromStagingDirectory lib to stagingDirectory diffOutput options)"
  "ssteady (st_CleanupStagingDirectory lib stagingDirectory)" "ssteady (st_DifferTarget lib ident)"
  "ssteady (st_ApplyDiff lib to diff)"
  unfolding st_ApplyDiffFromStagingDirectory_def st_CleanupStagingDirectory_def st_DifferTarget_def st_ApplyDiff_def
  by (intro steady_rules; simp)+

lemma ssteady_ApplyDiffWithDiffer [steady_rules]: "ssteady (st_ApplyDiffWithDiffer lib to options differ)"
proof -
  have on: "ssteady (on_ls rl (\<lambda>drv. ls_ApplyDiffWithDiffer drv to options differ))" for rl by (intro steady_rules)
  show ?thesis unfolding st_ApplyDiffWithDiffer_def
    by (rule ssteady_with_loaded, rule steady_runs) (intro srun_rules srun_of [OF on]; assumption)
qed

lemma ssteady_shutdown_unmount [steady_rules]: "ssteady (shutdown_unmount n rl layerID modified)"
  by (induction n arbitrary: modified) (unfold shutdown_unmount.simps, (intro steady_rules; assumption?)+)

lemma ssteady_shutdown_layers [steady_rules]: "ssteady (shutdown_layers n rl force ls acc)"
  by (induction ls arbitrary: acc) (unfold split_paired_all shutdown_layers.simps, (intro steady_rules; assumption?)+)

lemma ssteady_cleanup [steady_rules]: "ssteady st_cleanup"
  by (rule steady_runs, unfold st_cleanup_def) (intro srun_rules steady_rules gentle_locks; assumption)

lemma ssteady_Shutdown [steady_rules]: "ssteady (st_Shutdown lib n force)"
  unfolding st_Shutdown_def Let_def by (intro steady_rules gentle_locks) simp_all

lemma ssteady_GetDigestLock [steady_rules]: "ssteady (st_GetDigestLock d)"
  by (rule steady_runs, unfold st_GetDigestLock_def) (rule srun_of [OF ssteady_basic(1)])

section \<open>A store in use\<close>

text \<open>The operations a program may call on a store; their values do not matter here.\<close>

definition void :: "('s, 'a) go \<Rightarrow> ('s, unit) go" where
  "void m = bind m (\<lambda>_. ret ())"

lemma steady_void [steady_rules]: "steady S V m \<Longrightarrow> steady S V (void m)"
  unfolding void_def by (intro steady_rules)

inductive store_op :: "'d storeLib \<Rightarrow> ('d, unit) sop \<Rightarrow> bool" for lib :: "'d storeLib" where
  "store_op lib (void (st_GraphDriver lib))"
| "store_op lib (void (st_LayerStore lib))"
| "store_op lib (void (st_ROLayerStores lib))"
| "store_op lib (void (st_GetDigestLock d))"
| "store_op lib (void (st_Metadata lib ident))"
| "store_op lib (void (st_Exists lib ident))"
| "store_op lib (void (st_Names lib ident))"
| "store_op lib (void (st_Lookup lib ident))"
| "store_op lib (void (st_Layer lib ident))"
| "store_op lib (void (st_Image lib ident))"
| "store_op lib (void (st_Container ident))"
| "store_op lib (void (st_ContainerLayerID ident))"
| "store_op lib (void (st_ContainerByLayer lib ident))"
| "store_op lib (void (st_Layers lib))"
| "store_op lib (void (st_Images lib))"
| "store_op lib (void st_Containers)"
| "store_op lib (void (st_ImagesByTopLayer lib ident))"
| "store_op lib (void (st_ImagesByDigest lib d))"
| "store_op lib (void (st_LayersByCompressedDigest lib d))"
| "store_op lib (void (st_LayersByUncompressedDigest lib d))"
| "store_op lib (void (st_ListImageBigData lib ident))"
| "store_op lib (void (st_ImageBigDataSize lib ident key))"
| "store_op lib (void (st_ImageBigDataDigest lib ident key))"
| "store_op lib (void (st_ImageBigData lib ident key))"
| "store_op lib (void (st_ListLayerBigData lib ident))"
| "store_op lib (void (st_LayerBigData lib ident key))"
| "store_op lib (void (st_ListContainerBigData ident))"
| "store_op lib (void (st_ContainerBigDataSize lib ident key))"
| "store_op lib (void (st_ContainerBigDataDigest lib ident key))"
| "store_op lib (void (st_ContainerBigData ident key))"
| "store_op lib (void (st_ContainerDirectory ident))"
| "store_op lib (void (st_ContainerRunDirectory ident))"
| "store_op lib (void (st_SetContainerDirectoryFile ident file data))"
| "store_op lib (void (st_FromContainerDirectory ident file))"
| "store_op lib (void (st_SetContainerRunDirectoryFile ident file data))"
| "store_op lib (void (st_FromContainerRunDirectory ident file))"
| "store_op lib (void (st_ImageSize lib pick ident))"
| "store_op lib (void (st_ContainerSize lib ident))"
| "store_op lib (void (st_LayerSize lib ident))"
| "store_op lib (void (st_Changes lib from to))"
| "store_op lib (void (st_DiffSize lib from to))"
| "store_op lib (void (st_LayerParentOwners lib ident))"
| "store_op lib (void (st_ContainerParentOwners lib ident))"
| "store_op lib (void (st_Status lib))"
| "store_op lib (void (st_LookupAdditionalLayer lib d imageref))"
| "store_op lib (void (st_SetMetadata lib ident md))"
| "store_op lib (void (st_SetLayerBigData lib ident key data))"
| "store_op lib (void (st_SetImageBigData lib ident key data dm))"
| "store_op lib (void (st_SetContainerBigData lib ident key data))"
| "store_op lib (void (st_SetNames lib ident names))"
| "store_op lib (void (st_PutLayer lib ident parent names lab writeable lopts diff))"
| "store_op lib (void (st_CreateLayer lib ident parent names lab writeable lopts))"
| "store_op lib (void (st_CreateImage lib ident names layer md iopts))"
| "store_op lib (void (st_CreateContainer lib ident names img layer md copts))"
| "store_op lib (void (st_PutAs lib handler ident parent names))"
| "store_op lib (void (st_DeleteLayer lib ident))"
| "store_op lib (void (st_DeleteImage lib ident commit))"
| "store_op lib (void (st_Delete lib ident))"
| "store_op lib (void (st_Wipe lib order))"
| "store_op lib (void (st_MountImage lib ident opts lab))"
| "store_op lib (void (st_Mount lib ident lab))"
| "store_op lib (void (st_Mounted lib ident))"
| "store_op lib (void (st_Unmount lib ident force))"
| "store_op lib (void (st_UnmountImage lib ident force))"
| "store_op lib (void (st_ApplyDiffFromStagingDirectory lib ident dir out dopts))"
| "store_op lib (void (st_CleanupStagingDirectory lib dir))"
| "store_op lib (void (st_ApplyDiffWithDiffer lib ident dopts differ))"
| "store_op lib (void (st_DifferTarget lib ident))"
| "store_op lib (void (st_ApplyDiff lib ident diff))"
| "store_op lib (void (st_Shutdown lib n force))"
| "(\<And>ms. mset (sched ms) = mset ms) \<Longrightarrow> store_op lib (void (st_DeleteContainer lib sched ident))"

lemma store_op_steady: "store_op lib m \<Longrightarrow> ssteady m"
proof (induction rule: store_op.induct)
  case (71 sched ident)
  then have "set (sched ms) \<subseteq> set ms" for ms by (metis set_mset_mset order_refl)
  then show ?case by (intro steady_rules)
qed (intro steady_rules)+

text \<open>No lock of the store is held.\<close>

definition all_unlocked :: "'d store \<Rightarrow> bool" where
  "all_unlocked st \<longleftrightarrow> unlocked (s_graphLock st) \<and> unlocked (s_usernsLock st) \<and>
     (\<forall>i < length (s_layerStores st). unlocked (ls_lockfile (layers_at st i)) \<and>
        (\<forall>ml. ls_mountsLockfile (layers_at st i) = Some ml \<longrightarrow> unlocked ml)) \<and>
     (\<forall>i < length (s_imageStores st). unlocked (is_lockfile (images_at st i))) \<and>
     (\<forall>r. s_containerStore st = Some r \<longrightarrow> unlocked (cs_lockfile r))"

definition idle :: "'d store \<Rightarrow> bool" where
  "idle st \<longleftrightarrow> st_sane st \<and> st_locks st = (\<lambda>_. (free, free), \<lambda>_. free, free, free, free)"

lemma fresh_unlocked: "fresh_lock l \<longleftrightarrow> unlocked l"
  by (auto simp: fresh_lock_def unlocked_def sane_iff lkview_def free_def)

lemma fresh_ls_unlocked:
  "fresh_ls r \<longleftrightarrow> unlocked (ls_lockfile r) \<and> (\<forall>ml. ls_mountsLockfile r = Some ml \<longrightarrow> unlocked ml)"
  by (cases "ls_mountsLockfile r") (auto simp: fresh_unlocked [symmetric] fresh_lock_def fresh_ls_def ls_sane_def ls_locks_def free_def)

lemma idle_unlocked: "idle st \<longleftrightarrow> all_unlocked st \<and> st_positions st"
proof -
  have "all_unlocked st \<longleftrightarrow> fresh_lock (s_graphLock st) \<and> fresh_lock (s_usernsLock st) \<and>
      (\<forall>i < length (s_layerStores st). fresh_ls (layers_at st i)) \<and>
      (\<forall>i < length (s_imageStores st). fresh_lock (is_lockfile (images_at st i))) \<and>
      (\<forall>r. s_containerStore st = Some r \<longrightarrow> fresh_lock (cs_lockfile r))"
    by (simp add: all_unlocked_def fresh_ls_unlocked fresh_unlocked)
  then show ?thesis unfolding idle_def st_sane_def st_locks_def fresh_lock_def fresh_ls_def
    by (cases "s_containerStore st") (auto simp: fun_eq_iff split: if_splits)
qed

abbreviation isteady :: "('d, 'a) sop \<Rightarrow> bool" where
  "isteady m \<equiv> steady (\<lambda>s. idle (fst s)) (\<lambda>s. ()) m"

lemma idle_steady: "ssteady m \<Longrightarrow> isteady m"
  by (rule steadyI) (simp add: idle_def, drule steadyD, auto)

lemma idle_new_container_store: "fresh_lock (cs_lockfile r) \<Longrightarrow> isteady (upd_st (\<lambda>st. st\<lparr>s_containerStore := Some r\<rparr>))"
  by (auto simp: steady_def upd_st_def modify_def idle_def st_sane_def st_positions_def st_locks_def fresh_lock_def
      layers_at_def images_at_def fun_eq_iff)

lemma idle_digest_locks: "isteady (upd_st (\<lambda>st. st\<lparr>s_digestLockRoot := f st\<rparr>))"
  by (intro idle_steady ssteady_upd_st) simp

lemma idle_more_is:
  assumes "fresh_lock (is_lockfile r)" "idle st"
  defines "st1 \<equiv> st\<lparr>s_imageStores := s_imageStores st @ [r]\<rparr>" and "i \<equiv> length (s_imageStores st)"
  shows "idle (st1\<lparr>s_imageStore := Some i\<rparr>)" "idle (st1\<lparr>s_roImageStores := s_roImageStores st1 @ [i]\<rparr>)"
  using assms by (auto simp: idle_unlocked all_unlocked_def fresh_unlocked st_positions_def layers_at_def images_at_def
      nth_append less_Suc_eq)

lemma idle_new_is:
  assumes "fresh_lock (is_lockfile r)" "\<And>i. isteady (k i)"
  shows "isteady (bind (new_is r) (\<lambda>i. bind (upd_st (\<lambda>st. st\<lparr>s_imageStore := Some i\<rparr>)) (\<lambda>_. k i)))"
    "isteady (bind (new_is r) (\<lambda>i. bind (upd_st (\<lambda>st. st\<lparr>s_roImageStores := s_roImageStores st @ [i]\<rparr>)) (\<lambda>_. k i)))"
proof -
  have k: "isteady (bind (new_is r) (\<lambda>i. bind (upd_st (f i)) (\<lambda>_. k i)))"
    if f: "\<And>st. idle st \<Longrightarrow> idle (f (length (s_imageStores st)) (st\<lparr>s_imageStores := s_imageStores st @ [r]\<rparr>))" for f
  proof (rule steady_runs)
    fix s :: "'a store \<times> 'a env" assume S: "idle (fst s)"
    show "srun (\<lambda>s. idle (fst s)) (\<lambda>s. ()) s (bind (new_is r) (\<lambda>i. bind (upd_st (f i)) (\<lambda>_. k i)) s)"
      using srun_of [OF assms(2), of "(f (length (s_imageStores (fst s))) ((fst s)\<lparr>s_imageStores := s_imageStores (fst s) @ [r]\<rparr>), snd s)"]
        f [OF S] by (simp add: srun_def bind_def new_is_def upd_st_def modify_def)
  qed
  show "isteady (bind (new_is r) (\<lambda>i. bind (upd_st (\<lambda>st. st\<lparr>s_imageStore := Some i\<rparr>)) (\<lambda>_. k i)))"
    by (rule k) (simp add: idle_more_is(1) [OF assms(1)])
  show "isteady (bind (new_is r) (\<lambda>i. bind (upd_st (\<lambda>st. st\<lparr>s_roImageStores := s_roImageStores st @ [i]\<rparr>)) (\<lambda>_. k i)))"
    by (rule k) (use idle_more_is(2) [OF assms(1)] in simp)
qed

lemma idle_open_ro_images: "isteady (st_open_ro_images lib ps)"
proof (induction ps)
  case Nil
  show ?case unfolding st_open_ro_images.simps by (rule steady_ret)
next
  case (Cons p ps)
  then show ?case unfolding st_open_ro_images.simps
    by (intro steady_bind_value [OF idle_steady [OF ssteady_basic(1)] returns_st_world [OF newImageStore_fresh(2)]]
        idle_new_is steady_bind idle_steady [OF ssteady_basic(3)])
qed

lemma idle_load: "isteady (st_load lib)"
proof -
  have k: "isteady (\<lambda>s. st_world (MkdirAll (s_digestLockRoot (fst s))) s)"
    by (rule steady_runs) (rule srun_of [OF idle_steady [OF ssteady_basic(1)]])
  note basic = idle_steady [OF ssteady_basic(1)] idle_steady [OF ssteady_basic(3)]
  note open_is = steady_bind_value [OF basic(1) returns_st_world [OF newImageStore_fresh(1)]]
  note open_cs = steady_bind_value [OF basic(1) returns_st_world [OF newContainerStore_fresh]]
  show ?thesis unfolding st_load_def
    by (intro open_is open_cs idle_new_is steady_bind k idle_digest_locks idle_open_ro_images
        idle_new_container_store basic idle_steady [OF ssteady_GraphDriver] idle_steady [OF ssteady_fields(1)]
        idle_steady [OF ssteady_stores(2)])
qed

lemma idle_opened:
  assumes "st_open_store lib options runRoot graphRoot (sts, e) = (Inr n, (sts', e'))"
  shows "idle (sts' ! n)"
proof -
  obtain gl ul e1 u st where new: "fresh_lock gl" "fresh_lock ul"
    and ld: "st_load lib (new_store options runRoot graphRoot gl ul, e1) = (Inr u, st, e')" and n: "sts' ! n = st"
    using assms unfolding st_open_store_def get_env_def env_world_def on_snd_def bind_def
    by (auto split: prod.splits sum.splits dest!: createLocker_fresh)
  have "idle (new_store options runRoot graphRoot gl ul :: 'a store)"
    using new by (simp add: idle_def new_store_def st_sane_def st_positions_def st_locks_def fresh_lock_def fun_eq_iff)
  with steadyD [OF idle_load _ ld] n show ?thesis by simp
qed

text \<open>
  A store in use: \<open>GetStore\<close> has opened it, and any operations that have returned were called on it.
  Between the calls other processes may change the files, so each call meets an environment of its own.
\<close>

inductive live_store :: "'d storeLib \<Rightarrow> 'd store \<Rightarrow> bool" for lib :: "'d storeLib" where
  opened: "st_open_store lib options runRoot graphRoot (sts, e) = (Inr n, (sts', e')) \<Longrightarrow> live_store lib (sts' ! n)"
| called: "live_store lib st \<Longrightarrow> store_op lib m \<Longrightarrow> m (st, e) = (res, (st', e')) \<Longrightarrow> normal res \<Longrightarrow> live_store lib st'"

lemma live_store_idle: "live_store lib st \<Longrightarrow> idle st"
proof (induction rule: live_store.induct)
  case (opened options runRoot graphRoot sts e n sts' e')
  then show ?case by (rule idle_opened)
next
  case (called st m e res st' e')
  with steadyD [OF idle_steady [OF store_op_steady [OF called(2)]] _ called(3,4)] show ?case by simp
qed

end
