(* ===== verification/StoreGuards.thy ===== *)
theory StoreGuards
  imports StoreSteady
begin

text \<open>
  What the deleting operations of the store check, and what is left of it when they return.

  \<open>unreferenced rl ri k st\<close>: in the layer store at \<open>rl\<close>, the image store at \<open>ri\<close> and the container
  store, no layer has the parent \<open>k\<close>, no image the top layer \<open>k\<close> and no container the layer \<open>k\<close>.
\<close>

section \<open>Parents, top layers and layers of containers\<close>

definition parents :: "layerStore \<Rightarrow> string list" where
  "parents r = map l_Parent (item_list r)"

lemma parents_Layers: "map l_Parent (ls_Layers r) = parents r"
  by (simp add: parents_def ls_Layers_def copyLayer_def)

lemma nth_beyond: "length xs = length ys \<Longrightarrow> length xs \<le> n \<Longrightarrow> xs ! n = ys ! n"
proof (induction xs ys arbitrary: n rule: list_induct2)
  case (Cons x xs y ys)
  then show ?case by (cases n) simp_all
qed simp

lemma map_eq_nth: "map f xs = map f ys \<Longrightarrow> f (xs ! n) = f (ys ! n)"
proof (cases "n < length xs")
  assume eq: "map f xs = map f ys"
  then have len: "length xs = length ys" by (rule map_eq_imp_length_eq)
  case True
  then show ?thesis using eq len by (metis nth_map)
next
  assume eq: "map f xs = map f ys"
  case False
  then show ?thesis using nth_beyond [of xs ys n] map_eq_imp_length_eq [OF eq] by simp
qed

lemma parents_core: "ls_core r = ls_core r' \<Longrightarrow> parents r = parents r'"
proof -
  assume "ls_core r = ls_core r'"
  then have i: "items r = items r'" and o': "map bare (objs r) = map bare (objs r')" by (simp_all add: ls_core_def)
  have "l_Parent (objs r ! x) = l_Parent (objs r' ! x)" for x
    using arg_cong [OF map_eq_nth [OF o', of x], of l_Parent] by simp
  with i show ?thesis by (simp add: parents_def item_list_def)
qed

lemma remove_nth_subset: "set (remove_nth i xs) \<subseteq> set xs"
  unfolding remove_nth_def by (auto dest: in_set_takeD in_set_dropD)

lemma parents_forget: "set (parents (forget_layer l r)) \<subseteq> set (parents r)"
  using remove_nth_subset [of _ "items r"]
  by (auto simp: parents_def item_list_def forget_layer_def deleteInDigestMap_def remove_item_def Let_def split: option.splits)

abbreviation no_child :: "string \<Rightarrow> layerStore \<times> 'd env \<Rightarrow> bool" where
  "no_child k s \<equiv> k \<notin> set (parents (fst s))"

lemma no_child_core:
  assumes "\<And>c. keeps (core_at c (\<lambda>_. True)) m"
  shows "keeps (no_child k) m"
proof -
  have "keeps (\<lambda>s. k \<notin> set (parents (fst s)) \<and> True) m"
    by (rule core_lift [where Q = "\<lambda>_. True", OF assms]) (drule parents_core, simp)
  then show ?thesis by simp
qed

lemma no_child_deleteInternal: "keeps (no_child k) (ls_deleteInternal drv ident)"
proof -
  have w: "keeps (no_child k) (on_world m)" "keeps (no_child k) (on_driver n)" "keeps (no_child k) (release_label lb)" for m n lb
    by (auto simp: keeps_def on_world_def on_driver_def release_label_def label_do_def split: prod.splits)
  have f: "keeps (no_child k) (on_layers (forget_layer l))" for l
    using parents_forget by (auto simp: keeps_def on_layers_def modify_def)
  have b: "keeps (no_child k) (bind (on_driver (drv_Remove drv (l_ID l))) (\<lambda>_.
          bind (ignoring (on_world (RemoveFile p))) (\<lambda>_.
          bind (ignoring (on_world (RemoveAll q))) (\<lambda>_.
          bind (on_layers (forget_layer l)) (\<lambda>_. release_label (l_MountLabel l))))))" for l p q
    by (intro keeps_combine w f)
  show ?thesis by (rule keepsI2) (simp add: ls_deleteInternal_def Let_def keeps_snd [OF b] split: option.splits)
qed

lemma no_child_Delete: "keeps (no_child k) (ls_Delete drv ident)"
proof -
  have t: "keeps (\<lambda>_. True) m" for m :: "('d, unit) go" by (simp add: keeps_def)
  have b: "keeps (no_child k) (bind (ls_Mounted i) (\<lambda>mc. bind (ls_unmount_all drv i n mc) (\<lambda>_.
          bind (ls_deleteInternal drv i) (\<lambda>_. ls_Save))))" for i n
    by (intro keeps_combine no_child_deleteInternal no_child_core core_rules core_unmount_all t)
  show ?thesis by (rule keepsI2) (simp add: ls_Delete_def Let_def keeps_snd [OF b] split: option.splits)
qed

definition tops :: "imageStore \<Rightarrow> string list" where
  "tops r = map i_TopLayer (item_list r)"

lemma tops_update: "tops (update_obj x (i_MappedTopLayers_update f) r) = tops r"
proof (cases "x < length (objs r)")
  case True
  then show ?thesis
    by (auto simp: tops_def item_list_def update_obj_def nth_list_update)
next
  case False
  then show ?thesis by (simp add: update_obj_beyond)
qed

lemma tops_Images: "map i_TopLayer (is_Images r) = tops r"
  by (simp add: tops_def is_Images_def copyImage_def)

lemma tops_Save: "tops (fst (snd (is_Save s))) = tops (fst s)"
  by (simp add: is_Save_def Let_def tops_def item_list_def split: prod.splits)

lemma tops_removeMapped: "tops (fst (snd (is_removeMappedTopLayer ident layer s))) = tops (fst s)"
  by (simp add: is_removeMappedTopLayer_def Let_def tops_Save tops_update split: option.splits)

lemma tops_lock: "tops (fst (snd (is_lock m s))) = tops (fst s)"
  by (simp add: is_lock_def Let_def tops_def item_list_def split: prod.splits)

section \<open>In the store\<close>

definition unreferenced :: "nat \<Rightarrow> nat \<Rightarrow> string \<Rightarrow> 'd store \<Rightarrow> bool" where
  "unreferenced rl ri k st \<longleftrightarrow> k \<notin> set (parents (layers_at st rl)) \<and> k \<notin> set (tops (images_at st ri)) \<and>
     (\<exists>rc. s_containerStore st = Some rc \<and> k \<notin> set (map c_LayerID (item_list rc)))"

definition at_stores :: "nat \<Rightarrow> nat \<Rightarrow> 'd store \<Rightarrow> bool" where
  "at_stores rl ri st \<longleftrightarrow> s_layerStore st = Some rl \<and> s_imageStore st = Some ri"

lemma at_stores_on [keeps_rules]:
  "keeps (\<lambda>s. at_stores rl ri (fst s)) (on_ls i m1)" "keeps (\<lambda>s. at_stores rl ri (fst s)) (on_is i m2)"
  "keeps (\<lambda>s. at_stores rl ri (fst s)) (on_cs m3)" "keeps (\<lambda>s. at_stores rl ri (fst s)) (on_graphLock m4)"
  by (auto simp: keeps_def at_stores_def on_ls_run on_is_def on_cs_def on_graphLock_def case_prod_beta Let_def split: option.splits)

abbreviation guarded :: "nat \<Rightarrow> nat \<Rightarrow> string \<Rightarrow> 'd store \<times> 'd env \<Rightarrow> bool" where
  "guarded rl ri k s \<equiv> at_stores rl ri (fst s) \<and> unreferenced rl ri k (fst s)"

lemma guarded_on_ls:
  assumes "\<And>drv. keeps (no_child k) (m drv)"
  shows "keeps (guarded rl ri k) (on_ls i m)"
proof (rule keepsI)
  fix s res s' assume g: "guarded rl ri k s" and run: "on_ls i m s = (res, s')"
  define drv where "drv = snd (s_layerStores (fst s) ! i)"
  obtain r' e where m: "m drv (layers_at (fst s) i, snd s) = (res, r', e)"
    and s': "fst s' = (fst s)\<lparr>s_layerStores := (s_layerStores (fst s))[i := (r', drv)]\<rparr>"
    using run by (auto simp: on_ls_run drv_def split: prod.splits)
  have "k \<notin> set (parents (layers_at (fst s') rl))"
  proof (cases "i = rl \<and> rl < length (s_layerStores (fst s))")
    case True
    then have "layers_at (fst s') rl = r'" by (simp add: s' layers_at_def)
    moreover have "k \<notin> set (parents (layers_at (fst s) i))" using g True by (simp add: unreferenced_def)
    ultimately show ?thesis using keepsD [OF assms _ m] by simp
  next
    case False
    then have "layers_at (fst s') rl = layers_at (fst s) rl"
      by (cases "i = rl") (auto simp: s' layers_at_def not_less list_update_beyond)
    then show ?thesis using g by (simp add: unreferenced_def)
  qed
  then show "guarded rl ri k s'" using g by (auto simp: unreferenced_def at_stores_def s' images_at_def)
qed

lemma guarded_on_is:
  assumes "\<And>s. tops (fst (snd (m s))) = tops (fst s)"
  shows "keeps (guarded rl ri k) (on_is i m :: ('d, 'a) sop)"
proof (rule keepsI2)
  fix s :: "'d store \<times> 'd env" assume g: "guarded rl ri k s"
  have "tops (images_at (fst (snd (on_is i m s))) ri) = tops (images_at (fst s) ri)"
    by (cases "i = ri"; cases "ri < length (s_imageStores (fst s))")
      (auto simp: on_is_def images_at_def case_prod_beta Let_def assms not_less list_update_beyond)
  then show "guarded rl ri k (snd (on_is i m s))"
    using g by (auto simp: unreferenced_def at_stores_def on_is_def case_prod_beta Let_def layers_at_def)
qed

lemma guarded_on_cs_lock: "keeps (guarded rl ri k) (on_cs (cs_lock m))"
  by (auto simp: keeps_def unreferenced_def at_stores_def on_cs_def cs_lock_def case_prod_beta Let_def layers_at_def images_at_def
      item_list_def split: option.splits)

lemma no_child_lock: "keeps (no_child k) (on_lock m)"
  by (auto simp: keeps_def on_lock_def case_prod_beta Let_def parents_def item_list_def)

lemma ensures_at_with:
  assumes "ensures (\<lambda>s. at_stores rl ri (fst s)) m (\<lambda>_. guarded rl ri k)"
  shows "ensures (\<lambda>s. at_stores rl ri (fst s)) (with_ls i lock m) (\<lambda>_. guarded rl ri k)"
    "ensures (\<lambda>s. at_stores rl ri (fst s)) (with_is lib i lock m) (\<lambda>_. guarded rl ri k)"
    "ensures (\<lambda>s. at_stores rl ri (fst s)) (with_cs lock m) (\<lambda>_. guarded rl ri k)"
  unfolding with_ls_def locked_ls_def with_is_def with_cs_def
  by (intro ensures_bind [OF ensures_keeps] ensures_deferred keeps_rules assms guarded_on_ls guarded_on_is guarded_on_cs_lock
      no_child_lock tops_lock)+

section \<open>Deleting a layer\<close>

lemma guarded_unmap: "keeps (guarded rl ri k) (unmap_images i ident is)"
proof (induction "is")
  case Nil
  show ?case unfolding unmap_images.simps by (rule keeps_ret)
next
  case (Cons x "is")
  then show ?case unfolding unmap_images.simps by (auto intro!: keeps_bind guarded_on_is tops_removeMapped)
qed

lemma layer_unused_None:
  "layer_unused k r ri rc = None \<longleftrightarrow>
     k \<notin> set (parents r) \<and> k \<notin> set (tops ri) \<and> k \<notin> set (map c_LayerID (item_list rc))"
  unfolding parents_Layers [symmetric] tops_Images [symmetric] layer_unused_def cs_Containers_def
  by (auto simp: list_ex_iff copyContainer_def)

lemma delete_layer_guarded: "ensures (\<lambda>s. at_stores rl ri (fst s)) (delete_layer rl ri k) (\<lambda>_. guarded rl ri k)"
proof (rule ensuresI)
  fix s :: "'a store \<times> 'a env" and x s' assume a: "at_stores rl ri (fst s)" and run: "delete_layer rl ri k s = (Inr x, s')"
  let ?un = "\<lambda>rc. layer_unused k (layers_at (fst s) rl) (images_at (fst s) ri) rc"
  let ?rest = "bind (on_ls rl (\<lambda>drv. ls_Delete drv k)) (\<lambda>_. unmap_images ri k (is_Images (images_at (fst s) ri)))"
  obtain u s1 where c: "get_cs (\<lambda>rc. case ?un rc of Some e \<Rightarrow> Inl e | None \<Rightarrow> Inr ()) s = (Inr u, s1)"
    and r: "?rest s1 = (Inr x, s')"
    using run by (auto simp: delete_layer_def split: if_splits sum.splits elim: bind_InrE)
  then have s1: "s1 = s" and un: "\<exists>rc. s_containerStore (fst s) = Some rc \<and> ?un rc = None"
    by (auto simp: get_cs_def split: option.splits)
  then have "guarded rl ri k s" using a by (auto simp: unreferenced_def layer_unused_None)
  with s1 have g: "guarded rl ri k s1" by simp
  have "keeps (guarded rl ri k) ?rest" by (intro keeps_bind guarded_on_ls no_child_Delete guarded_unmap)
  from keepsD [OF this g r] show "guarded rl ri k s'" .
qed

text \<open>\<open>LayerStore\<close> and \<open>ImageStore\<close> return the positions the store keeps.\<close>

lemma LayerStore_position: "ensures (\<lambda>_. True) (st_LayerStore lib) (\<lambda>rl s. s_layerStore (fst s) = Some rl)"
proof -
  have t: "ensures (\<lambda>_. True) m (\<lambda>_ _. True)" for m :: "('d, 'x) sop" by (simp add: ensures_def)
  have "ensures (\<lambda>_. True) (upd_st (\<lambda>st. st\<lparr>s_layerStore := Some i\<rparr>)) (\<lambda>_ s. s_layerStore (fst s) = Some i)" for i
    by (simp add: ensures_def upd_st_def modify_def)
  then have o': "ensures (\<lambda>_. True) (st_open_layers lib) (\<lambda>rl s. s_layerStore (fst s) = Some rl)"
    unfolding st_open_layers_def case_prod_beta by (intro ensures_bind [OF t] ensures_bind ensures_ret) auto
  have b: "ensures (\<lambda>_. True) (\<lambda>s. case s_layerStore (fst s) of Some i \<Rightarrow> (Inr i, s) | None \<Rightarrow> st_open_layers lib s)
      (\<lambda>rl s. s_layerStore (fst s) = Some rl)"
    using ensuresD [OF o'] by (auto simp: ensures_def split: option.splits)
  show ?thesis unfolding st_LayerStore_def with_graphLock_def
    by (intro ensures_bind [OF t] ensures_deferred b)
      (auto simp: keeps_def on_graphLock_def case_prod_beta Let_def)
qed

lemma with_writable_guarded:
  assumes "\<And>rl ri. ensures (\<lambda>s. at_stores rl ri (fst s)) (m rl ri) (\<lambda>_. guarded rl ri k)"
  shows "ensures (\<lambda>_. True) (with_writable lib m) (\<lambda>_ s. \<exists>rl ri. guarded rl ri k s)"
proof -
  have i: "ensures (\<lambda>s. s_layerStore (fst s) = Some rl) st_ImageStore (\<lambda>ri s. at_stores rl ri (fst s))" for rl
    by (auto simp: ensures_def st_ImageStore_def at_stores_def split: option.splits)
  have c: "ensures P st_ContainerStore (\<lambda>_. P)" for P :: "'a store \<times> 'a env \<Rightarrow> bool"
    by (auto simp: ensures_def st_ContainerStore_def)
  have w: "ensures (\<lambda>s. at_stores rl ri (fst s)) (with_ls rl Lock (with_is lib ri Lock (with_cs Lock (m rl ri))))
      (\<lambda>_ s. \<exists>rl ri. guarded rl ri k s)" for rl ri
    by (rule ensures_weaken [OF ensures_at_with(1) [OF ensures_at_with(2) [OF ensures_at_with(3) [OF assms]]]]) auto
  show ?thesis unfolding with_writable_def by (intro ensures_bind [OF LayerStore_position] ensures_bind [OF i] ensures_bind [OF c] w)
qed

section \<open>Deleting an image\<close>

text \<open>Every layer of the list comes after all its children.\<close>

definition children_first :: "(string \<Rightarrow> string list) \<Rightarrow> string list \<Rightarrow> bool" where
  "children_first children ks \<longleftrightarrow> (\<forall>i < length ks. set (children (ks ! i)) \<subseteq> set (take i ks))"

lemma children_first_append:
  assumes "children_first children ks" "\<And>k. k \<in> set js \<Longrightarrow> set (children k) \<subseteq> set ks"
  shows "children_first children (ks @ js)"
  unfolding children_first_def
proof (intro allI impI)
  fix i assume i: "i < length (ks @ js)"
  show "set (children ((ks @ js) ! i)) \<subseteq> set (take i (ks @ js))"
  proof (cases "i < length ks")
    case True
    then show ?thesis using assms(1) by (simp add: children_first_def nth_append)
  next
    case False
    with i have "js ! (i - length ks) \<in> set js" by simp
    with assms(2) False show ?thesis by (fastforce simp: nth_append)
  qed
qed

lemma remove_chain_sound:
  assumes "remove_chain n stay parent children img layer removed = Inr ks" "children_first children removed"
    "\<And>k. k \<in> set removed \<Longrightarrow> k \<in> set (i_MappedTopLayers img) \<or> \<not> stay k"
  shows "children_first children ks \<and> (\<forall>k \<in> set ks. k \<in> set (i_MappedTopLayers img) \<or> \<not> stay k)"
  using assms
proof (induction n arbitrary: layer removed)
  case 0
  then show ?case by simp
next
  case (Suc n)
  define mapped where "mapped = (if layer = i_TopLayer img then i_MappedTopLayers img else [])"
  have m: "set mapped \<subseteq> set (i_MappedTopLayers img)" by (auto simp: mapped_def)
  show ?case
  proof (cases "layer = [] \<or> stay layer \<or> list_ex (\<lambda>k. list_ex (\<lambda>c. c \<notin> set removed) (children k)) (layer # mapped)")
    case True
    with Suc.prems(1) have "ks = removed" by (auto simp: mapped_def Let_def split: if_splits)
    with Suc.prems(2,3) show ?thesis by blast
  next
    case False
    then have sub: "set (children k) \<subseteq> set removed" if "k \<in> set (mapped @ [layer])" for k
      using that by (auto simp: list_ex_iff)
    from False Suc.prems(1) have "remove_chain n stay parent children img (parent layer) (removed @ mapped @ [layer]) = Inr ks"
      by (simp add: mapped_def Let_def)
    moreover have "children_first children (removed @ mapped @ [layer])" by (rule children_first_append [OF Suc.prems(2) sub])
    ultimately show ?thesis by (rule Suc.IH) (use Suc.prems(3) m False in auto)
  qed
qed

text \<open>The walk towards the base ends when the parents do not form a cycle.\<close>

definition below :: "(string \<Rightarrow> nat) \<Rightarrow> layerStore \<Rightarrow> bool" where
  "below rank r \<longleftrightarrow> (\<forall>l \<in> set (ls_Layers r). \<forall>l'. l_Parent l \<noteq> [] \<longrightarrow> ls_Get (l_Parent l) r = Inr l' \<longrightarrow> rank (l_ID l') < rank (l_ID l))"

definition height :: "(string \<Rightarrow> nat) \<Rightarrow> layerStore \<Rightarrow> string \<Rightarrow> nat" where
  "height rank r k = (if k = [] then 0 else
     case ls_Get k r of Inl _ \<Rightarrow> 1 | Inr l \<Rightarrow> 2 + card {j \<in> l_ID ` set (ls_Layers r). rank j < rank (l_ID l)})"

lemma ls_Get_layer: "ls_ok u r \<Longrightarrow> ls_Get k r = Inr l \<Longrightarrow> l \<in> set (ls_Layers r)"
  using ls_lookup_item(1) [of u r k] by (auto simp: ls_Get_def ls_Layers_def item_list_def split: option.splits)

lemma height_parent:
  assumes "ls_ok u r" "below rank r" "k \<noteq> []"
  shows "height rank r (parent_of r k) < height rank r k"
proof (cases "ls_Get k r")
  case (Inl e)
  with assms(3) show ?thesis by (simp add: height_def parent_of_def)
next
  case (Inr l)
  note l = ls_Get_layer [OF assms(1) Inr]
  show ?thesis
  proof (cases "l_Parent l \<noteq> [] \<and> (\<exists>l'. ls_Get (l_Parent l) r = Inr l')")
    case True
    then obtain l' where l': "l_Parent l \<noteq> []" "ls_Get (l_Parent l) r = Inr l'" by blast
    with assms(2) l have less: "rank (l_ID l') < rank (l_ID l)" by (auto simp: below_def)
    have "l_ID l' \<in> l_ID ` set (ls_Layers r)" using ls_Get_layer [OF assms(1) l'(2)] by simp
    with less have "{j \<in> l_ID ` set (ls_Layers r). rank j < rank (l_ID l')} \<subset> {j \<in> l_ID ` set (ls_Layers r). rank j < rank (l_ID l)}"
      by auto
    then have "card {j \<in> l_ID ` set (ls_Layers r). rank j < rank (l_ID l')} < card {j \<in> l_ID ` set (ls_Layers r). rank j < rank (l_ID l)}"
      by (intro psubset_card_mono) auto
    with Inr l' assms(3) show ?thesis by (simp add: height_def parent_of_def)
  next
    case False
    with Inr assms(3) show ?thesis by (auto simp: height_def parent_of_def split: sum.splits)
  qed
qed

lemma height_bound:
  assumes "ls_ok u r"
  shows "height rank r k \<le> Suc (length (ls_Layers r))"
proof (cases "ls_Get k r")
  case (Inr l)
  let ?ids = "l_ID ` set (ls_Layers r)"
  have l: "l_ID l \<in> ?ids" using ls_Get_layer [OF assms Inr] by simp
  then have "card {j \<in> ?ids. rank j < rank (l_ID l)} < card ?ids" by (intro psubset_card_mono) auto
  also have "\<dots> \<le> length (ls_Layers r)" using card_length [of "map l_ID (ls_Layers r)"] by simp
  finally show ?thesis using Inr by (simp add: height_def)
qed (simp add: height_def)

lemma remove_chain_ends:
  assumes "ls_ok u r" "below rank r"
  shows "height rank r layer < n \<Longrightarrow> \<exists>ks. remove_chain n stay (parent_of r) children img layer removed = Inr ks"
proof (induction n arbitrary: layer removed)
  case (Suc n)
  show ?case
  proof (cases "layer = []")
    case False
    with height_parent [OF assms False] Suc.prems have "height rank r (parent_of r layer) < n" by simp
    note IH = Suc.IH [OF this]
    show ?thesis by (simp add: Let_def IH)
  qed simp
qed simp

lemma layers_to_remove_ends:
  assumes "ls_ok u r" "below rank r"
  shows "\<exists>ks. layers_to_remove r ri rc img = Inr ks"
  unfolding layers_to_remove_def
  by (rule remove_chain_ends [OF assms]) (use height_bound [OF assms(1), of rank "i_TopLayer img"] in simp)

end
