(* ===== verification/StoreLookup.thy ===== *)
theory StoreLookup
  imports StoreMount
begin

text \<open>
  \<open>Exists\<close> and \<open>Lookup\<close> of the store agree.

  \<open>agree m n\<close>: the test \<open>m\<close> and the search \<open>n\<close> leave the same state; \<open>m\<close> is true exactly when \<open>n\<close>
  finds something, and where \<open>n\<close> fails, \<open>m\<close> is false or fails in the same way.
\<close>

definition agrees :: "gerr + bool \<Rightarrow> gerr + 'a \<Rightarrow> bool" where
  "agrees b x \<longleftrightarrow> (case x of Inr _ \<Rightarrow> b = Inr True | Inl e \<Rightarrow> b = Inl e \<or> b = Inr False \<and> \<not> abnormal e)"

definition agree :: "('s, bool) go \<Rightarrow> ('s, 'a) go \<Rightarrow> bool" where
  "agree m n \<longleftrightarrow> (\<forall>s. snd (m s) = snd (n s) \<and> agrees (fst (m s)) (fst (n s)))"

lemma agreeD: "agree m n \<Longrightarrow> n s = (x, s') \<Longrightarrow> \<exists>b. m s = (b, s') \<and> agrees b x"
  unfolding agree_def by (metis prod.collapse fst_conv snd_conv)

lemma agrees_refl: "agrees (Inl e) (Inl e)"
  by (simp add: agrees_def)

lemma agree_ret: "agree (ret True) (ret x)"
  by (simp add: agree_def agrees_def)

lemma agree_bind: "(\<And>x. agree (f x) (g x)) \<Longrightarrow> agree (bind m f) (bind m g)"
  by (auto simp: agree_def agrees_refl bind_def split: prod.splits sum.splits)

lemma agree_deferred:
  assumes "agree m n"
  shows "agree (deferred c m) (deferred c n)"
  unfolding agree_def
proof
  fix s
  obtain x s1 where n: "n s = (x, s1)" by (rule prod.exhaust)
  obtain y s2 where c: "ignoring c s1 = (y, s2)" by (rule prod.exhaust)
  obtain b where m: "m s = (b, s1)" and ag: "agrees b x" using agreeD [OF assms n] by blast
  have "blocked b = blocked x"
    using ag by (auto simp: agrees_def blocked_def abnormal_def split: sum.splits gerr.splits)
  with ag show "snd (deferred c m s) = snd (deferred c n s) \<and> agrees (fst (deferred c m s)) (fst (deferred c n s))"
    unfolding deferred_run [where m = m and s = s and c = c, OF m c] deferred_run [where m = n and s = s and c = c, OF n c]
    by (cases y) (simp_all add: agrees_refl)
qed

lemma agree_with:
  assumes "agree m n"
  shows "agree (with_ls i lock m) (with_ls i lock n)" "agree (with_is lib i lock m) (with_is lib i lock n)"
    "agree (with_cs lock m) (with_cs lock n)"
  unfolding with_ls_def locked_ls_def with_is_def with_cs_def by (intro agree_bind agree_deferred assms)+

text \<open>The bodies of the loops: both look at the same store and do not change the state.\<close>

lemma agree_found:
  assumes "\<And>s. f s = (Inr (if P s then Some True else None), s)" "\<And>s. \<exists>x. g s = (Inr (if P s then Some x else None), s)"
    and "\<And>x. agree (k (Some True)) (h (Some x))" "agree kn hn"
  shows "agree (bind f (\<lambda>r. case r of Some x \<Rightarrow> k (Some x) | None \<Rightarrow> kn)) (bind g (\<lambda>r. case r of Some x \<Rightarrow> h (Some x) | None \<Rightarrow> hn))"
  unfolding agree_def
proof
  fix s
  obtain x where g: "g s = (Inr (if P s then Some x else None), s)" using assms(2) by blast
  show "snd (bind f (\<lambda>r. case r of Some x \<Rightarrow> k (Some x) | None \<Rightarrow> kn) s) = snd (bind g (\<lambda>r. case r of Some x \<Rightarrow> h (Some x) | None \<Rightarrow> hn) s) \<and>
      agrees (fst (bind f (\<lambda>r. case r of Some x \<Rightarrow> k (Some x) | None \<Rightarrow> kn) s)) (fst (bind g (\<lambda>r. case r of Some x \<Rightarrow> h (Some x) | None \<Rightarrow> hn) s))"
    using assms(3) [of x] assms(4) by (simp add: bind_def g assms(1) agree_def)
qed

lemma agree_find_ls:
  assumes "\<And>x. agree (k (Some True)) (h (Some x))" "agree (k None) (h None)"
  shows "agree (find_ls lock ss (\<lambda>i. if_in_ls i ident (ret True)) k)
    (find_ls lock ss (\<lambda>i. first_ok (get_ls i (\<lambda>r. map_sum id f (ls_Get ident r)))) h)"
proof (induction ss)
  case (Cons i ss)
  show ?case unfolding find_ls.simps
    by (intro agree_with agree_found [where P = "\<lambda>s. ls_Exists ident (layers_at (fst s) i)"] assms(1) Cons)
      (auto simp: if_in_ls_def bind_def first_ok_def attempt_def get_ls_def ls_Get_def ls_Exists_def abnormal_def split: option.splits)
qed (simp add: assms(2))

lemma agree_find_is:
  assumes "\<And>x. agree (k (Some True)) (h (Some x))" "agree (k None) (h None)"
  shows "agree (find_is lib lock ss (\<lambda>i. if_in_is i ident (ret True)) k)
    (find_is lib lock ss (\<lambda>i. first_ok (get_is i (\<lambda>r. map_sum id f (is_Get ident r)))) h)"
proof (induction ss)
  case (Cons i ss)
  show ?case unfolding find_is.simps
    by (intro agree_with agree_found [where P = "\<lambda>s. is_Exists ident (images_at (fst s) i)"] assms(1) Cons)
      (auto simp: if_in_is_def bind_def first_ok_def attempt_def get_is_def is_Get_def is_Exists_def abnormal_def split: option.splits)
qed (simp add: assms(2))

lemma agree_in_cs:
  "agree (st_in_cs (get_cs (\<lambda>r. Inr (cs_Exists ident r)))) (st_in_cs (get_cs (\<lambda>r. map_sum (\<lambda>_. ErrLayerUnknown) f (cs_Get ident r))))"
proof -
  have "agree (get_cs (\<lambda>r. Inr (cs_Exists ident r))) (get_cs (\<lambda>r. map_sum (\<lambda>_. ErrLayerUnknown) f (cs_Get ident r)))"
    by (auto simp: agree_def agrees_def get_cs_def cs_Exists_def cs_Get_def abnormal_def split: option.splits)
  then show ?thesis unfolding st_in_cs_def by (intro agree_bind agree_with)
qed

lemma exists_body_agrees: "agree (st_exists_body lib ident) (st_Lookup lib ident)"
proof -
  have s: "agree (or_else m (Some True)) (or_else n (Some x))" for m n x by (simp add: or_else_def agree_ret)
  have n: "agree (or_else m None) (or_else n None)" if "agree m n" for m n using that by (simp add: or_else_def)
  show ?thesis unfolding st_exists_body_def st_Lookup_def all_ls_def all_is_def
    by (intro agree_bind agree_find_ls agree_find_is s n agree_in_cs)
qed

end
