(* ===== verification/StoreProps.thy ===== *)
theory StoreProps
  imports StoreGuards StoreLookup
begin

text \<open>
  Properties of the store as a whole.
\<close>

section \<open>Inputs of the examples\<close>

lemma run_ok: "\<not> isl (fst p) \<Longrightarrow> \<exists>x s'. p = (Inr x, s')"
  by (cases p; cases "fst p") simp_all

text \<open>A graph driver that has no state and whose calls succeed.\<close>

definition demo_drv :: "unit Driver" where
  "demo_drv =
     \<lparr>drv_String = ''vfs'', drv_CreateReadWrite = (\<lambda>_ _ _. ret ()), drv_Create = (\<lambda>_ _ _. ret ()),
      drv_CreateFromTemplate = (\<lambda>_ _ _ _ _ _ _. ret ()), drv_Remove = (\<lambda>_. ret ()), drv_Get = (\<lambda>ident _. ret ident),
      drv_Put = (\<lambda>_. ret ()), drv_Exists = (\<lambda>_ _. True), drv_Status = (\<lambda>_. []), drv_Cleanup = ret (),
      drv_AdditionalImageStores = [], drv_Changes = (\<lambda>_ _ _ _ _. ret []), drv_DiffSize = (\<lambda>_ _ _ _ _. ret 0),
      drv_ApplyDiff = (\<lambda>_ _ _. ret 0), drv_UpdateLayerIDMap = (\<lambda>_ _ _ _. ret ()), drv_SupportsShifting = False,
      drv_Mounted = (\<lambda>_. ret False), drv_Differ = None\<rparr>"

definition demo_lib :: "unit storeLib" where
  "demo_lib =
     \<lparr>lib_drivers = [(''vfs'', \<lambda>home config. ret demo_drv)], lib_isdir = (\<lambda>_. False), lib_diff = demo_dl,
      lib_validate = (\<lambda>_. None), lib_InitLabels = (\<lambda>_. Inr ([], [])), lib_stat = (\<lambda>_. Inr (0, 0)), lib_lstat = (\<lambda>_. Inr (0, 0)),
      lib_dirSize = (\<lambda>_ _. Inr 0), lib_rootless = False, lib_USER = [], lib_Geteuid = 0, lib_rootlessUID = 0,
      lib_LookupId = (\<lambda>_. Inl NotExist), lib_subids = (\<lambda>_. Inl NotExist), lib_ParsePasswdFile = (\<lambda>_. Inr []),
      lib_ParseGroupFile = (\<lambda>_. Inr []), lib_AdditionalLayers = (\<lambda>_. None)\<rparr>"

definition demo_sopts :: StoreOptions where
  "demo_sopts = \<lparr>so_RunRoot = ''r'', so_GraphRoot = ''g'', so_GraphDriverName = ''vfs'', so_GraphDriverOptions = [],
     so_UIDMap = None, so_GIDMap = None, so_RootAutoNsUser = [], so_AutoNsMinSize = 0, so_AutoNsMaxSize = 0,
     so_DisableVolatile = False\<rparr>"

definition demo_senv :: "unit env" where
  "demo_senv = \<lparr>dstate = (), labels = [], wld = demo_world\<lparr>rand := [''a0'', ''b0'', ''c0'', ''d0'', ''e0'', ''f0'', ''a1'', ''b1'', ''c1'', ''d1'', ''e1'', ''f1'', ''a2'', ''b2'', ''c2'', ''d2'']\<rparr>\<rparr>"

definition demo_opened :: "(gerr + nat) \<times> (unit store list \<times> unit env)" where
  "demo_opened = st_open_store demo_lib demo_sopts [''r''] [''g''] ([], demo_senv)"

lemma demo_opened_ok: "\<not> isl (fst demo_opened)"
  by code_simp

definition demo_store :: "unit store \<times> unit env" where
  "demo_store = (fst (snd demo_opened) ! 0, snd (snd demo_opened))"

definition demo_layered :: "(gerr + unit) \<times> (unit store \<times> unit env)" where
  "demo_layered = void (st_LayerStore demo_lib) demo_store"

lemma demo_layered_ok:
  "fst demo_layered = Inr ()" "case s_layerStore (fst (snd demo_layered)) of Some i \<Rightarrow> i = 0 | None \<Rightarrow> False"
  by code_simp+

lemma demo_live: "live_store demo_lib (fst (snd demo_layered))"
proof -
  have "fst demo_opened = Inr 0" by code_simp
  then have "st_open_store demo_lib demo_sopts [''r''] [''g''] ([], demo_senv) = (Inr 0, (fst (snd demo_opened), snd (snd demo_opened)))"
    unfolding demo_opened_def by (metis prod.collapse)
  from live_store.opened [OF this] have l: "live_store demo_lib (fst demo_store)" by (simp add: demo_store_def)
  have o': "store_op demo_lib (void (st_LayerStore demo_lib))" by (rule store_op.intros)
  show ?thesis
    by (rule live_store.called [OF l o', of "snd demo_store" "Inr ()" _ "snd (snd demo_layered)"])
      (use demo_layered_ok(1) in \<open>auto simp: demo_layered_def prod_eq_iff\<close>)
qed

section \<open>Locks\<close>

text \<open>
  C4: Every operation of the store that returns has released every lock it took: in a store that is
  in use, between two calls, the graph lock, the user namespace lock and the locks of all layer stores
  (with their mounts locks), image stores and the container store are not held.
\<close>

theorem store_operations_release_locks:
  assumes "live_store lib st"
  shows "all_unlocked st"
  using live_store_idle [OF assms] by (simp add: idle_unlocked)

theorem store_operations_release_locks_witness:
  "all_unlocked (fst (snd demo_layered)) \<and> length (s_layerStores (fst (snd demo_layered))) = 1"
proof
  show "all_unlocked (fst (snd demo_layered))" by (rule store_operations_release_locks [OF demo_live])
  show "length (s_layerStores (fst (snd demo_layered))) = 1" by code_simp
qed



text \<open>A store that has the layer \<open>l1\<close>, as another process may have left it.\<close>

definition demo_full :: "unit store \<times> unit env" where
  "demo_full =
     ((new_store demo_sopts [''r''] [''g''] (idle_lock\<lparr>lk_file := [''g'', ''storage.lock'']\<rparr>) (idle_lock\<lparr>lk_file := [''g'', ''userns.lock'']\<rparr>))
        \<lparr>s_lastLoaded := 9, s_graphDriver := Some demo_drv,
         s_layerStores := [(demo_one\<lparr>ls_lockfile := idle_lock\<lparr>lk_file := [''g'', ''layers.lock'']\<rparr>\<rparr>, demo_drv)], s_layerStore := Some 0,
         s_imageStores := [empty_istore (idle_lock\<lparr>lk_file := [''i'', ''images.lock'']\<rparr>) [''i'']], s_imageStore := Some 0,
         s_containerStore := Some (empty_cstore (idle_lock\<lparr>lk_file := [''c'', ''containers.lock'']\<rparr>) [''c''])\<rparr>, \<lparr>dstate = (), labels = [], wld = demo_world\<rparr>)"

section \<open>Looking up\<close>

text \<open>
  C15: \<open>Exists\<close> and \<open>Lookup\<close> of the store agree: when \<open>Exists\<close> returns, the answer is true exactly if
  \<open>Lookup\<close> of the same identifier or name, called in the same state, succeeds, and both leave the same
  state behind.
\<close>

theorem Exists_iff_Lookup:
  assumes "st_Exists lib ident s = (Inr b, s')"
  shows "snd (st_Lookup lib ident s) = s' \<and> (b \<longleftrightarrow> (\<exists>k. fst (st_Lookup lib ident s) = Inr k))"
proof -
  obtain x t where l: "st_Lookup lib ident s = (x, t)" by (rule prod.exhaust)
  obtain y where y: "st_exists_body lib ident s = (y, t)" and ag: "agrees y x"
    using agreeD [OF exists_body_agrees l] by blast
  show ?thesis using assms y ag l
    by (auto simp: st_Exists_def bind_def attempt_def agrees_def split: sum.splits if_splits)
qed

theorem Exists_iff_Lookup_witness:
  "\<exists>k. fst (st_Lookup demo_lib ''l1'' demo_full) = Inr k"
proof -
  have e: "case fst (st_Exists demo_lib ''l1'' demo_full) of Inl _ \<Rightarrow> False | Inr b \<Rightarrow> b" by code_simp
  obtain x t where "st_Exists demo_lib ''l1'' demo_full = (x, t)" by (rule prod.exhaust)
  with e have "st_Exists demo_lib ''l1'' demo_full = (Inr True, t)" by (cases x) auto
  from Exists_iff_Lookup [OF this] show ?thesis by simp
qed

section \<open>Deleting\<close>




text \<open>The layer \<open>l2\<close> on \<open>l1\<close>, and an image on top of it.\<close>

definition demo_two :: layerStore where
  "demo_two = insert_item ''l2'' [] (new_layer ''l2'' ''l1'' [] [] 0 Map.empty demo_lopts) demo_one"

definition demo_image :: Image where
  "demo_image = \<lparr>i_ID = ''i1'', i_Digest = [], i_Digests = [], i_Names = [], i_NamesHistory = [], i_TopLayer = ''l2'',
     i_MappedTopLayers = [], i_Metadata = [], i_BigDataNames = [], i_BigDataSizes = [], i_BigDataDigests = [], i_Created = 0,
     i_ReadOnly = False, i_Flags = Map.empty\<rparr>"

definition demo_imaged :: "unit store \<times> unit env" where
  "demo_imaged = ((fst demo_full)\<lparr>s_layerStores := [(demo_two, demo_drv)],
     s_imageStores := [insert_item ''i1'' [] demo_image (empty_istore idle_lock [''i''])]\<rparr>, snd demo_full)"


text \<open>
  C16: The loop of \<open>DeleteImage\<close> that walks from the top layer of the image towards the base ends, when the
  parents of the layers do not form a cycle: there is a ranking in which the layer that a recorded
  parent resolves to is below the layer that records it.
\<close>

theorem DeleteImage_loop_ends:
  fixes rank :: "string \<Rightarrow> nat"
  assumes "ls_ok u r"
    and "\<And>l l'. l \<in> set (ls_Layers r) \<Longrightarrow> l_Parent l \<noteq> [] \<Longrightarrow> ls_Get (l_Parent l) r = Inr l' \<Longrightarrow> rank (l_ID l') < rank (l_ID l)"
  shows "\<exists>ks. layers_to_remove r ri rc img = Inr ks"
  by (rule layers_to_remove_ends [OF assms(1), of rank]) (use assms(2) in \<open>simp add: below_def\<close>)

theorem DeleteImage_loop_ends_witness:
  "\<exists>ks. layers_to_remove demo_two (images_at (fst demo_imaged) 0) (empty_cstore idle_lock [''c'']) demo_image = Inr ks"
proof (rule DeleteImage_loop_ends [where u = True and rank = "\<lambda>k. if k = ''l2'' then 1 else 0"])
  have "byid demo_one ''l2'' = None" by (simp add: demo_one_def demo_ls_def empty_lstore_def insert_item_def Let_def)
  from ls_ok_insert [OF demo_one_ok this, where l = "new_layer ''l2'' ''l1'' [] [] 0 Map.empty demo_lopts" and ns = "[]"
      and cm = "bycompressedsum demo_one" and um = "byuncompressedsum demo_one"]
  show "ls_ok True demo_two" by (simp add: demo_two_def new_layer_def insert_item_def Let_def)
  fix l l' assume "l \<in> set (ls_Layers demo_two)" "l_Parent l \<noteq> []" "ls_Get (l_Parent l) demo_two = Inr l'"
  then show "(if l_ID l' = ''l2'' then 1 else 0) < (if l_ID l = ''l2'' then 1 else (0 :: nat))"
    by (auto simp: demo_two_def demo_one_def demo_ls_def empty_lstore_def insert_item_def Let_def ls_Layers_def item_list_def
        new_layer_def copyLayer_def ls_Get_def ls_lookup_def split: option.splits)
qed

text \<open>
  The checks of \<open>DeleteLayer\<close> compare with the string the caller gave, because the code replaces it by the
  identifier only when the lookup has failed: a name of a layer that has children passes them.
\<close>

lemma DeleteLayer_name_passes:
  "ls_Exists ''base'' (insert_item ''l2'' [] (new_layer ''l2'' ''l1'' [] [] 0 Map.empty demo_lopts) (fst (snd demo_put)))"
  "layer_unused ''base'' (insert_item ''l2'' [] (new_layer ''l2'' ''l1'' [] [] 0 Map.empty demo_lopts) (fst (snd demo_put)))
     (empty_istore idle_lock [''i'']) (empty_cstore idle_lock [''c'']) = None"
  "layer_unused ''l1'' (insert_item ''l2'' [] (new_layer ''l2'' ''l1'' [] [] 0 Map.empty demo_lopts) (fst (snd demo_put)))
     (empty_istore idle_lock [''i'']) (empty_cstore idle_lock [''c'']) = Some ErrLayerHasChildren"
  by code_simp+

end
