(* ===== verification/ArchiveChanges.thy ===== *)
theory ArchiveChanges
  imports Driver "HOL-Library.Word" "HOL-Library.List_Lexorder" "HOL-Library.Char_ord"
begin

text \<open>
  The comparison of two directory trees, \<^verbatim>\<open>pkg/archive/changes.go\<close>,
  \<^verbatim>\<open>changes_unix.go\<close> and \<^verbatim>\<open>changes_linux.go\<close>: what the naive diff driver
  computes between a layer and its parent.

  \<^item> A directory on disk is a \<open>Node\<close>: the answers the operating system gives to the calls the code
    makes about one file (\<open>Lstat\<close>, \<open>Lgetxattr\<close>, \<open>Llistxattr\<close>, \<open>getdents\<close>), each of which may be
    an error, and the files below it.  The listing of a directory and the files found under the
    listed names are separate answers, as they are separate system calls.
  \<^item> \<open>walker\<close> reads the two directories side by side into two trees of \<open>FileInfo\<close>, leaving out what
    has the same inode number in both.
  \<^item> \<open>addChanges\<close> compares the two trees.

  A \<open>FileInfo\<close> reaches its parent by a pointer; here every operation has the names on the way from
  the root as an argument, and the root is the node without any.  The children are an association
  list; its order stands for the order in which \<open>range\<close> visits the map, and no theorem depends on
  it.  Paths of a walk are lists of names, turned into strings in the \<open>Change\<close>s.
\<close>

unbundle bit_operations_syntax

section \<open>File status\<close>

record Timespec =
  ts_Sec :: int
  ts_Nsec :: int

text \<open>\<open>syscall.Stat_t\<close>, which is also what an \<open>os.FileInfo\<close> of \<open>Lstat\<close> carries.\<close>

record Stat_t =
  sys_Dev :: nat
  sys_Ino :: nat
  sys_Nlink :: nat
  sys_Mode :: "32 word"
  sys_Uid :: "32 word"
  sys_Gid :: "32 word"
  sys_Rdev :: nat
  sys_Size :: int
  sys_Mtim :: Timespec

record StatT =
  sT_mode :: "32 word"
  sT_uid :: "32 word"
  sT_gid :: "32 word"
  sT_rdev :: nat
  sT_size :: int
  sT_mtim :: Timespec

definition FromStatT :: "Stat_t \<Rightarrow> gerr + StatT" where
  "FromStatT s =
     Inr \<lparr>sT_mode = sys_Mode s, sT_uid = sys_Uid s, sT_gid = sys_Gid s, sT_rdev = sys_Rdev s,
          sT_size = sys_Size s, sT_mtim = sys_Mtim s\<rparr>"

definition S_IFMT :: "32 word" where
  "S_IFMT = 0xF000"

definition S_IFDIR :: "32 word" where
  "S_IFDIR = 0x4000"

text \<open>\<open>IsDir\<close> of an \<open>os.FileInfo\<close> compares the whole file type.\<close>

definition IsDir :: "Stat_t \<Rightarrow> bool" where
  "IsDir s \<longleftrightarrow> sys_Mode s AND S_IFMT = S_IFDIR"

definition getIno :: "Stat_t \<Rightarrow> nat" where
  "getIno fi = sys_Ino fi"

definition hasHardlinks :: "Stat_t \<Rightarrow> bool" where
  "hasHardlinks fi \<longleftrightarrow> sys_Nlink fi > 1"

definition sameFsTimeSpec :: "Timespec \<Rightarrow> Timespec \<Rightarrow> bool" where
  "sameFsTimeSpec a b \<longleftrightarrow>
     ts_Sec a = ts_Sec b \<and> (ts_Nsec a = ts_Nsec b \<or> ts_Nsec a = 0 \<or> ts_Nsec b = 0)"

section \<open>The tree of a directory in memory\<close>

datatype FileInfo =
  FileInfo (fi_idMappings: IDMappings) (fi_stat: StatT) (fi_children: "(string \<times> FileInfo) list")
    (fi_capability: bytes) (fi_xattrs: "(string \<times> bytes) list")

text \<open>The status of the root is the nil pointer: \<open>isDir\<close> of the root does not read it.\<close>

definition no_stat :: StatT where
  "no_stat = \<lparr>sT_mode = 0, sT_uid = 0, sT_gid = 0, sT_rdev = 0, sT_size = 0,
     sT_mtim = \<lparr>ts_Sec = 0, ts_Nsec = 0\<rparr>\<rparr>"

definition newRootFileInfo :: "IDMappings \<Rightarrow> FileInfo" where
  "newRootFileInfo idMappings = FileInfo idMappings no_stat [] [] []"

fun LookUp :: "FileInfo \<Rightarrow> path \<Rightarrow> FileInfo option" where
  "LookUp info [] = Some info"
| "LookUp info (e # es) =
     (case map_of (fi_children info) e of None \<Rightarrow> None | Some child \<Rightarrow> LookUp child es)"

text \<open>
  \<open>isDir\<close> tests a bit of the mode: block devices (\<open>0060000\<close>) and sockets (\<open>0140000\<close>) have it too.
\<close>

definition isDir :: "path \<Rightarrow> FileInfo \<Rightarrow> bool" where
  "isDir p info \<longleftrightarrow> p = [] \<or> sT_mode (fi_stat info) AND S_IFDIR \<noteq> 0"

definition statDifferent :: "StatT \<Rightarrow> IDMappings option \<Rightarrow> StatT \<Rightarrow> IDMappings \<Rightarrow> bool" where
  "statDifferent oldStat oldMappings newStat newMappings =
     (let (oldUID, oldGID, uid, gid) =
            (case ToContainer newMappings \<lparr>UID = uint (sT_uid newStat), GID = uint (sT_gid newStat)\<rparr> of
               Inl _ \<Rightarrow> (sT_uid oldStat, sT_gid oldStat, sT_uid newStat, sT_gid newStat)
             | Inr (cuid, cgid) \<Rightarrow>
                 (case oldMappings of
                    None \<Rightarrow> (sT_uid oldStat, sT_gid oldStat, word_of_int cuid, word_of_int cgid)
                  | Some m \<Rightarrow>
                      (case ToContainer m \<lparr>UID = uint (sT_uid oldStat), GID = uint (sT_gid oldStat)\<rparr> of
                         Inl _ \<Rightarrow> (sT_uid oldStat, sT_gid oldStat, word_of_int cuid, word_of_int cgid)
                       | Inr (oldcuid, oldcgid) \<Rightarrow>
                           (word_of_int oldcuid, word_of_int oldcgid, word_of_int cuid, word_of_int cgid))));
          ownerChanged = (uid \<noteq> oldUID \<or> gid \<noteq> oldGID)
      in sT_mode oldStat \<noteq> sT_mode newStat \<or> ownerChanged \<or> sT_rdev oldStat \<noteq> sT_rdev newStat \<or>
         sT_mode oldStat AND S_IFDIR \<noteq> S_IFDIR \<and>
           (\<not> sameFsTimeSpec (sT_mtim oldStat) (sT_mtim newStat) \<or> sT_size oldStat \<noteq> sT_size newStat))"

text \<open>\<open>reflect.DeepEqual\<close> of two maps: the same keys with the same values.\<close>

definition same_map :: "('k \<times> 'v) list \<Rightarrow> ('k \<times> 'v) list \<Rightarrow> bool" where
  "same_map xs ys \<longleftrightarrow> (\<forall>k \<in> set (map fst xs @ map fst ys). map_of xs k = map_of ys k)"

definition change :: "path \<Rightarrow> ChangeType \<Rightarrow> Change" where
  "change p k = \<lparr>ch_Path = path_string p, ch_Kind = k\<rparr>"

definition node_different :: "FileInfo \<Rightarrow> FileInfo option \<Rightarrow> FileInfo \<Rightarrow> FileInfo \<Rightarrow> bool" where
  "node_different info oldInfo newChild oldChild \<longleftrightarrow>
     statDifferent (fi_stat oldChild) (map_option fi_idMappings oldInfo) (fi_stat newChild) (fi_idMappings info)
     \<or> fi_capability oldChild \<noteq> fi_capability newChild
     \<or> \<not> same_map (fi_xattrs oldChild) (fi_xattrs newChild)"

text \<open>
  \<open>addChanges\<close> at the path \<open>p\<close>: the changes it appends.  The argument \<open>added\<close> is the flag that the
  caller has set on \<open>info\<close>.  \<open>addChildren\<close> is the loop over the children; it also returns what is
  left of the copy of the old children.
\<close>

fun addChanges :: "path \<Rightarrow> bool \<Rightarrow> FileInfo \<Rightarrow> FileInfo option \<Rightarrow> Change list"
and addChildren :: "path \<Rightarrow> FileInfo \<Rightarrow> FileInfo option \<Rightarrow> (string \<times> FileInfo) list \<Rightarrow> (string \<times> FileInfo) list
      \<Rightarrow> Change list \<times> (string \<times> FileInfo) list" where
  "addChanges p added (FileInfo im st cs cap xs) oldInfo =
     (let info = FileInfo im st cs cap xs;
          add = (if oldInfo = None then [change p ChangeAdd] else []);
          oldChildren = (case oldInfo of
                           None \<Rightarrow> []
                         | Some old \<Rightarrow> if isDir p info then fi_children old else []);
          (inner, left) = addChildren p info oldInfo oldChildren cs;
          changes = add @ inner @ map (\<lambda>(n, _). change (p @ [n]) ChangeDelete) left
      in if changes \<noteq> [] \<and> isDir p info \<and> \<not> (added \<or> oldInfo = None) \<and> p \<noteq> []
         then change p ChangeModify # changes else changes)"
| "addChildren p info oldInfo olds [] = ([], olds)"
| "addChildren p info oldInfo olds ((name, newChild) # cs) =
     (case map_of olds name of
        Some oldChild \<Rightarrow>
          (let modified = node_different info oldInfo newChild oldChild;
               (rest, left) = addChildren p info oldInfo (AList.delete name olds) cs
           in ((if modified then [change (p @ [name]) ChangeModify] else [])
                 @ addChanges (p @ [name]) modified newChild (Some oldChild) @ rest, left))
      | None \<Rightarrow>
          (let (rest, left) = addChildren p info oldInfo olds cs
           in (addChanges (p @ [name]) False newChild None @ rest, left)))"

definition Changes :: "FileInfo \<Rightarrow> FileInfo option \<Rightarrow> Change list" where
  "Changes info oldInfo = addChanges [] False info oldInfo"

section \<open>Directories on disk\<close>

text \<open>
  The answers to the system calls about one file: \<open>Lstat\<close>; \<open>Lgetxattr\<close> for each attribute that is
  not simply missing; \<open>Llistxattr\<close>; \<open>Open\<close> of a directory; the successive \<open>getdents\<close> buffers, as
  the inode numbers and name fields of their records; the files its names lead to.
\<close>

datatype Node =
  Node (nd_lstat: "gerr + Stat_t") (nd_getxattr: "(string \<times> (gerr + bytes)) list")
    (nd_listxattr: "gerr + string list") (nd_open: "gerr option")
    (nd_reads: "(gerr + (nat \<times> string) list) list") (nd_files: "(string \<times> Node) list")

definition EOPNOTSUPP :: gerr where
  "EOPNOTSUPP = SysErr 95"

definition E2BIG :: gerr where
  "E2BIG = SysErr 7"

definition Lgetxattr :: "Node \<Rightarrow> string \<Rightarrow> gerr + bytes" where
  "Lgetxattr n attr = (case map_of (nd_getxattr n) attr of None \<Rightarrow> Inr [] | Some r \<Rightarrow> r)"

record nameIno =
  ni_name :: string
  ni_ino :: nat

fun parseDirent :: "(nat \<times> string) list \<Rightarrow> nameIno list \<Rightarrow> nameIno list" where
  "parseDirent [] names = names"
| "parseDirent ((ino, field) # buf) names =
     (if ino = 0 then parseDirent buf names
      else let name = takeWhile (\<lambda>c. c \<noteq> CHR 0x00) field in
           if name = ''.'' \<or> name = ''..'' then parseDirent buf names
           else parseDirent buf (names @ [\<lparr>ni_name = name, ni_ino = ino\<rparr>]))"

fun readdir_loop :: "(gerr + (nat \<times> string) list) list \<Rightarrow> nameIno list \<Rightarrow> gerr + nameIno list" where
  "readdir_loop [] names = Inr names"
| "readdir_loop (Inl e # reads) names = Inl e"
| "readdir_loop (Inr buf # reads) names =
     (if buf = [] then Inr names else readdir_loop reads (parseDirent buf names))"

definition readdirnames :: "Node \<Rightarrow> gerr + nameIno list" where
  "readdirnames n =
     (case nd_open n of
        Some e \<Rightarrow> Inl e
      | None \<Rightarrow> (case readdir_loop (nd_reads n) [] of
                   Inl e \<Rightarrow> Inl e
                 | Inr names \<Rightarrow> Inr (sort_key ni_name names)))"

section \<open>The walk over two directories\<close>

text \<open>The names of two sorted listings, without those that are the same file in both.\<close>

fun merge_names :: "bool \<Rightarrow> nameIno list \<Rightarrow> nameIno list \<Rightarrow> string list" where
  "merge_names sameDevice [] names2 = map ni_name names2"
| "merge_names sameDevice names1 [] = map ni_name names1"
| "merge_names sameDevice (ni1 # names1) (ni2 # names2) =
     (if ni_name ni1 < ni_name ni2 then ni_name ni1 # merge_names sameDevice names1 (ni2 # names2)
      else if ni_name ni1 = ni_name ni2 then
        (if ni_ino ni1 \<noteq> ni_ino ni2 \<or> \<not> sameDevice then [ni_name ni1] else [])
          @ merge_names sameDevice names1 names2
      else ni_name ni2 # merge_names sameDevice (ni1 # names1) names2)"

text \<open>The attributes that \<open>walkchunk\<close> keeps: those of users, unless their value is too big.\<close>

fun read_xattrs :: "Node \<Rightarrow> string list \<Rightarrow> (string \<times> bytes) list \<Rightarrow> gerr + (string \<times> bytes) list" where
  "read_xattrs n [] xattrs = Inr xattrs"
| "read_xattrs n (key # keys) xattrs =
     (if prefix ''user.'' key then
        (case Lgetxattr n key of
           Inl e \<Rightarrow> if e = E2BIG then read_xattrs n keys xattrs else Inl e
         | Inr value \<Rightarrow> read_xattrs n keys (AList.update key value xattrs))
      else read_xattrs n keys xattrs)"

definition file_info_xattrs :: "IDMappings \<Rightarrow> StatT \<Rightarrow> bytes \<Rightarrow> Node \<Rightarrow> gerr + FileInfo" where
  "file_info_xattrs idMappings stat cap n =
     (case nd_listxattr n of
        Inl e \<Rightarrow> if e = EOPNOTSUPP then Inr (FileInfo idMappings stat [] cap []) else Inl e
      | Inr keys \<Rightarrow>
          (case read_xattrs n keys [] of
             Inl e \<Rightarrow> Inl e
           | Inr xattrs \<Rightarrow> Inr (FileInfo idMappings stat [] cap xattrs)))"

definition file_info :: "IDMappings \<Rightarrow> Stat_t \<Rightarrow> Node \<Rightarrow> gerr + FileInfo" where
  "file_info idMappings fi n =
     (case FromStatT fi of Inl e \<Rightarrow> Inl e | Inr stat \<Rightarrow>
     (case Lgetxattr n ''security.capability'' of
        Inl e \<Rightarrow> if e = EOPNOTSUPP then file_info_xattrs idMappings stat [] n else Inl e
      | Inr cap \<Rightarrow> file_info_xattrs idMappings stat cap n))"

text \<open>\<open>parent.children[name] = info\<close>, the parent being the node at a path of the tree.\<close>

fun put_child :: "path \<Rightarrow> string \<Rightarrow> FileInfo \<Rightarrow> FileInfo \<Rightarrow> FileInfo" where
  "put_child [] name info (FileInfo im st cs cap xs) = FileInfo im st (AList.update name info cs) cap xs"
| "put_child (e # es) name info (FileInfo im st cs cap xs) =
     FileInfo im st
       (case map_of cs e of None \<Rightarrow> cs | Some c \<Rightarrow> AList.update e (put_child es name info c) cs) cap xs"

text \<open>An \<open>os.FileInfo\<close> comes with the file it was read from; \<open>None\<close> is the nil interface.\<close>

type_synonym os_file = "(Stat_t \<times> Node) option"

definition walkchunk :: "path \<Rightarrow> os_file \<Rightarrow> (FileInfo, unit) go" where
  "walkchunk p fi root =
     (case fi of
        None \<Rightarrow> (Inr (), root)
      | Some (st, n) \<Rightarrow>
          (case LookUp root (butlast p) of
             None \<Rightarrow> (Inl (Errorf ''walkchunk: Unexpectedly no parent''), root)
           | Some _ \<Rightarrow>
               (case file_info (fi_idMappings root) st n of
                  Inl e \<Rightarrow> (Inl e, root)
                | Inr info \<Rightarrow> (Inr (), put_child (butlast p) (last p) info root))))"

definition is_dir_file :: "os_file \<Rightarrow> bool" where
  "is_dir_file f = (case f of None \<Rightarrow> False | Some (st, _) \<Rightarrow> IsDir st)"

definition same_device :: "os_file \<Rightarrow> os_file \<Rightarrow> bool" where
  "same_device f1 f2 = (case (f1, f2) of (Some (s1, _), Some (s2, _)) \<Rightarrow> sys_Dev s1 = sys_Dev s2 | _ \<Rightarrow> False)"

definition names_in :: "os_file \<Rightarrow> gerr + nameIno list" where
  "names_in f = (case f of None \<Rightarrow> Inr [] | Some (st, n) \<Rightarrow> if IsDir st then readdirnames n else Inr [])"

text \<open>\<open>Lstat\<close> of a name in a directory; a name that is gone counts as absent.\<close>

definition lstat_node :: "Node \<Rightarrow> gerr + os_file" where
  "lstat_node n =
     (case nd_lstat n of
        Inl e \<Rightarrow> if e = NotExist then Inr None else Inl e
      | Inr st \<Rightarrow> Inr (Some (st, n)))"

definition lstat_in :: "os_file \<Rightarrow> string \<Rightarrow> gerr + os_file" where
  "lstat_in f name =
     (case f of
        None \<Rightarrow> Inr None
      | Some (st, n) \<Rightarrow>
          if IsDir st then (case map_of (nd_files n) name of None \<Rightarrow> Inr None | Some c \<Rightarrow> lstat_node c)
          else Inr None)"

definition lift_result :: "gerr + 'a \<Rightarrow> ('s, 'a) go" where
  "lift_result r s = (r, s)"

definition file_size :: "os_file \<Rightarrow> nat" where
  "file_size f = (case f of None \<Rightarrow> 0 | Some (_, n) \<Rightarrow> Suc (size n))"

lemma size_map_of_files: "map_of xs name = Some c \<Longrightarrow> size c < size_list (size_prod (\<lambda>_. 0) size) xs"
  by (induction xs) (auto split: if_splits)

lemma lstat_in_size: "lstat_in f name = Inr g \<Longrightarrow> file_size g < file_size f \<or> file_size g = 0"
proof (cases f)
  case (Some sn)
  obtain st n where f: "f = Some (st, n)" using Some by (cases sn) simp
  assume l: "lstat_in f name = Inr g"
  show ?thesis
  proof (cases "g = None")
    case False
    then obtain c where "map_of (nd_files n) name = Some c" "g = Some (fst (the g), c)"
      using l by (auto simp: lstat_in_def lstat_node_def f split: if_splits option.splits sum.splits)
    then show ?thesis
      using size_map_of_files [of "nd_files n" name c] by (cases n) (auto simp: f file_size_def split: option.splits)
  qed (simp add: file_size_def)
qed (simp add: lstat_in_def file_size_def)

function (sequential) walk :: "path \<Rightarrow> os_file \<Rightarrow> os_file \<Rightarrow> (FileInfo \<times> FileInfo, unit) go"
and walk_names :: "path \<Rightarrow> os_file \<Rightarrow> os_file \<Rightarrow> string list \<Rightarrow> (FileInfo \<times> FileInfo, unit) go" where
  "walk p f1 f2 =
     bind (if p \<noteq> [] then bind (on_fst (walkchunk p f1)) (\<lambda>_. on_snd (walkchunk p f2)) else ret ()) (\<lambda>_.
     if \<not> is_dir_file f1 \<and> \<not> is_dir_file f2 then ret ()
     else bind (lift_result (names_in f1)) (\<lambda>names1.
          bind (lift_result (names_in f2)) (\<lambda>names2.
          walk_names p f1 f2 (merge_names (same_device f1 f2) names1 names2))))"
| "walk_names p f1 f2 [] = ret ()"
| "walk_names p f1 f2 (name # names) =
     (case lstat_in f1 name of Inl e \<Rightarrow> fail e | Inr c1 \<Rightarrow>
     (case lstat_in f2 name of Inl e \<Rightarrow> fail e | Inr c2 \<Rightarrow>
      bind (walk (p @ [name]) c1 c2) (\<lambda>_. walk_names p f1 f2 names)))"
  by pat_completeness auto
termination
proof (relation "inv_image (less_than <*lex*> less_than <*lex*> less_than) (\<lambda>x. case x of
      Inl (p, f1, f2) \<Rightarrow> (file_size f1 + file_size f2, if file_size f1 + file_size f2 = 0 then 0 else 2, 0)
    | Inr (p, f1, f2, ns) \<Rightarrow> (file_size f1 + file_size f2, 1, length ns))", goal_cases)
  case (2 p f1 f2) then show ?case by (auto simp: is_dir_file_def file_size_def split: option.splits)
next
  case (3 p f1 f2 name names c1 c2)
  then show ?case using lstat_in_size [of f1 name c1] lstat_in_size [of f2 name c2] by auto
qed auto

text \<open>\<open>os.Lstat\<close> of the directories to compare: here a missing directory is an error.\<close>

definition collectFileInfoForChanges :: "Node \<Rightarrow> Node \<Rightarrow> IDMappings \<Rightarrow> IDMappings \<Rightarrow> gerr + (FileInfo \<times> FileInfo)" where
  "collectFileInfoForChanges dir1 dir2 idmap1 idmap2 =
     (case nd_lstat dir1 of Inl e \<Rightarrow> Inl e | Inr i1 \<Rightarrow>
     (case nd_lstat dir2 of Inl e \<Rightarrow> Inl e | Inr i2 \<Rightarrow>
     (case walk [] (Some (i1, dir1)) (Some (i2, dir2)) (newRootFileInfo idmap1, newRootFileInfo idmap2) of
        (Inl e, _) \<Rightarrow> Inl e
      | (Inr _, roots) \<Rightarrow> Inr roots)))"

text \<open>
  \<open>ChangesDirs\<close>.  Without an old directory the code compares with a fresh one; \<open>tempDir\<close> is the
  result of \<open>ioutil.TempDir\<close>.
\<close>

definition ChangesDirs :: "gerr + Node \<Rightarrow> Node \<Rightarrow> IDMappings \<Rightarrow> Node option \<Rightarrow> IDMappings \<Rightarrow> gerr + Change list" where
  "ChangesDirs tempDir newDir newMappings oldDir oldMappings =
     (case (case oldDir of None \<Rightarrow> tempDir | Some d \<Rightarrow> Inr d) of
        Inl e \<Rightarrow> Inl e
      | Inr old \<Rightarrow>
          (case collectFileInfoForChanges old newDir oldMappings newMappings of
             Inl e \<Rightarrow> Inl e
           | Inr (oldRoot, newRoot) \<Rightarrow> Inr (Changes newRoot (Some oldRoot))))"

section \<open>The size of changes\<close>

fun file_at :: "Node \<Rightarrow> path \<Rightarrow> Node option" where
  "file_at n [] = Some n"
| "file_at n (e # es) = (case map_of (nd_files n) e of None \<Rightarrow> None | Some c \<Rightarrow> file_at c es)"

text \<open>
  \<open>ChangesSize\<close>: \<open>lstat\<close> is \<open>os.Lstat\<close> of a path below the directory; an error is logged and the
  change skipped.  \<open>sf\<close> holds the inode numbers of the hard links counted so far, and the sum is one
  of \<open>int64\<close>.
\<close>

fun changes_size :: "(string \<Rightarrow> gerr + Stat_t) \<Rightarrow> Change list \<Rightarrow> nat list \<Rightarrow> int \<Rightarrow> int" where
  "changes_size lstat [] sf sz = sz"
| "changes_size lstat (c # cs) sf sz =
     (if ch_Kind c = ChangeModify \<or> ch_Kind c = ChangeAdd then
        (case lstat (ch_Path c) of
           Inl e \<Rightarrow> changes_size lstat cs sf sz
         | Inr fi \<Rightarrow>
             if IsDir fi then changes_size lstat cs sf sz
             else if hasHardlinks fi then
               (if getIno fi \<in> set sf then changes_size lstat cs sf sz
                else changes_size lstat cs (getIno fi # sf) (int64 (sz + sys_Size fi)))
             else changes_size lstat cs sf (int64 (sz + sys_Size fi)))
      else changes_size lstat cs sf sz)"

definition ChangesSize :: "(string \<Rightarrow> gerr + Stat_t) \<Rightarrow> Change list \<Rightarrow> int" where
  "ChangesSize lstat changes = changes_size lstat changes [] 0"

end
