(* ===== verification/ArchiveChangesTree.thy ===== *)
theory ArchiveChangesTree
  imports ArchiveChanges
begin

text \<open>
  What the comparison of two trees reports.  The predicates \<open>add_at\<close>, \<open>del_at\<close>, \<open>diff_at\<close> and
  \<open>mod_at\<close> say it path by path, from \<open>LookUp\<close> alone; \<open>set_addChanges\<close> shows that the recursive
  \<open>addChanges\<close> produces exactly that, whatever the order of the children.
\<close>

section \<open>Trees as the walk builds them\<close>

text \<open>Distinct names, children only below directories, one ID mapping throughout.\<close>

fun tidy_below :: "IDMappings \<Rightarrow> FileInfo \<Rightarrow> bool" where
  "tidy_below m (FileInfo im st cs cap xs) \<longleftrightarrow>
     im = m \<and> distinct (map fst cs) \<and>
     (\<forall>(n, c) \<in> set cs. (fi_children c = [] \<or> sT_mode (fi_stat c) AND S_IFDIR \<noteq> 0) \<and> tidy_below m c)"

lemma FileInfo_induct [case_names FileInfo]:
  assumes "\<And>im st cs cap xs. (\<And>n c. (n, c) \<in> set cs \<Longrightarrow> P c) \<Longrightarrow> P (FileInfo im st cs cap xs)"
  shows "P info"
proof (induction info)
  case (FileInfo im st cs cap xs)
  show ?case by (rule assms) (use FileInfo in force)
qed

lemma tidy_below_maps: "tidy_below m info \<Longrightarrow> fi_idMappings info = m"
  by (cases info) simp

lemma tidy_below_child:
  assumes "tidy_below m info" "map_of (fi_children info) n = Some c"
  shows "tidy_below m c" "fi_children c = [] \<or> sT_mode (fi_stat c) AND S_IFDIR \<noteq> 0"
  using assms by (cases info; auto dest!: map_of_SomeD)+

section \<open>What is reported\<close>

definition different :: "IDMappings \<Rightarrow> IDMappings \<Rightarrow> FileInfo \<Rightarrow> FileInfo \<Rightarrow> bool" where
  "different m om new old \<longleftrightarrow>
     statDifferent (fi_stat old) (Some om) (fi_stat new) m \<or> fi_capability old \<noteq> fi_capability new \<or>
     \<not> same_map (fi_xattrs old) (fi_xattrs new)"

definition add_at :: "FileInfo \<Rightarrow> FileInfo \<Rightarrow> path \<Rightarrow> bool" where
  "add_at new old r \<longleftrightarrow> r \<noteq> [] \<and> LookUp new r \<noteq> None \<and> LookUp old r = None"

definition del_at :: "path \<Rightarrow> FileInfo \<Rightarrow> FileInfo \<Rightarrow> path \<Rightarrow> bool" where
  "del_at p new old r \<longleftrightarrow>
     r \<noteq> [] \<and> LookUp new r = None \<and> LookUp old r \<noteq> None \<and>
     (\<exists>d. LookUp new (butlast r) = Some d \<and> isDir (p @ butlast r) d)"

definition diff_at :: "IDMappings \<Rightarrow> IDMappings \<Rightarrow> FileInfo \<Rightarrow> FileInfo \<Rightarrow> path \<Rightarrow> bool" where
  "diff_at m om new old r \<longleftrightarrow>
     r \<noteq> [] \<and> (\<exists>a b. LookUp new r = Some a \<and> LookUp old r = Some b \<and> different m om a b)"

definition touched :: "path \<Rightarrow> IDMappings \<Rightarrow> IDMappings \<Rightarrow> FileInfo \<Rightarrow> FileInfo \<Rightarrow> path \<Rightarrow> bool" where
  "touched p m om new old r \<longleftrightarrow> add_at new old r \<or> del_at p new old r \<or> diff_at m om new old r"

definition dir_touched :: "path \<Rightarrow> IDMappings \<Rightarrow> IDMappings \<Rightarrow> FileInfo \<Rightarrow> FileInfo \<Rightarrow> path \<Rightarrow> bool" where
  "dir_touched p m om new old r \<longleftrightarrow>
     p @ r \<noteq> [] \<and> (\<exists>a b. LookUp new r = Some a \<and> LookUp old r = Some b \<and> isDir (p @ r) a) \<and>
     (\<exists>r'. r' \<noteq> [] \<and> touched p m om new old (r @ r'))"

fun reported :: "path \<Rightarrow> bool \<Rightarrow> IDMappings \<Rightarrow> IDMappings \<Rightarrow> FileInfo \<Rightarrow> FileInfo \<Rightarrow> path \<Rightarrow> ChangeType \<Rightarrow> bool" where
  "reported p added m om new old r ChangeAdd = add_at new old r"
| "reported p added m om new old r ChangeDelete = del_at p new old r"
| "reported p added m om new old r ChangeModify =
     (diff_at m om new old r \<or> dir_touched p m om new old r \<and> (r = [] \<longrightarrow> \<not> added))"

section \<open>The loops\<close>


text \<open>What the loop over the children contributes for one child.\<close>

definition child_changes :: "path \<Rightarrow> FileInfo \<Rightarrow> FileInfo option \<Rightarrow> (string \<times> FileInfo) list \<Rightarrow> string \<Rightarrow> FileInfo \<Rightarrow> Change set" where
  "child_changes p info old olds n c =
     (case map_of olds n of
        None \<Rightarrow> set (addChanges (p @ [n]) False c None)
      | Some b \<Rightarrow> {x. node_different info old c b \<and> x = change (p @ [n]) ChangeModify}
                 \<union> set (addChanges (p @ [n]) (node_different info old c b) c (Some b)))"

lemma child_changes_cong:
  "map_of olds n = map_of olds' n \<Longrightarrow> child_changes p info old olds n c = child_changes p info old olds' n c"
  by (simp add: child_changes_def)

lemma addChildren_left:
  "set (snd (addChildren p info old olds cs)) = {(n, b). (n, b) \<in> set olds \<and> n \<notin> fst ` set cs}"
proof (induction cs arbitrary: olds)
  case (Cons nc cs)
  obtain n c where nc: "nc = (n, c)" by (cases nc)
  show ?case
  proof (cases "map_of olds n")
    case None
    then have "(n, b) \<notin> set olds" for b by (force simp: map_of_eq_None_iff)
    then show ?thesis using Cons.IH [of olds] None
      by (auto simp: nc case_prod_unfold Let_def)
  next
    case (Some b)
    then show ?thesis using Cons.IH [of "AList.delete n olds"]
      by (auto simp: nc case_prod_unfold Let_def AList.delete_eq)
  qed
qed simp

lemma set_addChildren:
  assumes "distinct (map fst cs)"
  shows "set (fst (addChildren p info old olds cs)) = (\<Union>(n, c) \<in> set cs. child_changes p info old olds n c)"
using assms proof (induction cs arbitrary: olds)
  case (Cons nc cs)
  obtain n c where nc: "nc = (n, c)" by (cases nc)
  show ?case
  proof (cases "map_of olds n")
    case None
    then show ?thesis using Cons by (simp add: nc case_prod_unfold Let_def child_changes_def)
  next
    case (Some b)
    have "child_changes p info old (AList.delete n olds) k x = child_changes p info old olds k x"
      if "(k, x) \<in> set cs" for k x
      by (rule child_changes_cong) (use that Cons.prems in \<open>auto simp: nc delete_conv fun_upd_def rev_image_eqI\<close>)
    then have "(\<Union>(k, x) \<in> set cs. child_changes p info old (AList.delete n olds) k x)
        = (\<Union>(k, x) \<in> set cs. child_changes p info old olds k x)" by auto
    moreover have "set (fst (addChildren p info old olds (nc # cs))) =
        child_changes p info old olds n c \<union> set (fst (addChildren p info old (AList.delete n olds) cs))"
      using Some by (auto simp: nc case_prod_unfold Let_def child_changes_def)
    ultimately show ?thesis using Cons by (simp add: nc)
  qed
qed simp

definition old_children :: "path \<Rightarrow> FileInfo \<Rightarrow> FileInfo option \<Rightarrow> (string \<times> FileInfo) list" where
  "old_children p info old = (case old of None \<Rightarrow> [] | Some b \<Rightarrow> if isDir p info then fi_children b else [])"

definition inner_changes :: "path \<Rightarrow> FileInfo \<Rightarrow> FileInfo option \<Rightarrow> Change set" where
  "inner_changes p info old =
     {x. old = None \<and> x = change p ChangeAdd}
     \<union> (\<Union>(n, c) \<in> set (fi_children info). child_changes p info old (old_children p info old) n c)
     \<union> {x. \<exists>n \<in> fst ` set (old_children p info old). n \<notin> fst ` set (fi_children info) \<and> x = change (p @ [n]) ChangeDelete}"

declare addChanges.simps [simp del]

lemma set_addChanges_rec:
  assumes "distinct (map fst (fi_children info))"
  shows "set (addChanges p added info old) =
     inner_changes p info old \<union>
     {x. inner_changes p info old \<noteq> {} \<and> isDir p info \<and> \<not> added \<and> old \<noteq> None \<and> p \<noteq> [] \<and> x = change p ChangeModify}"
proof (cases info)
  case (FileInfo im st cs cap xs)
  let ?r = "addChildren p info old (old_children p info old) cs"
  let ?changes = "(if old = None then [change p ChangeAdd] else []) @ fst ?r @ map (\<lambda>(n, _). change (p @ [n]) ChangeDelete) (snd ?r)"
  have e: "addChanges p added info old =
      (if ?changes \<noteq> [] \<and> isDir p info \<and> \<not> (added \<or> old = None) \<and> p \<noteq> [] then change p ChangeModify # ?changes else ?changes)"
    unfolding FileInfo addChanges.simps Let_def old_children_def by (simp add: case_prod_unfold Let_def)
  have i: "set ?changes = inner_changes p info old"
    using assms(1) unfolding inner_changes_def FileInfo
    by (auto simp: addChildren_left set_addChildren image_iff Bex_def)
  then have "?changes \<noteq> [] \<longleftrightarrow> inner_changes p info old \<noteq> {}" by (metis set_empty)
  then show ?thesis unfolding e using i by auto
qed

section \<open>The report, one name further down\<close>

lemma add_at_Cons:
  "add_at new old (n # r) \<longleftrightarrow>
     (case (map_of (fi_children new) n, map_of (fi_children old) n) of
        (Some c, Some b) \<Rightarrow> add_at c b r
      | (Some c, None) \<Rightarrow> LookUp c r \<noteq> None
      | _ \<Rightarrow> False)"
  by (auto simp: add_at_def split: option.splits)

lemma del_at_Cons:
  "del_at p new old (n # r) \<longleftrightarrow>
     (case (map_of (fi_children new) n, map_of (fi_children old) n) of
        (Some c, Some b) \<Rightarrow> del_at (p @ [n]) c b r
      | (None, Some b) \<Rightarrow> r = [] \<and> isDir p new
      | _ \<Rightarrow> False)"
  by (auto simp: del_at_def split: option.splits)

lemma diff_at_Cons:
  "diff_at m om new old (n # r) \<longleftrightarrow>
     (case (map_of (fi_children new) n, map_of (fi_children old) n) of
        (Some c, Some b) \<Rightarrow> r = [] \<and> different m om c b \<or> diff_at m om c b r
      | _ \<Rightarrow> False)"
  by (auto simp: diff_at_def split: option.splits)

lemma touched_Cons:
  "touched p m om new old (n # r) \<longleftrightarrow>
     (case (map_of (fi_children new) n, map_of (fi_children old) n) of
        (Some c, Some b) \<Rightarrow> r = [] \<and> different m om c b \<or> touched (p @ [n]) m om c b r
      | (Some c, None) \<Rightarrow> LookUp c r \<noteq> None
      | (None, Some b) \<Rightarrow> r = [] \<and> isDir p new
      | _ \<Rightarrow> False)"
  by (auto simp: touched_def add_at_Cons del_at_Cons diff_at_Cons split: option.splits)

lemma dir_touched_Cons:
  "dir_touched p m om new old (n # r) \<longleftrightarrow>
     (case (map_of (fi_children new) n, map_of (fi_children old) n) of
        (Some c, Some b) \<Rightarrow> dir_touched (p @ [n]) m om c b r
      | _ \<Rightarrow> False)"
  by (auto simp: dir_touched_def touched_Cons split: option.splits)

lemma reported_Nil:
  "reported p added m om new old [] k \<longleftrightarrow>
     k = ChangeModify \<and> \<not> added \<and> p \<noteq> [] \<and> isDir p new \<and> (\<exists>n r. touched p m om new old (n # r))"
  by (cases k) (auto simp: add_at_def del_at_def diff_at_def dir_touched_def neq_Nil_conv)

lemma reported_Cons:
  "reported p added m om new old (n # r) k \<longleftrightarrow>
     (case (map_of (fi_children new) n, map_of (fi_children old) n) of
        (Some c, Some b) \<Rightarrow>
          r = [] \<and> k = ChangeModify \<and> different m om c b \<or> reported (p @ [n]) (different m om c b) m om c b r k
      | (Some c, None) \<Rightarrow> k = ChangeAdd \<and> LookUp c r \<noteq> None
      | (None, Some b) \<Rightarrow> k = ChangeDelete \<and> r = [] \<and> isDir p new
      | _ \<Rightarrow> False)"
  by (cases k) (auto simp: add_at_Cons del_at_Cons diff_at_Cons dir_touched_Cons split: option.splits)

lemma reported_touched: "reported p added m om new old (n # r) k \<Longrightarrow> \<exists>n r. touched p m om new old (n # r)"
  by (cases k) (auto simp: touched_def dir_touched_def neq_Nil_conv)

lemma touched_reported:
  "touched p m om new old (n # r) \<Longrightarrow> \<exists>k. reported p added m om new old (n # r) k"
  by (metis reported.simps touched_def)

declare reported.simps [simp del]

section \<open>The report of addChanges\<close>

lemma set_addChanges_None:
  "tidy_below m info \<Longrightarrow> set (addChanges p added info None) = {change (p @ r) ChangeAdd | r. LookUp info r \<noteq> None}"
proof (induction info arbitrary: p added rule: FileInfo_induct)
  case (FileInfo im st cs cap xs)
  let ?info = "FileInfo im st cs cap xs"
  have d: "distinct (map fst cs)" using FileInfo.prems by simp
  have c: "child_changes p ?info None [] n c = {change (p @ n # r) ChangeAdd | r. LookUp c r \<noteq> None}"
    if "(n, c) \<in> set cs" for n c
    using FileInfo.IH [OF that, of "p @ [n]" False] FileInfo.prems that by (auto simp: child_changes_def)
  have s: "set (addChanges p added ?info None) =
      {change p ChangeAdd} \<union> (\<Union>(n, c) \<in> set cs. {change (p @ n # r) ChangeAdd | r. LookUp c r \<noteq> None})"
  proof -
    have "set (addChanges p added ?info None) = {change p ChangeAdd} \<union> (\<Union>(n, c) \<in> set cs. child_changes p ?info None [] n c)"
      using set_addChanges_rec [of ?info p added None] d by (auto simp: inner_changes_def old_children_def)
    also have "(\<Union>(n, c) \<in> set cs. child_changes p ?info None [] n c) =
        (\<Union>(n, c) \<in> set cs. {change (p @ n # r) ChangeAdd | r. LookUp c r \<noteq> None})"
      by (rule SUP_cong [OF refl]) (clarsimp simp: c)
    finally show ?thesis .
  qed
  have l: "LookUp ?info r \<noteq> None \<longleftrightarrow> r = [] \<or> (\<exists>n r' c. r = n # r' \<and> (n, c) \<in> set cs \<and> LookUp c r' \<noteq> None)" for r
    by (cases r) (auto split: option.splits simp flip: map_of_eq_Some_iff [OF d])
  show ?case unfolding s l by auto (metis append_Nil2)
qed

lemma set_addChanges:
  assumes "tidy_below m info" "tidy_below om old" "isDir p info \<or> fi_children info = []"
  shows "set (addChanges p added info (Some old)) = {change (p @ r) k | r k. reported p added m om info old r k}"
using assms proof (induction info arbitrary: p added old rule: FileInfo_induct)
  case (FileInfo im st cs cap xs)
  let ?info = "FileInfo im st cs cap xs"
  have d: "distinct (map fst cs)" and im: "im = m" using FileInfo.prems by simp_all
  let ?olds = "old_children p ?info (Some old)"
  have nd: "node_different ?info (Some old) c b = different m om c b" for c b
    using tidy_below_maps [OF FileInfo.prems(2)] by (simp add: node_different_def different_def im)
  have child: "child_changes p ?info (Some old) ?olds n c =
      {change (p @ n # r) k | r k. reported p added m om ?info old (n # r) k}" if nc: "(n, c) \<in> set cs" for n c
  proof -
    have dir: "isDir p ?info" and olds: "?olds = fi_children old" using FileInfo.prems(3) nc by (auto simp: old_children_def)
    have mc: "map_of cs n = Some c" using d nc by simp
    have tc: "tidy_below m c" "isDir (p @ [n]) c \<or> fi_children c = []"
      using FileInfo.prems(1) nc by (auto simp: isDir_def)
    show ?thesis
    proof (cases "map_of (fi_children old) n")
      case None
      then show ?thesis using set_addChanges_None [OF tc(1), of "p @ [n]" False] mc
        by (auto simp: child_changes_def olds reported_Cons)
    next
      case (Some b)
      have "tidy_below om b" using tidy_below_child(1) [OF FileInfo.prems(2) Some] .
      from FileInfo.IH [OF nc tc(1) this tc(2), of "different m om c b"] show ?thesis
        using Some mc by (auto simp: child_changes_def olds reported_Cons nd)
    qed
  qed
  have inner: "inner_changes p ?info (Some old) = {change (p @ n # r) k | n r k. reported p added m om ?info old (n # r) k}"
    (is "_ = ?R")
  proof -
    have "x \<in> inner_changes p ?info (Some old)" if x: "x \<in> ?R" for x
    proof -
      obtain n r k where x: "x = change (p @ n # r) k" "reported p added m om ?info old (n # r) k" using x by blast
      show ?thesis
      proof (cases "map_of cs n")
        case None
        then have n: "n \<notin> fst ` set cs" by (simp add: map_of_eq_None_iff)
        from None x(2) obtain b where "k = ChangeDelete" "r = []" "isDir p ?info" "map_of (fi_children old) n = Some b"
          by (auto simp: reported_Cons split: option.splits)
        then have "n \<in> fst ` set ?olds" by (force simp: old_children_def dest: map_of_SomeD)
        then show ?thesis using n x(1) \<open>k = ChangeDelete\<close> \<open>r = []\<close> unfolding inner_changes_def by auto
      next
        case (Some c)
        then have nc: "(n, c) \<in> set cs" by (rule map_of_SomeD)
        then have "x \<in> child_changes p ?info (Some old) ?olds n c" unfolding child [OF nc] using x by blast
        then show ?thesis using nc by (auto simp: inner_changes_def)
      qed
    qed
    moreover have "x \<in> ?R" if "x \<in> inner_changes p ?info (Some old)" for x
    proof -
      from that consider n c where "(n, c) \<in> set cs" "x \<in> child_changes p ?info (Some old) ?olds n c"
        | n where "n \<in> fst ` set ?olds" "n \<notin> fst ` set cs" "x = change (p @ [n]) ChangeDelete"
        by (auto simp: inner_changes_def)
      then show ?thesis
      proof cases
        case 1 then show ?thesis using child by blast
      next
        case 2
        then have "isDir p ?info" "map_of (fi_children old) n \<noteq> None" "map_of cs n = None"
          by (auto simp: old_children_def map_of_eq_None_iff split: if_splits)
        then have "reported p added m om ?info old [n] ChangeDelete" by (auto simp: reported_Cons)
        then show ?thesis using 2(3) by blast
      qed
    qed
    ultimately show ?thesis by blast
  qed
  have ne: "inner_changes p ?info (Some old) \<noteq> {} \<longleftrightarrow> (\<exists>n r. touched p m om ?info old (n # r))"
  proof
    assume "inner_changes p ?info (Some old) \<noteq> {}"
    then obtain n r k where "reported p added m om ?info old (n # r) k" unfolding inner by blast
    then show "\<exists>n r. touched p m om ?info old (n # r)" by (rule reported_touched)
  next
    assume "\<exists>n r. touched p m om ?info old (n # r)"
    then obtain n r k where "reported p added m om ?info old (n # r) k" using touched_reported by blast
    then show "inner_changes p ?info (Some old) \<noteq> {}" unfolding inner by blast
  qed
  have s: "set (addChanges p added ?info (Some old)) = inner_changes p ?info (Some old) \<union>
      {x. reported p added m om ?info old [] ChangeModify \<and> x = change p ChangeModify}"
    using set_addChanges_rec [of ?info p added "Some old"] d ne by (auto simp: reported_Nil)
  have cons: "(\<exists>r. P r) \<longleftrightarrow> P [] \<or> (\<exists>n r. P (n # r))" for P :: "path \<Rightarrow> bool"
    by (metis list.exhaust)
  have "{change (p @ r) k | r k. reported p added m om ?info old r k} =
      ?R \<union> {x. reported p added m om ?info old [] ChangeModify \<and> x = change p ChangeModify}"
    unfolding set_eq_iff mem_Collect_eq Un_iff using reported_Nil [of p added m om ?info old]
    by (subst cons) auto
  then show ?case unfolding s inner by auto
qed

end
