(* ===== verification/ArchiveWalk.thy ===== *)
theory ArchiveWalk
  imports ArchiveChangesTree
begin

text \<open>
  The walk over two directories.  \<open>scan\<close> reads a directory completely; the walk of the code leaves
  out what the two directories share.  \<open>view\<close> abstracts a tree to a map from paths to file data, and
  the walk is a sequence of updates of that map (\<open>walk_view\<close>): it sees every file that is not
  pruned.  If inode numbers identify files, pruned files are the same file in both directories, and
  the comparison reports the same changes as for the complete trees.
\<close>

section \<open>Views of a tree\<close>

type_synonym fdata = "StatT \<times> bytes \<times> (string \<times> bytes) list"

definition fdata :: "FileInfo \<Rightarrow> fdata" where
  "fdata info = (fi_stat info, fi_capability info, fi_xattrs info)"

definition view :: "FileInfo \<Rightarrow> path \<Rightarrow> fdata option" where
  "view info p = map_option fdata (LookUp info p)"

lemma view_Nil [simp]: "view info [] = Some (fdata info)"
  by (simp add: view_def)

lemma view_Cons: "view info (e # es) = (case map_of (fi_children info) e of None \<Rightarrow> None | Some c \<Rightarrow> view c es)"
  by (simp add: view_def split: option.splits)

lemma view_None_iff: "view info p = None \<longleftrightarrow> LookUp info p = None"
  by (simp add: view_def)

lemma LookUp_append:
  "LookUp info (p @ q) = (case LookUp info p of None \<Rightarrow> None | Some d \<Rightarrow> LookUp d q)"
  by (induction info p rule: LookUp.induct) (auto split: option.splits)

lemma different_cong:
  "fdata a = fdata a' \<Longrightarrow> fdata b = fdata b' \<Longrightarrow> different m om a b = different m om a' b'"
  by (simp add: fdata_def different_def)

lemma isDir_cong: "fdata a = fdata a' \<Longrightarrow> isDir p a = isDir p a'"
  by (simp add: fdata_def isDir_def)

lemma different_irrefl: "\<not> different m m a a"
  by (auto simp: different_def statDifferent_def same_map_def sameFsTimeSpec_def Let_def split: sum.splits)

lemma put_child_keeps [simp]:
  "fi_idMappings (put_child p n info r) = fi_idMappings r" "fdata (put_child p n info r) = fdata r"
  by (cases r; cases p; simp add: fdata_def)+

lemma view_put_child:
  "LookUp r p \<noteq> None \<Longrightarrow>
   view (put_child p n info r) q = (if prefix (p @ [n]) q then view info (drop (Suc (length p)) q) else view r q)"
proof (induction p arbitrary: r q)
  case Nil
  obtain im st cs cap xs where r: "r = FileInfo im st cs cap xs" by (cases r)
  show ?case by (cases q) (auto simp: r view_Cons update_conv' fdata_def)
next
  case (Cons e es)
  obtain im st cs cap xs where r: "r = FileInfo im st cs cap xs" by (cases r)
  obtain c where c: "map_of cs e = Some c" "LookUp c es \<noteq> None" using Cons.prems by (auto simp: r split: option.splits)
  show ?case using Cons.IH [OF c(2)] c(1) by (cases q) (auto simp: r view_Cons update_conv' fdata_def)
qed

lemma alist_update_mem: "x \<in> set (AList.update k v al) \<Longrightarrow> x = (k, v) \<or> x \<in> set al"
  by (induction al) (auto split: if_splits)

lemma tidy_put_child:
  assumes "tidy_below m r" "LookUp r p = Some d" "isDir p d" "tidy_below m info" "fi_children info = []"
  shows "tidy_below m (put_child p n info r)"
using assms proof (induction p arbitrary: r)
  case Nil
  then show ?case
    by (cases r) (auto simp: distinct_update dest!: alist_update_mem)
next
  case (Cons e es)
  obtain im st cs cap xs where r: "r = FileInfo im st cs cap xs" by (cases r)
  obtain c where c: "map_of cs e = Some c" "LookUp c es = Some d" using Cons.prems(2) by (auto simp: r split: option.splits)
  have t: "tidy_below m c" using Cons.prems(1) map_of_SomeD [OF c(1)] by (auto simp: r)
  have "sT_mode (fi_stat d) AND S_IFDIR \<noteq> 0" using Cons.prems(3) by (simp add: isDir_def)
  then have "sT_mode (fi_stat c) AND S_IFDIR \<noteq> 0"
    using Cons.prems(1) map_of_SomeD [OF c(1)] c(2) by (cases es) (auto simp: r split: option.splits)
  moreover have "fi_stat (put_child es n info c) = fi_stat c" by (metis fdata_def fst_conv put_child_keeps(2))
  moreover have "isDir es d" using Cons.prems(3) by (simp add: isDir_def)
  ultimately show ?case
    using Cons.prems(1) Cons.IH [OF t c(2) _ Cons.prems(4,5)] c(1)
    by (auto simp: r distinct_update dest!: alist_update_mem)
qed

section \<open>Reading a directory completely\<close>

fun scan :: "IDMappings \<Rightarrow> Node \<Rightarrow> FileInfo" where
  "scan m (Node ls gx lx op rd fls) =
     (case ls of
        Inl _ \<Rightarrow> newRootFileInfo m
      | Inr st \<Rightarrow>
          (case file_info m st (Node ls gx lx op rd fls) of
             Inl _ \<Rightarrow> newRootFileInfo m
           | Inr info \<Rightarrow> FileInfo m (fi_stat info) (map (\<lambda>(n, c). (n, scan m c)) fls) (fi_capability info) (fi_xattrs info)))"

text \<open>
  A directory that can be read without errors and that nobody changes meanwhile: all calls
  succeed, and the listing of each directory gives each of its files once.
\<close>

definition is_name :: "string \<Rightarrow> bool" where
  "is_name n \<longleftrightarrow> n \<noteq> [] \<and> CHR ''/'' \<notin> set n"

definition listing_ok :: "Stat_t \<Rightarrow> Node \<Rightarrow> bool" where
  "listing_ok st n \<longleftrightarrow>
     (if IsDir st then
        (case readdirnames n of
           Inl _ \<Rightarrow> False
         | Inr names \<Rightarrow> distinct (map ni_name names) \<and> set (map ni_name names) = fst ` set (nd_files n))
      else nd_files n = [])"

definition attrs_ok :: "Stat_t \<Rightarrow> Node \<Rightarrow> bool" where
  "attrs_ok st n \<longleftrightarrow> (case file_info \<lparr>uids = None, gids = None\<rparr> st n of Inl _ \<Rightarrow> False | Inr _ \<Rightarrow> True)"

fun readable :: "Node \<Rightarrow> bool" where
  "readable (Node ls gx lx op rd fls) \<longleftrightarrow>
     (case ls of
        Inl _ \<Rightarrow> False
      | Inr st \<Rightarrow> attrs_ok st (Node ls gx lx op rd fls) \<and> listing_ok st (Node ls gx lx op rd fls))
     \<and> distinct (map fst fls) \<and> (\<forall>(n, c) \<in> set fls. is_name n \<and> readable c)"

text \<open>
  Inode numbers identify files: \<open>tab\<close> gives, for a device and an inode number listed in a directory
  of that device, the file.
\<close>

definition inodes_ok :: "(nat \<Rightarrow> nat \<Rightarrow> Node) \<Rightarrow> Stat_t \<Rightarrow> Node \<Rightarrow> bool" where
  "inodes_ok tab st n \<longleftrightarrow>
     (case readdirnames n of
        Inl _ \<Rightarrow> True
      | Inr names \<Rightarrow> (\<forall>ni \<in> set names. map_of (nd_files n) (ni_name ni) = Some (tab (sys_Dev st) (ni_ino ni))))"

fun inodes_identify :: "(nat \<Rightarrow> nat \<Rightarrow> Node) \<Rightarrow> Node \<Rightarrow> bool" where
  "inodes_identify tab (Node ls gx lx op rd fls) \<longleftrightarrow>
     (case ls of Inl _ \<Rightarrow> True | Inr st \<Rightarrow> IsDir st \<longrightarrow> inodes_ok tab st (Node ls gx lx op rd fls))
     \<and> (\<forall>(n, c) \<in> set fls. inodes_identify tab c)"

lemma file_info_maps:
  "file_info m st n = Inr info \<longleftrightarrow>
     (\<exists>i. file_info m' st n = Inr i \<and> info = FileInfo m (fi_stat i) [] (fi_capability i) (fi_xattrs i))"
  by (auto simp: file_info_def file_info_xattrs_def FromStatT_def split: sum.splits if_splits)

text \<open>What \<open>readable\<close> gives at a node, in the form the walk needs.\<close>

lemma readable_node:
  assumes "readable n"
  obtains st info where "nd_lstat n = Inr st" "file_info m st n = Inr info" "fi_children info = []"
    "fi_idMappings info = m" "sT_mode (fi_stat info) = sys_Mode st" "listing_ok st n" "distinct (map fst (nd_files n))"
    "scan m n = FileInfo m (fi_stat info) (map (\<lambda>(n, c). (n, scan m c)) (nd_files n)) (fi_capability info) (fi_xattrs info)"
proof -
  obtain ls gx lx op rd fls where n: "n = Node ls gx lx op rd fls" by (cases n)
  obtain st where st: "ls = Inr st" "attrs_ok st n" "listing_ok st n" "distinct (map fst fls)"
    using assms by (auto simp: n split: sum.splits)
  obtain i where "file_info \<lparr>uids = None, gids = None\<rparr> st n = Inr i" using st(2) by (auto simp: attrs_ok_def split: sum.splits)
  then obtain info where info: "file_info m st n = Inr info"
    using file_info_maps [of m st n] by blast
  then have "fi_children info = []" "fi_idMappings info = m" "sT_mode (fi_stat info) = sys_Mode st"
    by (auto simp: file_info_def file_info_xattrs_def FromStatT_def split: sum.splits if_splits)
  with st info show thesis by (intro that [of st info]) (auto simp: n)
qed

lemma readable_child: "readable n \<Longrightarrow> map_of (nd_files n) e = Some c \<Longrightarrow> readable c \<and> is_name e"
  by (cases n) (auto dest!: map_of_SomeD)

lemma inodes_child: "inodes_identify tab n \<Longrightarrow> map_of (nd_files n) e = Some c \<Longrightarrow> inodes_identify tab c"
  by (cases n) (auto dest!: map_of_SomeD)

lemma map_of_scan: "map_of (map (\<lambda>(n, c). (n, scan m c)) fls) e = map_option (scan m) (map_of fls e)"
  by (induction fls) auto

lemma scan_children:
  assumes "readable n"
  shows "map_of (fi_children (scan m n)) e = map_option (scan m) (map_of (nd_files n) e)"
  by (rule readable_node [OF assms, of m]) (simp add: map_of_scan)

lemma scan_mode:
  assumes "readable n" "nd_lstat n = Inr st"
  shows "sT_mode (fi_stat (scan m n)) = sys_Mode st"
  by (rule readable_node [OF assms(1), of m]) (use assms(2) in simp)

lemma LookUp_scan: "readable n \<Longrightarrow> LookUp (scan m n) p = map_option (scan m) (file_at n p)"
  by (induction p arbitrary: n) (auto simp: scan_children split: option.splits dest: readable_child)

lemma IsDir_bit: "IsDir st \<Longrightarrow> sys_Mode st AND S_IFDIR \<noteq> 0"
proof -
  assume "IsDir st"
  then have m: "sys_Mode st AND S_IFMT = S_IFDIR" by (simp add: IsDir_def)
  have "S_IFDIR = S_IFMT AND S_IFDIR" by (simp add: S_IFMT_def S_IFDIR_def)
  then have "sys_Mode st AND S_IFDIR = (sys_Mode st AND S_IFMT) AND S_IFDIR" by (metis and.assoc)
  also have "\<dots> = S_IFDIR" by (simp add: m)
  finally show ?thesis by (simp add: S_IFDIR_def)
qed

lemma tidy_scan: "readable n \<Longrightarrow> tidy_below m (scan m n)"
proof (induction n rule: measure_induct_rule [of size])
  case (less n)
  obtain st info where i: "nd_lstat n = Inr st" "listing_ok st n" "distinct (map fst (nd_files n))"
    "scan m n = FileInfo m (fi_stat info) (map (\<lambda>(n, c). (n, scan m c)) (nd_files n)) (fi_capability info) (fi_xattrs info)"
    using readable_node [OF less.prems, of m] by metis
  have c: "tidy_below m (scan m c) \<and> (fi_children (scan m c) = [] \<or> sT_mode (fi_stat (scan m c)) AND S_IFDIR \<noteq> 0)"
    if e: "(e, c) \<in> set (nd_files n)" for e c
  proof -
    have mc: "map_of (nd_files n) e = Some c" using e i(3) by simp
    have r: "readable c" using readable_child [OF less.prems mc] ..
    have "size c < size n" using size_map_of_files [OF mc] by (cases n) simp
    then have t: "tidy_below m (scan m c)" using less.IH r by blast
    obtain st' info' where j: "nd_lstat c = Inr st'" "listing_ok st' c" "sT_mode (fi_stat info') = sys_Mode st'"
      "scan m c = FileInfo m (fi_stat info') (map (\<lambda>(n, c). (n, scan m c)) (nd_files c)) (fi_capability info') (fi_xattrs info')"
      using readable_node [OF r, of m] by metis
    then have "fi_children (scan m c) = [] \<or> IsDir st'" by (auto simp: listing_ok_def split: if_splits)
    then show ?thesis using t IsDir_bit j by auto
  qed
  show ?case unfolding i(4) using i(3) by (auto simp: comp_def case_prod_unfold; use c in blast)
qed

section \<open>The merged listing\<close>

definition strictly :: "nameIno list \<Rightarrow> bool" where
  "strictly xs \<longleftrightarrow> sorted_wrt (\<lambda>a b. ni_name a < ni_name b) xs"

lemma strictly_sort: "distinct (map ni_name xs) \<Longrightarrow> strictly (sort_key ni_name xs)"
proof -
  assume d: "distinct (map ni_name xs)"
  have "distinct (map ni_name (sort_key ni_name xs))"
    using d by (metis distinct_map distinct_sort set_sort)
  moreover have "sorted (map ni_name (sort_key ni_name xs))" by (rule sorted_sort_key)
  ultimately have "sorted_wrt (<) (map ni_name (sort_key ni_name xs))" by (simp add: strict_sorted_iff)
  then show ?thesis by (simp add: strictly_def sorted_wrt_map)
qed

lemma strictly_Cons: "strictly (x # xs) \<longleftrightarrow> strictly xs \<and> (\<forall>a \<in> set xs. ni_name x < ni_name a)"
  by (auto simp: strictly_def)

text \<open>The names that the merge leaves out.\<close>

definition shared :: "bool \<Rightarrow> nameIno list \<Rightarrow> nameIno list \<Rightarrow> string \<Rightarrow> bool" where
  "shared sd xs ys n \<longleftrightarrow> sd \<and> (\<exists>a \<in> set xs. \<exists>b \<in> set ys. ni_name a = n \<and> ni_name b = n \<and> ni_ino a = ni_ino b)"

lemma set_merge_names:
  assumes "strictly xs" "strictly ys"
  shows "set (merge_names sd xs ys) = {n \<in> ni_name ` (set xs \<union> set ys). \<not> shared sd xs ys n}"
using assms proof (induction sd xs ys rule: merge_names.induct)
  case (3 sd x xs y ys)
  note st = 3(4,5)[unfolded strictly_Cons]
  consider "ni_name x < ni_name y" | "ni_name x = ni_name y" | "ni_name y < ni_name x" by (rule linorder_cases)
  then show ?case
  proof cases
    case 1
    then have "\<forall>b \<in> set (y # ys). ni_name b \<noteq> ni_name x" using st by (auto dest: less_trans)
    then have "shared sd (x # xs) (y # ys) n \<longleftrightarrow> shared sd xs (y # ys) n" "\<not> shared sd (x # xs) (y # ys) (ni_name x)" for n
      by (auto simp: shared_def)
    then show ?thesis using 1 3 st by (auto simp: strictly_Cons)
  next
    case 2
    have nx: "ni_name b \<noteq> ni_name x" if "b \<in> set xs \<union> set ys" for b using st that 2 by auto
    have "shared sd (x # xs) (y # ys) n \<longleftrightarrow> (if n = ni_name x then sd \<and> ni_ino x = ni_ino y else shared sd xs ys n)" for n
      using nx 2 by (auto simp: shared_def)
    then show ?thesis using 2 3 st nx by (auto simp: image_iff)
  next
    case 3
    then have "\<forall>b \<in> set (x # xs). ni_name b \<noteq> ni_name y" using st by (auto dest: less_trans)
    then have "shared sd (x # xs) (y # ys) n \<longleftrightarrow> shared sd (x # xs) ys n" "\<not> shared sd (x # xs) (y # ys) (ni_name y)" for n
      by (auto simp: shared_def)
    then show ?thesis using 3 "3.IH"(3) "3.prems" st by (auto simp: strictly_Cons)
  qed
qed (auto simp: shared_def)

lemma distinct_merge_names:
  assumes "strictly xs" "strictly ys"
  shows "distinct (merge_names sd xs ys)"
using assms proof (induction sd xs ys rule: merge_names.induct)
  case (1 sd ys)
  then show ?case by (induction ys) (auto simp: strictly_Cons)
next
  case (2 sd x xs)
  then show ?case by (induction xs) (auto simp: strictly_Cons)
next
  case (3 sd x xs y ys)
  note st = 3(4,5)[unfolded strictly_Cons]
  have s: "n \<notin> set (merge_names sd as bs)" if "strictly as" "strictly bs" "\<And>a. a \<in> set as \<union> set bs \<Longrightarrow> n < ni_name a" for as bs n
    using set_merge_names [OF that(1,2), of sd] that(3) by force
  consider "ni_name x < ni_name y" | "ni_name x = ni_name y" | "ni_name y < ni_name x" by (rule linorder_cases)
  then show ?case
  proof cases
    case 1
    then have "ni_name x \<notin> set (merge_names sd xs (y # ys))" using st by (intro s) (auto simp: strictly_Cons dest: less_trans)
    then show ?thesis using 1 3 st by (auto simp: strictly_Cons)
  next
    case 2
    then have "ni_name x \<notin> set (merge_names sd xs ys)" using st by (intro s) auto
    then show ?thesis using 2 3 st by auto
  next
    case 3
    then have "ni_name y \<notin> set (merge_names sd (x # xs) ys)" using st by (intro s) (auto simp: strictly_Cons dest: less_trans)
    then show ?thesis using 3 "3.IH"(3) "3.prems" st by (auto simp: strictly_Cons)
  qed
qed

section \<open>What the walk sees\<close>

definition good :: "os_file \<Rightarrow> bool" where
  "good f \<longleftrightarrow> (case f of None \<Rightarrow> True | Some (st, n) \<Rightarrow> readable n \<and> nd_lstat n = Inr st)"

definition child_file :: "os_file \<Rightarrow> string \<Rightarrow> os_file" where
  "child_file f e = (case lstat_in f e of Inl _ \<Rightarrow> None | Inr c \<Rightarrow> c)"

definition listing :: "os_file \<Rightarrow> nameIno list" where
  "listing f = (case names_in f of Inl _ \<Rightarrow> [] | Inr names \<Rightarrow> names)"

definition dview :: "IDMappings \<Rightarrow> os_file \<Rightarrow> path \<Rightarrow> fdata option" where
  "dview m f s = (case f of None \<Rightarrow> None | Some (st, n) \<Rightarrow> view (scan m n) s)"

fun pruned :: "os_file \<Rightarrow> os_file \<Rightarrow> path \<Rightarrow> bool" where
  "pruned f g [] = False"
| "pruned f g (e # s) =
     (shared (same_device f g) (listing f) (listing g) e \<or> pruned (child_file f e) (child_file g e) s)"

definition seen :: "IDMappings \<Rightarrow> os_file \<Rightarrow> os_file \<Rightarrow> path \<Rightarrow> fdata option" where
  "seen m f g s = (if pruned f g s then None else dview m f s)"

lemma shared_sym: "shared sd xs ys n \<longleftrightarrow> shared sd ys xs n"
  unfolding shared_def by metis

lemma same_device_sym: "same_device f g = same_device g f"
  by (auto simp: same_device_def split: option.splits)

lemma pruned_sym: "pruned f g s = pruned g f s"
proof (induction f g s rule: pruned.induct)
  case (2 f g e s)
  then show ?case using shared_sym [of "same_device f g" "listing f" "listing g" e] same_device_sym [of f g] by simp
qed simp

lemma good_child: "good f \<Longrightarrow> lstat_in f e = Inr (child_file f e) \<and> good (child_file f e)"
proof (cases f)
  case (Some sn)
  assume g: "good f"
  obtain st n where f: "f = Some (st, n)" using Some by (cases sn) simp
  show ?thesis
  proof (cases "IsDir st \<and> map_of (nd_files n) e \<noteq> None")
    case True
    then obtain c where c: "map_of (nd_files n) e = Some c" by auto
    then have "readable c" using g readable_child by (auto simp: good_def f)
    then obtain s where "nd_lstat c = Inr s" by (rule readable_node)
    with True c \<open>readable c\<close> show ?thesis by (simp add: child_file_def f lstat_in_def lstat_node_def good_def)
  qed (auto simp: child_file_def f lstat_in_def good_def)
qed (simp add: child_file_def lstat_in_def good_def)

lemma good_listing:
  assumes "good f"
  shows "names_in f = Inr (listing f)" "strictly (listing f)" "ni_name ` set (listing f) = {e. child_file f e \<noteq> None}"
proof -
  have "names_in f = Inr (listing f) \<and> strictly (listing f) \<and> ni_name ` set (listing f) = {e. child_file f e \<noteq> None}"
  proof (cases "is_dir_file f")
    case True
    then obtain st n where f: "f = Some (st, n)" "IsDir st" by (auto simp: is_dir_file_def split: option.splits)
    have r: "readable n" "nd_lstat n = Inr st" using assms by (auto simp: good_def f)
    have lo: "listing_ok st n" using r by (metis Inr_inject readable_node)
    then obtain names where n: "readdirnames n = Inr names" "distinct (map ni_name names)"
        "set (map ni_name names) = fst ` set (nd_files n)"
      using f by (auto simp: listing_ok_def split: sum.splits)
    then obtain xs where "names = sort_key ni_name xs" by (auto simp: readdirnames_def split: option.splits sum.splits)
    then have "strictly names" using n(2) by (metis distinct_map distinct_sort set_sort strictly_sort)
    moreover have "child_file f e \<noteq> None \<longleftrightarrow> map_of (nd_files n) e \<noteq> None" for e
    proof (cases "map_of (nd_files n) e")
      case (Some c)
      then obtain s where "nd_lstat c = Inr s" using r(1) readable_child readable_node by metis
      then show ?thesis using Some f by (simp add: child_file_def lstat_in_def lstat_node_def)
    qed (simp add: child_file_def f lstat_in_def)
    ultimately show ?thesis using f n by (auto simp: listing_def names_in_def map_of_eq_None_iff)
  next
    case False
    then show ?thesis
      by (auto simp: is_dir_file_def names_in_def listing_def child_file_def lstat_in_def strictly_def split: option.splits)
  qed
  then show "names_in f = Inr (listing f)" "strictly (listing f)" "ni_name ` set (listing f) = {e. child_file f e \<noteq> None}"
    by auto
qed

lemma child_file_dir: "child_file f e \<noteq> None \<Longrightarrow> is_dir_file f"
  by (auto simp: child_file_def lstat_in_def is_dir_file_def split: option.splits if_splits)

lemma dview_Cons:
  assumes "good f"
  shows "dview m f (e # s) = dview m (child_file f e) s"
proof (cases f)
  case (Some sn)
  obtain st n where f: "f = Some (st, n)" using Some by (cases sn) simp
  have r: "readable n" "nd_lstat n = Inr st" using assms by (auto simp: good_def f)
  have lo: "listing_ok st n" using r by (metis Inr_inject readable_node)
  show ?thesis
  proof (cases "map_of (nd_files n) e")
    case None
    then show ?thesis using r lo by (auto simp: f dview_def view_Cons scan_children child_file_def lstat_in_def)
  next
    case c: (Some c)
    then have "readable c" using readable_child [OF r(1)] by blast
    then obtain s' where "nd_lstat c = Inr s'" by (rule readable_node)
    moreover have "IsDir st" using lo c by (auto simp: listing_ok_def split: if_splits)
    ultimately show ?thesis using r c
      by (auto simp: f dview_def view_Cons scan_children child_file_def lstat_in_def lstat_node_def)
  qed
qed (simp add: dview_def child_file_def lstat_in_def)

section \<open>The steps of the walk as updates of the view\<close>

definition dir_at :: "FileInfo \<Rightarrow> path \<Rightarrow> bool" where
  "dir_at r p \<longleftrightarrow> (\<exists>d. LookUp r p = Some d \<and> isDir p d)"

lemma dir_at_view: "view r p = view r' p \<Longrightarrow> dir_at r p = dir_at r' p"
  by (cases "LookUp r p"; cases "LookUp r' p") (simp_all add: dir_at_def view_def isDir_def fdata_def)

lemma walkchunk_view:
  assumes "good f" "tidy_below m r" "p \<noteq> []" "f \<noteq> None \<Longrightarrow> dir_at r (butlast p)" "\<And>s. view r (p @ s) = None"
  obtains r' where "walkchunk p f r = (Inr (), r')" "tidy_below m r'"
    "\<And>q. view r' q = (if q = p then dview m f [] else view r q)"
proof (cases f)
  case None
  then show thesis using that [of r] assms(2) assms(5) [of "[]"] by (auto simp: walkchunk_def dview_def)
next
  case (Some sn)
  obtain st n where f: "f = Some (st, n)" using Some by (cases sn) simp
  have rn: "readable n" "nd_lstat n = Inr st" using assms(1) by (auto simp: good_def f)
  obtain info where info: "file_info m st n = Inr info" "fi_children info = []" "fi_idMappings info = m"
      "fdata (scan m n) = fdata info"
    using readable_node [OF rn(1), of m] rn(2) by (metis Inr_inject fdata_def FileInfo.sel(2,4,5))
  obtain d where d: "LookUp r (butlast p) = Some d" "isDir (butlast p) d" using assms(4) f by (auto simp: dir_at_def)
  let ?r = "put_child (butlast p) (last p) info r"
  have p: "butlast p @ [last p] = p" using assms(3) by simp
  have w: "walkchunk p f r = (Inr (), ?r)" using d info(1) tidy_below_maps [OF assms(2)] by (simp add: walkchunk_def f)
  have "tidy_below m info" using info by (cases info) simp
  then have t: "tidy_below m ?r" using tidy_put_child [OF assms(2) d] info(2) by blast
  have "view info s = (if s = [] then Some (fdata info) else None)" for s
    using info(2) by (cases s) (simp_all add: view_Cons)
  then have "view ?r q = (if q = p then dview m f [] else view r q)" for q
    using view_put_child [of r "butlast p" "last p" info q] d(1) p assms(3) assms(5) info(4)
    by (auto simp: dview_def f prefix_def)
  with w t show thesis using that by blast
qed

text \<open>
  The view after a walk at \<open>p\<close>, and after the loop over some names of a directory at \<open>p\<close>.
\<close>

definition walked :: "path \<Rightarrow> (path \<Rightarrow> fdata option) \<Rightarrow> FileInfo \<Rightarrow> FileInfo \<Rightarrow> bool" where
  "walked p g r r' \<longleftrightarrow>
     (\<forall>s. p @ s \<noteq> [] \<longrightarrow> view r' (p @ s) = g s) \<and> (\<forall>q. q = [] \<or> \<not> prefix p q \<longrightarrow> view r' q = view r q)"

definition walked_names :: "path \<Rightarrow> string set \<Rightarrow> (path \<Rightarrow> fdata option) \<Rightarrow> FileInfo \<Rightarrow> FileInfo \<Rightarrow> bool" where
  "walked_names p N g r r' \<longleftrightarrow>
     (\<forall>e s. e \<in> N \<longrightarrow> view r' (p @ e # s) = g (e # s)) \<and>
     (\<forall>q. \<not> (\<exists>e s. e \<in> N \<and> q = p @ e # s) \<longrightarrow> view r' q = view r q)"

lemma walked_names_other: "walked_names p N g r r' \<Longrightarrow> e \<notin> N \<Longrightarrow> view r' (p @ e # s) = view r (p @ e # s)"
  unfolding walked_names_def by (drule conjunct2, drule spec [of _ "p @ e # s"]) simp

lemma walked_names_insert:
  assumes "walked (p @ [e]) (\<lambda>s. g (e # s)) r r1" "walked_names p N g r1 r2" "e \<notin> N"
  shows "walked_names p (insert e N) g r r2"
  unfolding walked_names_def
proof (intro conjI allI impI)
  fix e' s assume "e' \<in> insert e N"
  moreover have "view r2 (p @ e # s) = view r1 (p @ e # s)" by (rule walked_names_other [OF assms(2,3)])
  ultimately show "view r2 (p @ e' # s) = g (e' # s)"
    using assms(1,2) by (cases "e' = e") (auto simp: walked_def walked_names_def)
next
  fix q assume q: "\<not> (\<exists>e' s. e' \<in> insert e N \<and> q = p @ e' # s)"
  then have "\<not> prefix (p @ [e]) q" by (auto simp: prefix_def)
  then have "view r1 q = view r q" using assms(1) by (simp add: walked_def)
  moreover have "view r2 q = view r1 q" using q assms(2) unfolding walked_names_def by blast
  ultimately show "view r2 q = view r q" by simp
qed

text \<open>Of the two trees, one at a time: what the names loop has yet to fill is empty.\<close>

definition awaits :: "path \<Rightarrow> string set \<Rightarrow> os_file \<Rightarrow> FileInfo \<Rightarrow> bool" where
  "awaits p N f r \<longleftrightarrow> (is_dir_file f \<longrightarrow> dir_at r p) \<and> (\<forall>e \<in> N. \<forall>s. view r (p @ e # s) = None)"

lemma awaits_next:
  assumes "walked (p @ [e]) g r r1" "awaits p (insert e N) f r" "e \<notin> N"
  shows "awaits p N f r1"
proof -
  have "view r1 p = view r p" using assms(1) by (auto simp: walked_def prefix_def)
  moreover have "view r1 (p @ e' # s) = view r (p @ e' # s)" if "e' \<in> N" for e' s
  proof -
    have "\<not> prefix (p @ [e]) (p @ e' # s)" using that assms(3) by (auto simp: prefix_def)
    then show ?thesis using assms(1) by (simp add: walked_def)
  qed
  ultimately show ?thesis using assms(2) dir_at_view [of r1 p r] by (auto simp: awaits_def)
qed

definition starts :: "path \<Rightarrow> os_file \<Rightarrow> FileInfo \<Rightarrow> bool" where
  "starts p f r \<longleftrightarrow>
     (f \<noteq> None \<and> p \<noteq> [] \<longrightarrow> dir_at r (butlast p)) \<and> (\<forall>s. p @ s \<noteq> [] \<longrightarrow> view r (p @ s) = None)"

lemma awaits_starts: "awaits p N f r \<Longrightarrow> e \<in> N \<Longrightarrow> starts (p @ [e]) (child_file f e) r"
  using child_file_dir [of f e] by (auto simp: awaits_def starts_def)

lemma seen_Cons:
  assumes "good f" "\<not> shared (same_device f g) (listing f) (listing g) e"
  shows "seen m f g (e # s) = seen m (child_file f e) (child_file g e) s"
  using assms by (simp add: seen_def dview_Cons)

lemma chunk_step:
  assumes "good f" "tidy_below m r" "starts p f r"
  obtains r' where "(if p \<noteq> [] then walkchunk p f else ret ()) r = (Inr (), r')" "tidy_below m r'"
    "\<And>q. view r' q = (if q = p \<and> p \<noteq> [] then dview m f [] else view r q)" "is_dir_file f \<Longrightarrow> dir_at r' p"
proof (cases "p = []")
  case True
  then show thesis using that [of r] assms(2) by (simp add: dir_at_def isDir_def)
next
  case False
  obtain r' where r': "walkchunk p f r = (Inr (), r')" "tidy_below m r'"
      "\<And>q. view r' q = (if q = p then dview m f [] else view r q)"
    using walkchunk_view [OF assms(1,2) False, of thesis] assms(3) False by (auto simp: starts_def)
  have "dir_at r' p" if dir: "is_dir_file f"
  proof -
    obtain st n where f: "f = Some (st, n)" "IsDir st" using dir by (auto simp: is_dir_file_def split: option.splits)
    have "readable n" "nd_lstat n = Inr st" using assms(1) by (auto simp: good_def f)
    then have "sT_mode (fi_stat (scan m n)) = sys_Mode st" by (rule scan_mode)
    then have "isDir p (scan m n)" using IsDir_bit [OF f(2)] by (simp add: isDir_def)
    moreover have "map_option fdata (LookUp r' p) = Some (fdata (scan m n))" using r'(3) [of p] by (simp add: view_def f dview_def)
    then obtain d where "LookUp r' p = Some d" "fdata d = fdata (scan m n)" by auto
    ultimately show ?thesis using isDir_cong [of d "scan m n" p] by (simp add: dir_at_def)
  qed
  then show thesis using that [of r'] r' False by simp
qed

lemma walked_finish:
  assumes "good f" "starts p f r" "\<And>q. view r1 q = (if q = p \<and> p \<noteq> [] then dview m f [] else view r q)"
    and "walked_names p N (seen m f g) r1 r2"
    and "\<And>e. e \<notin> N \<Longrightarrow> shared (same_device f g) (listing f) (listing g) e \<or> child_file f e = None"
  shows "walked p (seen m f g) r r2"
  unfolding walked_def
proof (intro conjI allI impI)
  fix s assume ne: "p @ s \<noteq> []"
  show "view r2 (p @ s) = seen m f g s"
  proof (cases s)
    case Nil
    then have "view r2 p = view r1 p" using assms(4) by (auto simp: walked_names_def)
    then show ?thesis using assms(3) [of p] Nil ne by (simp add: seen_def)
  next
    case (Cons e t)
    show ?thesis
    proof (cases "e \<in> N")
      case True then show ?thesis using assms(4) Cons by (auto simp: walked_names_def)
    next
      case False
      then have "view r2 (p @ s) = view r (p @ s)"
        using assms(3) [of "p @ s"] walked_names_other [OF assms(4) False, of t] Cons by auto
      also have "\<dots> = None" using assms(2) ne by (simp add: starts_def)
      moreover have "seen m f g (e # t) = None"
        using assms(5) [OF False] by (auto simp: seen_def dview_Cons [OF assms(1)]) (simp add: dview_def)
      ultimately show ?thesis using Cons by simp
    qed
  qed
next
  fix q assume q: "q = [] \<or> \<not> prefix p q"
  then have "\<not> (\<exists>e s. e \<in> N \<and> q = p @ e # s)" by auto
  then show "view r2 q = view r q" using assms(3,4) q by (auto simp: walked_names_def)
qed

lemma walk_view:
  "\<lbrakk>good f1; good f2; tidy_below m1 r1; tidy_below m2 r2; starts p f1 r1; starts p f2 r2\<rbrakk>
    \<Longrightarrow> \<exists>r1' r2'. walk p f1 f2 (r1, r2) = (Inr (), r1', r2') \<and> tidy_below m1 r1' \<and> tidy_below m2 r2' \<and>
      walked p (seen m1 f1 f2) r1 r1' \<and> walked p (seen m2 f2 f1) r2 r2'"
  "\<lbrakk>good f1; good f2; tidy_below m1 r1; tidy_below m2 r2; distinct names;
    awaits p (set names) f1 r1; awaits p (set names) f2 r2;
    \<forall>e \<in> set names. \<not> shared (same_device f1 f2) (listing f1) (listing f2) e\<rbrakk>
    \<Longrightarrow> \<exists>r1' r2'. walk_names p f1 f2 names (r1, r2) = (Inr (), r1', r2') \<and> tidy_below m1 r1' \<and> tidy_below m2 r2' \<and>
      walked_names p (set names) (seen m1 f1 f2) r1 r1' \<and> walked_names p (set names) (seen m2 f2 f1) r2 r2'"
proof (induction p f1 f2 and p f1 f2 names arbitrary: r1 r2 and r1 r2 rule: walk_walk_names.induct)
  case (2 p f1 f2)
  then show ?case by (simp add: walked_names_def)
next
  case (3 p f1 f2 e names)
  note pre = "3.prems"
  let ?c1 = "child_file f1 e" and ?c2 = "child_file f2 e"
  have l: "lstat_in f1 e = Inr ?c1" "lstat_in f2 e = Inr ?c2" "good ?c1" "good ?c2"
    using good_child pre(1,2) by blast+
  have sh: "\<not> shared (same_device f1 f2) (listing f1) (listing f2) e"
      "\<not> shared (same_device f2 f1) (listing f2) (listing f1) e"
    using pre(8) shared_sym [of "same_device f1 f2"] same_device_sym [of f1 f2] by auto
  have en: "e \<in> set (e # names)" by simp
  obtain q1 q2 where w: "walk (p @ [e]) ?c1 ?c2 (r1, r2) = (Inr (), q1, q2)" "tidy_below m1 q1" "tidy_below m2 q2"
      "walked (p @ [e]) (seen m1 ?c1 ?c2) r1 q1" "walked (p @ [e]) (seen m2 ?c2 ?c1) r2 q2"
    using "3.IH"(1) [OF l(1,2,3,4) pre(3,4) awaits_starts [OF pre(6) en] awaits_starts [OF pre(7) en]] by blast
  have a: "awaits p (set names) f1 q1" "awaits p (set names) f2 q2"
    using awaits_next w(4,5) pre(5,6,7) by fastforce+
  obtain s1 s2 where n: "walk_names p f1 f2 names (q1, q2) = (Inr (), s1, s2)" "tidy_below m1 s1" "tidy_below m2 s2"
      "walked_names p (set names) (seen m1 f1 f2) q1 s1" "walked_names p (set names) (seen m2 f2 f1) q2 s2"
    using "3.IH"(2) [OF l(1,2) pre(1,2) w(2,3) _ a] pre(5,8) by auto
  have "walked_names p (set (e # names)) (seen m1 f1 f2) r1 s1" "walked_names p (set (e # names)) (seen m2 f2 f1) r2 s2"
    using walked_names_insert [of p e _ r1 q1, OF _ n(4)] walked_names_insert [of p e _ r2 q2, OF _ n(5)] w(4,5) pre(5)
    by (simp_all add: seen_Cons [OF pre(1) sh(1)] seen_Cons [OF pre(2) sh(2)])
  then show ?case using l(1,2) w(1) n by (simp add: bind_def)
next
  case (1 p f1 f2)
  note pre = "1.prems"
  obtain q1 where q1: "(if p \<noteq> [] then walkchunk p f1 else ret ()) r1 = (Inr (), q1)" "tidy_below m1 q1"
      "\<And>q. view q1 q = (if q = p \<and> p \<noteq> [] then dview m1 f1 [] else view r1 q)" "is_dir_file f1 \<Longrightarrow> dir_at q1 p"
    using chunk_step [OF pre(1,3,5)] by blast
  obtain q2 where q2: "(if p \<noteq> [] then walkchunk p f2 else ret ()) r2 = (Inr (), q2)" "tidy_below m2 q2"
      "\<And>q. view q2 q = (if q = p \<and> p \<noteq> [] then dview m2 f2 [] else view r2 q)" "is_dir_file f2 \<Longrightarrow> dir_at q2 p"
    using chunk_step [OF pre(2,4,6)] by blast
  have chunks: "(if p \<noteq> [] then bind (on_fst (walkchunk p f1)) (\<lambda>_. on_snd (walkchunk p f2)) else ret ()) (r1, r2) = (Inr (), q1, q2)"
    using q1(1) q2(1) by (auto simp: go_simps split: if_splits)
  note names = good_listing [OF pre(1)] good_listing [OF pre(2)]
  let ?N = "if \<not> is_dir_file f1 \<and> \<not> is_dir_file f2 then []
    else merge_names (same_device f1 f2) (listing f1) (listing f2)"
  have N: "distinct ?N" "\<forall>e \<in> set ?N. \<not> shared (same_device f1 f2) (listing f1) (listing f2) e"
    using set_merge_names [OF names(2,5)] distinct_merge_names [OF names(2,5)] by auto
  have out: "shared (same_device f1 f2) (listing f1) (listing f2) e \<or> child_file f1 e = None \<and> child_file f2 e = None"
    if "e \<notin> set ?N" for e
  proof (cases "\<not> is_dir_file f1 \<and> \<not> is_dir_file f2")
    case True then show ?thesis using child_file_dir by blast
  next
    case False
    then have "e \<notin> ni_name ` (set (listing f1) \<union> set (listing f2)) \<or> shared (same_device f1 f2) (listing f1) (listing f2) e"
      using that set_merge_names [OF names(2,5), of "same_device f1 f2"] by auto
    then show ?thesis using names(3,6) by (auto simp del: split_paired_Ex)
  qed
  have a: "awaits p (set ?N) f1 q1" "awaits p (set ?N) f2 q2"
    using pre(5,6) q1(3,4) q2(3,4) by (auto simp: awaits_def starts_def)
  obtain s1 s2 where w: "walk_names p f1 f2 ?N (q1, q2) = (Inr (), s1, s2)" "tidy_below m1 s1" "tidy_below m2 s2"
      "walked_names p (set ?N) (seen m1 f1 f2) q1 s1" "walked_names p (set ?N) (seen m2 f2 f1) q2 s2"
  proof (cases "\<not> is_dir_file f1 \<and> \<not> is_dir_file f2")
    case True
    then show thesis using that [of q1 q2] q1(2) q2(2) by (simp add: walked_names_def)
  next
    case False
    let ?M = "merge_names (same_device f1 f2) (listing f1) (listing f2)"
    have "\<exists>s1 s2. walk_names p f1 f2 ?M (q1, q2) = (Inr (), s1, s2) \<and> tidy_below m1 s1 \<and> tidy_below m2 s2 \<and>
      walked_names p (set ?M) (seen m1 f1 f2) q1 s1 \<and> walked_names p (set ?M) (seen m2 f2 f1) q2 s2"
      by (rule "1.IH" [OF False pre(1,2) q1(2) q2(2)]) (use N a False in simp_all)
    then obtain s1 s2 where "walk_names p f1 f2 ?M (q1, q2) = (Inr (), s1, s2)" "tidy_below m1 s1" "tidy_below m2 s2"
      "walked_names p (set ?M) (seen m1 f1 f2) q1 s1" "walked_names p (set ?M) (seen m2 f2 f1) q2 s2" by blast
    then show thesis using that [of s1 s2] False by simp
  qed
  have "walked p (seen m1 f1 f2) r1 s1" 
  proof (rule walked_finish [OF pre(1,5) q1(3) w(4)])
    fix e assume "e \<notin> set ?N"
    from out [OF this] show "shared (same_device f1 f2) (listing f1) (listing f2) e \<or> child_file f1 e = None" by auto
  qed
  moreover have "walked p (seen m2 f2 f1) r2 s2"
  proof (rule walked_finish [OF pre(2,6) q2(3) w(5)])
    fix e assume "e \<notin> set ?N"
    from out [OF this] show "shared (same_device f2 f1) (listing f2) (listing f1) e \<or> child_file f2 e = None"
      using shared_sym [of "same_device f1 f2" "listing f1" "listing f2" e] same_device_sym [of f1 f2] by auto
  qed
  moreover have "walk p f1 f2 (r1, r2) = (Inr (), s1, s2)"
    using chunks w(1) names(1,4) by (subst walk.simps) (auto simp: bind_def lift_result_def split: if_splits)
  ultimately show ?case using w(2,3) by blast
qed

section \<open>Pruning is invisible\<close>

lemma reported_pruned:
  assumes seen: "\<And>p. p \<noteq> [] \<Longrightarrow> view new' p = (if pr p then None else view new p)"
      "\<And>p. p \<noteq> [] \<Longrightarrow> view old' p = (if pr p then None else view old p)"
    and same: "\<And>p. pr p \<Longrightarrow> view new p = view old p"
    and mono: "\<And>p s. pr p \<Longrightarrow> pr (p @ s)"
  shows "reported [] False m m new' old' p k \<longleftrightarrow> reported [] False m m new old p k"
proof -
  have none: "LookUp new' p = None \<longleftrightarrow> pr p \<or> LookUp new p = None" "LookUp old' p = None \<longleftrightarrow> pr p \<or> LookUp old p = None"
    if "p \<noteq> []" for p using seen [OF that] by (auto simp flip: view_None_iff)
  have pn: "pr p \<Longrightarrow> LookUp new p = None \<longleftrightarrow> LookUp old p = None" for p
    using same [of p] by (simp flip: view_None_iff)
  have dir: "(\<exists>d. LookUp new' p = Some d \<and> isDir p d) \<longleftrightarrow> (\<exists>d. LookUp new p = Some d \<and> isDir p d)" if "\<not> pr p" for p
    using dir_at_view [of new' p new] seen(1) [of p] that
    by (cases "p = []") (auto simp: dir_at_def isDir_def)
  have up: "pr p" if "p \<noteq> []" "pr (butlast p)" for p using mono [OF that(2), of "[last p]"] that(1) by simp
  have add: "add_at new' old' p = add_at new old p" for p
    using none [of p] pn [of p] by (cases "pr p") (auto simp: add_at_def)
  have del: "del_at [] new' old' p = del_at [] new old p" for p
    using none [of p] pn [of p] dir [of "butlast p"] up [of p] by (cases "pr p") (auto simp: del_at_def)
  have df: "diff_at m m new' old' p = diff_at m m new old p" for p
  proof (cases "p = [] \<or> pr p")
    case True
    have "\<not> diff_at m m new old p" if "pr p"
    proof
      assume "diff_at m m new old p"
      then obtain a b where "LookUp new p = Some a" "LookUp old p = Some b" "different m m a b" by (auto simp: diff_at_def)
      then show False using same [OF that] different_cong [of a b b b m m] different_irrefl by (auto simp: view_def)
    qed
    then show ?thesis using True none [of p] by (auto simp: diff_at_def)
  next
    case False
    then have v: "view new' p = view new p" "view old' p = view old p" using seen by auto
    then show ?thesis using False by (cases "LookUp new p"; cases "LookUp old p"; cases "LookUp new' p"; cases "LookUp old' p")
        (auto simp: diff_at_def view_def different_def fdata_def)
  qed
  have tch: "touched [] m m new' old' p = touched [] m m new old p" for p
    by (simp add: touched_def add del df)
  have quiet: "\<not> touched [] m m new old p" if "p \<noteq> []" "pr p" for p
    using tch [of p] that none [of p] by (auto simp: touched_def add_at_def del_at_def diff_at_def)
  have dt: "dir_touched [] m m new' old' p = dir_touched [] m m new old p" for p
  proof (cases "p = [] \<or> pr p")
    case True
    then show ?thesis using none [of p] quiet mono [of p] by (auto simp: dir_touched_def)
  next
    case False
    then have "(\<exists>a b. LookUp new' p = Some a \<and> LookUp old' p = Some b \<and> isDir p a) \<longleftrightarrow>
        (\<exists>a b. LookUp new p = Some a \<and> LookUp old p = Some b \<and> isDir p a)"
      using dir [of p] none(2) [of p] by auto
    then show ?thesis by (simp add: dir_touched_def tch)
  qed
  show ?thesis by (cases k) (simp_all add: reported.simps add del df dt)
qed

definition coherent :: "(nat \<Rightarrow> nat \<Rightarrow> Node) \<Rightarrow> os_file \<Rightarrow> bool" where
  "coherent tab f \<longleftrightarrow> (case f of None \<Rightarrow> True | Some (st, n) \<Rightarrow> inodes_identify tab n)"

lemma coherent_child: "coherent tab f \<Longrightarrow> coherent tab (child_file f e)"
  using inodes_child
  by (auto simp: coherent_def child_file_def lstat_in_def lstat_node_def split: option.splits sum.splits if_splits)

lemma child_by_inode:
  assumes "good f" "coherent tab f" "a \<in> set (listing f)"
  obtains st n where "f = Some (st, n)" "child_file f (ni_name a) = (case lstat_node (tab (sys_Dev st) (ni_ino a)) of Inl _ \<Rightarrow> None | Inr c \<Rightarrow> c)"
proof -
  obtain st n where f: "f = Some (st, n)" "IsDir st" "readdirnames n = Inr (listing f)"
  proof (cases f)
    case (Some sn)
    then show thesis using assms(3) that
      by (cases sn; cases "IsDir (fst sn)"; cases "readdirnames (snd sn)") (simp_all add: listing_def names_in_def)
  qed (use assms(3) in \<open>simp add: listing_def names_in_def\<close>)
  have "nd_lstat n = Inr st" using assms(1) f by (simp add: good_def)
  then have "inodes_ok tab st n" using assms(2) f by (cases n) (simp add: coherent_def)
  then have "map_of (nd_files n) (ni_name a) = Some (tab (sys_Dev st) (ni_ino a))"
    using assms(3) f(3) by (simp add: inodes_ok_def)
  then show thesis using that [of st n] f by (simp add: child_file_def lstat_in_def)
qed

lemma shared_same:
  assumes "good f" "good g" "coherent tab f" "coherent tab g" "shared (same_device f g) (listing f) (listing g) e"
  shows "child_file f e = child_file g e"
proof -
  obtain a b where ab: "a \<in> set (listing f)" "b \<in> set (listing g)" "ni_name a = e" "ni_name b = e" "ni_ino a = ni_ino b" "same_device f g"
    using assms(5) by (auto simp: shared_def)
  show ?thesis
    by (rule child_by_inode [OF assms(1,3) ab(1)], rule child_by_inode [OF assms(2,4) ab(2)])
      (use ab in \<open>simp add: same_device_def\<close>)
qed

lemma pruned_same:
  "\<lbrakk>good f; good g; coherent tab f; coherent tab g; pruned f g p\<rbrakk> \<Longrightarrow> dview m f p = dview m g p"
proof (induction p arbitrary: f g)
  case (Cons e s)
  then show ?case using shared_same [of f g tab e] good_child coherent_child by (auto simp: dview_Cons)
qed simp

lemma pruned_append: "pruned f g p \<Longrightarrow> pruned f g (p @ s)"
  by (induction f g p rule: pruned.induct) auto

lemma collect_view:
  assumes "readable d1" "readable d2"
  obtains r1 r2 i1 i2 where "collectFileInfoForChanges d1 d2 m1 m2 = Inr (r1, r2)" "tidy_below m1 r1" "tidy_below m2 r2"
    "nd_lstat d1 = Inr i1" "nd_lstat d2 = Inr i2"
    "\<And>p. p \<noteq> [] \<Longrightarrow> view r1 p = seen m1 (Some (i1, d1)) (Some (i2, d2)) p"
    "\<And>p. p \<noteq> [] \<Longrightarrow> view r2 p = seen m2 (Some (i2, d2)) (Some (i1, d1)) p"
proof -
  obtain i1 where i1: "nd_lstat d1 = Inr i1" using readable_node [OF assms(1)] by metis
  obtain i2 where i2: "nd_lstat d2 = Inr i2" using readable_node [OF assms(2)] by metis
  let ?f1 = "Some (i1, d1)" and ?f2 = "Some (i2, d2)"
  have root: "tidy_below m (newRootFileInfo m)" "starts [] f (newRootFileInfo m)" for m f
    by (auto simp: newRootFileInfo_def starts_def view_None_iff neq_Nil_conv)
  have "good ?f1" "good ?f2" using assms i1 i2 by (auto simp: good_def)
  from walk_view(1) [OF this root(1) [of m1] root(1) [of m2] root(2) root(2)]
  obtain r1 r2 where "walk [] ?f1 ?f2 (newRootFileInfo m1, newRootFileInfo m2) = (Inr (), r1, r2)"
      "tidy_below m1 r1" "tidy_below m2 r2"
      "walked [] (seen m1 ?f1 ?f2) (newRootFileInfo m1) r1" "walked [] (seen m2 ?f2 ?f1) (newRootFileInfo m2) r2" by blast
  then show thesis using i1 i2 by (intro that [of r1 r2 i1 i2]) (simp_all add: collectFileInfoForChanges_def walked_def)
qed

text \<open>The changes of two directories that can be read, by paths.\<close>

lemma set_ChangesDirs:
  assumes "readable new" "readable old" "inodes_identify tab new" "inodes_identify tab old"
  obtains cs where "ChangesDirs tmp new m (Some old) m = Inr cs"
    "set cs = {change p k | p k. reported [] False m m (scan m new) (scan m old) p k}"
proof -
  obtain r1 r2 i1 i2 where c: "collectFileInfoForChanges old new m m = Inr (r1, r2)" "tidy_below m r1" "tidy_below m r2"
    "nd_lstat old = Inr i1" "nd_lstat new = Inr i2"
    "\<And>p. p \<noteq> [] \<Longrightarrow> view r1 p = seen m (Some (i1, old)) (Some (i2, new)) p"
    "\<And>p. p \<noteq> [] \<Longrightarrow> view r2 p = seen m (Some (i2, new)) (Some (i1, old)) p"
    using collect_view [OF assms(2,1), of m m] by blast
  let ?f = "Some (i2, new)" and ?g = "Some (i1, old)"
  have gd: "good ?f" "good ?g" "coherent tab ?f" "coherent tab ?g" using assms c(4,5) by (auto simp: good_def coherent_def)
  have "reported [] False m m r2 r1 p k \<longleftrightarrow> reported [] False m m (scan m new) (scan m old) p k" for p k
  proof (rule reported_pruned [of r2 "pruned ?f ?g"])
    show "view r2 q = (if pruned ?f ?g q then None else view (scan m new) q)" if "q \<noteq> []" for q
      using c(7) [OF that] by (simp add: seen_def dview_def)
    show "view r1 q = (if pruned ?f ?g q then None else view (scan m old) q)" if "q \<noteq> []" for q
      using c(6) [OF that] by (simp add: seen_def dview_def pruned_sym [of ?g ?f])
    show "view (scan m new) q = view (scan m old) q" if "pruned ?f ?g q" for q
      using pruned_same [OF gd that, of m] by (simp add: dview_def)
  qed (rule pruned_append)
  moreover have "set (Changes r2 (Some r1)) = {change p k | p k. reported [] False m m r2 r1 p k}"
    using set_addChanges [OF c(3,2), of "[]" False] by (simp add: Changes_def isDir_def)
  ultimately show thesis using that [of "Changes r2 (Some r1)"] c(1) by (simp add: ChangesDirs_def)
qed

end
