(* ===== verification/ArchiveProps.thy ===== *)
theory ArchiveProps
  imports ArchiveWalk
begin

text \<open>
  The properties of the comparison of directories: the reported changes are exactly the differences
  of the two directories, and leaving out shared inodes changes nothing.
\<close>

section \<open>Paths and changes\<close>

lemma split_on_join_slash: "p \<noteq> [] \<Longrightarrow> list_all is_name p \<Longrightarrow> split_on (CHR ''/'') (join_slash p) = p"
  by (induction p rule: join_slash.induct) (auto simp: is_name_def split_on_append split_on_no_sep)

lemma path_string_inject:
  assumes "list_all is_name p" "list_all is_name q"
  shows "path_string p = path_string q \<longleftrightarrow> p = q"
proof
  assume e: "path_string p = path_string q"
  have ne: "r \<noteq> [] \<Longrightarrow> list_all is_name r \<Longrightarrow> join_slash r \<noteq> []" for r
    by (cases r rule: join_slash.cases) (auto simp: is_name_def)
  show "p = q"
  proof (cases "p = [] \<or> q = []")
    case True then show ?thesis using e ne [of p] ne [of q] assms
      by (cases "p = []"; cases "q = []") (simp_all add: path_string_def)
  next
    case False then show ?thesis using e split_on_join_slash assms by (metis list.inject path_string_def)
  qed
qed simp

lemma change_inject:
  "list_all is_name p \<Longrightarrow> list_all is_name q \<Longrightarrow> change p k = change q k' \<longleftrightarrow> p = q \<and> k = k'"
  by (auto simp: change_def path_string_inject)

lemma file_at_names: "readable n \<Longrightarrow> file_at n p \<noteq> None \<Longrightarrow> list_all is_name p"
  by (induction p arbitrary: n) (auto split: option.splits dest: readable_child)

lemma reported_names:
  assumes "readable new" "readable old" "reported [] False m m (scan m new) (scan m old) p k"
  shows "list_all is_name p"
proof -
  have "LookUp (scan m new) p \<noteq> None \<or> LookUp (scan m old) p \<noteq> None"
    using assms(3) by (cases k) (auto simp: reported.simps add_at_def del_at_def diff_at_def dir_touched_def)
  then show ?thesis using assms(1,2) file_at_names [of new p] file_at_names [of old p] by (auto simp: LookUp_scan)
qed

section \<open>Differences of two directories\<close>

definition appears :: "Node \<Rightarrow> Node \<Rightarrow> path \<Rightarrow> bool" where
  "appears new old p \<longleftrightarrow> file_at new p \<noteq> None \<and> file_at old p = None"

definition vanishes :: "IDMappings \<Rightarrow> Node \<Rightarrow> Node \<Rightarrow> path \<Rightarrow> bool" where
  "vanishes m new old p \<longleftrightarrow>
     file_at new p = None \<and> file_at old p \<noteq> None \<and>
     (case file_at new (butlast p) of None \<Rightarrow> False | Some d \<Rightarrow> isDir (butlast p) (scan m d))"

definition differs :: "IDMappings \<Rightarrow> Node \<Rightarrow> Node \<Rightarrow> path \<Rightarrow> bool" where
  "differs m new old p \<longleftrightarrow>
     (case (file_at new p, file_at old p) of
        (Some a, Some b) \<Rightarrow> different m m (scan m a) (scan m b)
      | _ \<Rightarrow> False)"

definition stays_dir :: "IDMappings \<Rightarrow> Node \<Rightarrow> Node \<Rightarrow> path \<Rightarrow> bool" where
  "stays_dir m new old p \<longleftrightarrow>
     (case (file_at new p, file_at old p) of (Some a, Some b) \<Rightarrow> isDir p (scan m a) | _ \<Rightarrow> False)"

lemma reported_disk:
  assumes "readable new" "readable old" "p \<noteq> []"
  shows "reported [] False m m (scan m new) (scan m old) p ChangeAdd \<longleftrightarrow> appears new old p"
    and "reported [] False m m (scan m new) (scan m old) p ChangeDelete \<longleftrightarrow> vanishes m new old p"
    and "reported [] False m m (scan m new) (scan m old) p ChangeModify \<longleftrightarrow>
      differs m new old p \<or> stays_dir m new old p \<and>
        (\<exists>s. s \<noteq> [] \<and> (appears new old (p @ s) \<or> vanishes m new old (p @ s) \<or> differs m new old (p @ s)))"
proof -
  note l = LookUp_scan [OF assms(1)] LookUp_scan [OF assms(2)]
  have a: "add_at (scan m new) (scan m old) q \<longleftrightarrow> q \<noteq> [] \<and> appears new old q" for q
    by (auto simp: add_at_def appears_def l)
  have d: "del_at [] (scan m new) (scan m old) q \<longleftrightarrow> q \<noteq> [] \<and> vanishes m new old q" for q
    by (auto simp: del_at_def vanishes_def l split: option.splits)
  have f: "diff_at m m (scan m new) (scan m old) q \<longleftrightarrow> q \<noteq> [] \<and> differs m new old q" for q
    by (auto simp: diff_at_def differs_def l split: option.splits)
  have s: "dir_touched [] m m (scan m new) (scan m old) p \<longleftrightarrow> stays_dir m new old p \<and>
      (\<exists>s. s \<noteq> [] \<and> (appears new old (p @ s) \<or> vanishes m new old (p @ s) \<or> differs m new old (p @ s)))"
    using assms(3) by (auto simp: dir_touched_def stays_dir_def touched_def a d f l split: option.splits)
  show "reported [] False m m (scan m new) (scan m old) p ChangeAdd \<longleftrightarrow> appears new old p"
    and "reported [] False m m (scan m new) (scan m old) p ChangeDelete \<longleftrightarrow> vanishes m new old p"
    and "reported [] False m m (scan m new) (scan m old) p ChangeModify \<longleftrightarrow>
      differs m new old p \<or> stays_dir m new old p \<and>
        (\<exists>s. s \<noteq> [] \<and> (appears new old (p @ s) \<or> vanishes m new old (p @ s) \<or> differs m new old (p @ s)))"
    using assms(3) by (auto simp: reported.simps a d f s)
qed

lemma set_ChangesDirs_Changes:
  assumes "readable new" "readable old" "inodes_identify tab new" "inodes_identify tab old"
  shows "\<exists>cs. ChangesDirs tmp new m (Some old) m = Inr cs \<and> set cs = set (Changes (scan m new) (Some (scan m old)))"
proof -
  have "set (Changes (scan m new) (Some (scan m old))) =
      {change p k | p k. reported [] False m m (scan m new) (scan m old) p k}"
    using set_addChanges [OF tidy_scan [OF assms(1), of m] tidy_scan [OF assms(2), of m], of "[]" False]
    by (simp add: Changes_def isDir_def)
  then show ?thesis using set_ChangesDirs [OF assms, of tmp m] by metis
qed

section \<open>Two directories\<close>

definition demo_stat :: "32 word \<Rightarrow> nat \<Rightarrow> int \<Rightarrow> Stat_t" where
  "demo_stat mode ino sz = \<lparr>sys_Dev = 1, sys_Ino = ino, sys_Nlink = 1, sys_Mode = mode, sys_Uid = 0, sys_Gid = 0,
     sys_Rdev = 0, sys_Size = sz, sys_Mtim = \<lparr>ts_Sec = 7, ts_Nsec = 0\<rparr>\<rparr>"

definition demo_file :: "nat \<Rightarrow> int \<Rightarrow> Node" where
  "demo_file ino sz = Node (Inr (demo_stat 0x81A4 ino sz)) [] (Inr []) None [] []"

definition demo_dir :: "nat \<Rightarrow> (string \<times> nat \<times> Node) list \<Rightarrow> Node" where
  "demo_dir ino es = Node (Inr (demo_stat 0x41ED ino 4096)) [] (Inr []) None
     [Inr ((ino, ''.'') # map (\<lambda>(n, i, c). (i, n)) es)] (map (\<lambda>(n, i, c). (n, c)) es)"

definition demo_old :: Node where
  "demo_old = demo_dir 2 [(''keep'', 5, demo_file 5 10), (''sub'', 6, demo_dir 6 [(''x'', 7, demo_file 7 1)]),
     (''gone'', 8, demo_file 8 3)]"

definition demo_new :: Node where
  "demo_new = demo_dir 3 [(''more'', 11, demo_file 11 4), (''sub'', 9, demo_dir 9 [(''x'', 10, demo_file 10 2)]),
     (''keep'', 5, demo_file 5 10)]"

definition demo_tab :: "nat \<Rightarrow> nat \<Rightarrow> Node" where
  "demo_tab dev ino =
     (if ino = 6 then demo_dir 6 [(''x'', 7, demo_file 7 1)]
      else if ino = 9 then demo_dir 9 [(''x'', 10, demo_file 10 2)]
      else demo_file ino (if ino = 5 then 10 else if ino = 7 then 1 else if ino = 8 then 3 else if ino = 11 then 4 else 2))"


lemma demo_disks:
  "readable demo_new" "readable demo_old" "inodes_identify demo_tab demo_new" "inodes_identify demo_tab demo_old"
  by code_simp+

section \<open>Properties\<close>

text \<open>
  C21: on two directories that can be read without errors, with inode numbers that identify files,
  and with the same ID mapping on both sides, \<open>ChangesDirs\<close> succeeds and lists an addition exactly
  for the files that are only in the new directory, a deletion exactly for the files that are gone
  from a directory that is still there, and a modification exactly for the files whose status,
  capability or user attributes differ and for the directories in which something changed.
\<close>

theorem ChangesDirs_exact:
  assumes "readable new" "readable old" "inodes_identify tab new" "inodes_identify tab old"
    and "p \<noteq> []" "list_all is_name p"
  shows "\<exists>cs. ChangesDirs tmp new m (Some old) m = Inr cs \<and>
    (change p ChangeAdd \<in> set cs \<longleftrightarrow> appears new old p) \<and>
    (change p ChangeDelete \<in> set cs \<longleftrightarrow> vanishes m new old p) \<and>
    (change p ChangeModify \<in> set cs \<longleftrightarrow>
       differs m new old p \<or> stays_dir m new old p \<and>
         (\<exists>s. s \<noteq> [] \<and> (appears new old (p @ s) \<or> vanishes m new old (p @ s) \<or> differs m new old (p @ s))))"
proof -
  obtain cs where cs: "ChangesDirs tmp new m (Some old) m = Inr cs"
      "set cs = {change p k | p k. reported [] False m m (scan m new) (scan m old) p k}"
    using set_ChangesDirs [OF assms(1-4)] by blast
  have "change p k \<in> set cs \<longleftrightarrow> reported [] False m m (scan m new) (scan m old) p k" for k
  proof -
    have "p = q \<and> k = k'" if "change p k = change q k'" "reported [] False m m (scan m new) (scan m old) q k'" for q k'
      using that change_inject [OF assms(6) reported_names [OF assms(1,2) that(2)]] by simp
    then show ?thesis unfolding cs(2) by blast
  qed
  then show ?thesis using cs(1) reported_disk [OF assms(1,2,5), of m] by simp
qed

theorem ChangesDirs_exact_witness:
  "\<exists>cs. ChangesDirs (Inl NotExist) demo_new \<lparr>uids = None, gids = None\<rparr> (Some demo_old) \<lparr>uids = None, gids = None\<rparr> = Inr cs \<and>
     change [''sub''] ChangeModify \<in> set cs"
proof -
  let ?m = "\<lparr>uids = None, gids = None\<rparr>"
  have "stays_dir ?m demo_new demo_old [''sub'']" by code_simp
  moreover have "differs ?m demo_new demo_old ([''sub''] @ [''x''])" by code_simp
  ultimately show ?thesis
    using ChangesDirs_exact [OF demo_disks, of "[''sub'']" "Inl NotExist" ?m] by (auto simp: is_name_def)
qed

text \<open>
  C22: leaving out the files that the two directories share does not change the result: the walk
  gives the changes that the comparison of the two complete trees gives.
\<close>

theorem ChangesDirs_prunes_nothing:
  assumes "readable new" "readable old" "inodes_identify tab new" "inodes_identify tab old"
  shows "\<exists>cs. ChangesDirs tmp new m (Some old) m = Inr cs \<and> set cs = set (Changes (scan m new) (Some (scan m old)))"
  by (rule set_ChangesDirs_Changes [OF assms])

theorem ChangesDirs_prunes_nothing_witness:
  "\<exists>cs. ChangesDirs (Inl NotExist) demo_new \<lparr>uids = None, gids = None\<rparr> (Some demo_old) \<lparr>uids = None, gids = None\<rparr> = Inr cs \<and>
     set cs = {change [''more''] ChangeAdd, change [''gone''] ChangeDelete, change [''sub''] ChangeModify,
       change [''sub'', ''x''] ChangeModify}"
proof -
  let ?m = "\<lparr>uids = None, gids = None\<rparr>"
  have "Changes (scan ?m demo_new) (Some (scan ?m demo_old)) =
      [change [''more''] ChangeAdd, change [''sub''] ChangeModify, change [''sub'', ''x''] ChangeModify,
       change [''gone''] ChangeDelete]"
    by code_simp
  then show ?thesis using ChangesDirs_prunes_nothing [OF demo_disks, of "Inl NotExist" ?m] by auto
qed

end
