(* ===== verification/PathRel.thy ===== *)
theory PathRel
  imports ArchiveProps
begin

text \<open>
  \<open>filepath.Join\<close> and \<open>filepath.Rel\<close> (on Unix), and what they give on absolute cleaned paths: such a
  path is the string of a list of plain names, joining resolves the elements of the second part
  against that list, and the test of the extraction loops, that the relative path does not start
  with \<open>../\<close>, means that the path stays below the directory or is the parent of it.
\<close>

fun Join :: "string list \<Rightarrow> string" where
  "Join [] = []"
| "Join (e # es) = (if e = [] then Join es else Clean (join_slash (e # es)))"

definition path_elems :: "string \<Rightarrow> string list" where
  "path_elems p = (let q = (if rooted_path p then tl p else p) in if q = [] then [] else split_on (CHR ''/'') q)"

fun strip_common :: "'a list \<Rightarrow> 'a list \<Rightarrow> 'a list \<times> 'a list" where
  "strip_common (x # xs) (y # ys) = (if x = y then strip_common xs ys else (x # xs, y # ys))"
| "strip_common xs ys = (xs, ys)"

definition Rel :: "string \<Rightarrow> string \<Rightarrow> gerr + string" where
  "Rel basepath targpath =
     (let b = Clean basepath; t = Clean targpath in
      if t = b then Inr ''.''
      else let b' = (if b = ''.'' then [] else b) in
           if rooted_path b' \<noteq> rooted_path t then Inl (Errorf ''Rel: can't make path relative'')
           else let (bs, ts) = strip_common (path_elems b') (path_elems t) in
                if bs \<noteq> [] \<and> hd bs = ''..'' then Inl (Errorf ''Rel: can't make path relative'')
                else Inr (join_slash (replicate (length bs) ''..'' @ ts)))"

section \<open>Plain names\<close>

definition plain :: "string \<Rightarrow> bool" where
  "plain e \<longleftrightarrow> e \<noteq> [] \<and> CHR ''/'' \<notin> set e \<and> e \<noteq> ''.'' \<and> e \<noteq> ''..''"

lemma plain_is_name: "list_all plain es \<Longrightarrow> list_all is_name es"
  by (auto simp: list_all_iff plain_def is_name_def)

lemma clean_elems_plain: "list_all plain es \<Longrightarrow> clean_elems r acc (es @ ns) = clean_elems r (rev es @ acc) ns"
  by (induction es arbitrary: acc) (auto simp: plain_def)

lemma clean_elems_result:
  "list_all plain acc \<Longrightarrow> \<forall>n \<in> set ns. CHR ''/'' \<notin> set n \<Longrightarrow> list_all plain (clean_elems True acc ns)"
proof (induction ns arbitrary: acc)
  case (Cons n ns)
  show ?case using Cons.IH [of acc] Cons.IH [of "n # acc"] Cons.IH [of "tl acc"] Cons.prems
    by (cases acc) (auto simp: plain_def)
qed (simp add: list_all_iff)

lemma split_on_parts: "n \<in> set (split_on c s) \<Longrightarrow> c \<notin> set n"
  by (induction c s arbitrary: n rule: split_on.induct) (auto split: list.splits if_splits)

lemma split_on_join_append:
  "es \<noteq> [] \<Longrightarrow> list_all is_name es \<Longrightarrow> split_on (CHR ''/'') (join_slash es @ CHR ''/'' # s) = es @ split_on (CHR ''/'') s"
  by (induction es rule: join_slash.induct) (auto simp: is_name_def split_on_append)

section \<open>Absolute cleaned paths\<close>

definition resolve :: "path \<Rightarrow> string \<Rightarrow> path" where
  "resolve ds name = clean_elems True (rev ds) (split_on (CHR ''/'') name)"

lemma resolve_plain: "list_all plain ds \<Longrightarrow> list_all plain (resolve ds name)"
  unfolding resolve_def by (rule clean_elems_result) (auto simp: list_all_iff dest: split_on_parts)

lemma Clean_path_string: "list_all plain es \<Longrightarrow> Clean (path_string es) = path_string es"
proof (cases "es = []")
  case False
  assume p: "list_all plain es"
  have "split_on (CHR ''/'') (path_string es) = [] # es"
    using split_on_join_slash [OF False plain_is_name [OF p]] by (simp add: path_string_def)
  then show ?thesis using clean_elems_plain [OF p, of True "[]" "[]"]
    by (simp add: Clean_def rooted_path_def path_string_def)
qed (simp add: Clean_def rooted_path_def path_string_def)

lemma Join_path_string:
  assumes "list_all plain ds"
  shows "Join [path_string ds, name] = path_string (resolve ds name)"
proof -
  have j: "join_slash [path_string ds, name] = path_string ds @ CHR ''/'' # name" by simp
  have "split_on (CHR ''/'') (path_string ds @ CHR ''/'' # name) = [] # (if ds = [] then [[]] else ds) @ split_on (CHR ''/'') name"
    using split_on_join_append [OF _ plain_is_name [OF assms], of name] by (auto simp: path_string_def)
  moreover have "clean_elems True [] (ds @ ns) = clean_elems True (rev ds) ns" for ns
    using clean_elems_plain [OF assms, of True "[]" ns] by simp
  ultimately show ?thesis
    unfolding resolve_def by (auto simp: Clean_def rooted_path_def path_string_def j)
qed

declare Join.simps [simp del]

lemma path_elems_path_string: "list_all plain es \<Longrightarrow> path_elems (path_string es) = es"
proof (cases "es = []")
  case False
  assume p: "list_all plain es"
  then have "join_slash es \<noteq> []" using False by (cases es rule: join_slash.cases) (auto simp: plain_def)
  then show ?thesis using split_on_join_slash [OF False plain_is_name [OF p]]
    by (simp add: path_elems_def rooted_path_def path_string_def)
qed (simp add: path_elems_def rooted_path_def path_string_def)

lemma strip_common_eq: "strip_common xs ys = (bs, ts) \<Longrightarrow> \<exists>zs. xs = zs @ bs \<and> ys = zs @ ts"
  by (induction xs ys rule: strip_common.induct) (auto split: if_splits intro: exI [of _ "_ # _"])

lemma Rel_path_string:
  assumes "list_all plain ds" "list_all plain es"
  shows "Rel (path_string ds) (path_string es) =
    Inr (if es = ds then ''.'' else let (bs, ts) = strip_common ds es in join_slash (replicate (length bs) ''..'' @ ts))"
proof -
  have r: "rooted_path (path_string xs)" "path_string xs \<noteq> ''.''" for xs by (simp_all add: rooted_path_def path_string_def)
  obtain bs ts where st: "strip_common ds es = (bs, ts)" by force
  then have "bs = [] \<or> hd bs \<noteq> ''..''" using strip_common_eq [OF st] assms(1) by (cases bs) (auto simp: plain_def)
  then show ?thesis
    using path_string_inject [OF plain_is_name [OF assms(2)] plain_is_name [OF assms(1)]] st
    by (auto simp: Rel_def Clean_path_string assms r path_elems_path_string Let_def)
qed

text \<open>The breakout test of the extraction loops.\<close>

lemma Rel_not_outside:
  assumes "list_all plain ds" "list_all plain es" "Rel (path_string ds) (path_string es) = Inr r" "\<not> prefix ''../'' r"
  shows "prefix ds es \<or> es = butlast ds"
proof (cases "es = ds")
  case False
  obtain bs ts where st: "strip_common ds es = (bs, ts)" by force
  obtain zs where z: "ds = zs @ bs" "es = zs @ ts" using strip_common_eq [OF st] by blast
  have r: "r = join_slash (replicate (length bs) ''..'' @ ts)" using assms(3) Rel_path_string [OF assms(1,2)] False st by simp
  show ?thesis
  proof (cases bs)
    case (Cons b bs')
    then have "bs' = [] \<and> ts = []" using r assms(4) by (cases bs'; cases ts) (auto simp: prefix_def)
    then show ?thesis using z Cons by (simp add: butlast_append)
  qed (simp add: z)
qed simp

lemma rev_join_slash_last:
  "es \<noteq> [] \<Longrightarrow> path_string es = (if butlast es = [] then [] else path_string (butlast es)) @ CHR ''/'' # last es"
  by (induction es rule: join_slash.induct) (auto simp: path_string_def split: if_splits)

lemma Dir_Base_path_string:
  assumes "es \<noteq> []" "list_all plain es"
  shows "Dir (path_string es) = path_string (butlast es)" "Base (path_string es) = last es"
proof -
  let ?h = "if butlast es = [] then [] else path_string (butlast es)"
  have l: "plain (last es)" and b: "list_all plain (butlast es)"
    using assms by (auto simp: list_all_iff dest: in_set_butlastD)
  have ps: "path_string es = ?h @ CHR ''/'' # last es" by (rule rev_join_slash_last [OF assms(1)])
  have tw: "takeWhile (\<lambda>c. c \<noteq> CHR ''/'') (rev (last es) @ CHR ''/'' # xs) = rev (last es)"
    "dropWhile (\<lambda>c. c \<noteq> CHR ''/'') (rev (last es) @ CHR ''/'' # xs) = CHR ''/'' # xs" for xs
    using l by (subst takeWhile_append2 dropWhile_append2; auto simp: plain_def)+
  have "upto_last_slash (path_string es) = ?h @ ''/''" unfolding ps by (simp add: upto_last_slash_def tw)
  moreover have "Clean (path_string ds @ ''/'') = path_string ds" if "list_all plain ds" for ds
    using Join_path_string [OF that, of "[]"] that by (simp add: resolve_def path_string_def Join.simps)
  ultimately show "Dir (path_string es) = path_string (butlast es)"
    using b Dir_root by (auto simp: Dir_def upto_last_slash_def path_string_def Clean_def rooted_path_def)
  have "rev (last es) \<noteq> []" "hd (rev (last es)) \<noteq> CHR ''/''" using l by (auto simp: plain_def hd_rev) (metis last_in_set)
  then have "dropWhile (\<lambda>c. c = CHR ''/'') (rev (path_string es)) = rev (path_string es)"
    unfolding ps by (cases "rev (last es)") auto
  then show "Base (path_string es) = last es"
    unfolding Base_def ps by (simp add: tw)
qed

section \<open>Relative cleaned paths\<close>

text \<open>Cleaning a relative path leaves \<open>..\<close> at the front only.\<close>

definition rel_form :: "string list \<Rightarrow> bool" where
  "rel_form es \<longleftrightarrow> (\<exists>k xs. es = replicate k ''..'' @ xs \<and> list_all plain xs)"

lemma rel_form_snoc:
  assumes "rel_form (es @ [a])"
  shows "rel_form es" "a = ''..'' \<Longrightarrow> rel_form (es @ [a, ''..''])"
proof -
  obtain k xs where e: "es @ [a] = replicate k ''..'' @ xs" "list_all plain xs" using assms by (auto simp: rel_form_def)
  show "rel_form es"
  proof (cases xs rule: rev_cases)
    case Nil
    then obtain k' where "k = Suc k'" using e(1) by (cases k) auto
    then have "es = replicate k' ''..''" using e(1) Nil by (simp add: replicate_append_same [symmetric])
    then show ?thesis by (auto simp: rel_form_def intro!: exI [of _ k'] exI [of _ "[]"])
  next
    case (snoc ys y)
    then show ?thesis using e by (auto simp: rel_form_def intro!: exI [of _ k] exI [of _ ys])
  qed
  assume a: "a = ''..''"
  then have "xs = []" using e by (cases xs rule: rev_cases) (auto simp: plain_def)
  then have "es @ [a, ''..''] = replicate (Suc k) ''..'' @ []" using e(1) a
    by (simp add: replicate_append_same [symmetric])
  then show "rel_form (es @ [a, ''..''])" unfolding rel_form_def
    by (intro exI [of _ "Suc k"] exI [of _ "[]"]) simp
qed

lemma clean_elems_rel_form:
  "rel_form (rev acc) \<Longrightarrow> \<forall>n \<in> set ns. CHR ''/'' \<notin> set n \<Longrightarrow> rel_form (clean_elems False acc ns)"
proof (induction ns arbitrary: acc)
  case (Cons n ns)
  consider "n = [] \<or> n = ''.''" | "n = ''..''" | "plain n" using Cons.prems(2) by (auto simp: plain_def)
  then show ?case
  proof cases
    case 1 then show ?thesis using Cons by auto
  next
    case 2
    show ?thesis
    proof (cases acc)
      case Nil
      have "rel_form [''..'']" by (auto simp: rel_form_def intro!: exI [of _ 1] exI [of _ "[]"])
      then show ?thesis using 2 Nil Cons.IH [of "[''..'']"] Cons.prems(2) by simp
    next
      case (Cons a as)
      then show ?thesis using 2 rel_form_snoc [of "rev as" a] Cons.prems Cons.IH [of as] Cons.IH [of "n # acc"] by auto
    qed
  next
    case 3
    then have "rel_form (rev (n # acc))" using Cons.prems(1) by (auto simp: rel_form_def intro!: exI [of _ "_ @ [n]"])
    then show ?thesis using 3 Cons.IH [of "n # acc"] Cons.prems(2) by (auto simp: plain_def)
  qed
qed simp

lemma Base_last:
  assumes "x \<noteq> []" "CHR ''/'' \<notin> set x" "h = [] \<or> last h = CHR ''/''"
  shows "Base (h @ x) = x"
proof -
  have "last x \<noteq> CHR ''/''" using assms(1,2) by (metis last_in_set)
  then have d: "dropWhile (\<lambda>c. c = CHR ''/'') (rev (h @ x)) = rev (h @ x)"
    using assms(1) by (cases x rule: rev_cases) auto
  have "takeWhile (\<lambda>c. c \<noteq> CHR ''/'') (rev x @ rev h) = rev x"
    using assms(2,3) by (cases h rule: rev_cases) (subst takeWhile_append2; auto)+
  then show ?thesis using assms(1) d by (simp add: Base_def)
qed

lemma join_slash_last:
  "es \<noteq> [] \<Longrightarrow> \<exists>h. join_slash es = h @ last es \<and> (h = [] \<or> last h = CHR ''/'')"
proof (induction es rule: join_slash.induct)
  case (3 e f es)
  then obtain h where "join_slash (f # es) = h @ last (f # es)" "h = [] \<or> last h = CHR ''/''" by auto
  then show ?case by (intro exI [of _ "e @ CHR ''/'' # h"]) auto
qed auto

lemma Base_join_slash: "es \<noteq> [] \<Longrightarrow> plain (last es) \<Longrightarrow> Base (join_slash es) = last es"
proof -
  assume "es \<noteq> []" and p: "plain (last es)"
  then obtain h where h: "join_slash es = h @ last es" "h = [] \<or> last h = CHR ''/''" using join_slash_last by blast
  show ?thesis unfolding h(1) by (rule Base_last [OF _ _ h(2)]) (use p in \<open>auto simp: plain_def\<close>)
qed

lemma Clean_relative_base:
  assumes "prefix (CHR ''.'' # c # w) (Clean name)" "c \<noteq> CHR ''.''"
  shows "plain (Base (Clean name))"
proof -
  let ?es = "clean_elems False [] (split_on (CHR ''/'') name)"
  have "Clean name \<noteq> ''.''" "hd (Clean name) \<noteq> CHR ''/''" using assms(1) by (auto simp: prefix_def)
  then have c: "Clean name = join_slash ?es" "?es \<noteq> []" by (auto simp: Clean_def Let_def split: if_splits)
  have "rel_form ?es" by (rule clean_elems_rel_form) (auto simp: rel_form_def dest: split_on_parts)
  then obtain k xs where e: "?es = replicate k ''..'' @ xs" "list_all plain xs" by (auto simp: rel_form_def)
  have "k = 0"
  proof (rule ccontr)
    assume "k \<noteq> 0"
    then obtain es where "?es = ''..'' # es" using e(1) by (cases k) auto
    then have "\<exists>t. join_slash ?es = ''..'' @ t" by (cases es) auto
    then show False using assms c(1) by (auto simp: prefix_def)
  qed
  then have "plain (last ?es)" using e c(2) by (simp add: list_all_iff)
  then show ?thesis using Base_join_slash [OF c(2)] c(1) by simp
qed

lemma resolve_single:
  assumes "CHR ''/'' \<notin> set b"
  shows "resolve ds b = (if b = [] \<or> b = ''.'' then ds
     else if b = ''..'' then (if ds \<noteq> [] \<and> last ds = ''..'' then ds @ [''..''] else butlast ds) else ds @ [b])"
proof -
  have "split_on (CHR ''/'') b = [b]" using assms by (rule split_on_no_sep)
  then show ?thesis by (cases ds rule: rev_cases) (auto simp: resolve_def)
qed

end
