(* ===== verification/ArchiveTar.thy ===== *)
theory ArchiveTar
  imports PathRel
begin

text \<open>
  Extraction of one entry of an archive, \<^verbatim>\<open>pkg/archive/archive.go\<close>, \<^verbatim>\<open>archive_unix.go\<close> and
  \<^verbatim>\<open>whiteouts.go\<close>.

  The operating system is a parameter: a record \<open>osys\<close> of what the code asks of it, on a state \<open>'s\<close>
  that is left open.  Every change goes through \<open>os_Do\<close> with a \<open>sys_call\<close>, which may succeed or
  fail and change the state as it likes.  The tar reader is a parameter too: an archive is the list
  of the results of \<open>tr.Next()\<close>, each a header with the data that follows it, or an error.  Modes
  are those of system calls: the conversions between them and \<open>os.FileMode\<close> are left out, except
  that \<open>hdrInfo.Mode()&07777\<close> keeps only the nine permission bits of an \<open>os.FileMode\<close>.
\<close>

section \<open>The operating system\<close>

datatype sys_call =
    SysMkdir string int
  | SysMkdirAll string int
  | SysWriteFile string int bytes
  | SysMknod string int int
  | SysLink string string
  | SysSymlink string string
  | SysLsetxattr string string bytes
  | SysSetxattr string string bytes
  | SysLchown string int int
  | SysChown string int int
  | SysChmod string int
  | SysChtimes string int int
  | SysLUtimes string int int
  | SysRemoveAll string
  | SysRemove string
  | SysRename string string
  | SysRmdir string
  | SysMount string string string int string
  | SysUnmount string int
  | SysRun string "string list"

record 's osys =
  os_Do :: "sys_call \<Rightarrow> ('s, unit) go"
  os_Lstat :: "string \<Rightarrow> 's \<Rightarrow> gerr + Stat_t"
  os_Stat :: "string \<Rightarrow> 's \<Rightarrow> gerr + Stat_t"
  os_ReadFile :: "string \<Rightarrow> 's \<Rightarrow> gerr + bytes"
  os_Readlink :: "string \<Rightarrow> 's \<Rightarrow> gerr + string"
  os_Lgetxattr :: "string \<Rightarrow> string \<Rightarrow> 's \<Rightarrow> gerr + bytes option"
  os_Llistxattr :: "string \<Rightarrow> 's \<Rightarrow> gerr + string list"
  os_Readdirnames :: "string \<Rightarrow> 's \<Rightarrow> gerr + string list"
  os_TempDir :: "string \<Rightarrow> ('s, string) go"

definition query :: "('s \<Rightarrow> gerr + 'a) \<Rightarrow> ('s, gerr + 'a) go" where
  "query q s = (Inr (q s), s)"

text \<open>The same system beside other state.\<close>

definition osys_fst :: "'s osys \<Rightarrow> ('s \<times> 't) osys" where
  "osys_fst sys =
     \<lparr>os_Do = (\<lambda>c. on_fst (os_Do sys c)),
      os_Lstat = (\<lambda>p s. os_Lstat sys p (fst s)),
      os_Stat = (\<lambda>p s. os_Stat sys p (fst s)),
      os_ReadFile = (\<lambda>p s. os_ReadFile sys p (fst s)),
      os_Readlink = (\<lambda>p s. os_Readlink sys p (fst s)),
      os_Lgetxattr = (\<lambda>p k s. os_Lgetxattr sys p k (fst s)),
      os_Llistxattr = (\<lambda>p s. os_Llistxattr sys p (fst s)),
      os_Readdirnames = (\<lambda>p s. os_Readdirnames sys p (fst s)),
      os_TempDir = (\<lambda>pat. on_fst (os_TempDir sys pat))\<rparr>"

subsection \<open>filepath.Walk\<close>

text \<open>
  \<open>Walk\<close> calls a function with each path, what \<open>Lstat\<close> gave for it and the error met there, if any;
  the value \<open>True\<close> stands for \<open>filepath.SkipDir\<close>.  It descends into whatever the operating system
  shows, which need not end, so it has fuel; running out of it is the outcome \<open>Blocked\<close>.
\<close>

type_synonym 's walk_fn = "string \<Rightarrow> Stat_t option \<Rightarrow> gerr option \<Rightarrow> ('s, bool) go"

fun walk_tree :: "nat \<Rightarrow> 's osys \<Rightarrow> 's walk_fn \<Rightarrow> string \<Rightarrow> Stat_t \<Rightarrow> ('s, bool) go"
and walk_entries :: "nat \<Rightarrow> 's osys \<Rightarrow> 's walk_fn \<Rightarrow> string \<Rightarrow> string list \<Rightarrow> ('s, bool) go" where
  "walk_tree 0 sys fn path info = fail (Blocked ''filepath.Walk'')"
| "walk_tree (Suc fuel) sys fn path info =
     (if \<not> IsDir info then fn path (Some info) None
      else bind (query (os_Readdirnames sys path)) (\<lambda>r.
           case r of
             Inl e \<Rightarrow> fn path (Some info) (Some e)
           | Inr names \<Rightarrow>
               bind (fn path (Some info) None) (\<lambda>skip.
                 if skip then ret True else walk_entries fuel sys fn path (sort names))))"
| "walk_entries fuel sys fn path [] = ret False"
| "walk_entries fuel sys fn path (name # names) =
     (let filename = Join [path, name] in
      bind (query (os_Lstat sys filename)) (\<lambda>r.
        case r of
          Inl e \<Rightarrow> bind (fn filename None (Some e)) (\<lambda>_. walk_entries fuel sys fn path names)
        | Inr fi \<Rightarrow>
            bind (walk_tree fuel sys fn filename fi) (\<lambda>skip.
              if skip \<and> \<not> IsDir fi then ret True else walk_entries fuel sys fn path names)))"

definition Walk :: "nat \<Rightarrow> 's osys \<Rightarrow> string \<Rightarrow> 's walk_fn \<Rightarrow> ('s, unit) go" where
  "Walk fuel sys root fn =
     bind (query (os_Lstat sys root)) (\<lambda>r.
     bind (case r of Inl e \<Rightarrow> fn root None (Some e) | Inr info \<Rightarrow> walk_tree fuel sys fn root info) (\<lambda>_. ret ()))"

definition EPERM :: gerr where
  "EPERM = SysErr 1"

definition ENOTDIR :: gerr where
  "ENOTDIR = SysErr 20"

definition isENOTDIR :: "gerr \<Rightarrow> bool" where
  "isENOTDIR e \<longleftrightarrow> e = ENOTDIR"

section \<open>Headers and options\<close>

datatype Typeflag =
    TypeReg | TypeRegA | TypeLink | TypeSymlink | TypeChar | TypeBlock | TypeDir | TypeFifo
  | TypeXGlobalHeader | TypeOther nat

record tarHeader =
  h_Typeflag :: Typeflag
  h_Name :: string
  h_Linkname :: string
  h_Size :: int
  h_Mode :: int
  h_Uid :: int
  h_Gid :: int
  h_ModTime :: int
  h_AccessTime :: int
  h_Devmajor :: int
  h_Devminor :: int
  h_Xattrs :: "(string \<times> bytes) list"

type_synonym tar_stream = "(gerr + (tarHeader \<times> bytes)) list"

datatype WhiteoutFormat = AUFSWhiteoutFormat | OverlayWhiteoutFormat

record TarOptions =
  t_ExcludePatterns :: "string list"
  t_NoLchown :: bool
  t_UIDMaps :: idmaps
  t_GIDMaps :: idmaps
  t_IgnoreChownErrors :: bool
  t_ChownOpts :: "IDPair option"
  t_WhiteoutFormat :: WhiteoutFormat
  t_NoOverwriteDirNonDir :: bool
  t_InUserNS :: bool
  t_ForceMask :: "int option"

definition no_tar_options :: TarOptions where
  "no_tar_options = \<lparr>t_ExcludePatterns = [], t_NoLchown = False, t_UIDMaps = None, t_GIDMaps = None,
     t_IgnoreChownErrors = False, t_ChownOpts = None, t_WhiteoutFormat = AUFSWhiteoutFormat,
     t_NoOverwriteDirNonDir = False, t_InUserNS = False, t_ForceMask = None\<rparr>"

definition WhiteoutPrefix :: string where
  "WhiteoutPrefix = ''.wh.''"

definition WhiteoutMetaPrefix :: string where
  "WhiteoutMetaPrefix = WhiteoutPrefix @ WhiteoutPrefix"

definition WhiteoutLinkDir :: string where
  "WhiteoutLinkDir = WhiteoutMetaPrefix @ ''plnk''"

definition WhiteoutOpaqueDir :: string where
  "WhiteoutOpaqueDir = WhiteoutMetaPrefix @ ''.opq''"

definition containersOverrideXattr :: string where
  "containersOverrideXattr = ''user.containers.override_stat''"

definition xattrsToIgnore :: "string list" where
  "xattrsToIgnore = [''security.selinux'']"

definition remapIDs :: "IDMappings option \<Rightarrow> IDMappings option \<Rightarrow> IDPair option \<Rightarrow> tarHeader \<Rightarrow> gerr + tarHeader" where
  "remapIDs readIDMappings writeIDMappings chownOpts hdr =
     (case (case chownOpts of
              Some p \<Rightarrow> Inr (UID p, GID p)
            | None \<Rightarrow>
                (case readIDMappings of
                   Some m \<Rightarrow> if \<not> Empty m then ToContainer m \<lparr>UID = h_Uid hdr, GID = h_Gid hdr\<rparr>
                             else Inr (h_Uid hdr, h_Gid hdr)
                 | None \<Rightarrow> Inr (h_Uid hdr, h_Gid hdr))) of
        Inl e \<Rightarrow> Inl e
      | Inr (uid, gid) \<Rightarrow>
          (case (case writeIDMappings of
                   Some m \<Rightarrow> if \<not> Empty m then ToHost m \<lparr>UID = uid, GID = gid\<rparr> else Inr \<lparr>UID = uid, GID = gid\<rparr>
                 | None \<Rightarrow> Inr \<lparr>UID = uid, GID = gid\<rparr>) of
             Inl e \<Rightarrow> Inl e
           | Inr ids \<Rightarrow> Inr (hdr\<lparr>h_Uid := UID ids, h_Gid := GID ids\<rparr>)))"

section \<open>One entry\<close>

text \<open>\<open>idtools.SafeLchown\<close> and \<open>SafeChown\<close>: nothing is done if the owner is right already.\<close>

definition owned_by :: "gerr + Stat_t \<Rightarrow> int \<Rightarrow> int \<Rightarrow> bool" where
  "owned_by r uid gid =
     (case r of Inl _ \<Rightarrow> False | Inr st \<Rightarrow> sys_Uid st = word_of_int uid \<and> sys_Gid st = word_of_int gid)"

definition SafeLchown :: "'s osys \<Rightarrow> string \<Rightarrow> int \<Rightarrow> int \<Rightarrow> ('s, unit) go" where
  "SafeLchown sys name uid gid =
     bind (query (os_Lstat sys name)) (\<lambda>r.
       if owned_by r uid gid then ret () else os_Do sys (SysLchown name uid gid))"

definition SafeChown :: "'s osys \<Rightarrow> string \<Rightarrow> int \<Rightarrow> int \<Rightarrow> ('s, unit) go" where
  "SafeChown sys name uid gid =
     bind (query (os_Stat sys name)) (\<lambda>r.
       if owned_by r uid gid then ret () else os_Do sys (SysChown name uid gid))"

definition Mkdev :: "int \<Rightarrow> int \<Rightarrow> int" where
  "Mkdev major minor =
     (push_bit 12 (minor AND 0xfff00) OR push_bit 8 (major AND 0xfff) OR (minor AND 0xff)) mod 2 ^ 32"

definition handleTarTypeBlockCharFifo :: "'s osys \<Rightarrow> tarHeader \<Rightarrow> string \<Rightarrow> ('s, unit) go" where
  "handleTarTypeBlockCharFifo sys hdr path =
     (let mode = h_Mode hdr AND 0xFFF;
          mode' = (case h_Typeflag hdr of
                     TypeBlock \<Rightarrow> mode OR 0x6000
                   | TypeChar \<Rightarrow> mode OR 0x2000
                   | TypeFifo \<Rightarrow> mode OR 0x1000
                   | _ \<Rightarrow> mode)
      in os_Do sys (SysMknod path mode' (Mkdev (h_Devmajor hdr) (h_Devminor hdr))))"

definition is_symlink :: "Stat_t \<Rightarrow> bool" where
  "is_symlink st \<longleftrightarrow> sys_Mode st AND S_IFMT = 0xA000"

text \<open>
  For a hard link, mode and times are set only if \<open>hdr.Linkname\<close>, taken relative to the working
  directory of the process, exists and is not a symbolic link.
\<close>

definition link_target_plain :: "'s osys \<Rightarrow> tarHeader \<Rightarrow> ('s, bool) go" where
  "link_target_plain sys hdr =
     bind (query (os_Lstat sys (h_Linkname hdr))) (\<lambda>r.
       ret (case r of Inl _ \<Rightarrow> False | Inr fi \<Rightarrow> \<not> is_symlink fi))"

definition entry_mask :: "tarHeader \<Rightarrow> int option \<Rightarrow> int" where
  "entry_mask hdr forceMask = (case forceMask of None \<Rightarrow> h_Mode hdr AND 0xFFF | Some m \<Rightarrow> m)"

definition handleLChmod :: "'s osys \<Rightarrow> tarHeader \<Rightarrow> string \<Rightarrow> int option \<Rightarrow> ('s, unit) go" where
  "handleLChmod sys hdr path forceMask =
     (let permissionsMask = entry_mask hdr forceMask in
      if h_Typeflag hdr = TypeLink then
        bind (link_target_plain sys hdr) (\<lambda>ok. if ok then os_Do sys (SysChmod path permissionsMask) else ret ())
      else if h_Typeflag hdr \<noteq> TypeSymlink then os_Do sys (SysChmod path permissionsMask)
      else ret ())"

text \<open>The switch of \<open>createTarFile\<close>; the result is \<open>False\<close> if the function returns there.\<close>

definition create_entry :: "'s osys \<Rightarrow> string \<Rightarrow> string \<Rightarrow> tarHeader \<Rightarrow> bytes \<Rightarrow> bool \<Rightarrow> int option \<Rightarrow> ('s, bool) go" where
  "create_entry sys path extractDir hdr data inUserns forceMask =
     (let mask = entry_mask hdr forceMask;
          special = bind (handleTarTypeBlockCharFifo sys hdr path) (\<lambda>_. ret True) in
      case h_Typeflag hdr of
        TypeDir \<Rightarrow>
          bind (query (os_Lstat sys path)) (\<lambda>r.
            if (case r of Inl _ \<Rightarrow> False | Inr fi \<Rightarrow> IsDir fi) then ret True
            else bind (os_Do sys (SysMkdir path mask)) (\<lambda>_. ret True))
      | TypeReg \<Rightarrow> bind (os_Do sys (SysWriteFile path mask data)) (\<lambda>_. ret True)
      | TypeRegA \<Rightarrow> bind (os_Do sys (SysWriteFile path mask data)) (\<lambda>_. ret True)
      | TypeBlock \<Rightarrow> if inUserns then ret False else special
      | TypeChar \<Rightarrow> if inUserns then ret False else special
      | TypeFifo \<Rightarrow> special
      | TypeLink \<Rightarrow>
          (let targetPath = Join [extractDir, h_Linkname hdr] in
           if \<not> prefix extractDir targetPath then fail (Errorf ''invalid hardlink'')
           else bind (os_Do sys (SysLink targetPath path)) (\<lambda>_. ret True))
      | TypeSymlink \<Rightarrow>
          (let targetPath = Join [Dir path, h_Linkname hdr] in
           if \<not> prefix extractDir targetPath then fail (Errorf ''invalid symlink'')
           else bind (os_Do sys (SysSymlink (h_Linkname hdr) path)) (\<lambda>_. ret True))
      | TypeXGlobalHeader \<Rightarrow> ret False
      | TypeOther _ \<Rightarrow> fail (Errorf ''unhandled tar header type''))"

fun show_octal :: "nat \<Rightarrow> string" where
  "show_octal n = (if n < 8 then [digit_of n] else show_octal (n div 8) @ [digit_of (n mod 8)])"

definition show_int :: "int \<Rightarrow> string" where
  "show_int i = (if i < 0 then CHR ''-'' # show_nat (nat (- i)) else show_nat (nat i))"

definition override_value :: "tarHeader \<Rightarrow> string" where
  "override_value hdr =
     show_int (h_Uid hdr) @ '':'' @ show_int (h_Gid hdr) @ '':0'' @ show_octal (nat (h_Mode hdr AND 0x1FF))"

fun set_xattrs :: "'s osys \<Rightarrow> string \<Rightarrow> bool \<Rightarrow> (string \<times> bytes) list \<Rightarrow> ('s, unit) go" where
  "set_xattrs sys path inUserns [] = ret ()"
| "set_xattrs sys path inUserns ((key, value) # xs) =
     (if key \<in> set xattrsToIgnore then set_xattrs sys path inUserns xs
      else bind (attempt (os_Do sys (SysLsetxattr path key value))) (\<lambda>r.
           case r of
             Inr _ \<Rightarrow> set_xattrs sys path inUserns xs
           | Inl e \<Rightarrow> if e = EOPNOTSUPP \<or> inUserns \<and> e = EPERM then set_xattrs sys path inUserns xs else fail e))"

definition set_times :: "'s osys \<Rightarrow> string \<Rightarrow> tarHeader \<Rightarrow> ('s, unit) go" where
  "set_times sys path hdr =
     (let aTime = (if h_AccessTime hdr < h_ModTime hdr then h_ModTime hdr else h_AccessTime hdr) in
      if h_Typeflag hdr = TypeLink then
        bind (link_target_plain sys hdr) (\<lambda>ok. if ok then os_Do sys (SysChtimes path aTime (h_ModTime hdr)) else ret ())
      else if h_Typeflag hdr \<noteq> TypeSymlink then os_Do sys (SysChtimes path aTime (h_ModTime hdr))
      else os_Do sys (SysLUtimes path aTime (h_ModTime hdr)))"

definition chown_entry :: "'s osys \<Rightarrow> string \<Rightarrow> tarHeader \<Rightarrow> IDPair option \<Rightarrow> bool \<Rightarrow> ('s, unit) go" where
  "chown_entry sys path hdr chownOpts ignoreChownErrors =
     (let p = (case chownOpts of None \<Rightarrow> \<lparr>UID = h_Uid hdr, GID = h_Gid hdr\<rparr> | Some p \<Rightarrow> p) in
      bind (attempt (SafeLchown sys path (UID p) (GID p))) (\<lambda>r.
        case r of Inr _ \<Rightarrow> ret () | Inl e \<Rightarrow> if ignoreChownErrors then ret () else fail e))"

definition createTarFile ::
  "'s osys \<Rightarrow> string \<Rightarrow> string \<Rightarrow> tarHeader \<Rightarrow> bytes \<Rightarrow> bool \<Rightarrow> IDPair option \<Rightarrow> bool \<Rightarrow> bool \<Rightarrow> int option \<Rightarrow> ('s, unit) go" where
  "createTarFile sys path extractDir hdr data lchown chownOpts inUserns ignoreChownErrors forceMask =
     bind (create_entry sys path extractDir hdr data inUserns forceMask) (\<lambda>go_on.
     if \<not> go_on then ret ()
     else bind (if forceMask \<noteq> None \<and> h_Typeflag hdr \<noteq> TypeSymlink
                then os_Do sys (SysLsetxattr path containersOverrideXattr (override_value hdr)) else ret ()) (\<lambda>_.
          bind (if lchown then chown_entry sys path hdr chownOpts ignoreChownErrors else ret ()) (\<lambda>_.
          bind (handleLChmod sys hdr path forceMask) (\<lambda>_.
          bind (set_times sys path hdr) (\<lambda>_.
          set_xattrs sys path inUserns (h_Xattrs hdr))))))"

section \<open>What a walk preserves\<close>

lemma keeps_Pair [simp]: "keeps P (Pair r)"
  by (simp add: keeps_def)

lemma keeps_query [keeps_rules]: "keeps P (query q)"
  by (simp add: keeps_def query_def)

lemma keeps_if [keeps_rules]: "(b \<Longrightarrow> keeps P m) \<Longrightarrow> (\<not> b \<Longrightarrow> keeps P n) \<Longrightarrow> keeps P (if b then m else n)"
  by simp

lemma keeps_case_sum [keeps_rules]:
  "(\<And>e. keeps P (f e)) \<Longrightarrow> (\<And>x. keeps P (g x)) \<Longrightarrow> keeps P (case r of Inl e \<Rightarrow> f e | Inr x \<Rightarrow> g x)"
  by (cases r) simp_all

lemma keeps_bind_query:
  "(\<And>s. Q s \<Longrightarrow> keeps Q (f (q s))) \<Longrightarrow> keeps Q (bind (query q) f)"
  by (simp add: keeps_def bind_def query_def)

lemma keeps_walk_entries:
  assumes fn: "\<And>p i e. I p \<Longrightarrow> keeps Q (fn p i e)" and tree: "\<And>p info. I p \<Longrightarrow> keeps Q (walk_tree fuel sys fn p info)"
  shows "(\<And>n. n \<in> set names \<Longrightarrow> I (Join [path, n])) \<Longrightarrow> keeps Q (walk_entries fuel sys fn path names)"
proof (induction names)
  case (Cons n names)
  then show ?case using fn tree by (auto simp: Let_def intro!: keeps_rules)
qed (simp only: walk_entries.simps keeps_ret)

text \<open>
  A walk preserves what the function it calls preserves on the paths it reaches.
\<close>

lemma keeps_walk_tree:
  assumes fn: "\<And>p i e. I p \<Longrightarrow> keeps Q (fn p i e)"
    and step: "\<And>p n s names. I p \<Longrightarrow> os_Readdirnames sys p s = Inr names \<Longrightarrow> n \<in> set names \<Longrightarrow> I (Join [p, n])"
  shows "I path \<Longrightarrow> keeps Q (walk_tree fuel sys fn path info)"
proof (induction fuel arbitrary: path info)
  case (Suc fuel)
  have "keeps Q (case os_Readdirnames sys path s of
      Inl e \<Rightarrow> fn path (Some info) (Some e)
    | Inr names \<Rightarrow> bind (fn path (Some info) None) (\<lambda>skip.
        if skip then ret True else walk_entries fuel sys fn path (sort names)))" for s
  proof (cases "os_Readdirnames sys path s")
    case (Inr names)
    have "keeps Q (walk_entries fuel sys fn path (sort names))"
      by (rule keeps_walk_entries [where I = I, OF fn Suc.IH]) (use step [OF Suc.prems Inr] in simp_all)
    then show ?thesis using Inr fn [OF Suc.prems] by (auto intro!: keeps_rules)
  qed (use fn [OF Suc.prems] in simp)
  then show ?case unfolding walk_tree.simps using fn [OF Suc.prems] by (intro keeps_if keeps_bind_query)
qed (simp only: walk_tree.simps keeps_fail)

lemma keeps_Walk:
  assumes "\<And>p i e. I p \<Longrightarrow> keeps Q (fn p i e)"
    and "\<And>p n s names. I p \<Longrightarrow> os_Readdirnames sys p s = Inr names \<Longrightarrow> n \<in> set names \<Longrightarrow> I (Join [p, n])" and "I root"
  shows "keeps Q (Walk fuel sys root fn)"
  unfolding Walk_def using assms(1,3) keeps_walk_tree [of I Q fn sys root, OF assms] by (auto intro!: keeps_rules)

end
