(* ===== verification/ArchiveUnpack.thy ===== *)
theory ArchiveUnpack
  imports ArchiveTar
begin

text \<open>
  \<open>UnpackLayer\<close> of \<^verbatim>\<open>pkg/archive/diff.go\<close>: a layer in the standard format is applied to a directory.

  The local variables of the loop are fields of a record beside the state of the operating system,
  because the deferred removal of the temporary directory runs on every return.
\<close>

section \<open>UnpackLayer\<close>

record 's unpacking =
  up_sys :: 's
  up_dirs :: "tarHeader list"
  up_paths :: "string list"
  up_tmp :: string
  up_links :: "(string \<times> tarHeader) list"
  up_size :: int

definition on_sys :: "('s, 'a) go \<Rightarrow> ('s unpacking, 'a) go" where
  "on_sys m u = (let (r, s') = m (up_sys u) in (r, u\<lparr>up_sys := s'\<rparr>))"

definition with_up :: "('s unpacking \<Rightarrow> ('s unpacking, 'a) go) \<Rightarrow> ('s unpacking, 'a) go" where
  "with_up f u = f u u"

text \<open>Missing parents are made before the name is checked.\<close>

definition make_parent :: "'s osys \<Rightarrow> string \<Rightarrow> string \<Rightarrow> ('s, unit) go" where
  "make_parent sys dest name =
     (if suffix ''/'' name then ret ()
      else let parentPath = Join [dest, Dir name] in
           bind (query (os_Lstat sys parentPath)) (\<lambda>r.
             if r = Inl NotExist then os_Do sys (SysMkdirAll parentPath 0x180) else ret ()))"

text \<open>Files of \<open>.wh..wh.plnk\<close> go to a temporary directory, as targets of later hard links.\<close>

definition unpack_plnk :: "'s osys \<Rightarrow> string \<Rightarrow> TarOptions \<Rightarrow> tarHeader \<Rightarrow> bytes \<Rightarrow> ('s unpacking, unit) go" where
  "unpack_plnk sys dest opts hdr data =
     (if prefix WhiteoutLinkDir (h_Name hdr) \<and> h_Typeflag hdr = TypeReg then
        let basename = Base (h_Name hdr) in
        bind (modify (up_links_update (AList.update basename hdr))) (\<lambda>_.
        bind (with_up (\<lambda>u. if up_tmp u = [] then
                bind (on_sys (os_TempDir sys ''storageplnk'')) (\<lambda>d. modify (up_tmp_update (\<lambda>_. d)))
              else ret ())) (\<lambda>_.
        with_up (\<lambda>u. on_sys (createTarFile sys (Join [up_tmp u, basename]) dest hdr data True None
          (t_InUserNS opts) (t_IgnoreChownErrors opts) (t_ForceMask opts)))))
      else ret ())"

text \<open>The function that the walk over an opaque directory calls.\<close>

definition opaque_visit :: "'s osys \<Rightarrow> string \<Rightarrow> string list \<Rightarrow> 's walk_fn" where
  "opaque_visit sys dir unpacked path info err =
     (case err of
        Some e \<Rightarrow> if e = NotExist then ret False else fail e
      | None \<Rightarrow> if path = dir \<or> path \<in> set unpacked then ret False
                else bind (os_Do sys (SysRemoveAll path)) (\<lambda>_. ret False))"

definition unpack_whiteout :: "nat \<Rightarrow> 's osys \<Rightarrow> string \<Rightarrow> ('s unpacking, unit) go" where
  "unpack_whiteout fuel sys path =
     (let base = Base path; dir = Dir path in
      if base = WhiteoutOpaqueDir then
        bind (on_sys (query (os_Lstat sys dir))) (\<lambda>r.
          case r of
            Inl e \<Rightarrow> fail e
          | Inr _ \<Rightarrow> with_up (\<lambda>u. on_sys (Walk fuel sys dir (opaque_visit sys dir (up_paths u)))))
      else on_sys (os_Do sys (SysRemoveAll (Join [dir, drop (length WhiteoutPrefix) base]))))"

text \<open>
  The header and data to extract: a hard link into \<open>.wh..wh.plnk\<close> stands for the file kept in the
  temporary directory.  The flag says whether the header is one of \<open>aufsHardlinks\<close>, which
  \<open>remapIDs\<close> then changes in place.
\<close>

definition link_source :: "'s osys \<Rightarrow> tarHeader \<Rightarrow> bytes \<Rightarrow> ('s unpacking, tarHeader \<times> bytes \<times> bool) go" where
  "link_source sys hdr data =
     (if h_Typeflag hdr = TypeLink \<and> prefix WhiteoutLinkDir (Clean (h_Linkname hdr)) then
        let linkBasename = Base (h_Linkname hdr) in
        with_up (\<lambda>u. case map_of (up_links u) linkBasename of
            None \<Rightarrow> fail (Errorf ''Invalid aufs hardlink'')
          | Some srcHdr \<Rightarrow>
              bind (on_sys (query (os_ReadFile sys (Join [up_tmp u, linkBasename])))) (\<lambda>r.
                case r of Inl e \<Rightarrow> fail e | Inr d \<Rightarrow> ret (srcHdr, d, True)))
      else ret (hdr, data, False))"

text \<open>Of the headers kept in \<open>dirs\<close> only the name and the times are read again.\<close>

definition unpack_file :: "'s osys \<Rightarrow> string \<Rightarrow> TarOptions \<Rightarrow> string \<Rightarrow> tarHeader \<Rightarrow> bytes \<Rightarrow> ('s unpacking, unit) go" where
  "unpack_file sys dest opts path hdr data =
     bind (on_sys (query (os_Lstat sys path))) (\<lambda>r.
     bind (case r of
             Inl _ \<Rightarrow> ret ()
           | Inr fi \<Rightarrow> if IsDir fi \<and> h_Typeflag hdr = TypeDir then ret () else on_sys (os_Do sys (SysRemoveAll path))) (\<lambda>_.
     bind (link_source sys hdr data) (\<lambda>(srcHdr, srcData, kept).
     case remapIDs None (Some (NewIDMappingsFromMaps (t_UIDMaps opts) (t_GIDMaps opts))) (t_ChownOpts opts) srcHdr of
       Inl e \<Rightarrow> fail e
     | Inr srcHdr' \<Rightarrow>
         bind (if kept then modify (up_links_update (AList.update (Base (h_Linkname hdr)) srcHdr')) else ret ()) (\<lambda>_.
         bind (on_sys (createTarFile sys path dest srcHdr' srcData True None
                 (t_InUserNS opts) (t_IgnoreChownErrors opts) (t_ForceMask opts))) (\<lambda>_.
         bind (if h_Typeflag hdr = TypeDir then modify (up_dirs_update (\<lambda>ds. ds @ [hdr])) else ret ()) (\<lambda>_.
         modify (up_paths_update (\<lambda>ps. path # ps))))))))"

definition unpack_named :: "nat \<Rightarrow> 's osys \<Rightarrow> string \<Rightarrow> TarOptions \<Rightarrow> tarHeader \<Rightarrow> bytes \<Rightarrow> ('s unpacking, unit) go" where
  "unpack_named fuel sys dest opts hdr data =
     (let path = Join [dest, h_Name hdr] in
      case Rel dest path of
        Inl e \<Rightarrow> fail e
      | Inr rel \<Rightarrow>
          if prefix ''../'' rel then fail (Errorf ''is outside of'')
          else if prefix WhiteoutPrefix (Base path) then unpack_whiteout fuel sys path
          else unpack_file sys dest opts path hdr data)"

definition unpack_entry :: "nat \<Rightarrow> 's osys \<Rightarrow> string \<Rightarrow> TarOptions \<Rightarrow> tarHeader \<Rightarrow> bytes \<Rightarrow> ('s unpacking, unit) go" where
  "unpack_entry fuel sys dest opts hdr0 data =
     (let hdr = hdr0\<lparr>h_Name := Clean (h_Name hdr0)\<rparr> in
      bind (modify (up_size_update (\<lambda>n. int64 (n + h_Size hdr)))) (\<lambda>_.
      bind (on_sys (make_parent sys dest (h_Name hdr))) (\<lambda>_.
      if prefix WhiteoutMetaPrefix (h_Name hdr) then
        bind (unpack_plnk sys dest opts hdr data) (\<lambda>_.
          if h_Name hdr \<noteq> WhiteoutOpaqueDir then ret () else unpack_named fuel sys dest opts hdr data)
      else unpack_named fuel sys dest opts hdr data)))"

fun unpack_loop :: "nat \<Rightarrow> 's osys \<Rightarrow> string \<Rightarrow> TarOptions \<Rightarrow> tar_stream \<Rightarrow> ('s unpacking, unit) go" where
  "unpack_loop fuel sys dest opts [] = ret ()"
| "unpack_loop fuel sys dest opts (Inl e # tr) = fail e"
| "unpack_loop fuel sys dest opts (Inr (hdr, data) # tr) =
     bind (unpack_entry fuel sys dest opts hdr data) (\<lambda>_. unpack_loop fuel sys dest opts tr)"

fun set_dir_times :: "'s osys \<Rightarrow> string \<Rightarrow> tarHeader list \<Rightarrow> ('s, unit) go" where
  "set_dir_times sys dest [] = ret ()"
| "set_dir_times sys dest (hdr # hdrs) =
     bind (os_Do sys (SysChtimes (Join [dest, h_Name hdr]) (h_AccessTime hdr) (h_ModTime hdr))) (\<lambda>_.
       set_dir_times sys dest hdrs)"

definition UnpackLayer :: "nat \<Rightarrow> 's osys \<Rightarrow> string \<Rightarrow> tar_stream \<Rightarrow> TarOptions option \<Rightarrow> ('s, int) go" where
  "UnpackLayer fuel sys dest layer options s =
     (let opts = (case options of None \<Rightarrow> no_tar_options | Some t \<Rightarrow> t);
          body = bind (unpack_loop fuel sys dest opts layer) (\<lambda>_.
                 with_up (\<lambda>u. on_sys (set_dir_times sys dest (up_dirs u))));
          cleanup = with_up (\<lambda>u. if up_tmp u = [] then ret () else on_sys (os_Do sys (SysRemoveAll (up_tmp u))));
          (r, u) = deferred cleanup (bind body (\<lambda>_. with_up (\<lambda>u. ret (up_size u))))
                     \<lparr>up_sys = s, up_dirs = [], up_paths = [], up_tmp = [], up_links = [], up_size = 0\<rparr>
      in (r, up_sys u))"

end
