(* ===== verification/ArchiveConfined.thy ===== *)
theory ArchiveConfined
  imports ArchiveUnpack
begin

text \<open>
  Where extraction writes.  \<open>logged\<close> records the calls of an operating system; every call that
  \<open>UnpackLayer\<close> makes is \<open>confined\<close>: it changes a path below the destination or the temporary
  directory, or makes the parent directories of an entry, and a link that it makes passes the test
  on its target.
\<close>

section \<open>Confined calls\<close>

definition inside :: "path \<Rightarrow> string \<Rightarrow> bool" where
  "inside ds q \<longleftrightarrow> (\<exists>es. list_all plain es \<and> prefix ds es \<and> q = path_string es)"

fun sys_target :: "sys_call \<Rightarrow> string" where
  "sys_target (SysMkdir p m) = p"
| "sys_target (SysMkdirAll p m) = p"
| "sys_target (SysWriteFile p m d) = p"
| "sys_target (SysMknod p m d) = p"
| "sys_target (SysLink old p) = p"
| "sys_target (SysSymlink old p) = p"
| "sys_target (SysLsetxattr p k v) = p"
| "sys_target (SysSetxattr p k v) = p"
| "sys_target (SysLchown p u g) = p"
| "sys_target (SysChown p u g) = p"
| "sys_target (SysChmod p m) = p"
| "sys_target (SysChtimes p a m) = p"
| "sys_target (SysLUtimes p a m) = p"
| "sys_target (SysRemoveAll p) = p"
| "sys_target (SysRemove p) = p"
| "sys_target (SysRename old p) = p"
| "sys_target (SysRmdir p) = p"
| "sys_target (SysMount dir src p fl data) = p"
| "sys_target (SysUnmount p fl) = p"
| "sys_target (SysRun prog args) = prog"

fun link_checked :: "path \<Rightarrow> sys_call \<Rightarrow> bool" where
  "link_checked ds (SysLink old p) = prefix (path_string ds) old"
| "link_checked ds (SysSymlink old p) = prefix (path_string ds) (Join [Dir p, old])"
| "link_checked ds c = True"

definition confined :: "sys_call set \<Rightarrow> path \<Rightarrow> path \<Rightarrow> sys_call \<Rightarrow> bool" where
  "confined M ds tds c \<longleftrightarrow>
     (c \<in> M \<or> inside ds (sys_target c) \<or> inside tds (sys_target c)) \<and> link_checked ds c"

definition logged :: "'s osys \<Rightarrow> ('s \<times> sys_call list) osys" where
  "logged sys = (osys_fst sys)\<lparr>os_Do := (\<lambda>c (s, l). let (r, s') = os_Do sys c s in (r, (s', c # l)))\<rparr>"

text \<open>
  What is asked of the operating system: the names in a directory are plain, and a new temporary
  directory is an absolute cleaned path below \<open>tds\<close>.
\<close>

definition names_plain :: "'s osys \<Rightarrow> bool" where
  "names_plain sys \<longleftrightarrow> (\<forall>p s names. os_Readdirnames sys p s = Inr names \<longrightarrow> list_all plain names)"

definition temp_below :: "path \<Rightarrow> 's osys \<Rightarrow> bool" where
  "temp_below tds sys \<longleftrightarrow> (\<forall>pat s d s'. os_TempDir sys pat s = (Inr d, s') \<longrightarrow> inside tds d)"

definition allows :: "sys_call set \<Rightarrow> path \<Rightarrow> path \<Rightarrow> ('s \<Rightarrow> bool) \<Rightarrow> 's osys \<Rightarrow> bool" where
  "allows M ds tds Q sys \<longleftrightarrow> (\<forall>c. confined M ds tds c \<longrightarrow> keeps Q (os_Do sys c))"

definition obeys :: "sys_call set \<Rightarrow> path \<Rightarrow> path \<Rightarrow> ('s \<Rightarrow> bool) \<Rightarrow> 's osys \<Rightarrow> bool" where
  "obeys M ds tds Q sys \<longleftrightarrow>
     allows M ds tds Q sys \<and> (\<forall>pat. keeps Q (os_TempDir sys pat)) \<and>
     names_plain sys \<and> temp_below tds sys"

lemma logged_allows: "allows M ds tds (\<lambda>(s, l). list_all (confined M ds tds) l) (logged sys)"
  unfolding allows_def keeps_def logged_def by (auto split: prod.splits)

lemma logged_obeys:
  "names_plain sys \<Longrightarrow> temp_below tds sys \<Longrightarrow> obeys M ds tds (\<lambda>(s, l). list_all (confined M ds tds) l) (logged sys)"
  unfolding obeys_def keeps_def names_plain_def temp_below_def
  by (auto simp: logged_allows) (auto simp: logged_def osys_fst_def on_fst_def split: prod.splits, blast)

section \<open>One entry\<close>

lemma obeys_allows: "obeys M ds tds Q sys \<Longrightarrow> allows M ds tds Q sys"
  by (simp add: obeys_def)

lemma allows_do:
  "allows M ds tds Q sys \<Longrightarrow> inside ds (sys_target c) \<or> inside tds (sys_target c) \<Longrightarrow> link_checked ds c \<Longrightarrow> keeps Q (os_Do sys c)"
  by (auto simp: allows_def confined_def)

lemma keeps_set_xattrs:
  assumes "allows M ds tds Q sys" "inside ds path \<or> inside tds path"
  shows "keeps Q (set_xattrs sys path inUserns xs)"
proof (induction xs)
  case (Cons x xs)
  have "keeps Q (os_Do sys (SysLsetxattr path k v))" for k v
    by (rule allows_do [OF assms(1)]) (use assms(2) in auto)
  with Cons show ?case by (cases x) (auto simp only: set_xattrs.simps intro!: keeps_rules)
qed (simp only: set_xattrs.simps keeps_ret)

lemma keeps_create_entry:
  assumes r: "allows M ds tds Q sys" and p: "inside ds path \<or> inside tds path"
  shows "keeps Q (create_entry sys path (path_string ds) hdr data inUserns forceMask)"
  using p unfolding create_entry_def handleTarTypeBlockCharFifo_def Let_def
  by (cases "h_Typeflag hdr") (auto intro!: keeps_rules allows_do [OF r])

lemma keeps_createTarFile:
  assumes r: "allows M ds tds Q sys" and p: "inside ds path \<or> inside tds path"
  shows "keeps Q (createTarFile sys path (path_string ds) hdr data lc co inUserns ign fm)"
  using p unfolding createTarFile_def chown_entry_def SafeLchown_def handleLChmod_def link_target_plain_def set_times_def Let_def
  by (auto intro!: keeps_rules allows_do [OF r] keeps_create_entry [OF r] keeps_set_xattrs [OF r])

section \<open>The loop\<close>

text \<open>
  A destination, and the names of entries for which extraction stays below it: no entry may stand
  for the parent directory of the destination, and no whiteout may be one of \<open>..\<close>.
\<close>

definition dest_ok :: "path \<Rightarrow> bool" where
  "dest_ok ds \<longleftrightarrow> ds \<noteq> [] \<and> list_all plain ds \<and> \<not> prefix WhiteoutPrefix (last ds)"

definition name_ok :: "path \<Rightarrow> string \<Rightarrow> bool" where
  "name_ok ds name \<longleftrightarrow>
     resolve ds (Clean name) \<noteq> butlast ds \<and> Base (Join [path_string ds, Clean name]) \<noteq> WhiteoutPrefix @ ''..''"

definition up_inv :: "path \<Rightarrow> path \<Rightarrow> ('s \<Rightarrow> bool) \<Rightarrow> 's unpacking \<Rightarrow> bool" where
  "up_inv ds tds Q u \<longleftrightarrow>
     Q (up_sys u) \<and> (up_tmp u = [] \<or> inside tds (up_tmp u)) \<and>
     (\<forall>h \<in> set (up_dirs u). inside ds (Join [path_string ds, h_Name h]))"

lemma keeps_on_sys: "keeps Q m \<Longrightarrow> keeps (up_inv ds tds Q) (on_sys m)"
  by (auto simp: keeps_def on_sys_def up_inv_def split: prod.splits)

lemma keeps_with_up: "(\<And>u. P u \<Longrightarrow> keeps P (f u)) \<Longrightarrow> keeps P (with_up f)"
  by (simp add: keeps_def with_up_def)

lemma inside_Join: "inside ds q \<Longrightarrow> plain n \<Longrightarrow> inside ds (Join [q, n])"
  unfolding inside_def
proof (elim exE conjE)
  fix es assume es: "list_all plain es" "prefix ds es" "q = path_string es" and n: "plain n"
  have "resolve es n = es @ [n]" using n by (subst resolve_single) (auto simp: plain_def)
  then show "\<exists>es. list_all plain es \<and> prefix ds es \<and> Join [q, n] = path_string es"
    using es n by (intro exI [of _ "es @ [n]"]) (auto simp: Join_path_string)
qed

lemma keeps_Walk_inside:
  assumes r: "obeys M ds tds Q sys" and fn: "\<And>p i e. inside ds p \<Longrightarrow> keeps Q (fn p i e)" and root: "inside ds root"
  shows "keeps Q (Walk fuel sys root fn)"
proof (rule keeps_Walk [where I = "inside ds", OF fn _ root])
  fix p n s names assume p: "inside ds p" and n: "os_Readdirnames sys p s = Inr names" "n \<in> set names"
  have "names_plain sys" using r by (simp add: obeys_def)
  with n have "plain n" unfolding names_plain_def list_all_iff by blast
  with p show "inside ds (Join [p, n])" by (rule inside_Join)
qed

lemma keeps_opaque_visit:
  assumes "obeys M ds tds Q sys" "inside ds p"
  shows "keeps Q (opaque_visit sys dir ps p i e)"
  unfolding opaque_visit_def using assms(2) by (cases e) (auto intro!: keeps_rules allows_do [OF obeys_allows [OF assms(1)]])

text \<open>Below the destination: the path of an entry that passes the breakout test.\<close>

lemma entry_inside:
  assumes "dest_ok ds" "name_ok ds name" "Rel (path_string ds) (Join [path_string ds, Clean name]) = Inr rel" "\<not> prefix ''../'' rel"
  obtains es where "list_all plain es" "prefix ds es" "es \<noteq> []" "Join [path_string ds, Clean name] = path_string es"
proof -
  let ?es = "resolve ds (Clean name)"
  have p: "list_all plain ds" "ds \<noteq> []" using assms(1) by (auto simp: dest_ok_def)
  have e: "list_all plain ?es" "Join [path_string ds, Clean name] = path_string ?es"
    using resolve_plain Join_path_string p by auto
  then have "prefix ds ?es" using Rel_not_outside [OF p(1) e(1)] assms(2-4) by (auto simp: name_ok_def)
  moreover from this have "?es \<noteq> []" using p(2) by (cases ?es) auto
  ultimately show thesis using that [of ?es] e by simp
qed

text \<open>The path below a directory that a whiteout stands for.\<close>

lemma whiteout_inside:
  assumes d: "dest_ok ds" "list_all plain es" "prefix ds es" "es \<noteq> []"
    and w: "last es = WhiteoutPrefix @ ob" "ob \<noteq> ''..''"
  shows "inside ds (path_string (butlast es))" "inside ds (Join [path_string (butlast es), ob])"
proof -
  have "es \<noteq> ds" using w(1) d(1) by (auto simp: dest_ok_def)
  then have pb: "prefix ds (butlast es)" using d(3) by (cases es rule: rev_cases) auto
  have bl: "list_all plain (butlast es)" using d(2) by (auto simp: list_all_iff dest: in_set_butlastD)
  show "inside ds (path_string (butlast es))" using pb bl by (auto simp: inside_def)
  have "plain (last es)" using d(2,4) by (simp add: list_all_iff)
  then have sl: "CHR ''/'' \<notin> set ob" using w(1) by (simp add: plain_def)
  have "resolve (butlast es) ob = (if ob = [] \<or> ob = ''.'' then butlast es else butlast es @ [ob])"
    using resolve_single [OF sl, of "butlast es"] w(2) by simp
  then show "inside ds (Join [path_string (butlast es), ob])"
    using Join_path_string [OF bl, of ob] resolve_plain [OF bl, of ob] pb
    by (auto simp: inside_def intro: prefix_order.trans)
qed

lemma keeps_unpack_whiteout:
  assumes r: "obeys M ds tds Q sys" and d: "dest_ok ds" "list_all plain es" "prefix ds es" "es \<noteq> []"
    and w: "prefix WhiteoutPrefix (Base (path_string es))" "Base (path_string es) \<noteq> WhiteoutPrefix @ ''..''"
  shows "keeps (up_inv ds tds Q) (unpack_whiteout fuel sys (path_string es))"
proof -
  note db = Dir_Base_path_string [OF d(4,2)]
  obtain ob where ob: "last es = WhiteoutPrefix @ ob" using w(1) db(2) by (auto simp: prefix_def)
  then have "ob \<noteq> ''..''" using w(2) db(2) by auto
  note i = whiteout_inside [OF d ob this]
  have rm: "keeps Q (os_Do sys (SysRemoveAll (Join [path_string (butlast es), ob])))"
    by (rule allows_do [OF obeys_allows [OF r]]) (use i(2) in auto)
  have walk: "keeps Q (Walk fuel sys (path_string (butlast es)) (opaque_visit sys (path_string (butlast es)) ps))" for ps
    by (rule keeps_Walk_inside [OF r _ i(1)]) (rule keeps_opaque_visit [OF r])
  show ?thesis unfolding unpack_whiteout_def db Let_def ob
    using rm walk by (auto intro!: keeps_rules keeps_on_sys keeps_with_up)
qed

lemma up_inv_update [simp]:
  "up_inv ds tds Q (u\<lparr>up_links := l\<rparr>) = up_inv ds tds Q u" "up_inv ds tds Q (u\<lparr>up_paths := ps\<rparr>) = up_inv ds tds Q u"
  "up_inv ds tds Q (u\<lparr>up_size := n\<rparr>) = up_inv ds tds Q u"
  "up_inv ds tds Q (up_links_update f u) = up_inv ds tds Q u" "up_inv ds tds Q (up_paths_update g u) = up_inv ds tds Q u"
  "up_inv ds tds Q (up_size_update h u) = up_inv ds tds Q u"
  by (simp_all add: up_inv_def)

lemma keeps_unpack_file:
  assumes r: "obeys M ds tds Q sys" and p: "inside ds path" "Join [path_string ds, h_Name hdr] = path"
  shows "keeps (up_inv ds tds Q) (unpack_file sys (path_string ds) opts path hdr data)"
proof -
  have rm: "keeps Q (os_Do sys (SysRemoveAll path))" by (rule allows_do [OF obeys_allows [OF r]]) (use p in auto)
  have src: "keeps (up_inv ds tds Q) (link_source sys hdr data)"
    unfolding link_source_def Let_def
    by (auto intro!: keeps_rules keeps_with_up keeps_on_sys split: option.split)
  have ct: "keeps Q (createTarFile sys path (path_string ds) h d True None a b c)" for h d a b c
    using keeps_createTarFile [OF obeys_allows [OF r]] p(1) by blast
  have dirs: "keeps (up_inv ds tds Q) (modify (up_dirs_update (\<lambda>l. l @ [hdr])))"
    by (rule keeps_modify) (use p in \<open>auto simp: up_inv_def\<close>)
  have links: "keeps (up_inv ds tds Q) (modify (up_links_update f))" "keeps (up_inv ds tds Q) (modify (up_paths_update g))" for f g
    by (rule keeps_modify; simp)+
  show ?thesis unfolding unpack_file_def
    by (intro keeps_bind keeps_on_sys keeps_query keeps_case_sum keeps_if keeps_ret rm src)
      (auto intro!: keeps_rules keeps_on_sys ct dirs links split: prod.split)
qed

lemma keeps_unpack_plnk:
  assumes r: "obeys M ds tds Q sys" and n: "prefix WhiteoutLinkDir (h_Name hdr) \<Longrightarrow> plain (Base (h_Name hdr))"
  shows "keeps (up_inv ds tds Q) (unpack_plnk sys (path_string ds) opts hdr data)"
proof (cases "prefix WhiteoutLinkDir (h_Name hdr) \<and> h_Typeflag hdr = TypeReg")
  case True
  let ?create = "\<lambda>u. on_sys (createTarFile sys (Join [up_tmp u, Base (h_Name hdr)]) (path_string ds) hdr data True None
      (t_InUserNS opts) (t_IgnoreChownErrors opts) (t_ForceMask opts))"
  let ?tmp = "with_up (\<lambda>u. if up_tmp u = [] then
      bind (on_sys (os_TempDir sys ''storageplnk'')) (\<lambda>d. modify (up_tmp_update (\<lambda>_. d))) else ret ())"
  have create: "keeps (up_inv ds tds Q) (?create u)" if "up_tmp u \<noteq> []" "up_inv ds tds Q u" for u
    using that inside_Join n True keeps_createTarFile [OF obeys_allows [OF r]] by (intro keeps_on_sys) (auto simp: up_inv_def)
  have tmp: "up_inv ds tds Q (snd (?tmp u)) \<and> (\<forall>x u'. ?tmp u = (Inr x, u') \<longrightarrow> up_tmp u' \<noteq> [])" if "up_inv ds tds Q u" for u
  proof (cases "os_TempDir sys ''storageplnk'' (up_sys u)")
    case (Pair res s')
    have "Q s'" using r that Pair by (auto simp: obeys_def up_inv_def dest: keepsD)
    moreover have "inside tds d \<and> d \<noteq> []" if "res = Inr d" for d
    proof -
      have "inside tds d" using r Pair that unfolding obeys_def temp_below_def by blast
      then show ?thesis by (auto simp: inside_def path_string_def)
    qed
    ultimately show ?thesis using that Pair
      by (cases res) (auto simp: with_up_def bind_def on_sys_def modify_def up_inv_def)
  qed
  have "keeps (up_inv ds tds Q) (bind ?tmp (\<lambda>_. with_up ?create))"
  proof (rule keepsI2)
    fix u assume u: "up_inv ds tds Q u"
    obtain res u' where t: "?tmp u = (res, u')" by force
    show "up_inv ds tds Q (snd (bind ?tmp (\<lambda>_. with_up ?create) u))"
    proof (cases res)
      case (Inr x)
      have "up_inv ds tds Q u'" "up_tmp u' \<noteq> []" using tmp [OF u] t Inr by auto
      then have "up_inv ds tds Q (snd (with_up ?create u'))" using keeps_snd [OF create] by (simp add: with_up_def)
      then show ?thesis unfolding bind_Inr [where m = ?tmp and s = u, OF t [unfolded Inr]] .
    next
      case (Inl e)
      have "up_inv ds tds Q u'" using tmp [OF u] t by auto
      then show ?thesis unfolding bind_Inl [where m = ?tmp and s = u, OF t [unfolded Inl]] by simp
    qed
  qed
  moreover have "keeps (up_inv ds tds Q) (modify (up_links_update f))" for f by (rule keeps_modify) simp
  ultimately show ?thesis using True by (simp add: unpack_plnk_def Let_def keeps_bind)
qed (auto simp: unpack_plnk_def keeps_ret)

lemma keeps_unpack_named:
  assumes r: "obeys M ds tds Q sys" and d: "dest_ok ds" "name_ok ds name" and h: "h_Name hdr = Clean name"
  shows "keeps (up_inv ds tds Q) (unpack_named fuel sys (path_string ds) opts hdr data)"
proof (cases "Rel (path_string ds) (Join [path_string ds, Clean name])")
  case (Inr rel)
  show ?thesis
  proof (cases "prefix ''../'' rel")
    case False
    obtain es where es: "list_all plain es" "prefix ds es" "es \<noteq> []" "Join [path_string ds, Clean name] = path_string es"
      using entry_inside [OF d Inr False] .
    have "inside ds (path_string es)" using es by (auto simp: inside_def)
    then have f: "keeps (up_inv ds tds Q) (unpack_file sys (path_string ds) opts (path_string es) hdr data)"
      using keeps_unpack_file [OF r] es(4) h by simp
    have w: "keeps (up_inv ds tds Q) (unpack_whiteout fuel sys (path_string es))" if "prefix WhiteoutPrefix (Base (path_string es))"
      using keeps_unpack_whiteout [OF r d(1) es(1-3) that] d(2) es(4) by (simp add: name_ok_def)
    show ?thesis using Inr False es(4) f w by (simp add: unpack_named_def h Let_def)
  qed (use Inr in \<open>simp add: unpack_named_def h keeps_fail\<close>)
qed (simp add: unpack_named_def h keeps_fail)

lemma keeps_unpack_entry:
  assumes r: "obeys M ds tds Q sys" and d: "dest_ok ds" "name_ok ds (h_Name hdr)"
    and m: "SysMkdirAll (Join [path_string ds, Dir (Clean (h_Name hdr))]) 0x180 \<in> M"
  shows "keeps (up_inv ds tds Q) (unpack_entry fuel sys (path_string ds) opts hdr data)"
proof -
  let ?h = "hdr\<lparr>h_Name := Clean (h_Name hdr)\<rparr>"
  have "plain (Base (Clean (h_Name hdr)))" if "prefix WhiteoutLinkDir (Clean (h_Name hdr))"
    by (rule Clean_relative_base [of "CHR ''w''" "''h..wh.plnk''"])
      (use that in \<open>simp_all add: WhiteoutLinkDir_def WhiteoutMetaPrefix_def WhiteoutPrefix_def\<close>)
  then have plnk: "keeps (up_inv ds tds Q) (unpack_plnk sys (path_string ds) opts ?h data)"
    by (intro keeps_unpack_plnk [OF r]) simp
  have "keeps Q (os_Do sys (SysMkdirAll p k))" if "SysMkdirAll p k \<in> M" for p k
    using r that by (simp add: obeys_def allows_def confined_def)
  then have "keeps Q (make_parent sys (path_string ds) (h_Name ?h))"
    unfolding make_parent_def Let_def using m by (auto intro!: keeps_rules)
  moreover have "keeps (up_inv ds tds Q) (modify (up_size_update f))" for f by (rule keeps_modify) simp
  moreover have "keeps (up_inv ds tds Q) (unpack_named fuel sys (path_string ds) opts ?h data)"
    by (rule keeps_unpack_named [OF r d]) simp
  ultimately show ?thesis unfolding unpack_entry_def Let_def using plnk
    by (auto intro!: keeps_rules keeps_on_sys)
qed

definition layer_ok :: "path \<Rightarrow> tar_stream \<Rightarrow> bool" where
  "layer_ok ds layer \<longleftrightarrow> list_all (\<lambda>r. case r of Inl _ \<Rightarrow> True | Inr (hdr, _) \<Rightarrow> name_ok ds (h_Name hdr)) layer"

text \<open>The creation of the directories that the entries of a layer are in.\<close>

definition layer_parents :: "path \<Rightarrow> tar_stream \<Rightarrow> sys_call set" where
  "layer_parents ds layer =
     {SysMkdirAll (Join [path_string ds, Dir (Clean (h_Name hdr))]) 0x180 | hdr data. Inr (hdr, data) \<in> set layer}"

lemma layer_parents_Cons [simp]:
  "layer_parents ds (Inl e # layer) = layer_parents ds layer"
  "layer_parents ds (Inr (hdr, data) # layer) =
     insert (SysMkdirAll (Join [path_string ds, Dir (Clean (h_Name hdr))]) 0x180) (layer_parents ds layer)"
  by (auto simp: layer_parents_def)

lemma keeps_unpack_loop:
  assumes r: "obeys M ds tds Q sys" and d: "dest_ok ds"
  shows "layer_parents ds layer \<subseteq> M \<Longrightarrow> layer_ok ds layer \<Longrightarrow> keeps (up_inv ds tds Q) (unpack_loop fuel sys (path_string ds) opts layer)"
proof (induction layer)
  case (Cons x layer)
  then show ?case using keeps_unpack_entry [OF r d]
    by (cases x) (auto simp: layer_ok_def intro!: keeps_rules)
qed (simp only: unpack_loop.simps keeps_ret)

lemma keeps_set_dir_times:
  assumes "allows M ds tds Q sys"
  shows "\<forall>h \<in> set hs. inside ds (Join [path_string ds, h_Name h]) \<Longrightarrow> keeps Q (set_dir_times sys (path_string ds) hs)"
proof (induction hs)
  case (Cons h hs)
  then show ?case by (auto intro!: keeps_bind allows_do [OF assms])
qed (simp only: set_dir_times.simps keeps_ret)

lemma keeps_UnpackLayer:
  assumes r: "obeys M ds tds Q sys" and d: "dest_ok ds" "layer_parents ds layer \<subseteq> M" "layer_ok ds layer"
  shows "keeps Q (UnpackLayer fuel sys (path_string ds) layer options)"
proof (rule keepsI2)
  fix s assume "Q s"
  let ?opts = "case options of None \<Rightarrow> no_tar_options | Some t \<Rightarrow> t"
  let ?cleanup = "with_up (\<lambda>u. if up_tmp u = [] then ret () else on_sys (os_Do sys (SysRemoveAll (up_tmp u))))"
  let ?body = "bind (bind (unpack_loop fuel sys (path_string ds) ?opts layer) (\<lambda>_.
      with_up (\<lambda>u. on_sys (set_dir_times sys (path_string ds) (up_dirs u))))) (\<lambda>_. with_up (\<lambda>u. ret (up_size u)))"
  let ?init = "\<lparr>up_sys = s, up_dirs = [], up_paths = [], up_tmp = [], up_links = [], up_size = 0\<rparr>"
  have "keeps (up_inv ds tds Q) ?cleanup"
    by (rule keeps_with_up) (auto simp: up_inv_def intro!: keeps_rules keeps_on_sys allows_do [OF obeys_allows [OF r]])
  moreover have "keeps (up_inv ds tds Q) ?body"
    by (intro keeps_bind keeps_unpack_loop [OF r d] keeps_with_up keeps_on_sys keeps_set_dir_times [OF obeys_allows [OF r]] keeps_ret)
      (simp add: up_inv_def)
  ultimately have "keeps (up_inv ds tds Q) (deferred ?cleanup ?body)" by (rule keeps_deferred)
  moreover have "up_inv ds tds Q ?init" using \<open>Q s\<close> by (simp add: up_inv_def)
  ultimately have "up_inv ds tds Q (snd (deferred ?cleanup ?body ?init))" by (rule keeps_snd)
  then show "Q (snd (UnpackLayer fuel sys (path_string ds) layer options s))"
    unfolding UnpackLayer_def Let_def by (auto simp: up_inv_def case_prod_unfold)
qed

section \<open>Properties\<close>


definition demo_sys :: "unit osys" where
  "demo_sys = \<lparr>os_Do = (\<lambda>c. ret ()), os_Lstat = (\<lambda>p s. Inr (demo_stat 0x41ED 2 4096)), os_Stat = (\<lambda>p s. Inl NotExist),
     os_ReadFile = (\<lambda>p s. Inr []), os_Readlink = (\<lambda>p s. Inl NotExist), os_Lgetxattr = (\<lambda>p k s. Inr None),
     os_Llistxattr = (\<lambda>p s. Inr []), os_Readdirnames = (\<lambda>p s. Inr []), os_TempDir = (\<lambda>pat. ret ''/tmp/x'')\<rparr>"

definition demo_header :: "Typeflag \<Rightarrow> string \<Rightarrow> gerr + (tarHeader \<times> bytes)" where
  "demo_header t name = Inr (\<lparr>h_Typeflag = t, h_Name = name, h_Linkname = ''../b'', h_Size = 3, h_Mode = 0x1A4, h_Uid = 0,
     h_Gid = 0, h_ModTime = 7, h_AccessTime = 5, h_Devmajor = 0, h_Devminor = 0, h_Xattrs = []\<rparr>, ''abc'')"

definition demo_layer :: tar_stream where
  "demo_layer = [demo_header TypeDir ''./a/'', demo_header TypeReg ''a/b'', demo_header TypeReg ''a/.wh.c'',
     demo_header TypeSymlink ''a/d'']"


text \<open>
  The entries that are excluded: an entry \<open>..\<close> and a whiteout of \<open>..\<close> remove the directory that
  contains the destination, and a name that is rejected has its parent directory created before.
\<close>

lemma UnpackLayer_escapes:
  "SysRemoveAll ''/srv'' \<in> set (snd (snd (UnpackLayer 9 (logged demo_sys) ''/srv/l'' [demo_header TypeReg ''..''] None ((), []))))"
  "SysRemoveAll ''/srv'' \<in> set (snd (snd (UnpackLayer 9 (logged demo_sys) ''/srv/l'' [demo_header TypeReg ''.wh...''] None ((), []))))"
  "UnpackLayer 9 (logged (demo_sys\<lparr>os_Lstat := \<lambda>p s. Inl NotExist\<rparr>)) ''/srv/l'' [demo_header TypeReg ''../m/x''] None ((), []) =
     (Inl (Errorf ''is outside of''), (), [SysMkdirAll ''/srv/m'' 0x180])"
  by code_simp+

end
