(* ===== verification/ArchiveLayers.thy ===== *)
theory ArchiveLayers
  imports ArchiveTar
begin

text \<open>
  Changes of a layer that is kept apart from the layers below it: \<open>changes\<close> of
  \<^verbatim>\<open>pkg/archive/changes.go\<close> with the rules of aufs (\<open>Changes\<close>) and of overlay
  (\<open>OverlayChanges\<close> of \<^verbatim>\<open>changes_linux.go\<close>), and the conversion of whiteouts between
  the two formats (\<^verbatim>\<open>archive_linux.go\<close>).
\<close>

section \<open>The directories above a path\<close>

text \<open>
  The loops \<open>for dir := filepath.Dir(path); ...; dir = filepath.Dir(dir)\<close>; they stop at the root or,
  for a relative path, at \<open>.\<close>.
\<close>

definition top_dir :: "string \<Rightarrow> bool" where
  "top_dir d \<longleftrightarrow> d = [] \<or> d = ''.'' \<or> d = ''/''"

lemma weight_clean_elems_rel: "weight (clean_elems False acc es) \<le> weight acc + weight es"
proof (induction es arbitrary: acc)
  case (Cons e es)
  show ?case
    using Cons.IH [of acc] Cons.IH [of "e # acc"] Cons.IH [of "tl acc"] by (cases acc) auto
qed simp

lemma Clean_relative_dir:
  assumes "\<not> rooted_path x" "x \<noteq> []" "last x = CHR ''/''" "Clean x \<noteq> ''.''"
  shows "length (Clean x) < length x"
proof -
  obtain y where x: "x = y @ ''/''" using assms(2,3) by (cases x rule: rev_cases) auto
  have sp: "split_on (CHR ''/'') (y @ ''/'') = split_on (CHR ''/'') y @ [[]]"
    by (induction y) (auto split: list.splits)
  have skip: "clean_elems False acc (es @ [[]]) = clean_elems False acc es" for acc es
    by (induction False acc es rule: clean_elems.induct) (auto split: list.splits)
  let ?es = "clean_elems False [] (split_on (CHR ''/'') y)"
  have c: "Clean x = join_slash ?es" "?es \<noteq> []"
    using assms by (auto simp: Clean_def Let_def x sp skip split: if_splits)
  have "weight ?es \<le> Suc (length y)"
    using weight_clean_elems_rel [of "[]" "split_on (CHR ''/'') y"] by (simp add: weight_split_on)
  then show ?thesis using length_join_slash [of ?es] c by (simp add: x)
qed

lemma Dir_shorter: "\<not> top_dir d \<Longrightarrow> \<not> top_dir (Dir d) \<Longrightarrow> length (Dir d) < length d"
proof -
  assume d: "\<not> top_dir d" "\<not> top_dir (Dir d)"
  show ?thesis
  proof (cases "rooted_path d")
    case True then show ?thesis using Dir_climbs(2) d(1) by (simp add: top_dir_def)
  next
    case False
    let ?u = "upto_last_slash d"
    have ne: "?u \<noteq> []" using d(2) by (auto simp: Dir_def Clean_def top_dir_def)
    have pre: "prefix ?u d"
      unfolding upto_last_slash_def by (metis prefix_def rev_append rev_rev_ident takeWhile_dropWhile_id)
    have "hd d = hd ?u" "d \<noteq> []" using pre ne by (auto simp: prefix_def) (metis hd_append2)
    then have "\<not> rooted_path ?u" using False by (simp add: rooted_path_def)
    moreover have "last ?u = CHR ''/''"
      using ne hd_dropWhile [of "\<lambda>c. c \<noteq> CHR ''/''" "rev d"] by (simp add: upto_last_slash_def last_rev)
    ultimately have "length (Clean ?u) < length ?u"
      using Clean_relative_dir ne d(2) by (simp add: Dir_def top_dir_def)
    then show ?thesis using prefix_length_le [OF pre] by (simp add: Dir_def)
  qed
qed

function dirs_above :: "string \<Rightarrow> string list" where
  "dirs_above d = (if top_dir d then [] else d # dirs_above (Dir d))"
  by pat_completeness auto
termination
proof (relation "measure (\<lambda>d. if top_dir d then 0 else length d)", goal_cases)
  case (2 d)
  then show ?case using Dir_shorter [of d] by (auto simp: top_dir_def)
qed simp

declare dirs_above.simps [simp del]

section \<open>Whiteouts of overlay\<close>

definition major :: "nat \<Rightarrow> nat" where
  "major device = drop_bit 8 device AND 0xfff"

definition minor :: "nat \<Rightarrow> nat" where
  "minor device = (device AND 0xff) OR (drop_bit 12 device AND 0xfff00)"

definition isWhiteOut :: "Stat_t \<Rightarrow> bool" where
  "isWhiteOut st \<longleftrightarrow> major (sys_Rdev st) = 0 \<and> minor (sys_Rdev st) = 0"

definition is_char_device :: "Stat_t \<Rightarrow> bool" where
  "is_char_device st \<longleftrightarrow> sys_Mode st AND S_IFMT = 0x2000"

definition GetOverlayXattrName :: "bool \<Rightarrow> string \<Rightarrow> string" where
  "GetOverlayXattrName rootless name = (if rootless then ''user.overlay.'' else ''trusted.overlay.'') @ name"

definition getOverlayOpaqueXattrName :: "bool \<Rightarrow> string" where
  "getOverlayOpaqueXattrName rootless = GetOverlayXattrName rootless ''opaque''"

text \<open>A file that is not there, or below something that is no directory, is no error.\<close>

definition stat_below :: "'s osys \<Rightarrow> string \<Rightarrow> string \<Rightarrow> 's \<Rightarrow> gerr + Stat_t option" where
  "stat_below sys root p s =
     (case os_Stat sys (Join [root, p]) s of
        Inl e \<Rightarrow> if e = NotExist \<or> isENOTDIR e then Inr None else Inl e
      | Inr st \<Rightarrow> Inr (Some st))"

definition overlayLowerContainsWhiteout :: "'s osys \<Rightarrow> string \<Rightarrow> string \<Rightarrow> 's \<Rightarrow> gerr + bool" where
  "overlayLowerContainsWhiteout sys root p s =
     (case stat_below sys root p s of
        Inl e \<Rightarrow> Inl e
      | Inr None \<Rightarrow> Inr False
      | Inr (Some st) \<Rightarrow> Inr (is_char_device st \<and> isWhiteOut st))"

text \<open>Whether one of some paths has a whiteout, found one after the other.\<close>

fun any_whiteout :: "(string \<Rightarrow> 's \<Rightarrow> gerr + bool) \<Rightarrow> string list \<Rightarrow> 's \<Rightarrow> gerr + bool" where
  "any_whiteout wc [] s = Inr False"
| "any_whiteout wc (d # ds) s =
     (case wc d s of Inl e \<Rightarrow> Inl e | Inr True \<Rightarrow> Inr True | Inr False \<Rightarrow> any_whiteout wc ds s)"

text \<open>
  Whether a lower layer shows the path: the first layer that has it, or a whiteout for it or for a
  directory above it, decides.
\<close>

fun shown_below :: "'s osys \<Rightarrow> string list \<Rightarrow> string \<Rightarrow> 's \<Rightarrow> gerr + bool" where
  "shown_below sys [] p s = Inr False"
| "shown_below sys (layer # layers) p s =
     (case stat_below sys layer p s of
        Inl e \<Rightarrow> Inl e
      | Inr (Some st) \<Rightarrow> Inr (\<not> (is_char_device st \<and> isWhiteOut st))
      | Inr None \<Rightarrow>
          (case any_whiteout (overlayLowerContainsWhiteout sys layer) (dirs_above (Dir p)) s of
             Inl e \<Rightarrow> Inl e
           | Inr True \<Rightarrow> Inr False
           | Inr False \<Rightarrow> shown_below sys layers p s))"

definition is_opaque :: "bytes option \<Rightarrow> bool" where
  "is_opaque x \<longleftrightarrow> x = Some ''y''"

definition overlayDeletedFile :: "'s osys \<Rightarrow> bool \<Rightarrow> string list \<Rightarrow> string \<Rightarrow> string \<Rightarrow> Stat_t \<Rightarrow> 's \<Rightarrow> gerr + string" where
  "overlayDeletedFile sys rootless layers root p fi s =
     (if is_char_device fi \<and> isWhiteOut fi then Inr p
      else if \<not> IsDir fi then Inr []
      else (case os_Lgetxattr sys (Join [root, p]) (getOverlayOpaqueXattrName rootless) s of
              Inl e \<Rightarrow> Inl e
            | Inr opaque \<Rightarrow>
                if \<not> is_opaque opaque then Inr []
                else (case shown_below sys layers p s of
                        Inl e \<Rightarrow> Inl e
                      | Inr True \<Rightarrow> Inr p
                      | Inr False \<Rightarrow> Inr [])))"

section \<open>Whiteouts of aufs\<close>

text \<open>\<open>filepath.Match\<close> of \<open>/.wh..wh.*\<close>: the star does not match a slash.\<close>

definition aufsMetadataSkip :: "string \<Rightarrow> bool" where
  "aufsMetadataSkip p \<longleftrightarrow>
     (let pat = CHR ''/'' # WhiteoutMetaPrefix in prefix pat p \<and> CHR ''/'' \<notin> set (drop (length pat) p))"

definition aufsDeletedFile :: "string \<Rightarrow> Stat_t \<Rightarrow> 's \<Rightarrow> gerr + string" where
  "aufsDeletedFile p fi s =
     (let f = Base p in
      if prefix WhiteoutPrefix f then Inr (Join [Dir p, drop (length WhiteoutPrefix) f]) else Inr [])"

definition aufsWhiteoutPresent :: "'s osys \<Rightarrow> string \<Rightarrow> string \<Rightarrow> 's \<Rightarrow> gerr + bool" where
  "aufsWhiteoutPresent sys root p s =
     (case stat_below sys root (Join [Dir p, WhiteoutPrefix @ Base p]) s of
        Inl e \<Rightarrow> Inl e
      | Inr x \<Rightarrow> Inr (x \<noteq> None))"

section \<open>Conversion of whiteouts\<close>

text \<open>\<open>Split\<close>: everything up to the last slash, and the rest.\<close>

definition Split :: "string \<Rightarrow> string \<times> string" where
  "Split p = (upto_last_slash p, drop (length (upto_last_slash p)) p)"

definition opaque_header :: "tarHeader \<Rightarrow> tarHeader" where
  "opaque_header hdr =
     \<lparr>h_Typeflag = TypeReg, h_Name = Join [h_Name hdr, WhiteoutOpaqueDir], h_Linkname = [], h_Size = 0,
      h_Mode = h_Mode hdr AND 0x1FF, h_Uid = h_Uid hdr, h_Gid = h_Gid hdr, h_ModTime = 0,
      h_AccessTime = h_AccessTime hdr, h_Devmajor = 0, h_Devminor = 0, h_Xattrs = []\<rparr>"

text \<open>
  \<open>ConvertWrite\<close> changes the header it is given and may return a second one, for an opaque directory
  that hides one of a lower layer.
\<close>

definition whiteout_header :: "tarHeader \<Rightarrow> Stat_t \<Rightarrow> tarHeader" where
  "whiteout_header hdr fi =
     (if is_char_device fi \<and> h_Devmajor hdr = 0 \<and> h_Devminor hdr = 0 then
        let (dir, filename) = Split (h_Name hdr) in
        hdr\<lparr>h_Name := Join [dir, WhiteoutPrefix @ filename], h_Mode := 0x180, h_Typeflag := TypeReg, h_Size := 0\<rparr>
      else hdr)"

definition ConvertWrite ::
  "'s osys \<Rightarrow> bool \<Rightarrow> string list \<Rightarrow> tarHeader \<Rightarrow> string \<Rightarrow> Stat_t \<Rightarrow> 's \<Rightarrow> gerr + (tarHeader \<times> tarHeader option)" where
  "ConvertWrite sys rootless rolayers hdr path fi s =
     (let hdr1 = whiteout_header hdr fi in
      if IsDir fi then
        (case os_Lgetxattr sys path (getOverlayOpaqueXattrName rootless) s of
           Inl e \<Rightarrow> Inl e
         | Inr opaque \<Rightarrow>
             if \<not> is_opaque opaque then Inr (hdr1, None)
             else let hdr2 = hdr1\<lparr>h_Xattrs := AList.delete (getOverlayOpaqueXattrName rootless) (h_Xattrs hdr1)\<rparr> in
                  (case shown_below sys rolayers (h_Name hdr2) s of
                     Inl e \<Rightarrow> Inl e
                   | Inr shown \<Rightarrow> Inr (hdr2, if shown then Some (opaque_header hdr2) else None)))
      else Inr (hdr1, None))"

definition make_whiteout :: "'s osys \<Rightarrow> tarHeader \<Rightarrow> string \<Rightarrow> ('s, bool) go" where
  "make_whiteout sys hdr originalPath =
     bind (attempt (os_Do sys (SysMknod originalPath 0x2000 0))) (\<lambda>r.
       case r of
         Inl e \<Rightarrow> if isENOTDIR e then ret False else fail e
       | Inr _ \<Rightarrow> bind (SafeChown sys originalPath (h_Uid hdr) (h_Gid hdr)) (\<lambda>_. ret False))"

definition ConvertRead :: "'s osys \<Rightarrow> bool \<Rightarrow> tarHeader \<Rightarrow> string \<Rightarrow> ('s, bool) go" where
  "ConvertRead sys rootless hdr path =
     (let base = Base path; dir = Dir path in
      if base = WhiteoutOpaqueDir then
        bind (os_Do sys (SysSetxattr dir (getOverlayOpaqueXattrName rootless) ''y'')) (\<lambda>_. ret False)
      else if prefix WhiteoutPrefix base then make_whiteout sys hdr (Join [dir, drop (length WhiteoutPrefix) base])
      else ret True)"

section \<open>The changes of a layer\<close>

definition sameFsTime :: "Timespec \<Rightarrow> Timespec \<Rightarrow> bool" where
  "sameFsTime a b \<longleftrightarrow> a = b \<or> ts_Sec a = ts_Sec b \<and> (ts_Nsec a = 0 \<or> ts_Nsec b = 0)"

text \<open>
  The loop \<open>layerScan\<close>: the kind of change of a file that is not deleted; \<open>None\<close> if it is a directory
  with the same status as in the layer that shows it, which is not recorded.
\<close>

fun layerScan :: "'s osys \<Rightarrow> (string \<Rightarrow> string \<Rightarrow> 's \<Rightarrow> gerr + bool) \<Rightarrow> string list \<Rightarrow> string \<Rightarrow> Stat_t \<Rightarrow> 's \<Rightarrow> gerr + ChangeType option" where
  "layerScan sys wc [] p f s = Inr (Some ChangeAdd)"
| "layerScan sys wc (layer # layers) p f s =
     (case any_whiteout (wc layer) (p # dirs_above (Dir p)) s of
        Inl e \<Rightarrow> Inl e
      | Inr True \<Rightarrow> Inr (Some ChangeAdd)
      | Inr False \<Rightarrow>
          (case os_Stat sys (Join [layer, p]) s of
             Inl e \<Rightarrow> if e = NotExist then layerScan sys wc layers p f s else Inl e
           | Inr st \<Rightarrow>
               if IsDir st \<and> IsDir f \<and> sys_Size f = sys_Size st \<and> sys_Mode f = sys_Mode st \<and>
                  sameFsTime (sys_Mtim f) (sys_Mtim st)
               then Inr None else Inr (Some ChangeModify)))"

record recording =
  rec_changes :: "Change list"
  rec_dirs :: "string list"

text \<open>Directories above an added or deleted file that are not recorded yet, outermost first.\<close>

fun record_parents :: "string list \<Rightarrow> string list \<Rightarrow> Change list \<Rightarrow> Change list \<times> string list" where
  "record_parents [] changedDirs tail = (tail, changedDirs)"
| "record_parents (parent # parents) changedDirs tail =
     (if parent \<in> set changedDirs then record_parents parents changedDirs tail
      else record_parents parents (parent # changedDirs) (\<lparr>ch_Path = parent, ch_Kind = ChangeModify\<rparr> # tail))"

definition record_change :: "string \<Rightarrow> Stat_t \<Rightarrow> Change \<Rightarrow> recording \<Rightarrow> recording" where
  "record_change p f c r =
     (let dirs = (if IsDir f then p # rec_dirs r else rec_dirs r);
          (tail, dirs') = (if ch_Kind c = ChangeAdd \<or> ch_Kind c = ChangeDelete
                           then record_parents (dirs_above (Dir p)) dirs [] else ([], dirs))
      in \<lparr>rec_changes = rec_changes r @ tail @ [c], rec_dirs = dirs'\<rparr>)"

definition changes_visit ::
  "'s osys \<Rightarrow> string list \<Rightarrow> string \<Rightarrow> (string \<Rightarrow> Stat_t \<Rightarrow> 's \<Rightarrow> gerr + string) \<Rightarrow> (string \<Rightarrow> bool)
    \<Rightarrow> (string \<Rightarrow> string \<Rightarrow> 's \<Rightarrow> gerr + bool) \<Rightarrow> ('s \<times> recording) walk_fn" where
  "changes_visit sys layers rw dc sc wc path info err st =
     (case (err, info) of
        (Some e, _) \<Rightarrow> (Inl e, st)
      | (None, None) \<Rightarrow> (Inr False, st)
      | (None, Some f) \<Rightarrow>
          (case Rel rw path of
             Inl e \<Rightarrow> (Inl e, st)
           | Inr rel \<Rightarrow>
               let p = Join [''/'', rel] in
               if p = ''/'' \<or> sc p then (Inr False, st)
               else (case dc p f (fst st) of
                       Inl e \<Rightarrow> (Inl e, st)
                     | Inr deletedFile \<Rightarrow>
                         if deletedFile \<noteq> [] then
                           (Inr False, fst st, record_change p f \<lparr>ch_Path = deletedFile, ch_Kind = ChangeDelete\<rparr> (snd st))
                         else (case layerScan sys wc layers p f (fst st) of
                                 Inl e \<Rightarrow> (Inl e, st)
                               | Inr None \<Rightarrow> (Inr False, st)
                               | Inr (Some k) \<Rightarrow>
                                   (Inr False, fst st, record_change p f \<lparr>ch_Path = p, ch_Kind = k\<rparr> (snd st))))))"

definition changes ::
  "nat \<Rightarrow> 's osys \<Rightarrow> string list \<Rightarrow> string \<Rightarrow> (string \<Rightarrow> Stat_t \<Rightarrow> 's \<Rightarrow> gerr + string) \<Rightarrow> (string \<Rightarrow> bool)
    \<Rightarrow> (string \<Rightarrow> string \<Rightarrow> 's \<Rightarrow> gerr + bool) \<Rightarrow> 's \<Rightarrow> gerr + Change list" where
  "changes fuel sys layers rw dc sc wc s =
     (case Walk fuel (osys_fst sys) rw (changes_visit sys layers rw dc sc wc) (s, \<lparr>rec_changes = [], rec_dirs = []\<rparr>) of
        (Inl e, _, r) \<Rightarrow> if e = NotExist then Inr (rec_changes r) else Inl e
      | (Inr _, _, r) \<Rightarrow> Inr (rec_changes r))"

definition AufsChanges :: "nat \<Rightarrow> 's osys \<Rightarrow> string list \<Rightarrow> string \<Rightarrow> 's \<Rightarrow> gerr + Change list" where
  "AufsChanges fuel sys layers rw =
     changes fuel sys layers rw aufsDeletedFile aufsMetadataSkip (aufsWhiteoutPresent sys)"

definition OverlayChanges :: "nat \<Rightarrow> 's osys \<Rightarrow> bool \<Rightarrow> string list \<Rightarrow> string \<Rightarrow> 's \<Rightarrow> gerr + Change list" where
  "OverlayChanges fuel sys rootless layers rw =
     changes fuel sys layers rw (overlayDeletedFile sys rootless layers rw) (\<lambda>_. False) (overlayLowerContainsWhiteout sys)"

section \<open>Parents are recorded\<close>

definition parents_recorded :: "recording \<Rightarrow> bool" where
  "parents_recorded r \<longleftrightarrow>
     set (rec_dirs r) \<subseteq> ch_Path ` set (rec_changes r) \<and>
     (\<forall>c \<in> set (rec_changes r). ch_Kind c \<noteq> ChangeModify \<longrightarrow>
        set (dirs_above (Dir (ch_Path c))) \<subseteq> ch_Path ` set (rec_changes r))"

lemma record_parents_dirs: "set (snd (record_parents ps dirs tail)) = set dirs \<union> set ps"
  by (induction ps dirs tail rule: record_parents.induct) auto

lemma record_parents_paths:
  "ch_Path ` set (fst (record_parents ps dirs tail)) = ch_Path ` set tail \<union> (set ps - set dirs)"
  by (induction ps dirs tail rule: record_parents.induct) auto

lemma record_parents_modify:
  "\<forall>c \<in> set tail. ch_Kind c = ChangeModify \<Longrightarrow> \<forall>c \<in> set (fst (record_parents ps dirs tail)). ch_Kind c = ChangeModify"
  by (induction ps dirs tail rule: record_parents.induct) auto

lemma record_change_parents:
  assumes "parents_recorded r" "ch_Path c = p"
  shows "parents_recorded (record_change p f c r)"
proof -
  let ?dirs = "if IsDir f then p # rec_dirs r else rec_dirs r"
  obtain tail dirs' where rp: "(if ch_Kind c = ChangeAdd \<or> ch_Kind c = ChangeDelete
      then record_parents (dirs_above (Dir p)) ?dirs [] else ([], ?dirs)) = (tail, dirs')" by force
  have rc: "record_change p f c r = \<lparr>rec_changes = rec_changes r @ tail @ [c], rec_dirs = dirs'\<rparr>"
    using rp by (simp add: record_change_def)
  let ?P = "ch_Path ` set (rec_changes r @ tail @ [c])"
  have m: "\<forall>x \<in> set tail. ch_Kind x = ChangeModify" using rp record_parents_modify [of "[]" "dirs_above (Dir p)" ?dirs]
    by (cases "ch_Kind c") auto
  have d: "set ?dirs \<subseteq> ?P" using assms by (auto simp: parents_recorded_def)
  have t: "set dirs' \<subseteq> ?P \<and> (ch_Kind c \<noteq> ChangeModify \<longrightarrow> set (dirs_above (Dir p)) \<subseteq> ?P)"
  proof (cases "ch_Kind c = ChangeModify")
    case False
    then have "record_parents (dirs_above (Dir p)) ?dirs [] = (tail, dirs')" using rp by (cases "ch_Kind c") auto
    then show ?thesis using d record_parents_dirs [of "dirs_above (Dir p)" ?dirs "[]"] record_parents_paths [of "dirs_above (Dir p)" ?dirs "[]"]
      by auto
  qed (use rp d in auto)
  then have "\<forall>x \<in> set (rec_changes r @ tail @ [c]). ch_Kind x \<noteq> ChangeModify \<longrightarrow> set (dirs_above (Dir (ch_Path x))) \<subseteq> ?P"
  proof (intro ballI impI)
    fix x assume x: "x \<in> set (rec_changes r @ tail @ [c])" "ch_Kind x \<noteq> ChangeModify"
    then consider "x \<in> set (rec_changes r)" | "x = c" using m by auto
    then show "set (dirs_above (Dir (ch_Path x))) \<subseteq> ?P"
    proof cases
      case 1
      then have "set (dirs_above (Dir (ch_Path x))) \<subseteq> ch_Path ` set (rec_changes r)"
        using assms(1) x(2) by (auto simp: parents_recorded_def)
      then show ?thesis by (rule order_trans) auto
    qed (use t x(2) assms(2) in auto)
  qed
  with t show ?thesis by (simp add: rc parents_recorded_def)
qed

lemma overlayDeletedFile_path: "overlayDeletedFile sys rootless layers root p fi s = Inr q \<Longrightarrow> q = p \<or> q = []"
  by (auto simp: overlayDeletedFile_def split: if_splits sum.splits bool.splits)

lemma keeps_changes_visit:
  assumes "\<And>p f s q. dc p f s = Inr q \<Longrightarrow> q = p \<or> q = []"
  shows "keeps (\<lambda>(s, r). parents_recorded r) (changes_visit sys layers rw dc sc wc path info err)"
  unfolding keeps_def changes_visit_def
  by (auto simp: Let_def split: option.splits sum.splits dest!: assms intro!: record_change_parents)

section \<open>A whiteout on its way through an archive\<close>

lemma upto_last_slash_append: "CHR ''/'' \<notin> set x \<Longrightarrow> upto_last_slash (h @ CHR ''/'' # x) = h @ ''/''"
proof -
  assume "CHR ''/'' \<notin> set x"
  then have "\<forall>c \<in> set (rev x). c \<noteq> CHR ''/''" by auto
  then have "dropWhile (\<lambda>c. c \<noteq> CHR ''/'') (rev x @ CHR ''/'' # rev h) = CHR ''/'' # rev h"
    by (subst dropWhile_append2) auto
  then show ?thesis by (simp add: upto_last_slash_def)
qed

lemma Split_join_slash:
  assumes "es \<noteq> []" "list_all plain es"
  shows "Split (join_slash es) = ((if butlast es = [] then [] else join_slash (butlast es) @ ''/''), last es)"
proof -
  have l: "CHR ''/'' \<notin> set (last es)" using assms by (auto simp: list_all_iff plain_def)
  show ?thesis
  proof (cases "butlast es = []")
    case True
    then have "es = [last es]" using assms(1) by (metis append_Nil append_butlast_last_id)
    then have "join_slash es = last es" by (metis join_slash.simps(2))
    moreover have "upto_last_slash (last es) = []" using l by (auto simp: upto_last_slash_def dropWhile_eq_Nil_conv)
    ultimately show ?thesis using True by (simp add: Split_def)
  next
    case False
    have "path_string es = path_string (butlast es) @ CHR ''/'' # last es" using rev_join_slash_last [OF assms(1)] False by simp
    then have "join_slash es = join_slash (butlast es) @ CHR ''/'' # last es" by (simp add: path_string_def)
    then show ?thesis using upto_last_slash_append [OF l] False by (simp add: Split_def)
  qed
qed

lemma Clean_elems_plain:
  assumes "split_on (CHR ''/'') p = bs @ es" "list_all plain bs" "bs \<noteq> []" "clean_elems False (rev bs) es = gs" "gs \<noteq> []"
  shows "Clean p = join_slash gs"
proof -
  have "p \<noteq> []" using assms(1-3) by (cases bs) (auto simp: plain_def)
  moreover have "\<not> rooted_path p"
  proof
    assume "rooted_path p"
    then have "\<exists>r. split_on (CHR ''/'') p = [] # r" by (cases p) (auto simp: rooted_path_def)
    then show False using assms(1-3) by (cases bs) (auto simp: plain_def)
  qed
  ultimately show ?thesis using assms clean_elems_plain [OF assms(2), of False "[]" es] by (simp add: Clean_def)
qed

lemma Clean_join_slash: "es \<noteq> [] \<Longrightarrow> list_all plain es \<Longrightarrow> Clean (join_slash es) = join_slash es"
  using split_on_join_slash [OF _ plain_is_name] by (intro Clean_elems_plain [where bs = es and es = "[]"]) simp_all

lemma Join_Split:
  assumes "es \<noteq> []" "list_all plain es" "plain w"
  shows "Join [fst (Split (join_slash es)), w] = join_slash (butlast es @ [w])"
proof (cases "butlast es = []")
  case True
  then show ?thesis using Clean_join_slash [of "[w]"] assms by (simp add: Split_join_slash Join.simps plain_def)
next
  case False
  have b: "list_all plain (butlast es)" using assms(2) by (auto simp: list_all_iff dest: in_set_butlastD)
  have "split_on (CHR ''/'') (join_slash (butlast es) @ CHR ''/'' # CHR ''/'' # w) = butlast es @ [[], w]"
    using split_on_join_append [OF False plain_is_name [OF b], of "CHR ''/'' # w"] split_on_no_sep [of "CHR ''/''" w] assms(3)
    by (simp add: plain_def)
  then have "Clean (join_slash (butlast es) @ CHR ''/'' # CHR ''/'' # w) = join_slash (butlast es @ [w])"
    by (rule Clean_elems_plain [OF _ b False]) (use assms(3) in \<open>auto simp: plain_def\<close>)
  then show ?thesis using False assms by (simp add: Split_join_slash Join.simps)
qed

lemma Join_dest:
  assumes "list_all plain ds" "list_all plain gs" "gs \<noteq> []"
  shows "Join [path_string ds, join_slash gs] = path_string (ds @ gs)"
  using split_on_join_slash [OF assms(3) plain_is_name [OF assms(2)]] clean_elems_plain [OF assms(2), of True "rev ds" "[]"]
  by (simp add: Join_path_string [OF assms(1)] resolve_def)

lemma plain_whiteout: "plain f \<Longrightarrow> plain (WhiteoutPrefix @ f)"
  by (auto simp: plain_def WhiteoutPrefix_def)

section \<open>Properties\<close>


definition demo_device :: Stat_t where
  "demo_device = \<lparr>sys_Dev = 1, sys_Ino = 4, sys_Nlink = 1, sys_Mode = 0x2000, sys_Uid = 0, sys_Gid = 0,
     sys_Rdev = 0, sys_Size = 0, sys_Mtim = \<lparr>ts_Sec = 7, ts_Nsec = 0\<rparr>\<rparr>"

definition demo_device_header :: tarHeader where
  "demo_device_header = \<lparr>h_Typeflag = TypeChar, h_Name = ''etc/motd'', h_Linkname = [], h_Size = 0, h_Mode = 0x2000, h_Uid = 0,
     h_Gid = 0, h_ModTime = 7, h_AccessTime = 5, h_Devmajor = 0, h_Devminor = 0, h_Xattrs = []\<rparr>"

text \<open>A system with the files of a list, given by their status; nothing can be changed.\<close>

definition demo_files :: "(string \<times> Stat_t) list \<Rightarrow> (string \<times> string list) list \<Rightarrow> unit osys" where
  "demo_files files dirs =
     (let stat = (\<lambda>p s. case map_of files p of None \<Rightarrow> Inl NotExist | Some st \<Rightarrow> Inr st) in
      \<lparr>os_Do = (\<lambda>c. fail EPERM), os_Lstat = stat, os_Stat = stat,
       os_ReadFile = (\<lambda>p s. Inl NotExist), os_Readlink = (\<lambda>p s. Inl NotExist), os_Lgetxattr = (\<lambda>p k s. Inr None),
       os_Llistxattr = (\<lambda>p s. Inr []),
       os_Readdirnames = (\<lambda>p s. case map_of dirs p of None \<Rightarrow> Inl NotExist | Some ns \<Rightarrow> Inr ns),
       os_TempDir = (\<lambda>pat. fail EPERM)\<rparr>)"


text \<open>
  C24: whatever the directories contain, for every file that \<open>OverlayChanges\<close> reports as added or
  deleted, all directories above it are reported too.
\<close>

theorem OverlayChanges_parents:
  assumes "OverlayChanges fuel sys rootless layers rw s = Inr cs" "c \<in> set cs" "ch_Kind c \<noteq> ChangeModify"
    and "d \<in> set (dirs_above (Dir (ch_Path c)))"
  shows "d \<in> ch_Path ` set cs"
proof -
  let ?Q = "\<lambda>(s :: 'a, r). parents_recorded r"
  let ?visit = "changes_visit sys layers rw (overlayDeletedFile sys rootless layers rw) (\<lambda>_. False) (overlayLowerContainsWhiteout sys)"
  let ?init = "(s, \<lparr>rec_changes = [], rec_dirs = []\<rparr>)"
  obtain res s' r where w: "Walk fuel (osys_fst sys) rw ?visit ?init = (res, s', r)" by (metis prod_cases3)
  have "keeps ?Q (?visit p i e)" for p i e by (rule keeps_changes_visit) (rule overlayDeletedFile_path)
  then have "keeps ?Q (Walk fuel (osys_fst sys) rw ?visit)" by (intro keeps_Walk [where I = "\<lambda>_. True"]) simp_all
  from keepsD [OF this _ w] have "parents_recorded r" by (simp add: parents_recorded_def)
  moreover have "cs = rec_changes r"
    using assms(1) w by (auto simp: OverlayChanges_def changes_def split: sum.splits if_splits)
  ultimately show ?thesis using assms(2-4) by (auto simp: parents_recorded_def)
qed

definition demo_upper :: "unit osys" where
  "demo_upper = demo_files
     [(''/rw'', demo_stat 0x41ED 2 4096), (''/rw/a'', demo_stat 0x41ED 3 4096), (''/rw/a/b'', demo_stat 0x81A4 4 5),
      (''/lo/a'', demo_stat 0x41ED 5 4096)]
     [(''/rw'', [''a'']), (''/rw/a'', [''b''])]"

theorem OverlayChanges_parents_witness:
  "\<exists>cs. OverlayChanges 5 demo_upper False [''/lo''] ''/rw'' () = Inr cs \<and>
     \<lparr>ch_Path = ''/a/b'', ch_Kind = ChangeAdd\<rparr> \<in> set cs \<and> ''/a'' \<in> ch_Path ` set cs"
proof -
  let ?cs = "[\<lparr>ch_Path = ''/a'', ch_Kind = ChangeModify\<rparr>, \<lparr>ch_Path = ''/a/b'', ch_Kind = ChangeAdd\<rparr>]"
  have o: "OverlayChanges 5 demo_upper False [''/lo''] ''/rw'' () = Inr ?cs" by code_simp
  have "''/a'' \<in> set (dirs_above (Dir ''/a/b''))" by code_simp
  then have "''/a'' \<in> ch_Path ` set ?cs" using OverlayChanges_parents [OF o, of "\<lparr>ch_Path = ''/a/b'', ch_Kind = ChangeAdd\<rparr>"] by simp
  then show ?thesis using o by (intro exI [of _ ?cs]) simp
qed

text \<open>
  A directory that replaces a file of a lower layer makes the comparison fail: \<open>layerScan\<close> takes
  the error \<open>ENOTDIR\<close> of the lower layer for a failure, where the checks for whiteouts do not.
\<close>

lemma OverlayChanges_below_file:
  "OverlayChanges 5 (demo_upper\<lparr>os_Stat := \<lambda>p s. if p = ''/lo/a'' then Inr (demo_stat 0x81A4 5 1) else Inl ENOTDIR\<rparr>)
     False [''/lo''] ''/rw'' () = Inl ENOTDIR"
  by code_simp

end
