(* ===== verification/ArchiveExport.thy ===== *)
theory ArchiveExport
  imports ArchiveConfined ArchiveLayers
begin

text \<open>
  Archives made from changes: \<open>addTarFile\<close> of \<^verbatim>\<open>pkg/archive/archive.go\<close> and
  \<open>ExportChanges\<close> of \<^verbatim>\<open>changes.go\<close>.  The files are read through \<open>osys\<close> in one state;
  the tar writer is the function \<open>write\<close>, which may refuse a header, and the list of the entries
  written so far.  Access and change times are left out: the writer drops them unless the format
  is set.
\<close>

section \<open>Headers of files\<close>

definition file_type :: "Stat_t \<Rightarrow> 32 word" where
  "file_type fi = sys_Mode fi AND S_IFMT"

text \<open>\<open>tar.FileInfoHeader\<close>, as far as the header has the fields.\<close>

definition std_FileInfoHeader :: "Stat_t \<Rightarrow> string \<Rightarrow> gerr + tarHeader" where
  "std_FileInfoHeader fi link =
     (let h = \<lparr>h_Typeflag = TypeReg, h_Name = [], h_Linkname = [], h_Size = 0, h_Mode = uint (sys_Mode fi AND 0xFFF),
               h_Uid = uint (sys_Uid fi), h_Gid = uint (sys_Gid fi),
               h_ModTime = ts_Sec (sys_Mtim fi) * 10 ^ 9 + ts_Nsec (sys_Mtim fi), h_AccessTime = 0,
               h_Devmajor = 0, h_Devminor = 0, h_Xattrs = []\<rparr> in
      if file_type fi = 0x8000 then Inr (h\<lparr>h_Size := sys_Size fi\<rparr>)
      else if file_type fi = S_IFDIR then Inr (h\<lparr>h_Typeflag := TypeDir\<rparr>)
      else if file_type fi = 0xA000 then Inr (h\<lparr>h_Typeflag := TypeSymlink, h_Linkname := link\<rparr>)
      else if file_type fi = 0x2000 then Inr (h\<lparr>h_Typeflag := TypeChar\<rparr>)
      else if file_type fi = 0x6000 then Inr (h\<lparr>h_Typeflag := TypeBlock\<rparr>)
      else if file_type fi = 0x1000 then Inr (h\<lparr>h_Typeflag := TypeFifo\<rparr>)
      else Inl (Errorf ''archive/tar: sockets not supported''))"

definition fillGo18FileTypeBits :: "int \<Rightarrow> Stat_t \<Rightarrow> int" where
  "fillGo18FileTypeBits mode fi = mode OR uint (file_type fi)"

definition canonicalTarName :: "string \<Rightarrow> bool \<Rightarrow> string" where
  "canonicalTarName name dir = (if dir \<and> \<not> suffix ''/'' name then name @ ''/'' else name)"

text \<open>
  \<open>setHeaderForSpecialDevice\<close> tests bits of the mode that directories and symbolic links have too.
\<close>

definition setHeaderForSpecialDevice :: "tarHeader \<Rightarrow> Stat_t \<Rightarrow> tarHeader" where
  "setHeaderForSpecialDevice hdr fi =
     (if sys_Mode fi AND 0x6000 \<noteq> 0 \<or> sys_Mode fi AND 0x2000 \<noteq> 0
      then hdr\<lparr>h_Devmajor := int (major (sys_Rdev fi)), h_Devminor := int (minor (sys_Rdev fi))\<rparr>
      else hdr)"

definition FileInfoHeader :: "string \<Rightarrow> Stat_t \<Rightarrow> string \<Rightarrow> gerr + tarHeader" where
  "FileInfoHeader name fi link =
     (case std_FileInfoHeader fi link of
        Inl e \<Rightarrow> Inl e
      | Inr hdr \<Rightarrow>
          Inr (setHeaderForSpecialDevice
            (hdr\<lparr>h_Mode := fillGo18FileTypeBits (h_Mode hdr) fi, h_Name := canonicalTarName name (IsDir fi)\<rparr>) fi))"

fun security_xattrs :: "'s osys \<Rightarrow> string \<Rightarrow> string list \<Rightarrow> 's \<Rightarrow> (string \<times> bytes) list \<Rightarrow> gerr + (string \<times> bytes) list" where
  "security_xattrs sys path [] s xs = Inr xs"
| "security_xattrs sys path (xattr # xattrs) s xs =
     (case os_Lgetxattr sys path xattr s of
        Inl e \<Rightarrow> if e = EOPNOTSUPP then security_xattrs sys path xattrs s xs else Inl e
      | Inr None \<Rightarrow> security_xattrs sys path xattrs s xs
      | Inr (Some v) \<Rightarrow> security_xattrs sys path xattrs s (AList.update xattr v xs))"

definition ReadSecurityXattrToTarHeader :: "'s osys \<Rightarrow> string \<Rightarrow> tarHeader \<Rightarrow> 's \<Rightarrow> gerr + tarHeader" where
  "ReadSecurityXattrToTarHeader sys path hdr s =
     (case security_xattrs sys path [''security.capability'', ''security.ima''] s (h_Xattrs hdr) of
        Inl e \<Rightarrow> Inl e | Inr xs \<Rightarrow> Inr (hdr\<lparr>h_Xattrs := xs\<rparr>))"

fun user_xattrs :: "'s osys \<Rightarrow> string \<Rightarrow> string list \<Rightarrow> 's \<Rightarrow> (string \<times> bytes) list \<Rightarrow> gerr + (string \<times> bytes) list" where
  "user_xattrs sys path [] s xs = Inr xs"
| "user_xattrs sys path (key # keys) s xs =
     (if prefix ''user.'' key then
        (case os_Lgetxattr sys path key s of
           Inl e \<Rightarrow> if e = E2BIG then user_xattrs sys path keys s xs else Inl e
         | Inr v \<Rightarrow> user_xattrs sys path keys s (AList.update key (case v of None \<Rightarrow> [] | Some b \<Rightarrow> b) xs))
      else user_xattrs sys path keys s xs)"

definition ReadUserXattrToTarHeader :: "'s osys \<Rightarrow> string \<Rightarrow> tarHeader \<Rightarrow> 's \<Rightarrow> gerr + tarHeader" where
  "ReadUserXattrToTarHeader sys path hdr s =
     (case os_Llistxattr sys path s of
        Inl e \<Rightarrow> if e = EOPNOTSUPP then Inr hdr else Inl e
      | Inr keys \<Rightarrow>
          (case user_xattrs sys path keys s (h_Xattrs hdr) of Inl e \<Rightarrow> Inl e | Inr xs \<Rightarrow> Inr (hdr\<lparr>h_Xattrs := xs\<rparr>)))"

section \<open>Adding a file\<close>

record tarAppender =
  ta_SeenFiles :: "(nat \<times> string) list"
  ta_out :: "(tarHeader \<times> bytes) list"

record appenderConfig =
  ac_IDMappings :: IDMappings
  ac_ChownOpts :: "IDPair option"
  ac_Converter :: "(bool \<times> string list) option"
  ac_CopyPass :: bool
  ac_write :: "tarHeader \<Rightarrow> gerr option"

definition newTarAppender :: tarAppender where
  "newTarAppender = \<lparr>ta_SeenFiles = [], ta_out = []\<rparr>"

definition WriteHeader :: "appenderConfig \<Rightarrow> tarHeader \<Rightarrow> bytes \<Rightarrow> (tarAppender, unit) go" where
  "WriteHeader cf hdr data ta =
     (case ac_write cf hdr of
        Some e \<Rightarrow> (Inl e, ta)
      | None \<Rightarrow> (Inr (), ta\<lparr>ta_out := ta_out ta @ [(hdr, data)]\<rparr>))"

definition seen_link :: "Stat_t \<Rightarrow> string \<Rightarrow> tarHeader \<Rightarrow> (tarAppender, tarHeader) go" where
  "seen_link fi name hdr ta =
     (if \<not> IsDir fi \<and> hasHardlinks fi then
        (case map_of (ta_SeenFiles ta) (getIno fi) of
           Some oldpath \<Rightarrow> (Inr (hdr\<lparr>h_Typeflag := TypeLink, h_Linkname := oldpath, h_Size := 0\<rparr>), ta)
         | None \<Rightarrow> (Inr hdr, ta\<lparr>ta_SeenFiles := AList.update (getIno fi) name (ta_SeenFiles ta)\<rparr>))
      else (Inr hdr, ta))"

definition map_owner :: "appenderConfig \<Rightarrow> Stat_t \<Rightarrow> tarHeader \<Rightarrow> gerr + tarHeader" where
  "map_owner cf fi hdr =
     (if \<not> prefix WhiteoutPrefix (Base (h_Name hdr)) \<and> \<not> Empty (ac_IDMappings cf) then
        (case ToContainer (ac_IDMappings cf) \<lparr>UID = uint (sys_Uid fi), GID = uint (sys_Gid fi)\<rparr> of
           Inl e \<Rightarrow> Inl e
         | Inr (u, g) \<Rightarrow> Inr (hdr\<lparr>h_Uid := u, h_Gid := g\<rparr>))
      else Inr hdr)"

text \<open>The whiteout is written after the entry itself, which must then have no data.\<close>

definition write_entry :: "'s osys \<Rightarrow> appenderConfig \<Rightarrow> string \<Rightarrow> tarHeader \<Rightarrow> tarHeader option \<Rightarrow> 's \<Rightarrow> (tarAppender, unit) go" where
  "write_entry sys cf path hdr wo s =
     (let finish = (\<lambda>h. if h_Typeflag h = TypeReg \<and> h_Size h > 0 then
                          (case os_ReadFile sys path s of
                             Inl e \<Rightarrow> bind (WriteHeader cf h []) (\<lambda>_. fail e)
                           | Inr d \<Rightarrow> WriteHeader cf h d)
                        else WriteHeader cf h []) in
      case wo of
        None \<Rightarrow> finish hdr
      | Some w \<Rightarrow>
          bind (WriteHeader cf hdr []) (\<lambda>_.
            if h_Typeflag hdr = TypeReg \<and> h_Size hdr > 0 then fail (Errorf ''tar: cannot use whiteout for non-empty file'')
            else finish w))"

definition addTarFile :: "'s osys \<Rightarrow> appenderConfig \<Rightarrow> string \<Rightarrow> string \<Rightarrow> 's \<Rightarrow> (tarAppender, unit) go" where
  "addTarFile sys cf path name s =
     bind (lift_result (os_Lstat sys path s)) (\<lambda>fi.
     bind (if is_symlink fi then lift_result (os_Readlink sys path s) else ret []) (\<lambda>link.
     bind (lift_result (FileInfoHeader name fi link)) (\<lambda>hdr0.
     bind (lift_result (ReadSecurityXattrToTarHeader sys path hdr0 s)) (\<lambda>hdr1.
     bind (lift_result (ReadUserXattrToTarHeader sys path hdr1 s)) (\<lambda>hdr2.
     bind (seen_link fi name hdr2) (\<lambda>hdr3.
     bind (lift_result (map_owner cf fi hdr3)) (\<lambda>hdr4.
     (let hdr5 = (case ac_ChownOpts cf of None \<Rightarrow> hdr4 | Some p \<Rightarrow> hdr4\<lparr>h_Uid := UID p, h_Gid := GID p\<rparr>);
          hdr6 = (if ac_CopyPass cf then hdr5 else hdr5\<lparr>h_ModTime := h_ModTime hdr5 - h_ModTime hdr5 mod 10 ^ 9\<rparr>) in
      case ac_Converter cf of
        None \<Rightarrow> write_entry sys cf path hdr6 None s
      | Some (rootless, rolayers) \<Rightarrow>
          bind (lift_result (ConvertWrite sys rootless rolayers hdr6 path fi s)) (\<lambda>(hdr7, wo).
            write_entry sys cf path hdr7 wo s)))))))))"

section \<open>Exporting changes\<close>

definition deletion_header :: "int \<Rightarrow> Change \<Rightarrow> tarHeader" where
  "deletion_header now c =
     (let whiteOut = Join [Dir (ch_Path c), WhiteoutPrefix @ Base (ch_Path c)] in
      \<lparr>h_Typeflag = TypeReg, h_Name = tl whiteOut, h_Linkname = [], h_Size = 0, h_Mode = 0, h_Uid = 0, h_Gid = 0,
       h_ModTime = now, h_AccessTime = now, h_Devmajor = 0, h_Devminor = 0, h_Xattrs = []\<rparr>)"

definition export_change :: "'s osys \<Rightarrow> appenderConfig \<Rightarrow> int \<Rightarrow> string \<Rightarrow> 's \<Rightarrow> Change \<Rightarrow> (tarAppender, unit) go" where
  "export_change sys cf now dir s c =
     (if ch_Kind c = ChangeDelete then WriteHeader cf (deletion_header now c) []
      else addTarFile sys cf (Join [dir, ch_Path c]) (tl (ch_Path c)) s)"

text \<open>Errors of single entries are logged and the entry is left out.\<close>

fun export_loop :: "'s osys \<Rightarrow> appenderConfig \<Rightarrow> int \<Rightarrow> string \<Rightarrow> 's \<Rightarrow> Change list \<Rightarrow> (tarAppender, unit) go" where
  "export_loop sys cf now dir s [] = ret ()"
| "export_loop sys cf now dir s (c # cs) =
     bind (ignoring (export_change sys cf now dir s c)) (\<lambda>_. export_loop sys cf now dir s cs)"

text \<open>
  \<open>sort.Sort\<close> is not stable; the model keeps the order of changes with the same path, which the lists
  of the comparison do not have.
\<close>

definition changesByPath :: "Change list \<Rightarrow> Change list" where
  "changesByPath chs = sort_key ch_Path chs"

definition ExportChanges ::
  "'s osys \<Rightarrow> (tarHeader \<Rightarrow> gerr option) \<Rightarrow> int \<Rightarrow> string \<Rightarrow> Change list \<Rightarrow> idmaps \<Rightarrow> idmaps \<Rightarrow> 's \<Rightarrow> (tarHeader \<times> bytes) list" where
  "ExportChanges sys write now dir chs uidMaps gidMaps s =
     (let cf = \<lparr>ac_IDMappings = NewIDMappingsFromMaps uidMaps gidMaps, ac_ChownOpts = None, ac_Converter = None,
                ac_CopyPass = False, ac_write = write\<rparr> in
      ta_out (snd (export_loop sys cf now dir s (changesByPath chs) newTarAppender)))"

section \<open>Names of whiteouts\<close>

lemma prefix_before_slash: "CHR ''/'' \<notin> set w \<Longrightarrow> prefix w (e @ CHR ''/'' # t) \<Longrightarrow> prefix w e"
proof (induction w arbitrary: e)
  case (Cons a w)
  show ?case
  proof (cases e)
    case Nil
    then show ?thesis using Cons.prems by simp
  next
    case (Cons b e')
    then show ?thesis using Cons.IH [of e'] Cons.prems by simp
  qed
qed simp

lemma prefix_join_slash: "CHR ''/'' \<notin> set w \<Longrightarrow> es \<noteq> [] \<Longrightarrow> prefix w (join_slash es) \<Longrightarrow> prefix w (hd es)"
  by (cases es rule: join_slash.cases) (auto dest: prefix_before_slash)

lemma no_outside: "es \<noteq> [] \<Longrightarrow> list_all plain es \<Longrightarrow> \<not> prefix ''../'' (join_slash es)"
proof
  assume es: "es \<noteq> []" "list_all plain es" and "prefix ''../'' (join_slash es)"
  then obtain t where "join_slash es = ''..'' @ CHR ''/'' # t" by (auto simp: prefix_def)
  then have "split_on (CHR ''/'') (join_slash es) = ''..'' # split_on (CHR ''/'') t" using split_on_append [of "CHR ''/''" "''..''" t] by simp
  then have "es = ''..'' # split_on (CHR ''/'') t" using split_on_join_slash [OF es(1) plain_is_name [OF es(2)]] by simp
  then show False using es(2) by (simp add: plain_def)
qed

lemma strip_common_append: "strip_common xs (xs @ ys) = ([], ys)"
  by (induction xs) auto

lemma Rel_below:
  assumes "list_all plain ds" "list_all plain es" "es \<noteq> []"
  shows "Rel (path_string ds) (path_string (ds @ es)) = Inr (join_slash es)"
  using assms by (subst Rel_path_string) (auto simp: strip_common_append)

section \<open>Properties\<close>

text \<open>
  C25: a deletion survives the archive.  The entry that \<open>ExportChanges\<close> writes for a deleted file makes
  \<open>UnpackLayer\<close> remove that file below its destination and do nothing else, once the parent directory
  is there; no name on the path may itself start with \<open>.wh.\<close>.
\<close>

theorem deletion_roundtrip:
  assumes "list_all plain ds" "es \<noteq> []" "list_all plain es" "\<forall>e \<in> set es. \<not> prefix WhiteoutPrefix e"
    and h_def: "h = deletion_header now (change es ChangeDelete)"
  shows "unpack_entry fuel sys (path_string ds) opts h data =
    bind (modify (up_size_update (\<lambda>n. int64 n))) (\<lambda>_.
    bind (on_sys (make_parent sys (path_string ds) (h_Name h))) (\<lambda>_.
    on_sys (os_Do sys (SysRemoveAll (path_string (ds @ es))))))"
proof -
  let ?w = "WhiteoutPrefix @ last es"
  let ?gs = "butlast es @ [?w]"
  have l: "plain (last es)" "list_all plain (butlast es)" "\<not> prefix WhiteoutPrefix (last es)"
    using assms(2-4) by (auto simp: list_all_iff dest: in_set_butlastD)
  have gs: "list_all plain ?gs" "?gs \<noteq> []" "list_all plain (ds @ ?gs)" "ds @ ?gs \<noteq> []"
    using assms(1) l plain_whiteout [OF l(1)] by auto
  have n: "h_Name h = join_slash ?gs"
    using Join_dest [OF l(2), of "[?w]"] plain_whiteout [OF l(1)] Dir_Base_path_string [OF assms(2,3)]
    by (simp add: h_def deletion_header_def change_def path_string_def)
  have c: "Clean (h_Name h) = h_Name h" unfolding n by (rule Clean_join_slash [OF gs(2,1)])
  have m: "\<not> prefix WhiteoutMetaPrefix (h_Name h)"
  proof
    assume "prefix WhiteoutMetaPrefix (h_Name h)"
    then have "prefix WhiteoutMetaPrefix (hd ?gs)"
      unfolding n by (intro prefix_join_slash) (simp_all add: WhiteoutMetaPrefix_def WhiteoutPrefix_def)
    then have "prefix WhiteoutPrefix (last es) \<or> prefix WhiteoutPrefix (hd (butlast es)) \<and> butlast es \<noteq> []"
      by (cases "butlast es") (auto simp: WhiteoutMetaPrefix_def dest: append_prefixD)
    moreover have "hd (butlast es) \<in> set es" if "butlast es \<noteq> []"
      by (rule in_set_butlastD) (rule hd_in_set [OF that])
    ultimately show False using l(3) assms(4) by blast
  qed
  have j: "Join [path_string ds, h_Name h] = path_string (ds @ ?gs)" unfolding n by (rule Join_dest [OF assms(1) gs(1,2)])
  have r: "Rel (path_string ds) (path_string (ds @ ?gs)) = Inr (join_slash ?gs)" by (rule Rel_below [OF assms(1) gs(1,2)])
  note db = Dir_Base_path_string [OF gs(4,3)]
  have o: "?w \<noteq> WhiteoutOpaqueDir" using l(3) by (auto simp: WhiteoutOpaqueDir_def WhiteoutMetaPrefix_def)
  have "Join [path_string (ds @ butlast es), last es] = path_string (ds @ es)"
    using Join_dest [of "ds @ butlast es" "[last es]"] assms(1,2) l by simp
  then have "unpack_named fuel sys (path_string ds) opts h data = on_sys (os_Do sys (SysRemoveAll (path_string (ds @ es))))"
    using o no_outside [OF gs(2,1)] db
    by (simp add: unpack_named_def j r Let_def unpack_whiteout_def butlast_append)
  moreover have "h_Size h = 0" by (simp add: h_def deletion_header_def Let_def)
  ultimately show ?thesis using c m by (simp add: unpack_entry_def Let_def)
qed

theorem deletion_roundtrip_witness:
  "unpack_entry 3 (logged demo_sys) ''/srv/l'' no_tar_options (deletion_header 7 (change [''a'', ''b''] ChangeDelete)) [] =
    bind (modify (up_size_update (\<lambda>n. int64 n))) (\<lambda>_.
    bind (on_sys (make_parent (logged demo_sys) ''/srv/l'' ''a/.wh.b'')) (\<lambda>_.
    on_sys (os_Do (logged demo_sys) (SysRemoveAll ''/srv/l/a/b''))))"
proof -
  have "list_all plain [''srv'', ''l'']" "list_all plain [''a'', ''b'']" "\<forall>e \<in> set [''a'', ''b'']. \<not> prefix WhiteoutPrefix e" by code_simp+
  moreover have "path_string [''srv'', ''l''] = ''/srv/l''" "path_string ([''srv'', ''l''] @ [''a'', ''b'']) = ''/srv/l/a/b''"
    "h_Name (deletion_header 7 (change [''a'', ''b''] ChangeDelete)) = ''a/.wh.b''" by code_simp+
  ultimately show ?thesis
    using deletion_roundtrip [of "[''srv'', ''l'']" "[''a'', ''b'']" _ 7 3 "logged demo_sys" no_tar_options "[]"] by simp
qed

section \<open>Parents first\<close>

lemma file_at_append: "file_at n (p @ q) = (case file_at n p of None \<Rightarrow> None | Some d \<Rightarrow> file_at d q)"
  by (induction n p rule: file_at.induct) (auto split: option.splits)

lemma file_at_parent: "file_at n (p @ q) \<noteq> None \<Longrightarrow> file_at n p \<noteq> None"
  by (auto simp: file_at_append split: option.splits)

lemma parent_is_dir:
  assumes "readable n" "file_at n (p @ [e]) \<noteq> None" "file_at n p = Some d"
  shows "isDir p (scan m d)"
proof (cases "p = []")
  case False
  have r: "readable d" using assms(1,3) by (induction p arbitrary: n) (auto split: option.splits dest: readable_child)
  have "map_of (nd_files d) e \<noteq> None" using assms(2,3) by (auto simp: file_at_append split: option.splits)
  then have ne: "nd_files d \<noteq> []" by auto
  obtain st where st: "nd_lstat d = Inr st" "listing_ok st d" using readable_node [OF r] by metis
  then have "IsDir st" using ne by (auto simp: listing_ok_def split: if_splits)
  then show ?thesis using IsDir_bit scan_mode [OF r st(1), of m] by (simp add: isDir_def)
qed (simp add: isDir_def)

lemma stays_dir_parent:
  assumes "readable new" "file_at new (p @ [e]) \<noteq> None" "file_at old p \<noteq> None"
  shows "stays_dir m new old p"
  using file_at_parent [OF assms(2)] assms(3) parent_is_dir [OF assms(1,2), of _ m] by (auto simp: stays_dir_def)

lemma reported_parent:
  assumes r: "readable new" "readable old" and p: "p \<noteq> []"
    and rep: "reported [] False m m (scan m new) (scan m old) (p @ [e]) k"
  shows "\<exists>k'. k' \<noteq> ChangeDelete \<and> reported [] False m m (scan m new) (scan m old) p k'"
proof -
  note disk = reported_disk [OF r p, of m] reported_disk [OF r, of "p @ [e]" m, simplified]
  have modify: "\<exists>k'. k' \<noteq> ChangeDelete \<and> reported [] False m m (scan m new) (scan m old) p k'"
    if "stays_dir m new old p" "s \<noteq> []" "appears new old (p @ s) \<or> vanishes m new old (p @ s) \<or> differs m new old (p @ s)" for s
    using that disk(3) by (intro exI [of _ ChangeModify]) auto
  show ?thesis
  proof (cases k)
    case ChangeAdd
    then have a: "appears new old (p @ [e])" using rep disk by simp
    show ?thesis
    proof (cases "file_at old p")
      case None
      then have "appears new old p" using a file_at_parent [of new p "[e]"] by (auto simp: appears_def)
      then show ?thesis using disk(1) by blast
    next
      case (Some b)
      then show ?thesis using a stays_dir_parent [OF r(1), of p e old m] modify [of "[e]"] by (auto simp: appears_def)
    qed
  next
    case ChangeDelete
    then have v: "vanishes m new old (p @ [e])" using rep disk by simp
    then have "stays_dir m new old p" using file_at_parent [of old p "[e]"]
      by (auto simp: vanishes_def stays_dir_def split: option.splits)
    then show ?thesis using v modify [of "[e]"] by simp
  next
    case ChangeModify
    then consider "differs m new old (p @ [e])"
      | s where "stays_dir m new old (p @ [e])" "appears new old (p @ [e] @ s) \<or> vanishes m new old (p @ [e] @ s) \<or> differs m new old (p @ [e] @ s)"
      using rep disk(6) by auto
    then obtain s where "s \<noteq> []" "appears new old (p @ s) \<or> vanishes m new old (p @ s) \<or> differs m new old (p @ s)"
        "file_at new (p @ [e]) \<noteq> None" "file_at old (p @ [e]) \<noteq> None"
    proof cases
      case 1
      then show ?thesis using that [of "[e]"] by (simp add: differs_def split: option.splits)
    next
      case (2 s)
      then show ?thesis using that [of "[e] @ s"] by (simp add: stays_dir_def split: option.splits)
    qed
    then show ?thesis using modify [of s] stays_dir_parent [OF r(1), of p e old m] file_at_parent [of old p "[e]"] by simp
  qed
qed

lemma path_string_less: "p \<noteq> [] \<Longrightarrow> path_string p < path_string (p @ [e])"
  using rev_join_slash_last [of "p @ [e]"] by (simp add: list_less_def lexord_append_rightI)

lemma sort_key_before:
  fixes f :: "'a \<Rightarrow> 'b::linorder"
  assumes "sort_key f zs = xs @ c # ys" "d \<in> set zs" "f d < f c"
  shows "d \<in> set xs"
proof -
  have "sorted (map f (xs @ c # ys))" using sorted_sort_key [of f zs] assms(1) by simp
  then have "\<forall>y \<in> set ys. f c \<le> f y" by (auto simp: sorted_append)
  moreover have "d \<in> set (xs @ c # ys)" using assms(1,2) set_sort [of f zs] by simp
  ultimately show ?thesis using assms(3) by auto
qed

text \<open>
  C23: the archive of a difference can be extracted in order.  In the order in which \<open>ExportChanges\<close> writes
  the changes that \<open>ChangesDirs\<close> found, the addition or modification of the directory a file is in comes before the
  entry of the file.
\<close>

theorem ChangesDirs_parents_first:
  assumes r: "readable new" "readable old" and i: "inodes_identify tab new" "inodes_identify tab old"
    and cs: "ChangesDirs tmp new m (Some old) m = Inr cs"
    and o: "changesByPath cs = xs @ change (p @ [e]) k # ys" and p: "p \<noteq> []" "list_all is_name (p @ [e])"
  shows "\<exists>k'. k' \<noteq> ChangeDelete \<and> change p k' \<in> set xs"
proof -
  have all: "set cs = {change p k | p k. reported [] False m m (scan m new) (scan m old) p k}"
    by (rule set_ChangesDirs [OF r i, of tmp m]) (simp only: cs sum.inject)
  have "change (p @ [e]) k \<in> set (changesByPath cs)" unfolding o by simp
  then have "change (p @ [e]) k \<in> set cs" by (simp add: changesByPath_def)
  then obtain q k' where q: "change (p @ [e]) k = change q k'" "reported [] False m m (scan m new) (scan m old) q k'"
    unfolding all by blast
  then have "reported [] False m m (scan m new) (scan m old) (p @ [e]) k"
    using change_inject [OF p(2) reported_names [OF r q(2)]] by simp
  then obtain l where l: "l \<noteq> ChangeDelete" "reported [] False m m (scan m new) (scan m old) p l"
    using reported_parent [OF r p(1)] by blast
  then have "change p l \<in> set cs" unfolding all by blast
  moreover have "ch_Path (change p l) < ch_Path (change (p @ [e]) k)" using path_string_less [OF p(1)] by (simp add: change_def)
  ultimately show ?thesis using sort_key_before [of ch_Path cs] o l(1) unfolding changesByPath_def by blast
qed

theorem ChangesDirs_parents_first_witness:
  "\<exists>cs xs ys k'. ChangesDirs (Inl NotExist) demo_new \<lparr>uids = None, gids = None\<rparr> (Some demo_old) \<lparr>uids = None, gids = None\<rparr> = Inr cs \<and>
     changesByPath cs = xs @ change [''sub'', ''x''] ChangeModify # ys \<and> k' \<noteq> ChangeDelete \<and> change [''sub''] k' \<in> set xs"
proof -
  let ?m = "\<lparr>uids = None, gids = None\<rparr>"
  obtain cs where cs: "ChangesDirs (Inl NotExist) demo_new ?m (Some demo_old) ?m = Inr cs"
      "set cs = set (Changes (scan ?m demo_new) (Some (scan ?m demo_old)))"
    using set_ChangesDirs_Changes [OF demo_disks] by blast
  have "change [''sub'', ''x''] ChangeModify \<in> set (Changes (scan ?m demo_new) (Some (scan ?m demo_old)))" by code_simp
  then have "change [''sub'', ''x''] ChangeModify \<in> set (changesByPath cs)" using cs(2) by (simp add: changesByPath_def)
  then obtain xs ys where "changesByPath cs = xs @ change ([''sub''] @ [''x'']) ChangeModify # ys" by (auto dest: split_list)
  then show ?thesis using ChangesDirs_parents_first [OF demo_disks cs(1), of xs "[''sub'']" "''x''" ChangeModify ys] cs(1)
    by (auto simp: is_name_def)
qed

end
