(* ===== verification/ArchiveUntar.thy ===== *)
theory ArchiveUntar
  imports ArchiveConfined ArchiveLayers
begin

text \<open>
  \<open>Unpack\<close> and \<open>untarHandler\<close> of \<^verbatim>\<open>pkg/archive/archive.go\<close>: an archive is extracted
  to a directory, with whiteouts converted to those of overlay if asked for; and \<open>mkdirAs\<close> of
  \<^verbatim>\<open>pkg/idtools/idtools_unix.go\<close>, which makes the missing directories.  Decompression and
  the tar reader are parameters.
\<close>

section \<open>Decompression\<close>

text \<open>
  A stream is looked at through its first ten bytes; \<open>unz\<close> is the reader of each compressed format.
\<close>

definition DecompressStream :: "(Compression \<Rightarrow> bytes \<Rightarrow> gerr + bytes) \<Rightarrow> bytes \<Rightarrow> gerr + bytes" where
  "DecompressStream unz archive =
     (case DetectCompression (take 10 archive) of
        Uncompressed \<Rightarrow> Inr archive
      | c \<Rightarrow> unz c archive)"

section \<open>Making directories\<close>

definition IsExist :: "gerr \<Rightarrow> bool" where
  "IsExist e \<longleftrightarrow> e = SysErr 17 \<or> e = SysErr 39"

fun missing_dirs :: "'s osys \<Rightarrow> string list \<Rightarrow> 's \<Rightarrow> string list" where
  "missing_dirs sys [] s = []"
| "missing_dirs sys (d # ds) s =
     (if os_Stat sys d s = Inl NotExist then d # missing_dirs sys ds s else missing_dirs sys ds s)"

fun chown_dirs :: "'s osys \<Rightarrow> int \<Rightarrow> int \<Rightarrow> string list \<Rightarrow> ('s, unit) go" where
  "chown_dirs sys uid gid [] = ret ()"
| "chown_dirs sys uid gid (p # ps) = bind (SafeChown sys p uid gid) (\<lambda>_. chown_dirs sys uid gid ps)"

text \<open>The directories to give away are those that were missing before.\<close>

definition make_all :: "'s osys \<Rightarrow> string \<Rightarrow> int \<Rightarrow> int \<Rightarrow> int \<Rightarrow> string list \<Rightarrow> ('s, unit) go" where
  "make_all sys path mode ownerUID ownerGID paths s =
     bind (os_Do sys (SysMkdirAll path mode)) (\<lambda>_.
       chown_dirs sys ownerUID ownerGID (paths @ missing_dirs sys (dirs_above (Dir path)) s)) s"

definition mkdirAs :: "'s osys \<Rightarrow> string \<Rightarrow> int \<Rightarrow> int \<Rightarrow> int \<Rightarrow> bool \<Rightarrow> bool \<Rightarrow> ('s, unit) go" where
  "mkdirAs sys path mode ownerUID ownerGID mkAll chownExisting =
     bind (query (os_Stat sys path)) (\<lambda>r.
       case r of
         Inr st \<Rightarrow>
           if \<not> IsDir st then fail ENOTDIR
           else if chownExisting then SafeChown sys path ownerUID ownerGID
           else ret ()
       | Inl e \<Rightarrow>
           (let paths = (if e = NotExist then [path] else []) in
            if mkAll then
              if \<not> rooted_path path then fail (Errorf ''should be absolute'')
              else make_all sys path mode ownerUID ownerGID paths
            else bind (attempt (os_Do sys (SysMkdir path mode))) (\<lambda>r.
                 case r of
                   Inl e' \<Rightarrow> if IsExist e' then chown_dirs sys ownerUID ownerGID paths else fail e'
                 | Inr _ \<Rightarrow> chown_dirs sys ownerUID ownerGID paths)))"

definition MkdirAllAndChownNew :: "'s osys \<Rightarrow> string \<Rightarrow> int \<Rightarrow> IDPair \<Rightarrow> ('s, unit) go" where
  "MkdirAllAndChownNew sys path mode ids = mkdirAs sys path mode (UID ids) (GID ids) True False"

definition MkdirAllAndChown :: "'s osys \<Rightarrow> string \<Rightarrow> int \<Rightarrow> IDPair \<Rightarrow> ('s, unit) go" where
  "MkdirAllAndChown sys path mode ids = mkdirAs sys path mode (UID ids) (GID ids) True True"

definition MkdirAndChown :: "'s osys \<Rightarrow> string \<Rightarrow> int \<Rightarrow> IDPair \<Rightarrow> ('s, unit) go" where
  "MkdirAndChown sys path mode ids = mkdirAs sys path mode (UID ids) (GID ids) False True"

section \<open>Unpack\<close>

text \<open>The owner and mode that the destination has are kept in an attribute when a mask is forced.\<close>

definition mark_dest :: "'s osys \<Rightarrow> string \<Rightarrow> TarOptions \<Rightarrow> ('s, unit) go" where
  "mark_dest sys dest opts =
     (if t_ForceMask opts = None then ret ()
      else bind (query (os_Stat sys dest)) (\<lambda>r.
        case r of
          Inl _ \<Rightarrow> ret ()
        | Inr st \<Rightarrow> os_Do sys (SysLsetxattr dest containersOverrideXattr
            (show_int (uint (sys_Uid st)) @ '':'' @ show_int (uint (sys_Gid st)) @ '':0'' @
             show_octal (unat (sys_Mode st AND 0xFFF))))))"

definition untar_parent :: "'s osys \<Rightarrow> string \<Rightarrow> TarOptions \<Rightarrow> string \<Rightarrow> ('s, unit) go" where
  "untar_parent sys dest opts name =
     (if suffix ''/'' name then ret ()
      else let parentPath = Join [dest, Dir name] in
           bind (query (os_Lstat sys parentPath)) (\<lambda>r.
             if r = Inl NotExist
             then MkdirAllAndChownNew sys parentPath 0x1FF (RootPair (NewIDMappingsFromMaps (t_UIDMaps opts) (t_GIDMaps opts)))
             else ret ()))"

text \<open>What is there already: the result is \<open>True\<close> if the entry is done.\<close>

definition untar_replace :: "'s osys \<Rightarrow> TarOptions \<Rightarrow> string \<Rightarrow> tarHeader \<Rightarrow> ('s, bool) go" where
  "untar_replace sys opts path hdr =
     bind (query (os_Lstat sys path)) (\<lambda>r.
       case r of
         Inl _ \<Rightarrow> ret False
       | Inr fi \<Rightarrow>
           if t_NoOverwriteDirNonDir opts \<and> IsDir fi \<and> h_Typeflag hdr \<noteq> TypeDir
           then fail (Errorf ''cannot overwrite directory with non-directory'')
           else if t_NoOverwriteDirNonDir opts \<and> \<not> IsDir fi \<and> h_Typeflag hdr = TypeDir
           then fail (Errorf ''cannot overwrite non-directory with directory'')
           else if IsDir fi \<and> h_Name hdr = ''.'' then ret True
           else if IsDir fi \<and> h_Typeflag hdr = TypeDir then ret False
           else bind (os_Do sys (SysRemoveAll path)) (\<lambda>_. ret False))"

text \<open>The result is the list of headers to append to \<open>dirs\<close>.\<close>

definition untar_file :: "'s osys \<Rightarrow> bool \<Rightarrow> string \<Rightarrow> TarOptions \<Rightarrow> string \<Rightarrow> tarHeader \<Rightarrow> bytes \<Rightarrow> ('s, tarHeader list) go" where
  "untar_file sys rootless dest opts path hdr data =
     (case remapIDs None (Some (NewIDMappingsFromMaps (t_UIDMaps opts) (t_GIDMaps opts))) (t_ChownOpts opts) hdr of
        Inl e \<Rightarrow> fail e
      | Inr hdr' \<Rightarrow>
          bind (if t_WhiteoutFormat opts = OverlayWhiteoutFormat then ConvertRead sys rootless hdr' path else ret True) (\<lambda>writeFile.
          if \<not> writeFile then ret []
          else let chownOpts = (if t_ChownOpts opts = None then None else Some \<lparr>UID = h_Uid hdr', GID = h_Gid hdr'\<rparr>) in
               bind (createTarFile sys path dest hdr' data (\<not> t_NoLchown opts) chownOpts (t_InUserNS opts)
                       (t_IgnoreChownErrors opts) (t_ForceMask opts)) (\<lambda>_.
               ret (if h_Typeflag hdr' = TypeDir then [hdr'] else []))))"

definition untar_entry :: "'s osys \<Rightarrow> bool \<Rightarrow> string \<Rightarrow> TarOptions \<Rightarrow> tarHeader \<Rightarrow> bytes \<Rightarrow> ('s, tarHeader list) go" where
  "untar_entry sys rootless dest opts hdr0 data =
     (let hdr = hdr0\<lparr>h_Name := Clean (h_Name hdr0)\<rparr> in
      if list_ex (\<lambda>exclude. prefix exclude (h_Name hdr)) (t_ExcludePatterns opts) then ret []
      else bind (untar_parent sys dest opts (h_Name hdr)) (\<lambda>_.
           let path = Join [dest, h_Name hdr] in
           case Rel dest path of
             Inl e \<Rightarrow> fail e
           | Inr rel \<Rightarrow>
               if prefix ''../'' rel then fail (Errorf ''is outside of'')
               else bind (untar_replace sys opts path hdr) (\<lambda>finished.
                    if finished then ret [] else untar_file sys rootless dest opts path hdr data)))"

fun untar_loop :: "'s osys \<Rightarrow> bool \<Rightarrow> string \<Rightarrow> TarOptions \<Rightarrow> tar_stream \<Rightarrow> tarHeader list \<Rightarrow> ('s, tarHeader list) go" where
  "untar_loop sys rootless dest opts [] dirs = ret dirs"
| "untar_loop sys rootless dest opts (Inl e # tr) dirs = fail e"
| "untar_loop sys rootless dest opts (Inr (hdr, data) # tr) dirs =
     bind (untar_entry sys rootless dest opts hdr data) (\<lambda>ds. untar_loop sys rootless dest opts tr (dirs @ ds))"

definition Unpack :: "'s osys \<Rightarrow> bool \<Rightarrow> tar_stream \<Rightarrow> string \<Rightarrow> TarOptions \<Rightarrow> ('s, unit) go" where
  "Unpack sys rootless archive dest opts =
     bind (mark_dest sys dest opts) (\<lambda>_.
     bind (untar_loop sys rootless dest opts archive []) (\<lambda>dirs.
     set_dir_times sys dest dirs))"

definition untarHandler ::
  "(Compression \<Rightarrow> bytes \<Rightarrow> gerr + bytes) \<Rightarrow> (bytes \<Rightarrow> tar_stream) \<Rightarrow> 's osys \<Rightarrow> bool \<Rightarrow> bytes option \<Rightarrow> string
    \<Rightarrow> TarOptions option \<Rightarrow> bool \<Rightarrow> ('s, unit) go" where
  "untarHandler unz tar_NewReader sys rootless tarArchive dest options decompress =
     (case tarArchive of
        None \<Rightarrow> fail (Errorf ''Empty archive'')
      | Some archive \<Rightarrow>
          (case (if decompress then DecompressStream unz archive else Inr archive) of
             Inl e \<Rightarrow> fail e
           | Inr r \<Rightarrow> Unpack sys rootless (tar_NewReader r) (Clean dest)
                        (case options of None \<Rightarrow> no_tar_options | Some t \<Rightarrow> t)))"

definition Untar where
  "Untar unz tar_NewReader sys rootless tarArchive dest options =
     untarHandler unz tar_NewReader sys rootless tarArchive dest options True"

definition UntarUncompressed where
  "UntarUncompressed unz tar_NewReader sys rootless tarArchive dest options =
     untarHandler unz tar_NewReader sys rootless tarArchive dest options False"

section \<open>Where extraction writes\<close>

text \<open>
  The calls that make a missing parent: the directory is made, and it and the missing directories
  above it are given to the root of the mapping.
\<close>

definition parent_calls :: "IDPair \<Rightarrow> string \<Rightarrow> sys_call set" where
  "parent_calls ids p = insert (SysMkdirAll p 0x1FF) {SysChown q (UID ids) (GID ids) | q. q \<in> set (p # dirs_above (Dir p))}"

definition untar_parents :: "path \<Rightarrow> TarOptions \<Rightarrow> tar_stream \<Rightarrow> sys_call set" where
  "untar_parents ds opts archive =
     \<Union> {parent_calls (RootPair (NewIDMappingsFromMaps (t_UIDMaps opts) (t_GIDMaps opts)))
          (Join [path_string ds, Dir (Clean (h_Name hdr))]) | hdr data. Inr (hdr, data) \<in> set archive}"

lemma set_missing_dirs: "set (missing_dirs sys ds s) \<subseteq> set ds"
  by (induction ds) auto

lemma keeps_SafeChown: "keeps Q (os_Do sys (SysChown p u g)) \<Longrightarrow> keeps Q (SafeChown sys p u g)"
  unfolding SafeChown_def by (auto intro!: keeps_rules)

lemma keeps_chown_dirs: "(\<And>p. p \<in> set ps \<Longrightarrow> keeps Q (os_Do sys (SysChown p u g))) \<Longrightarrow> keeps Q (chown_dirs sys u g ps)"
proof (induction ps)
  case (Cons p ps)
  then show ?case by (auto intro!: keeps_bind keeps_SafeChown)
qed (simp only: chown_dirs.simps keeps_ret)

lemma keeps_MkdirAllAndChownNew:
  assumes "\<And>c. c \<in> parent_calls ids p \<Longrightarrow> keeps Q (os_Do sys c)"
  shows "keeps Q (MkdirAllAndChownNew sys p 0x1FF ids)"
proof -
  have ch: "keeps Q (os_Do sys (SysChown q (UID ids) (GID ids)))" if "q = p \<or> q \<in> set (dirs_above (Dir p))" for q
    by (rule assms) (use that in \<open>auto simp: parent_calls_def\<close>)
  have mk: "keeps Q (os_Do sys (SysMkdirAll p 0x1FF))" by (rule assms) (simp add: parent_calls_def)
  have cd: "keeps Q (chown_dirs sys (UID ids) (GID ids) (ps @ missing_dirs sys (dirs_above (Dir p)) s))" if "set ps \<subseteq> {p}" for ps s
    using that set_missing_dirs [of sys "dirs_above (Dir p)" s] ch by (intro keeps_chown_dirs) auto
  have "keeps Q (make_all sys p 0x1FF (UID ids) (GID ids) ps)" if "set ps \<subseteq> {p}" for ps
    unfolding make_all_def by (rule keepsI2, rule keeps_snd [OF keeps_bind [OF mk]]) (use cd [OF that] in blast)+
  then show ?thesis unfolding MkdirAllAndChownNew_def mkdirAs_def Let_def
    by (intro keeps_bind [OF keeps_query] keeps_case_sum keeps_if keeps_fail keeps_ret) simp_all
qed

lemma keeps_untar_parent:
  assumes "\<And>c. c \<in> parent_calls (RootPair (NewIDMappingsFromMaps (t_UIDMaps opts) (t_GIDMaps opts))) (Join [dest, Dir name]) \<Longrightarrow>
      keeps Q (os_Do sys c)"
  shows "keeps Q (untar_parent sys dest opts name)"
  unfolding untar_parent_def Let_def
  by (intro keeps_bind [OF keeps_query] keeps_if keeps_ret keeps_MkdirAllAndChownNew assms)

lemma keeps_ConvertRead:
  assumes r: "allows M ds tds Q sys" and d: "dest_ok ds" "list_all plain es" "prefix ds es" "es \<noteq> []"
    and w: "Base (path_string es) \<noteq> WhiteoutPrefix @ ''..''"
  shows "keeps Q (ConvertRead sys rootless hdr (path_string es))"
proof -
  note db = Dir_Base_path_string [OF d(4,2)]
  show ?thesis
  proof (cases "prefix WhiteoutPrefix (last es)")
    case True
    then obtain ob where ob: "last es = WhiteoutPrefix @ ob" by (auto simp: prefix_def)
    then have "ob \<noteq> ''..''" using w db by auto
    note i = whiteout_inside [OF d ob this]
    have "keeps Q (make_whiteout sys hdr (Join [path_string (butlast es), ob]))"
      unfolding make_whiteout_def using i(2) by (auto intro!: keeps_rules keeps_SafeChown allows_do [OF r])
    moreover have "keeps Q (os_Do sys (SysSetxattr (path_string (butlast es)) k v))" for k v
      by (rule allows_do [OF r]) (use i(1) in auto)
    ultimately show ?thesis unfolding ConvertRead_def db Let_def ob by (auto intro!: keeps_rules)
  next
    case False
    then have "last es \<noteq> WhiteoutOpaqueDir" by (auto simp: WhiteoutOpaqueDir_def WhiteoutMetaPrefix_def)
    with False show ?thesis unfolding ConvertRead_def db Let_def by (simp add: keeps_ret)
  qed
qed

lemma keeps_untar_replace:
  assumes "keeps Q (os_Do sys (SysRemoveAll path))"
  shows "keeps Q (untar_replace sys opts path hdr)"
  unfolding untar_replace_def using assms
  by (intro keeps_bind [OF keeps_query] keeps_case_sum keeps_if keeps_fail keeps_ret keeps_bind)

lemma remapIDs_name: "remapIDs rm wm co hdr = Inr hdr' \<Longrightarrow> h_Name hdr' = h_Name hdr"
  by (auto simp: remapIDs_def split: sum.splits)

text \<open>
  \<open>yields Q R m\<close>: \<open>m\<close> keeps \<open>Q\<close> whatever its outcome, and what it returns has \<open>R\<close>.
\<close>

definition yields :: "('s \<Rightarrow> bool) \<Rightarrow> ('a \<Rightarrow> bool) \<Rightarrow> ('s, 'a) go \<Rightarrow> bool" where
  "yields Q R m \<longleftrightarrow> (\<forall>s. Q s \<longrightarrow> Q (snd (m s)) \<and> (\<forall>x. fst (m s) = Inr x \<longrightarrow> R x))"

lemma yields_keeps: "keeps Q m \<Longrightarrow> yields Q (\<lambda>_. True) m"
  by (simp add: yields_def keeps_def)

lemma yields_ret: "R x \<Longrightarrow> yields Q R (ret x)" and yields_fail: "yields Q R (fail e)"
  by (simp_all add: yields_def)

lemma yields_bind:
  assumes "yields Q R m" "\<And>x. R x \<Longrightarrow> yields Q S (f x)"
  shows "yields Q S (bind m f)"
  unfolding yields_def
proof (intro allI impI)
  fix s assume "Q s"
  then have m: "Q (snd (m s))" "\<forall>x. fst (m s) = Inr x \<longrightarrow> R x" using assms(1) by (auto simp: yields_def)
  show "Q (snd (bind m f s)) \<and> (\<forall>y. fst (bind m f s) = Inr y \<longrightarrow> S y)"
  proof (cases "fst (m s)")
    case (Inr x)
    then have "bind m f s = f x (snd (m s))" by (simp add: bind_def case_prod_unfold)
    then show ?thesis using assms(2) [of x] m Inr by (auto simp: yields_def)
  qed (use m in \<open>simp add: bind_def case_prod_unfold\<close>)
qed

lemma yields_if: "(b \<Longrightarrow> yields Q R m) \<Longrightarrow> (\<not> b \<Longrightarrow> yields Q R n) \<Longrightarrow> yields Q R (if b then m else n)"
  by simp

lemmas yields_after = yields_bind [OF yields_keeps]

definition dirs_inside :: "path \<Rightarrow> tarHeader list \<Rightarrow> bool" where
  "dirs_inside ds hs \<longleftrightarrow> (\<forall>h \<in> set hs. inside ds (Join [path_string ds, h_Name h]))"

lemma yields_untar_file:
  assumes r: "allows M ds tds Q sys" and d: "dest_ok ds" "list_all plain es" "prefix ds es" "es \<noteq> []"
    and w: "Base (path_string es) \<noteq> WhiteoutPrefix @ ''..''" and h: "Join [path_string ds, h_Name hdr] = path_string es"
  shows "yields Q (dirs_inside ds) (untar_file sys rootless (path_string ds) opts (path_string es) hdr data)"
proof -
  have i: "inside ds (path_string es)" using d by (auto simp: inside_def)
  have ct: "keeps Q (createTarFile sys (path_string es) (path_string ds) h x l c a b f)" for h x l c a b f
    using keeps_createTarFile [OF r] i by blast
  have cv: "keeps Q (if b then ConvertRead sys rootless h (path_string es) else ret True)" for b h
    using keeps_ConvertRead [OF r d w] by (simp add: keeps_ret)
  show ?thesis
  proof (cases "remapIDs None (Some (NewIDMappingsFromMaps (t_UIDMaps opts) (t_GIDMaps opts))) (t_ChownOpts opts) hdr")
    case (Inr hdr')
    then have "inside ds (Join [path_string ds, h_Name hdr'])" using remapIDs_name h i by simp
    then have "dirs_inside ds (if b then [hdr'] else [])" for b by (simp add: dirs_inside_def)
    moreover have "dirs_inside ds []" by (simp add: dirs_inside_def)
    ultimately show ?thesis unfolding untar_file_def Inr Let_def sum.case
      by (intro yields_after [OF cv] yields_if yields_after [OF ct] yields_ret) simp_all
  qed (simp add: untar_file_def yields_fail)
qed

lemma yields_untar_entry:
  assumes r: "allows M ds tds Q sys" and d: "dest_ok ds" "name_ok ds (h_Name hdr)"
    and m: "parent_calls (RootPair (NewIDMappingsFromMaps (t_UIDMaps opts) (t_GIDMaps opts)))
      (Join [path_string ds, Dir (Clean (h_Name hdr))]) \<subseteq> M"
  shows "yields Q (dirs_inside ds) (untar_entry sys rootless (path_string ds) opts hdr data)"
proof -
  let ?n = "Clean (h_Name hdr)"
  have nil: "dirs_inside ds []" by (simp add: dirs_inside_def)
  have link: "link_checked ds c" if "c \<in> parent_calls ids p" for c ids p using that by (auto simp: parent_calls_def)
  have "keeps Q (os_Do sys c)" if "c \<in> parent_calls (RootPair (NewIDMappingsFromMaps (t_UIDMaps opts) (t_GIDMaps opts)))
      (Join [path_string ds, Dir ?n])" for c
    using r that m link [OF that] unfolding allows_def confined_def by blast
  then have par: "keeps Q (untar_parent sys (path_string ds) opts ?n)" by (rule keeps_untar_parent)
  have "yields Q (dirs_inside ds) (if prefix ''../'' rel then fail (Errorf ''is outside of'')
      else bind (untar_replace sys opts (Join [path_string ds, ?n]) (hdr\<lparr>h_Name := ?n\<rparr>)) (\<lambda>finished.
        if finished then ret [] else untar_file sys rootless (path_string ds) opts (Join [path_string ds, ?n]) (hdr\<lparr>h_Name := ?n\<rparr>) data))"
    if rel: "Rel (path_string ds) (Join [path_string ds, ?n]) = Inr rel" for rel
  proof (cases "prefix ''../'' rel")
    case False
    obtain es where es: "list_all plain es" "prefix ds es" "es \<noteq> []" "Join [path_string ds, ?n] = path_string es"
      using entry_inside [OF d rel False] .
    have w: "Base (path_string es) \<noteq> WhiteoutPrefix @ ''..''" using d(2) es(4) by (simp add: name_ok_def)
    have "keeps Q (os_Do sys (SysRemoveAll (path_string es)))"
      by (rule allows_do [OF r]) (use es in \<open>auto simp: inside_def\<close>)
    then show ?thesis using False nil unfolding es(4)
      by (simp only: if_False simp_thms)
        (intro yields_after [OF keeps_untar_replace] yields_if yields_ret yields_untar_file [OF r d(1) es(1-3) w]; simp add: es(4))
  qed (simp add: yields_fail)
  then show ?thesis using nil unfolding untar_entry_def Let_def
    by (auto intro!: yields_after [OF par] yields_ret yields_fail split: sum.split cong: if_cong)
qed

lemma untar_parents_Cons [simp]:
  "untar_parents ds opts (Inl e # archive) = untar_parents ds opts archive"
  "untar_parents ds opts (Inr (hdr, data) # archive) =
     parent_calls (RootPair (NewIDMappingsFromMaps (t_UIDMaps opts) (t_GIDMaps opts)))
       (Join [path_string ds, Dir (Clean (h_Name hdr))]) \<union> untar_parents ds opts archive"
  by (auto simp: untar_parents_def)

lemma yields_untar_loop:
  assumes r: "allows M ds tds Q sys" and d: "dest_ok ds"
  shows "untar_parents ds opts archive \<subseteq> M \<Longrightarrow> layer_ok ds archive \<Longrightarrow> dirs_inside ds dirs \<Longrightarrow>
    yields Q (dirs_inside ds) (untar_loop sys rootless (path_string ds) opts archive dirs)"
proof (induction archive arbitrary: dirs)
  case (Cons x archive)
  show ?case
  proof (cases x)
    case (Inr e)
    obtain hdr data where e: "e = (hdr, data)" by (cases e)
    have "yields Q (dirs_inside ds) (untar_entry sys rootless (path_string ds) opts hdr data)"
      by (rule yields_untar_entry [OF r d]) (use Cons.prems in \<open>auto simp: Inr e layer_ok_def\<close>)
    moreover have "yields Q (dirs_inside ds) (untar_loop sys rootless (path_string ds) opts archive (dirs @ hs))" if "dirs_inside ds hs" for hs
      by (rule Cons.IH) (use Cons.prems that in \<open>auto simp: Inr e layer_ok_def dirs_inside_def\<close>)
    ultimately show ?thesis unfolding Inr e untar_loop.simps by (rule yields_bind)
  qed (simp only: untar_loop.simps yields_fail)
qed (simp only: untar_loop.simps yields_ret)

lemma keeps_Unpack:
  assumes r: "allows M ds tds Q sys" and d: "dest_ok ds" "untar_parents ds opts archive \<subseteq> M" "layer_ok ds archive"
  shows "keeps Q (Unpack sys rootless archive (path_string ds) opts)"
proof -
  have "inside ds (path_string ds)" using d(1) by (auto simp: inside_def dest_ok_def)
  then have "keeps Q (mark_dest sys (path_string ds) opts)"
    unfolding mark_dest_def by (auto intro!: keeps_rules allows_do [OF r])
  moreover have "yields Q (dirs_inside ds) (untar_loop sys rootless (path_string ds) opts archive [])"
    by (rule yields_untar_loop [OF r d]) (simp add: dirs_inside_def)
  then have "yields Q (\<lambda>_. True) (bind (untar_loop sys rootless (path_string ds) opts archive []) (set_dir_times sys (path_string ds)))"
    by (rule yields_bind) (auto intro!: yields_keeps keeps_set_dir_times [OF r] simp: dirs_inside_def)
  ultimately have "yields Q (\<lambda>_. True) (Unpack sys rootless archive (path_string ds) opts)"
    unfolding Unpack_def by (rule yields_after)
  then show ?thesis by (simp add: yields_def keeps_def)
qed

section \<open>Properties\<close>


definition demo_options :: TarOptions where
  "demo_options = no_tar_options\<lparr>t_WhiteoutFormat := OverlayWhiteoutFormat, t_ForceMask := Some 0x1C0\<rparr>"


text \<open>
  What a path held before is replaced only as the options allow: with \<open>NoOverwriteDirNonDir\<close> neither
  a directory nor anything else is removed to make room for an entry of the other sort.
\<close>

lemma untar_replace_refuses:
  assumes "t_NoOverwriteDirNonDir opts" "os_Lstat sys path s = Inr fi" "IsDir fi \<noteq> (h_Typeflag hdr = TypeDir)"
  shows "\<exists>e. untar_replace sys opts path hdr s = (Inl e, s)"
  using assms by (auto simp: untar_replace_def bind_def query_def fail_def)

end
