(* ===== verification/Mount.thy ===== *)
theory Mount
  imports Prelude
begin

text \<open>
  Options of mounts, \<^verbatim>\<open>pkg/mount/flags.go\<close>: the table of options that stand for flags of the
  system call, the separation of flags and data, and the merging of options for a tmpfs.
\<close>

unbundle bit_operations_syntax

definition mount_flags :: "(string \<times> bool \<times> int) list" where
  "mount_flags =
     [(''defaults'', False, 0), (''ro'', False, 1), (''rw'', True, 1), (''suid'', True, 2), (''nosuid'', False, 2),
      (''dev'', True, 4), (''nodev'', False, 4), (''exec'', True, 8), (''noexec'', False, 8), (''sync'', False, 16),
      (''async'', True, 16), (''dirsync'', False, 128), (''remount'', False, 32), (''mand'', False, 64), (''nomand'', True, 64),
      (''atime'', True, 1024), (''noatime'', False, 1024), (''diratime'', True, 2048), (''nodiratime'', False, 2048),
      (''bind'', False, 4096), (''rbind'', False, 0x5000), (''unbindable'', False, 0x20000), (''runbindable'', False, 0x24000),
      (''private'', False, 0x40000), (''rprivate'', False, 0x44000), (''shared'', False, 0x100000), (''rshared'', False, 0x104000),
      (''slave'', False, 0x80000), (''rslave'', False, 0x84000), (''relatime'', False, 0x200000), (''norelatime'', True, 0x200000),
      (''strictatime'', False, 0x1000000), (''nostrictatime'', True, 0x1000000)]"

text \<open>The entry of an option that is a flag; \<open>defaults\<close> is none.\<close>

definition flag_of :: "string \<Rightarrow> (bool \<times> int) option" where
  "flag_of o1 = (case map_of mount_flags o1 of Some (clear, f) \<Rightarrow> if f \<noteq> 0 then Some (clear, f) else None | None \<Rightarrow> None)"

fun parse_flags :: "string list \<Rightarrow> int \<Rightarrow> string list \<Rightarrow> int \<times> string list" where
  "parse_flags [] flag data = (flag, data)"
| "parse_flags (o1 # os) flag data =
     (case flag_of o1 of
        Some (True, f) \<Rightarrow> parse_flags os (flag AND NOT f) data
      | Some (False, f) \<Rightarrow> parse_flags os (flag OR f) data
      | None \<Rightarrow> parse_flags os flag (data @ [o1]))"

definition join_with :: "char \<Rightarrow> string list \<Rightarrow> string" where
  "join_with c xs = (case xs of [] \<Rightarrow> [] | y # ys \<Rightarrow> y @ concat (map (\<lambda>z. c # z) ys))"

definition ParseOptions :: "string \<Rightarrow> int \<times> string" where
  "ParseOptions options =
     (let (flag, data) = parse_flags (split_on (CHR '','') options) 0 [] in (flag, join_with (CHR '','') data))"

definition validFlags :: "string list" where
  "validFlags = [[], ''size'', ''mode'', ''uid'', ''gid'', ''nr_inodes'', ''nr_blocks'', ''mpol'']"

definition propagationFlags :: "string list" where
  "propagationFlags = [''bind'', ''rbind'', ''unbindable'', ''runbindable'', ''private'', ''rprivate'', ''shared'', ''rshared'',
     ''slave'', ''rslave'']"

text \<open>What an option collides with: a flag, some propagation mode, or data of the same name.\<close>

datatype option_key = FlagKey int | PropagationKey | DataKey string

definition key_of :: "string \<Rightarrow> gerr + option_key" where
  "key_of o1 =
     (case flag_of o1 of
        Some (_, f) \<Rightarrow> Inr (if o1 \<in> set propagationFlags then PropagationKey else FlagKey f)
      | None \<Rightarrow>
          let key = takeWhile (\<lambda>c. c \<noteq> CHR ''='') o1 in
          if CHR ''='' \<notin> set o1 \<or> key \<notin> set validFlags then Inl (Errorf ''Invalid tmpfs option'') else Inr (DataKey key))"

text \<open>The loop over the reversed options, with the keys and the options kept so far.\<close>

fun merge_options :: "string list \<Rightarrow> option_key list \<Rightarrow> string list \<Rightarrow> gerr + string list" where
  "merge_options [] seen new = Inr new"
| "merge_options (o1 # os) seen new =
     (if o1 = ''defaults'' then merge_options os seen new
      else case key_of o1 of
             Inl e \<Rightarrow> Inl e
           | Inr k \<Rightarrow> if k \<in> set seen then merge_options os seen new else merge_options os (k # seen) (o1 # new))"

definition MergeTmpfsOptions :: "string list \<Rightarrow> gerr + string list" where
  "MergeTmpfsOptions options = merge_options (rev options) [] []"

definition ParseTmpfsOptions :: "string \<Rightarrow> gerr + (int \<times> string)" where
  "ParseTmpfsOptions options =
     (let (fl, data) = ParseOptions options in
      if list_all (\<lambda>o1. takeWhile (\<lambda>c. c \<noteq> CHR ''='') o1 \<in> set validFlags) (split_on (CHR '','') data)
      then Inr (fl, data) else Inl (Errorf ''Invalid tmpfs option''))"

section \<open>Merged options\<close>

lemma merge_options_ok:
  "merge_options os seen new = Inr r \<Longrightarrow> distinct (map key_of new) \<Longrightarrow> Inr ` set seen = key_of ` set new \<Longrightarrow>
   distinct (map key_of r) \<and> set r \<subseteq> set os \<union> set new"
proof (induction os seen new rule: merge_options.induct)
  case (2 o1 os seen new)
  show ?case
  proof (cases "o1 = ''defaults''")
    case True
    then show ?thesis using 2 by auto
  next
    case False
    then obtain k where k: "key_of o1 = Inr k" using 2(4) by (cases "key_of o1") auto
    have "Inr k \<in> key_of ` set new \<longleftrightarrow> k \<in> set seen" using 2(6) by auto
    then show ?thesis using 2 False k by (cases "k \<in> set seen") (auto simp: image_iff)
  qed
qed simp

text \<open>After merging, no two options collide, and every option is one of the given ones.\<close>

lemma MergeTmpfsOptions_distinct:
  "MergeTmpfsOptions os = Inr r \<Longrightarrow> distinct (map key_of r) \<and> set r \<subseteq> set os"
  using merge_options_ok [of "rev os" "[]" "[]" r] by (simp add: MergeTmpfsOptions_def)

end
