(* ===== verification/Overlay.thy ===== *)
theory Overlay
  imports ArchiveUntar Mount
begin

text \<open>
  The overlay graph driver, \<^verbatim>\<open>drivers/overlay/overlay.go\<close>, and the counter of mounts,
  \<^verbatim>\<open>drivers/counter.go\<close>.

  A layer has a directory below the home of the driver with its files (\<open>diff\<close>), a file \<open>link\<close> with a
  random name, and a file \<open>lower\<close> with the names of the layers below; the directory \<open>l\<close> has a symbolic
  link with each such name to the \<open>diff\<close> it stands for.  The operating system is the record \<open>osys\<close>; the
  state of the driver in the process is kept beside that of the system.  The test mounts of
  \<^verbatim>\<open>check.go\<close>, the label package, quotas and the parser of sizes are parameters.  The locks
  for each layer are left out.
\<close>

text \<open>A value that is read off the state.\<close>

definition gets :: "('s \<Rightarrow> 'a) \<Rightarrow> ('s, 'a) go" where
  "gets f s = (Inr (f s), s)"

section \<open>Counters of mounts\<close>

record minfo =
  mi_check :: bool
  mi_count :: int

definition incdec :: "(string \<Rightarrow> bool) \<Rightarrow> int \<Rightarrow> string \<Rightarrow> (string \<times> minfo) list \<Rightarrow> int \<times> (string \<times> minfo) list" where
  "incdec mounted delta path counts =
     (let m = (case map_of counts path of None \<Rightarrow> \<lparr>mi_check = False, mi_count = 0\<rparr> | Some m \<Rightarrow> m);
          m' = (if \<not> mi_check m then \<lparr>mi_check = True, mi_count = (if mounted path then mi_count m + 1 else mi_count m)\<rparr>
                else if \<not> mounted path then m\<lparr>mi_count := 0\<rparr> else m);
          count = mi_count m' + delta
      in (count, AList.update path (m'\<lparr>mi_count := count\<rparr>) counts))"

section \<open>The driver\<close>

record additionalLayerStore =
  als_path :: string
  als_withReference :: bool

record overlayOptions =
  oo_imageStores :: "string list"
  oo_layerStores :: "additionalLayerStore list"
  oo_quotaSize :: nat
  oo_quotaInodes :: nat
  oo_mountProgram :: string
  oo_skipMountHome :: bool
  oo_mountOptions :: string
  oo_ignoreChownErrors :: bool
  oo_forceMask :: "int option"

text \<open>What a driver has from \<open>Init\<close> on, together with what it takes from its environment.\<close>

record 's overlayDriver =
  ov_name :: string
  ov_home :: string
  ov_runhome :: string
  ov_uidMaps :: idmaps
  ov_gidMaps :: idmaps
  ov_options :: overlayOptions
  ov_usingMetacopy :: bool
  ov_sys :: "'s osys"
  ov_IsMounted :: "string \<Rightarrow> 's \<Rightarrow> bool"
  ov_IsRootless :: bool
  ov_Getpagesize :: nat
  ov_FormatMountLabel :: "string \<Rightarrow> string \<Rightarrow> string"
  ov_SetQuota :: "(string \<Rightarrow> nat \<Rightarrow> nat \<Rightarrow> ('s, unit) go) option"
  ov_projectQuotaSupported :: bool
  ov_doesVolatile :: "('s, bool) go"
  ov_RAMInBytes :: "string \<Rightarrow> gerr + int"

text \<open>The state: that of the operating system, the counters, and the random names to come.\<close>

record 's overlayState =
  ovs_sys :: 's
  ovs_counts :: "(string \<times> minfo) list"
  ovs_supportsVolatile :: "bool option"
  ovs_rand :: "string list"

definition on_os :: "('s, 'a) go \<Rightarrow> ('s overlayState, 'a) go" where
  "on_os m t = (let (r, s') = m (ovs_sys t) in (r, t\<lparr>ovs_sys := s'\<rparr>))"

definition linkDir :: string where "linkDir = ''l''"

definition lowerFile :: string where "lowerFile = ''lower''"

definition maxDepth :: nat where "maxDepth = 128"

definition idLength :: nat where "idLength = 26"

definition defaultPerms :: int where "defaultPerms = 0x16D"

definition hasMetacopyOption :: "string list \<Rightarrow> bool" where
  "hasMetacopyOption opts \<longleftrightarrow> ''metacopy=on'' \<in> set opts"

fun stripOption :: "string list \<Rightarrow> string \<Rightarrow> string list" where
  "stripOption [] opt = []"
| "stripOption (s # opts) opt = (if s = opt then stripOption opts opt else s # stripOption opts opt)"

definition hasVolatileOption :: "string list \<Rightarrow> bool" where
  "hasVolatileOption opts \<longleftrightarrow> ''volatile'' \<in> set opts"

subsection \<open>Cached features\<close>

definition cachedFeatureSet :: "string \<Rightarrow> bool \<Rightarrow> string" where
  "cachedFeatureSet feature set_to = feature @ (if set_to then ''-true'' else ''-false'')"

definition cachedFeatureCheck :: "'s osys \<Rightarrow> string \<Rightarrow> string \<Rightarrow> 's \<Rightarrow> gerr + (bool \<times> string)" where
  "cachedFeatureCheck sys runhome feature s =
     (case os_ReadFile sys (Join [runhome, cachedFeatureSet feature True]) s of
        Inr content \<Rightarrow> Inr (True, content)
      | Inl _ \<Rightarrow>
          (case os_ReadFile sys (Join [runhome, cachedFeatureSet feature False]) s of
             Inr content \<Rightarrow> Inr (False, content)
           | Inl e \<Rightarrow> Inl e))"

definition cachedFeatureRecord :: "'s osys \<Rightarrow> string \<Rightarrow> string \<Rightarrow> bool \<Rightarrow> string \<Rightarrow> ('s, unit) go" where
  "cachedFeatureRecord sys runhome feature supported text1 =
     os_Do sys (SysWriteFile (Join [runhome, cachedFeatureSet feature supported]) 0x1B6 text1)"

definition checkSupportVolatile :: "'s overlayDriver \<Rightarrow> ('s, bool) go" where
  "checkSupportVolatile d =
     bind (query (cachedFeatureCheck (ov_sys d) (ov_runhome d) ''volatile'')) (\<lambda>r.
       case r of
         Inr (res, _) \<Rightarrow> ret res
       | Inl _ \<Rightarrow>
           bind (attempt (ov_doesVolatile d)) (\<lambda>v.
             case v of
               Inl _ \<Rightarrow> ret False
             | Inr using \<Rightarrow> bind (cachedFeatureRecord (ov_sys d) (ov_runhome d) ''volatile'' using []) (\<lambda>_. ret using)))"

definition getSupportsVolatile :: "'s overlayDriver \<Rightarrow> ('s overlayState, bool) go" where
  "getSupportsVolatile d t =
     (case ovs_supportsVolatile t of
        Some v \<Rightarrow> (Inr v, t)
      | None \<Rightarrow> bind (on_os (checkSupportVolatile d)) (\<lambda>v.
                 bind (modify (ovs_supportsVolatile_update (\<lambda>_. Some v))) (\<lambda>_. ret v)) t)"

subsection \<open>Options\<close>

definition to_lower :: "string \<Rightarrow> string" where
  "to_lower s = map (\<lambda>c. if 65 \<le> (of_char c :: nat) \<and> (of_char c :: nat) \<le> 90 then char_of (of_char c + 32 :: nat) else c) s"

definition trim_prefix :: "string \<Rightarrow> string \<Rightarrow> string" where
  "trim_prefix p s = (if prefix p s then drop (length p) s else s)"

text \<open>\<open>strconv.ParseBool\<close>, and \<open>strconv.ParseInt(s, 8, 32)\<close>.\<close>

definition ParseBool :: "string \<Rightarrow> gerr + bool" where
  "ParseBool s =
     (if s \<in> {''1'', ''t'', ''T'', ''TRUE'', ''true'', ''True''} then Inr True
      else if s \<in> {''0'', ''f'', ''F'', ''FALSE'', ''false'', ''False''} then Inr False
      else Inl (Errorf ''invalid syntax''))"

definition parse_octal32 :: "string \<Rightarrow> gerr + int" where
  "parse_octal32 s =
     (let neg = (s \<noteq> [] \<and> hd s = CHR ''-'');
          ds = (if s \<noteq> [] \<and> hd s \<in> {CHR ''-'', CHR ''+''} then tl s else s);
          v = foldl (\<lambda>a c. 8 * a + int (digit_val c)) 0 ds;
          i = (if neg then - v else v)
      in if ds \<noteq> [] \<and> list_all (\<lambda>c. is_digit c \<and> digit_val c < 8) ds \<and> - (2 ^ 31) \<le> i \<and> i < 2 ^ 31 then Inr i
         else Inl (Errorf ''invalid syntax''))"

definition no_overlay_options :: overlayOptions where
  "no_overlay_options = \<lparr>oo_imageStores = [], oo_layerStores = [], oo_quotaSize = 0, oo_quotaInodes = 0, oo_mountProgram = [],
     oo_skipMountHome = False, oo_mountOptions = [], oo_ignoreChownErrors = False, oo_forceMask = None\<rparr>"

text \<open>A directory that an option names: an absolute path that is there.\<close>

definition option_dir :: "'s osys \<Rightarrow> string \<Rightarrow> 's \<Rightarrow> gerr + string" where
  "option_dir sys p s =
     (let store = Clean p in
      if \<not> rooted_path store then Inl (Errorf ''is not absolute'')
      else case os_Stat sys store s of
             Inl e \<Rightarrow> Inl e
           | Inr st \<Rightarrow> if IsDir st then Inr store else Inl (Errorf ''must be a directory''))"

fun image_stores :: "'s osys \<Rightarrow> string list \<Rightarrow> 's \<Rightarrow> string list \<Rightarrow> gerr + string list" where
  "image_stores sys [] s acc = Inr acc"
| "image_stores sys (p # ps) s acc =
     (case option_dir sys p s of Inl e \<Rightarrow> Inl e | Inr store \<Rightarrow> image_stores sys ps s (acc @ [store]))"

fun layer_store_flags :: "string list \<Rightarrow> bool \<Rightarrow> gerr + bool" where
  "layer_store_flags [] ref = Inr ref"
| "layer_store_flags (f # fls) ref =
     (if f = ''ref'' then if ref then Inl (Errorf ''contains option twice'') else layer_store_flags fls True
      else Inl (Errorf ''contains unknown option''))"

fun layer_stores :: "'s osys \<Rightarrow> string list \<Rightarrow> 's \<Rightarrow> additionalLayerStore list \<Rightarrow> gerr + additionalLayerStore list" where
  "layer_stores sys [] s acc = Inr acc"
| "layer_stores sys (p # ps) s acc =
     (let elems = split_on (CHR '':'') p in
      case option_dir sys (hd elems) s of
        Inl e \<Rightarrow> Inl e
      | Inr store \<Rightarrow>
          (case layer_store_flags (tl elems) False of
             Inl e \<Rightarrow> Inl e
           | Inr ref \<Rightarrow> layer_stores sys ps s (acc @ [\<lparr>als_path = store, als_withReference = ref\<rparr>])))"

text \<open>One option; the error of \<open>ParseBool\<close> for \<open>skip_mount_home\<close> is not looked at.\<close>

definition parse_option :: "'s osys \<Rightarrow> (string \<Rightarrow> gerr + int) \<Rightarrow> 's \<Rightarrow> string \<Rightarrow> overlayOptions \<Rightarrow> gerr + overlayOptions" where
  "parse_option sys RAMInBytes s option1 opts =
     (case ParseKeyValueOpt option1 of
        Inl e \<Rightarrow> Inl e
      | Inr (key, val) \<Rightarrow>
          (let trimkey = trim_prefix ''.'' (trim_prefix ''overlay2.'' (trim_prefix ''overlay.'' (to_lower key))) in
           if trimkey = ''override_kernel_check'' then Inr opts
           else if trimkey = ''mountopt'' then Inr (opts\<lparr>oo_mountOptions := val\<rparr>)
           else if trimkey = ''size'' then
             (case RAMInBytes val of Inl e \<Rightarrow> Inl e | Inr n \<Rightarrow> Inr (opts\<lparr>oo_quotaSize := nat (n mod 2 ^ 64)\<rparr>))
           else if trimkey = ''inodes'' then
             (case parse_uint 64 val of None \<Rightarrow> Inl (Errorf ''invalid syntax'') | Some n \<Rightarrow> Inr (opts\<lparr>oo_quotaInodes := n\<rparr>))
           else if trimkey \<in> {''imagestore'', ''additionalimagestore''} then
             if val = [] then Inr opts
             else (case image_stores sys (split_on (CHR '','') val) s (oo_imageStores opts) of
                     Inl e \<Rightarrow> Inl e | Inr ss \<Rightarrow> Inr (opts\<lparr>oo_imageStores := ss\<rparr>))
           else if trimkey = ''additionallayerstore'' then
             if val = [] then Inr opts
             else (case layer_stores sys (split_on (CHR '','') val) s (oo_layerStores opts) of
                     Inl e \<Rightarrow> Inl e | Inr ss \<Rightarrow> Inr (opts\<lparr>oo_layerStores := ss\<rparr>))
           else if trimkey = ''mount_program'' then
             (case (if val = [] then Inr () else case os_Stat sys val s of Inl e \<Rightarrow> Inl e | Inr _ \<Rightarrow> Inr ()) of
                Inl e \<Rightarrow> Inl e | Inr _ \<Rightarrow> Inr (opts\<lparr>oo_mountProgram := val\<rparr>))
           else if trimkey = ''skip_mount_home'' then
             Inr (opts\<lparr>oo_skipMountHome := (case ParseBool val of Inl _ \<Rightarrow> False | Inr b \<Rightarrow> b)\<rparr>)
           else if trimkey = ''ignore_chown_errors'' then
             (case ParseBool val of Inl e \<Rightarrow> Inl e | Inr b \<Rightarrow> Inr (opts\<lparr>oo_ignoreChownErrors := b\<rparr>))
           else if trimkey = ''force_mask'' then
             if val = ''shared'' then Inr (opts\<lparr>oo_forceMask := Some 0x1ED\<rparr>)
             else if val = ''private'' then Inr (opts\<lparr>oo_forceMask := Some 0x1C0\<rparr>)
             else (case parse_octal32 val of Inl e \<Rightarrow> Inl e | Inr m \<Rightarrow> Inr (opts\<lparr>oo_forceMask := Some m\<rparr>))
           else Inl (Errorf ''overlay: Unknown option'')))"

fun parse_options :: "'s osys \<Rightarrow> (string \<Rightarrow> gerr + int) \<Rightarrow> 's \<Rightarrow> string list \<Rightarrow> overlayOptions \<Rightarrow> gerr + overlayOptions" where
  "parse_options sys RAMInBytes s [] opts = Inr opts"
| "parse_options sys RAMInBytes s (option1 # options1) opts =
     (case parse_option sys RAMInBytes s option1 opts of
        Inl e \<Rightarrow> Inl e
      | Inr opts' \<Rightarrow> parse_options sys RAMInBytes s options1 opts')"

definition parseOptions :: "'s osys \<Rightarrow> (string \<Rightarrow> gerr + int) \<Rightarrow> string list \<Rightarrow> 's \<Rightarrow> gerr + overlayOptions" where
  "parseOptions sys RAMInBytes options1 s = parse_options sys RAMInBytes s options1 no_overlay_options"

section \<open>Layers on disk\<close>

subsection \<open>Directories and links\<close>

definition present :: "'s osys \<Rightarrow> string \<Rightarrow> 's \<Rightarrow> bool" where
  "present sys p s \<longleftrightarrow> (case os_Stat sys p s of Inl _ \<Rightarrow> False | Inr _ \<Rightarrow> True)"

definition ov_dir :: "'s overlayDriver \<Rightarrow> string \<Rightarrow> 's \<Rightarrow> string" where
  "ov_dir d ident s =
     (let newpath = Join [ov_home d, ident] in
      if present (ov_sys d) newpath s then newpath
      else case find (\<lambda>p. present (ov_sys d) (Join [p, ov_name d, ident]) s) (oo_imageStores (ov_options d)) of
             Some p \<Rightarrow> Join [p, ov_name d, ident]
           | None \<Rightarrow> newpath)"

text \<open>\<open>ioutil.ReadDir\<close>: the entries in order of their names; an entry that has vanished meanwhile is left out.\<close>

fun read_infos :: "'s osys \<Rightarrow> string \<Rightarrow> string list \<Rightarrow> 's \<Rightarrow> gerr + (string \<times> Stat_t) list" where
  "read_infos sys p [] s = Inr []"
| "read_infos sys p (n # ns) s =
     (case os_Lstat sys (Join [p, n]) s of
        Inl e \<Rightarrow> if e = NotExist then read_infos sys p ns s else Inl e
      | Inr st \<Rightarrow> (case read_infos sys p ns s of Inl e \<Rightarrow> Inl e | Inr is \<Rightarrow> Inr ((n, st) # is)))"

definition ReadDir :: "'s osys \<Rightarrow> string \<Rightarrow> 's \<Rightarrow> gerr + (string \<times> Stat_t) list" where
  "ReadDir sys p s =
     (case os_Readdirnames sys p s of Inl e \<Rightarrow> Inl e | Inr ns \<Rightarrow> read_infos sys p (sort ns) s)"

definition trim_newlines :: "string \<Rightarrow> string" where
  "trim_newlines s = (let nl = (\<lambda>c. c = char_of (10 :: nat)) in rev (dropWhile nl (rev (dropWhile nl s))))"

text \<open>
  The two halves of a pass of \<open>recreateSymlinks\<close>, each with the result whether it made progress and
  whether it met an error: a missing symbolic link is made from the file \<open>link\<close> of a layer, and a
  file \<open>link\<close> is written from a symbolic link.
\<close>

definition relink_layer :: "'s overlayDriver \<Rightarrow> string \<Rightarrow> ('s, bool \<times> bool) go" where
  "relink_layer d name =
     bind (query (\<lambda>s. os_ReadFile (ov_sys d) (Join [ov_dir d name s, ''link'']) s)) (\<lambda>r.
       case r of
         Inl _ \<Rightarrow> ret (False, True)
       | Inr data \<Rightarrow>
           (let linkPath = Join [ov_home d, linkDir, trim_newlines data] in
            bind (query (os_Lstat (ov_sys d) linkPath)) (\<lambda>r.
              case r of
                Inr _ \<Rightarrow> ret (False, False)
              | Inl e \<Rightarrow>
                  if e = NotExist then
                    bind (attempt (os_Do (ov_sys d) (SysSymlink (Join [''..'', name, ''diff'']) linkPath))) (\<lambda>r.
                      ret (case r of Inl _ \<Rightarrow> (False, True) | Inr _ \<Rightarrow> (True, False)))
                  else ret (False, True))))"

definition relink_file :: "'s overlayDriver \<Rightarrow> string \<Rightarrow> ('s, bool \<times> bool) go" where
  "relink_file d link =
     (let linksDir = Join [ov_home d, ''l'']; p = Join [linksDir, link] in
      bind (query (os_Readlink (ov_sys d) p)) (\<lambda>r.
        case r of
          Inl _ \<Rightarrow> ret (False, True)
        | Inr target \<Rightarrow>
            (case split_on (CHR ''/'') target of
               [up, targetID, dif] \<Rightarrow>
                 if up = ''..'' \<and> dif = ''diff'' then
                   bind (query (\<lambda>s. os_ReadFile (ov_sys d) (Join [ov_dir d targetID s, ''link'']) s)) (\<lambda>r.
                     if r = Inr link then ret (False, False)
                     else bind (gets (ov_dir d targetID)) (\<lambda>dir.
                          bind (attempt (os_Do (ov_sys d) (SysWriteFile (Join [dir, ''link'']) 0x1A4 link))) (\<lambda>r.
                            ret (case r of Inl _ \<Rightarrow> (False, True) | Inr _ \<Rightarrow> (True, False)))))
                 else bind (ignoring (os_Do (ov_sys d) (SysRemove p))) (\<lambda>_. ret (True, True))
             | _ \<Rightarrow> bind (ignoring (os_Do (ov_sys d) (SysRemove p))) (\<lambda>_. ret (True, True)))))"

fun each_link :: "(string \<Rightarrow> ('s, bool \<times> bool) go) \<Rightarrow> string list \<Rightarrow> bool \<Rightarrow> bool \<Rightarrow> ('s, bool \<times> bool) go" where
  "each_link f [] progress failed = ret (progress, failed)"
| "each_link f (n # ns) progress failed =
     bind (f n) (\<lambda>(p, e). each_link f ns (progress \<or> p) (failed \<or> e))"

definition relink_pass :: "'s overlayDriver \<Rightarrow> string list \<Rightarrow> ('s, bool \<times> bool) go" where
  "relink_pass d dirs =
     bind (each_link (relink_layer d) dirs False False) (\<lambda>(progress, failed).
     bind (query (ReadDir (ov_sys d) (Join [ov_home d, ''l'']))) (\<lambda>r.
       case r of
         Inl _ \<Rightarrow> ret (progress, True)
       | Inr links \<Rightarrow> each_link (relink_file d) (map fst links) progress failed))"

text \<open>The loop need not end, so it has fuel; running out of it is the outcome \<open>Blocked\<close>.\<close>

fun relink_loop :: "nat \<Rightarrow> 's overlayDriver \<Rightarrow> string list \<Rightarrow> ('s, unit) go" where
  "relink_loop 0 d dirs = fail (Blocked ''recreateSymlinks'')"
| "relink_loop (Suc fuel) d dirs =
     bind (relink_pass d dirs) (\<lambda>(progress, failed).
       if progress then relink_loop fuel d dirs
       else if failed then fail (Errorf ''multierror'') else ret ())"

definition recreateSymlinks :: "nat \<Rightarrow> 's overlayDriver \<Rightarrow> ('s, unit) go" where
  "recreateSymlinks fuel d =
     bind (query (ReadDir (ov_sys d) (ov_home d))) (\<lambda>r.
       case r of
         Inl e \<Rightarrow> fail e
       | Inr infos \<Rightarrow>
           (case GetRootUIDGID (ov_uidMaps d) (ov_gidMaps d) of
              (_, Some e) \<Rightarrow> fail e
            | ((uid, gid), None) \<Rightarrow>
                bind (mkdirAs (ov_sys d) (Join [ov_home d, linkDir]) 0x1C0 uid gid True True) (\<lambda>_.
                  relink_loop fuel d [n. (n, st) \<leftarrow> infos, n \<noteq> linkDir \<and> IsDir st])))"

text \<open>A file that is read again after the links have been made again.\<close>

definition read_relinking :: "nat \<Rightarrow> 's overlayDriver \<Rightarrow> ('s \<Rightarrow> gerr + 'a) \<Rightarrow> ('s, 'a) go" where
  "read_relinking fuel d q =
     bind (query q) (\<lambda>r.
       case r of
         Inr x \<Rightarrow> ret x
       | Inl e \<Rightarrow>
           if e = NotExist then
             bind (recreateSymlinks fuel d) (\<lambda>_. bind (query q) (\<lambda>r. case r of Inr x \<Rightarrow> ret x | Inl e' \<Rightarrow> fail e'))
           else fail e)"

definition getLower :: "nat \<Rightarrow> 's overlayDriver \<Rightarrow> string \<Rightarrow> ('s, string) go" where
  "getLower fuel d parent =
     bind (gets (ov_dir d parent)) (\<lambda>parentDir.
     bind (query (os_Lstat (ov_sys d) parentDir)) (\<lambda>r.
       case r of
         Inl e \<Rightarrow> fail e
       | Inr _ \<Rightarrow>
           bind (read_relinking fuel d (os_ReadFile (ov_sys d) (Join [parentDir, ''link'']))) (\<lambda>parentLink.
           bind (query (os_ReadFile (ov_sys d) (Join [parentDir, lowerFile]))) (\<lambda>r.
             ret (join_with (CHR '':'') (Join [linkDir, parentLink] #
                    (case r of Inl _ \<Rightarrow> [] | Inr parentLower \<Rightarrow> split_on (CHR '':'') parentLower)))))))"

fun lower_dirs :: "nat \<Rightarrow> 's overlayDriver \<Rightarrow> string list \<Rightarrow> ('s, string list) go" where
  "lower_dirs fuel d [] = ret []"
| "lower_dirs fuel d (l # ls) =
     bind (gets (ov_dir d l)) (\<lambda>lower.
     bind (read_relinking fuel d (os_Readlink (ov_sys d) lower)) (\<lambda>lp.
     bind (gets (\<lambda>s. Clean (ov_dir d (Join [''link'', lp]) s))) (\<lambda>dir.
     bind (lower_dirs fuel d ls) (\<lambda>dirs. ret (dir # dirs)))))"

definition getLowerDirs :: "nat \<Rightarrow> 's overlayDriver \<Rightarrow> string \<Rightarrow> ('s, string list) go" where
  "getLowerDirs fuel d ident =
     bind (query (\<lambda>s. os_ReadFile (ov_sys d) (Join [ov_dir d ident s, lowerFile]) s)) (\<lambda>r.
       case r of
         Inr lowers \<Rightarrow> lower_dirs fuel d (split_on (CHR '':'') lowers)
       | Inl e \<Rightarrow> if e = NotExist then ret [] else fail e)"

subsection \<open>Creation and removal\<close>

text \<open>\<open>generateID\<close> of \<^verbatim>\<open>randomid.go\<close>: the next encoded block of the random source.\<close>

definition overlay_generateID :: "('s overlayState, string) go" where
  "overlay_generateID t =
     (case ovs_rand t of
        [] \<Rightarrow> (Inl (Panic ''error reading random number generator''), t)
      | b # bs \<Rightarrow> (Inr (take idLength b), t\<lparr>ovs_rand := bs\<rparr>))"

text \<open>The range over the map of options runs in the order of the association list.\<close>

fun parseStorageOpt :: "(string \<Rightarrow> gerr + int) \<Rightarrow> (string \<times> string) list \<Rightarrow> nat \<times> nat \<Rightarrow> gerr + (nat \<times> nat)" where
  "parseStorageOpt RAMInBytes [] q = Inr q"
| "parseStorageOpt RAMInBytes ((key, val) # opts) q =
     (if to_lower key = ''size'' then
        (case RAMInBytes val of Inl e \<Rightarrow> Inl e | Inr n \<Rightarrow> parseStorageOpt RAMInBytes opts (nat (n mod 2 ^ 64), snd q))
      else if to_lower key = ''inodes'' then
        (case parse_uint 64 val of
           None \<Rightarrow> Inl (Errorf ''invalid syntax'') | Some n \<Rightarrow> parseStorageOpt RAMInBytes opts (fst q, n))
      else Inl (Errorf ''Unknown option''))"

definition set_quota :: "'s overlayDriver \<Rightarrow> string \<Rightarrow> (string \<times> string) list \<Rightarrow> bool \<Rightarrow> ('s, unit) go" where
  "set_quota d dir storageOpt disableQuota =
     (case ov_SetQuota d of
        None \<Rightarrow> ret ()
      | Some f \<Rightarrow>
          if disableQuota then ret ()
          else (case parseStorageOpt (ov_RAMInBytes d) storageOpt (0, 0) of
                  Inl e \<Rightarrow> fail e
                | Inr (size1, inodes) \<Rightarrow> f dir size1 inodes))"

text \<open>What \<open>create\<close> puts into the directory of the layer.\<close>

definition fill_layer :: "nat \<Rightarrow> 's overlayDriver \<Rightarrow> string \<Rightarrow> string \<Rightarrow> string \<Rightarrow> int \<Rightarrow> int \<Rightarrow> int \<Rightarrow> ('s overlayState, unit) go" where
  "fill_layer fuel d ident dir parent perms rootUID rootGID =
     (let sys = ov_sys d in
      bind (on_os (mkdirAs sys (Join [dir, ''diff'']) perms rootUID rootGID False True)) (\<lambda>_.
      bind overlay_generateID (\<lambda>lid.
      bind (on_os (os_Do sys (SysSymlink (Join [''..'', ident, ''diff'']) (Join [ov_home d, linkDir, lid])))) (\<lambda>_.
      bind (on_os (os_Do sys (SysWriteFile (Join [dir, ''link'']) 0x1A4 lid))) (\<lambda>_.
      bind (on_os (mkdirAs sys (Join [dir, ''work'']) 0x1C0 rootUID rootGID False True)) (\<lambda>_.
      bind (on_os (mkdirAs sys (Join [dir, ''merged'']) 0x1C0 rootUID rootGID False True)) (\<lambda>_.
      if parent = [] then on_os (mkdirAs sys (Join [dir, ''empty'']) 0x1C0 rootUID rootGID False True)
      else bind (on_os (getLower fuel d parent)) (\<lambda>lower.
           if lower \<noteq> [] then on_os (os_Do sys (SysWriteFile (Join [dir, lowerFile]) 0x1B6 lower)) else ret ()))))))))"

text \<open>The rest of \<open>create\<close> after the directory is there; on an error the directory is removed again.
  A panic leaves the named result of the function nil, so that the deferred function does nothing.\<close>

definition undo_on_error :: "('s, unit) go \<Rightarrow> ('s, 'a) go \<Rightarrow> ('s, 'a) go" where
  "undo_on_error undo m s =
     (case m s of
        (Inl e, s') \<Rightarrow> (Inl e, if abnormal e then s' else snd (ignoring undo s'))
      | (Inr x, s') \<Rightarrow> (Inr x, s'))"

definition layer_perms :: "'s overlayDriver \<Rightarrow> string \<Rightarrow> ('s, int) go" where
  "layer_perms d parent =
     (if parent = [] then ret (case oo_forceMask (ov_options d) of None \<Rightarrow> defaultPerms | Some m \<Rightarrow> m)
      else bind (query (\<lambda>s. os_Stat (ov_sys d) (Join [ov_dir d parent s, ''diff'']) s)) (\<lambda>r.
             case r of Inl e \<Rightarrow> fail e | Inr st \<Rightarrow> ret (uint (sys_Mode st))))"

text \<open>
  \<open>create\<close> takes of its options the mappings, which may be missing, and the storage options.
\<close>

definition ov_create ::
  "nat \<Rightarrow> 's overlayDriver \<Rightarrow> string \<Rightarrow> string \<Rightarrow> IDMappings option \<Rightarrow> (string \<times> string) list \<Rightarrow> bool \<Rightarrow> ('s overlayState, unit) go" where
  "ov_create fuel d ident parent mappings storageOpt disableQuota =
     (let sys = ov_sys d;
          maps = (case mappings of None \<Rightarrow> (ov_uidMaps d, ov_gidMaps d) | Some m \<Rightarrow> (uids m, gids m)) in
      bind (on_os (gets (ov_dir d ident))) (\<lambda>dir.
      case GetRootUIDGID (fst maps) (snd maps) of
        (_, Some e) \<Rightarrow> fail e
      | ((uid, gid), None) \<Rightarrow>
          (let idPair = \<lparr>UID = uid, GID = gid\<rparr> in
           bind (on_os (MkdirAllAndChownNew sys (Join [ov_home d, linkDir]) 0x1C0 idPair)) (\<lambda>_.
           bind (on_os (MkdirAllAndChownNew sys (Dir dir) 0x1C0 idPair)) (\<lambda>_.
           bind (if parent = [] then ret (uid, gid)
                 else bind (on_os (query (\<lambda>s. os_Stat sys (ov_dir d parent s) s))) (\<lambda>r.
                        case r of Inl e \<Rightarrow> fail e | Inr st \<Rightarrow> ret (uint (sys_Uid st), uint (sys_Gid st)))) (\<lambda>(rootUID, rootGID).
           bind (on_os (MkdirAllAndChownNew sys dir 0x1C0 idPair)) (\<lambda>_.
           undo_on_error (on_os (os_Do sys (SysRemoveAll dir)))
             (bind (on_os (set_quota d dir storageOpt disableQuota)) (\<lambda>_.
              bind (on_os (layer_perms d parent)) (\<lambda>perms.
              fill_layer fuel d ident dir parent perms rootUID rootGID))))))))))"

definition with_default :: "string \<Rightarrow> nat \<Rightarrow> (string \<times> string) list \<Rightarrow> (string \<times> string) list" where
  "with_default key n opts = (if map_of opts key = None then AList.update key (show_nat n) opts else opts)"

definition opts_mappings :: "CreateOpts option \<Rightarrow> IDMappings option" where
  "opts_mappings opts = map_option cr_IDMappings opts"

definition opts_storage :: "CreateOpts option \<Rightarrow> (string \<times> string) list" where
  "opts_storage opts = (case opts of None \<Rightarrow> [] | Some c \<Rightarrow> cr_StorageOpt c)"

definition ov_CreateReadWrite :: "nat \<Rightarrow> 's overlayDriver \<Rightarrow> string \<Rightarrow> string \<Rightarrow> CreateOpts option \<Rightarrow> ('s overlayState, unit) go" where
  "ov_CreateReadWrite fuel d ident parent opts =
     (if opts_storage opts \<noteq> [] \<and> \<not> ov_projectQuotaSupported d
      then fail (Errorf ''--storage-opt is supported only for overlay over xfs with pquota'')
      else ov_create fuel d ident parent (opts_mappings opts)
             (with_default ''inodes'' (oo_quotaInodes (ov_options d))
               (with_default ''size'' (oo_quotaSize (ov_options d)) (opts_storage opts))) False)"

definition ov_Create :: "nat \<Rightarrow> 's overlayDriver \<Rightarrow> string \<Rightarrow> string \<Rightarrow> CreateOpts option \<Rightarrow> ('s overlayState, unit) go" where
  "ov_Create fuel d ident parent opts =
     (if map_of (opts_storage opts) ''size'' \<noteq> None
      then fail (Errorf ''--storage-opt size is only supported for ReadWrite Layers'')
      else if map_of (opts_storage opts) ''inodes'' \<noteq> None
      then fail (Errorf ''--storage-opt inodes is only supported for ReadWrite Layers'')
      else ov_create fuel d ident parent (opts_mappings opts) (opts_storage opts) True)"

definition ov_CreateFromTemplate :: "nat \<Rightarrow> 's overlayDriver \<Rightarrow> string \<Rightarrow> string \<Rightarrow> CreateOpts option \<Rightarrow> bool \<Rightarrow> ('s overlayState, unit) go" where
  "ov_CreateFromTemplate fuel d ident template opts readWrite =
     (if readWrite then ov_CreateReadWrite fuel d ident template opts else ov_Create fuel d ident template opts)"

text \<open>
  Additional layers are read only layers of other programs; a directory is removed to tell their store
  that a layer is not used any more.
\<close>

definition getAdditionalLayerPathByID :: "'s overlayDriver \<Rightarrow> string \<Rightarrow> 's \<Rightarrow> gerr + string" where
  "getAdditionalLayerPathByID d ident s = os_ReadFile (ov_sys d) (Join [ov_dir d ident s, ''additionallayer'']) s"

definition notifyReleaseAdditionalLayer :: "'s overlayDriver \<Rightarrow> string \<Rightarrow> ('s, unit) go" where
  "notifyReleaseAdditionalLayer d al = (if \<not> rooted_path al then ret () else ignoring (os_Do (ov_sys d) (SysRmdir al)))"

definition notifyUseAdditionalLayer :: "'s overlayDriver \<Rightarrow> string \<Rightarrow> ('s, unit) go" where
  "notifyUseAdditionalLayer d al =
     (if \<not> rooted_path al then ret ()
      else let useFile = Join [al, ''use''] in
           bind (attempt (os_Do (ov_sys d) (SysWriteFile useFile 0x1B6 []))) (\<lambda>r.
             case r of Inl _ \<Rightarrow> ret () | Inr _ \<Rightarrow> ignoring (os_Do (ov_sys d) (SysRemove useFile))))"

definition releaseAdditionalLayerByID :: "'s overlayDriver \<Rightarrow> string \<Rightarrow> ('s, unit) go" where
  "releaseAdditionalLayerByID d ident =
     bind (query (getAdditionalLayerPathByID d ident)) (\<lambda>r.
       case r of Inl _ \<Rightarrow> ret () | Inr al \<Rightarrow> notifyReleaseAdditionalLayer d al)"

text \<open>
  The first store whose files are looked at decides: one that lacks them ends the search.
\<close>

definition getAdditionalLayerPath :: "'s overlayDriver \<Rightarrow> (string \<Rightarrow> string) \<Rightarrow> string \<Rightarrow> string \<Rightarrow> 's \<Rightarrow> gerr + string" where
  "getAdditionalLayerPath d base64 dgst ref s =
     (case oo_layerStores (ov_options d) of
        [] \<Rightarrow> Inl ErrLayerUnknown
      | ls # _ \<Rightarrow>
          (let target = Join [als_path ls, if als_withReference ls then base64 ref else [], dgst] in
           if list_all (\<lambda>n. present (ov_sys d) (Join [target, n]) s) [''diff'', ''info'', ''blob''] then Inr target
           else Inl ErrLayerUnknown))"

definition CreateAs :: "nat \<Rightarrow> 's overlayDriver \<Rightarrow> string \<Rightarrow> string \<Rightarrow> string \<Rightarrow> ('s overlayState, unit) go" where
  "CreateAs fuel d al ident parent =
     bind (ov_Create fuel d ident parent None) (\<lambda>_.
     bind (on_os (gets (ov_dir d ident))) (\<lambda>dir.
     bind (on_os (os_Do (ov_sys d) (SysRemoveAll (Join [dir, ''diff''])))) (\<lambda>_.
     bind (on_os (os_Do (ov_sys d) (SysWriteFile (Join [dir, ''additionallayer'']) 0x1A4 al))) (\<lambda>_.
     bind (on_os (notifyUseAdditionalLayer d al)) (\<lambda>_.
     on_os (os_Do (ov_sys d) (SysSymlink (Join [al, ''diff'']) (Join [dir, ''diff'']))))))))"

text \<open>\<open>EnsureRemoveAll\<close> is one removal here; its retries are left out.\<close>

definition ov_Remove :: "'s overlayDriver \<Rightarrow> string \<Rightarrow> ('s, unit) go" where
  "ov_Remove d ident =
     bind (gets (ov_dir d ident)) (\<lambda>dir.
     bind (query (os_ReadFile (ov_sys d) (Join [dir, ''link'']))) (\<lambda>r.
     bind (case r of
             Inl _ \<Rightarrow> ret ()
           | Inr lid \<Rightarrow> ignoring (os_Do (ov_sys d) (SysRemoveAll (Join [ov_home d, linkDir, lid])))) (\<lambda>_.
     bind (releaseAdditionalLayerByID d ident) (\<lambda>_.
     bind (attempt (os_Do (ov_sys d) (SysRemoveAll dir))) (\<lambda>r.
       case r of Inr _ \<Rightarrow> ret () | Inl e \<Rightarrow> if e = NotExist then ret () else fail e)))))"

definition ov_Exists :: "'s overlayDriver \<Rightarrow> string \<Rightarrow> 's \<Rightarrow> bool" where
  "ov_Exists d ident s = present (ov_sys d) (ov_dir d ident s) s"

definition ov_isParent :: "nat \<Rightarrow> 's overlayDriver \<Rightarrow> string \<Rightarrow> string \<Rightarrow> ('s, bool) go" where
  "ov_isParent fuel d ident parent =
     bind (attempt (getLowerDirs fuel d ident)) (\<lambda>r.
       case r of
         Inl _ \<Rightarrow> ret False
       | Inr lowers \<Rightarrow>
           if parent = [] \<and> lowers \<noteq> [] then ret False
           else bind (gets (ov_dir d parent)) (\<lambda>parentDir.
                let ld = (if lowers \<noteq> [] then Dir (hd lowers) else []) in
                ret (if ld = [] \<and> parent = [] then True else ld = parentDir)))"

definition getWhiteoutFormat :: "'s overlayDriver \<Rightarrow> WhiteoutFormat" where
  "getWhiteoutFormat d = (if oo_mountProgram (ov_options d) \<noteq> [] then AUFSWhiteoutFormat else OverlayWhiteoutFormat)"

definition EINVAL :: gerr where
  "EINVAL = SysErr 22"

definition redirectDiffIfAdditionalLayer :: "'s osys \<Rightarrow> string \<Rightarrow> 's \<Rightarrow> gerr + string" where
  "redirectDiffIfAdditionalLayer sys diffPath s =
     (case os_Readlink sys diffPath s of
        Inr ld \<Rightarrow> if \<not> rooted_path ld then Inl (Errorf ''linkpath must be absolute'') else Inr ld
      | Inl e \<Rightarrow> if e \<noteq> EINVAL then Inl e else Inr diffPath)"

definition getDiffPath :: "'s overlayDriver \<Rightarrow> string \<Rightarrow> 's \<Rightarrow> gerr + string" where
  "getDiffPath d ident s = redirectDiffIfAdditionalLayer (ov_sys d) (Join [ov_dir d ident s, ''diff'']) s"

fun redirect_all :: "'s osys \<Rightarrow> string list \<Rightarrow> 's \<Rightarrow> gerr + string list" where
  "redirect_all sys [] s = Inr []"
| "redirect_all sys (l # ls) s =
     (case redirectDiffIfAdditionalLayer sys l s of
        Inl e \<Rightarrow> Inl e
      | Inr l' \<Rightarrow> (case redirect_all sys ls s of Inl e \<Rightarrow> Inl e | Inr ls' \<Rightarrow> Inr (l' # ls')))"

definition getLowerDiffPaths :: "nat \<Rightarrow> 's overlayDriver \<Rightarrow> string \<Rightarrow> ('s, string list) go" where
  "getLowerDiffPaths fuel d ident =
     bind (getLowerDirs fuel d ident) (\<lambda>layers.
     bind (query (redirect_all (ov_sys d) layers)) (\<lambda>r. case r of Inl e \<Rightarrow> fail e | Inr ls \<Rightarrow> ret ls))"

definition ov_Metadata :: "nat \<Rightarrow> 's overlayDriver \<Rightarrow> string \<Rightarrow> ('s, (string \<times> string) list) go" where
  "ov_Metadata fuel d ident =
     bind (gets (ov_dir d ident)) (\<lambda>dir.
     bind (query (os_Stat (ov_sys d) dir)) (\<lambda>r.
       case r of
         Inl e \<Rightarrow> fail e
       | Inr _ \<Rightarrow>
           bind (getLowerDirs fuel d ident) (\<lambda>lowerDirs.
             ret ([(''WorkDir'', Join [dir, ''work'']), (''MergedDir'', Join [dir, ''merged'']), (''UpperDir'', Join [dir, ''diff''])] @
                  (if lowerDirs \<noteq> [] then [(''LowerDir'', join_with (CHR '':'') lowerDirs)] else [])))))"

text \<open>The changes of a layer against its parent, unless the generic comparison \<open>naive\<close> has to be used.\<close>

definition ov_Changes ::
  "nat \<Rightarrow> nat \<Rightarrow> 's overlayDriver \<Rightarrow> bool \<Rightarrow> ('s, Change list) go \<Rightarrow> string \<Rightarrow> string \<Rightarrow> ('s, Change list) go" where
  "ov_Changes fuel wfuel d useNaiveDiff naive ident parent =
     (if useNaiveDiff then naive
      else bind (ov_isParent fuel d ident parent) (\<lambda>direct.
           if \<not> direct then naive
           else bind (query (getDiffPath d ident)) (\<lambda>r.
                  case r of
                    Inl e \<Rightarrow> fail e
                  | Inr diffPath \<Rightarrow>
                      bind (getLowerDiffPaths fuel d ident) (\<lambda>layers.
                      bind (query (OverlayChanges wfuel (ov_sys d) (ov_IsRootless d) layers diffPath)) (\<lambda>r.
                        case r of Inl e \<Rightarrow> fail e | Inr cs \<Rightarrow> ret cs)))))"

end
