(* ===== verification/OverlayMount.thy ===== *)
theory OverlayMount
  imports Overlay
begin

text \<open>
  Mounting layers of the overlay driver: \<open>get\<close>, \<open>Put\<close>, \<open>UpdateLayerIDMap\<close> and the application of differences
  of \<^verbatim>\<open>drivers/overlay/overlay.go\<close>.  A call of the mount system call, of a mount program or of
  another program is a \<open>sys_call\<close>.
\<close>

section \<open>Mount options\<close>

definition nameWithSuffix :: "string \<Rightarrow> nat \<Rightarrow> string" where
  "nameWithSuffix name number = (if number = 0 then name else name @ show_nat number)"

definition dumbJoin :: "string list \<Rightarrow> string" where
  "dumbJoin names = (if names = [] then ''/'' else join_slash names)"

text \<open>The environment variable by which tests force the support is taken to be unset.\<close>

definition SupportsShifting :: "'s overlayDriver \<Rightarrow> bool" where
  "SupportsShifting d \<longleftrightarrow> oo_mountProgram (ov_options d) \<noteq> []"

definition show_map :: "IDMap \<Rightarrow> string" where
  "show_map i = show_int (ContainerID i) @ '':'' @ show_int (HostID i) @ '':'' @ show_int (Size i)"

text \<open>A colon is written before each mapping, the first one too, since the buffer is not empty.\<close>

definition mapping_option :: "string \<Rightarrow> string \<Rightarrow> idmaps \<Rightarrow> string" where
  "mapping_option squash mapping maps =
     (case slice_of maps of
        [i] \<Rightarrow> if Size i = 1 then squash @ show_int (HostID i) else mapping @ '':'' @ show_map i
      | is \<Rightarrow> mapping @ concat (map (\<lambda>i. '':'' @ show_map i) is))"

definition optsAppendMappings :: "'s overlayDriver \<Rightarrow> string \<Rightarrow> idmaps \<Rightarrow> idmaps \<Rightarrow> string" where
  "optsAppendMappings d opts uidMaps gidMaps =
     (let um = (if uidMaps = None then ov_uidMaps d else uidMaps);
          gm = (if gidMaps = None then ov_gidMaps d else gidMaps) in
      if um = None then opts
      else opts @ '','' @ mapping_option ''squash_to_uid='' ''uidmapping='' um @ '','' @
           mapping_option ''squash_to_gid='' ''gidmapping='' gm)"

definition options_list :: "'s overlayDriver \<Rightarrow> MountOpts \<Rightarrow> string list" where
  "options_list d options1 =
     (let conf = split_on (CHR '','') (oo_mountOptions (ov_options d));
          l = (if mo_Options options1 = [] then conf
               else if hasMetacopyOption conf \<and> \<not> hasMetacopyOption (mo_Options options1) \<and> ov_usingMetacopy d
               then mo_Options options1 @ [''metacopy=on'']
               else mo_Options options1)
      in if ov_usingMetacopy d then l else stripOption l ''metacopy=on'')"

section \<open>The stack of lower directories\<close>

record lowers =
  lo_abs :: "string list"
  lo_rel :: "string list"
  lo_perms :: int
  lo_known :: bool

text \<open>The first number for which a path is missing; the search need not end and has fuel.\<close>

fun first_missing :: "nat \<Rightarrow> (nat \<Rightarrow> bool) \<Rightarrow> nat \<Rightarrow> nat option" where
  "first_missing 0 there n = None"
| "first_missing (Suc fuel) there n = (if there n then first_missing fuel there (Suc n) else Some n)"

definition more_diffs :: "nat \<Rightarrow> 's osys \<Rightarrow> (nat \<Rightarrow> string) \<Rightarrow> ('s, nat list) go" where
  "more_diffs fuel sys pathN =
     bind (gets (\<lambda>s. first_missing fuel (\<lambda>n. present sys (pathN n) s) 1)) (\<lambda>r.
       case r of None \<Rightarrow> fail (Blocked ''diffN'') | Some n \<Rightarrow> ret [1 ..< n])"

text \<open>Directories \<open>diff1\<close>, \<open>diff2\<close>, and so on of the layer itself are its uppermost lower directories.\<close>

definition own_lowers :: "nat \<Rightarrow> 's overlayDriver \<Rightarrow> string \<Rightarrow> string \<Rightarrow> ('s, lowers) go" where
  "own_lowers fuel d dir link =
     (let pathN = (\<lambda>n. Join [dir, nameWithSuffix ''diff'' n]) in
      bind (more_diffs fuel (ov_sys d) pathN) (\<lambda>ns.
      bind (query (os_Stat (ov_sys d) (pathN 1))) (\<lambda>r.
        ret \<lparr>lo_abs = map pathN ns, lo_rel = map (\<lambda>n. dumbJoin [link, ''..'', nameWithSuffix ''diff'' n]) ns,
             lo_perms = (case r of
                           Inr st \<Rightarrow> uint (sys_Mode st)
                         | Inl _ \<Rightarrow> (case oo_forceMask (ov_options d) of None \<Rightarrow> defaultPerms | Some m \<Rightarrow> m)),
             lo_known = (case r of Inr _ \<Rightarrow> True | Inl _ \<Rightarrow> False)\<rparr>)))"

definition learn_perms :: "Stat_t \<Rightarrow> lowers \<Rightarrow> lowers" where
  "learn_perms st lo = (if lo_known lo then lo else lo\<lparr>lo_perms := uint (sys_Mode st), lo_known := True\<rparr>)"

text \<open>Where a lower directory is, with the permissions learnt there.\<close>

definition find_lower :: "nat \<Rightarrow> 's overlayDriver \<Rightarrow> string \<Rightarrow> lowers \<Rightarrow> ('s, string \<times> lowers) go" where
  "find_lower fuel d l lo =
     (let newpath = Join [ov_home d, l] in
      bind (query (os_Stat (ov_sys d) newpath)) (\<lambda>r.
        case r of
          Inr st \<Rightarrow> ret (newpath, learn_perms st lo)
        | Inl e \<Rightarrow>
            bind (gets (\<lambda>s. find (\<lambda>p. present (ov_sys d) (Join [p, ov_name d, l]) s) (oo_imageStores (ov_options d)))) (\<lambda>f.
              case f of
                Some p \<Rightarrow>
                  (let lower = Join [p, ov_name d, l] in
                   bind (query (os_Stat (ov_sys d) lower)) (\<lambda>r.
                     ret (lower, case r of Inr st \<Rightarrow> learn_perms st lo | Inl _ \<Rightarrow> lo)))
              | None \<Rightarrow>
                  if e = NotExist then bind (recreateSymlinks fuel d) (\<lambda>_. ret (newpath, lo))
                  else fail e)))"

fun add_lowers :: "nat \<Rightarrow> 's overlayDriver \<Rightarrow> string list \<Rightarrow> lowers \<Rightarrow> ('s, lowers) go" where
  "add_lowers fuel d [] lo = ret lo"
| "add_lowers fuel d (l # ls) lo =
     (if l = [] then add_lowers fuel d ls lo
      else bind (find_lower fuel d l lo) (\<lambda>(lower, lo1).
           bind (more_diffs fuel (ov_sys d) (\<lambda>n. dumbJoin [lower, ''..'', nameWithSuffix ''diff'' n])) (\<lambda>ns.
             let sub = (\<lambda>p. p # map (\<lambda>n. dumbJoin [p, ''..'', nameWithSuffix ''diff'' n]) ns) in
             add_lowers fuel d ls (lo1\<lparr>lo_abs := lo_abs lo1 @ sub lower, lo_rel := lo_rel lo1 @ sub l\<rparr>))))"

definition or_empty :: "string \<Rightarrow> string \<Rightarrow> lowers \<Rightarrow> lowers" where
  "or_empty dir ident lo =
     (if lo_abs lo = [] then lo\<lparr>lo_abs := [Join [dir, ''empty'']], lo_rel := [Join [ident, ''empty'']]\<rparr> else lo)"

section \<open>Mounting\<close>

definition abs_options :: "bool \<Rightarrow> string list \<Rightarrow> string \<Rightarrow> string \<Rightarrow> string" where
  "abs_options readWrite absLowers diffDir workdir =
     (if readWrite then ''lowerdir='' @ join_with (CHR '':'') absLowers @ '',upperdir='' @ diffDir @ '',workdir='' @ workdir
      else ''lowerdir='' @ diffDir @ '':'' @ join_with (CHR '':'') absLowers)"

text \<open>
  The options of the fallback for data that do not fit in a page; without the options of the layer,
  and a layer that is mounted read-only is left out itself.
\<close>

definition rel_options :: "bool \<Rightarrow> lowers \<Rightarrow> string \<Rightarrow> string" where
  "rel_options readWrite lo ident =
     (if readWrite then ''lowerdir='' @ join_with (CHR '':'') (lo_rel lo) @ '',upperdir='' @ Join [ident, ''diff''] @
        '',workdir='' @ Join [ident, ''work'']
      else ''lowerdir='' @ join_with (CHR '':'') (lo_abs lo))"

definition volatile_option :: "'s overlayDriver \<Rightarrow> MountOpts \<Rightarrow> string \<Rightarrow> ('s overlayState, string) go" where
  "volatile_option d options1 opts =
     (if mo_Volatile options1 \<and> \<not> hasVolatileOption (split_on (CHR '','') opts) then
        bind (getSupportsVolatile d) (\<lambda>supported. ret (if supported then opts @ '',volatile'' else opts))
      else ret opts)"

text \<open>The marker of a volatile mount is removed, then the layer is mounted.\<close>

definition mount_data :: "'s overlayDriver \<Rightarrow> string \<Rightarrow> string \<Rightarrow> (int \<Rightarrow> string \<Rightarrow> sys_call) \<Rightarrow> ('s overlayState, unit) go" where
  "mount_data d workdir mountData call =
     bind (on_os (attempt (os_Do (ov_sys d) (SysRemoveAll (Join [workdir, ''work/incompat/volatile'']))))) (\<lambda>r.
       case r of
         Inl e \<Rightarrow> if e = NotExist then let (fl, data) = ParseOptions mountData in on_os (os_Do (ov_sys d) (call fl data)) else fail e
       | Inr _ \<Rightarrow> let (fl, data) = ParseOptions mountData in on_os (os_Do (ov_sys d) (call fl data)))"

definition program_options :: "'s overlayDriver \<Rightarrow> bool \<Rightarrow> MountOpts \<Rightarrow> string \<Rightarrow> string" where
  "program_options d disableShifting options1 data =
     (let l = (if disableShifting then data else optsAppendMappings d data (mo_UidMaps options1) (mo_GidMaps options1)) in
      if oo_forceMask (ov_options d) \<noteq> None then l @ '',xattr_permissions=2'' else l)"

definition mount_layer ::
  "'s overlayDriver \<Rightarrow> string \<Rightarrow> string \<Rightarrow> bool \<Rightarrow> MountOpts \<Rightarrow> string list \<Rightarrow> bool \<Rightarrow> lowers \<Rightarrow> ('s overlayState, unit) go" where
  "mount_layer d ident dir disableShifting options1 optsList readWrite lo =
     (let diffDir = Join [dir, ''diff'']; mergedDir = Join [dir, ''merged'']; workdir = Join [dir, ''work''];
          opts0 = abs_options readWrite (lo_abs lo) diffDir workdir;
          opts1 = (if optsList \<noteq> [] then join_with (CHR '','') optsList @ '','' @ opts0 else opts0);
          opts2 = (if oo_mountProgram (ov_options d) = [] \<and> ov_IsRootless d then opts1 @ '',userxattr'' else opts1) in
      bind (volatile_option d options1 opts2) (\<lambda>opts.
      let mountData = ov_FormatMountLabel d opts (mo_MountLabel options1) in
      if oo_mountProgram (ov_options d) \<noteq> [] then
        mount_data d workdir mountData (\<lambda>fl data.
          SysRun (oo_mountProgram (ov_options d)) [''-o'', program_options d disableShifting options1 data, mergedDir])
      else if length mountData > ov_Getpagesize d then
        let mountData' = ov_FormatMountLabel d (rel_options readWrite lo ident) (mo_MountLabel options1) in
        if length mountData' > ov_Getpagesize d then fail (Errorf ''cannot mount layer, mount label too large'')
        else mount_data d (Join [ident, ''work'']) mountData' (SysMount (ov_home d) ''overlay'' (Join [ident, ''merged'']))
      else mount_data d workdir mountData (SysMount [] ''overlay'' mergedDir)))"

definition incr :: "'s overlayDriver \<Rightarrow> int \<Rightarrow> string \<Rightarrow> ('s overlayState, int) go" where
  "incr d delta path t =
     (let (n, counts) = incdec (\<lambda>p. ov_IsMounted d p (ovs_sys t)) delta path (ovs_counts t) in (Inr n, t\<lparr>ovs_counts := counts\<rparr>))"

text \<open>The lower directories of a layer that is there.\<close>

definition collect_lowers :: "nat \<Rightarrow> 's overlayDriver \<Rightarrow> string \<Rightarrow> string \<Rightarrow> ('s, lowers) go" where
  "collect_lowers fuel d ident dir =
     bind (query (os_ReadFile (ov_sys d) (Join [dir, lowerFile]))) (\<lambda>r.
     bind (case r of Inr c \<Rightarrow> ret c | Inl e \<Rightarrow> if e = NotExist then ret [] else fail e) (\<lambda>content.
     let splitLowers = split_on (CHR '':'') content in
     if length splitLowers > maxDepth then fail (Errorf ''max depth exceeded'')
     else bind (read_relinking fuel d (os_ReadFile (ov_sys d) (Join [dir, ''link'']))) (\<lambda>link.
          bind (own_lowers fuel d dir link) (\<lambda>lo.
          bind (add_lowers fuel d splitLowers lo) (\<lambda>lo'. ret (or_empty dir ident lo'))))))"

definition ov_get :: "nat \<Rightarrow> 's overlayDriver \<Rightarrow> string \<Rightarrow> bool \<Rightarrow> MountOpts \<Rightarrow> ('s overlayState, string) go" where
  "ov_get fuel d ident disableShifting0 options1 =
     bind (on_os (gets (ov_dir d ident))) (\<lambda>dir.
     bind (on_os (query (os_Stat (ov_sys d) dir))) (\<lambda>r.
     case r of
       Inl e \<Rightarrow> fail e
     | Inr _ \<Rightarrow>
         (let disableShifting = (disableShifting0 \<or> \<not> SupportsShifting d \<or> mo_DisableShifting options1);
              optsList = options_list d options1; readWrite = (''ro'' \<notin> set optsList);
              mergedDir = Join [dir, ''merged''] in
          bind (on_os (collect_lowers fuel d ident dir)) (\<lambda>lo.
          case GetRootUIDGID (ov_uidMaps d) (ov_gidMaps d) of
            (_, Some e) \<Rightarrow> fail e
          | ((uid, gid), None) \<Rightarrow>
              bind (on_os (mkdirAs (ov_sys d) (Join [dir, ''diff'']) (lo_perms lo) uid gid True True)) (\<lambda>_.
              bind (on_os (attempt (mkdirAs (ov_sys d) mergedDir 0x1C0 uid gid False True))) (\<lambda>r.
              bind (case r of Inr _ \<Rightarrow> ret () | Inl e \<Rightarrow> if IsExist e then ret () else fail e) (\<lambda>_.
              bind (incr d 1 mergedDir) (\<lambda>count.
              if count > 1 then ret mergedDir
              else undo_on_error
                     (bind (incr d (- 1) mergedDir) (\<lambda>c.
                        if c \<le> 0 then on_os (os_Do (ov_sys d) (SysUnmount mergedDir 0)) else ret ()))
                     (bind (mount_layer d ident dir disableShifting options1 optsList readWrite lo) (\<lambda>_. ret mergedDir))))))))))"

definition ov_Get :: "nat \<Rightarrow> 's overlayDriver \<Rightarrow> string \<Rightarrow> MountOpts \<Rightarrow> ('s overlayState, string) go" where
  "ov_Get fuel d ident options1 = ov_get fuel d ident False options1"

text \<open>
  The programs that unmount a file system in user space; the result tells whether one did.  If none
  did, \<open>Put\<close> also flushes the file system, which is left out.
\<close>

fun fuse_unmount :: "'s osys \<Rightarrow> string \<Rightarrow> string list \<Rightarrow> ('s, bool) go" where
  "fuse_unmount sys mountpoint [] = ret False"
| "fuse_unmount sys mountpoint (v # vs) =
     bind (attempt (os_Do sys (SysRun v [''-u'', mountpoint]))) (\<lambda>r.
       case r of Inr _ \<Rightarrow> ret True | Inl _ \<Rightarrow> fuse_unmount sys mountpoint vs)"

definition ov_Put :: "'s overlayDriver \<Rightarrow> string \<Rightarrow> ('s overlayState, unit) go" where
  "ov_Put d ident =
     bind (on_os (gets (ov_dir d ident))) (\<lambda>dir.
     bind (on_os (query (os_Stat (ov_sys d) dir))) (\<lambda>r.
     case r of
       Inl e \<Rightarrow> fail e
     | Inr _ \<Rightarrow>
         (let mountpoint = Join [dir, ''merged''] in
          bind (incr d (- 1) mountpoint) (\<lambda>count.
          if count > 0 then ret ()
          else bind (on_os (query (os_ReadFile (ov_sys d) (Join [dir, lowerFile])))) (\<lambda>r.
               bind (case r of Inr _ \<Rightarrow> ret () | Inl e \<Rightarrow> if e = NotExist then ret () else fail e) (\<lambda>_.
               on_os
                 (bind (if oo_mountProgram (ov_options d) \<noteq> [] then fuse_unmount (ov_sys d) mountpoint [''fusermount3'', ''fusermount'']
                        else ret False) (\<lambda>unmounted.
                  bind (if unmounted then ret () else ignoring (os_Do (ov_sys d) (SysUnmount mountpoint 2))) (\<lambda>_.
                  ignoring (os_Do (ov_sys d) (SysRmdir mountpoint)))))))))))"

section \<open>Other operations\<close>

fun rename_up :: "'s osys \<Rightarrow> string \<Rightarrow> nat \<Rightarrow> ('s, unit) go" where
  "rename_up sys diffDir 0 = ret ()"
| "rename_up sys diffDir (Suc i) =
     bind (os_Do sys (SysRename (nameWithSuffix diffDir i) (nameWithSuffix diffDir (Suc i)))) (\<lambda>_. rename_up sys diffDir i)"

text \<open>The directories of a layer are moved up by one number, and an empty \<open>diff\<close> is made.\<close>

definition rotate_diffs :: "nat \<Rightarrow> 's overlayDriver \<Rightarrow> string \<Rightarrow> int \<Rightarrow> int \<Rightarrow> ('s, unit) go" where
  "rotate_diffs fuel d dir rootUID rootGID =
     (let sys = ov_sys d; diffDir = Join [dir, ''diff'']; workDir = Join [dir, ''work''] in
      bind (query (os_Stat sys diffDir)) (\<lambda>r.
      let perms = (case oo_forceMask (ov_options d) of
                     Some m \<Rightarrow> m
                   | None \<Rightarrow> (case r of Inr st \<Rightarrow> uint (sys_Mode st) | Inl _ \<Rightarrow> defaultPerms)) in
      bind (gets (\<lambda>s. first_missing fuel (\<lambda>n. present sys (nameWithSuffix diffDir n) s) 0)) (\<lambda>n.
      bind (case n of None \<Rightarrow> fail (Blocked ''diffN'') | Some i \<Rightarrow> rename_up sys diffDir i) (\<lambda>_.
      bind (attempt (os_Do sys (SysRemoveAll workDir))) (\<lambda>r.
      bind (case r of Inl _ \<Rightarrow> ret () | Inr _ \<Rightarrow> mkdirAs sys workDir defaultPerms rootUID rootGID False True) (\<lambda>_.
      mkdirAs sys diffDir perms rootUID rootGID False True))))))"

text \<open>The change of owners in the mounted layer is the parameter \<open>chown\<close>.\<close>

definition UpdateLayerIDMap ::
  "nat \<Rightarrow> 's overlayDriver \<Rightarrow> (string \<Rightarrow> ('s, unit) go) \<Rightarrow> string \<Rightarrow> IDMappings option \<Rightarrow> string \<Rightarrow> ('s overlayState, unit) go" where
  "UpdateLayerIDMap fuel d chown ident hostMaps mountLabel =
     bind (on_os (gets (ov_dir d ident))) (\<lambda>dir.
     case (case hostMaps of None \<Rightarrow> ((0, 0), None) | Some m \<Rightarrow> GetRootUIDGID (uids m) (gids m)) of
       (_, Some e) \<Rightarrow> fail e
     | ((rootUID, rootGID), None) \<Rightarrow>
         bind (ov_get fuel d ident True (no_mount_opts\<lparr>mo_MountLabel := mountLabel,
                 mo_Options := split_on (CHR '','') (oo_mountOptions (ov_options d))\<rparr>)) (\<lambda>layerFs.
         bind (attempt (on_os (chown layerFs))) (\<lambda>r.
         case r of
           Inl e \<Rightarrow> bind (ignoring (ov_Put d ident)) (\<lambda>_. fail e)
         | Inr _ \<Rightarrow> bind (ov_Put d ident) (\<lambda>_. on_os (rotate_diffs fuel d dir rootUID rootGID)))))"

definition getStagingDir :: "'s overlayDriver \<Rightarrow> string" where
  "getStagingDir d = Join [ov_home d, ''staging'']"

definition CleanupStagingDirectory :: "'s overlayDriver \<Rightarrow> string \<Rightarrow> ('s, unit) go" where
  "CleanupStagingDirectory d stagingDirectory = os_Do (ov_sys d) (SysRemoveAll stagingDirectory)"

definition ApplyDiffFromStagingDirectory :: "'s overlayDriver \<Rightarrow> string \<Rightarrow> string \<Rightarrow> ('s, unit) go" where
  "ApplyDiffFromStagingDirectory d ident stagingDirectory =
     (if Dir stagingDirectory \<noteq> getStagingDir d then fail (Errorf ''is not a staging directory'')
      else bind (query (getDiffPath d ident)) (\<lambda>r.
        case r of
          Inl e \<Rightarrow> fail e
        | Inr dif \<Rightarrow>
            bind (attempt (os_Do (ov_sys d) (SysRemoveAll dif))) (\<lambda>r.
            bind (case r of Inr _ \<Rightarrow> ret () | Inl e \<Rightarrow> if e = NotExist then ret () else fail e) (\<lambda>_.
            os_Do (ov_sys d) (SysRename stagingDirectory dif)))))"

definition ov_Cleanup :: "'s overlayDriver \<Rightarrow> ('s, unit) go \<Rightarrow> ('s, unit) go" where
  "ov_Cleanup d unmountHome = bind (ignoring (os_Do (ov_sys d) (SysRemoveAll (getStagingDir d)))) (\<lambda>_. unmountHome)"

section \<open>Mount data fit in a page\<close>

lemma length_join_with: "xs \<noteq> [] \<Longrightarrow> Suc (length (join_with c xs)) = sum_list (map (\<lambda>x. Suc (length x)) xs)"
  by (cases xs) (auto simp: join_with_def length_concat o_def)

lemma length_join_with_le:
  assumes "length xs \<le> n" "\<forall>x \<in> set xs. length x \<le> k"
  shows "length (join_with c xs) \<le> n * Suc k"
proof (cases "xs = []")
  case False
  have "sum_list (map (\<lambda>x. Suc (length x)) xs) \<le> sum_list (map (\<lambda>_. Suc k) xs)"
    by (rule sum_list_mono) (use assms(2) in auto)
  also have "\<dots> = length xs * Suc k" by (simp add: sum_list_triv)
  also have "\<dots> \<le> n * Suc k" using assms(1) by (intro mult_right_mono) auto
  finally show ?thesis using length_join_with [OF False, of c] by simp
qed (simp add: join_with_def)

text \<open>
  C27: the fallback fits in a page.  For a writable layer with at most \<open>maxDepth\<close> lower layers, named by
  links of \<open>idLength\<close> characters, and with an identifier of 64 characters, the options with relative
  paths have less than 4096 characters.  (The bound of the code's comment leaves out the colons
  between the names: 128 names take 3711 characters, more than the 3584 that leave 512 for a label.)
\<close>

theorem rel_options_fit:
  assumes "length (lo_rel lo) \<le> maxDepth" "\<forall>l \<in> set (lo_rel lo). \<exists>lid. l = Join [linkDir, lid] \<and> length lid = idLength \<and> plain lid"
    and "length ident = 64" "plain ident"
  shows "length (rel_options True lo ident) \<le> 3878"
proof -
  have j: "Join [a, b] = a @ CHR ''/'' # b" if "plain a" "plain b" for a b
    using Clean_join_slash [of "[a, b]"] that by (auto simp: Join.simps plain_def)
  have p: "plain ''diff''" "plain ''work''" "plain linkDir" by (simp_all add: plain_def linkDir_def)
  have "length l = 28" if "l \<in> set (lo_rel lo)" for l
    using assms(2) that j [OF p(3)] by (auto simp: idLength_def linkDir_def)
  then have "length (join_with (CHR '':'') (lo_rel lo)) \<le> 128 * Suc 28"
    using assms(1) by (intro length_join_with_le) (auto simp: maxDepth_def)
  then show ?thesis using assms(3) j [OF assms(4) p(1)] j [OF assms(4) p(2)] by (simp add: rel_options_def)
qed

theorem rel_options_fit_witness:
  "length (rel_options True \<lparr>lo_abs = [], lo_rel = replicate 128 (Join [linkDir, replicate 26 (CHR ''A'')]), lo_perms = 0, lo_known = False\<rparr>
     (replicate 64 (CHR ''a''))) \<le> 3878"
proof (rule rel_options_fit)
  have "length (replicate 26 (CHR ''A'')) = idLength" "plain (replicate 26 (CHR ''A''))" by (simp_all add: idLength_def) code_simp
  then show "\<forall>l \<in> set (lo_rel \<lparr>lo_abs = [], lo_rel = replicate 128 (Join [linkDir, replicate 26 (CHR ''A'')]), lo_perms = 0, lo_known = False\<rparr>).
      \<exists>lid. l = Join [linkDir, lid] \<and> length lid = idLength \<and> plain lid" by auto
  show "plain (replicate 64 (CHR ''a''))" by code_simp
qed (simp_all add: maxDepth_def)

end
