(* ===== verification/OverlayFs.thy ===== *)
theory OverlayFs
  imports OverlayMount
begin

text \<open>
  A file system with directories, files and symbolic links, as an instance of the record \<open>osys\<close> that the
  model of the drivers takes.  Paths are resolved as the kernel does, component by component, with a
  bound on the number of links followed; a call that changes the file system takes its outcome from a
  list of faults, as in the \<open>World\<close> of the stores.  Owners, modes, attributes and mounts are not kept.
\<close>

section \<open>Nodes and paths\<close>

datatype onode = ODir | OFile bytes | OLink string

record ofs =
  of_nodes :: "(path \<times> onode) list"
  of_faults :: "gerr option list"

definition ELOOP :: gerr where "ELOOP = SysErr 40"
definition EEXIST :: gerr where "EEXIST = SysErr 17"
definition EISDIR :: gerr where "EISDIR = SysErr 21"

function (sequential) namei :: "nat \<Rightarrow> (path \<times> onode) list \<Rightarrow> path \<Rightarrow> string list \<Rightarrow> bool \<Rightarrow> gerr + path" where
  "namei links t cur [] follow = Inr cur"
| "namei links t cur (e # es) follow =
     (if e = [] \<or> e = ''.'' then namei links t cur es follow
      else if e = ''..'' then namei links t (butlast cur) es follow
      else case map_of t (cur @ [e]) of
             Some (OLink tgt) \<Rightarrow>
               if es = [] \<and> \<not> follow then Inr (cur @ [e])
               else if links = 0 then Inl ELOOP
               else namei (links - 1) t (if rooted_path tgt then [] else cur) (split_on (CHR ''/'') tgt @ es) follow
           | Some ODir \<Rightarrow> namei links t (cur @ [e]) es follow
           | Some (OFile _) \<Rightarrow> if es = [] then Inr (cur @ [e]) else Inl ENOTDIR
           | None \<Rightarrow> if es = [] then Inr (cur @ [e]) else Inl NotExist)"
  by pat_completeness auto
termination by (relation "measures [\<lambda>(links, t, cur, es, follow). links, \<lambda>(links, t, cur, es, follow). length es]") auto

declare namei.simps [simp del]

definition resolve_path :: "string \<Rightarrow> bool \<Rightarrow> (path \<times> onode) list \<Rightarrow> gerr + path" where
  "resolve_path p follow t = namei 40 t [] (split_on (CHR ''/'') p) follow"

definition node_of :: "(path \<times> onode) list \<Rightarrow> path \<Rightarrow> onode option" where
  "node_of t q = (if q = [] then Some ODir else map_of t q)"

definition node_at :: "string \<Rightarrow> bool \<Rightarrow> (path \<times> onode) list \<Rightarrow> gerr + onode" where
  "node_at p follow t =
     (case resolve_path p follow t of
        Inl e \<Rightarrow> Inl e
      | Inr q \<Rightarrow> (case node_of t q of None \<Rightarrow> Inl NotExist | Some n \<Rightarrow> Inr n))"

definition onode_stat :: "onode \<Rightarrow> Stat_t" where
  "onode_stat n =
     \<lparr>sys_Dev = 0, sys_Ino = 0, sys_Nlink = 1, sys_Mode = (case n of ODir \<Rightarrow> 0x41ED | OFile _ \<Rightarrow> 0x81A4 | OLink _ \<Rightarrow> 0xA1FF),
      sys_Uid = 0, sys_Gid = 0, sys_Rdev = 0, sys_Size = 0, sys_Mtim = \<lparr>ts_Sec = 0, ts_Nsec = 0\<rparr>\<rparr>"

section \<open>Calls\<close>

text \<open>\<open>mkdir -p\<close>: missing directories are made on the way.\<close>

function (sequential) mkdirs :: "nat \<Rightarrow> (path \<times> onode) list \<Rightarrow> path \<Rightarrow> string list \<Rightarrow> gerr + (path \<times> onode) list" where
  "mkdirs links t cur [] = Inr t"
| "mkdirs links t cur (e # es) =
     (if e = [] \<or> e = ''.'' then mkdirs links t cur es
      else if e = ''..'' then mkdirs links t (butlast cur) es
      else case map_of t (cur @ [e]) of
             Some (OLink tgt) \<Rightarrow>
               if links = 0 then Inl ELOOP
               else mkdirs (links - 1) t (if rooted_path tgt then [] else cur) (split_on (CHR ''/'') tgt @ es)
           | Some ODir \<Rightarrow> mkdirs links t (cur @ [e]) es
           | Some (OFile _) \<Rightarrow> Inl ENOTDIR
           | None \<Rightarrow> mkdirs links (AList.update (cur @ [e]) ODir t) (cur @ [e]) es)"
  by pat_completeness auto
termination by (relation "measures [\<lambda>(links, t, cur, es). links, \<lambda>(links, t, cur, es). length es]") auto

declare mkdirs.simps [simp del]

text \<open>A new node at a path that must not be there yet.\<close>

definition add_node :: "string \<Rightarrow> onode \<Rightarrow> (path \<times> onode) list \<Rightarrow> gerr + (path \<times> onode) list" where
  "add_node p n t =
     (case resolve_path p False t of
        Inl e \<Rightarrow> Inl e
      | Inr q \<Rightarrow> if node_of t q \<noteq> None then Inl EEXIST else Inr (AList.update q n t))"

definition write_node :: "string \<Rightarrow> bytes \<Rightarrow> (path \<times> onode) list \<Rightarrow> gerr + (path \<times> onode) list" where
  "write_node p data t =
     (case resolve_path p True t of
        Inl e \<Rightarrow> Inl e
      | Inr q \<Rightarrow> (case node_of t q of Some ODir \<Rightarrow> Inl EISDIR | _ \<Rightarrow> Inr (AList.update q (OFile data) t)))"

definition remove_tree :: "string \<Rightarrow> (path \<times> onode) list \<Rightarrow> gerr + (path \<times> onode) list" where
  "remove_tree p t =
     (case resolve_path p False t of
        Inl e \<Rightarrow> if e = NotExist then Inr t else Inl e
      | Inr q \<Rightarrow> Inr (filter (\<lambda>(k, _). \<not> prefix q k) t))"

definition move_tree :: "string \<Rightarrow> string \<Rightarrow> (path \<times> onode) list \<Rightarrow> gerr + (path \<times> onode) list" where
  "move_tree a b t =
     (case (resolve_path a False t, resolve_path b False t) of
        (Inr q, Inr r) \<Rightarrow>
          if node_of t q = None then Inl NotExist
          else Inr (map (\<lambda>(k, n). (if prefix q k then r @ drop (length q) k else k, n)) (filter (\<lambda>(k, _). \<not> prefix r k) t))
      | (Inl e, _) \<Rightarrow> Inl e
      | (_, Inl e) \<Rightarrow> Inl e)"

fun ofs_call :: "sys_call \<Rightarrow> (path \<times> onode) list \<Rightarrow> gerr + (path \<times> onode) list" where
  "ofs_call (SysMkdir p m) t = add_node p ODir t"
| "ofs_call (SysMkdirAll p m) t = mkdirs 40 t [] (split_on (CHR ''/'') p)"
| "ofs_call (SysWriteFile p m d) t = write_node p d t"
| "ofs_call (SysMknod p m dev) t = add_node p (OFile []) t"
| "ofs_call (SysLink old p) t = (case node_at old False t of Inl e \<Rightarrow> Inl e | Inr n \<Rightarrow> add_node p n t)"
| "ofs_call (SysSymlink tgt p) t = add_node p (OLink tgt) t"
| "ofs_call (SysRemoveAll p) t = remove_tree p t"
| "ofs_call (SysRemove p) t = remove_tree p t"
| "ofs_call (SysRmdir p) t = remove_tree p t"
| "ofs_call (SysRename a b) t = move_tree a b t"
| "ofs_call c t = Inr t"

definition ofs_do :: "sys_call \<Rightarrow> (ofs, unit) go" where
  "ofs_do c s =
     (case of_faults s of
        Some e # fl \<Rightarrow> (Inl e, s\<lparr>of_faults := fl\<rparr>)
      | _ \<Rightarrow>
          (let s' = s\<lparr>of_faults := tl (of_faults s)\<rparr> in
           case ofs_call c (of_nodes s) of Inl e \<Rightarrow> (Inl e, s') | Inr t \<Rightarrow> (Inr (), s'\<lparr>of_nodes := t\<rparr>)))"

definition ofs_sys :: "ofs osys" where
  "ofs_sys =
     \<lparr>os_Do = ofs_do,
      os_Lstat = (\<lambda>p s. map_sum id onode_stat (node_at p False (of_nodes s))),
      os_Stat = (\<lambda>p s. map_sum id onode_stat (node_at p True (of_nodes s))),
      os_ReadFile = (\<lambda>p s. case node_at p True (of_nodes s) of Inl e \<Rightarrow> Inl e | Inr (OFile c) \<Rightarrow> Inr c | Inr _ \<Rightarrow> Inl EISDIR),
      os_Readlink = (\<lambda>p s. case node_at p False (of_nodes s) of Inl e \<Rightarrow> Inl e | Inr (OLink l) \<Rightarrow> Inr l | Inr _ \<Rightarrow> Inl EINVAL),
      os_Lgetxattr = (\<lambda>p k s. Inr None),
      os_Llistxattr = (\<lambda>p s. Inr []),
      os_Readdirnames = (\<lambda>p s. case resolve_path p True (of_nodes s) of
          Inl e \<Rightarrow> Inl e
        | Inr q \<Rightarrow> (case node_of (of_nodes s) q of
            Some ODir \<Rightarrow> Inr [last k. (k, _) \<leftarrow> of_nodes s, k \<noteq> [] \<and> butlast k = q]
          | Some _ \<Rightarrow> Inl ENOTDIR
          | None \<Rightarrow> Inl NotExist)),
      os_TempDir = (\<lambda>pat. fail NotExist)\<rparr>"

section \<open>Paths through directories\<close>

text \<open>All directories above a path are there.\<close>

definition dirs_to :: "(path \<times> onode) list \<Rightarrow> path \<Rightarrow> bool" where
  "dirs_to t q \<longleftrightarrow> (\<forall>p. p \<noteq> [] \<longrightarrow> strict_prefix p q \<longrightarrow> map_of t p = Some ODir)"

definition not_link :: "onode option \<Rightarrow> bool" where
  "not_link n \<longleftrightarrow> (\<forall>l. n \<noteq> Some (OLink l))"

lemma namei_dirs:
  assumes "list_all plain es" "\<And>p. p \<noteq> [] \<Longrightarrow> strict_prefix p es \<Longrightarrow> map_of t (cur @ p) = Some ODir"
    and "es = [] \<or> \<not> follow \<or> not_link (map_of t (cur @ es))"
  shows "namei links t cur es follow = Inr (cur @ es)"
  using assms
proof (induction es arbitrary: cur)
  case (Cons e es)
  have e: "e \<noteq> []" "e \<noteq> ''.''" "e \<noteq> ''..''" using Cons.prems(1) by (auto simp: plain_def)
  show ?case
  proof (cases "es = []")
    case True
    then show ?thesis using Cons.prems(3) e
      by (auto simp: namei.simps not_link_def split: option.splits onode.splits)
  next
    case False
    then have d: "map_of t (cur @ [e]) = Some ODir" using Cons.prems(2) [of "[e]"] by (cases es) (auto simp: strict_prefix_def)
    have "namei links t (cur @ [e]) es follow = Inr ((cur @ [e]) @ es)"
    proof (rule Cons.IH)
      show "list_all plain es" using Cons.prems(1) by simp
      show "map_of t ((cur @ [e]) @ p) = Some ODir" if "p \<noteq> []" "strict_prefix p es" for p
        using Cons.prems(2) [of "e # p"] that by (simp add: strict_prefix_def)
      show "es = [] \<or> \<not> follow \<or> not_link (map_of t ((cur @ [e]) @ es))" using Cons.prems(3) by simp
    qed
    then show ?thesis using e d by (simp add: namei.simps)
  qed
qed (simp add: namei.simps)

lemma split_path_string: "list_all plain q \<Longrightarrow> q \<noteq> [] \<Longrightarrow> split_on (CHR ''/'') (path_string q) = [] # q"
  using split_on_join_slash [of q] plain_is_name by (auto simp: path_string_def)

lemma resolve_path_dirs:
  assumes "list_all plain q" "dirs_to t q" "q = [] \<or> \<not> follow \<or> not_link (map_of t q)"
  shows "resolve_path (path_string q) follow t = Inr q"
proof (cases "q = []")
  case True
  then show ?thesis by (simp add: resolve_path_def path_string_def namei.simps)
next
  case False
  have "namei 40 t [] q follow = Inr ([] @ q)"
    by (rule namei_dirs) (use assms in \<open>auto simp: dirs_to_def\<close>)
  then show ?thesis using split_path_string [OF assms(1) False] by (simp add: resolve_path_def namei.simps)
qed

lemma node_at_dirs:
  assumes "list_all plain q" "dirs_to t q" "q = [] \<or> \<not> follow \<or> not_link (map_of t q)"
  shows "node_at (path_string q) follow t = (case node_of t q of None \<Rightarrow> Inl NotExist | Some n \<Rightarrow> Inr n)"
  using resolve_path_dirs [OF assms] by (simp add: node_at_def)

end
