(* ===== verification/OverlayProps.thy ===== *)
theory OverlayProps
  imports OverlayFs
begin

text \<open>
  The overlay driver on the file system of \<open>OverlayFs\<close>: layers that are created on one another have
  the directories of their ancestors as their lower directories.
\<close>

section \<open>Layers on disk\<close>

definition home_ok :: "ofs overlayDriver \<Rightarrow> path \<Rightarrow> (path \<times> onode) list \<Rightarrow> bool" where
  "home_ok d hs t \<longleftrightarrow>
     ov_sys d = ofs_sys \<and> ov_home d = path_string hs \<and> oo_imageStores (ov_options d) = [] \<and> list_all plain hs \<and>
     (\<forall>p. p \<noteq> [] \<longrightarrow> prefix p (hs @ [linkDir]) \<longrightarrow> map_of t p = Some ODir)"

definition link_name :: "string \<Rightarrow> bool" where
  "link_name lid \<longleftrightarrow> plain lid \<and> CHR '':'' \<notin> set lid \<and> char_of (10 :: nat) \<notin> set lid"

definition layer_at :: "path \<Rightarrow> (path \<times> onode) list \<Rightarrow> string \<Rightarrow> string \<Rightarrow> bool" where
  "layer_at hs t ident lid \<longleftrightarrow>
     plain ident \<and> ident \<noteq> linkDir \<and> link_name lid \<and>
     map_of t (hs @ [ident]) = Some ODir \<and> map_of t (hs @ [ident, ''diff'']) = Some ODir \<and>
     map_of t (hs @ [ident, ''link'']) = Some (OFile lid) \<and>
     map_of t (hs @ [linkDir, lid]) = Some (OLink (Join [''..'', ident, ''diff'']))"

text \<open>A layer and the layers below it, each with the name of its link, the parent first.\<close>

definition stacked :: "path \<Rightarrow> (path \<times> onode) list \<Rightarrow> string \<Rightarrow> string \<Rightarrow> (string \<times> string) list \<Rightarrow> bool" where
  "stacked hs t ident lid ls \<longleftrightarrow>
     layer_at hs t ident lid \<and> list_all (\<lambda>(i, l). layer_at hs t i l) ls \<and>
     map_of t (hs @ [ident, lowerFile]) =
       (if ls = [] then None else Some (OFile (join_with (CHR '':'') (map (\<lambda>(i, l). Join [linkDir, l]) ls))))"

section \<open>Joined names\<close>

lemma plain_names [simp]:
  "plain ''diff''" "plain ''link''" "plain ''work''" "plain ''merged''" "plain ''empty''" "plain linkDir" "plain lowerFile"
  by (simp_all add: plain_def linkDir_def lowerFile_def)

lemma Join_plain: "plain a \<Longrightarrow> plain b \<Longrightarrow> Join [a, b] = a @ CHR ''/'' # b"
  using Clean_join_slash [of "[a, b]"] by (auto simp: Join.simps plain_def)

lemma Join_home: "list_all plain hs \<Longrightarrow> list_all plain es \<Longrightarrow> es \<noteq> [] \<Longrightarrow> Join [path_string hs, join_slash es] = path_string (hs @ es)"
  by (rule Join_dest)

lemma Join_home1 [simp]: "list_all plain hs \<Longrightarrow> plain e \<Longrightarrow> Join [path_string hs, e] = path_string (hs @ [e])"
  using Join_home [of hs "[e]"] by simp

lemma Join_home2: "list_all plain hs \<Longrightarrow> plain a \<Longrightarrow> plain b \<Longrightarrow> Join [path_string hs, Join [a, b]] = path_string (hs @ [a, b])"
  using Join_home [of hs "[a, b]"] by (simp add: Join_plain)

lemma split_on_two: "plain a \<Longrightarrow> plain b \<Longrightarrow> split_on (CHR ''/'') (a @ CHR ''/'' # b) = [a, b]"
  by (simp add: split_on_append split_on_no_sep plain_def)

lemma Join_up: "plain i \<Longrightarrow> Join [''..'', i, ''diff''] = ''../'' @ i @ ''/diff''"
proof -
  assume i: "plain i"
  have "split_on (CHR ''/'') (''../'' @ i @ ''/diff'') = [''..'', i, ''diff'']"
    using split_on_append [of "CHR ''/''" "''..''" "i @ ''/diff''"] split_on_append [of "CHR ''/''" i "''diff''"] i
    by (simp add: plain_def)
  then show ?thesis using i by (simp add: Join.simps Clean_def rooted_path_def plain_def)
qed

lemma Join_link_up: "plain i \<Longrightarrow> Join [''link'', ''../'' @ i @ ''/diff''] = Join [i, ''diff'']"
proof -
  assume i: "plain i"
  have "split_on (CHR ''/'') (''link/../'' @ i @ ''/diff'') = [''link'', ''..'', i, ''diff'']"
    using split_on_append [of "CHR ''/''" "''link''" "''../'' @ i @ ''/diff''"]
      split_on_append [of "CHR ''/''" "''..''" "i @ ''/diff''"] split_on_append [of "CHR ''/''" i "''diff''"] i
    by (simp add: plain_def)
  then show ?thesis using i by (simp add: Join_plain) (simp add: Join.simps Clean_def rooted_path_def plain_def)
qed

lemma split_on_join_with: "xs \<noteq> [] \<Longrightarrow> \<forall>x \<in> set xs. c \<notin> set x \<Longrightarrow> split_on c (join_with c xs) = xs"
proof (induction xs rule: induct_list012)
  case (3 x y zs)
  have "join_with c (x # y # zs) = x @ c # join_with c (y # zs)" by (simp add: join_with_def)
  then show ?case using 3 by (simp add: split_on_append)
qed (simp_all add: join_with_def split_on_no_sep)

section \<open>Lower directories\<close>

lemma ov_dir_home:
  "home_ok d hs t \<Longrightarrow> list_all plain es \<Longrightarrow> es \<noteq> [] \<Longrightarrow> ov_dir d (join_slash es) s = path_string (hs @ es)"
  by (simp add: ov_dir_def home_ok_def Join_home Let_def)

lemma ov_dir_home1 [simp]: "home_ok d hs t \<Longrightarrow> plain i \<Longrightarrow> ov_dir d i s = path_string (hs @ [i])"
  using ov_dir_home [of d hs t "[i]"] by simp

lemma ov_dir_home2: "home_ok d hs t \<Longrightarrow> plain a \<Longrightarrow> plain b \<Longrightarrow> ov_dir d (Join [a, b]) s = path_string (hs @ [a, b])"
  using ov_dir_home [of d hs t "[a, b]"] by (simp add: Join_plain)

lemma home_dirs_to: "home_ok d hs t \<Longrightarrow> dirs_to t (hs @ [i])"
  unfolding home_ok_def dirs_to_def
  by (metis append_Nil2 prefix_append prefix_order.less_le prefix_snoc)

lemma layer_dirs_to:
  assumes "home_ok d hs t" "map_of t (hs @ [i]) = Some ODir"
  shows "dirs_to t (hs @ [i, n])"
  unfolding dirs_to_def
proof (intro allI impI)
  fix p assume p: "p \<noteq> []" "strict_prefix p (hs @ [i, n])"
  then have "prefix p (hs @ [i])" using prefix_snoc [of p "hs @ [i]" n] by (auto simp: strict_prefix_def)
  then have "p = hs @ [i] \<or> strict_prefix p (hs @ [i])" by (auto simp: strict_prefix_def)
  then show "map_of t p = Some ODir" using assms home_dirs_to [OF assms(1)] p(1) by (auto simp: dirs_to_def)
qed

lemma home_plain: "home_ok d hs t \<Longrightarrow> list_all plain hs" and home_sys: "home_ok d hs t \<Longrightarrow> ov_sys d = ofs_sys"
  and home_string: "home_ok d hs t \<Longrightarrow> ov_home d = path_string hs"
  and home_link_dir: "home_ok d hs t \<Longrightarrow> map_of t (hs @ [linkDir]) = Some ODir"
  by (auto simp: home_ok_def)

lemma node_at_in:
  assumes "home_ok d hs t" "map_of t (hs @ [i]) = Some ODir" "plain i" "plain n" "\<not> follow \<or> not_link (map_of t (hs @ [i, n]))"
  shows "node_at (path_string (hs @ [i, n])) follow t = (case map_of t (hs @ [i, n]) of None \<Rightarrow> Inl NotExist | Some x \<Rightarrow> Inr x)"
  using node_at_dirs [of "hs @ [i, n]" t follow] layer_dirs_to [OF assms(1,2)] home_plain [OF assms(1)] assms(3-5)
  by (simp add: node_of_def)

lemma read_in:
  assumes "home_ok d hs (of_nodes s)" "map_of (of_nodes s) (hs @ [i]) = Some ODir" "plain i" "plain n"
  shows "map_of (of_nodes s) (hs @ [i, n]) = Some (OFile c) \<Longrightarrow> os_ReadFile (ov_sys d) (path_string (hs @ [i, n])) s = Inr c"
    and "map_of (of_nodes s) (hs @ [i, n]) = None \<Longrightarrow> os_ReadFile (ov_sys d) (path_string (hs @ [i, n])) s = Inl NotExist"
    and "map_of (of_nodes s) (hs @ [i, n]) = Some (OLink l) \<Longrightarrow> os_Readlink (ov_sys d) (path_string (hs @ [i, n])) s = Inr l"
  using node_at_in [OF assms, of True] node_at_in [OF assms, of False] home_sys [OF assms(1)]
  by (simp_all add: ofs_sys_def not_link_def)

lemma lower_dirs_layers:
  assumes h: "home_ok d hs (of_nodes s)"
  shows "list_all (\<lambda>(i, l). layer_at hs (of_nodes s) i l) ls \<Longrightarrow>
    lower_dirs fuel d (map (\<lambda>(i, l). Join [linkDir, l]) ls) s = (Inr (map (\<lambda>(i, l). path_string (hs @ [i, ''diff''])) ls), s)"
proof (induction ls)
  case (Cons x ls)
  obtain i l where x: "x = (i, l)" by (cases x)
  have i: "plain i" "plain l" "map_of (of_nodes s) (hs @ [linkDir, l]) = Some (OLink (''../'' @ i @ ''/diff''))"
    using Cons.prems by (auto simp: x layer_at_def link_name_def Join_up)
  have r: "os_Readlink (ov_sys d) (path_string (hs @ [linkDir, l])) s = Inr (''../'' @ i @ ''/diff'')"
    using read_in(3) [OF h home_link_dir [OF h] _ i(2)] i(3) by simp
  have c: "Clean (path_string (hs @ [i, ''diff''])) = path_string (hs @ [i, ''diff''])"
    by (rule Clean_path_string) (use home_plain [OF h] i in simp)
  show ?case
    using Cons i r c ov_dir_home2 [OF h _ i(2), of linkDir] ov_dir_home2 [OF h i(1), of "''diff''"]
    by (simp add: x bind_def gets_def read_relinking_def query_def Join_link_up [OF i(1), simplified])
qed simp

lemma no_colon_link: "layer_at hs t i l \<Longrightarrow> CHR '':'' \<notin> set (Join [linkDir, l])"
  using Join_plain [of linkDir l] by (auto simp: layer_at_def link_name_def) (simp add: linkDir_def)

lemma getLowerDirs_stacked:
  assumes h: "home_ok d hs (of_nodes s)" and st: "stacked hs (of_nodes s) ident lid ls"
  shows "getLowerDirs fuel d ident s = (Inr (map (\<lambda>(i, l). path_string (hs @ [i, ''diff''])) ls), s)"
proof -
  have l: "layer_at hs (of_nodes s) ident lid" "list_all (\<lambda>(i, l). layer_at hs (of_nodes s) i l) ls" using st by (auto simp: stacked_def)
  then have p: "plain ident" "map_of (of_nodes s) (hs @ [ident]) = Some ODir" by (auto simp: layer_at_def)
  note rd = read_in [OF h p(2,1), of lowerFile, simplified]
  have dir: "Join [ov_dir d ident s, lowerFile] = path_string (hs @ [ident, lowerFile])"
    using ov_dir_home1 [OF h p(1)] home_plain [OF h] p(1) Join_home1 [of "hs @ [ident]" lowerFile] by simp
  show ?thesis
  proof (cases "ls = []")
    case True
    then show ?thesis using st rd(2) by (simp add: getLowerDirs_def bind_def query_def dir stacked_def)
  next
    case False
    have "\<forall>x \<in> set (map (\<lambda>(i, l). Join [linkDir, l]) ls). CHR '':'' \<notin> set x"
      using l(2) no_colon_link by (fastforce simp: list_all_iff)
    then have "split_on (CHR '':'') (join_with (CHR '':'') (map (\<lambda>(i, l). Join [linkDir, l]) ls)) = map (\<lambda>(i, l). Join [linkDir, l]) ls"
      using False by (intro split_on_join_with) auto
    then show ?thesis using st False rd(1) lower_dirs_layers [OF h l(2), of fuel]
      by (simp add: getLowerDirs_def bind_def query_def dir stacked_def)
  qed
qed

end
