(* ===== verification/OverlayCreate.thy ===== *)
theory OverlayCreate
  imports OverlayProps
begin

text \<open>
  Creation of layers by the overlay driver, \<open>create\<close> of \<^verbatim>\<open>drivers/overlay/overlay.go\<close>, on the
  file system of \<open>OverlayFs\<close> when no call fails: the new layer is stacked on its parent, and what was
  there before is left as it was.
\<close>

section \<open>Calls that succeed\<close>

abbreviation quiet :: "(path \<times> onode) list \<Rightarrow> ofs" where
  "quiet t \<equiv> \<lparr>of_nodes = t, of_faults = []\<rparr>"

lemma quiet_do: "ofs_call c t = Inr t' \<Longrightarrow> os_Do ofs_sys c (quiet t) = (Inr (), quiet t')"
  by (simp add: ofs_sys_def ofs_do_def)

lemma quiet_chown: "SafeChown ofs_sys p u g (quiet t) = (Inr (), quiet t)"
  by (simp add: SafeChown_def bind_def query_def quiet_do)

lemma quiet_chown_dirs: "chown_dirs ofs_sys u g ps (quiet t) = (Inr (), quiet t)"
  by (induction ps) (simp_all add: bind_def quiet_chown)

lemma stat_node: "os_Stat ofs_sys p (quiet t) = map_sum id onode_stat (node_at p True t)"
  "os_Lstat ofs_sys p (quiet t) = map_sum id onode_stat (node_at p False t)"
  by (simp_all add: ofs_sys_def)

lemma IsDir_onode [simp]: "IsDir (onode_stat ODir)"
  by (simp add: IsDir_def onode_stat_def S_IFMT_def S_IFDIR_def)

lemma quiet_mkdir_there: "node_at p True t = Inr ODir \<Longrightarrow> mkdirAs ofs_sys p m u g al ex (quiet t) = (Inr (), quiet t)"
  by (simp add: mkdirAs_def bind_def query_def stat_node quiet_chown)

text \<open>A path that is vacant: its directory is there and it is not.\<close>

definition vacant :: "(path \<times> onode) list \<Rightarrow> path \<Rightarrow> bool" where
  "vacant t q \<longleftrightarrow> q \<noteq> [] \<and> list_all plain q \<and> dirs_to t q \<and> map_of t q = None"

lemma free_resolve: "vacant t q \<Longrightarrow> resolve_path (path_string q) follow t = Inr q"
  using resolve_path_dirs [of q t follow] by (simp add: vacant_def not_link_def)

lemma free_node_at: "vacant t q \<Longrightarrow> node_at (path_string q) follow t = Inl NotExist"
  by (simp add: node_at_def free_resolve) (simp add: node_of_def vacant_def)

lemma free_add: "vacant t q \<Longrightarrow> add_node (path_string q) n t = Inr (AList.update q n t)"
  and free_write: "vacant t q \<Longrightarrow> write_node (path_string q) c t = Inr (AList.update q (OFile c) t)"
  by (simp_all add: add_node_def write_node_def free_resolve) (simp_all add: node_of_def vacant_def)

lemma mkdirs_free:
  assumes "list_all plain es" "es \<noteq> []" "\<And>p. p \<noteq> [] \<Longrightarrow> strict_prefix p es \<Longrightarrow> map_of t (cur @ p) = Some ODir"
    and "map_of t (cur @ es) = None"
  shows "mkdirs links t cur es = Inr (AList.update (cur @ es) ODir t)"
  using assms
proof (induction es arbitrary: cur)
  case (Cons e es)
  have e: "e \<noteq> []" "e \<noteq> ''.''" "e \<noteq> ''..''" using Cons.prems(1) by (auto simp: plain_def)
  show ?case
  proof (cases "es = []")
    case True
    then show ?thesis using Cons.prems(4) e by (simp add: mkdirs.simps)
  next
    case False
    then have d: "map_of t (cur @ [e]) = Some ODir" using Cons.prems(3) [of "[e]"] by (cases es) (auto simp: strict_prefix_def)
    have "mkdirs links t (cur @ [e]) es = Inr (AList.update ((cur @ [e]) @ es) ODir t)"
    proof (rule Cons.IH)
      show "map_of t ((cur @ [e]) @ p) = Some ODir" if "p \<noteq> []" "strict_prefix p es" for p
        using Cons.prems(3) [of "e # p"] that by (simp add: strict_prefix_def)
    qed (use Cons.prems False in auto)
    then show ?thesis using e d by (simp add: mkdirs.simps)
  qed
qed simp

lemma quiet_mkdir_free:
  assumes "vacant t q"
  shows "mkdirAs ofs_sys (path_string q) m u g al ex (quiet t) = (Inr (), quiet (AList.update q ODir t))"
proof -
  have q: "q \<noteq> []" "list_all plain q" "dirs_to t q" "map_of t q = None" using assms by (auto simp: vacant_def)
  have "mkdirs 40 t [] ([] # q) = Inr (AList.update q ODir t)"
    using mkdirs_free [of q t "[]" 40] q by (simp add: dirs_to_def mkdirs.simps)
  then have d: "os_Do ofs_sys (SysMkdirAll (path_string q) m) (quiet t) = (Inr (), quiet (AList.update q ODir t))"
    "os_Do ofs_sys (SysMkdir (path_string q) m) (quiet t) = (Inr (), quiet (AList.update q ODir t))"
    using split_path_string [OF q(2,1)] by (simp_all add: quiet_do free_add [OF assms])
  have "rooted_path (path_string q)" by (simp add: rooted_path_def path_string_def)
  then show ?thesis
    by (simp add: mkdirAs_def bind_def query_def stat_node free_node_at [OF assms] make_all_def d quiet_chown_dirs attempt_def quiet_chown Let_def)
qed

section \<open>File systems that grow\<close>

lemma grows_free: "vacant t q \<Longrightarrow> map_of t \<subseteq>\<^sub>m map_of (AList.update q n t)"
  by (auto simp: map_le_def update_conv' vacant_def)

lemma home_ok_mono: "home_ok d hs t \<Longrightarrow> map_of t \<subseteq>\<^sub>m map_of t' \<Longrightarrow> home_ok d hs t'"
  unfolding home_ok_def map_le_def by (metis domI)

lemma layer_at_mono: "layer_at hs t i l \<Longrightarrow> map_of t \<subseteq>\<^sub>m map_of t' \<Longrightarrow> layer_at hs t' i l"
  unfolding layer_at_def map_le_def by (metis domI)

lemma stacked_mono:
  assumes "stacked hs t i l ls" "map_of t \<subseteq>\<^sub>m map_of t'" "map_of t (hs @ [i, lowerFile]) = None \<Longrightarrow> map_of t' (hs @ [i, lowerFile]) = None"
  shows "stacked hs t' i l ls"
proof -
  have "list_all (\<lambda>(i, l). layer_at hs t' i l) ls"
    using assms(1,2) layer_at_mono by (fastforce simp: stacked_def list_all_iff)
  moreover have "map_of t' (hs @ [i, lowerFile]) = map_of t (hs @ [i, lowerFile])"
    using assms(2,3) by (cases "map_of t (hs @ [i, lowerFile])") (auto simp: map_le_def dom_def)
  ultimately show ?thesis using assms(1,2) layer_at_mono by (auto simp: stacked_def)
qed

section \<open>The names of the layers below\<close>

definition lower_names :: "(string \<times> string) list \<Rightarrow> string list" where
  "lower_names ls = map (\<lambda>(i, l). Join [linkDir, l]) ls"

lemma split_lower_names:
  assumes "list_all (\<lambda>(i, l). layer_at hs t i l) ls" "ls \<noteq> []"
  shows "split_on (CHR '':'') (join_with (CHR '':'') (lower_names ls)) = lower_names ls"
  using assms no_colon_link unfolding lower_names_def by (intro split_on_join_with) (fastforce simp: list_all_iff)+

lemma lower_nonempty: "stacked hs t i l ls \<Longrightarrow> join_with (CHR '':'') (lower_names ((i, l) # ls)) \<noteq> []"
  using Join_plain [of linkDir l] by (auto simp: lower_names_def join_with_def stacked_def layer_at_def link_name_def)

lemma getLower_stacked:
  assumes h: "home_ok d hs t" and st: "stacked hs t parent plid ls"
  shows "getLower fuel d parent (quiet t) = (Inr (join_with (CHR '':'') (lower_names ((parent, plid) # ls))), quiet t)"
proof -
  have p: "plain parent" "map_of t (hs @ [parent]) = Some ODir" "map_of t (hs @ [parent, ''link'']) = Some (OFile plid)"
    and ls: "list_all (\<lambda>(i, l). layer_at hs t i l) ls" using st by (auto simp: stacked_def layer_at_def)
  have hp: "home_ok d hs (of_nodes (quiet t))" "list_all plain hs" using h home_plain [OF h] by simp_all
  note rd = read_in [OF hp(1), of parent, simplified, OF p(2,1)]
  have dir: "Join [path_string (hs @ [parent]), n] = path_string (hs @ [parent, n])" if "plain n" for n
    using Join_home1 [of "hs @ [parent]" n] hp(2) p(1) that by simp
  have l: "os_ReadFile (ov_sys d) (path_string (hs @ [parent, ''link''])) (quiet t) = Inr plid"
    by (rule rd(1)) (use p(3) in simp_all)
  have lo: "(case os_ReadFile (ov_sys d) (path_string (hs @ [parent, lowerFile])) (quiet t) of
      Inl _ \<Rightarrow> [] | Inr c \<Rightarrow> split_on (CHR '':'') c) = lower_names ls"
  proof (cases "ls = []")
    case True
    then have "map_of t (hs @ [parent, lowerFile]) = None" using st by (simp add: stacked_def)
    then show ?thesis using rd(2) [of lowerFile] True by (simp add: lower_names_def)
  next
    case False
    then have "map_of t (hs @ [parent, lowerFile]) = Some (OFile (join_with (CHR '':'') (lower_names ls)))"
      using st by (simp add: stacked_def lower_names_def)
    then show ?thesis using rd(1) [of lowerFile] split_lower_names [OF ls False] by simp
  qed
  have "node_at (path_string (hs @ [parent])) False t = Inr ODir"
    using node_at_dirs [of "hs @ [parent]" t False] home_dirs_to [OF h] hp(2) p by (simp add: node_of_def)
  then have "os_Lstat (ov_sys d) (path_string (hs @ [parent])) (quiet t) = Inr (onode_stat ODir)"
    using home_sys [OF h] by (simp add: stat_node)
  then show ?thesis using l lo ov_dir_home1 [OF h p(1)]
    by (simp add: getLower_def bind_def gets_def query_def read_relinking_def dir lower_names_def)
qed

section \<open>A new layer\<close>

lemma bind_on_os: "m (ovs_sys w) = (Inr x, s') \<Longrightarrow> bind (on_os m) f w = f x (w\<lparr>ovs_sys := s'\<rparr>)"
  by (simp add: bind_def on_os_def)

lemma on_os_Inr: "m (ovs_sys w) = (Inr x, s') \<Longrightarrow> on_os m w = (Inr x, w\<lparr>ovs_sys := s'\<rparr>)"
  by (simp add: on_os_def)

text \<open>What \<open>create\<close> is given: the layer that the new one is put on, if there is one.\<close>

definition below_ok :: "path \<Rightarrow> (path \<times> onode) list \<Rightarrow> string \<Rightarrow> (string \<times> string) list \<Rightarrow> bool" where
  "below_ok hs t parent below \<longleftrightarrow>
     (if parent = [] then below = []
      else case below of [] \<Rightarrow> False | (p, plid) # ls \<Rightarrow> p = parent \<and> stacked hs t parent plid ls)"

definition layer_nodes :: "path \<Rightarrow> string \<Rightarrow> string \<Rightarrow> (string \<times> string) list \<Rightarrow> (path \<times> onode) list" where
  "layer_nodes hs ident lid below =
     [(hs @ [ident, ''diff''], ODir), (hs @ [linkDir, lid], OLink (Join [''..'', ident, ''diff''])),
      (hs @ [ident, ''link''], OFile lid), (hs @ [ident, ''work''], ODir), (hs @ [ident, ''merged''], ODir),
      if below = [] then (hs @ [ident, ''empty''], ODir)
      else (hs @ [ident, lowerFile], OFile (join_with (CHR '':'') (lower_names below)))]"

definition put_nodes :: "(path \<times> onode) list \<Rightarrow> (path \<times> onode) list \<Rightarrow> (path \<times> onode) list" where
  "put_nodes ns t = fold (\<lambda>(q, n). AList.update q n) ns t"

lemma put_nodes_simps [simp]: "put_nodes [] t = t" "put_nodes ((q, n) # ns) t = put_nodes ns (AList.update q n t)"
  by (simp_all add: put_nodes_def)

lemma put_nodes_snoc: "put_nodes (ns @ [(q, n)]) t = AList.update q n (put_nodes ns t)"
  by (simp add: put_nodes_def)

lemma map_of_put_nodes: "distinct (map fst ns) \<Longrightarrow> map_of (put_nodes ns t) = map_of t ++ map_of ns"
proof (induction ns arbitrary: t)
  case (Cons x ns)
  obtain q n where x: "x = (q, n)" by (cases x)
  have "map_of (put_nodes (x # ns) t) = (map_of t)(q \<mapsto> n) ++ map_of ns" using Cons by (simp add: x update_conv')
  moreover have "map_of ns q = None" using Cons.prems by (simp add: x map_of_eq_None_iff image_image)
  ultimately show ?case by (auto simp: x fun_eq_iff map_add_def split: option.splits)
qed simp

lemma free_update: "vacant t q \<Longrightarrow> map_of t p = None \<Longrightarrow> p \<noteq> [] \<Longrightarrow> p \<noteq> q \<Longrightarrow> vacant (AList.update p n t) q"
  by (auto simp: vacant_def dirs_to_def update_conv')

lemma free_step: "vacant t q \<Longrightarrow> vacant t p \<Longrightarrow> p \<noteq> q \<Longrightarrow> vacant (AList.update p n t) q"
  by (rule free_update) (simp_all add: vacant_def)

lemma free_put: "vacant t q \<Longrightarrow> \<forall>p \<in> set (map fst ns). p \<noteq> [] \<and> map_of t p = None \<Longrightarrow> distinct (map fst ns) \<Longrightarrow> q \<notin> set (map fst ns) \<Longrightarrow> vacant (put_nodes ns t) q"
proof (induction ns arbitrary: t)
  case (Cons x ns)
  obtain p n where x: "x = (p, n)" by (cases x)
  have "vacant (put_nodes ns (AList.update p n t)) q"
    by (rule Cons.IH [OF free_update]) (use Cons.prems in \<open>auto simp: x update_conv'\<close>)
  then show ?case by (simp add: x)
qed simp

lemma grows_put:
  assumes "\<forall>p \<in> set (map fst ns). map_of t p = None" "distinct (map fst ns)"
  shows "map_of t \<subseteq>\<^sub>m map_of (put_nodes ns t)"
  unfolding map_of_put_nodes [OF assms(2)] map_le_def
proof
  fix p assume "p \<in> dom (map_of t)"
  then have "p \<notin> set (map fst ns)" using assms(1) by auto
  then have "map_of ns p = None" by (simp add: map_of_eq_None_iff)
  then show "map_of t p = (map_of t ++ map_of ns) p" by (simp add: map_add_def)
qed

text \<open>A place for a new layer with a new link.\<close>

definition place_ok :: "path \<Rightarrow> (path \<times> onode) list \<Rightarrow> string \<Rightarrow> string \<Rightarrow> bool" where
  "place_ok hs t ident lid \<longleftrightarrow>
     plain ident \<and> ident \<noteq> linkDir \<and> link_name lid \<and> map_of t (hs @ [linkDir, lid]) = None \<and>
     (\<forall>p. prefix (hs @ [ident]) p \<longrightarrow> map_of t p = None)"

lemma layer_nodes_distinct: "ident \<noteq> linkDir \<Longrightarrow> distinct (map fst (layer_nodes hs ident lid below))"
  by (simp add: layer_nodes_def lowerFile_def)

lemma layer_nodes_where: "p \<in> set (map fst (layer_nodes hs ident lid below)) \<Longrightarrow> p = hs @ [linkDir, lid] \<or> prefix (hs @ [ident]) p"
  by (auto simp: layer_nodes_def split: if_splits)

text \<open>The file system after \<open>create\<close>.\<close>

definition with_layer :: "path \<Rightarrow> string \<Rightarrow> string \<Rightarrow> (string \<times> string) list \<Rightarrow> (path \<times> onode) list \<Rightarrow> (path \<times> onode) list" where
  "with_layer hs ident lid below t = put_nodes ((hs @ [ident], ODir) # layer_nodes hs ident lid below) t"

lemma with_layer_distinct: "ident \<noteq> linkDir \<Longrightarrow> distinct (map fst ((hs @ [ident], ODir) # layer_nodes hs ident lid below))"
  using layer_nodes_distinct by (simp add: layer_nodes_def)

lemma map_of_with_layer:
  "ident \<noteq> linkDir \<Longrightarrow> map_of (with_layer hs ident lid below t) = map_of t ++ map_of ((hs @ [ident], ODir) # layer_nodes hs ident lid below)"
  unfolding with_layer_def by (rule map_of_put_nodes [OF with_layer_distinct])

lemma with_layer_grows:
  assumes "place_ok hs t ident lid"
  shows "map_of t \<subseteq>\<^sub>m map_of (with_layer hs ident lid below t)"
  unfolding with_layer_def
proof (rule grows_put [OF _ with_layer_distinct])
  show "\<forall>p \<in> set (map fst ((hs @ [ident], ODir) # layer_nodes hs ident lid below)). map_of t p = None"
  proof
    fix p assume "p \<in> set (map fst ((hs @ [ident], ODir) # layer_nodes hs ident lid below))"
    then have "p = hs @ [ident] \<or> p \<in> set (map fst (layer_nodes hs ident lid below))" by simp
    then have "p = hs @ [linkDir, lid] \<or> prefix (hs @ [ident]) p" using layer_nodes_where by blast
    then show "map_of t p = None" using assms by (auto simp: place_ok_def)
  qed
qed (use assms in \<open>simp add: place_ok_def\<close>)

lemma with_layer_elsewhere:
  assumes "ident \<noteq> linkDir" "\<not> prefix (hs @ [ident]) p" "p \<noteq> hs @ [linkDir, lid]"
  shows "map_of (with_layer hs ident lid below t) p = map_of t p"
proof -
  have "p \<notin> set (map fst ((hs @ [ident], ODir) # layer_nodes hs ident lid below))"
    using assms(2,3) layer_nodes_where [of p hs ident lid below] by auto
  then have "map_of ((hs @ [ident], ODir) # layer_nodes hs ident lid below) p = None"
    unfolding map_of_eq_None_iff by simp
  then show ?thesis unfolding map_of_with_layer [OF assms(1)] map_add_def by simp
qed

lemma with_layer_stacked:
  assumes "place_ok hs t ident lid" "below_ok hs t parent below"
  shows "stacked hs (with_layer hs ident lid below t) ident lid below"
proof -
  let ?t = "with_layer hs ident lid below t"
  have i: "ident \<noteq> linkDir" using assms(1) by (simp add: place_ok_def)
  have b: "list_all (\<lambda>(i, l). layer_at hs t i l) below"
    using assms(2) by (auto simp: below_ok_def stacked_def split: if_splits list.splits)
  then have "list_all (\<lambda>(i, l). layer_at hs ?t i l) below"
    using layer_at_mono [OF _ with_layer_grows [OF assms(1)]] by (fastforce simp: list_all_iff)
  then show ?thesis using assms(1) i
    by (auto simp: stacked_def layer_at_def place_ok_def map_of_with_layer layer_nodes_def lower_names_def lowerFile_def)
qed

lemma lower_of_parent:
  assumes h: "home_ok d hs t" and bl: "below_ok hs t parent below" and np: "parent \<noteq> []" and g: "map_of t \<subseteq>\<^sub>m map_of t'"
    and keep: "map_of t' (hs @ [parent, lowerFile]) = map_of t (hs @ [parent, lowerFile])"
  shows "getLower fuel d parent (quiet t') = (Inr (join_with (CHR '':'') (lower_names below)), quiet t')"
    and "below \<noteq> []" and "join_with (CHR '':'') (lower_names below) \<noteq> []"
proof -
  obtain plid ls where b: "below = (parent, plid) # ls" "stacked hs t parent plid ls"
    using bl np by (auto simp: below_ok_def split: list.splits)
  show "getLower fuel d parent (quiet t') = (Inr (join_with (CHR '':'') (lower_names below)), quiet t')"
    using getLower_stacked [OF home_ok_mono [OF h g] stacked_mono [OF b(2) g]] b(1) keep by simp
  show "below \<noteq> []" by (simp add: b(1))
  show "join_with (CHR '':'') (lower_names below) \<noteq> []" using lower_nonempty [OF b(2)] b(1) by simp
qed

lemma fill_layer_quiet:
  assumes h: "home_ok d hs t" and i: "plain ident" "ident \<noteq> linkDir" "map_of t (hs @ [ident]) = Some ODir"
    and fresh: "\<forall>n. map_of t (hs @ [ident, n]) = None" and lid: "plain (take idLength b)" "map_of t (hs @ [linkDir, take idLength b]) = None"
    and bl: "below_ok hs t parent below" and w: "ovs_sys w = quiet t" "ovs_rand w = b # bs"
  shows "fill_layer fuel d ident (path_string (hs @ [ident])) parent perms u g w =
    (Inr (), w\<lparr>ovs_sys := quiet (put_nodes (layer_nodes hs ident (take idLength b) below) t), ovs_rand := bs\<rparr>)"
proof -
  let ?l = "take idLength b"
  have hp: "list_all plain hs" "ov_sys d = ofs_sys" "ov_home d = path_string hs"
    using home_plain [OF h] home_sys [OF h] home_string [OF h] by simp_all
  have dir: "Join [path_string (hs @ [ident]), n] = path_string (hs @ [ident, n])" if "plain n" for n
    using Join_home1 [of "hs @ [ident]" n] hp(1) i(1) that by simp
  have link: "Join [path_string hs, linkDir, ?l] = path_string (hs @ [linkDir, ?l])"
    using Join_home [OF hp(1), of "[linkDir, ?l]"] lid(1) by (simp add: Join.simps path_string_def)
  have f: "vacant t (hs @ [ident, n])" if "plain n" for n
    using layer_dirs_to [OF h i(3)] fresh hp(1) i(1) that by (simp add: vacant_def)
  have fl: "vacant t (hs @ [linkDir, ?l])"
    using layer_dirs_to [OF h home_link_dir [OF h]] lid hp(1) by (simp add: vacant_def)
  define t1 where "t1 = AList.update (hs @ [ident, ''diff'']) ODir t"
  define t2 where "t2 = AList.update (hs @ [linkDir, ?l]) (OLink (Join [''..'', ident, ''diff''])) t1"
  define t3 where "t3 = AList.update (hs @ [ident, ''link'']) (OFile ?l) t2"
  define t4 where "t4 = AList.update (hs @ [ident, ''work'']) ODir t3"
  define t5 where "t5 = AList.update (hs @ [ident, ''merged'']) ODir t4"
  note ts = t1_def t2_def t3_def t4_def t5_def
  have ne: "lowerFile \<notin> {''diff'', ''link'', ''work'', ''merged''}" by (simp add: lowerFile_def)
  have fr: "vacant t1 (hs @ [linkDir, ?l])" "vacant t2 (hs @ [ident, ''link''])" "vacant t3 (hs @ [ident, ''work''])"
    "vacant t4 (hs @ [ident, ''merged''])" "vacant t5 (hs @ [ident, ''empty''])" "vacant t5 (hs @ [ident, lowerFile])"
    unfolding ts by (intro free_step f fl; use i(2) ne in auto)+
  have m: "mkdirAs ofs_sys (path_string (hs @ [ident, ''diff''])) perms u g False True (quiet t) = (Inr (), quiet t1)"
    "mkdirAs ofs_sys (path_string (hs @ [ident, ''work''])) 0x1C0 u g False True (quiet t3) = (Inr (), quiet t4)"
    "mkdirAs ofs_sys (path_string (hs @ [ident, ''merged''])) 0x1C0 u g False True (quiet t4) = (Inr (), quiet t5)"
    "mkdirAs ofs_sys (path_string (hs @ [ident, ''empty''])) 0x1C0 u g False True (quiet t5) =
       (Inr (), quiet (AList.update (hs @ [ident, ''empty'']) ODir t5))"
    using quiet_mkdir_free [OF f, of "''diff''"] quiet_mkdir_free [OF fr(3)] quiet_mkdir_free [OF fr(4)] quiet_mkdir_free [OF fr(5)]
    by (simp_all add: t1_def t4_def t5_def)
  have wr: "os_Do ofs_sys (SysSymlink (Join [''..'', ident, ''diff'']) (path_string (hs @ [linkDir, ?l]))) (quiet t1) = (Inr (), quiet t2)"
    "os_Do ofs_sys (SysWriteFile (path_string (hs @ [ident, ''link''])) 0x1A4 ?l) (quiet t2) = (Inr (), quiet t3)"
    "os_Do ofs_sys (SysWriteFile (path_string (hs @ [ident, lowerFile])) 0x1B6 c) (quiet t5) =
       (Inr (), quiet (AList.update (hs @ [ident, lowerFile]) (OFile c) t5))" for c
    using free_add [OF fr(1)] free_write [OF fr(2)] free_write [OF fr(6)] by (simp_all add: quiet_do t2_def t3_def)
  have g: "map_of t \<subseteq>\<^sub>m map_of t5"
  proof -
    note map_le_trans [trans]
    have "map_of t \<subseteq>\<^sub>m map_of t1" unfolding t1_def by (rule grows_free [OF f]) simp
    also have "map_of t1 \<subseteq>\<^sub>m map_of t2" unfolding t2_def by (rule grows_free [OF fr(1)])
    also have "map_of t2 \<subseteq>\<^sub>m map_of t3" unfolding t3_def by (rule grows_free [OF fr(2)])
    also have "map_of t3 \<subseteq>\<^sub>m map_of t4" unfolding t4_def by (rule grows_free [OF fr(3)])
    also have "map_of t4 \<subseteq>\<^sub>m map_of t5" unfolding t5_def by (rule grows_free [OF fr(4)])
    finally show ?thesis .
  qed
  have keep: "map_of t5 (hs @ [i, lowerFile]) = map_of t (hs @ [i, lowerFile])" if "i \<noteq> ident" "i \<noteq> linkDir" for i
    using that by (simp add: ts update_conv')
  have "parent \<noteq> ident \<and> parent \<noteq> linkDir" if "parent \<noteq> []"
    using bl that fresh by (auto simp: below_ok_def stacked_def layer_at_def split: list.splits)
  then have low: "getLower fuel d parent (quiet t5) = (Inr (join_with (CHR '':'') (lower_names below)), quiet t5)"
    "below \<noteq> []" "join_with (CHR '':'') (lower_names below) \<noteq> []" if "parent \<noteq> []"
    using lower_of_parent [OF h bl that g] keep [of parent] that by simp_all
  have "parent = [] \<longleftrightarrow> below = []" using bl low(2) by (auto simp: below_ok_def)
  then show ?thesis using m wr low w
    by (auto simp: fill_layer_def bind_def on_os_def hp dir link overlay_generateID_def layer_nodes_def Let_def ts)
qed

lemma dir_node:
  assumes "home_ok d hs t" "map_of t (hs @ [i]) = Some ODir" "plain i"
  shows "node_at (path_string (hs @ [i])) follow t = Inr ODir"
  using node_at_dirs [of "hs @ [i]" t follow] home_dirs_to [OF assms(1)] home_plain [OF assms(1)] assms(2,3)
  by (simp add: node_of_def not_link_def)

lemma home_node: "home_ok d hs t \<Longrightarrow> node_at (path_string hs) follow t = Inr ODir"
  using node_at_dirs [of hs t follow] unfolding home_ok_def dirs_to_def
  by (cases "hs = []") (auto simp: node_of_def not_link_def strict_prefix_def)

text \<open>
  The directory of the parent, which has to be there, and its \<open>diff\<close>.
\<close>

lemma parent_nodes:
  assumes "home_ok d hs t" "below_ok hs t parent below" "parent \<noteq> []"
  shows "os_Stat (ov_sys d) (ov_dir d parent s) (quiet t) = Inr (onode_stat ODir)"
    and "os_Stat (ov_sys d) (Join [ov_dir d parent s, ''diff'']) (quiet t) = Inr (onode_stat ODir)"
proof -
  have p: "plain parent" "map_of t (hs @ [parent]) = Some ODir" "map_of t (hs @ [parent, ''diff'']) = Some ODir"
    using assms(2,3) by (auto simp: below_ok_def stacked_def layer_at_def split: list.splits)
  have dir: "Join [path_string (hs @ [parent]), ''diff''] = path_string (hs @ [parent, ''diff''])"
    using Join_home1 [of "hs @ [parent]" "''diff''"] home_plain [OF assms(1)] p(1) by simp
  show "os_Stat (ov_sys d) (ov_dir d parent s) (quiet t) = Inr (onode_stat ODir)"
    using dir_node [OF assms(1) p(2,1)] ov_dir_home1 [OF assms(1) p(1)] home_sys [OF assms(1)] by (simp add: stat_node)
  show "os_Stat (ov_sys d) (Join [ov_dir d parent s, ''diff'']) (quiet t) = Inr (onode_stat ODir)"
    using node_at_in [OF assms(1) p(2,1), of "''diff''" True] p(3) ov_dir_home1 [OF assms(1) p(1)] home_sys [OF assms(1)]
    by (simp add: stat_node dir not_link_def)
qed

lemma ov_create_quiet:
  assumes h: "home_ok d hs t" and pl: "place_ok hs t ident (take idLength b)" and bl: "below_ok hs t parent below"
    and w: "ovs_sys w = quiet t" "ovs_rand w = b # bs" and q: "ov_SetQuota d = None"
    and root: "GetRootUIDGID (fst maps) (snd maps) = (ug, None)"
    and maps: "maps = (case mappings of None \<Rightarrow> (ov_uidMaps d, ov_gidMaps d) | Some m \<Rightarrow> (uids m, gids m))"
  shows "ov_create fuel d ident parent mappings storageOpt disableQuota w =
    (Inr (), w\<lparr>ovs_sys := quiet (with_layer hs ident (take idLength b) below t), ovs_rand := bs\<rparr>)"
proof -
  obtain u g where ug: "ug = (u, g)" by (cases ug)
  have i: "plain ident" "ident \<noteq> linkDir" using pl by (auto simp: place_ok_def)
  have hp: "list_all plain hs" "ov_sys d = ofs_sys" "ov_home d = path_string hs"
    using home_plain [OF h] home_sys [OF h] home_string [OF h] by simp_all
  let ?t = "AList.update (hs @ [ident]) ODir t"
  have f: "vacant t (hs @ [ident])" using home_dirs_to [OF h] hp(1) i(1) pl by (simp add: vacant_def place_ok_def)
  have g: "map_of t \<subseteq>\<^sub>m map_of ?t" by (rule grows_free [OF f])
  have h': "home_ok d hs ?t" by (rule home_ok_mono [OF h g])
  have bl': "below_ok hs ?t parent below"
    using bl stacked_mono [OF _ g] by (auto simp: below_ok_def update_conv' split: list.splits if_splits)
  have dir: "Dir (path_string (hs @ [ident])) = path_string hs" using Dir_Base_path_string(1) [of "hs @ [ident]"] hp(1) i(1) by simp
  have mk: "MkdirAllAndChownNew ofs_sys (path_string (hs @ [linkDir])) 0x1C0 ids (quiet t) = (Inr (), quiet t)"
    "MkdirAllAndChownNew ofs_sys (path_string hs) 0x1C0 ids (quiet t) = (Inr (), quiet t)"
    "MkdirAllAndChownNew ofs_sys (path_string (hs @ [ident])) 0x1C0 ids (quiet t) = (Inr (), quiet ?t)" for ids
    using quiet_mkdir_there [OF dir_node [OF h home_link_dir [OF h]]] quiet_mkdir_there [OF home_node [OF h]] quiet_mkdir_free [OF f]
    by (simp_all add: MkdirAllAndChownNew_def)
  have fill: "fill_layer fuel d ident (path_string (hs @ [ident])) parent perms u' g' (w\<lparr>ovs_sys := quiet ?t\<rparr>) =
      (Inr (), w\<lparr>ovs_sys := quiet (with_layer hs ident (take idLength b) below t), ovs_rand := bs\<rparr>)" for perms u' g'
    using fill_layer_quiet [OF h' i _ _ _ _ bl', of b "w\<lparr>ovs_sys := quiet ?t\<rparr>" bs fuel perms u' g'] pl w(2) hp(1)
    by (simp add: place_ok_def link_name_def with_layer_def update_conv')
  show ?thesis
    using mk fill parent_nodes [OF h bl] parent_nodes [OF h' bl'] q w(1) root [unfolded ug maps] ov_dir_home1 [OF h i(1)]
    by (cases "parent = []") (simp_all add: ov_create_def Let_def bind_def on_os_def gets_def query_def layer_perms_def hp dir
        set_quota_def undo_on_error_def split: prod.splits)
qed

lemma with_layer_keeps:
  assumes "place_ok hs t ident lid" "stacked hs t i l ls"
  shows "stacked hs (with_layer hs ident lid below t) i l ls"
proof (rule stacked_mono [OF assms(2) with_layer_grows [OF assms(1)]])
  have i: "i \<noteq> ident" "i \<noteq> linkDir" "ident \<noteq> linkDir" using assms by (auto simp: place_ok_def stacked_def layer_at_def)
  then show "map_of (with_layer hs ident lid below t) (hs @ [i, lowerFile]) = None" if "map_of t (hs @ [i, lowerFile]) = None"
    using with_layer_elsewhere [of ident hs "hs @ [i, lowerFile]" lid below t] that by simp
qed

text \<open>
  C20: layers are stacked.  On a file system whose calls succeed, \<open>create\<close> makes a layer with a new
  identifier and a new link name, with or without a parent.  The lower directories of the new layer are
  then the \<open>diff\<close> of its parent, followed by those of the layers below the parent; every layer that was
  there before has the same layers below it as before, and nothing but the directory of the layer and
  its link in \<open>l\<close> has changed.
\<close>

theorem ov_create_stacks:
  assumes "home_ok d hs t" "place_ok hs t ident (take idLength b)" "below_ok hs t parent below"
    and "ovs_sys w = quiet t" "ovs_rand w = b # bs" "ov_SetQuota d = None" "snd (GetRootUIDGID (ov_uidMaps d) (ov_gidMaps d)) = None"
  shows "\<exists>t'. ov_create fuel d ident parent None storageOpt disableQuota w = (Inr (), w\<lparr>ovs_sys := quiet t', ovs_rand := bs\<rparr>) \<and>
    home_ok d hs t' \<and> stacked hs t' ident (take idLength b) below \<and>
    getLowerDirs fuel' d ident (quiet t') = (Inr (map (\<lambda>(i, l). path_string (hs @ [i, ''diff''])) below), quiet t') \<and>
    (\<forall>i l ls. stacked hs t i l ls \<longrightarrow> stacked hs t' i l ls) \<and>
    (\<forall>p. \<not> prefix (hs @ [ident]) p \<longrightarrow> p \<noteq> hs @ [linkDir, take idLength b] \<longrightarrow> map_of t' p = map_of t p)"
proof -
  let ?t = "with_layer hs ident (take idLength b) below t"
  have run: "ov_create fuel d ident parent None storageOpt disableQuota w = (Inr (), w\<lparr>ovs_sys := quiet ?t, ovs_rand := bs\<rparr>)"
    by (rule ov_create_quiet [OF assms(1-6), of "(ov_uidMaps d, ov_gidMaps d)" "fst (GetRootUIDGID (ov_uidMaps d) (ov_gidMaps d))"])
      (use assms(7) in \<open>simp_all add: prod_eq_iff\<close>)
  have h: "home_ok d hs ?t" by (rule home_ok_mono [OF assms(1) with_layer_grows [OF assms(2)]])
  have st: "stacked hs ?t ident (take idLength b) below" by (rule with_layer_stacked [OF assms(2,3)])
  have low: "getLowerDirs fuel' d ident (quiet ?t) = (Inr (map (\<lambda>(i, l). path_string (hs @ [i, ''diff''])) below), quiet ?t)"
    using getLowerDirs_stacked [of d hs "quiet ?t"] h st by simp
  have "ident \<noteq> linkDir" using assms(2) by (simp add: place_ok_def)
  then show ?thesis using run h st low with_layer_keeps [OF assms(2)] with_layer_elsewhere [of ident hs _ "take idLength b" below t] by blast
qed

section \<open>An example\<close>

definition sample_overlay :: "ofs overlayDriver" where
  "sample_overlay =
     \<lparr>ov_name = ''overlay'', ov_home = ''/h'', ov_runhome = ''/r'', ov_uidMaps = None, ov_gidMaps = None, ov_options = no_overlay_options,
      ov_usingMetacopy = False, ov_sys = ofs_sys, ov_IsMounted = (\<lambda>_ _. False), ov_IsRootless = False, ov_Getpagesize = 4096,
      ov_FormatMountLabel = (\<lambda>opts _. opts), ov_SetQuota = None, ov_projectQuotaSupported = False, ov_doesVolatile = ret False,
      ov_RAMInBytes = (\<lambda>_. Inr 0)\<rparr>"

definition sample_nodes :: "(path \<times> onode) list" where
  "sample_nodes =
     [([''h''], ODir), ([''h'', ''l''], ODir), ([''h'', ''a''], ODir), ([''h'', ''a'', ''diff''], ODir),
      ([''h'', ''a'', ''link''], OFile ''LA''), ([''h'', ''l'', ''LA''], OLink ''../a/diff'')]"

lemma sample_ok:
  "home_ok sample_overlay [''h''] sample_nodes" "place_ok [''h''] sample_nodes ''b'' ''LB''"
  "below_ok [''h''] sample_nodes ''a'' [(''a'', ''LA'')]"
proof -
  have ln: "link_name ''LA''" "link_name ''LB''" by code_simp+
  show "home_ok sample_overlay [''h''] sample_nodes"
    by (auto simp: home_ok_def sample_overlay_def sample_nodes_def path_string_def no_overlay_options_def linkDir_def plain_def prefix_Cons)
  show "place_ok [''h''] sample_nodes ''b'' ''LB''"
    using ln by (auto simp: place_ok_def sample_nodes_def linkDir_def plain_def prefix_Cons)
  have "Join [''..'', ''a'', ''diff''] = ''../a/diff''" by (simp add: Join_up plain_def)
  then show "below_ok [''h''] sample_nodes ''a'' [(''a'', ''LA'')]"
    using ln by (simp add: below_ok_def stacked_def layer_at_def sample_nodes_def linkDir_def plain_def lowerFile_def)
qed

theorem ov_create_stacks_witness:
  "\<exists>t'. ov_create 0 sample_overlay ''b'' ''a'' None [] True
      \<lparr>ovs_sys = quiet sample_nodes, ovs_counts = [], ovs_supportsVolatile = None, ovs_rand = [''LB'']\<rparr> =
    (Inr (), \<lparr>ovs_sys = quiet t', ovs_counts = [], ovs_supportsVolatile = None, ovs_rand = []\<rparr>) \<and>
    getLowerDirs 0 sample_overlay ''b'' (quiet t') = (Inr [''/h/a/diff''], quiet t')"
proof -
  let ?w = "\<lparr>ovs_sys = quiet sample_nodes, ovs_counts = [], ovs_supportsVolatile = None, ovs_rand = [''LB'']\<rparr> :: ofs overlayState"
  have l: "take idLength ''LB'' = ''LB''" by (simp add: idLength_def)
  have "ov_SetQuota sample_overlay = None" "snd (GetRootUIDGID (ov_uidMaps sample_overlay) (ov_gidMaps sample_overlay)) = None"
    by (simp_all add: sample_overlay_def GetRootUIDGID_def root_id_def slice_of_def toHost_def)
  then have "\<exists>t'. ov_create 0 sample_overlay ''b'' ''a'' None [] True ?w = (Inr (), ?w\<lparr>ovs_sys := quiet t', ovs_rand := []\<rparr>) \<and>
      getLowerDirs 0 sample_overlay ''b'' (quiet t') =
        (Inr (map (\<lambda>(i, l). path_string ([''h''] @ [i, ''diff''])) [(''a'', ''LA'')]), quiet t')"
    using ov_create_stacks [OF sample_ok(1) _ sample_ok(3), of "''b''" "''LB''" ?w "[]" 0 "[]" True 0] sample_ok(2) l by auto
  then show ?thesis by (simp add: path_string_def)
qed

section \<open>Two links for one layer\<close>

text \<open>
  \<open>recreateSymlinks\<close> repeats its pass as long as one makes progress.  With two links in \<open>l\<close> to the same
  layer every pass writes the name of each into the file \<open>link\<close> of the layer, and the loop has no end.
\<close>

definition twice_linked :: "(path \<times> onode) list" where
  "twice_linked = sample_nodes @ [([''h'', ''l'', ''LB''], OLink ''../a/diff'')]"

definition relinked :: ofs where
  "relinked = quiet (AList.update [''h'', ''a'', ''link''] (OFile ''LB'') twice_linked)"

lemma relink_pass_turns:
  "relink_pass sample_overlay [''a''] (quiet twice_linked) = (Inr (True, False), relinked)"
  "relink_pass sample_overlay [''a''] relinked = (Inr (True, False), relinked)"
  by code_simp+

lemma relink_loop_turns: "relink_loop fuel sample_overlay [''a''] relinked = (Inl (Blocked ''recreateSymlinks''), relinked)"
  by (induction fuel) (simp_all add: bind_def relink_pass_turns)

lemma recreateSymlinks_start: "recreateSymlinks fuel sample_overlay (quiet twice_linked) = relink_loop fuel sample_overlay [''a''] (quiet twice_linked)"
proof -
  have "ReadDir (ov_sys sample_overlay) (ov_home sample_overlay) (quiet twice_linked) = Inr [(''a'', onode_stat ODir), (''l'', onode_stat ODir)]"
    by code_simp
  moreover have "GetRootUIDGID (ov_uidMaps sample_overlay) (ov_gidMaps sample_overlay) = ((0, 0), None)" by code_simp
  moreover have "mkdirAs (ov_sys sample_overlay) (Join [ov_home sample_overlay, linkDir]) 0x1C0 0 0 True True (quiet twice_linked) =
      (Inr (), quiet twice_linked)" by code_simp
  ultimately show ?thesis by (simp add: recreateSymlinks_def bind_def query_def linkDir_def)
qed

theorem recreateSymlinks_two_links: "fst (recreateSymlinks fuel sample_overlay (quiet twice_linked)) = Inl (Blocked ''recreateSymlinks'')"
  by (cases fuel) (simp_all add: recreateSymlinks_start bind_def relink_pass_turns relink_loop_turns)

end
