(* ===== verification/Spec2Isabelle.thy ===== *)
theory Spec2Isabelle
  imports StoreProps ArchiveExport ArchiveUntar OverlayCreate
begin

text \<open>
  A verification development for the \<^emph>\<open>containers/storage\<close> library: the bookkeeping of
  containers, images and layers on disk, the store that combines them, and the identifier arithmetic
  around it.

  \<^bold>\<open>The program.\<close>  A \<^emph>\<open>store\<close> (\<^verbatim>\<open>store.go\<close>) combines a container store
  (\<^verbatim>\<open>containers.go\<close>), image stores (\<^verbatim>\<open>images.go\<close>) and layer stores
  (\<^verbatim>\<open>layers.go\<close>).  Each keeps a slice of records with indexes by identifier, name and
  prefix, writes the slice as one JSON document, and shares the directory with other processes
  through a lock file (\<^verbatim>\<open>pkg/lockfile\<close>).  A layer store keeps the contents of its layers in
  a graph driver (\<^verbatim>\<open>drivers/\<close>); contents enter and leave as archives and lists of changes
  (\<^verbatim>\<open>pkg/archive\<close>).  User namespaces (\<^verbatim>\<open>userns.go\<close>,
  \<^verbatim>\<open>idset.go\<close>, \<^verbatim>\<open>pkg/idtools\<close>) map container IDs to host IDs.

  \<^bold>\<open>The theories.\<close>

  \<^item> \<open>Prelude\<close>: errors (\<^verbatim>\<open>types/errors.go\<close>), the type of stateful Go functions with deferred calls,
    invariants (\<open>keeps\<close>) and postconditions (\<open>ensures\<close>) of such functions, slices of strings, numerals.
  \<^item> \<open>IdTools\<close>: \<^verbatim>\<open>pkg/idtools\<close> and \<^verbatim>\<open>types/idmappings.go\<close>.  \<open>IdSet\<close>:
    \<^verbatim>\<open>idset.go\<close> and the interval set it calls.  \<open>UserNS\<close>: the arithmetic of
    \<^verbatim>\<open>userns.go\<close>.
  \<^item> \<open>Types\<close>: the persisted records and what JSON keeps of them.  \<open>World\<close>: the file system, the
    failures of system calls to come, randomness and the clock; random identifiers
    (\<^verbatim>\<open>pkg/stringid\<close>).  \<open>Filepath\<close>: paths as the code cleans and joins them.
  \<^item> \<open>TruncIndex\<close>: \<^verbatim>\<open>pkg/truncindex\<close>.  \<open>Lockfile\<close>: \<^verbatim>\<open>pkg/lockfile\<close>, one process
    and several.  \<open>BigData\<close>: file names and bookkeeping of big data items.
  \<^item> \<open>ItemStore\<close>: the slice, the indexes and the loops the three stores share, with the locale
    \<open>named_item\<close>.  \<open>Containers\<close> and \<open>Images\<close>: the two stores, each an interpretation of it.
  \<^item> \<open>Driver\<close>: the interface of the graph drivers as a record of operations, the \<^verbatim>\<open>vfs\<close> driver with
    the generic differences, and the locale \<open>graph_driver\<close> of what the layer store relies on, interpreted
    for \<^verbatim>\<open>vfs\<close>.  \<open>DriverNew\<close>: registration and choice of a driver.
  \<^item> \<open>Layers\<close>: the layer store.  \<open>LayersInv\<close>: every operation keeps its indexes.  \<open>LayersFun\<close>: what \<open>Put\<close> and
    \<open>Delete\<close> do to the records, the driver and the document.  \<open>LayersTerm\<close>: its loops end.
    \<open>LayersProps\<close>: the properties.
  \<^item> \<open>Store\<close>: the state of the store, its locks and the loops over its parts.  \<open>StoreOpen\<close>: \<open>GetStore\<close>, \<open>load\<close> and the
    parts.  \<open>StoreQuery\<close>: lookups, lists, sizes.  \<open>StoreUpdate\<close>: creation and changes, with the parts of
    \<^verbatim>\<open>userns.go\<close> that use the stores.  \<open>StoreDelete\<close>, \<open>StoreMount\<close>: the rest of \<^verbatim>\<open>store.go\<close>.
  \<^item> \<open>Steady\<close>, \<open>StoreLocks\<close>, \<open>StoreSteady\<close>: lock discipline, first of the operations of the parts, then of the
    locks of a store (the locale \<open>lock_slot\<close>, interpreted for its five kinds of locks), then of every
    operation of the store.  \<open>StoreGuards\<close>: what the deleting operations check.  \<open>StoreLookup\<close>: \<open>Exists\<close>
    against \<open>Lookup\<close>.  \<open>StoreProps\<close>: the properties of the store.
  \<^item> \<open>ArchiveChanges\<close>: the comparison of two directories (\<^verbatim>\<open>changes.go\<close>, \<^verbatim>\<open>changes_linux.go\<close> of
    \<^verbatim>\<open>pkg/archive\<close>).  \<open>ArchiveChangesTree\<close>: what the comparison of two trees reports.  \<open>ArchiveWalk\<close>: the trees that the
    parallel walk collects.  \<open>ArchiveProps\<close>: the properties of the comparison.
  \<^item> \<open>PathRel\<close>: \<open>filepath.Join\<close> and \<open>Rel\<close>.  \<open>ArchiveTar\<close>: the operating system as a record of operations, \<open>filepath.Walk\<close>, and
    the extraction of one entry (\<open>createTarFile\<close>).  \<open>ArchiveUnpack\<close>: \<open>UnpackLayer\<close> of \<^verbatim>\<open>diff.go\<close>.  \<open>ArchiveConfined\<close>: where it
    writes.  \<open>ArchiveLayers\<close>: the changes of aufs and overlay layers, and the conversion of whiteouts.  \<open>ArchiveUntar\<close>: \<open>Unpack\<close>
    with \<open>mkdirAs\<close>.  \<open>ArchiveExport\<close>: \<open>addTarFile\<close> and \<open>ExportChanges\<close>.
  \<^item> \<open>Mount\<close>: the mount options of \<^verbatim>\<open>pkg/mount/flags.go\<close>.  \<open>Overlay\<close>: the overlay driver
    (\<^verbatim>\<open>drivers/overlay\<close>, \<^verbatim>\<open>drivers/counter.go\<close>), its options, its layers on disk with their links,
    and additional layers.  \<open>OverlayMount\<close>: its mounts, and the bound on their options.  \<open>OverlayFs\<close>: a file system as an instance
    of the operating system of \<open>ArchiveTar\<close>.  \<open>OverlayProps\<close>, \<open>OverlayCreate\<close>: layers stacked on that file system by \<open>create\<close>, and a
    state on which \<open>recreateSymlinks\<close> does not end.

  \<^bold>\<open>How the model corresponds to the code.\<close>  A Go method on a store is a function from the store
  and the world to a result and the new store and world; a method that returns an error keeps the
  changes it made before.  Pointers to records are indexes into a heap, because the slice and the
  maps alias the same records; pointers to layer and image stores are positions in the lists of
  the stores that were created.  A wrapped error is represented by its cause.  A panic is an error
  value, and so is waiting for a lock.  Every system call takes its outcome from the list
  \<open>faults\<close> of the world, so a theorem about every world covers every pattern of failures.  The
  range over a map, whose order Go leaves open, runs in the order of an argument or of the
  association list that models the map; so do the goroutines of \<open>DeleteContainer\<close>.  For archives the
  operating system is a parameter instead: the comparison of directories reads a tree that holds every
  answer, and extraction runs on a record of operations over a state that is left open, whose calls a
  log collects; a tar stream is the list of what the reader returns.  The overlay driver runs on the
  same record, with its counters, its cached feature and the random names to come beside the state of the
  system.

  \<^bold>\<open>What is shown.\<close>  Invariants of the three stores under every operation; what creation, deletion,
  renaming and data items do to records, indexes, driver and disk; round trips of saving and loading;
  that a store in use, whatever was called on it, holds no lock between calls and refers only to
  parts that exist; that deletion leaves nothing that refers to what is gone; that loops end; ID maps
  as functions between ID sets; mutual exclusion among processes; that comparing directories finds
  exactly their differences, also where it leaves files out, and lists parents before their children;
  that extraction writes below its destination; round trips of deletions and whiteouts through
  archives; that a new overlay layer has its parent and what is below that as lower directories and
  leaves every other layer as it was, and that the names of the lower layers fit in the page that a mount
  takes.

  \<^bold>\<open>Bounds.\<close>  Loops are structural or have a termination proof; the loop that draws random
  identifiers consumes the list of random blocks, and it is proved to return whenever the list holds
  an acceptable block.  Where a loop of the code need not end on every input the model has a bound, and
  running out of it is a value of its own: the unmounting loop of \<open>Delete\<close> (\<open>unmount_fuel\<close>, the sum of
  the mount counts, proved to suffice) and the walk of \<open>ParentOwners\<close> to the root (the length of the
  path, proved to suffice); the walk of \<open>DeleteImage\<close> (two more than the number of layers,
  proved to suffice unless parents form a cycle); the walks of \<open>ImageSize\<close> and \<open>getMaxSizeFromImage\<close> (one
  round for each name they can meet); the loop of \<open>Shutdown\<close>, which does not end on
  a mounted layer, has its number of rounds as an argument.  \<open>filepath.Walk\<close> descends into what the
  operating system shows and has fuel; the theorems that involve it hold for every fuel and whatever the outcome.
  \<open>recreateSymlinks\<close> and the searches for numbered \<open>diff\<close> directories have fuel too: the first need not end, and on a
  stacked layer none is used.  Go's \<open>int\<close> is unbounded here, \<open>uint32\<close> is
  a 32-bit word and sums of sizes are reduced to 64 bits where the code computes in them.

  \<^bold>\<open>Not modelled.\<close>  The graph drivers that mount file systems except overlay, and of that one \<open>Init\<close> with its test mounts,
  quotas and the application of tar streams; the tar and compression formats and
  what only moves streams (among them \<open>Diff\<close> and \<open>TarWithOptions\<close>), extraction in a separate root, partial pulls, the command line,
  the reading of configuration files, and the process-wide cache of lock objects: they are system
  calls, streams or glue.  The vendored digest and label packages, the parsers of user files, the
  user database, tar readers and decompressors are parameters.
\<close>

end
